(* ===== verification/Prelude.thy ===== *)
theory Prelude
  imports Main "HOL-Library.Word" "HOL-Library.AList" "HOL-Library.Char_ord"
    "HOL-Library.List_Lexorder" "HOL-Library.Multiset"
begin

text \<open>
  Shared vocabulary of the development: the machine integers, the character and number
  routines of the C library, and the standard containers the key-value server is written with.

  \<^item> \<open>int64_t\<close> is \<^typ>\<open>int\<close>, with \<open>i64\<close> (two's complement wrap-around)
    written at every arithmetic operation that can leave the range; \<open>uint64_t\<close> and
    \<open>double\<close> are \<^typ>\<open>64 word\<close>.
  \<^item> \<open>std::string\<close> is \<^typ>\<open>string\<close>; the order of strings is the lexicographic
    order on the unsigned values of the characters, as \<open>std::string::compare\<close> has it.
  \<^item> \<open>std::unordered_map\<close> is an association list with distinct keys whose list order is the
    iteration order of the container; statements quantify over all lists, hence over all
    iteration orders; where an insertion puts a new element is a choice of the model, and no
    statement depends on it. \<open>std::unordered_set\<close> is a distinct list, \<open>std::map\<close> an
    association list ordered by its keys.
\<close>

unbundle bit_operations_syntax

named_theorems store_simps \<open>how the store primitives act on the raw view of the store\<close>
named_theorems wf_rules \<open>preservation of the store invariant\<close>

type_synonym int64 = int
type_synonym uint64 = "64 word"
type_synonym double = "64 word"
type_synonym ('k, 'v) umap = "('k \<times> 'v) list"

subsection \<open>64-bit signed integers\<close>

definition i64 :: "int \<Rightarrow> int64" where
  "i64 x = (x + 2 ^ 63) mod 2 ^ 64 - 2 ^ 63"

definition in_i64 :: "int \<Rightarrow> bool" where
  "in_i64 x \<longleftrightarrow> - (2 ^ 63) \<le> x \<and> x < 2 ^ 63"

text \<open>Division of the language truncates towards zero.\<close>

definition cdiv :: "int \<Rightarrow> int \<Rightarrow> int" where
  "cdiv a b = sgn a * sgn b * (\<bar>a\<bar> div \<bar>b\<bar>)"

definition INT64_MAX :: int where
  "INT64_MAX = 2 ^ 63 - 1"

definition INT64_MIN :: int where
  "INT64_MIN = - (2 ^ 63)"

lemma i64_id [simp]: "in_i64 x \<Longrightarrow> i64 x = x"
  by (simp add: i64_def in_i64_def)

lemma in_i64_i64 [simp]: "in_i64 (i64 x)"
  by (simp add: i64_def in_i64_def pos_mod_bound algebra_simps)

subsection \<open>Characters and decimal numbers\<close>

definition is_digit :: "char \<Rightarrow> bool" where
  "is_digit c \<longleftrightarrow> 48 \<le> (of_char c :: nat) \<and> (of_char c :: nat) \<le> 57"

definition digit_val :: "char \<Rightarrow> nat" where
  "digit_val c = of_char c - 48"

definition digit_char :: "nat \<Rightarrow> char" where
  "digit_char d = char_of (48 + d)"

text \<open>\<open>std::isspace\<close> in the C locale: tab, newline, vertical tab, form feed, return, blank.\<close>

definition is_space :: "char \<Rightarrow> bool" where
  "is_space c \<longleftrightarrow> (of_char c :: nat) = 32 \<or> 9 \<le> (of_char c :: nat) \<and> (of_char c :: nat) \<le> 13"

fun dec_nat :: "nat \<Rightarrow> string" where
  "dec_nat n = (if n < 10 then [digit_char n] else dec_nat (n div 10) @ [digit_char (n mod 10)])"

declare dec_nat.simps [simp del]

text \<open>\<open>std::to_string\<close> on integers.\<close>

definition to_string :: "int \<Rightarrow> string" where
  "to_string n = (if n < 0 then CHR ''-'' # dec_nat (nat (- n)) else dec_nat (nat n))"

definition dec_val :: "string \<Rightarrow> nat" where
  "dec_val s = foldl (\<lambda>a c. 10 * a + digit_val c) 0 s"

text \<open>
  \<open>strtoll (s, &end, 10)\<close>: the value, saturated at the ends of the range as the C standard
  says, and the offset of \<open>end\<close>, which is 0 when there is nothing to convert.
\<close>

definition split_sign :: "string \<Rightarrow> bool \<times> nat \<times> string" where
  "split_sign s = (case s of
     [] \<Rightarrow> (False, 0, [])
   | c # r \<Rightarrow> if c = CHR ''-'' then (True, 1, r) else if c = CHR ''+'' then (False, 1, r)
             else (False, 0, s))"

definition strtoll :: "string \<Rightarrow> int64 \<times> nat" where
  "strtoll s =
     (let ws = takeWhile is_space s;
          (neg, sg, r) = split_sign (dropWhile is_space s);
          ds = takeWhile is_digit r;
          v = (if neg then - int (dec_val ds) else int (dec_val ds))
      in if ds = [] then (0, 0)
         else (max INT64_MIN (min INT64_MAX v), length ws + sg + length ds))"

text \<open>\<open>strtoull\<close>: the value of a negated number wraps, an overflow gives \<open>ULLONG_MAX\<close>.\<close>

definition strtoull :: "string \<Rightarrow> uint64 \<times> nat" where
  "strtoull s =
     (let ws = takeWhile is_space s;
          (neg, sg, r) = split_sign (dropWhile is_space s);
          ds = takeWhile is_digit r;
          v = dec_val ds
      in if ds = [] then (0, 0)
         else (if 2 ^ 64 \<le> v then - 1 else if neg then - of_nat v else of_nat v,
               length ws + sg + length ds))"

definition to_upper :: "char \<Rightarrow> char" where
  "to_upper c = (let n = (of_char c :: nat) in if 97 \<le> n \<and> n \<le> 122 then char_of (n - 32) else c)"

definition to_lower :: "char \<Rightarrow> char" where
  "to_lower c = (let n = (of_char c :: nat) in if 65 \<le> n \<and> n \<le> 90 then char_of (n + 32) else c)"

subsection \<open>Containers\<close>

definition uset_insert :: "'a \<Rightarrow> 'a list \<Rightarrow> 'a list" where
  "uset_insert x xs = (if x \<in> set xs then xs else xs @ [x])"

text \<open>\<open>operator[]\<close> of an ordered map, as an assignment.\<close>

fun omap_put :: "'k::linorder \<Rightarrow> 'v \<Rightarrow> ('k \<times> 'v) list \<Rightarrow> ('k \<times> 'v) list" where
  "omap_put k v [] = [(k, v)]"
| "omap_put k v ((a, b) # m) =
     (if k < a then (k, v) # (a, b) # m else if k = a then (k, v) # m else (a, b) # omap_put k v m)"

text \<open>\<open>operator[]\<close> of an unordered map, as a read that creates the default value.\<close>

definition umap_get :: "'v \<Rightarrow> 'k \<Rightarrow> ('k, 'v) umap \<Rightarrow> 'v" where
  "umap_get d k m = (case map_of m k of None \<Rightarrow> d | Some v \<Rightarrow> v)"

subsection \<open>Lemmas\<close>

lemma of_char_digit_char [simp]: "d < 10 \<Longrightarrow> (of_char (digit_char d) :: nat) = 48 + d"
  by (simp add: digit_char_def)

lemma is_digit_digit_char [simp]: "d < 10 \<Longrightarrow> is_digit (digit_char d)"
  by (simp add: is_digit_def)

lemma digit_val_digit_char [simp]: "d < 10 \<Longrightarrow> digit_val (digit_char d) = d"
  by (simp add: digit_val_def)

lemma dec_nat_not_Nil [simp]: "dec_nat n \<noteq> []"
  by (subst dec_nat.simps) simp

lemma dec_nat_digits: "c \<in> set (dec_nat n) \<Longrightarrow> is_digit c"
proof (induction n rule: dec_nat.induct)
  case (1 n)
  show ?case
  proof (cases "n < 10")
    case True
    then show ?thesis using "1.prems" by (simp add: dec_nat.simps[of n])
  next
    case False
    then show ?thesis using "1.prems" "1.IH" by (auto simp: dec_nat.simps[of n])
  qed
qed

lemma dec_val_snoc [simp]: "dec_val (s @ [c]) = 10 * dec_val s + digit_val c"
  by (simp add: dec_val_def)

lemma dec_val_single [simp]: "dec_val [c] = digit_val c"
  by (simp add: dec_val_def)

lemma dec_val_dec_nat [simp]: "dec_val (dec_nat n) = n"
proof (induction n rule: dec_nat.induct)
  case (1 n)
  then show ?case by (subst dec_nat.simps) auto
qed

lemma dec_nat_inject [simp]: "dec_nat m = dec_nat n \<longleftrightarrow> m = n"
  by (metis dec_val_dec_nat)

lemma hd_dec_nat_digit: "is_digit (hd (dec_nat n))"
  by (rule dec_nat_digits[of _ n]) simp

lemma digit_not_space: "is_digit c \<Longrightarrow> \<not> is_space c"
  by (auto simp: is_digit_def is_space_def)

lemma takeWhile_dec_nat [simp]: "takeWhile is_digit (dec_nat n) = dec_nat n"
  by (simp add: takeWhile_eq_all_conv dec_nat_digits)

lemma minus_not_digit [simp]: "\<not> is_digit CHR ''-''" "\<not> is_digit CHR ''+''"
  by (simp_all add: is_digit_def)

lemma minus_not_space [simp]: "\<not> is_space CHR ''-''"
  by (simp add: is_space_def)

lemma split_sign_dec_nat: "split_sign (dec_nat n) = (False, 0, dec_nat n)"
proof -
  obtain c r where "dec_nat n = c # r" by (cases "dec_nat n") auto
  moreover have "is_digit c" using hd_dec_nat_digit[of n] calculation by simp
  ultimately show ?thesis by (auto simp: split_sign_def)
qed

lemma no_space_dec_nat: "takeWhile is_space (dec_nat n) = []" "dropWhile is_space (dec_nat n) = dec_nat n"
proof -
  obtain c r where "dec_nat n = c # r" by (cases "dec_nat n") auto
  moreover have "is_digit c" using hd_dec_nat_digit[of n] calculation by simp
  ultimately show "takeWhile is_space (dec_nat n) = []"
    "dropWhile is_space (dec_nat n) = dec_nat n"
    by (auto dest: digit_not_space)
qed

text \<open>Reading back what \<open>std::to_string\<close> prints gives the number and consumes everything.\<close>

lemma strtoll_to_string: "in_i64 n \<Longrightarrow> strtoll (to_string n) = (n, length (to_string n))"
proof (cases "n < 0")
  case True
  then show "in_i64 n \<Longrightarrow> ?thesis"
    by (simp add: strtoll_def to_string_def split_sign_def in_i64_def INT64_MAX_def INT64_MIN_def)
next
  case False
  then show "in_i64 n \<Longrightarrow> ?thesis"
    by (simp add: strtoll_def to_string_def no_space_dec_nat split_sign_dec_nat in_i64_def
        INT64_MAX_def INT64_MIN_def)
qed

lemma strtoll_range: "in_i64 (fst (strtoll s))"
  by (auto simp: strtoll_def in_i64_def INT64_MAX_def INT64_MIN_def Let_def split: prod.splits)

lemma cdiv_nonneg: "0 \<le> a \<Longrightarrow> 0 < b \<Longrightarrow> cdiv a b = a div b"
  by (cases "a = 0") (simp_all add: cdiv_def)

lemma map_of_filter_snd:
  "distinct (map fst m) \<Longrightarrow> map_of (filter (\<lambda>(k, v). P v) m) k =
     (case map_of m k of None \<Rightarrow> None | Some v \<Rightarrow> if P v then Some v else None)"
  by (induction m) (auto simp: map_of_eq_None_iff image_iff split: option.split)

lemma set_uset_insert [simp]: "set (uset_insert x xs) = insert x (set xs)"
  by (auto simp: uset_insert_def)

lemma distinct_uset_insert [simp]: "distinct (uset_insert x xs) = distinct xs"
  by (auto simp: uset_insert_def)

lemma uset_insert_not_Nil [simp]: "uset_insert x xs \<noteq> []"
  by (auto simp: uset_insert_def)

lemma map_of_omap_put [simp]: "map_of (omap_put k v m) = (map_of m)(k \<mapsto> v)"
  by (induction k v m rule: omap_put.induct) auto

lemma set_keys_omap_put [simp]: "fst ` set (omap_put k v m) = insert k (fst ` set m)"
  by (induction k v m rule: omap_put.induct) auto

lemma sorted_omap_put:
  "sorted (map fst m) \<and> distinct (map fst m) \<Longrightarrow>
   sorted (map fst (omap_put k v m)) \<and> distinct (map fst (omap_put k v m))"
  by (induction k v m rule: omap_put.induct) (auto simp: order.strict_iff_order)

lemma map_of_above_None: "\<forall>x \<in> set m. a \<le> fst x \<Longrightarrow> (k::'k::linorder) < a \<Longrightarrow> map_of m k = None"
  by (auto simp: map_of_eq_None_iff)

lemma length_omap_put:
  "sorted (map fst m) \<Longrightarrow> length (omap_put k v m) = length m + (if map_of m k = None then 1 else 0)"
  by (induction k v m rule: omap_put.induct) (auto simp: map_of_above_None)

lemma omap_put_not_Nil [simp]: "omap_put k v m \<noteq> []"
  by (cases "(k, v, m)" rule: omap_put.cases) auto

lemma AList_update_not_Nil [simp]: "AList.update k v m \<noteq> []"
  by (cases m) auto

lemma map_of_update [simp]: "map_of (AList.update k v m) = (map_of m)(k \<mapsto> v)"
  by (rule update_conv')

lemma map_of_delete [simp]: "map_of (AList.delete k m) = (map_of m)(k := None)"
  by (rule delete_conv')

lemma sum_list_zero: "(\<And>x. x \<in> set xs \<Longrightarrow> f x = 0) \<Longrightarrow> (\<Sum>x \<leftarrow> xs. f x) = (0 :: int)"
  by (induction xs) auto

lemma int_sum_list: "(\<Sum>x \<leftarrow> xs. int (f x)) = int (\<Sum>x \<leftarrow> xs. f x)"
  by (induction xs) auto

lemma distinct_concat_map:
  assumes "distinct is" "\<And>i. i \<in> set is \<Longrightarrow> distinct (f i)"
    and "\<And>i j. i \<in> set is \<Longrightarrow> j \<in> set is \<Longrightarrow> i \<noteq> j \<Longrightarrow> set (f i) \<inter> set (f j) = {}"
  shows "distinct (concat (map f is))"
  using assms
proof (induction "is")
  case (Cons i "is")
  have "distinct (concat (map f is))" using Cons by simp
  moreover have "set (f i) \<inter> set (f j) = {}" if "j \<in> set is" for j
    using Cons.prems(1) Cons.prems(3)[of i j] that by auto
  ultimately show ?case using Cons.prems(2)[of i] by auto
qed simp

lemma map_upt_nth: "map f xs = map (\<lambda>i. f (xs ! i)) [0..<length xs]"
  by (rule nth_equalityI) auto

lemma drop_take_drop: "a \<le> b \<Longrightarrow> drop a (take b xs) @ drop b xs = drop a xs"
  using drop_append[of a "take b xs" "drop b xs"] by (cases "b \<le> length xs") simp_all

lemma delete_Nil_upd: "AList.delete k m = [] \<Longrightarrow> (map_of m)(k := None) = Map.empty"
  using map_of_delete[of k m] by simp

lemma in_set_update: "x \<in> set (AList.update k v m) \<Longrightarrow> x = (k, v) \<or> x \<in> set m"
  by (induction m) (auto split: if_splits)

lemma sorted_keys_delete:
  "sorted (map fst m) \<Longrightarrow> sorted (map fst (AList.delete k m))"
  by (induction m) (auto simp: AList.delete_eq)

end
