(* ===== verification/Resp.thy ===== *)
theory Resp
  imports Prelude
begin

text \<open>
  The wire format: \<open>zero/kv/resp.h\<close> and \<open>zero/kv/resp.cc\<close>. A \<open>RespValue\<close> is
  the C++ struct with its five fields; \<open>encodeInto\<close> appends to the output buffer, as the
  source does. \<open>appendInt64\<close> follows the source's digit loop, with the truncating
  division of C++.
\<close>

subsection \<open>Values\<close>

datatype RespType = SimpleString | Error | Integer | BulkString | Array | Null

datatype RespValue = RespValue (rtype: RespType) (rstr: string) (rint: int64)
    (rarray: "RespValue list") (is_null: bool)

definition defaultValue :: RespValue where
  "defaultValue = RespValue Null [] 0 [] False"

definition crlf :: string where
  "crlf = [CHR 0x0D, CHR 0x0A]"

definition kRespOk :: string where
  "kRespOk = ''+OK'' @ crlf"

definition kRespOne :: string where
  "kRespOne = '':1'' @ crlf"

definition kRespZero :: string where
  "kRespZero = '':0'' @ crlf"

definition kRespNullBulk :: string where
  "kRespNullBulk = ''$-1'' @ crlf"

definition kRespEmptyArray :: string where
  "kRespEmptyArray = ''*0'' @ crlf"

definition kRespPong :: string where
  "kRespPong = ''+PONG'' @ crlf"

definition kRespQueued :: string where
  "kRespQueued = ''+QUEUED'' @ crlf"

text \<open>The table of the bulk headers for the lengths 0 to 16, written out as in the source.\<close>

definition kRespBulkHdr :: "string list" where
  "kRespBulkHdr = map (\<lambda>s. CHR ''$'' # s @ crlf)
     [''0'', ''1'', ''2'', ''3'', ''4'', ''5'', ''6'', ''7'', ''8'', ''9'', ''10'', ''11'', ''12'',
      ''13'', ''14'', ''15'', ''16'']"

subsection \<open>Printing an integer\<close>

text \<open>C++ division and remainder by 10 truncate towards zero.\<close>

definition cdiv10 :: "int \<Rightarrow> int" where
  "cdiv10 n = (if n < 0 then - ((- n) div 10) else n div 10)"

definition cmod10 :: "int \<Rightarrow> int" where
  "cmod10 n = n - 10 * cdiv10 n"

text \<open>\<open>'0' + (char) d\<close>.\<close>

definition ascii_digit :: "int \<Rightarrow> char" where
  "ascii_digit d = char_of (nat (48 + d))"

text \<open>The \<open>do ... while (n > 0)\<close> loop; the digits are written from the end of the buffer.\<close>

function do_digits :: "int \<Rightarrow> string \<Rightarrow> string" where
  "do_digits n buf =
     (let buf' = ascii_digit (cmod10 n) # buf; n' = cdiv10 n
      in if n' > 0 then do_digits n' buf' else buf')"
  by pat_completeness auto
termination
  by (relation "measure (\<lambda>(n, buf). nat n)") (auto simp: cdiv10_def split: if_splits)

declare do_digits.simps [simp del]

definition appendInt64 :: "string \<Rightarrow> int64 \<Rightarrow> string" where
  "appendInt64 out n =
     (if n = 0 then out @ ''0''
      else if n = 1 then out @ ''1''
      else if n > 0 \<and> n < 10 then out @ [ascii_digit n]
      else
        (let neg = n < 0;
             (n', buf) =
               (if neg then
                  (let q = cdiv10 n; r = cmod10 n;
                       (r', q') = (if r < 0 then (- r, q + 1) else (r, q))
                   in (- q', [ascii_digit r']))
                else (n, []));
             buf' = do_digits n' buf
         in out @ (if neg then CHR ''-'' # buf' else buf')))"

subsection \<open>The encoder\<close>

fun encodeInto :: "RespValue \<Rightarrow> string \<Rightarrow> string" where
  "encodeInto (RespValue t s n arr nul) out =
     (case t of
        SimpleString \<Rightarrow> out @ ''+'' @ s @ crlf
      | Error \<Rightarrow> out @ ''-'' @ s @ crlf
      | Integer \<Rightarrow> appendInt64 (out @ '':'') n @ crlf
      | BulkString \<Rightarrow>
          (if nul then out @ kRespNullBulk
           else (let len = length s;
                     hdr = (if len \<le> 16 then out @ kRespBulkHdr ! len
                            else appendInt64 (out @ ''$'') (int len) @ crlf)
                 in hdr @ s @ crlf))
      | Array \<Rightarrow>
          foldl (\<lambda>o' item. encodeInto item o') (appendInt64 (out @ ''*'') (int (length arr)) @ crlf) arr
      | Null \<Rightarrow> out @ kRespNullBulk)"

definition encode :: "RespValue \<Rightarrow> string" where
  "encode v = encodeInto v []"

definition resp_ok :: RespValue where
  "resp_ok = RespValue SimpleString ''OK'' 0 [] False"

definition resp_err :: "string \<Rightarrow> RespValue" where
  "resp_err msg = RespValue Error msg 0 [] False"

definition bulk :: "string \<Rightarrow> RespValue" where
  "bulk s = RespValue BulkString s 0 [] False"

definition resp_integer :: "int64 \<Rightarrow> RespValue" where
  "resp_integer v = RespValue Integer [] v [] False"

definition pong :: RespValue where
  "pong = RespValue SimpleString ''PONG'' 0 [] False"

definition nullBulk :: RespValue where
  "nullBulk = RespValue BulkString [] 0 [] True"

definition emptyArray :: RespValue where
  "emptyArray = RespValue Array [] 0 [] False"

definition queued :: RespValue where
  "queued = RespValue SimpleString ''QUEUED'' 0 [] False"

definition resp_none :: RespValue where
  "resp_none = RespValue Null [] 0 [] False"

subsection \<open>The session's fast path\<close>

text \<open>\<open>KvSession::appendResponse\<close>: the bytes it adds to the write buffer.\<close>

definition appendResponse :: "string \<Rightarrow> RespValue \<Rightarrow> string" where
  "appendResponse buf rsp =
     (case rtype rsp of
        SimpleString \<Rightarrow>
          (if rstr rsp = ''OK'' then buf @ kRespOk
           else if rstr rsp = ''PONG'' then buf @ kRespPong
           else if rstr rsp = ''QUEUED'' then buf @ kRespQueued
           else encodeInto rsp buf)
      | Integer \<Rightarrow>
          (if rint rsp = 1 then buf @ kRespOne
           else if rint rsp = 0 then buf @ kRespZero
           else encodeInto rsp buf)
      | Null \<Rightarrow> buf @ kRespNullBulk
      | BulkString \<Rightarrow> (if is_null rsp then buf @ kRespNullBulk else encodeInto rsp buf)
      | Array \<Rightarrow> (if rarray rsp = [] then buf @ kRespEmptyArray else encodeInto rsp buf)
      | _ \<Rightarrow> encodeInto rsp buf)"

subsection \<open>Lemmas\<close>

lemma cdiv10_nonneg [simp]: "0 \<le> n \<Longrightarrow> cdiv10 n = n div 10"
  by (simp add: cdiv10_def)

lemma cmod10_nonneg [simp]: "0 \<le> n \<Longrightarrow> cmod10 n = n mod 10"
  by (simp add: cmod10_def minus_mult_div_eq_mod)

lemma ascii_digit_digit_char: "0 \<le> d \<Longrightarrow> ascii_digit d = digit_char (nat d)"
  by (simp add: ascii_digit_def digit_char_def nat_add_distrib)

lemma do_digits_nonneg: "0 \<le> n \<Longrightarrow> do_digits n buf = dec_nat (nat n) @ buf"
proof (induction n buf rule: do_digits.induct)
  case (1 n buf)
  note IH = "1.IH"[OF refl refl]
  show ?case
  proof (cases "n < 10")
    case True
    with "1.prems" show ?thesis
      by (simp add: do_digits.simps[of n] dec_nat.simps[of "nat n"] ascii_digit_digit_char)
  next
    case False
    then have "0 < n div 10" "\<not> nat n < 10" by simp_all
    then have "do_digits (n div 10) (ascii_digit (n mod 10) # buf)
        = dec_nat (nat (n div 10)) @ ascii_digit (n mod 10) # buf"
      using IH "1.prems" by simp
    moreover have "nat (n div 10) = nat n div 10" "nat (n mod 10) = nat n mod 10"
      using "1.prems" by (simp_all add: nat_div_distrib nat_mod_distrib)
    ultimately show ?thesis using False "1.prems" \<open>0 < n div 10\<close> \<open>\<not> nat n < 10\<close>
      by (simp add: do_digits.simps[of n] dec_nat.simps[of "nat n"] ascii_digit_digit_char)
  qed
qed

lemma appendInt64_nonneg:
  assumes "0 \<le> n"
  shows "appendInt64 out n = out @ to_string n"
proof -
  have "nat n < 10 \<Longrightarrow> dec_nat (nat n) = [digit_char (nat n)]" by (subst dec_nat.simps) simp
  moreover have "digit_char 0 = CHR ''0''" "digit_char 1 = CHR ''1''"
    by (code_simp, code_simp)
  ultimately show ?thesis using assms
    by (auto simp: appendInt64_def to_string_def do_digits_nonneg ascii_digit_digit_char)
qed

text \<open>Below zero: the digit after the first division is off by one unless the last digit is 0.\<close>

lemma appendInt64_neg:
  assumes "n < 0"
  shows "appendInt64 out n =
    (let m = - n; r = m mod 10 in
     out @ CHR ''-'' # do_digits (if r = 0 then m div 10 else m div 10 - 1) [digit_char (nat r)])"
proof -
  have "cmod10 n = - ((- n) mod 10)" "cdiv10 n = - ((- n) div 10)"
    using assms by (simp_all add: cmod10_def cdiv10_def minus_mult_div_eq_mod [symmetric])
  moreover have "0 \<le> (- n) mod 10" by simp
  ultimately show ?thesis using assms
    by (auto simp: appendInt64_def Let_def ascii_digit_digit_char order.order_iff_strict)
qed

lemma to_string_neg_snoc:
  assumes "n \<le> - 10"
  shows "to_string n = CHR ''-'' # dec_nat (nat ((- n) div 10)) @ [digit_char (nat ((- n) mod 10))]"
proof -
  have "\<not> nat (- n) < 10" using assms by simp
  moreover have "nat (- n) div 10 = nat ((- n) div 10)" "nat (- n) mod 10 = nat ((- n) mod 10)"
    using assms by (simp_all add: nat_div_distrib nat_mod_distrib)
  ultimately show ?thesis using assms
    by (simp add: to_string_def dec_nat.simps[of "nat (- n)"])
qed

lemma appendInt64_neg_tens:
  assumes "n < 0" "n mod 10 = 0"
  shows "appendInt64 out n = out @ to_string n"
proof -
  have "(- n) mod 10 = 0" "n \<le> - 10" using assms by presburger+
  then show ?thesis
    using assms(1) by (simp add: appendInt64_neg to_string_neg_snoc do_digits_nonneg Let_def)
qed

lemma appendInt64_ok: "0 \<le> n \<or> n mod 10 = 0 \<Longrightarrow> appendInt64 out n = out @ to_string n"
  by (cases "0 \<le> n") (auto simp: appendInt64_nonneg appendInt64_neg_tens)

lemma appendInt64_neg_wrong:
  assumes "n < 0" "n mod 10 \<noteq> 0"
  shows "appendInt64 out n \<noteq> out @ to_string n"
proof -
  have r: "(- n) mod 10 \<noteq> 0" using assms by presburger
  show ?thesis
  proof (cases "n \<le> - 10")
    case True
    then have "nat ((- n) div 10 - 1) \<noteq> nat ((- n) div 10)" "0 \<le> (- n) div 10 - 1"
      by (simp_all add: eq_nat_nat_iff)
    then show ?thesis
      using assms(1) r True by (simp add: appendInt64_neg to_string_neg_snoc do_digits_nonneg Let_def)
  next
    case False
    then have "(- n) div 10 - 1 = - 1" using assms(1) by presburger
    moreover have "do_digits (- 1) b = CHR ''/'' # b" for b
    proof -
      have "ascii_digit (- 1) = CHR ''/''" by code_simp
      then show ?thesis by (subst do_digits.simps) (simp add: cdiv10_def cmod10_def)
    qed
    moreover have "dec_nat (nat (- n)) = [digit_char (nat (- n))]"
      using False by (subst dec_nat.simps) simp
    ultimately show ?thesis
      using assms(1) r by (simp add: appendInt64_neg to_string_def Let_def)
  qed
qed

lemma appendInt64_append: "appendInt64 (a @ b) n = a @ appendInt64 b n"
  by (simp add: appendInt64_def Let_def split: prod.split)

lemma foldl_append_each:
  assumes "\<And>x o'. x \<in> set xs \<Longrightarrow> f o' x = o' @ g x"
  shows "foldl f a xs = a @ concat (map g xs)"
  using assms by (induction xs arbitrary: a) auto

text \<open>The encoder only appends: \<open>encodeInto v out\<close> is \<open>out\<close> followed by \<open>encode v\<close>.\<close>

lemma encodeInto_encode: "encodeInto v out = out @ encode v"
proof (induction v arbitrary: out)
  case (RespValue t s n arr nul)
  note IH = RespValue.IH
  have "foldl (\<lambda>o' item. encodeInto item o') a arr = a @ concat (map encode arr)" for a
    by (rule foldl_append_each) (rule IH)
  then show ?case
    using appendInt64_append[of out "''*''"] appendInt64_append[of out "'':''"]
      appendInt64_append[of out "''$''"]
    by (simp add: encode_def Let_def split: RespType.split)
qed

lemma kRespBulkHdr_nth:
  assumes "k \<le> 16"
  shows "kRespBulkHdr ! k = CHR ''$'' # to_string (int k) @ crlf"
proof -
  have "\<forall>k \<in> set [0..<17]. kRespBulkHdr ! k = CHR ''$'' # to_string (int k) @ crlf"
    by code_simp
  then show ?thesis using assms by simp
qed

lemma encode_array: "encode (RespValue Array s n arr nul) =
    CHR ''*'' # to_string (int (length arr)) @ crlf @ concat (map encode arr)"
proof -
  have "foldl (\<lambda>o' item. encodeInto item o') a arr = a @ concat (map encode arr)" for a
    by (rule foldl_append_each) (rule encodeInto_encode)
  then show ?thesis by (simp add: encode_def appendInt64_nonneg)
qed

lemma encode_bulk: "encode (RespValue BulkString s n arr False) =
    CHR ''$'' # to_string (int (length s)) @ crlf @ s @ crlf"
  by (simp add: encode_def Let_def kRespBulkHdr_nth appendInt64_nonneg)

lemma encode_null: "encode (RespValue BulkString s n arr True) = kRespNullBulk"
  "encode (RespValue Null s n arr nul) = kRespNullBulk"
  by (simp_all add: encode_def)

lemma encode_line: "encode (RespValue SimpleString s n arr nul) = CHR ''+'' # s @ crlf"
  "encode (RespValue Error s n arr nul) = CHR ''-'' # s @ crlf"
  by (simp_all add: encode_def)

lemma encode_integer: "encode (RespValue Integer s n arr nul) = CHR '':'' # appendInt64 [] n @ crlf"
  using appendInt64_append[of "'':''" "[]"] by (simp add: encode_def)

lemmas encode_simps = encode_array encode_bulk encode_null encode_line encode_integer

subsection \<open>Properties\<close>

text \<open>
  the reply integers. The digits \<open>appendInt64\<close> appends are the decimal representation of
  the number exactly when the number is not negative or is a multiple of ten. Every other negative
  number is printed wrongly (\<open>-25\<close> as \<open>-15\<close>, \<open>-1\<close> as \<open>-/1\<close>): after
  the truncating division the quotient is moved the wrong way.
\<close>

theorem appendInt64_decimal_iff:
  "appendInt64 out n = out @ to_string n \<longleftrightarrow> 0 \<le> n \<or> n mod 10 = 0"
  using appendInt64_ok[of n out] appendInt64_neg_wrong[of n out] by force

text \<open>
  the pre-encoded constants of the session's fast path are the encoder's output: appending a
  response through \<open>appendResponse\<close> writes the same bytes as \<open>encodeInto\<close> for every
  value.
\<close>

theorem appendResponse_is_encodeInto: "appendResponse buf rsp = encodeInto rsp buf"
proof (cases rsp)
  case (RespValue t s n arr nul)
  have "to_string 0 = ''0''" "to_string 1 = ''1''" by (code_simp, code_simp)
  then show ?thesis
    by (cases t)
       (simp_all add: RespValue appendResponse_def kRespOk_def kRespPong_def kRespQueued_def
         kRespOne_def kRespZero_def kRespEmptyArray_def appendInt64_nonneg)
qed

end
