(* ===== verification/Glob.thy ===== *)
theory Glob
  imports Prelude
begin

text \<open>
  The glob matcher \<open>KvStore::matchGlob\<close> of \<open>zero/kv/store/kv_store.cc\<close> (the pub/sub hub
  has a copy of it): an iterative loop that remembers the last star and backtracks to it. The
  loop is a \<^theory_text>\<open>partial_function\<close>, so that \<open>None\<close> would mean that it does not
  return; \<open>glob_loop_returns\<close> shows that it always does. \<open>gmatch\<close> is the meaning of a
  pattern, by recursion on it.
\<close>

function skip_stars :: "string \<Rightarrow> nat \<Rightarrow> nat" where
  "skip_stars pat i = (if i < length pat \<and> pat ! i = CHR ''*'' then skip_stars pat (i + 1) else i)"
  by pat_completeness auto
termination
  by (relation "measure (\<lambda>(pat, i). length pat - i)") auto

declare skip_stars.simps [simp del]

partial_function (option) glob_loop :: "string \<Rightarrow> string \<Rightarrow> nat \<Rightarrow> nat \<Rightarrow> nat option \<Rightarrow> nat \<Rightarrow> bool option" where
  "glob_loop pat tx i t star_i star_t =
     (if t < length tx then
        (if i < length pat \<and> (pat ! i = CHR ''?'' \<or> pat ! i = tx ! t)
         then glob_loop pat tx (i + 1) (t + 1) star_i star_t
         else if i < length pat \<and> pat ! i = CHR ''*''
         then glob_loop pat tx (i + 1) t (Some (i + 1)) t
         else case star_i of
                Some s \<Rightarrow> glob_loop pat tx s (star_t + 1) star_i (star_t + 1)
              | None \<Rightarrow> Some False)
      else Some (skip_stars pat i = length pat))"

declare glob_loop.simps [code]

definition matchGlob :: "string \<Rightarrow> string \<Rightarrow> bool" where
  "matchGlob pattern tx \<longleftrightarrow> glob_loop pattern tx 0 0 None 0 = Some True"

subsection \<open>What a pattern means\<close>

fun gmatch :: "string \<Rightarrow> string \<Rightarrow> bool" where
  "gmatch [] t = (t = [])"
| "gmatch (x # p) [] = (x = CHR ''*'' \<and> gmatch p [])"
| "gmatch (x # p) (c # t) =
     (if x = CHR ''*'' then gmatch p (c # t) \<or> gmatch (x # p) t
      else (x = CHR ''?'' \<or> x = c) \<and> gmatch p t)"

lemma gmatch_star: "gmatch (CHR ''*'' # p) t \<longleftrightarrow> (\<exists>j\<le>length t. gmatch p (drop j t))"
proof (induction t)
  case (Cons c t)
  have "(\<exists>j\<le>length (c # t). gmatch p (drop j (c # t))) \<longleftrightarrow>
      gmatch p (c # t) \<or> (\<exists>j\<le>length t. gmatch p (drop j t))"
    by (metis Suc_le_mono drop0 drop_Suc_Cons le0 length_Cons nat.exhaust)
  with Cons show ?case by simp
qed simp

lemma gmatch_plain_prefix:
  "CHR ''*'' \<notin> set u \<Longrightarrow> gmatch (u @ p) t \<Longrightarrow> length u \<le> length t \<and> gmatch p (drop (length u) t)"
proof (induction u arbitrary: t)
  case (Cons x u)
  then show ?case by (cases t) auto
qed simp

lemma skip_stars_gmatch: "i \<le> length pat \<Longrightarrow> skip_stars pat i = length pat \<longleftrightarrow> gmatch (drop i pat) []"
proof (induction pat i rule: skip_stars.induct)
  case (1 pat i)
  show ?case
  proof (cases "i < length pat")
    case True
    then have "drop i pat = pat ! i # drop (i + 1) pat" by (simp add: Cons_nth_drop_Suc)
    with True 1 show ?thesis by (subst skip_stars.simps) auto
  next
    case False
    with "1.prems" show ?thesis by (subst skip_stars.simps) simp
  qed
qed

subsection \<open>The loop returns\<close>

definition glob_measure :: "string \<Rightarrow> string \<Rightarrow> nat option \<Rightarrow> nat \<Rightarrow> nat \<Rightarrow> nat \<times> nat \<times> nat" where
  "glob_measure pat tx star_i star_t t =
     (case star_i of None \<Rightarrow> Suc (length pat) | Some s \<Rightarrow> length pat - s, length tx - star_t, length tx - t)"

definition glob_ok :: "string \<Rightarrow> string \<Rightarrow> nat \<Rightarrow> nat \<Rightarrow> nat option \<Rightarrow> nat \<Rightarrow> bool" where
  "glob_ok pat tx i t star_i star_t \<longleftrightarrow>
     i \<le> length pat \<and> t \<le> length tx \<and> star_t \<le> t \<and> (\<forall>s. star_i = Some s \<longrightarrow> s \<le> i)"

lemma glob_induct [case_names step]:
  assumes "\<And>i t star_i star_t.
      (\<And>i' t' star_i' star_t'.
         (glob_measure pat tx star_i' star_t' t', glob_measure pat tx star_i star_t t)
           \<in> less_than <*lex*> less_than <*lex*> less_than \<Longrightarrow> P i' t' star_i' star_t') \<Longrightarrow>
      P i t star_i star_t"
  shows "P i t star_i star_t"
proof -
  have wf: "wf (less_than <*lex*> less_than <*lex*> less_than)" by (intro wf_lex_prod wf_less_than)
  have "\<forall>i t star_i star_t. glob_measure pat tx star_i star_t t = m \<longrightarrow> P i t star_i star_t" for m
    by (induction m rule: wf_induct_rule[OF wf]) (blast intro: assms)
  then show ?thesis by blast
qed

text \<open>The five ways through one iteration.\<close>

lemma glob_cases [case_names end_of_text literal star backtrack mismatch]:
  assumes "\<not> t < length tx \<Longrightarrow> P"
    "t < length tx \<Longrightarrow> i < length pat \<Longrightarrow> pat ! i = CHR ''?'' \<or> pat ! i = tx ! t \<Longrightarrow> P"
    "t < length tx \<Longrightarrow> i < length pat \<Longrightarrow> \<not> (pat ! i = CHR ''?'' \<or> pat ! i = tx ! t) \<Longrightarrow> pat ! i = CHR ''*'' \<Longrightarrow> P"
    "\<And>s. t < length tx \<Longrightarrow> \<not> (i < length pat \<and> (pat ! i = CHR ''?'' \<or> pat ! i = tx ! t \<or> pat ! i = CHR ''*'')) \<Longrightarrow>
      star_i = Some s \<Longrightarrow> P"
    "t < length tx \<Longrightarrow> \<not> (i < length pat \<and> (pat ! i = CHR ''?'' \<or> pat ! i = tx ! t \<or> pat ! i = CHR ''*'')) \<Longrightarrow>
      star_i = None \<Longrightarrow> P"
  shows P
  using assms by (cases star_i) blast+

lemma glob_loop_eqs:
  "\<not> t < length tx \<Longrightarrow> glob_loop pat tx i t star_i star_t = Some (skip_stars pat i = length pat)"
  "t < length tx \<Longrightarrow> i < length pat \<Longrightarrow> pat ! i = CHR ''?'' \<or> pat ! i = tx ! t \<Longrightarrow>
     glob_loop pat tx i t star_i star_t = glob_loop pat tx (i + 1) (t + 1) star_i star_t"
  "t < length tx \<Longrightarrow> i < length pat \<Longrightarrow> \<not> (pat ! i = CHR ''?'' \<or> pat ! i = tx ! t) \<Longrightarrow> pat ! i = CHR ''*'' \<Longrightarrow>
     glob_loop pat tx i t star_i star_t = glob_loop pat tx (i + 1) t (Some (i + 1)) t"
  "t < length tx \<Longrightarrow> \<not> (i < length pat \<and> (pat ! i = CHR ''?'' \<or> pat ! i = tx ! t \<or> pat ! i = CHR ''*'')) \<Longrightarrow>
     glob_loop pat tx i t (Some s) star_t = glob_loop pat tx s (star_t + 1) (Some s) (star_t + 1)"
  "t < length tx \<Longrightarrow> \<not> (i < length pat \<and> (pat ! i = CHR ''?'' \<or> pat ! i = tx ! t \<or> pat ! i = CHR ''*'')) \<Longrightarrow>
     glob_loop pat tx i t None star_t = Some False"
  by (subst glob_loop.simps, auto)+

lemma glob_decreases:
  "glob_ok pat tx i t star_i star_t \<Longrightarrow> t < length tx \<Longrightarrow>
     (glob_measure pat tx star_i star_t (t + 1), glob_measure pat tx star_i star_t t)
       \<in> less_than <*lex*> less_than <*lex*> less_than"
  "glob_ok pat tx i t star_i star_t \<Longrightarrow> i < length pat \<Longrightarrow>
     (glob_measure pat tx (Some (i + 1)) t t, glob_measure pat tx star_i star_t t)
       \<in> less_than <*lex*> less_than <*lex*> less_than"
  "glob_ok pat tx i t (Some s) star_t \<Longrightarrow> t < length tx \<Longrightarrow>
     (glob_measure pat tx (Some s) (star_t + 1) (star_t + 1), glob_measure pat tx (Some s) star_t t)
       \<in> less_than <*lex*> less_than <*lex*> less_than"
  by (auto simp: glob_measure_def glob_ok_def split: option.split)

lemma glob_loop_returns:
  "glob_ok pat tx i t star_i star_t \<Longrightarrow> glob_loop pat tx i t star_i star_t \<noteq> None"
proof (induction i t star_i star_t rule: glob_induct[of pat tx])
  case (step i t star_i star_t)
  note ok = step.prems and dec = glob_decreases(1,2)[OF step.prems]
  show ?case
  proof (cases rule: glob_cases[where t = t and tx = tx and i = i and pat = pat and star_i = star_i])
    case literal
    then have "glob_ok pat tx (i + 1) (t + 1) star_i star_t" using ok by (auto simp: glob_ok_def)
    with literal show ?thesis using step.IH[OF dec(1)] by (simp add: glob_loop_eqs(2))
  next
    case star
    then show ?thesis
      using step.IH[OF dec(2), of "i + 1"] ok by (auto simp: glob_loop_eqs(3) glob_ok_def)
  next
    case (backtrack s)
    then show ?thesis
      using step.IH[of "Some s" "star_t + 1" "star_t + 1" s] glob_decreases(3)[of pat tx i t s star_t] ok
      by (auto simp: glob_loop_eqs(4) glob_ok_def)
  qed (auto simp: glob_loop_eqs)
qed

subsection \<open>The loop decides the pattern, on texts without a star\<close>

text \<open>What is left to decide at the top of an iteration: the current position, or a later start
  after the remembered star.\<close>

definition glob_todo :: "string \<Rightarrow> string \<Rightarrow> nat \<Rightarrow> nat \<Rightarrow> nat option \<Rightarrow> nat \<Rightarrow> bool" where
  "glob_todo pat tx i t star_i star_t \<longleftrightarrow>
     gmatch (drop i pat) (drop t tx) \<or>
     (\<exists>s j. star_i = Some s \<and> star_t < j \<and> j \<le> length tx \<and> gmatch (drop s pat) (drop j tx))"

text \<open>Between the remembered star and the current position the pattern has no star, and both
  sides have advanced by the same distance.\<close>

definition glob_plain :: "string \<Rightarrow> nat \<Rightarrow> nat \<Rightarrow> nat option \<Rightarrow> nat \<Rightarrow> bool" where
  "glob_plain pat i t star_i star_t \<longleftrightarrow>
     (\<forall>s. star_i = Some s \<longrightarrow> i - s = t - star_t \<and> CHR ''*'' \<notin> set (take (i - s) (drop s pat)))"

lemma drop_split: "s \<le> i \<Longrightarrow> drop s pat = take (i - s) (drop s pat) @ drop i pat"
  by (metis append_take_drop_id drop_drop le_add_diff_inverse2)

lemma glob_later_start:
  assumes "glob_ok pat tx i t (Some s) star_t" "glob_plain pat i t (Some s) star_t"
    "star_t < j" "j \<le> length tx" "gmatch (drop s pat) (drop j tx)"
  shows "\<exists>k. t < k \<and> k \<le> length tx \<and> gmatch (drop i pat) (drop k tx)"
proof -
  let ?u = "take (i - s) (drop s pat)"
  have u: "length ?u = i - s" "i - s = t - star_t" "CHR ''*'' \<notin> set ?u" "s \<le> i" "star_t \<le> t"
    using assms(1,2) by (auto simp: glob_ok_def glob_plain_def)
  have "gmatch (?u @ drop i pat) (drop j tx)" using assms(5) drop_split[OF u(4), of pat] by simp
  from gmatch_plain_prefix[OF u(3) this]
  have "i - s \<le> length (drop j tx) \<and> gmatch (drop i pat) (drop (i - s) (drop j tx))"
    unfolding u(1) .
  then have "j + (i - s) \<le> length tx" "gmatch (drop i pat) (drop (j + (i - s)) tx)"
    using assms(4) by (auto simp: add.commute)
  moreover have "t < j + (i - s)" using assms(3) u(2,5) by simp
  ultimately show ?thesis by blast
qed

lemma gmatch_literal:
  assumes "t < length tx" "i < length pat" "pat ! i = CHR ''?'' \<or> pat ! i = tx ! t" "pat ! i \<noteq> CHR ''*''"
  shows "gmatch (drop i pat) (drop t tx) = gmatch (drop (i + 1) pat) (drop (t + 1) tx)"
  using assms by (simp add: Cons_nth_drop_Suc[symmetric])

lemma gmatch_star_drop:
  assumes "i < length pat" "pat ! i = CHR ''*''" "t \<le> length tx"
  shows "gmatch (drop i pat) (drop t tx) \<longleftrightarrow>
    (\<exists>j. t \<le> j \<and> j \<le> length tx \<and> gmatch (drop (i + 1) pat) (drop j tx))"
proof -
  have "drop i pat = CHR ''*'' # drop (i + 1) pat" using assms by (simp add: Cons_nth_drop_Suc[symmetric])
  then have "gmatch (drop i pat) (drop t tx) \<longleftrightarrow>
      (\<exists>j\<le>length tx - t. gmatch (drop (i + 1) pat) (drop (j + t) tx))"
    by (simp add: gmatch_star)
  also have "\<dots> \<longleftrightarrow> (\<exists>j. t \<le> j \<and> j \<le> length tx \<and> gmatch (drop (i + 1) pat) (drop j tx))"
    using assms(3) by (metis le_add2 le_add_diff_inverse2 le_diff_conv2)
  finally show ?thesis .
qed

lemma gmatch_mismatch:
  assumes "t < length tx" "\<not> (i < length pat \<and> (pat ! i = CHR ''?'' \<or> pat ! i = tx ! t \<or> pat ! i = CHR ''*''))"
  shows "\<not> gmatch (drop i pat) (drop t tx)"
proof (cases "i < length pat")
  case True
  then have "drop i pat = pat ! i # drop (Suc i) pat" "drop t tx = tx ! t # drop (Suc t) tx"
    using assms(1) by (simp_all add: Cons_nth_drop_Suc)
  then show ?thesis using assms(2) True by simp
qed (use assms in auto)

lemma glob_loop_decides:
  assumes "CHR ''*'' \<notin> set tx"
  shows "glob_ok pat tx i t star_i star_t \<Longrightarrow> glob_plain pat i t star_i star_t \<Longrightarrow>
    glob_loop pat tx i t star_i star_t = Some (glob_todo pat tx i t star_i star_t)"
proof (induction i t star_i star_t rule: glob_induct[of pat tx])
  case (step i t star_i star_t)
  note ok = step.prems(1) and pl = step.prems(2) and dec = glob_decreases(1,2)[OF step.prems(1)]
  have later: "\<exists>k. t < k \<and> k \<le> length tx \<and> gmatch (drop i pat) (drop k tx)"
    if "star_i = Some s" "star_t < j" "j \<le> length tx" "gmatch (drop s pat) (drop j tx)" for s j
    using glob_later_start[of pat tx i t s star_t j] ok pl that by simp
  show ?case
  proof (cases rule: glob_cases[where t = t and tx = tx and i = i and pat = pat and star_i = star_i])
    case end_of_text
    then have "t = length tx" using ok by (simp add: glob_ok_def)
    then have "glob_todo pat tx i t star_i star_t = gmatch (drop i pat) []"
      using later[THEN exE] by (force simp: glob_todo_def)
    then show ?thesis using ok end_of_text by (simp add: glob_loop_eqs(1) skip_stars_gmatch glob_ok_def)
  next
    case literal
    have "tx ! t \<noteq> CHR ''*''" using assms nth_mem[OF literal(1)] by metis
    then have ns: "pat ! i \<noteq> CHR ''*''" using literal(3) by auto
    have "glob_plain pat (i + 1) (t + 1) star_i star_t"
    proof -
      have "take (i + 1 - s) (drop s pat) = take (i - s) (drop s pat) @ [pat ! i]" if "s \<le> i" for s
        using that literal(2) by (simp add: Suc_diff_le take_Suc_conv_app_nth)
      then show ?thesis using ok pl ns by (auto simp: glob_plain_def glob_ok_def)
    qed
    moreover have "glob_ok pat tx (i + 1) (t + 1) star_i star_t" using ok literal by (auto simp: glob_ok_def)
    ultimately have "glob_loop pat tx (i + 1) (t + 1) star_i star_t = Some (glob_todo pat tx (i + 1) (t + 1) star_i star_t)"
      using step.IH[OF dec(1)] literal(1) by blast
    then show ?thesis
      using gmatch_literal[OF literal ns] literal by (simp add: glob_loop_eqs(2) glob_todo_def)
  next
    case star
    have "glob_loop pat tx (i + 1) t (Some (i + 1)) t = Some (glob_todo pat tx (i + 1) t (Some (i + 1)) t)"
      using step.IH[OF dec(2)] star(2) ok by (auto simp: glob_ok_def glob_plain_def)
    moreover have "glob_todo pat tx (i + 1) t (Some (i + 1)) t = glob_todo pat tx i t star_i star_t"
    proof -
      have "gmatch (drop i pat) (drop t tx)"
        if "t < k" "k \<le> length tx" "gmatch (drop i pat) (drop k tx)" for k
        using that gmatch_star_drop[OF star(2,4), of t tx] gmatch_star_drop[OF star(2,4), of k tx]
          star(1) by (meson less_imp_le order_trans)
      then have "glob_todo pat tx i t star_i star_t = gmatch (drop i pat) (drop t tx)"
        using later by (auto simp: glob_todo_def)
      also have "\<dots> = glob_todo pat tx (i + 1) t (Some (i + 1)) t"
        using gmatch_star_drop[OF star(2,4), of t tx] star(1)
        by (auto simp: glob_todo_def order.order_iff_strict)
      finally show ?thesis by simp
    qed
    ultimately show ?thesis using star by (simp add: glob_loop_eqs(3))
  next
    case (backtrack s)
    have "glob_ok pat tx s (star_t + 1) (Some s) (star_t + 1)" "glob_plain pat s (star_t + 1) (Some s) (star_t + 1)"
      using ok backtrack by (auto simp: glob_ok_def glob_plain_def)
    then have "glob_loop pat tx s (star_t + 1) (Some s) (star_t + 1) = Some (glob_todo pat tx s (star_t + 1) (Some s) (star_t + 1))"
      using step.IH glob_decreases(3)[of pat tx i t s star_t] ok backtrack by blast
    moreover have "glob_todo pat tx s (star_t + 1) (Some s) (star_t + 1) = glob_todo pat tx i t star_i star_t"
    proof -
      have "star_t + 1 \<le> length tx" using ok backtrack(1) by (simp add: glob_ok_def)
      then show ?thesis
        using gmatch_mismatch[OF backtrack(1,2)] backtrack(3)
        by (auto simp: glob_todo_def) (meson Suc_lessD, metis Suc_lessI)
    qed
    ultimately show ?thesis using backtrack by (simp add: glob_loop_eqs(4))
  next
    case mismatch
    then show ?thesis using gmatch_mismatch[OF mismatch(1,2)] by (simp add: glob_loop_eqs(5) glob_todo_def)
  qed
qed

lemma matchGlob_gmatch:
  assumes "CHR ''*'' \<notin> set tx"
  shows "matchGlob pat tx = gmatch pat tx"
  using glob_loop_decides[OF assms, of pat 0 0 None 0]
  by (simp add: matchGlob_def glob_ok_def glob_plain_def glob_todo_def)

subsection \<open>Properties\<close>

text \<open>
  C21: the matcher terminates on every pattern and every text, and on a text without a star
  character its answer is the meaning of the pattern (a star stands for any text, a question mark
  for one character, every other character for itself).
\<close>

theorem matchGlob_correct:
  "(\<exists>b. glob_loop pat tx 0 0 None 0 = Some b) \<and>
   (CHR ''*'' \<notin> set tx \<longrightarrow> matchGlob pat tx = gmatch pat tx)"
  using glob_loop_returns[of pat tx 0 0 None 0] matchGlob_gmatch[of tx pat]
  by (auto simp: glob_ok_def)

theorem matchGlob_correct_witness:
  "(\<exists>b. glob_loop ''a*c?'' ''abbcd'' 0 0 None 0 = Some b) \<and> matchGlob ''a*c?'' ''abbcd''"
proof -
  have "gmatch ''a*c?'' ''abbcd''" by code_simp
  then show ?thesis using matchGlob_correct[of "''a*c?''" "''abbcd''"] by simp
qed

text \<open>
  The restriction is needed. The literal comparison comes before the test for a star, so a star
  in the text is eaten by a star of the pattern as a plain character: the pattern \<open>*\<close> accepts
  exactly the texts that do not begin with a star, and the text \<open>*\<close> itself; \<open>KEYS *\<close>
  does not list a key such as \<open>*a\<close>.
\<close>

theorem matchGlob_all_iff: "matchGlob ''*'' tx \<longleftrightarrow> tx = ''*'' \<or> tx = [] \<or> hd tx \<noteq> CHR ''*''"
proof -
  have skip: "skip_stars ''*'' (Suc 0) = Suc 0" "skip_stars ''*'' 0 = Suc 0"
    by (simp_all add: skip_stars.simps)
  have again: "s \<le> length tx \<Longrightarrow> glob_loop ''*'' tx (Suc 0) s (Some (Suc 0)) s = Some True" for s
  proof (induction "length tx - s" arbitrary: s)
    case 0
    then show ?case by (subst glob_loop.simps) (simp add: skip)
  next
    case (Suc n)
    then have "glob_loop ''*'' tx (Suc 0) (Suc s) (Some (Suc 0)) (Suc s) = Some True" by simp
    then show ?case using Suc.hyps(2) by (subst glob_loop.simps) (simp add: skip)
  qed
  show ?thesis
  proof (cases tx)
    case Nil
    then show ?thesis by (simp add: matchGlob_def glob_loop.simps skip)
  next
    case (Cons c r)
    show ?thesis
    proof (cases "c = CHR ''*''")
      case True
      then show ?thesis using Cons
        by (cases r) (simp_all add: matchGlob_def glob_loop.simps[of _ _ 0] glob_loop.simps[of _ _ "Suc 0"] skip)
    next
      case False
      then show ?thesis using Cons again[of 0]
        by (simp add: matchGlob_def glob_loop.simps[of _ _ 0])
    qed
  qed
qed

end
