(* ===== verification/Store.thy ===== *)
theory Store
  imports Glob
begin

text \<open>
  The data model of \<open>KvStore\<close> (\<open>zero/kv/store/kv_store.h\<close>) and the primitives all its
  operations are made of: sixteen shards, each with its databases and its watch counters.

  \<^item> \<open>std::hash<std::string>\<close> is left open by the language, so it is the parameter \<open>h\<close>
    of every operation that looks for a key's shard; no theorem assumes anything about it.
  \<^item> The clock \<open>nowMs()\<close> is the argument \<open>now\<close>: one argument per reading of the clock.
  \<^item> \<open>openEntry\<close> is the opening of nearly every operation, \<open>DbMap& dbmap = shard.m_dbs[db];
    Entry* e = findEntry(dbmap, key, now)\<close>, with its two effects: the database comes into being,
    and an expired entry is erased. \<open>probeEntry\<close> is the variant with \<open>m_dbs.find(db)\<close>.
  \<^item> \<open>putEntry\<close> is an assignment through the entry pointer or through \<open>dbmap[key]\<close>,
    \<open>eraseEntry\<close> is \<open>dbmap.erase(key)\<close>.
  \<^item> The out-parameters \<open>found\<close>, \<open>value_out\<close> and \<open>err\<close> of an operation are folded
    into its result: \<open>Inl\<close> carries the error text, \<open>Inr\<close> the result, with \<open>None\<close> for
    \<open>found = false\<close>.

  \<open>peek\<close> is the raw content of the store, \<open>live\<close> what is visible at a time. The locale
  \<open>keyspace\<close> states what the operations rely on.
\<close>

subsection \<open>Data\<close>

datatype ObjType = String | Hash | List | Set | ZSet | Stream

record StreamEntry =
  se_id :: string
  se_fields :: "(string, string) umap"

record StreamPendingMeta =
  delivery_ms :: int64
  delivery_count :: int64

record StreamConsumerState =
  cs_last_id :: string
  cs_pending :: "string list"
  pending_meta :: "(string, StreamPendingMeta) umap"

record StreamGroupState =
  gs_last_id :: string
  consumers :: "(string, StreamConsumerState) umap"

record Entry =
  etype :: ObjType
  evalue :: string
  ehash :: "(string, string) umap"
  elist :: "string list"
  eset :: "string list"
  ezset :: "(string \<times> double) list"
  estream :: "StreamEntry list"
  stream_last_ms :: uint64
  stream_last_seq :: uint64
  stream_groups :: "(string, StreamGroupState) umap"
  lru_ms :: int64
  expire_at_ms :: int64

type_synonym DbMap = "(string, Entry) umap"

record Shard =
  m_dbs :: "(int, DbMap) umap"
  m_watch_versions :: "(string, uint64) umap list"
  m_db_watch_epoch :: "(int, uint64) umap"
  m_hasWatches :: bool

record KvStore =
  m_shards :: "Shard list"
  m_rdbPath :: string
  m_lastSaveSec :: int64
  m_maxmemory :: int64
  m_maxmemory_policy :: string

type_synonym hasher = "string \<Rightarrow> nat"

definition kShardCount :: nat where
  "kShardCount = 16"

definition kMaxDb :: nat where
  "kMaxDb = 16"

definition kWrongType :: string where
  "kWrongType = ''WRONGTYPE Operation against a key holding the wrong kind of value''"

text \<open>A default-constructed \<open>Entry\<close>, \<open>Shard\<close> and \<open>KvStore\<close>.\<close>

definition new_entry :: Entry where
  "new_entry = \<lparr>etype = String, evalue = [], ehash = [], elist = [], eset = [], ezset = [],
     estream = [], stream_last_ms = 0, stream_last_seq = 0, stream_groups = [], lru_ms = 0,
     expire_at_ms = 0\<rparr>"

definition new_shard :: Shard where
  "new_shard = \<lparr>m_dbs = [], m_watch_versions = replicate kMaxDb [], m_db_watch_epoch = [],
     m_hasWatches = False\<rparr>"

definition new_store :: KvStore where
  "new_store = \<lparr>m_shards = replicate kShardCount new_shard, m_rdbPath = ''./dump.rdb'',
     m_lastSaveSec = 0, m_maxmemory = 0, m_maxmemory_policy = ''allkeys-lru''\<rparr>"

subsection \<open>Shards and databases\<close>

definition shardIdx :: "hasher \<Rightarrow> string \<Rightarrow> nat" where
  "shardIdx h key = h key mod kShardCount"

definition getShard :: "hasher \<Rightarrow> KvStore \<Rightarrow> string \<Rightarrow> Shard" where
  "getShard h st key = m_shards st ! shardIdx h key"

definition upd_shard :: "hasher \<Rightarrow> string \<Rightarrow> (Shard \<Rightarrow> Shard) \<Rightarrow> KvStore \<Rightarrow> KvStore" where
  "upd_shard h key f st =
     st\<lparr>m_shards := (m_shards st)[shardIdx h key := f (m_shards st ! shardIdx h key)]\<rparr>"

definition db_at :: "Shard \<Rightarrow> int \<Rightarrow> DbMap" where
  "db_at sh db = umap_get [] db (m_dbs sh)"

definition set_db :: "int \<Rightarrow> DbMap \<Rightarrow> Shard \<Rightarrow> Shard" where
  "set_db db d sh = sh\<lparr>m_dbs := AList.update db d (m_dbs sh)\<rparr>"

definition isExpired :: "Entry \<Rightarrow> int64 \<Rightarrow> bool" where
  "isExpired e now \<longleftrightarrow> expire_at_ms e > 0 \<and> now \<ge> expire_at_ms e"

definition purgeExpiredDb :: "DbMap \<Rightarrow> int64 \<Rightarrow> DbMap" where
  "purgeExpiredDb d now = filter (\<lambda>(k, e). \<not> isExpired e now) d"

definition findEntry :: "DbMap \<Rightarrow> string \<Rightarrow> int64 \<Rightarrow> DbMap \<times> Entry option" where
  "findEntry d key now =
     (case map_of d key of
        None \<Rightarrow> (d, None)
      | Some e \<Rightarrow> if isExpired e now then (AList.delete key d, None) else (d, Some e))"

definition touchEntry :: "int64 \<Rightarrow> Entry \<Rightarrow> Entry" where
  "touchEntry now e = e\<lparr>lru_ms := now\<rparr>"

definition openEntry :: "hasher \<Rightarrow> int \<Rightarrow> string \<Rightarrow> int64 \<Rightarrow> KvStore \<Rightarrow> KvStore \<times> Entry option" where
  "openEntry h db key now st =
     (case findEntry (db_at (getShard h st key) db) key now of
        (d, e) \<Rightarrow> (upd_shard h key (set_db db d) st, e))"

definition probeEntry :: "hasher \<Rightarrow> int \<Rightarrow> string \<Rightarrow> int64 \<Rightarrow> KvStore \<Rightarrow> KvStore \<times> Entry option" where
  "probeEntry h db key now st =
     (case map_of (m_dbs (getShard h st key)) db of
        None \<Rightarrow> (st, None)
      | Some _ \<Rightarrow> openEntry h db key now st)"

definition putEntry :: "hasher \<Rightarrow> int \<Rightarrow> string \<Rightarrow> Entry \<Rightarrow> KvStore \<Rightarrow> KvStore" where
  "putEntry h db key e st =
     upd_shard h key (\<lambda>sh. set_db db (AList.update key e (db_at sh db)) sh) st"

definition eraseEntry :: "hasher \<Rightarrow> int \<Rightarrow> string \<Rightarrow> KvStore \<Rightarrow> KvStore" where
  "eraseEntry h db key st =
     upd_shard h key (\<lambda>sh. set_db db (AList.delete key (db_at sh db)) sh) st"

subsection \<open>Watch counters\<close>

definition shard_bumpWatchKey :: "int \<Rightarrow> string \<Rightarrow> Shard \<Rightarrow> Shard" where
  "shard_bumpWatchKey db key sh =
     (if m_hasWatches sh
      then (let vers = m_watch_versions sh ! nat db
            in sh\<lparr>m_watch_versions :=
                 (m_watch_versions sh)[nat db := AList.update key (umap_get 0 key vers + 1) vers]\<rparr>)
      else sh)"

definition shard_bumpWatchDb :: "int \<Rightarrow> Shard \<Rightarrow> Shard" where
  "shard_bumpWatchDb db sh =
     sh\<lparr>m_db_watch_epoch := AList.update db (umap_get 0 db (m_db_watch_epoch sh) + 1) (m_db_watch_epoch sh)\<rparr>"

definition shard_watchToken :: "int \<Rightarrow> string \<Rightarrow> Shard \<Rightarrow> uint64" where
  "shard_watchToken db key sh =
     (let epoch = umap_get 0 db (m_db_watch_epoch sh);
          ver = umap_get 0 key (m_watch_versions sh ! nat db)
      in push_bit 32 epoch XOR ver)"

definition bumpWatchKey :: "hasher \<Rightarrow> int \<Rightarrow> string \<Rightarrow> KvStore \<Rightarrow> KvStore" where
  "bumpWatchKey h db key st = upd_shard h key (shard_bumpWatchKey db key) st"

definition bumpWatchDb :: "int \<Rightarrow> KvStore \<Rightarrow> KvStore" where
  "bumpWatchDb db st = st\<lparr>m_shards := map (shard_bumpWatchDb db) (m_shards st)\<rparr>"

text \<open>\<open>watchToken\<close> also turns the shard's watch counting on.\<close>

definition watchToken :: "hasher \<Rightarrow> int \<Rightarrow> string \<Rightarrow> KvStore \<Rightarrow> KvStore \<times> uint64" where
  "watchToken h db key st =
     (upd_shard h key (\<lambda>sh. sh\<lparr>m_hasWatches := True\<rparr>) st,
      shard_watchToken db key (getShard h st key))"

subsection \<open>Views and the invariant\<close>

definition peek :: "hasher \<Rightarrow> KvStore \<Rightarrow> int \<Rightarrow> string \<Rightarrow> Entry option" where
  "peek h st db key = map_of (db_at (getShard h st key) db) key"

definition live :: "hasher \<Rightarrow> int64 \<Rightarrow> KvStore \<Rightarrow> int \<Rightarrow> string \<Rightarrow> Entry option" where
  "live h now st db key =
     (case peek h st db key of None \<Rightarrow> None | Some e \<Rightarrow> if isExpired e now then None else Some e)"

definition token :: "hasher \<Rightarrow> KvStore \<Rightarrow> int \<Rightarrow> string \<Rightarrow> uint64" where
  "token h st db key = shard_watchToken db key (getShard h st key)"

definition watched :: "hasher \<Rightarrow> KvStore \<Rightarrow> string \<Rightarrow> bool" where
  "watched h st key \<longleftrightarrow> m_hasWatches (getShard h st key)"

text \<open>
  An entry only has the collection of its own type, and a hash, list, set or sorted set is never
  empty (its key is erased instead).
\<close>

definition wf_entry :: "Entry \<Rightarrow> bool" where
  "wf_entry e \<longleftrightarrow>
     (ehash e \<noteq> [] \<longleftrightarrow> etype e = Hash) \<and> (elist e \<noteq> [] \<longleftrightarrow> etype e = List) \<and>
     (eset e \<noteq> [] \<longleftrightarrow> etype e = Set) \<and> (ezset e \<noteq> [] \<longleftrightarrow> etype e = ZSet) \<and>
     (estream e \<noteq> [] \<longrightarrow> etype e = Stream) \<and>
     distinct (map fst (ehash e)) \<and> distinct (eset e) \<and>
     sorted (map fst (ezset e)) \<and> distinct (map fst (ezset e))"

definition wf_db :: "hasher \<Rightarrow> nat \<Rightarrow> DbMap \<Rightarrow> bool" where
  "wf_db h i d \<longleftrightarrow> distinct (map fst d) \<and> (\<forall>(k, e) \<in> set d. shardIdx h k = i \<and> wf_entry e)"

definition wf_shard :: "hasher \<Rightarrow> nat \<Rightarrow> Shard \<Rightarrow> bool" where
  "wf_shard h i sh \<longleftrightarrow>
     distinct (map fst (m_dbs sh)) \<and> length (m_watch_versions sh) = kMaxDb \<and>
     (\<forall>(db, d) \<in> set (m_dbs sh). wf_db h i d)"

definition wf_store :: "hasher \<Rightarrow> KvStore \<Rightarrow> bool" where
  "wf_store h st \<longleftrightarrow>
     length (m_shards st) = kShardCount \<and> (\<forall>i < kShardCount. wf_shard h i (m_shards st ! i))"

subsection \<open>The shape of the store\<close>

text \<open>All that the views need: there are sixteen shards.\<close>

definition shaped :: "KvStore \<Rightarrow> bool" where
  "shaped st \<longleftrightarrow> length (m_shards st) = kShardCount"

lemma wf_shaped [simp, intro]: "wf_store h st \<Longrightarrow> shaped st"
  by (simp add: wf_store_def shaped_def)

lemma shardIdx_less [simp]: "shardIdx h key < kShardCount"
  by (simp add: shardIdx_def kShardCount_def)

lemma shaped_upd_shard [simp]: "shaped (upd_shard h key f st) = shaped st"
  by (simp add: shaped_def upd_shard_def)

lemma getShard_upd_shard:
  "shaped st \<Longrightarrow> getShard h (upd_shard h key f st) k' =
     (if shardIdx h k' = shardIdx h key then f (getShard h st key) else getShard h st k')"
  by (simp add: getShard_def upd_shard_def shaped_def)

lemma db_at_set_db [simp]: "db_at (set_db db d sh) db' = (if db' = db then d else db_at sh db')"
  by (simp add: db_at_def set_db_def umap_get_def)

lemma shaped_ops [simp]:
  "shaped (putEntry h db key e st) = shaped st"
  "shaped (eraseEntry h db key st) = shaped st"
  "shaped (bumpWatchKey h db key st) = shaped st"
  "shaped (fst (openEntry h db key now st)) = shaped st"
  "shaped (fst (probeEntry h db key now st)) = shaped st"
  by (simp_all add: putEntry_def eraseEntry_def bumpWatchKey_def openEntry_def probeEntry_def
      split: prod.split option.split)

subsection \<open>The key space as an interface\<close>

text \<open>
  What a client of the raw store relies on: one entry per database and key, assignments and
  erasures that touch exactly the key they name.
\<close>

locale keyspace =
  fixes ok :: "'s \<Rightarrow> bool"
    and view :: "'s \<Rightarrow> 'd \<Rightarrow> 'k \<Rightarrow> 'e option"
    and put :: "'d \<Rightarrow> 'k \<Rightarrow> 'e \<Rightarrow> 's \<Rightarrow> 's"
    and del :: "'d \<Rightarrow> 'k \<Rightarrow> 's \<Rightarrow> 's"
  assumes view_put: "ok s \<Longrightarrow> view (put d k e s) d' k' = (if d' = d \<and> k' = k then Some e else view s d' k')"
    and view_del: "ok s \<Longrightarrow> view (del d k s) d' k' = (if d' = d \<and> k' = k then None else view s d' k')"
    and ok_put: "ok s \<Longrightarrow> ok (put d k e s)"
    and ok_del: "ok s \<Longrightarrow> ok (del d k s)"
begin

lemma ok_put_many: "ok s \<Longrightarrow> ok (fold (\<lambda>(k, e). put d k e) kvs s)"
  by (induction kvs arbitrary: s) (auto simp: ok_put)

lemma view_del_many:
  "ok s \<Longrightarrow> view (fold (del d) ks s) d' k' = (if d' = d \<and> k' \<in> set ks then None else view s d' k')"
  by (induction ks arbitrary: s) (auto simp: view_del ok_del)

lemma view_put_many:
  "ok s \<Longrightarrow> view (fold (\<lambda>(k, e). put d k e) kvs s) d' k' =
     (if d' = d \<and> k' \<in> fst ` set kvs then map_of (rev kvs) k' else view s d' k')"
proof (induction kvs arbitrary: s)
  case (Cons kv kvs)
  obtain k e where kv: "kv = (k, e)" by (cases kv)
  have "k' \<in> fst ` set kvs \<longleftrightarrow> map_of (rev kvs) k' \<noteq> None" by (simp add: map_of_eq_None_iff)
  then show ?case using Cons by (auto simp: kv view_put ok_put map_add_def split: option.splits)
qed simp

end

lemma peek_putEntry:
  "shaped st \<Longrightarrow> peek h (putEntry h db key e st) db' k' = (if db' = db \<and> k' = key then Some e else peek h st db' k')"
  by (auto simp: peek_def putEntry_def getShard_upd_shard) (simp add: getShard_def)+

lemma peek_eraseEntry:
  "shaped st \<Longrightarrow> peek h (eraseEntry h db key st) db' k' = (if db' = db \<and> k' = key then None else peek h st db' k')"
  by (auto simp: peek_def eraseEntry_def getShard_upd_shard) (simp add: getShard_def)+

interpretation raw: keyspace shaped "peek h" "putEntry h" "eraseEntry h" for h
  by unfold_locales (simp_all add: peek_putEntry peek_eraseEntry)

text \<open>The second interface: a store with watch tokens, as \<open>WATCH\<close> and \<open>EXEC\<close> use it.\<close>

locale watchable =
  fixes ok :: "'s \<Rightarrow> bool"
    and tok :: "'s \<Rightarrow> 'd \<Rightarrow> 'k \<Rightarrow> 't"
    and armed :: "'s \<Rightarrow> 'k \<Rightarrow> bool"
    and bump :: "'d \<Rightarrow> 'k \<Rightarrow> 's \<Rightarrow> 's"
  assumes tok_bump_same: "ok s \<Longrightarrow> armed s k \<Longrightarrow> tok (bump d k s) d k \<noteq> tok s d k"
    and tok_bump_other: "ok s \<Longrightarrow> k' \<noteq> k \<Longrightarrow> tok (bump d k s) d k' = tok s d k'"
    and armed_bump: "ok s \<Longrightarrow> armed (bump d k s) k' = armed s k'"
    and ok_bump: "ok s \<Longrightarrow> ok (bump d k s)"
begin

lemma tok_bumps_other:
  "ok s \<Longrightarrow> k' \<notin> set ks \<Longrightarrow> tok (fold (bump d) ks s) d k' = tok s d k'"
  by (induction ks arbitrary: s) (auto simp: tok_bump_other ok_bump)

end

lemma getShard_bump:
  "shaped st \<Longrightarrow> getShard h (bumpWatchKey h db key st) k' =
     (if shardIdx h k' = shardIdx h key then shard_bumpWatchKey db key (getShard h st key) else getShard h st k')"
  by (simp add: bumpWatchKey_def getShard_upd_shard)

definition db_index :: "int \<Rightarrow> bool" where
  "db_index db \<longleftrightarrow> 0 \<le> db \<and> db < int kMaxDb"

lemma wf_watch_length: "wf_store h st \<Longrightarrow> length (m_watch_versions (getShard h st key)) = kMaxDb"
  by (simp add: wf_store_def wf_shard_def getShard_def)

lemma wf_getShard: "wf_store h st \<Longrightarrow> wf_shard h (shardIdx h key) (getShard h st key)"
  by (simp add: wf_store_def getShard_def)

lemma same_shard: "shardIdx h k = shardIdx h k' \<Longrightarrow> getShard h st k = getShard h st k'"
  by (simp add: getShard_def)

text \<open>Bumping a counter changes the token: XOR with the same epoch is injective, and a 64-bit counter
  differs from its successor.\<close>

lemma xor_inj64: "a XOR b = a XOR c \<longleftrightarrow> b = c" for a :: uint64
proof
  assume eq: "a XOR b = a XOR c"
  have "b = a XOR (a XOR b)" by (simp flip: xor.assoc)
  also have "\<dots> = a XOR (a XOR c)" by (simp only: eq)
  also have "\<dots> = c" by (simp flip: xor.assoc)
  finally show "b = c" .
qed simp

lemma token_bump_same:
  assumes "wf_store h st" "db_index db" "watched h st key"
  shows "token h (bumpWatchKey h db key st) db key \<noteq> token h st db key"
proof -
  have len: "nat db < length (m_watch_versions (getShard h st key))"
    using assms(1,2) wf_watch_length[of h st key] by (auto simp: db_index_def)
  have "v + 1 \<noteq> v" for v :: uint64 by simp
  then show ?thesis using assms wf_shaped[OF assms(1)] len
    by (simp add: token_def getShard_bump shard_watchToken_def shard_bumpWatchKey_def watched_def
        Let_def xor_inj64 umap_get_def)
qed

lemma token_bump_other:
  assumes "shaped st" "k' \<noteq> key"
  shows "token h (bumpWatchKey h db key st) db' k' = token h st db' k'"
proof (cases "shardIdx h k' = shardIdx h key")
  case True
  have "umap_get 0 k' ((m_watch_versions sh)[nat db := AList.update key v (m_watch_versions sh ! nat db)] ! nat db')
      = umap_get 0 k' (m_watch_versions sh ! nat db')" for sh :: Shard and v
    using assms(2)
    by (cases "nat db' = nat db"; cases "nat db < length (m_watch_versions sh)")
       (simp_all add: umap_get_def list_update_beyond)
  then show ?thesis using assms(1) True same_shard[OF True]
    by (simp add: token_def getShard_bump shard_watchToken_def shard_bumpWatchKey_def Let_def)
next
  case False
  then show ?thesis using assms(1) by (simp add: token_def getShard_bump)
qed

lemma watched_bump: "shaped st \<Longrightarrow> watched h (bumpWatchKey h db k st) k' = watched h st k'"
  by (auto simp: watched_def getShard_bump shard_bumpWatchKey_def Let_def) (simp_all add: getShard_def)

subsection \<open>Preservation of the invariant\<close>

lemma wf_upd_shard:
  assumes "wf_store h st" "wf_shard h (shardIdx h key) (f (getShard h st key))"
  shows "wf_store h (upd_shard h key f st)"
  using assms by (auto simp: wf_store_def upd_shard_def getShard_def nth_list_update)

lemma wf_db_at: "wf_shard h i sh \<Longrightarrow> wf_db h i (db_at sh db)"
  by (auto simp: wf_shard_def db_at_def umap_get_def wf_db_def[of h i "[]"] dest: map_of_SomeD
      split: option.split)

lemma wf_set_db: "wf_shard h i sh \<Longrightarrow> wf_db h i d \<Longrightarrow> wf_shard h i (set_db db d sh)"
  by (auto simp: wf_shard_def set_db_def distinct_update dest!: in_set_update)

lemma wf_db_update:
  "wf_db h i d \<Longrightarrow> shardIdx h key = i \<Longrightarrow> wf_entry e \<Longrightarrow> wf_db h i (AList.update key e d)"
  by (auto simp: wf_db_def distinct_update dest!: in_set_update)

lemma wf_db_delete: "wf_db h i d \<Longrightarrow> wf_db h i (AList.delete key d)"
  by (auto simp: wf_db_def AList.delete_eq intro: distinct_map_filter)

lemma wf_db_filter: "wf_db h i d \<Longrightarrow> wf_db h i (filter P d)"
  by (auto simp: wf_db_def intro: distinct_map_filter)

lemma wf_putEntry [wf_rules]:
  "wf_store h st \<Longrightarrow> wf_entry e \<Longrightarrow> wf_store h (putEntry h db key e st)"
  unfolding putEntry_def
  by (intro wf_upd_shard wf_set_db wf_db_update wf_db_at wf_getShard) auto

lemma wf_eraseEntry [wf_rules]: "wf_store h st \<Longrightarrow> wf_store h (eraseEntry h db key st)"
  unfolding eraseEntry_def
  by (intro wf_upd_shard wf_set_db wf_db_delete wf_db_at wf_getShard) auto

lemma wf_bump [wf_rules]: "wf_store h st \<Longrightarrow> wf_store h (bumpWatchKey h db key st)"
  unfolding bumpWatchKey_def
  using wf_getShard[of h st key]
  by (intro wf_upd_shard) (auto simp: wf_shard_def shard_bumpWatchKey_def Let_def)

lemma wf_peek: "wf_store h st \<Longrightarrow> peek h st db key = Some e \<Longrightarrow> wf_entry e"
  using wf_db_at[OF wf_getShard[of h st key], of db]
  by (auto simp: peek_def wf_db_def dest: map_of_SomeD)

lemma wf_live: "wf_store h st \<Longrightarrow> live h now st db key = Some e \<Longrightarrow> wf_entry e"
  by (auto simp: live_def dest: wf_peek split: option.splits if_splits)

lemma wf_openEntry [wf_rules]: "wf_store h st \<Longrightarrow> wf_store h (fst (openEntry h db key now st))"
  unfolding openEntry_def findEntry_def
  by (auto split: option.split intro!: wf_upd_shard wf_set_db wf_db_delete wf_db_at wf_getShard)

lemma wf_probeEntry [wf_rules]: "wf_store h st \<Longrightarrow> wf_store h (fst (probeEntry h db key now st))"
  unfolding probeEntry_def by (auto split: option.split intro: wf_openEntry)

lemma new_entry_sel [simp]:
  "etype new_entry = String" "evalue new_entry = []" "ehash new_entry = []" "elist new_entry = []"
  "eset new_entry = []" "ezset new_entry = []" "estream new_entry = []" "stream_groups new_entry = []"
  "stream_last_ms new_entry = 0" "stream_last_seq new_entry = 0" "lru_ms new_entry = 0" "expire_at_ms new_entry = 0"
  by (simp_all add: new_entry_def)

lemma wf_new_entry0 [simp]: "wf_entry new_entry"
  by (simp add: wf_entry_def)

lemma wf_new_entry [simp]: "wf_entry (new_entry\<lparr>evalue := v\<rparr>)"
  by (simp add: wf_entry_def new_entry_def)

lemma wf_new_store [simp, wf_rules]: "wf_store h new_store"
  by (simp add: wf_store_def new_store_def wf_shard_def new_shard_def)

lemma peek_new_store [simp]: "peek h new_store db key = None"
  by (simp add: peek_def getShard_def new_store_def new_shard_def db_at_def umap_get_def)

text \<open>The tokens of a key that is counted, in a database a client can select.\<close>

interpretation counter: watchable "\<lambda>st. wf_store h st \<and> db_index db" "\<lambda>st _ key. token h st db key"
    "watched h" "\<lambda>_ key st. bumpWatchKey h db key st" for h db
proof unfold_locales
  fix s k k'
  assume wf: "wf_store h s \<and> db_index db"
  show "watched h s k \<Longrightarrow> token h (bumpWatchKey h db k s) db k \<noteq> token h s db k"
    using token_bump_same wf by blast
  show "k' \<noteq> k \<Longrightarrow> token h (bumpWatchKey h db k s) db k' = token h s db k'"
    using token_bump_other wf by blast
  show "watched h (bumpWatchKey h db k s) k' = watched h s k'"
    using watched_bump wf by blast
  show "wf_store h (bumpWatchKey h db k s) \<and> db_index db"
    using wf_bump wf by blast
qed

subsection \<open>What the primitives do to the views\<close>

lemma snd_openEntry [simp, store_simps]: "snd (openEntry h db key now st) = live h now st db key"
  by (simp add: openEntry_def findEntry_def live_def peek_def split: option.split)

lemma peek_openEntry [store_simps]:
  "shaped st \<Longrightarrow> peek h (fst (openEntry h db key now st)) db' k' =
     (if db' = db \<and> k' = key then live h now st db key else peek h st db' k')"
  by (auto simp: openEntry_def findEntry_def live_def peek_def getShard_upd_shard split: option.split)
     (simp_all add: getShard_def)

lemma no_db_no_entry: "map_of (m_dbs (getShard h st key)) db = None \<Longrightarrow> live h now st db key = None"
  by (simp add: live_def peek_def db_at_def umap_get_def)

lemma snd_probeEntry [simp, store_simps]: "snd (probeEntry h db key now st) = live h now st db key"
  by (auto simp: probeEntry_def no_db_no_entry split: option.split)

lemma peek_probeEntry [store_simps]:
  "shaped st \<Longrightarrow> peek h (fst (probeEntry h db key now st)) db' k' =
     (if db' = db \<and> k' = key then live h now st db key else peek h st db' k')"
  by (auto simp: probeEntry_def peek_openEntry split: option.split)
     (simp add: live_def peek_def db_at_def umap_get_def)

lemma peek_bump [store_simps]: "shaped st \<Longrightarrow> peek h (bumpWatchKey h db key st) db' k' = peek h st db' k'"
  by (auto simp: peek_def getShard_bump shard_bumpWatchKey_def Let_def db_at_def) (simp_all add: getShard_def)

declare peek_putEntry [store_simps] peek_eraseEntry [store_simps]

lemma live_cong: "peek h st db key = peek h st' db key \<Longrightarrow> live h now st db key = live h now st' db key"
  by (simp add: live_def)

lemma live_openEntry [store_simps]:
  "shaped st \<Longrightarrow> live h now (fst (openEntry h db key now st)) db' k' = live h now st db' k'"
  by (auto simp: live_def peek_openEntry split: option.split)

lemma live_probeEntry [store_simps]:
  "shaped st \<Longrightarrow> live h now (fst (probeEntry h db key now st)) db' k' = live h now st db' k'"
  by (auto simp: live_def peek_probeEntry split: option.split)

lemma live_putEntry [store_simps]:
  "shaped st \<Longrightarrow> live h now (putEntry h db key e st) db' k' =
     (if db' = db \<and> k' = key then (if isExpired e now then None else Some e) else live h now st db' k')"
  by (simp add: live_def peek_putEntry)

lemma live_eraseEntry [store_simps]:
  "shaped st \<Longrightarrow> live h now (eraseEntry h db key st) db' k' =
     (if db' = db \<and> k' = key then None else live h now st db' k')"
  by (simp add: live_def peek_eraseEntry)

lemma live_bump [store_simps]: "shaped st \<Longrightarrow> live h now (bumpWatchKey h db key st) db' k' = live h now st db' k'"
  by (rule live_cong) (rule peek_bump)

lemma live_not_expired: "live h now st db key = Some e \<Longrightarrow> \<not> isExpired e now"
  by (auto simp: live_def split: option.splits if_splits)

lemma live_peek: "live h now st db key = Some e \<Longrightarrow> peek h st db key = Some e"
  by (auto simp: live_def split: option.splits if_splits)

text \<open>The counters change through \<open>bumpWatchKey\<close> and \<open>bumpWatchDb\<close> only.\<close>

lemma token_upd_data:
  assumes "shaped st" and "\<And>sh. m_watch_versions (f sh) = m_watch_versions sh"
    and "\<And>sh. m_db_watch_epoch (f sh) = m_db_watch_epoch sh"
  shows "token h (upd_shard h key f st) db' k' = token h st db' k'"
proof (cases "shardIdx h k' = shardIdx h key")
  case True
  then show ?thesis using same_shard[OF True, of st] getShard_upd_shard[OF assms(1), of h key f k']
    by (simp add: token_def shard_watchToken_def assms(2,3))
next
  case False
  then show ?thesis using getShard_upd_shard[OF assms(1), of h key f k'] by (simp add: token_def)
qed

lemma watched_upd_data:
  assumes "shaped st" and "\<And>sh. m_hasWatches (f sh) = m_hasWatches sh"
  shows "watched h (upd_shard h key f st) k' = watched h st k'"
proof (cases "shardIdx h k' = shardIdx h key")
  case True
  then show ?thesis using same_shard[OF True, of st] getShard_upd_shard[OF assms(1), of h key f k']
    by (simp add: watched_def assms(2))
next
  case False
  then show ?thesis using getShard_upd_shard[OF assms(1), of h key f k'] by (simp add: watched_def)
qed

lemma set_db_counters [simp]:
  "m_watch_versions (set_db db d sh) = m_watch_versions sh"
  "m_db_watch_epoch (set_db db d sh) = m_db_watch_epoch sh"
  "m_hasWatches (set_db db d sh) = m_hasWatches sh"
  by (simp_all add: set_db_def)

lemma token_ops [store_simps]:
  assumes "shaped st"
  shows "token h (putEntry h db key e st) db' k' = token h st db' k'"
    "token h (eraseEntry h db key st) db' k' = token h st db' k'"
    "token h (fst (openEntry h db key now st)) db' k' = token h st db' k'"
    "token h (fst (probeEntry h db key now st)) db' k' = token h st db' k'"
  using assms
  by (auto simp: putEntry_def eraseEntry_def openEntry_def probeEntry_def token_upd_data
      split: prod.split option.split)

lemma watched_ops [store_simps]:
  assumes "shaped st"
  shows "watched h (putEntry h db key e st) k' = watched h st k'"
    "watched h (eraseEntry h db key st) k' = watched h st k'"
    "watched h (fst (openEntry h db key now st)) k' = watched h st k'"
    "watched h (fst (probeEntry h db key now st)) k' = watched h st k'"
  using assms
  by (auto simp: putEntry_def eraseEntry_def openEntry_def probeEntry_def watched_upd_data
      split: prod.split option.split)

declare token_bump_other [store_simps] watched_bump [store_simps]

text \<open>
  The shape of nearly every proof about an operation: the opening of the entry is rewritten to the
  state it leaves and the visible entry, which the lemmas above know.
\<close>

lemma openEntry_pair: "openEntry h db key now st = (fst (openEntry h db key now st), live h now st db key)"
  by (metis prod.collapse snd_openEntry)

lemma probeEntry_pair: "probeEntry h db key now st = (fst (probeEntry h db key now st), live h now st db key)"
  by (metis prod.collapse snd_probeEntry)

lemma case_openEntry [simp]:
  "case_prod f (openEntry h db key now st) = f (fst (openEntry h db key now st)) (live h now st db key)"
  by (subst openEntry_pair) (simp only: prod.case)

lemma case_probeEntry [simp]:
  "case_prod f (probeEntry h db key now st) = f (fst (probeEntry h db key now st)) (live h now st db key)"
  by (subst probeEntry_pair) (simp only: prod.case)

end
