(* ===== verification/Evict.thy ===== *)
theory Evict
  imports Store
begin

text \<open>
  Memory accounting and eviction: \<open>estimateEntryBytes\<close>, \<open>usedMemoryApprox\<close>,
  \<open>evictIfNeededLocked\<close> and the \<open>maxmemory\<close> settings of \<open>zero/kv/store/kv_store.cc\<close>.

  The choice the language and the generator leave open (which of several least candidates
  \<open>std::sort\<close> puts first, what \<open>std::mt19937\<close> draws) is the argument \<open>rng\<close>, one
  number per round; every statement holds for all of them. The \<open>while (true)\<close> loop has as
  much fuel as the store has entries, and \<open>evict_loop_stops\<close> shows that it ends by one of
  its own exits.
\<close>

subsection \<open>Accounting\<close>

definition estimateEntryBytes :: "string \<Rightarrow> Entry \<Rightarrow> int64" where
  "estimateEntryBytes key e = int (length key) + 64 +
     (case etype e of
        Hash \<Rightarrow> (\<Sum>(f, v) \<leftarrow> ehash e. int (length f) + int (length v) + 16)
      | List \<Rightarrow> (\<Sum>v \<leftarrow> elist e. int (length v) + 8)
      | Set \<Rightarrow> (\<Sum>m \<leftarrow> eset e. int (length m) + 8)
      | ZSet \<Rightarrow> (\<Sum>(m, _) \<leftarrow> ezset e. int (length m) + 16)
      | Stream \<Rightarrow> (\<Sum>x \<leftarrow> estream e. int (length (se_id x)) + 16 +
                      (\<Sum>(f, v) \<leftarrow> se_fields x. int (length f) + int (length v) + 16))
      | String \<Rightarrow> int (length (evalue e)))"

text \<open>The nested loops over the databases of a shard and the entries of a database.\<close>

definition shard_entries :: "Shard \<Rightarrow> (int \<times> string \<times> Entry) list" where
  "shard_entries sh = concat (map (\<lambda>(db, d). map (\<lambda>(k, e). (db, k, e)) d) (m_dbs sh))"

definition usedMemoryApprox :: "int64 \<Rightarrow> KvStore \<Rightarrow> int64" where
  "usedMemoryApprox now st =
     (\<Sum>sh \<leftarrow> m_shards st. \<Sum>(db, k, e) \<leftarrow> shard_entries sh.
        if isExpired e now then 0 else estimateEntryBytes k e)"

definition setMaxMemory :: "int64 \<Rightarrow> KvStore \<Rightarrow> KvStore" where
  "setMaxMemory bytes st = st\<lparr>m_maxmemory := (if bytes > 0 then bytes else 0)\<rparr>"

definition setMaxMemoryPolicy :: "string \<Rightarrow> KvStore \<Rightarrow> KvStore" where
  "setMaxMemoryPolicy policy st =
     st\<lparr>m_maxmemory_policy := (if policy = [] then ''noeviction'' else policy)\<rparr>"

subsection \<open>The eviction loop\<close>

record Candidate =
  cand_db :: int
  cand_shard :: nat
  cand_key :: string
  cand_lru :: int64
  cand_ttl_left :: int64

definition volatile_only :: "string \<Rightarrow> bool" where
  "volatile_only policy \<longleftrightarrow> policy \<in> {''volatile-lru'', ''volatile-random'', ''volatile-ttl''}"

definition evict_candidates :: "string \<Rightarrow> int64 \<Rightarrow> nat \<Rightarrow> Shard \<Rightarrow> Candidate list" where
  "evict_candidates policy now i sh =
     map (\<lambda>(db, k, e). \<lparr>cand_db = db, cand_shard = i, cand_key = k, cand_lru = lru_ms e,
            cand_ttl_left = (if expire_at_ms e > 0 then i64 (expire_at_ms e - now) else INT64_MAX)\<rparr>)
       (filter (\<lambda>(db, k, e). \<not> isExpired e now \<and> \<not> (volatile_only policy \<and> expire_at_ms e \<le> 0))
         (shard_entries sh))"

definition evict_sample :: "int64 \<Rightarrow> KvStore \<Rightarrow> Candidate list" where
  "evict_sample now st =
     take 16 (concat (map (\<lambda>i. evict_candidates (m_maxmemory_policy st) now i (m_shards st ! i))
                        [0..<length (m_shards st)]))"

definition sort_front :: "('a \<Rightarrow> int) \<Rightarrow> nat \<Rightarrow> 'a list \<Rightarrow> 'a" where
  "sort_front f r xs = (let least = filter (\<lambda>x. f x = Min (set (map f xs))) xs in least ! (r mod length least))"

definition pick_victim :: "string \<Rightarrow> nat \<Rightarrow> Candidate list \<Rightarrow> Candidate" where
  "pick_victim policy r sample =
     (if policy \<in> {''allkeys-random'', ''volatile-random''} then sample ! (r mod length sample)
      else if policy = ''volatile-ttl'' then sort_front cand_ttl_left r sample
      else if policy \<in> {''allkeys-lru'', ''volatile-lru''} then sort_front cand_lru r sample
      else hd sample)"

definition evict_erase :: "Candidate \<Rightarrow> DbMap \<Rightarrow> KvStore \<Rightarrow> KvStore" where
  "evict_erase v d st =
     st\<lparr>m_shards := (m_shards st)[cand_shard v :=
          shard_bumpWatchKey (cand_db v) (cand_key v)
            (set_db (cand_db v) (AList.delete (cand_key v) d) (m_shards st ! cand_shard v))]\<rparr>"

fun evict_loop :: "(nat \<Rightarrow> nat) \<Rightarrow> int64 \<Rightarrow> nat \<Rightarrow> KvStore \<Rightarrow> KvStore" where
  "evict_loop rng now 0 st = st"
| "evict_loop rng now (Suc n) st =
     (if usedMemoryApprox now st \<le> m_maxmemory st then st
      else if evict_sample now st = [] then st
      else (let v = pick_victim (m_maxmemory_policy st) (rng n) (evict_sample now st)
            in case map_of (m_dbs (m_shards st ! cand_shard v)) (cand_db v) of
                 None \<Rightarrow> st
               | Some d \<Rightarrow> evict_loop rng now n (evict_erase v d st)))"

definition entry_count :: "KvStore \<Rightarrow> nat" where
  "entry_count st = (\<Sum>sh \<leftarrow> m_shards st. length (shard_entries sh))"

definition evictIfNeededLocked :: "(nat \<Rightarrow> nat) \<Rightarrow> int64 \<Rightarrow> KvStore \<Rightarrow> KvStore" where
  "evictIfNeededLocked rng now st =
     (if m_maxmemory st \<le> 0 \<or> m_maxmemory_policy st = ''noeviction'' then st
      else evict_loop rng now (entry_count st) st)"

subsection \<open>The entries of a well-formed store\<close>

lemma shard_entries_mem:
  assumes "wf_shard h i sh"
  shows "(db, k, e) \<in> set (shard_entries sh) \<longleftrightarrow> map_of (db_at sh db) k = Some e"
proof -
  have dbs: "(db, d) \<in> set (m_dbs sh) \<longleftrightarrow> map_of (m_dbs sh) db = Some d" for d
    using assms by (simp add: wf_shard_def)
  have ks: "(k, e) \<in> set d \<longleftrightarrow> map_of d k = Some e" if "map_of (m_dbs sh) db = Some d" for d
    using assms map_of_SomeD[OF that] by (auto simp: wf_shard_def wf_db_def)
  have "(db, k, e) \<in> set (shard_entries sh) \<longleftrightarrow> (\<exists>d. (db, d) \<in> set (m_dbs sh) \<and> (k, e) \<in> set d)"
    by (auto simp: shard_entries_def)
  then show ?thesis using ks
    by (cases "map_of (m_dbs sh) db") (auto simp: dbs db_at_def umap_get_def)
qed

lemma db_at_shardIdx: "wf_shard h i sh \<Longrightarrow> map_of (db_at sh db) k = Some e \<Longrightarrow> shardIdx h k = i"
  using wf_db_at[of h i sh db] by (auto simp: wf_db_def dest: map_of_SomeD)

lemma wf_nth_shard: "wf_store h st \<Longrightarrow> i < kShardCount \<Longrightarrow> wf_shard h i (m_shards st ! i)"
  by (simp add: wf_store_def)

lemma entries_peek:
  assumes "wf_store h st" "i < kShardCount"
  shows "(db, k, e) \<in> set (shard_entries (m_shards st ! i)) \<longleftrightarrow> shardIdx h k = i \<and> peek h st db k = Some e"
  using shard_entries_mem[OF wf_nth_shard[OF assms]] db_at_shardIdx[OF wf_nth_shard[OF assms]]
  by (auto simp: peek_def getShard_def)

definition occupied :: "hasher \<Rightarrow> KvStore \<Rightarrow> (int \<times> string) set" where
  "occupied h st = {(db, k). peek h st db k \<noteq> None}"

lemma occupied_entries:
  assumes "wf_store h st"
  shows "occupied h st = (\<lambda>(db, k, e). (db, k)) ` set (concat (map shard_entries (m_shards st)))"
    (is "_ = ?R")
proof (intro set_eqI iffI)
  fix x assume "x \<in> occupied h st"
  then obtain db k e where x: "x = (db, k)" "peek h st db k = Some e" by (auto simp: occupied_def)
  have "shardIdx h k < length (m_shards st)" using assms by (simp add: wf_store_def)
  then have "(db, k, e) \<in> set (concat (map shard_entries (m_shards st)))"
    using entries_peek[OF assms shardIdx_less, of db k e h k] x by force
  then show "x \<in> ?R" unfolding x by force
next
  fix x assume "x \<in> ?R"
  then obtain db k e i where x: "x = (db, k)" "i < length (m_shards st)"
      "(db, k, e) \<in> set (shard_entries (m_shards st ! i))"
    by (auto simp: in_set_conv_nth[of _ "m_shards st"])
  then show "x \<in> occupied h st"
    using entries_peek[OF assms, of i db k e] assms by (simp add: occupied_def wf_store_def)
qed

lemma finite_occupied: "wf_store h st \<Longrightarrow> finite (occupied h st)"
  by (simp only: occupied_entries finite_imageI finite_set)

lemma card_occupied: "wf_store h st \<Longrightarrow> card (occupied h st) \<le> entry_count st"
proof -
  assume "wf_store h st"
  then have "card (occupied h st) \<le> card (set (concat (map shard_entries (m_shards st))))"
    by (simp only: occupied_entries) (rule card_image_le, simp)
  also have "\<dots> \<le> length (concat (map shard_entries (m_shards st)))" by (rule card_length)
  also have "\<dots> = entry_count st" by (simp add: entry_count_def length_concat comp_def)
  finally show ?thesis .
qed

subsection \<open>One round of eviction\<close>

lemma sort_front_mem: "xs \<noteq> [] \<Longrightarrow> sort_front f r xs \<in> set xs"
proof -
  assume ne: "xs \<noteq> []"
  let ?l = "filter (\<lambda>x. f x = Min (set (map f xs))) xs"
  have "Min (set (map f xs)) \<in> set (map f xs)" using ne by (intro Min_in) auto
  then have "?l \<noteq> []" by (force simp: filter_empty_conv)
  then have "?l ! (r mod length ?l) \<in> set ?l" by (intro nth_mem) simp
  then show ?thesis by (simp add: sort_front_def Let_def)
qed

lemma sort_front_least: "x \<in> set xs \<Longrightarrow> f (sort_front f r xs) \<le> f x"
proof -
  assume x: "x \<in> set xs"
  let ?l = "filter (\<lambda>x. f x = Min (set (map f xs))) xs"
  have "Min (set (map f xs)) \<in> set (map f xs)" using x by (intro Min_in) auto
  then have "?l \<noteq> []" by (force simp: filter_empty_conv)
  then have "?l ! (r mod length ?l) \<in> set ?l" by (intro nth_mem) simp
  then have "f (sort_front f r xs) = Min (set (map f xs))" by (simp add: sort_front_def Let_def)
  then show ?thesis using x by simp
qed

lemma pick_victim_mem: "sample \<noteq> [] \<Longrightarrow> pick_victim policy r sample \<in> set sample"
  by (simp add: pick_victim_def sort_front_mem)

lemma sample_mem:
  assumes "wf_store h st" "v \<in> set (evict_sample now st)"
  shows "\<exists>e. peek h st (cand_db v) (cand_key v) = Some e \<and> \<not> isExpired e now \<and>
    cand_shard v = shardIdx h (cand_key v) \<and>
    (volatile_only (m_maxmemory_policy st) \<longrightarrow> expire_at_ms e > 0) \<and> cand_lru v = lru_ms e"
proof -
  obtain i where i: "i < length (m_shards st)"
      "v \<in> set (evict_candidates (m_maxmemory_policy st) now i (m_shards st ! i))"
    using in_set_takeD[OF assms(2)[unfolded evict_sample_def]] by auto
  then show ?thesis using entries_peek[OF assms(1), of i] assms(1)
    by (fastforce simp: evict_candidates_def wf_store_def)
qed

text \<open>In a well-formed store a round is an erasure and a bump of the victim's counter.\<close>

lemma evict_erase_eq:
  assumes "shaped st" "cand_shard v = shardIdx h (cand_key v)"
    "map_of (m_dbs (m_shards st ! cand_shard v)) (cand_db v) = Some d"
  shows "evict_erase v d st = bumpWatchKey h (cand_db v) (cand_key v) (eraseEntry h (cand_db v) (cand_key v) st)"
proof -
  have "db_at (m_shards st ! cand_shard v) (cand_db v) = d"
    using assms(3) by (simp add: db_at_def umap_get_def)
  then show ?thesis using assms(1,2)
    by (simp add: evict_erase_def bumpWatchKey_def eraseEntry_def upd_shard_def shaped_def)
qed

lemma peek_db: "peek h st db key = Some e \<Longrightarrow> \<exists>d. map_of (m_dbs (m_shards st ! shardIdx h key)) db = Some d"
  by (auto simp: peek_def db_at_def umap_get_def getShard_def split: option.splits)

definition evict_one :: "hasher \<Rightarrow> Candidate \<Rightarrow> KvStore \<Rightarrow> KvStore" where
  "evict_one h v st = bumpWatchKey h (cand_db v) (cand_key v) (eraseEntry h (cand_db v) (cand_key v) st)"

lemma m_settings [simp]:
  "m_maxmemory (upd_shard h key f st) = m_maxmemory st"
  "m_maxmemory_policy (upd_shard h key f st) = m_maxmemory_policy st"
  by (simp_all add: upd_shard_def)

lemma evict_one_settings [simp]:
  "m_maxmemory (evict_one h v st) = m_maxmemory st"
  "m_maxmemory_policy (evict_one h v st) = m_maxmemory_policy st"
  by (simp_all add: evict_one_def bumpWatchKey_def eraseEntry_def)

lemma wf_evict_one: "wf_store h st \<Longrightarrow> wf_store h (evict_one h v st)"
  by (simp add: evict_one_def wf_rules)

lemma peek_evict_one:
  "shaped st \<Longrightarrow> peek h (evict_one h v st) db k =
     (if db = cand_db v \<and> k = cand_key v then None else peek h st db k)"
  by (simp add: evict_one_def store_simps)

lemma occupied_evict_one:
  assumes "wf_store h st" "v \<in> set (evict_sample now st)"
  shows "card (occupied h (evict_one h v st)) < card (occupied h st)"
proof -
  have "occupied h (evict_one h v st) = occupied h st - {(cand_db v, cand_key v)}"
    using wf_shaped[OF assms(1)] by (auto simp: occupied_def peek_evict_one)
  moreover have "(cand_db v, cand_key v) \<in> occupied h st"
    using sample_mem[OF assms] by (auto simp: occupied_def)
  ultimately show ?thesis using finite_occupied[OF assms(1)] by (metis card_Diff1_less)
qed

subsection \<open>The loop\<close>

lemma evict_loop_step:
  assumes "wf_store h st" "\<not> usedMemoryApprox now st \<le> m_maxmemory st" "evict_sample now st \<noteq> []"
  shows "\<exists>v \<in> set (evict_sample now st). evict_loop rng now (Suc n) st = evict_loop rng now n (evict_one h v st)"
proof -
  let ?v = "pick_victim (m_maxmemory_policy st) (rng n) (evict_sample now st)"
  have v: "?v \<in> set (evict_sample now st)" using assms(3) by (rule pick_victim_mem)
  obtain e where e: "peek h st (cand_db ?v) (cand_key ?v) = Some e"
      and i: "cand_shard ?v = shardIdx h (cand_key ?v)"
    using sample_mem[OF assms(1) v] by blast
  obtain d where d: "map_of (m_dbs (m_shards st ! cand_shard ?v)) (cand_db ?v) = Some d"
    using peek_db[OF e] i by auto
  have "evict_loop rng now (Suc n) st = evict_loop rng now n (evict_erase ?v d st)"
    using assms(2,3) d by (simp add: Let_def)
  also have "evict_erase ?v d st = evict_one h ?v st"
    using evict_erase_eq[OF wf_shaped[OF assms(1)] i d] by (simp add: evict_one_def)
  finally show ?thesis using v by blast
qed

text \<open>Partial and total correctness at once: an invariant of the rounds holds at the end, and the end
  is one of the two exits of the loop.\<close>

lemma evict_loop_rule:
  assumes "wf_store h st" "card (occupied h st) \<le> n" "I st" "0 \<le> m_maxmemory st"
    and step: "\<And>s v. wf_store h s \<Longrightarrow> I s \<Longrightarrow> v \<in> set (evict_sample now s) \<Longrightarrow> I (evict_one h v s)"
    and "st' = evict_loop rng now n st"
  shows "wf_store h st' \<and> I st' \<and> (usedMemoryApprox now st' \<le> m_maxmemory st' \<or> evict_sample now st' = [])"
  using assms(1-4,6)
proof (induction n arbitrary: st)
  case 0
  then have none: "occupied h st = {}" using finite_occupied by fastforce
  have "v \<notin> set (evict_sample now st)" for v
    using sample_mem[OF \<open>wf_store h st\<close>, of v now] none by (auto simp: occupied_def)
  then have "evict_sample now st = []" by (metis last_in_set)
  then show ?case using 0 by simp
next
  case (Suc n)
  show ?case
  proof (cases "usedMemoryApprox now st \<le> m_maxmemory st \<or> evict_sample now st = []")
    case True
    then show ?thesis using Suc.prems by (auto simp: Let_def)
  next
    case False
    then obtain v where v: "v \<in> set (evict_sample now st)" "st' = evict_loop rng now n (evict_one h v st)"
      using evict_loop_step[OF Suc.prems(1), of now rng n] Suc.prems(5) by auto
    have "card (occupied h (evict_one h v st)) \<le> n"
      using occupied_evict_one[OF Suc.prems(1) v(1)] Suc.prems(2) by simp
    then show ?thesis
      using Suc.IH[of "evict_one h v st"] step[OF Suc.prems(1,3) v(1)] Suc.prems(1,4) v(2)
      by (simp add: wf_evict_one)
  qed
qed

lemma sample_empty:
  assumes "wf_store h st" "evict_sample now st = []" "live h now st db k = Some e"
  shows "volatile_only (m_maxmemory_policy st) \<and> expire_at_ms e \<le> 0"
proof -
  have len: "shardIdx h k < length (m_shards st)" using assms(1) by (simp add: wf_store_def)
  have "(db, k, e) \<in> set (shard_entries (m_shards st ! shardIdx h k))"
    using entries_peek[OF assms(1) shardIdx_less] live_peek[OF assms(3)] by blast
  moreover have "evict_candidates (m_maxmemory_policy st) now (shardIdx h k) (m_shards st ! shardIdx h k) = []"
    using assms(2) len by (auto simp: evict_sample_def)
  ultimately show ?thesis using live_not_expired[OF assms(3)]
    by (fastforce simp: evict_candidates_def filter_empty_conv)
qed

lemma used_none_live:
  assumes "wf_store h st" "\<And>db k. live h now st db k = None"
  shows "usedMemoryApprox now st = 0"
proof -
  have "isExpired e now" if sh: "sh \<in> set (m_shards st)" "(db, k, e) \<in> set (shard_entries sh)" for sh db k e
  proof -
    obtain i where i: "i < length (m_shards st)" "m_shards st ! i = sh"
      using sh(1) unfolding in_set_conv_nth by blast
    have "i < kShardCount" using i(1) assms(1) by (simp add: wf_store_def)
    then have "peek h st db k = Some e" using entries_peek[OF assms(1), of i] sh(2) i(2) by blast
    then show ?thesis using assms(2)[of db k] by (auto simp: live_def split: if_splits)
  qed
  then show ?thesis
    unfolding usedMemoryApprox_def
    by (intro sum_list_zero) auto
qed

text \<open>What the rounds keep: the settings, and every entry that is not a live one the policy may take;
  an entry taken has its counter bumped.\<close>

definition evict_inv :: "hasher \<Rightarrow> int64 \<Rightarrow> KvStore \<Rightarrow> KvStore \<Rightarrow> bool" where
  "evict_inv h now st s \<longleftrightarrow>
     m_maxmemory s = m_maxmemory st \<and> m_maxmemory_policy s = m_maxmemory_policy st \<and>
     (\<forall>k. watched h s k = watched h st k) \<and>
     (\<forall>db k. peek h s db k = peek h st db k \<and> (db_index db \<longrightarrow> token h s db k = token h st db k) \<or>
        peek h s db k = None \<and>
        (\<exists>e. live h now st db k = Some e \<and> (volatile_only (m_maxmemory_policy st) \<longrightarrow> expire_at_ms e > 0)) \<and>
        (db_index db \<and> watched h st k \<longrightarrow> token h s db k \<noteq> token h st db k))"

lemma token_bump_other_db:
  assumes "shaped st" "db_index db" "db_index db'" "db' \<noteq> db"
  shows "token h (bumpWatchKey h db key st) db' k' = token h st db' k'"
proof (cases "shardIdx h k' = shardIdx h key")
  case True
  have "nat db' \<noteq> nat db" using assms(2-4) unfolding db_index_def by linarith
  then show ?thesis using assms(1) True same_shard[OF True]
    by (simp add: token_def getShard_bump shard_watchToken_def shard_bumpWatchKey_def Let_def)
next
  case False
  then show ?thesis using assms(1) by (simp add: token_def getShard_bump)
qed

lemma evict_inv_step:
  assumes wf: "wf_store h s" and inv: "evict_inv h now st s" and v: "v \<in> set (evict_sample now s)"
    and dbs: "\<And>db k. peek h st db k \<noteq> None \<Longrightarrow> db_index db"
  shows "evict_inv h now st (evict_one h v s)"
proof -
  note sh = wf_shaped[OF wf]
  obtain e where e: "peek h s (cand_db v) (cand_key v) = Some e" "\<not> isExpired e now"
      "volatile_only (m_maxmemory_policy s) \<longrightarrow> expire_at_ms e > 0"
    using sample_mem[OF wf v] by blast
  have old: "peek h st (cand_db v) (cand_key v) = Some e"
      "db_index (cand_db v) \<longrightarrow> token h s (cand_db v) (cand_key v) = token h st (cand_db v) (cand_key v)"
    using inv e(1) by (auto simp: evict_inv_def) (metis option.distinct(1))+
  have idx: "db_index (cand_db v)" using dbs old(1) by blast
  have victim: "db_index (cand_db v) \<and> watched h st (cand_key v) \<longrightarrow>
      token h (evict_one h v s) (cand_db v) (cand_key v) \<noteq> token h st (cand_db v) (cand_key v)"
    using token_bump_same[of h "eraseEntry h (cand_db v) (cand_key v) s" "cand_db v" "cand_key v"] old(2) inv idx wf sh
    by (simp add: evict_one_def store_simps wf_rules evict_inv_def)
  have other: "token h (evict_one h v s) db k = token h s db k"
    if "(db, k) \<noteq> (cand_db v, cand_key v)" "db_index db" for db k
    using that token_bump_other_db[OF _ idx] sh
    by (cases "k = cand_key v") (auto simp: evict_one_def store_simps)
  have "watched h (evict_one h v s) k = watched h st k" for k
    using inv sh by (simp add: evict_one_def store_simps evict_inv_def)
  moreover have "live h now st (cand_db v) (cand_key v) = Some e"
    using old(1) e(2) by (simp add: live_def)
  ultimately show ?thesis using inv e(3) victim other sh
    unfolding evict_inv_def by (simp add: peek_evict_one)
qed

text \<open>What every writer that may evict first relies on.\<close>

lemma evict_rule:
  assumes "wf_store h st" "I st" "\<And>s v. wf_store h s \<Longrightarrow> I s \<Longrightarrow> v \<in> set (evict_sample now s) \<Longrightarrow> I (evict_one h v s)"
  shows "wf_store h (evictIfNeededLocked rng now st) \<and> I (evictIfNeededLocked rng now st)"
proof (cases "m_maxmemory st \<le> 0 \<or> m_maxmemory_policy st = ''noeviction''")
  case False
  then show ?thesis
    using evict_loop_rule[OF assms(1) card_occupied[OF assms(1)], of I now "evict_loop rng now (entry_count st) st" rng] assms(2,3)
    by (simp add: evictIfNeededLocked_def)
qed (use assms in \<open>simp add: evictIfNeededLocked_def\<close>)

lemma wf_evict [wf_rules]: "wf_store h st \<Longrightarrow> wf_store h (evictIfNeededLocked rng now st)"
  using evict_rule[of h st "\<lambda>_. True"] by blast

lemma live_evict:
  "wf_store h st \<Longrightarrow> live h t (evictIfNeededLocked rng now st) db k \<in> {None, live h t st db k}"
  using evict_rule[of h st "\<lambda>s. live h t s db k \<in> {None, live h t st db k}" now rng]
  by (auto simp: live_def peek_evict_one)

lemma watched_evict:
  "wf_store h st \<Longrightarrow> watched h (evictIfNeededLocked rng now st) k = watched h st k"
  using evict_rule[of h st "\<lambda>s. watched h s k = watched h st k" now rng]
  by (simp add: evict_one_def store_simps)

lemma evict_unlimited [simp]: "m_maxmemory st \<le> 0 \<Longrightarrow> evictIfNeededLocked rng now st = st"
  by (simp add: evictIfNeededLocked_def)

text \<open>C20: Eviction meets its contract for every choice of victims. When \<open>evictIfNeededLocked\<close>
  returns (and it always does), the store is well formed, and either the accounted memory is within
  \<open>maxmemory\<close> or the policy is a volatile one and no live key has a time to live any more; every
  entry is as it was, or it was live, the policy allowed it to be taken, and the token that
  \<open>WATCH\<close> saw for it has changed.\<close>

theorem evictIfNeededLocked_correct:
  assumes "wf_store h st" "0 < m_maxmemory st" "m_maxmemory_policy st \<noteq> ''noeviction''"
    and "\<forall>db k. peek h st db k \<noteq> None \<longrightarrow> db_index db"
    and "st' = evictIfNeededLocked rng now st"
  shows "wf_store h st' \<and>
    (usedMemoryApprox now st' \<le> m_maxmemory st \<or>
     volatile_only (m_maxmemory_policy st) \<and> (\<forall>db k e. live h now st' db k = Some e \<longrightarrow> expire_at_ms e \<le> 0)) \<and>
    (\<forall>db k. peek h st' db k = peek h st db k \<or>
       peek h st' db k = None \<and>
       (\<exists>e. live h now st db k = Some e \<and> (volatile_only (m_maxmemory_policy st) \<longrightarrow> expire_at_ms e > 0)) \<and>
       (watched h st k \<longrightarrow> token h st' db k \<noteq> token h st db k))"
proof -
  have loop: "st' = evict_loop rng now (entry_count st) st"
    using assms(2,3,5) by (simp add: evictIfNeededLocked_def)
  have "evict_inv h now st st" by (simp add: evict_inv_def)
  moreover have "evict_inv h now st (evict_one h v s)"
    if "wf_store h s" "evict_inv h now st s" "v \<in> set (evict_sample now s)" for s v
    using evict_inv_step[OF that] assms(4) by blast
  ultimately have res: "wf_store h st' \<and> evict_inv h now st st' \<and>
      (usedMemoryApprox now st' \<le> m_maxmemory st' \<or> evict_sample now st' = [])"
    using evict_loop_rule[OF assms(1) card_occupied[OF assms(1)] _ _ _ loop, where I = "evict_inv h now st"] assms(2)
    by simp
  have small: "usedMemoryApprox now st' \<le> m_maxmemory st" if "evict_sample now st' = []" "\<not> volatile_only (m_maxmemory_policy st)"
  proof -
    have "live h now st' db k = None" for db k
      using sample_empty[of h st' now db k] res that by (cases "live h now st' db k") (auto simp: evict_inv_def)
    then show ?thesis using used_none_live[of h st' now] res assms(2) by simp
  qed
  have "m_maxmemory st' = m_maxmemory st" using res by (simp add: evict_inv_def)
  moreover have "expire_at_ms e \<le> 0" if "evict_sample now st' = []" "live h now st' db k = Some e" for db k e
    using sample_empty[of h st' now db k e] res that by blast
  ultimately have "usedMemoryApprox now st' \<le> m_maxmemory st \<or>
      volatile_only (m_maxmemory_policy st) \<and> (\<forall>db k e. live h now st' db k = Some e \<longrightarrow> expire_at_ms e \<le> 0)"
    using small res by auto
  moreover have "db_index db" if "peek h st' db k \<noteq> peek h st db k" for db k
    using res assms(4) that unfolding evict_inv_def by (metis live_peek option.distinct(1))
  ultimately show ?thesis using res unfolding evict_inv_def by (metis (no_types, lifting))
qed

text \<open>A store with one string key of three letters, accounted at 70 bytes, and room for 60.\<close>

definition full_store :: KvStore where
  "full_store = setMaxMemory 60 (putEntry (\<lambda>_. 0) 0 ''abc'' (new_entry\<lparr>evalue := ''xyz''\<rparr>) new_store)"

lemma setMaxMemory_views [simp]:
  "wf_store h (setMaxMemory n st) = wf_store h st" "peek h (setMaxMemory n st) = peek h st"
  "m_maxmemory_policy (setMaxMemory n st) = m_maxmemory_policy st"
  by (simp_all add: setMaxMemory_def wf_store_def peek_def getShard_def fun_eq_iff)

lemma full_store_ok:
  "wf_store (\<lambda>_. 0) full_store" "m_maxmemory full_store = 60"
  "m_maxmemory_policy full_store = ''allkeys-lru''"
  "peek (\<lambda>_. 0) full_store db k \<noteq> None \<Longrightarrow> db_index db"
  by (auto simp: full_store_def wf_rules wf_new_entry peek_putEntry peek_new_store db_index_def kMaxDb_def
      split: if_splits)
     (simp_all add: setMaxMemory_def putEntry_def new_store_def)

theorem evictIfNeededLocked_correct_witness:
  "let st' = evictIfNeededLocked (\<lambda>_. 0) 5 full_store in
   usedMemoryApprox 5 full_store = 70 \<and> wf_store (\<lambda>_. 0) st' \<and> usedMemoryApprox 5 st' \<le> 60"
proof -
  have "usedMemoryApprox 5 full_store = 70" by code_simp
  moreover have "\<not> volatile_only ''allkeys-lru''" by (simp add: volatile_only_def)
  ultimately show ?thesis
    using evictIfNeededLocked_correct[OF full_store_ok(1) _ _ _ refl, of "\<lambda>_. 0" 5] full_store_ok(2-4)
    by (auto simp: Let_def)
qed

end
