(* ===== verification/Keys.thy ===== *)
theory Keys
  imports Evict
begin

text \<open>
  The operations on keys of any type: existence and type, deletion, expiry, the size of a
  database, listing and scanning, flushing and renaming (\<open>zero/kv/store/kv_store.cc\<close>). An operation
  returns the new store and its result.
\<close>

subsection \<open>Existence, deletion, persistence\<close>

definition exists :: "hasher \<Rightarrow> int \<Rightarrow> string \<Rightarrow> int64 \<Rightarrow> KvStore \<Rightarrow> KvStore \<times> bool" where
  "exists h db key now st = (case openEntry h db key now st of (st1, e) \<Rightarrow> (st1, e \<noteq> None))"

definition type_kv :: "hasher \<Rightarrow> int \<Rightarrow> string \<Rightarrow> int64 \<Rightarrow> KvStore \<Rightarrow> KvStore \<times> string" where
  "type_kv h db key now st =
     (case openEntry h db key now st of
        (st1, None) \<Rightarrow> (st1, ''none'')
      | (st1, Some e) \<Rightarrow> (st1, case etype e of Hash \<Rightarrow> ''hash'' | List \<Rightarrow> ''list'' | Set \<Rightarrow> ''set''
          | ZSet \<Rightarrow> ''zset'' | Stream \<Rightarrow> ''stream'' | String \<Rightarrow> ''string''))"

fun delMany_loop :: "hasher \<Rightarrow> int \<Rightarrow> int64 \<Rightarrow> string list \<Rightarrow> KvStore \<Rightarrow> int64 \<Rightarrow> KvStore \<times> int64" where
  "delMany_loop h db now [] st removed = (st, removed)"
| "delMany_loop h db now (key # ks) st removed =
     (case probeEntry h db key now st of
        (st1, None) \<Rightarrow> delMany_loop h db now ks st1 removed
      | (st1, Some _) \<Rightarrow>
          delMany_loop h db now ks (bumpWatchKey h db key (eraseEntry h db key st1)) (removed + 1))"

definition delMany :: "hasher \<Rightarrow> int \<Rightarrow> string list \<Rightarrow> int64 \<Rightarrow> KvStore \<Rightarrow> KvStore \<times> int64" where
  "delMany h db ks now st = delMany_loop h db now ks st 0"

definition del :: "hasher \<Rightarrow> int \<Rightarrow> string \<Rightarrow> int64 \<Rightarrow> KvStore \<Rightarrow> KvStore \<times> bool" where
  "del h db key now st = (case delMany h db [key] now st of (st1, n) \<Rightarrow> (st1, n > 0))"

fun existsMany_loop :: "hasher \<Rightarrow> int \<Rightarrow> int64 \<Rightarrow> string list \<Rightarrow> KvStore \<Rightarrow> int64 \<Rightarrow> KvStore \<times> int64" where
  "existsMany_loop h db now [] st n = (st, n)"
| "existsMany_loop h db now (key # ks) st n =
     (case probeEntry h db key now st of
        (st1, None) \<Rightarrow> existsMany_loop h db now ks st1 n
      | (st1, Some _) \<Rightarrow> existsMany_loop h db now ks st1 (n + 1))"

definition existsMany :: "hasher \<Rightarrow> int \<Rightarrow> string list \<Rightarrow> int64 \<Rightarrow> KvStore \<Rightarrow> KvStore \<times> int64" where
  "existsMany h db ks now st = existsMany_loop h db now ks st 0"

definition persist :: "hasher \<Rightarrow> int \<Rightarrow> string \<Rightarrow> int64 \<Rightarrow> KvStore \<Rightarrow> KvStore \<times> int64" where
  "persist h db key now st =
     (case openEntry h db key now st of
        (st1, None) \<Rightarrow> (st1, 0)
      | (st1, Some e) \<Rightarrow> (putEntry h db key (e\<lparr>expire_at_ms := 0\<rparr>) st1, 1))"

subsection \<open>Expiry\<close>

definition expire :: "hasher \<Rightarrow> int \<Rightarrow> string \<Rightarrow> int64 \<Rightarrow> int64 \<Rightarrow> KvStore \<Rightarrow> KvStore \<times> int64" where
  "expire h db key seconds now st =
     (case openEntry h db key now st of
        (st1, None) \<Rightarrow> (st1, 0)
      | (st1, Some e) \<Rightarrow>
          if seconds \<le> 0 then (eraseEntry h db key st1, 1)
          else (putEntry h db key (e\<lparr>expire_at_ms := i64 (now + i64 (seconds * 1000))\<rparr>) st1, 1))"

definition pexpire :: "hasher \<Rightarrow> int \<Rightarrow> string \<Rightarrow> int64 \<Rightarrow> int64 \<Rightarrow> KvStore \<Rightarrow> KvStore \<times> int64" where
  "pexpire h db key milliseconds now st =
     (case openEntry h db key now st of
        (st1, None) \<Rightarrow> (st1, 0)
      | (st1, Some e) \<Rightarrow>
          if milliseconds \<le> 0 then (eraseEntry h db key st1, 1)
          else (putEntry h db key (e\<lparr>expire_at_ms := i64 (now + milliseconds)\<rparr>) st1, 1))"

definition expireAt :: "hasher \<Rightarrow> int \<Rightarrow> string \<Rightarrow> int64 \<Rightarrow> int64 \<Rightarrow> KvStore \<Rightarrow> KvStore \<times> int64" where
  "expireAt h db key unix_sec now st =
     (case openEntry h db key now st of
        (st1, None) \<Rightarrow> (st1, 0)
      | (st1, Some e) \<Rightarrow>
          if unix_sec \<le> 0 then (eraseEntry h db key st1, 1)
          else (let at = i64 (unix_sec * 1000)
                in (putEntry h db key (e\<lparr>expire_at_ms := at\<rparr>) st1, if at > now then 1 else 0)))"

definition pexpireAt :: "hasher \<Rightarrow> int \<Rightarrow> string \<Rightarrow> int64 \<Rightarrow> int64 \<Rightarrow> KvStore \<Rightarrow> KvStore \<times> int64" where
  "pexpireAt h db key unix_ms now st =
     (case openEntry h db key now st of
        (st1, None) \<Rightarrow> (st1, 0)
      | (st1, Some e) \<Rightarrow>
          if unix_ms \<le> 0 then (eraseEntry h db key st1, 1)
          else (putEntry h db key (e\<lparr>expire_at_ms := unix_ms\<rparr>) st1, if unix_ms > now then 1 else 0))"

definition pttl :: "hasher \<Rightarrow> int \<Rightarrow> string \<Rightarrow> int64 \<Rightarrow> KvStore \<Rightarrow> KvStore \<times> int64" where
  "pttl h db key now st =
     (case probeEntry h db key now st of
        (st1, None) \<Rightarrow> (st1, - 2)
      | (st1, Some e) \<Rightarrow>
          if expire_at_ms e = 0 then (st1, - 1)
          else (let remain_ms = i64 (expire_at_ms e - now)
                in if remain_ms \<le> 0 then (eraseEntry h db key st1, - 2) else (st1, remain_ms)))"

definition ttl :: "hasher \<Rightarrow> int \<Rightarrow> string \<Rightarrow> int64 \<Rightarrow> KvStore \<Rightarrow> KvStore \<times> int64" where
  "ttl h db key now st =
     (case probeEntry h db key now st of
        (st1, None) \<Rightarrow> (st1, - 2)
      | (st1, Some e) \<Rightarrow>
          if expire_at_ms e = 0 then (st1, - 1)
          else (let remain_ms = i64 (expire_at_ms e - now)
                in if remain_ms \<le> 0 then (eraseEntry h db key st1, - 2)
                   else (st1, cdiv (i64 (remain_ms + 999)) 1000)))"

text \<open>The active cycle looks at the first \<open>max_scan_per_db\<close> entries of each database.\<close>

definition purge_scan :: "nat \<Rightarrow> int64 \<Rightarrow> DbMap \<Rightarrow> DbMap \<times> int64" where
  "purge_scan n now d =
     (filter (\<lambda>(k, e). \<not> isExpired e now) (take n d) @ drop n d,
      int (length (filter (\<lambda>(k, e). isExpired e now) (take n d))))"

definition purgeExpiredActive :: "int \<Rightarrow> int64 \<Rightarrow> KvStore \<Rightarrow> KvStore \<times> int64" where
  "purgeExpiredActive max_scan_per_db now st =
     (if max_scan_per_db \<le> 0 then (st, 0)
      else (st\<lparr>m_shards := map (\<lambda>sh. sh\<lparr>m_dbs :=
                map (\<lambda>(db, d). (db, fst (purge_scan (nat max_scan_per_db) now d))) (m_dbs sh)\<rparr>) (m_shards st)\<rparr>,
            \<Sum>sh \<leftarrow> m_shards st. \<Sum>(db, d) \<leftarrow> m_dbs sh. snd (purge_scan (nat max_scan_per_db) now d)))"

subsection \<open>Whole databases\<close>

text \<open>The loop over the shards that purges a database where it exists.\<close>

definition purge_shard :: "int \<Rightarrow> int64 \<Rightarrow> Shard \<Rightarrow> Shard" where
  "purge_shard db now sh =
     (case map_of (m_dbs sh) db of None \<Rightarrow> sh | Some d \<Rightarrow> set_db db (purgeExpiredDb d now) sh)"

definition purge_all :: "int \<Rightarrow> int64 \<Rightarrow> KvStore \<Rightarrow> KvStore" where
  "purge_all db now st = st\<lparr>m_shards := map (purge_shard db now) (m_shards st)\<rparr>"

definition dbsize :: "int \<Rightarrow> int64 \<Rightarrow> KvStore \<Rightarrow> KvStore \<times> int64" where
  "dbsize db now st =
     (let st1 = purge_all db now st in (st1, \<Sum>sh \<leftarrow> m_shards st1. int (length (db_at sh db))))"

definition expireCount :: "int \<Rightarrow> int64 \<Rightarrow> KvStore \<Rightarrow> KvStore \<times> int64" where
  "expireCount db now st =
     (let st1 = purge_all db now st
      in (st1, \<Sum>sh \<leftarrow> m_shards st1. int (length (filter (\<lambda>(k, e). expire_at_ms e > 0) (db_at sh db)))))"

definition collectKeys :: "DbMap \<Rightarrow> int64 \<Rightarrow> string \<Rightarrow> string list \<Rightarrow> string list" where
  "collectKeys d now pattern out =
     sort (out @ map fst (filter (\<lambda>(k, e). \<not> isExpired e now \<and> matchGlob pattern k) d))"

definition collect_all :: "int \<Rightarrow> string \<Rightarrow> int64 \<Rightarrow> KvStore \<Rightarrow> string list" where
  "collect_all db pattern now st = sort (fold (\<lambda>sh. collectKeys (db_at sh db) now pattern) (m_shards st) [])"

definition keys :: "int \<Rightarrow> string \<Rightarrow> int64 \<Rightarrow> KvStore \<Rightarrow> KvStore \<times> string list" where
  "keys db pattern now st = (let st1 = purge_all db now st in (st1, collect_all db pattern now st1))"

text \<open>\<open>SCAN\<close>: the cursor is an index into the sorted list of all matching keys.\<close>

definition scan :: "int \<Rightarrow> uint64 \<Rightarrow> string \<Rightarrow> int \<Rightarrow> int64 \<Rightarrow> KvStore \<Rightarrow> KvStore \<times> uint64 \<times> string list" where
  "scan db cursor pattern n now st =
     (let cnt = (if n \<le> 0 then 10 else nat n);
          st1 = purge_all db now st;
          ks = collect_all db pattern now st1
      in if unat cursor \<ge> length ks then (st1, 0, [])
         else (let e = min (unat cursor + cnt) (length ks)
               in (st1, if e \<ge> length ks then 0 else of_nat e, drop (unat cursor) (take e ks))))"

definition flushdb :: "int \<Rightarrow> KvStore \<Rightarrow> KvStore" where
  "flushdb db st = st\<lparr>m_shards := map (\<lambda>sh. shard_bumpWatchDb db (set_db db [] sh)) (m_shards st)\<rparr>"

definition flushall :: "KvStore \<Rightarrow> KvStore" where
  "flushall st =
     fold bumpWatchDb (map int [0..<kMaxDb]) (st\<lparr>m_shards := map (\<lambda>sh. sh\<lparr>m_dbs := []\<rparr>) (m_shards st)\<rparr>)"

subsection \<open>Renaming\<close>

text \<open>Inner \<open>findEntry\<close> of the destination happens while the source entry is held; the source is
  moved as it was found.\<close>

definition renameKey :: "hasher \<Rightarrow> int \<Rightarrow> string \<Rightarrow> string \<Rightarrow> bool \<Rightarrow> int64 \<Rightarrow> KvStore \<Rightarrow> KvStore \<times> (string + int)" where
  "renameKey h db src dst nx now st =
     (if src = dst then (st, Inr 1)
      else case probeEntry h db src now st of
        (st1, None) \<Rightarrow> (st1, Inl ''ERR no such key'')
      | (st1, Some se) \<Rightarrow>
          (case probeEntry h db dst now st1 of
             (st2, de) \<Rightarrow>
               if de \<noteq> None \<and> nx then (st2, Inr 0)
               else
                 (let st3 = (if de \<noteq> None then bumpWatchKey h db dst (eraseEntry h db dst st2) else st2);
                      st4 = eraseEntry h db src st3;
                      st5 = putEntry h db dst se st4;
                      st6 = putEntry h db dst (touchEntry now se) st5;
                      st7 = bumpWatchKey h db src st6
                  in (if shardIdx h src \<noteq> shardIdx h dst then bumpWatchKey h db dst st7 else st7, Inr 1))))"

subsection \<open>Purging keeps what is visible\<close>

lemma getShard_map: "shaped st \<Longrightarrow> getShard h (st\<lparr>m_shards := map f (m_shards st)\<rparr>) k = f (getShard h st k)"
  by (simp add: getShard_def shaped_def)

lemma wf_map_shards:
  assumes "wf_store h st" "\<And>i sh. wf_shard h i sh \<Longrightarrow> wf_shard h i (f sh)"
  shows "wf_store h (st\<lparr>m_shards := map f (m_shards st)\<rparr>)"
  using assms by (simp add: wf_store_def)

lemma shaped_purge_all [simp]: "shaped (purge_all db now st) = shaped st"
  by (simp add: shaped_def purge_all_def)

lemma db_at_purge_shard:
  "db_at (purge_shard db now sh) db' = (if db' = db then purgeExpiredDb (db_at sh db) now else db_at sh db')"
  by (auto simp: purge_shard_def db_at_def umap_get_def purgeExpiredDb_def set_db_def split: option.split)

lemma peek_purge_all:
  assumes "wf_store h st"
  shows "peek h (purge_all db now st) db' k = (if db' = db then live h now st db k else peek h st db' k)"
proof -
  have "distinct (map fst (db_at (getShard h st k) db))"
    using wf_db_at[OF wf_getShard[OF assms, of k], of db] by (simp add: wf_db_def)
  then show ?thesis using wf_shaped[OF assms]
    by (auto simp: peek_def live_def purge_all_def getShard_map db_at_purge_shard purgeExpiredDb_def
        map_of_filter_snd split: option.split)
qed

lemma live_purge_all [store_simps]:
  "wf_store h st \<Longrightarrow> live h now (purge_all db now st) db' k = live h now st db' k"
  by (auto simp: live_def peek_purge_all split: option.split)

lemma wf_purge_all [wf_rules]: "wf_store h st \<Longrightarrow> wf_store h (purge_all db now st)"
  unfolding purge_all_def purge_shard_def purgeExpiredDb_def
  by (rule wf_map_shards, assumption, auto split: option.split intro!: wf_set_db wf_db_filter)
     (auto simp: wf_shard_def dest: map_of_SomeD)

subsection \<open>All keys of a database\<close>

definition db_keys :: "int \<Rightarrow> int64 \<Rightarrow> KvStore \<Rightarrow> string list" where
  "db_keys db now st = concat (map (\<lambda>sh. map fst (purgeExpiredDb (db_at sh db) now)) (m_shards st))"

lemma purgeExpiredDb_keys:
  "wf_shard h i sh \<Longrightarrow> k \<in> fst ` set (purgeExpiredDb (db_at sh db) now) \<longleftrightarrow>
     (\<exists>e. map_of (db_at sh db) k = Some e \<and> \<not> isExpired e now)"
  using wf_db_at[of h i sh db]
  by (force simp: purgeExpiredDb_def wf_db_def image_iff dest: map_of_SomeD)

lemma nth_shard_keys:
  assumes "wf_store h st" "i < kShardCount"
  shows "fst ` set (purgeExpiredDb (db_at (m_shards st ! i) db) now) =
    {k. shardIdx h k = i \<and> live h now st db k \<noteq> None}"
proof (intro set_eqI)
  fix k
  show "k \<in> fst ` set (purgeExpiredDb (db_at (m_shards st ! i) db) now) \<longleftrightarrow>
      k \<in> {k. shardIdx h k = i \<and> live h now st db k \<noteq> None}"
    using purgeExpiredDb_keys[OF wf_nth_shard[OF assms], of k db now] db_at_shardIdx[OF wf_nth_shard[OF assms], of db k]
    by (auto simp: live_def peek_def getShard_def split: option.splits if_splits)
qed

lemma set_db_keys:
  assumes "wf_store h st"
  shows "set (db_keys db now st) = {k. live h now st db k \<noteq> None}"
proof -
  have "set (db_keys db now st) = (\<Union>i < kShardCount. fst ` set (purgeExpiredDb (db_at (m_shards st ! i) db) now))"
    using wf_shaped[OF assms] by (auto simp: db_keys_def shaped_def set_conv_nth[of "m_shards st"])
  also have "\<dots> = (\<Union>i < kShardCount. {k. shardIdx h k = i \<and> live h now st db k \<noteq> None})"
    by (intro SUP_cong refl nth_shard_keys[OF assms]) simp
  finally show ?thesis using shardIdx_less by auto
qed

lemma distinct_db_keys:
  assumes "wf_store h st"
  shows "distinct (db_keys db now st)"
proof -
  let ?f = "\<lambda>i. map fst (purgeExpiredDb (db_at (m_shards st ! i) db) now)"
  have eq: "db_keys db now st = concat (map ?f [0..<kShardCount])"
    using wf_shaped[OF assms] unfolding db_keys_def shaped_def by (simp only: map_upt_nth[of _ "m_shards st"])
  have "distinct (?f i)" if "i < kShardCount" for i
    using wf_db_filter[OF wf_db_at[OF wf_nth_shard[OF assms that]], of "\<lambda>(k, e). \<not> isExpired e now" db]
    by (simp add: wf_db_def purgeExpiredDb_def)
  moreover have "set (?f i) \<inter> set (?f j) = {}" if "i < kShardCount" "j < kShardCount" "i \<noteq> j" for i j
    using that by (simp add: nth_shard_keys[OF assms]) auto
  ultimately show ?thesis unfolding eq by (intro distinct_concat_map) simp_all
qed

lemma db_keys_purge_all: "db_keys db now (purge_all db now st) = db_keys db now st"
  by (simp add: db_keys_def purge_all_def comp_def db_at_purge_shard purgeExpiredDb_def)

lemma finite_live_keys: "wf_store h st \<Longrightarrow> finite {k. live h now st db k \<noteq> None}"
  by (metis List.finite_set set_db_keys)

subsection \<open>Counting and listing\<close>

lemma dbsize_keys: "snd (dbsize db now st) = int (length (db_keys db now st))"
  by (simp add: dbsize_def Let_def db_keys_def purge_all_def comp_def db_at_purge_shard length_concat
      int_sum_list)

lemma mset_collectKeys:
  "mset (collectKeys d now p out) = mset out + mset (filter (matchGlob p) (map fst (purgeExpiredDb d now)))"
proof -
  have "map fst (filter (\<lambda>(k, e). \<not> isExpired e now \<and> matchGlob p k) d) =
      filter (matchGlob p) (map fst (purgeExpiredDb d now))"
    by (induction d) (auto simp: purgeExpiredDb_def)
  then show ?thesis by (simp add: collectKeys_def)
qed

lemma mset_fold_collect:
  "mset (fold (\<lambda>sh. collectKeys (db_at sh db) now p) shs out) =
   mset out + mset (filter (matchGlob p) (concat (map (\<lambda>sh. map fst (purgeExpiredDb (db_at sh db) now)) shs)))"
  by (induction shs arbitrary: out) (simp_all add: mset_collectKeys)

lemma collect_all_eq: "collect_all db p now st = sort (filter (matchGlob p) (db_keys db now st))"
  unfolding collect_all_def db_keys_def
  by (rule properties_for_sort) (simp_all add: mset_fold_collect)

lemma sort_distinct_set: "distinct xs \<Longrightarrow> sort xs = sorted_list_of_set (set xs)"
  by (simp add: sorted_list_of_set_sort_remdups distinct_remdups_id)

lemma keys_result:
  assumes "wf_store h st"
  shows "snd (keys db p now st) = sorted_list_of_set {k. live h now st db k \<noteq> None \<and> matchGlob p k}"
proof -
  have "snd (keys db p now st) = sort (filter (matchGlob p) (db_keys db now st))"
    by (simp add: keys_def Let_def collect_all_eq db_keys_purge_all)
  also have "\<dots> = sorted_list_of_set (set (filter (matchGlob p) (db_keys db now st)))"
    by (intro sort_distinct_set distinct_filter distinct_db_keys[OF assms])
  also have "set (filter (matchGlob p) (db_keys db now st)) = {k. live h now st db k \<noteq> None \<and> matchGlob p k}"
    using set_db_keys[OF assms, of db now] by auto
  finally show ?thesis .
qed

text \<open>\<open>DBSIZE\<close> is the number of live keys of the database, and \<open>KEYS\<close> with a pattern is the
  sorted list, without repetition, of the live keys the matcher accepts, whatever the order in which the
  containers are walked; both purge expired entries, and neither changes what any client can see.\<close>

theorem dbsize_keys_correct:
  assumes "wf_store h st"
  shows "snd (dbsize db now st) = int (card {k. live h now st db k \<noteq> None}) \<and>
    snd (keys db p now st) = sorted_list_of_set {k. live h now st db k \<noteq> None \<and> matchGlob p k} \<and>
    fst (dbsize db now st) = fst (keys db p now st) \<and> wf_store h (fst (keys db p now st)) \<and>
    (\<forall>db' k. live h now (fst (keys db p now st)) db' k = live h now st db' k)"
proof -
  have "length (db_keys db now st) = card {k. live h now st db k \<noteq> None}"
    using distinct_card[OF distinct_db_keys[OF assms, of db now]] set_db_keys[OF assms, of db now] by simp
  then show ?thesis using keys_result[OF assms] assms
    by (simp add: dbsize_keys) (simp add: dbsize_def keys_def Let_def store_simps wf_rules)
qed

text \<open>A small store for the witnesses: a string that never expires, one that has expired at 5, and a
  list, in two databases.\<close>

definition demo_hash :: hasher where
  "demo_hash = length"

definition demo_store :: KvStore where
  "demo_store = putEntry demo_hash 1 ''list'' (new_entry\<lparr>etype := List, elist := [''x'', ''y'']\<rparr>)
     (putEntry demo_hash 0 ''old'' (new_entry\<lparr>evalue := ''v'', expire_at_ms := 5\<rparr>)
       (putEntry demo_hash 0 ''key'' (new_entry\<lparr>evalue := ''10''\<rparr>) new_store))"

lemma wf_demo_store [simp]: "wf_store demo_hash demo_store"
  unfolding demo_store_def by (intro wf_putEntry wf_new_store) (simp_all add: wf_entry_def new_entry_def)

theorem dbsize_keys_correct_witness:
  "int (card {k. live demo_hash 7 demo_store 0 k \<noteq> None}) = 1 \<and>
   sorted_list_of_set {k. live demo_hash 7 demo_store 0 k \<noteq> None \<and> matchGlob ''k?y'' k} = [''key'']"
proof -
  have "snd (dbsize 0 7 demo_store) = 1" "snd (keys 0 ''k?y'' 7 demo_store) = [''key'']" 
    by code_simp+
  then show ?thesis using dbsize_keys_correct[OF wf_demo_store, of 0 7 "''k?y''"] by simp
qed

subsection \<open>Scanning\<close>

text \<open>
  A client that follows the cursor until it is 0; \<open>None\<close> when it runs out of rounds. The calls are separate
  requests: the i-th one finds the store as it is then, \<open>sts i\<close>, and reads its own clock, \<open>clock i\<close>; between them
  other clients and the timers may have done anything.
\<close>

fun scan_client :: "(nat \<Rightarrow> KvStore) \<Rightarrow> (nat \<Rightarrow> int64) \<Rightarrow> int \<Rightarrow> string \<Rightarrow> int \<Rightarrow> nat \<Rightarrow> nat \<Rightarrow> uint64 \<Rightarrow> string list option" where
  "scan_client sts clock db p n 0 i cursor = None"
| "scan_client sts clock db p n (Suc rounds) i cursor =
     (case scan db cursor p n (clock i) (sts i) of
        (st1, next, ks) \<Rightarrow> if next = 0 then Some ks
          else map_option (append ks) (scan_client sts clock db p n rounds (i + 1) next))"

lemma collect_all_purge: "collect_all db p now (purge_all db now st) = collect_all db p now st"
  by (simp add: collect_all_eq db_keys_purge_all)

lemma scan_client_covers:
  assumes "\<And>i. collect_all db p (clock i) (sts i) = ks" "length ks < 2 ^ 64"
  shows "unat cursor \<le> length ks \<Longrightarrow> length ks - unat cursor < rounds \<Longrightarrow>
    scan_client sts clock db p n rounds i cursor = Some (drop (unat cursor) ks)"
proof (induction rounds arbitrary: cursor i)
  case (Suc rounds)
  let ?c = "if n \<le> 0 then 10 else nat n"
  let ?e = "min (unat cursor + ?c) (length ks)"
  show ?case
  proof (cases "unat cursor + ?c < length ks")
    case False
    then show ?thesis by (auto simp: scan_def Let_def collect_all_purge assms(1))
  next
    case True
    have e: "?e = unat cursor + ?c" using True by simp
    have big: "?e < 2 ^ 64" using True assms(2) e by linarith
    then have un: "unat (of_nat ?e :: uint64) = ?e" by (simp add: unat_of_nat)
    have pos: "0 < ?c" by simp
    have nz: "(of_nat ?e :: uint64) \<noteq> 0" using un e pos by (metis add_is_0 less_irrefl unat_0)
    have "scan_client sts clock db p n rounds (i + 1) (of_nat ?e) = Some (drop ?e ks)"
      using Suc.IH[of "of_nat ?e"] Suc.prems True un e pos by simp
    moreover have "drop (unat cursor) (take ?e ks) @ drop ?e ks = drop (unat cursor) ks"
      unfolding e by (rule drop_take_drop) simp
    ultimately show ?thesis using True nz e by (simp add: scan_def Let_def collect_all_purge assms(1))
  qed
qed simp

text \<open>C22: \<open>SCAN\<close> is complete as long as the keys it looks for stay the same. A client starts at cursor 0 and follows
  the returned cursors; every call finds a store of its own at a time of its own, and at each of these calls the
  live keys of the database that match the pattern are those in \<open>K\<close> (their values may change, other keys may come
  and go). Then the client reaches cursor 0 again after at most one round more than there are keys in \<open>K\<close>, and
  the pages together are exactly \<open>K\<close> in order, each key once, for every page size. A key that comes or goes
  meanwhile can hide another one, see \<open>scan_skips_after_expiry\<close>.\<close>

theorem scan_complete:
  assumes "\<And>i. wf_store h (sts i)"
    and "\<And>i k. live h (clock i) (sts i) db k \<noteq> None \<and> matchGlob p k \<longleftrightarrow> k \<in> K"
    and "card K < 2 ^ 64" "rounds > card K"
  shows "scan_client sts clock db p n rounds 0 0 = Some (sorted_list_of_set K)"
proof -
  have c: "collect_all db p (clock i) (sts i) = sorted_list_of_set K" for i
    using keys_result[OF assms(1)[of i], of db p "clock i"] assms(2)[of i] by (simp add: keys_def Let_def collect_all_purge)
  have "length (sorted_list_of_set K) = card K" by simp
  from scan_client_covers[where clock = clock and sts = sts and cursor = 0 and i = 0, OF c] this assms(3,4)
  show ?thesis by simp
qed

theorem scan_complete_witness:
  "scan_client (\<lambda>i. if i = 0 then demo_store else putEntry demo_hash 1 ''n'' new_entry demo_store) (\<lambda>i. if i = 0 then 3 else 4)
     0 ''*'' 1 3 0 0 = Some (sorted_list_of_set {''key'', ''old''})"
proof -
  let ?sts = "\<lambda>i. if i = 0 then demo_store else putEntry demo_hash 1 ''n'' new_entry demo_store"
    and ?clock = "\<lambda>i :: nat. if i = 0 then 3 else 4 :: int64"
  have wf: "wf_store demo_hash (?sts i)" for i :: nat by (auto intro: wf_putEntry)
  have ks: "snd (keys 0 ''*'' (?clock i) (?sts i)) = [''key'', ''old'']" for i
    by (cases "i = 0"; simp only: if_True if_False refl; code_simp)
  have "live demo_hash (?clock i) (?sts i) 0 k \<noteq> None \<and> matchGlob ''*'' k \<longleftrightarrow> k \<in> {''key'', ''old''}" for i k
  proof -
    have fin: "finite {k. live demo_hash (?clock i) (?sts i) 0 k \<noteq> None}"
      using set_db_keys[OF wf, of 0 "?clock i" i] by (metis List.finite_set)
    have "set (snd (keys 0 ''*'' (?clock i) (?sts i))) = {k. live demo_hash (?clock i) (?sts i) 0 k \<noteq> None \<and> matchGlob ''*'' k}"
      unfolding keys_result[OF wf] by (rule set_sorted_list_of_set) (rule finite_subset[OF _ fin], blast)
    then show ?thesis unfolding ks by auto
  qed
  from scan_complete[of demo_hash ?sts ?clock 0 "''*''" "{''key'', ''old''}" 3 1, OF wf this] show ?thesis by simp
qed

text \<open>
  The cursor is an index, so it moves when keys go: of the keys \<open>key\<close> (until 5), \<open>other\<close> and \<open>third\<close>, a client that takes
  them one by one gets only the first and the last when the first expires after the first call.
\<close>

definition scan_store :: KvStore where
  "scan_store = fold (\<lambda>(k, t). putEntry demo_hash 0 k (new_entry\<lparr>expire_at_ms := t\<rparr>)) [(''key'', 5), (''other'', 0), (''third'', 0)] new_store"

theorem scan_skips_after_expiry:
  "scan_client (\<lambda>i. scan_store) (\<lambda>i. if i = 0 then 3 else 6) 0 ''*'' 1 3 0 0 = Some [''key'', ''third''] \<and>
   (\<forall>i. live demo_hash (if i = (0 :: nat) then 3 else 6) scan_store 0 ''other'' \<noteq> None)"
proof -
  have "scan 0 0 ''*'' 1 3 scan_store = (scan_store, 1, [''key''])" "snd (scan 0 1 ''*'' 1 6 scan_store) = (0, [''third''])"
    "live demo_hash 3 scan_store 0 ''other'' \<noteq> None" "live demo_hash 6 scan_store 0 ''other'' \<noteq> None"
    by code_simp+
  then show ?thesis by (simp add: numeral_3_eq_3 case_prod_unfold)
qed

subsection \<open>Deletion\<close>

text \<open>What one deletion does: the key is gone, nothing else changes, and its counter moves.\<close>

lemma delMany_loop_spec:
  assumes "wf_store h st" "delMany_loop h db now ks st n = (st', m)"
  shows "wf_store h st' \<and> m = n + int (card {k \<in> set ks. live h now st db k \<noteq> None}) \<and>
    (\<forall>db' k. live h now st' db' k = (if db' = db \<and> k \<in> set ks then None else live h now st db' k)) \<and>
    (\<forall>k. watched h st' k = watched h st k) \<and>
    (\<forall>k. k \<notin> set ks \<or> live h now st db k = None \<longrightarrow> token h st' db k = token h st db k) \<and>
    (\<forall>k. db_index db \<and> k \<in> set ks \<and> live h now st db k \<noteq> None \<and> watched h st k \<longrightarrow>
       token h st' db k \<noteq> token h st db k)"
  using assms
proof (induction ks arbitrary: st n)
  case (Cons key ks)
  note wf = \<open>wf_store h st\<close>
  note sh = wf_shaped[OF wf]
  let ?s1 = "fst (probeEntry h db key now st)"
  let ?s2 = "bumpWatchKey h db key (eraseEntry h db key ?s1)"
  show ?case
  proof (cases "live h now st db key")
    case None
    then have rest: "delMany_loop h db now ks ?s1 n = (st', m)"
      using Cons.prems(2) by simp
    have "{k \<in> set (key # ks). live h now st db k \<noteq> None} = {k \<in> set ks. live h now st db k \<noteq> None}"
      using None by auto
    then show ?thesis using Cons.IH[OF _ rest] wf sh None
      by (simp add: store_simps wf_rules) (metis option.distinct(1))
  next
    case (Some e)
    then have rest: "delMany_loop h db now ks ?s2 (n + 1) = (st', m)"
      using Cons.prems(2) by simp
    have vis: "live h now ?s2 db' k = (if db' = db \<and> k = key then None else live h now st db' k)" for db' k
      using sh by (simp add: store_simps)
    have "{k \<in> set (key # ks). live h now st db k \<noteq> None} =
        insert key {k \<in> set ks. live h now ?s2 db k \<noteq> None}"
      using Some by (auto simp: vis)
    moreover have "key \<notin> {k \<in> set ks. live h now ?s2 db k \<noteq> None}" by (simp add: vis)
    ultimately have count_eq: "card {k \<in> set (key # ks). live h now st db k \<noteq> None} =
        Suc (card {k \<in> set ks. live h now ?s2 db k \<noteq> None})" by simp
    have same: "token h ?s2 db k = token h st db k" if "k \<noteq> key" for k
      using that sh by (simp add: store_simps)
    have moved: "token h ?s2 db key \<noteq> token h st db key" if "db_index db" "watched h st key"
      using token_bump_same[of h "eraseEntry h db key ?s1" db key] that wf sh by (simp add: wf_rules store_simps)
    have wat: "watched h ?s2 k = watched h st k" for k using sh by (simp add: store_simps)
    have "wf_store h ?s2" using wf by (simp add: wf_rules)
    note ih = Cons.IH[OF this rest]
    have "token h st' db k = token h st db k" if "k \<notin> set (key # ks) \<or> live h now st db k = None" for k
      using that ih same[of k] Some vis[of db k] by (cases "k = key") auto
    moreover have "token h st' db k \<noteq> token h st db k"
      if "db_index db" "k \<in> set (key # ks)" "live h now st db k \<noteq> None" "watched h st k" for k
      using that ih same[of k] moved vis[of db k] wat[of k] by (cases "k = key") auto
    moreover have "live h now st' db' k = (if db' = db \<and> k \<in> set (key # ks) then None else live h now st db' k)" for db' k
      using ih vis[of db' k] by auto
    ultimately show ?thesis using ih wat count_eq by simp
  qed
qed auto

text \<open>C11: \<open>DEL\<close> of a list of keys returns how many distinct live keys it names; afterwards exactly
  those are gone from what clients see, in this database and no other, the tokens of the deleted keys that
  are watched have changed and all other tokens have not.\<close>

theorem delMany_correct:
  assumes "wf_store h st" "delMany h db ks now st = (st', m)"
  shows "wf_store h st' \<and> m = int (card {k \<in> set ks. live h now st db k \<noteq> None}) \<and>
    (\<forall>db' k. live h now st' db' k = (if db' = db \<and> k \<in> set ks then None else live h now st db' k)) \<and>
    (\<forall>k. k \<notin> set ks \<or> live h now st db k = None \<longrightarrow> token h st' db k = token h st db k) \<and>
    (\<forall>k. db_index db \<and> k \<in> set ks \<and> live h now st db k \<noteq> None \<and> watched h st k \<longrightarrow>
       token h st' db k \<noteq> token h st db k)"
  using delMany_loop_spec[OF assms(1) assms(2)[unfolded delMany_def]] by simp

theorem delMany_correct_witness:
  "let (st', m) = delMany demo_hash 0 [''key'', ''old'', ''key''] 7 demo_store in
   m = 1 \<and> m = int (card {k \<in> set [''key'', ''old'', ''key'']. live demo_hash 7 demo_store 0 k \<noteq> None}) \<and>
   live demo_hash 7 st' 0 ''key'' = None"
proof -
  obtain st' m where d: "delMany demo_hash 0 [''key'', ''old'', ''key''] 7 demo_store = (st', m)" by force
  moreover have "snd (delMany demo_hash 0 [''key'', ''old'', ''key''] 7 demo_store) = 1" by code_simp
  ultimately show ?thesis using delMany_correct[OF wf_demo_store d] by (simp add: d)
qed

subsection \<open>Expiry\<close>

lemma isExpired_mono: "isExpired e now \<Longrightarrow> now \<le> t \<Longrightarrow> isExpired e t"
  by (simp add: isExpired_def)

lemma snd_pttl:
  "snd (pttl h db key now st) =
     (case live h now st db key of None \<Rightarrow> - 2
      | Some e \<Rightarrow> if expire_at_ms e = 0 then - 1
                 else if i64 (expire_at_ms e - now) \<le> 0 then - 2 else i64 (expire_at_ms e - now))"
  by (simp add: pttl_def Let_def split: option.split)

lemma snd_ttl:
  "snd (ttl h db key now st) =
     (case live h now st db key of None \<Rightarrow> - 2
      | Some e \<Rightarrow> if expire_at_ms e = 0 then - 1
                 else if i64 (expire_at_ms e - now) \<le> 0 then - 2
                 else cdiv (i64 (i64 (expire_at_ms e - now) + 999)) 1000)"
  by (simp add: ttl_def Let_def split: option.split)

lemma snd_exists: "snd (exists h db key now st) \<longleftrightarrow> live h now st db key \<noteq> None"
  by (simp add: exists_def)

text \<open>C26: \<open>EXPIRE\<close> does what it says: a live key given a positive number of seconds (no overflow) stays
  visible with all its data until exactly that deadline, \<open>PTTL\<close> and \<open>TTL\<close> count down to it (\<open>TTL\<close>
  rounds up to a second), and from the deadline on the key does not exist and both return -2.\<close>

theorem expire_ttl:
  assumes "shaped st" "live h now st db key = Some e" "0 < s" "0 \<le> now" "now + s * 1000 + 999 < 2 ^ 63"
    and "expire h db key s now st = (st', r)" "0 \<le> t"
  shows "r = 1 \<and>
    (if t < now + s * 1000
     then live h t st' db key = Some (e\<lparr>expire_at_ms := now + s * 1000\<rparr>) \<and>
          snd (pttl h db key t st') = now + s * 1000 - t \<and>
          snd (ttl h db key t st') = (now + s * 1000 - t + 999) div 1000 \<and>
          snd (exists h db key t st')
     else live h t st' db key = None \<and> snd (pttl h db key t st') = - 2 \<and>
          snd (ttl h db key t st') = - 2 \<and> \<not> snd (exists h db key t st'))"
proof -
  have i: "i64 (now + i64 (s * 1000)) = now + s * 1000"
    using assms(3-5) by (simp add: in_i64_def)
  have st': "st' = putEntry h db key (e\<lparr>expire_at_ms := now + s * 1000\<rparr>) (fst (openEntry h db key now st))" "r = 1"
    using assms(2,3,6) by (auto simp: expire_def i)
  have live: "live h t st' db key = (if t < now + s * 1000 then Some (e\<lparr>expire_at_ms := now + s * 1000\<rparr>) else None)"
    using assms(1,3,4) by (simp add: st' store_simps isExpired_def)
  have "i64 (now + s * 1000 - t) = now + s * 1000 - t" "i64 (now + s * 1000 - t + 999) = now + s * 1000 - t + 999"
      if "t < now + s * 1000"
    using that assms(3-5,7) by (simp_all add: in_i64_def)
  then show ?thesis using assms(3,4)
    by (auto simp: st'(2) live snd_pttl snd_ttl snd_exists cdiv_nonneg)
qed

theorem expire_ttl_witness:
  "let st' = fst (expire demo_hash 0 ''key'' 2 1000 demo_store) in
   snd (pttl demo_hash 0 ''key'' 1001 st') = 1999 \<and> snd (ttl demo_hash 0 ''key'' 1001 st') = 2 \<and>
   \<not> snd (exists demo_hash 0 ''key'' 3000 st')"
proof -
  have lv: "live demo_hash 1000 demo_store 0 ''key'' = Some (new_entry\<lparr>evalue := ''10''\<rparr>)" by code_simp
  obtain st' r where ex: "expire demo_hash 0 ''key'' 2 1000 demo_store = (st', r)" by force
  show ?thesis
    using expire_ttl[OF wf_shaped[OF wf_demo_store] lv _ _ _ ex, of 1001]
      expire_ttl[OF wf_shaped[OF wf_demo_store] lv _ _ _ ex, of 3000]
    by (simp add: ex)
qed

subsection \<open>Renaming\<close>

lemma isExpired_touch [simp]: "isExpired (touchEntry now e) t = isExpired e t"
  by (simp add: isExpired_def touchEntry_def)

lemma wf_touch [simp]: "wf_entry (touchEntry now e) = wf_entry e"
  by (simp add: wf_entry_def touchEntry_def)

lemma wf_renameKey [wf_rules]: "wf_store h st \<Longrightarrow> wf_store h (fst (renameKey h db src dst nx now st))"
  by (auto simp: renameKey_def Let_def intro!: wf_rules intro: wf_live split: option.split)

text \<open>C28: \<open>RENAME\<close> and \<open>RENAMENX\<close> on every branch. Renaming a key to itself answers 1 and does nothing, even when the
  key does not exist. Otherwise a missing source is an error; an existing
  destination stops \<open>RENAMENX\<close> with 0 and no visible change; in all other cases the destination holds the source's
  entry with all its data and time to live, touched, the source is gone, and no other key of any
  database has changed, whether or not the two keys live in the same shard.\<close>

theorem renameKey_correct:
  assumes "wf_store h st" "renameKey h db src dst nx now st = (st', r)"
  shows "wf_store h st' \<and>
    (if src = dst then st' = st \<and> r = Inr 1
     else case live h now st db src of
       None \<Rightarrow> r = Inl ''ERR no such key'' \<and> (\<forall>db' k. live h now st' db' k = live h now st db' k)
     | Some e \<Rightarrow>
         if nx \<and> live h now st db dst \<noteq> None
         then r = Inr 0 \<and> (\<forall>db' k. live h now st' db' k = live h now st db' k)
         else r = Inr 1 \<and> (\<forall>db' k. live h now st' db' k =
                (if db' = db \<and> k = dst then Some (touchEntry now e)
                 else if db' = db \<and> k = src then None else live h now st db' k)))"
proof -
  have st': "st' = fst (renameKey h db src dst nx now st)" "r = snd (renameKey h db src dst nx now st)"
    using assms(2) by simp_all
  have "\<not> isExpired e now" if "live h now st db src = Some e" for e using that by (rule live_not_expired)
  then show ?thesis unfolding st' using wf_shaped[OF assms(1)]
    by (intro conjI wf_renameKey[OF assms(1)]) (auto simp: renameKey_def Let_def store_simps split: option.split)
qed

theorem renameKey_correct_witness:
  "let (st', r) = renameKey demo_hash 0 ''key'' ''other'' False 7 demo_store in
   r = Inr 1 \<and> live demo_hash 7 st' 0 ''other'' = Some (touchEntry 7 (new_entry\<lparr>evalue := ''10''\<rparr>)) \<and>
   live demo_hash 7 st' 0 ''key'' = None"
proof -
  have lv: "live demo_hash 7 demo_store 0 ''key'' = Some (new_entry\<lparr>evalue := ''10''\<rparr>)"
    "live demo_hash 7 demo_store 0 ''other'' = None" by code_simp+
  obtain st' r where ex: "renameKey demo_hash 0 ''key'' ''other'' False 7 demo_store = (st', r)" by force
  show ?thesis using renameKey_correct[OF wf_demo_store ex] lv by (simp add: ex)
qed

text \<open>A hole in \<open>WATCH\<close>: when the destination does not exist and its shard is also the source's,
  \<open>RENAME\<close> creates the destination without bumping its counter, so a transaction that watches the
  destination does not notice that it came into being.\<close>

theorem renameKey_dst_not_bumped:
  assumes "wf_store h st" "src \<noteq> dst" "live h now st db src = Some e" "live h now st db dst = None"
    and "shardIdx h src = shardIdx h dst" "st' = fst (renameKey h db src dst nx now st)"
  shows "live h now st' db dst = Some (touchEntry now e) \<and> token h st' db dst = token h st db dst"
  using assms wf_shaped[OF assms(1)] live_not_expired[OF assms(3)]
  by (simp add: renameKey_def Let_def store_simps)

theorem renameKey_dst_not_bumped_witness:
  "let st' = fst (renameKey demo_hash 0 ''key'' ''abc'' False 7 demo_store) in
   live demo_hash 7 demo_store 0 ''abc'' = None \<and> live demo_hash 7 st' 0 ''abc'' \<noteq> None \<and>
   token demo_hash st' 0 ''abc'' = token demo_hash demo_store 0 ''abc''"
proof -
  have lv: "live demo_hash 7 demo_store 0 ''key'' = Some (new_entry\<lparr>evalue := ''10''\<rparr>)"
    "live demo_hash 7 demo_store 0 ''abc'' = None" by code_simp+
  show ?thesis using renameKey_dst_not_bumped[OF wf_demo_store _ lv _ refl] lv(2)
    by (simp add: shardIdx_def demo_hash_def)
qed

subsection \<open>Flushing\<close>

lemma push_bit_succ: "push_bit 32 (e + 1) \<noteq> push_bit 32 (e :: uint64)"
proof
  assume "push_bit 32 (e + 1) = push_bit 32 e"
  then have "e * 4294967296 + 4294967296 = e * 4294967296"
    by (simp add: push_bit_eq_mult algebra_simps)
  then show False by simp
qed

lemma shard_token_bumpDb:
  "shard_watchToken db k (shard_bumpWatchDb db' sh) \<noteq> shard_watchToken db k sh \<longleftrightarrow> db' = db"
proof -
  have "a XOR v = b XOR v \<longleftrightarrow> a = b" for a b v :: uint64
    using xor_inj64[of v a b] by (simp add: xor.commute)
  then show ?thesis
    using push_bit_succ by (auto simp: shard_watchToken_def shard_bumpWatchDb_def umap_get_def Let_def)
qed

lemma token_bumpWatchDb:
  "shaped st \<Longrightarrow> token h (bumpWatchDb db' st) db k \<noteq> token h st db k \<longleftrightarrow> db' = db"
  by (simp add: token_def bumpWatchDb_def getShard_map shard_token_bumpDb)

lemma shaped_bumpWatchDb [simp]: "shaped (bumpWatchDb db st) = shaped st"
  by (simp add: shaped_def bumpWatchDb_def)

lemma peek_bumpWatchDb [simp]: "shaped st \<Longrightarrow> peek h (bumpWatchDb db' st) db k = peek h st db k"
  by (simp add: peek_def bumpWatchDb_def getShard_map shard_bumpWatchDb_def db_at_def)

lemma wf_bumpWatchDb [wf_rules]: "wf_store h st \<Longrightarrow> wf_store h (bumpWatchDb db st)"
  unfolding bumpWatchDb_def by (rule wf_map_shards) (auto simp: wf_shard_def shard_bumpWatchDb_def)

lemma fold_bumpWatchDb:
  assumes "shaped st" "distinct dbs"
  shows "shaped (fold bumpWatchDb dbs st) \<and>
    peek h (fold bumpWatchDb dbs st) db k = peek h st db k \<and>
    (token h (fold bumpWatchDb dbs st) db k \<noteq> token h st db k \<longleftrightarrow> db \<in> set dbs)"
  using assms
proof (induction dbs arbitrary: st)
  case (Cons d dbs)
  have "token h (bumpWatchDb d st) db k \<noteq> token h st db k \<longleftrightarrow> d = db"
    using Cons.prems(1) by (rule token_bumpWatchDb)
  then show ?case using Cons.IH[of "bumpWatchDb d st"] Cons.prems by auto
qed simp

lemma wf_fold_bumpWatchDb: "wf_store h st \<Longrightarrow> wf_store h (fold bumpWatchDb dbs st)"
  by (induction dbs arbitrary: st) (simp_all add: wf_rules)

lemma flushdb_eq: "flushdb db st = bumpWatchDb db (st\<lparr>m_shards := map (set_db db []) (m_shards st)\<rparr>)"
  by (simp add: flushdb_def bumpWatchDb_def)

lemma wf_flushdb [wf_rules]: "wf_store h st \<Longrightarrow> wf_store h (flushdb db st)"
  unfolding flushdb_eq by (intro wf_bumpWatchDb wf_map_shards wf_set_db) (auto simp: wf_db_def)

lemma wf_flushall [wf_rules]: "wf_store h st \<Longrightarrow> wf_store h (flushall st)"
  unfolding flushall_def by (intro wf_fold_bumpWatchDb wf_map_shards) (auto simp: wf_shard_def)

text \<open>\<open>FLUSHDB\<close> empties its database and no other, and changes the token of every key of it;
  \<open>FLUSHALL\<close> empties all databases and changes the token of every key of every database a client can
  select. Unlike the counters of single keys, this does not depend on the shard having watchers.\<close>

theorem flush_correct:
  assumes "shaped st"
  shows "peek h (flushdb db st) db' k = (if db' = db then None else peek h st db' k) \<and>
    (token h (flushdb db st) db' k \<noteq> token h st db' k \<longleftrightarrow> db' = db) \<and>
    peek h (flushall st) db' k = None \<and>
    (token h (flushall st) db' k \<noteq> token h st db' k \<longleftrightarrow> db_index db')"
proof -
  let ?c = "st\<lparr>m_shards := map (set_db db []) (m_shards st)\<rparr>"
  let ?a = "st\<lparr>m_shards := map (\<lambda>sh. sh\<lparr>m_dbs := []\<rparr>) (m_shards st)\<rparr>"
  have sh: "shaped ?c" "shaped ?a" using assms by (simp_all add: shaped_def)
  have pc: "peek h ?c db' k = (if db' = db then None else peek h st db' k)" "token h ?c db' k = token h st db' k"
    using assms by (simp_all add: peek_def token_def getShard_map shard_watchToken_def)
  have pa: "peek h ?a db' k = None" "token h ?a db' k = token h st db' k"
    using assms by (simp_all add: peek_def token_def getShard_map shard_watchToken_def db_at_def umap_get_def)
  have "distinct (map int [0..<kMaxDb])" by (simp add: distinct_map)
  moreover have "db' \<in> set (map int [0..<kMaxDb]) \<longleftrightarrow> db_index db'"
    by (auto simp: db_index_def image_iff intro: bexI[of _ "nat db'"])
  ultimately show ?thesis
    using fold_bumpWatchDb[OF sh(2), of "map int [0..<kMaxDb]" h db' k] token_bumpWatchDb[OF sh(1), of h db db' k]
    by (auto simp: flushdb_eq flushall_def pc pa sh)
qed

theorem flush_correct_witness:
  "peek demo_hash (flushdb 0 demo_store) 0 ''key'' = None \<and>
   peek demo_hash (flushdb 0 demo_store) 1 ''list'' = peek demo_hash demo_store 1 ''list'' \<and>
   token demo_hash (flushall demo_store) 3 ''key'' \<noteq> token demo_hash demo_store 3 ''key''"
  using flush_correct[OF wf_shaped[OF wf_demo_store], of demo_hash 0 0 "''key''"]
    flush_correct[OF wf_shaped[OF wf_demo_store], of demo_hash 0 1 "''list''"]
    flush_correct[OF wf_shaped[OF wf_demo_store], of demo_hash 0 3 "''key''"]
  by (simp add: db_index_def kMaxDb_def)

subsection \<open>The active expiry cycle\<close>

lemma purge_scan_map_of:
  assumes "distinct (map fst d)"
  shows "map_of (fst (purge_scan n now d)) k = map_of d k \<or>
    map_of (fst (purge_scan n now d)) k = None \<and> (\<exists>e. map_of d k = Some e \<and> isExpired e now)"
proof -
  have "distinct (map fst (take n d))" using assms by (simp flip: take_map)
  moreover have "map_of d k = (map_of (drop n d) ++ map_of (take n d)) k"
    by (metis append_take_drop_id map_of_append)
  moreover have "k \<in> fst ` set (take n d) \<Longrightarrow> map_of (drop n d) k = None"
    using assms by (metis append_take_drop_id disjoint_iff distinct_append list.set_map map_append map_of_eq_None_iff)
  ultimately show ?thesis
    by (auto simp: purge_scan_def map_of_filter_snd map_add_def map_of_eq_None_iff split: option.splits)
       (metis fst_conv image_eqI map_of_SomeD)+
qed

lemma purge_scan_length: "int (length d) = int (length (fst (purge_scan n now d))) + snd (purge_scan n now d)"
proof -
  have "length (filter P xs) + length (filter (\<lambda>x. \<not> P x) xs) = length xs" for P and xs :: DbMap
    by (rule sum_length_filter_compl)
  from this[of "\<lambda>(k, e). isExpired e now" "take n d"] show ?thesis
    by (simp add: purge_scan_def case_prod_unfold)
qed

definition purge_scan_shard :: "int \<Rightarrow> int64 \<Rightarrow> Shard \<Rightarrow> Shard" where
  "purge_scan_shard n now sh = sh\<lparr>m_dbs := map (\<lambda>(db, d). (db, fst (purge_scan (nat n) now d))) (m_dbs sh)\<rparr>"

lemma db_at_purge_scan: "db_at (purge_scan_shard n now sh) db = fst (purge_scan (nat n) now (db_at sh db))"
proof -
  have "map_of (map (\<lambda>(db, d). (db, fst (purge_scan (nat n) now d))) m) db =
      map_option (\<lambda>d. fst (purge_scan (nat n) now d)) (map_of m db)" for m
    by (induction m) auto
  moreover have "fst (purge_scan (nat n) now []) = []" by (simp add: purge_scan_def)
  ultimately show ?thesis by (simp add: db_at_def purge_scan_shard_def umap_get_def split: option.split)
qed

lemma wf_purge_scan: "wf_db h i d \<Longrightarrow> wf_db h i (fst (purge_scan n now d))"
proof -
  assume wf: "wf_db h i d"
  have "distinct (map fst (take n d @ drop n d))" using wf by (simp add: wf_db_def)
  moreover have "set (map fst (filter P (take n d))) \<subseteq> set (map fst (take n d))" for P by auto
  ultimately have "distinct (map fst (filter P (take n d) @ drop n d))" for P
    unfolding map_append distinct_append by (blast intro: distinct_map_filter)
  then show ?thesis using wf by (auto simp: wf_db_def purge_scan_def dest: in_set_takeD in_set_dropD)
qed

lemma wf_purge_scan_shard: "wf_shard h i sh \<Longrightarrow> wf_shard h i (purge_scan_shard n now sh)"
  by (force simp: wf_shard_def purge_scan_shard_def comp_def case_prod_unfold intro: wf_purge_scan)

lemma shard_entries_purge_scan:
  "int (length (shard_entries sh)) = int (length (shard_entries (purge_scan_shard n now sh))) +
     (\<Sum>(db, d) \<leftarrow> m_dbs sh. snd (purge_scan (nat n) now d))"
proof -
  have "int (length (concat (map (\<lambda>(db, d). map (\<lambda>(k, e). (db, k, e)) d) m))) =
      int (length (concat (map (\<lambda>(db, d). map (\<lambda>(k, e). (db, k, e)) d) (map (\<lambda>(db, d). (db, fst (purge_scan (nat n) now d))) m)))) +
      (\<Sum>(db, d) \<leftarrow> m. snd (purge_scan (nat n) now d))" for m :: "(int, DbMap) umap"
  proof (induction m)
    case (Cons x m)
    then show ?case using purge_scan_length[of "snd x" "nat n" now] by (simp add: case_prod_unfold)
  qed simp
  then show ?thesis by (simp add: shard_entries_def purge_scan_shard_def)
qed

lemma entry_count_map:
  "(\<And>sh. int (length (shard_entries sh)) = int (length (shard_entries (f sh))) + g sh) \<Longrightarrow>
   int (entry_count st) = int (entry_count (st\<lparr>m_shards := map f (m_shards st)\<rparr>)) + (\<Sum>sh \<leftarrow> m_shards st. g sh)"
proof -
  assume step: "\<And>sh. int (length (shard_entries sh)) = int (length (shard_entries (f sh))) + g sh"
  have "int (\<Sum>sh \<leftarrow> shs. length (shard_entries sh)) =
      int (\<Sum>sh \<leftarrow> map f shs. length (shard_entries sh)) + (\<Sum>sh \<leftarrow> shs. g sh)" for shs
  proof (induction shs)
    case (Cons sh shs)
    then show ?case using step[of sh] by simp
  qed simp
  then show ?thesis by (simp add: entry_count_def)
qed

text \<open>The active expiry cycle is invisible: it removes expired entries only, so that at that moment
  and at every later one each key is visible exactly when it would have been without the cycle, and it
  returns the number of entries it removed.\<close>

theorem purgeExpiredActive_correct:
  assumes "wf_store h st" "now \<le> t" "purgeExpiredActive n now st = (st', removed)"
  shows "wf_store h st' \<and> live h t st' db k = live h t st db k \<and>
    removed = int (entry_count st) - int (entry_count st') \<and>
    (peek h st' db k = peek h st db k \<or> peek h st' db k = None \<and> (\<exists>e. peek h st db k = Some e \<and> isExpired e now))"
proof (cases "n \<le> 0")
  case True
  then show ?thesis using assms by (auto simp: purgeExpiredActive_def)
next
  case False
  have st': "st' = st\<lparr>m_shards := map (purge_scan_shard n now) (m_shards st)\<rparr>"
      "removed = (\<Sum>sh \<leftarrow> m_shards st. \<Sum>(db, d) \<leftarrow> m_dbs sh. snd (purge_scan (nat n) now d))"
    using assms(3) False by (auto simp: purgeExpiredActive_def purge_scan_shard_def)
  have "distinct (map fst (db_at (getShard h st k) db))"
    using wf_db_at[OF wf_getShard[OF assms(1), of k], of db] by (simp add: wf_db_def)
  then have p: "peek h st' db k = peek h st db k \<or> peek h st' db k = None \<and> (\<exists>e. peek h st db k = Some e \<and> isExpired e now)"
    using wf_shaped[OF assms(1)] purge_scan_map_of[of "db_at (getShard h st k) db" "nat n" now k]
    by (simp add: st' peek_def getShard_map db_at_purge_scan)
  then have "live h t st' db k = live h t st db k"
    using isExpired_mono[OF _ assms(2)] by (auto simp: live_def)
  moreover have "wf_store h st'" unfolding st'
    by (rule wf_map_shards[OF assms(1)]) (rule wf_purge_scan_shard)
  moreover have "removed = int (entry_count st) - int (entry_count st')"
    using entry_count_map[of "purge_scan_shard n now", OF shard_entries_purge_scan, of st] by (simp add: st')
  ultimately show ?thesis using p by blast
qed

theorem purgeExpiredActive_correct_witness:
  "let (st', removed) = purgeExpiredActive 20 7 demo_store in
   removed = 1 \<and> live demo_hash 9 st' 0 ''key'' = live demo_hash 9 demo_store 0 ''key''"
proof -
  obtain st' m where d: "purgeExpiredActive 20 7 demo_store = (st', m)" by force
  have "snd (purgeExpiredActive 20 7 demo_store) = 1" by code_simp
  then show ?thesis using purgeExpiredActive_correct[OF wf_demo_store _ d, of 9 0 "''key''"] by (simp add: d)
qed

subsection \<open>The other operations keep the invariant\<close>

lemma wf_entry_expire [simp]: "wf_entry (e\<lparr>expire_at_ms := t\<rparr>) = wf_entry e"
  by (simp add: wf_entry_def)

lemma wf_key_ops [wf_rules]:
  assumes "wf_store h st"
  shows "wf_store h (fst (exists h db key now st))" "wf_store h (fst (type_kv h db key now st))"
    "wf_store h (fst (persist h db key now st))" "wf_store h (fst (expire h db key s now st))"
    "wf_store h (fst (pexpire h db key s now st))" "wf_store h (fst (expireAt h db key s now st))"
    "wf_store h (fst (pexpireAt h db key s now st))" "wf_store h (fst (ttl h db key now st))"
    "wf_store h (fst (pttl h db key now st))"
  using assms
  by (auto simp: exists_def type_kv_def persist_def expire_def pexpire_def expireAt_def pexpireAt_def
      ttl_def pttl_def Let_def intro!: wf_rules intro: wf_live split: option.split)

lemma wf_db_ops [wf_rules]:
  assumes "wf_store h st"
  shows "wf_store h (fst (dbsize db now st))" "wf_store h (fst (expireCount db now st))"
    "wf_store h (fst (keys db p now st))" "wf_store h (fst (scan db c p n now st))"
  using assms by (simp_all add: dbsize_def expireCount_def keys_def scan_def Let_def wf_rules)

lemma wf_delMany [wf_rules]: "wf_store h st \<Longrightarrow> wf_store h (fst (delMany h db ks now st))"
  using delMany_loop_spec[OF _ surjective_pairing] by (simp add: delMany_def)

lemma wf_del [wf_rules]: "wf_store h st \<Longrightarrow> wf_store h (fst (del h db key now st))"
  using wf_delMany[of h st db "[key]" now] by (simp add: del_def case_prod_unfold)

lemma existsMany_loop_spec:
  "wf_store h st \<Longrightarrow> wf_store h (fst (existsMany_loop h db now ks st n)) \<and>
     snd (existsMany_loop h db now ks st n) = n + int (length (filter (\<lambda>k. live h now st db k \<noteq> None) ks)) \<and>
     (\<forall>db' k. live h now (fst (existsMany_loop h db now ks st n)) db' k = live h now st db' k)"
proof (induction ks arbitrary: st n)
  case (Cons k ks)
  then show ?case
    using Cons.IH[of "fst (probeEntry h db k now st)" n] Cons.IH[of "fst (probeEntry h db k now st)" "n + 1"]
      wf_shaped[OF Cons.prems]
    by (cases "live h now st db k") (auto simp: wf_rules store_simps)
qed simp

lemma wf_existsMany [wf_rules]: "wf_store h st \<Longrightarrow> wf_store h (fst (existsMany h db ks now st))"
  by (simp add: existsMany_def existsMany_loop_spec)

text \<open>Another hole in \<open>WATCH\<close>: \<open>EXPIRE\<close> with a count of seconds that is not positive deletes a
  live key, and \<open>PERSIST\<close> removes its deadline, without changing its token.\<close>

theorem expire_not_bumped:
  assumes "shaped st" "live h now st db key = Some e" "s \<le> 0"
  shows "live h now (fst (expire h db key s now st)) db key = None \<and>
    token h (fst (expire h db key s now st)) db key = token h st db key \<and>
    live h now (fst (persist h db key now st)) db key = Some (e\<lparr>expire_at_ms := 0\<rparr>) \<and>
    token h (fst (persist h db key now st)) db key = token h st db key"
  using assms by (simp add: expire_def persist_def store_simps isExpired_def)

theorem expire_not_bumped_witness:
  "live demo_hash 7 (fst (expire demo_hash 0 ''key'' 0 7 demo_store)) 0 ''key'' = None \<and>
   token demo_hash (fst (expire demo_hash 0 ''key'' 0 7 demo_store)) 0 ''key'' = token demo_hash demo_store 0 ''key''"
proof -
  have lv: "live demo_hash 7 demo_store 0 ''key'' = Some (new_entry\<lparr>evalue := ''10''\<rparr>)" by code_simp
  show ?thesis using expire_not_bumped[OF wf_shaped[OF wf_demo_store] lv, of 0] by simp
qed

end
