(* ===== verification/Lists.thy ===== *)
theory Lists
  imports Keys
begin

text \<open>
  List values: \<open>listPush\<close> to \<open>listRPopLPush\<close> (\<open>zero/kv/store/kv_store.cc\<close>) and
  \<open>listInsert\<close> (\<open>kv_store_extras.cc\<close>). Indices are 64-bit integers as in the code; an element is read
  with \<open>!\<close> only behind the code's own range tests, and \<open>listRange_correct\<close> shows that they suffice.
\<close>

subsection \<open>Operations\<close>

definition normalizeListRange :: "int64 \<Rightarrow> int64 \<Rightarrow> int64 \<Rightarrow> int64 \<times> int64" where
  "normalizeListRange len start stop =
     (if len \<le> 0 then (0, - 1)
      else (let s1 = (if start < 0 then i64 (len + start) else start);
                t1 = (if stop < 0 then i64 (len + stop) else stop);
                s2 = (if s1 < 0 then 0 else s1);
                t2 = (if t1 \<ge> len then len - 1 else t1)
            in (s2, t2)))"

definition push_all :: "bool \<Rightarrow> string list \<Rightarrow> string list \<Rightarrow> string list" where
  "push_all left vals l = (if left then fold (\<lambda>v l. v # l) vals l else fold (\<lambda>v l. l @ [v]) vals l)"

definition listPush :: "hasher \<Rightarrow> int \<Rightarrow> string \<Rightarrow> string list \<Rightarrow> bool \<Rightarrow> int64 \<Rightarrow> KvStore \<Rightarrow> KvStore \<times> (string + int64)" where
  "listPush h db key vals left now st =
     (if vals = [] then (st, Inr 0)
      else case openEntry h db key now st of
        (st1, Some e) \<Rightarrow>
          if etype e \<noteq> List then (st1, Inl kWrongType)
          else (let l = push_all left vals (elist e)
                in (bumpWatchKey h db key (putEntry h db key (e\<lparr>elist := l\<rparr>) st1), Inr (int (length l))))
      | (st1, None) \<Rightarrow>
          (let l = push_all left vals []
           in (bumpWatchKey h db key (putEntry h db key (new_entry\<lparr>etype := List, elist := l\<rparr>) st1), Inr (int (length l)))))"

definition listPop :: "hasher \<Rightarrow> int \<Rightarrow> string \<Rightarrow> bool \<Rightarrow> int64 \<Rightarrow> KvStore \<Rightarrow> KvStore \<times> (string + string option)" where
  "listPop h db key left now st =
     (case openEntry h db key now st of
        (st1, None) \<Rightarrow> (st1, Inr None)
      | (st1, Some e) \<Rightarrow>
          if etype e \<noteq> List then (st1, Inl kWrongType)
          else if elist e = [] then (st1, Inr None)
          else (let v = (if left then hd (elist e) else last (elist e));
                    l = (if left then tl (elist e) else butlast (elist e));
                    st2 = (if l = [] then eraseEntry h db key st1 else putEntry h db key (e\<lparr>elist := l\<rparr>) st1)
                in (bumpWatchKey h db key st2, Inr (Some v))))"

definition listLen :: "hasher \<Rightarrow> int \<Rightarrow> string \<Rightarrow> int64 \<Rightarrow> KvStore \<Rightarrow> KvStore \<times> (string + int64 option)" where
  "listLen h db key now st =
     (case openEntry h db key now st of
        (st1, None) \<Rightarrow> (st1, Inr None)
      | (st1, Some e) \<Rightarrow>
          if etype e \<noteq> List then (st1, Inl kWrongType) else (st1, Inr (Some (int (length (elist e))))))"

definition listRange :: "hasher \<Rightarrow> int \<Rightarrow> string \<Rightarrow> int64 \<Rightarrow> int64 \<Rightarrow> int64 \<Rightarrow> KvStore \<Rightarrow>
    KvStore \<times> (string + string list option)" where
  "listRange h db key start stop now st =
     (case openEntry h db key now st of
        (st1, None) \<Rightarrow> (st1, Inr None)
      | (st1, Some e) \<Rightarrow>
          if etype e \<noteq> List then (st1, Inl kWrongType)
          else (case normalizeListRange (int (length (elist e))) start stop of
                  (s, t) \<Rightarrow>
                    if s > t \<or> length (elist e) = 0 then (st1, Inr (Some []))
                    else (st1, Inr (Some (map (\<lambda>i. elist e ! nat i) [s..t])))))"

definition listIndex :: "hasher \<Rightarrow> int \<Rightarrow> string \<Rightarrow> int64 \<Rightarrow> int64 \<Rightarrow> KvStore \<Rightarrow> KvStore \<times> (string + string option)" where
  "listIndex h db key index now st =
     (case openEntry h db key now st of
        (st1, None) \<Rightarrow> (st1, Inr None)
      | (st1, Some e) \<Rightarrow>
          if etype e \<noteq> List then (st1, Inl kWrongType)
          else (let st2 = putEntry h db key (touchEntry now e) st1;
                    len = int (length (elist e));
                    idx = (if index < 0 then i64 (len + index) else index)
                in if idx < 0 \<or> idx \<ge> len then (st2, Inr None) else (st2, Inr (Some (elist e ! nat idx)))))"

definition listTrim :: "hasher \<Rightarrow> int \<Rightarrow> string \<Rightarrow> int64 \<Rightarrow> int64 \<Rightarrow> int64 \<Rightarrow> KvStore \<Rightarrow> KvStore \<times> (string + int64)" where
  "listTrim h db key start stop now st =
     (case openEntry h db key now st of
        (st1, None) \<Rightarrow> (st1, Inr 0)
      | (st1, Some e) \<Rightarrow>
          if etype e \<noteq> List then (st1, Inl kWrongType)
          else (case normalizeListRange (int (length (elist e))) start stop of
                  (s, t) \<Rightarrow>
                    if length (elist e) = 0 \<or> s > t
                    then (bumpWatchKey h db key (eraseEntry h db key st1), Inr 1)
                    else (let kept = map (\<lambda>i. elist e ! nat i) [s..t];
                              st2 = (if kept = [] then eraseEntry h db key st1
                                     else putEntry h db key (touchEntry now (e\<lparr>elist := kept\<rparr>)) st1)
                          in (bumpWatchKey h db key st2, Inr 1))))"

definition listSet :: "hasher \<Rightarrow> int \<Rightarrow> string \<Rightarrow> int64 \<Rightarrow> string \<Rightarrow> int64 \<Rightarrow> KvStore \<Rightarrow> KvStore \<times> (string + unit)" where
  "listSet h db key index v now st =
     (case openEntry h db key now st of
        (st1, None) \<Rightarrow> (st1, Inl ''ERR no such key'')
      | (st1, Some e) \<Rightarrow>
          if etype e \<noteq> List then (st1, Inl kWrongType)
          else (let len = int (length (elist e));
                    idx = (if index < 0 then i64 (len + index) else index)
                in if idx < 0 \<or> idx \<ge> len then (st1, Inl ''ERR index out of range'')
                   else (bumpWatchKey h db key
                           (putEntry h db key (touchEntry now (e\<lparr>elist := (elist e)[nat idx := v]\<rparr>)) st1), Inr ())))"

text \<open>The loops of \<open>listRem\<close>: forwards with an optional limit, and backwards by index.\<close>

fun rem_fwd :: "int64 option \<Rightarrow> string \<Rightarrow> string list \<Rightarrow> int64 \<Rightarrow> string list \<times> int64" where
  "rem_fwd lim v [] removed = ([], removed)"
| "rem_fwd lim v (x # xs) removed =
     (if (case lim of None \<Rightarrow> True | Some c \<Rightarrow> removed < c)
      then (if x = v then rem_fwd lim v xs (removed + 1)
            else (case rem_fwd lim v xs removed of (ys, r) \<Rightarrow> (x # ys, r)))
      else (x # xs, removed))"

fun rem_back :: "int64 \<Rightarrow> string \<Rightarrow> nat \<Rightarrow> string list \<Rightarrow> int64 \<Rightarrow> string list \<times> int64" where
  "rem_back need v 0 xs removed = (xs, removed)"
| "rem_back need v (Suc i) xs removed =
     (if removed < need
      then (if xs ! i = v then rem_back need v i (take i xs @ drop (Suc i) xs) (removed + 1)
            else rem_back need v i xs removed)
      else (xs, removed))"

definition listRem :: "hasher \<Rightarrow> int \<Rightarrow> string \<Rightarrow> int64 \<Rightarrow> string \<Rightarrow> int64 \<Rightarrow> KvStore \<Rightarrow> KvStore \<times> (string + int64)" where
  "listRem h db key n v now st =
     (case openEntry h db key now st of
        (st1, None) \<Rightarrow> (st1, Inr 0)
      | (st1, Some e) \<Rightarrow>
          if etype e \<noteq> List then (st1, Inl kWrongType)
          else (case (if n = 0 then rem_fwd None v (elist e) 0
                      else if n > 0 then rem_fwd (Some n) v (elist e) 0
                      else rem_back (i64 (- n)) v (length (elist e)) (elist e) 0) of
                  (l, removed) \<Rightarrow>
                    (let st2 = (if l = [] then eraseEntry h db key st1
                                else putEntry h db key (touchEntry now (e\<lparr>elist := l\<rparr>)) st1)
                     in (bumpWatchKey h db key st2, Inr removed))))"

text \<open>\<open>RPOPLPUSH\<close> returns its truth value, the element if \<open>found\<close> is set, and the error text if one is
  set; these are independent in the code.\<close>

definition listRPopLPush :: "hasher \<Rightarrow> int \<Rightarrow> string \<Rightarrow> string \<Rightarrow> int64 \<Rightarrow> int64 \<Rightarrow> KvStore \<Rightarrow>
    KvStore \<times> bool \<times> string option \<times> string option" where
  "listRPopLPush h db src dst now1 now2 st =
     (case listPop h db src False now1 st of
        (st1, Inl err) \<Rightarrow> (st1, True, None, Some err)
      | (st1, Inr None) \<Rightarrow> (st1, True, None, None)
      | (st1, Inr (Some v)) \<Rightarrow>
          (case listPush h db dst [v] True now2 st1 of
             (st2, Inl err) \<Rightarrow> (st2, False, Some v, Some err)
           | (st2, Inr _) \<Rightarrow> (st2, True, Some v, None)))"

fun insert_at_pivot :: "bool \<Rightarrow> string \<Rightarrow> string \<Rightarrow> string list \<Rightarrow> string list option" where
  "insert_at_pivot before pivot v [] = None"
| "insert_at_pivot before pivot v (x # xs) =
     (if x = pivot then Some (if before then v # x # xs else x # v # xs)
      else map_option (Cons x) (insert_at_pivot before pivot v xs))"

definition listInsert :: "hasher \<Rightarrow> int \<Rightarrow> string \<Rightarrow> bool \<Rightarrow> string \<Rightarrow> string \<Rightarrow> int64 \<Rightarrow> KvStore \<Rightarrow>
    KvStore \<times> (string + int64)" where
  "listInsert h db key before pivot v now st =
     (case openEntry h db key now st of
        (st1, None) \<Rightarrow> (st1, Inr (- 2))
      | (st1, Some e) \<Rightarrow>
          if etype e \<noteq> List then (st1, Inl kWrongType)
          else (case insert_at_pivot before pivot v (elist e) of
                  None \<Rightarrow> (st1, Inr (- 2))
                | Some l \<Rightarrow>
                    (bumpWatchKey h db key (putEntry h db key (touchEntry now (e\<lparr>elist := l\<rparr>)) st1),
                     Inr (int (length l)))))"

subsection \<open>The invariant\<close>

lemma wf_entry_list:
  "wf_entry e \<Longrightarrow> etype e = List \<Longrightarrow> l \<noteq> [] \<Longrightarrow> wf_entry (e\<lparr>elist := l\<rparr>)"
  "l \<noteq> [] \<Longrightarrow> wf_entry (new_entry\<lparr>etype := List, elist := l\<rparr>)"
  by (simp_all add: wf_entry_def)

lemma push_all_eq: "push_all left vals l = (if left then rev vals @ l else l @ vals)"
proof -
  have "fold (\<lambda>v l. v # l) vals l = rev vals @ l" "fold (\<lambda>v l. l @ [v]) vals l = l @ vals" for l
    by (induction vals arbitrary: l) auto
  then show ?thesis by (simp add: push_all_def)
qed

lemma insert_at_pivot_not_Nil: "insert_at_pivot b p v xs = Some l \<Longrightarrow> l \<noteq> []"
  by (induction b p v xs arbitrary: l rule: insert_at_pivot.induct) (auto split: if_splits)

lemma wf_list_ops [wf_rules]:
  assumes "wf_store h st"
  shows "wf_store h (fst (listPush h db key vals left now st))" "wf_store h (fst (listPop h db key left now st))"
    "wf_store h (fst (listLen h db key now st))" "wf_store h (fst (listRange h db key a b now st))"
    "wf_store h (fst (listIndex h db key i now st))" "wf_store h (fst (listTrim h db key a b now st))"
    "wf_store h (fst (listSet h db key i v now st))" "wf_store h (fst (listRem h db key n v now st))"
    "wf_store h (fst (listInsert h db key before pivot v now st))"
  using assms
  by (auto simp: listPush_def listPop_def listLen_def listRange_def listIndex_def listTrim_def listSet_def
      listRem_def listInsert_def Let_def case_prod_unfold push_all_eq
      intro!: wf_rules wf_entry_list intro: wf_live dest: insert_at_pivot_not_Nil split: option.split)

lemma wf_listRPopLPush [wf_rules]:
  "wf_store h st \<Longrightarrow> wf_store h (fst (listRPopLPush h db src dst now1 now2 st))"
  using wf_list_ops(2)[of h st db src False now1]
  by (auto simp: listRPopLPush_def case_prod_unfold intro!: wf_list_ops split: sum.split option.split)

subsection \<open>A list is a double-ended queue\<close>

definition lview :: "hasher \<Rightarrow> int \<Rightarrow> string \<Rightarrow> int64 \<Rightarrow> KvStore \<Rightarrow> string list" where
  "lview h db key now st = (case live h now st db key of None \<Rightarrow> [] | Some e \<Rightarrow> elist e)"

definition list_ok :: "hasher \<Rightarrow> int \<Rightarrow> string \<Rightarrow> int64 \<Rightarrow> KvStore \<Rightarrow> bool" where
  "list_ok h db key now st \<longleftrightarrow>
     wf_store h st \<and> (\<forall>e. live h now st db key = Some e \<longrightarrow> etype e = List)"

fun drain :: "('s \<Rightarrow> 's \<times> 'a option) \<Rightarrow> nat \<Rightarrow> 's \<Rightarrow> 'a list" where
  "drain pop 0 s = []"
| "drain pop (Suc n) s = (case pop s of (s1, None) \<Rightarrow> [] | (s1, Some v) \<Rightarrow> v # drain pop n s1)"

locale deque =
  fixes ok :: "'s \<Rightarrow> bool"
    and view :: "'s \<Rightarrow> 'a list"
    and push :: "bool \<Rightarrow> 'a list \<Rightarrow> 's \<Rightarrow> 's"
    and pop :: "bool \<Rightarrow> 's \<Rightarrow> 's \<times> 'a option"
  assumes view_push: "ok s \<Longrightarrow> view (push left vs s) = (if left then rev vs @ view s else view s @ vs)"
    and snd_pop: "ok s \<Longrightarrow> snd (pop left s) = (if view s = [] then None else Some (if left then hd (view s) else last (view s)))"
    and view_pop: "ok s \<Longrightarrow> view (fst (pop left s)) = (if left then tl (view s) else butlast (view s))"
    and ok_push: "ok s \<Longrightarrow> ok (push left vs s)"
    and ok_pop: "ok s \<Longrightarrow> ok (fst (pop left s))"
begin

lemma drain_left: "ok s \<Longrightarrow> drain (pop True) n s = take n (view s)"
proof (induction n arbitrary: s)
  case (Suc n)
  show ?case using Suc.IH[OF ok_pop[OF Suc.prems, of True]] snd_pop[OF Suc.prems, of True] view_pop[OF Suc.prems, of True]
    by (cases "view s") (simp_all add: case_prod_unfold)
qed simp

lemma drain_right: "ok s \<Longrightarrow> drain (pop False) n s = take n (rev (view s))"
proof (induction n arbitrary: s)
  case (Suc n)
  show ?case using Suc.IH[OF ok_pop[OF Suc.prems, of False]] snd_pop[OF Suc.prems, of False] view_pop[OF Suc.prems, of False]
    by (cases "view s" rule: rev_cases) (simp_all add: case_prod_unfold)
qed simp

text \<open>Pushed on one side and taken from the other, elements leave in the order in which they came.\<close>

lemma fifo: "ok s \<Longrightarrow> view s = [] \<Longrightarrow> drain (pop False) (length vs) (push True vs s) = vs"
  by (simp add: drain_right ok_push view_push)

lemma lifo: "ok s \<Longrightarrow> drain (pop True) (length vs) (push True vs s) = rev vs"
  by (simp add: drain_left ok_push view_push)

end

lemma listPush_live:
  assumes "list_ok h db key now st"
  shows "live h now (fst (listPush h db key vs left now st)) db' k =
    (if db' = db \<and> k = key \<and> vs \<noteq> []
     then Some ((case live h now st db key of None \<Rightarrow> new_entry\<lparr>etype := List\<rparr> | Some e \<Rightarrow> e)\<lparr>elist :=
                  (if left then rev vs @ lview h db key now st else lview h db key now st @ vs)\<rparr>)
     else live h now st db' k)"
  using assms live_not_expired[of h now st db key] wf_shaped[of h st]
  by (auto simp: list_ok_def listPush_def push_all_eq lview_def Let_def store_simps isExpired_def split: option.split)

lemma listPop_live:
  assumes "list_ok h db key now st"
  shows "live h now (fst (listPop h db key left now st)) db' k =
    (if db' = db \<and> k = key
     then (let l = (if left then tl (lview h db key now st) else butlast (lview h db key now st))
           in if l = [] then None else map_option (\<lambda>e. e\<lparr>elist := l\<rparr>) (live h now st db key))
     else live h now st db' k)"
proof -
  have ne: "elist e \<noteq> []" if "live h now st db key = Some e" for e
    using assms wf_live[OF _ that] that by (auto simp: list_ok_def wf_entry_def)
  show ?thesis using assms live_not_expired[of h now st db key] wf_shaped[of h st] ne
    by (auto simp: list_ok_def listPop_def lview_def Let_def store_simps isExpired_def split: option.split)
qed

lemma list_nonempty: "list_ok h db key now st \<Longrightarrow> live h now st db key = None \<longleftrightarrow> lview h db key now st = []"
  using wf_live[of h st now db key] by (auto simp: list_ok_def lview_def wf_entry_def split: option.split)

lemma list_results:
  assumes "list_ok h db key now st"
  shows "snd (listPush h db key vs left now st) =
      Inr (if vs = [] then 0 else int (length (lview h db key now st) + length vs))"
    "snd (listPop h db key left now st) =
      Inr (if lview h db key now st = [] then None
           else Some (if left then hd (lview h db key now st) else last (lview h db key now st)))"
    "snd (listLen h db key now st) =
      Inr (if lview h db key now st = [] then None else Some (int (length (lview h db key now st))))"
proof -
  note defs = listPush_def listPop_def listLen_def push_all_eq lview_def Let_def
  have e: "etype e = List" "elist e \<noteq> []" if "live h now st db key = Some e" for e
    using assms wf_live[OF _ that] that by (auto simp: list_ok_def wf_entry_def)
  show "snd (listPush h db key vs left now st) =
      Inr (if vs = [] then 0 else int (length (lview h db key now st) + length vs))"
    using e(1) by (cases "live h now st db key") (simp_all add: defs)
  show "snd (listPop h db key left now st) =
      Inr (if lview h db key now st = [] then None
           else Some (if left then hd (lview h db key now st) else last (lview h db key now st)))"
    using e by (cases "live h now st db key") (simp_all add: defs)
  show "snd (listLen h db key now st) =
      Inr (if lview h db key now st = [] then None else Some (int (length (lview h db key now st))))"
    using e by (cases "live h now st db key") (simp_all add: defs)
qed

lemma list_ok_push: "list_ok h db key now st \<Longrightarrow> list_ok h db key now (fst (listPush h db key vs left now st))"
  using listPush_live[of h db key now st vs left db key]
  by (auto simp: list_ok_def wf_rules split: option.splits if_splits)

lemma list_ok_pop: "list_ok h db key now st \<Longrightarrow> list_ok h db key now (fst (listPop h db key left now st))"
  using listPop_live[of h db key now st left db key]
  by (auto simp: list_ok_def wf_rules Let_def split: option.splits if_splits)

lemma lview_push:
  "list_ok h db key now st \<Longrightarrow> lview h db key now (fst (listPush h db key vs left now st)) =
     (if left then rev vs @ lview h db key now st else lview h db key now st @ vs)"
  unfolding lview_def[of h db key now "fst (listPush h db key vs left now st)"]
  by (simp add: listPush_live) (simp add: lview_def)

lemma lview_pop:
  "list_ok h db key now st \<Longrightarrow> lview h db key now (fst (listPop h db key left now st)) =
     (if left then tl (lview h db key now st) else butlast (lview h db key now st))"
  unfolding lview_def[of h db key now "fst (listPop h db key left now st)"]
  by (auto simp: listPop_live Let_def) (auto simp: lview_def split: option.split)

text \<open>The commands \<open>LPUSH\<close>, \<open>RPUSH\<close>, \<open>LPOP\<close> and \<open>RPOP\<close> on a key with no value of another type.\<close>

definition pop_value :: "'s \<times> ('e + 'a option) \<Rightarrow> 's \<times> 'a option" where
  "pop_value r = (case r of (s, Inl _) \<Rightarrow> (s, None) | (s, Inr v) \<Rightarrow> (s, v))"

lemma pop_value_sel [simp]: "fst (pop_value r) = fst r" "snd r = Inr v \<Longrightarrow> snd (pop_value r) = v"
  by (auto simp: pop_value_def split: prod.split sum.split)

interpretation lq: deque "list_ok h db key now" "lview h db key now"
    "\<lambda>left vs st. fst (listPush h db key vs left now st)" "\<lambda>left st. pop_value (listPop h db key left now st)"
  for h db key now
  by unfold_locales (simp_all add: lview_push lview_pop list_results list_ok_push list_ok_pop)

text \<open>C24: On a key that is missing or holds a list, the list commands implement a double-ended queue: pushing
  several values puts them on the given side one after the other and returns the new length, popping
  takes the value at the given side, the key exists exactly while the queue is not empty, and elements pushed on
  the left and popped from the right of a new list leave in the order they came.\<close>

theorem list_refines_deque:
  assumes "list_ok h db key now st" "vs \<noteq> []"
  shows "lview h db key now (fst (listPush h db key vs left now st)) =
      (if left then rev vs @ lview h db key now st else lview h db key now st @ vs) \<and>
    snd (listPush h db key vs left now st) = Inr (int (length (lview h db key now st) + length vs)) \<and>
    snd (listPop h db key left now st) =
      Inr (if lview h db key now st = [] then None
           else Some (if left then hd (lview h db key now st) else last (lview h db key now st))) \<and>
    lview h db key now (fst (listPop h db key left now st)) =
      (if left then tl (lview h db key now st) else butlast (lview h db key now st)) \<and>
    (live h now (fst (listPop h db key left now st)) db key = None \<longleftrightarrow>
       lview h db key now (fst (listPop h db key left now st)) = []) \<and>
    (live h now st db key = None \<longrightarrow>
       drain (\<lambda>s. pop_value (listPop h db key False now s)) (length vs)
         (fst (listPush h db key vs True now st)) = vs)"
  using assms lq.fifo[OF assms(1), of vs] list_nonempty[OF assms(1)]
    list_nonempty[OF list_ok_pop[OF assms(1), of left]]
  by (simp add: lview_push lview_pop list_results)

definition list_store :: KvStore where
  "list_store = fst (listPush length 0 ''l'' [''a'', ''b'', ''a'', ''c''] False 5 new_store)"

lemma list_store_ok: "list_ok length 0 ''l'' 7 list_store" "lview length 0 ''l'' 7 list_store = [''a'', ''b'', ''a'', ''c'']"
proof -
  have "map_option etype (live length 7 list_store 0 ''l'') = Some List" by code_simp
  then show "list_ok length 0 ''l'' 7 list_store" by (auto simp: list_ok_def list_store_def wf_rules)
qed code_simp

theorem list_refines_deque_witness:
  "snd (listPop length 0 ''l'' False 7 list_store) = Inr (Some ''c'') \<and>
   snd (listPush length 0 ''l'' [''x''] True 7 list_store) = Inr 5"
  using list_refines_deque[OF list_store_ok(1), of "[''x'']" True] list_refines_deque[OF list_store_ok(1), of "[''x'']" False]
  by (simp add: list_store_ok(2))

subsection \<open>Ranges\<close>

definition lslice :: "int \<Rightarrow> int \<Rightarrow> 'a list \<Rightarrow> 'a list" where
  "lslice start stop l =
     (let a = (if start < 0 then int (length l) + start else start);
          b = (if stop < 0 then int (length l) + stop else stop)
      in drop (nat a) (take (nat (b + 1)) l))"

lemma normalize_bounds:
  assumes "0 < len" "len < 2 ^ 63" "in_i64 a" "in_i64 b" "normalizeListRange len a b = (s, t)"
  shows "s = max 0 (if a < 0 then len + a else a)" "t = min (len - 1) (if b < 0 then len + b else b)"
proof -
  have "in_i64 (len + a)" if "a < 0" using assms(1-3) that by (simp add: in_i64_def)
  moreover have "in_i64 (len + b)" if "b < 0" using assms(1,2,4) that by (simp add: in_i64_def)
  ultimately show "s = max 0 (if a < 0 then len + a else a)" "t = min (len - 1) (if b < 0 then len + b else b)"
    using assms(1,5) by (auto simp: normalizeListRange_def Let_def split: if_splits)
qed

lemma map_upto_slice:
  assumes "0 \<le> s" "s \<le> t" "t < int (length l)"
  shows "map (\<lambda>i. l ! nat i) [s..t] = drop (nat s) (take (nat (t + 1)) l)"
proof (rule nth_equalityI)
  show "length (map (\<lambda>i. l ! nat i) [s..t]) = length (drop (nat s) (take (nat (t + 1)) l))"
    using assms by simp
  fix i assume "i < length (map (\<lambda>i. l ! nat i) [s..t])"
  then have "int i < t - s + 1" by simp
  then show "map (\<lambda>i. l ! nat i) [s..t] ! i = drop (nat s) (take (nat (t + 1)) l) ! i"
    using assms by (simp add: nth_upto nat_add_distrib)
qed

lemma range_slice:
  assumes "l \<noteq> []" "int (length l) < 2 ^ 63" "in_i64 a" "in_i64 b"
    and "normalizeListRange (int (length l)) a b = (s, t)"
  shows "(if s > t then [] else map (\<lambda>i. l ! nat i) [s..t]) = lslice a b l"
    "set [s..t] \<subseteq> {0..<int (length l)}"
proof -
  note st = normalize_bounds[OF _ assms(2-5)]
  have len: "0 < int (length l)" using assms(1) by simp
  show "set [s..t] \<subseteq> {0..<int (length l)}" using st[OF len] by auto
  show "(if s > t then [] else map (\<lambda>i. l ! nat i) [s..t]) = lslice a b l"
  proof (cases "s > t")
    case True
    then show ?thesis using st[OF len] by (auto simp: lslice_def Let_def)
  next
    case False
    then have "map (\<lambda>i. l ! nat i) [s..t] = drop (nat s) (take (nat (t + 1)) l)"
      using st[OF len] by (intro map_upto_slice) auto
    moreover define A B where "A = (if a < 0 then int (length l) + a else a)"
      and "B = (if b < 0 then int (length l) + b else b)"
    moreover have "nat s = nat A" using st(1)[OF len] by (simp add: A_def)
    moreover have "take (nat (t + 1)) l = take (nat (B + 1)) l"
      using st(2)[OF len] unfolding B_def[symmetric] by (cases "B < int (length l)") simp_all
    ultimately show ?thesis using False by (simp add: lslice_def Let_def)
  qed
qed

text \<open>C37: \<open>LRANGE\<close> and \<open>LTRIM\<close> agree on the same slice: both ends inclusive, a negative index counted from
  the end, out of range ends clipped. \<open>LRANGE\<close> returns it, \<open>LTRIM\<close> leaves exactly it (and no key when it is
  empty), and every element either of them reads is inside the list, for all 64-bit arguments.\<close>

theorem listRange_correct:
  assumes "list_ok h db key now st" "l = lview h db key now st" "int (length l) < 2 ^ 63" "in_i64 a" "in_i64 b"
  shows "snd (listRange h db key a b now st) = Inr (if l = [] then None else Some (lslice a b l)) \<and>
    lview h db key now (fst (listTrim h db key a b now st)) = lslice a b l \<and>
    snd (listTrim h db key a b now st) = Inr (if l = [] then 0 else 1) \<and>
    (l \<noteq> [] \<longrightarrow> (case normalizeListRange (int (length l)) a b of (s, t) \<Rightarrow> set [s..t] \<subseteq> {0..<int (length l)}))"
proof (cases "live h now st db key")
  case None
  then have "l = []" using assms(2) by (simp add: lview_def)
  then show ?thesis using None assms(1) wf_shaped[of h st]
    by (simp add: listRange_def listTrim_def lview_def store_simps lslice_def list_ok_def)
next
  case (Some e)
  have e: "etype e = List" "elist e = l" "l \<noteq> []" "\<not> isExpired e now"
    using assms(1,2) Some wf_live[OF _ Some] live_not_expired[OF Some] by (auto simp: list_ok_def lview_def wf_entry_def)
  obtain s t where n: "normalizeListRange (int (length l)) a b = (s, t)" by force
  note r = range_slice[OF e(3) assms(3-5) n]
  have sh: "shaped st" using assms(1) by (auto simp: list_ok_def)
  show ?thesis using r e Some n sh
    by (cases "s > t") (auto simp: listRange_def listTrim_def lview_def Let_def store_simps isExpired_def touchEntry_def)
qed

theorem listRange_correct_witness:
  "snd (listRange length 0 ''l'' (- 3) 100 7 list_store) = Inr (Some [''b'', ''a'', ''c'']) \<and>
   lview length 0 ''l'' 7 (fst (listTrim length 0 ''l'' 1 (- 3) 7 list_store)) = [''b'']"
  using listRange_correct[OF list_store_ok(1) refl, of "- 3" 100] listRange_correct[OF list_store_ok(1) refl, of 1 "- 3"]
  by (simp add: list_store_ok(2) lslice_def in_i64_def)

subsection \<open>Removal by value\<close>

lemma rem_fwd_None: "rem_fwd None v xs r = (filter (\<lambda>x. x \<noteq> v) xs, r + int (count_list xs v))"
  by (induction xs arbitrary: r) auto

lemma remove1_funpow_Nil [simp]: "(remove1 v ^^ n) [] = []"
  by (induction n) simp_all

lemma remove1_funpow_Cons: "(remove1 v ^^ n) (x # xs) =
    (if n = 0 then x # xs else if x = v then (remove1 v ^^ (n - 1)) xs else x # (remove1 v ^^ n) xs)"
proof (induction n arbitrary: x xs)
  case (Suc n)
  show ?case
  proof (cases "x = v")
    case True
    then show ?thesis by (simp add: funpow_swap1)
  next
    case False
    then have "(remove1 v ^^ Suc n) (x # xs) = (remove1 v ^^ n) (x # remove1 v xs)" by (simp add: funpow_swap1)
    also have "\<dots> = x # (remove1 v ^^ n) (remove1 v xs)" using Suc.IH[of x "remove1 v xs"] False by (cases n) simp_all
    finally show ?thesis using False by (simp add: funpow_swap1)
  qed
qed simp

lemma rem_fwd_Some:
  "r \<le> c \<Longrightarrow> rem_fwd (Some c) v xs r =
     ((remove1 v ^^ nat (c - r)) xs, r + min (c - r) (int (count_list xs v)))"
proof (induction xs arbitrary: r)
  case (Cons x xs)
  have "nat (c - (r + 1)) = nat (c - r) - 1" by simp
  then show ?case using Cons.IH[of r] Cons.IH[of "r + 1"] Cons.prems
    by (auto simp: remove1_funpow_Cons)
qed simp

text \<open>Walking backwards by index is walking forwards over the reversed list.\<close>

lemma rem_back_rev:
  "rem_back need v (length xs) (xs @ ys) r =
     (case rem_fwd (Some need) v (rev xs) r of (zs, n) \<Rightarrow> (rev zs @ ys, n))"
proof (induction xs arbitrary: ys r rule: rev_induct)
  case (snoc x xs)
  then show ?case using snoc.IH[of ys "r + 1"] snoc.IH[of "x # ys" r]
    by (auto split: prod.split)
qed simp

definition lrem :: "int \<Rightarrow> 'a \<Rightarrow> 'a list \<Rightarrow> 'a list" where
  "lrem n v l =
     (if n = 0 then filter (\<lambda>x. x \<noteq> v) l
      else if n > 0 then (remove1 v ^^ nat n) l else rev ((remove1 v ^^ nat (- n)) (rev l)))"

text \<open>\<open>LREM\<close> with a positive count removes that many occurrences of the value from the front, with a negative
  count from the back, with 0 all of them, and returns how many there were to remove; the loops (one
  over iterators, one over indices of the list they shrink) agree with iterated removal of the first
  occurrence. The key disappears with its last element.\<close>

theorem listRem_correct:
  assumes "list_ok h db key now st" "l = lview h db key now st" "in_i64 n" "n \<noteq> INT64_MIN"
  shows "lview h db key now (fst (listRem h db key n v now st)) = lrem n v l \<and>
    snd (listRem h db key n v now st) =
      Inr (if n = 0 then int (count_list l v) else min \<bar>n\<bar> (int (count_list l v))) \<and>
    (live h now (fst (listRem h db key n v now st)) db key = None \<longleftrightarrow> lrem n v l = [])"
proof (cases "live h now st db key")
  case None
  then have "l = []" using assms(2) by (simp add: lview_def)
  then show ?thesis using None assms(1) wf_shaped[of h st]
    by (simp add: listRem_def lview_def store_simps list_ok_def lrem_def)
next
  case (Some e)
  have e: "etype e = List" "elist e = l" "\<not> isExpired e now" and sh: "shaped st"
    using assms(1,2) Some live_not_expired[OF Some] by (auto simp: list_ok_def lview_def)
  have neg: "i64 (- n) = - n" using assms(3,4) by (simp add: in_i64_def INT64_MIN_def)
  have loops: "(if n = 0 then rem_fwd None v l 0 else if n > 0 then rem_fwd (Some n) v l 0
       else rem_back (i64 (- n)) v (length l) l 0) =
     (lrem n v l, if n = 0 then int (count_list l v) else min \<bar>n\<bar> (int (count_list l v)))"
    using rem_back_rev[of "- n" v l "[]" 0]
    by (auto simp: neg rem_fwd_None rem_fwd_Some lrem_def)
  have "listRem h db key n v now st =
      (bumpWatchKey h db key
         (if lrem n v l = [] then eraseEntry h db key (fst (openEntry h db key now st))
          else putEntry h db key (touchEntry now (e\<lparr>elist := lrem n v l\<rparr>)) (fst (openEntry h db key now st))),
       Inr (if n = 0 then int (count_list l v) else min \<bar>n\<bar> (int (count_list l v))))"
    by (simp only: listRem_def case_openEntry Some option.case e(1,2) loops Let_def prod.case simp_thms if_False)
  then show ?thesis using e(3) sh
    by (auto simp: lview_def store_simps isExpired_def touchEntry_def)
qed

theorem listRem_correct_witness:
  "lview length 0 ''l'' 7 (fst (listRem length 0 ''l'' (- 1) ''a'' 7 list_store)) = [''a'', ''b'', ''c''] \<and>
   snd (listRem length 0 ''l'' 0 ''a'' 7 list_store) = Inr 2"
  using listRem_correct[OF list_store_ok(1) refl, of "- 1" "''a''"] listRem_correct[OF list_store_ok(1) refl, of 0 "''a''"]
  by (simp add: list_store_ok(2) lrem_def in_i64_def INT64_MIN_def)

text \<open>\<open>RPOPLPUSH\<close> loses data: when the destination holds a value of another type, the element has already
  been taken off the source; the command fails with \<open>WRONGTYPE\<close>, the destination is unchanged, and
  the element is in neither list.\<close>

theorem listRPopLPush_loses:
  assumes "list_ok h db src now st" "lview h db src now st = xs @ [v]" "src \<noteq> dst"
    and "live h now st db dst = Some d" "etype d \<noteq> List"
    and "listRPopLPush h db src dst now now st = (st', ret, found, err)"
  shows "ret = False \<and> err = Some kWrongType \<and> lview h db src now st' = xs \<and> live h now st' db dst = Some d"
proof -
  obtain s where pop: "listPop h db src False now st = (s, Inr (Some v))"
    using list_results(2)[OF assms(1), of False] assms(2) by (cases "listPop h db src False now st") simp
  have view: "lview h db src now s = xs" "live h now s db dst = Some d"
    using lview_pop[OF assms(1), of False] listPop_live[OF assms(1), of False db dst] assms(2-4) pop by simp_all
  have sh: "shaped s" using list_ok_pop[OF assms(1), of False] pop by (auto simp: list_ok_def)
  have "listPush h db dst [v] True now s = (fst (openEntry h db dst now s), Inl kWrongType)"
    using view(2) assms(5) by (simp add: listPush_def)
  then have st': "st' = fst (openEntry h db dst now s)" "ret = False" "err = Some kWrongType"
    using assms(6) pop by (simp_all add: listRPopLPush_def)
  then show ?thesis using view sh by (simp add: lview_def store_simps)
qed

definition mixed_store :: KvStore where
  "mixed_store = putEntry length 0 ''str'' (new_entry\<lparr>evalue := ''v''\<rparr>) list_store"

theorem listRPopLPush_loses_witness:
  "let (st', ret, found, err) = listRPopLPush length 0 ''l'' ''str'' 7 7 mixed_store in
   ret = False \<and> err = Some kWrongType \<and> lview length 0 ''l'' 7 st' = [''a'', ''b'', ''a''] \<and>
   live length 7 st' 0 ''str'' = Some (new_entry\<lparr>evalue := ''v''\<rparr>)"
proof -
  have ok: "list_ok length 0 ''l'' 7 mixed_store"
    using list_store_ok(1) by (auto simp: mixed_store_def list_ok_def store_simps intro!: wf_rules)
  have v: "lview length 0 ''l'' 7 mixed_store = [''a'', ''b'', ''a''] @ [''c'']"
    "live length 7 mixed_store 0 ''str'' = Some (new_entry\<lparr>evalue := ''v''\<rparr>)" by code_simp+
  obtain st' ret found err where ex: "listRPopLPush length 0 ''l'' ''str'' 7 7 mixed_store = (st', ret, found, err)"
    by (cases "listRPopLPush length 0 ''l'' ''str'' 7 7 mixed_store") auto
  show ?thesis using listRPopLPush_loses[OF ok v(1) _ v(2) _ ex] by (simp add: ex)
qed

end
