(* ===== verification/Strings.thy ===== *)
theory Strings
  imports Keys
begin

text \<open>
  String values: \<open>get\<close>, \<open>setOpt\<close> and what is built on it, the counters, \<open>append\<close>,
  \<open>strlen\<close>, \<open>getex\<close> (\<open>zero/kv/store/kv_store.cc\<close>) and \<open>msetnx\<close>
  (\<open>kv_store_extras.cc\<close>). An operation made of two others, such as \<open>getset\<close>, takes the lock and
  reads the clock twice, and so has two clock arguments.
\<close>

subsection \<open>Operations\<close>

definition get :: "hasher \<Rightarrow> int \<Rightarrow> string \<Rightarrow> int64 \<Rightarrow> KvStore \<Rightarrow> KvStore \<times> (string + string option)" where
  "get h db key now st =
     (case openEntry h db key now st of
        (st1, None) \<Rightarrow> (st1, Inr None)
      | (st1, Some e) \<Rightarrow> if etype e \<noteq> String then (st1, Inl kWrongType) else (st1, Inr (Some (evalue e))))"

text \<open>The deadline that \<open>setOpt\<close> computes from its two optional arguments, negative when absent.\<close>

definition set_deadline :: "int64 \<Rightarrow> int64 \<Rightarrow> int64 \<Rightarrow> int64" where
  "set_deadline ex_seconds px_milliseconds now =
     (if ex_seconds \<ge> 0 then i64 (now + i64 (ex_seconds * 1000))
      else if px_milliseconds \<ge> 0 then i64 (now + px_milliseconds) else 0)"

definition clear_collections :: "Entry \<Rightarrow> Entry" where
  "clear_collections e =
     e\<lparr>ehash := [], elist := [], eset := [], ezset := [], estream := [], stream_last_ms := 0,
       stream_last_seq := 0, etype := String\<rparr>"

definition setOpt :: "hasher \<Rightarrow> (nat \<Rightarrow> nat) \<Rightarrow> int \<Rightarrow> string \<Rightarrow> string \<Rightarrow> bool \<Rightarrow> bool \<Rightarrow> int64 \<Rightarrow> int64 \<Rightarrow> int64 \<Rightarrow>
    KvStore \<Rightarrow> KvStore \<times> int" where
  "setOpt h rng db key value nx xx ex_seconds px_milliseconds now st =
     (case openEntry h db key now (evictIfNeededLocked rng now st) of
        (st1, existing) \<Rightarrow>
          if nx \<and> existing \<noteq> None then (st1, 0)
          else if xx \<and> existing = None then (st1, 0)
          else
            (let e = (case existing of
                        Some e \<Rightarrow> (if etype e \<noteq> String then clear_collections (e\<lparr>evalue := value\<rparr>) else e\<lparr>evalue := value\<rparr>)
                      | None \<Rightarrow> new_entry\<lparr>evalue := value\<rparr>)
             in (bumpWatchKey h db key
                   (putEntry h db key (e\<lparr>expire_at_ms := set_deadline ex_seconds px_milliseconds now\<rparr>) st1), 1)))"

definition set_kv :: "hasher \<Rightarrow> (nat \<Rightarrow> nat) \<Rightarrow> int \<Rightarrow> string \<Rightarrow> string \<Rightarrow> int64 \<Rightarrow> KvStore \<Rightarrow> KvStore" where
  "set_kv h rng db key value now st = fst (setOpt h rng db key value False False (- 1) (- 1) now st)"

definition setex :: "hasher \<Rightarrow> (nat \<Rightarrow> nat) \<Rightarrow> int \<Rightarrow> string \<Rightarrow> string \<Rightarrow> int64 \<Rightarrow> int64 \<Rightarrow> KvStore \<Rightarrow> KvStore" where
  "setex h rng db key value ttl_seconds now st =
     fst (setOpt h rng db key value False False ttl_seconds (- 1) now st)"

definition getset :: "hasher \<Rightarrow> (nat \<Rightarrow> nat) \<Rightarrow> int \<Rightarrow> string \<Rightarrow> string \<Rightarrow> int64 \<Rightarrow> int64 \<Rightarrow> KvStore \<Rightarrow>
    KvStore \<times> (string + string option)" where
  "getset h rng db key value now1 now2 st =
     (case get h db key now1 st of
        (st1, Inl err) \<Rightarrow> (st1, Inl err)
      | (st1, Inr old) \<Rightarrow> (set_kv h rng db key value now2 st1, Inr old))"

definition getdel :: "hasher \<Rightarrow> int \<Rightarrow> string \<Rightarrow> int64 \<Rightarrow> int64 \<Rightarrow> KvStore \<Rightarrow> KvStore \<times> (string + string option)" where
  "getdel h db key now1 now2 st =
     (case get h db key now1 st of
        (st1, Inl err) \<Rightarrow> (st1, Inl err)
      | (st1, Inr None) \<Rightarrow> (st1, Inr None)
      | (st1, Inr (Some v)) \<Rightarrow> (fst (del h db key now2 st1), Inr (Some v)))"

definition parseIntegerValue :: "string \<Rightarrow> int64 option" where
  "parseIntegerValue s =
     (if s = [] then None else (case strtoll s of (n, e) \<Rightarrow> if e \<noteq> length s then None else Some n))"

definition kNotInteger :: string where
  "kNotInteger = ''ERR value is not an integer or out of range''"

definition incrBy :: "hasher \<Rightarrow> int \<Rightarrow> string \<Rightarrow> int64 \<Rightarrow> int64 \<Rightarrow> KvStore \<Rightarrow> KvStore \<times> (string + int64)" where
  "incrBy h db key delta now st =
     (case openEntry h db key now st of
        (st1, None) \<Rightarrow>
          (bumpWatchKey h db key (putEntry h db key (new_entry\<lparr>evalue := to_string delta\<rparr>) st1), Inr delta)
      | (st1, Some e) \<Rightarrow>
          if etype e \<noteq> String then (st1, Inl kWrongType)
          else (case parseIntegerValue (evalue e) of
                  None \<Rightarrow> (st1, Inl kNotInteger)
                | Some cur \<Rightarrow>
                    (let next = i64 (cur + delta)
                     in (bumpWatchKey h db key (putEntry h db key (e\<lparr>evalue := to_string next\<rparr>) st1), Inr next))))"

definition append_kv :: "hasher \<Rightarrow> (nat \<Rightarrow> nat) \<Rightarrow> int \<Rightarrow> string \<Rightarrow> string \<Rightarrow> int64 \<Rightarrow> KvStore \<Rightarrow> KvStore \<times> (string + int64)" where
  "append_kv h rng db key value now st =
     (case openEntry h db key now (evictIfNeededLocked rng now st) of
        (st1, None) \<Rightarrow>
          (bumpWatchKey h db key (putEntry h db key (touchEntry now (new_entry\<lparr>evalue := value\<rparr>)) st1),
           Inr (int (length value)))
      | (st1, Some e) \<Rightarrow>
          if etype e \<noteq> String then (st1, Inl kWrongType)
          else (let v = evalue e @ value
                in (bumpWatchKey h db key (putEntry h db key (touchEntry now (e\<lparr>evalue := v\<rparr>)) st1),
                    Inr (int (length v)))))"

definition strlen :: "hasher \<Rightarrow> int \<Rightarrow> string \<Rightarrow> int64 \<Rightarrow> KvStore \<Rightarrow> KvStore \<times> (string + int64 option)" where
  "strlen h db key now st =
     (case openEntry h db key now st of
        (st1, None) \<Rightarrow> (st1, Inr None)
      | (st1, Some e) \<Rightarrow>
          if etype e \<noteq> String then (st1, Inl kWrongType)
          else (putEntry h db key (touchEntry now e) st1, Inr (Some (int (length (evalue e))))))"

definition getex :: "hasher \<Rightarrow> (nat \<Rightarrow> nat) \<Rightarrow> int \<Rightarrow> string \<Rightarrow> int64 \<Rightarrow> int64 \<Rightarrow> bool \<Rightarrow> int64 \<Rightarrow> KvStore \<Rightarrow>
    KvStore \<times> (string + string option)" where
  "getex h rng db key ex_seconds px_milliseconds pers now st =
     (case openEntry h db key now (evictIfNeededLocked rng now st) of
        (st1, None) \<Rightarrow> (st1, Inr None)
      | (st1, Some e) \<Rightarrow>
          if etype e \<noteq> String then (st1, Inl kWrongType)
          else (let at = (if pers then 0
                          else if ex_seconds \<ge> 0 \<or> px_milliseconds \<ge> 0 then set_deadline ex_seconds px_milliseconds now
                          else expire_at_ms e)
                in (bumpWatchKey h db key (putEntry h db key (touchEntry now (e\<lparr>expire_at_ms := at\<rparr>)) st1),
                    Inr (Some (evalue e)))))"

text \<open>\<open>MSETNX\<close>: a first loop that leaves at the first existing key, a second that assigns.\<close>

fun msetnx_check :: "hasher \<Rightarrow> int \<Rightarrow> int64 \<Rightarrow> (string \<times> string) list \<Rightarrow> KvStore \<Rightarrow> KvStore \<times> bool" where
  "msetnx_check h db now [] st = (st, True)"
| "msetnx_check h db now ((k, v) # ps) st =
     (case probeEntry h db k now st of
        (st1, Some _) \<Rightarrow> (st1, False)
      | (st1, None) \<Rightarrow> msetnx_check h db now ps st1)"

definition msetnx_entry :: "int64 \<Rightarrow> string \<Rightarrow> Entry \<Rightarrow> Entry" where
  "msetnx_entry now value e =
     touchEntry now (e\<lparr>etype := String, evalue := value, ehash := [], elist := [], eset := [], ezset := [],
       estream := [], stream_groups := [], expire_at_ms := 0\<rparr>)"

definition msetnx_put :: "hasher \<Rightarrow> int \<Rightarrow> int64 \<Rightarrow> string \<times> string \<Rightarrow> KvStore \<Rightarrow> KvStore" where
  "msetnx_put h db now p st =
     (case p of (k, v) \<Rightarrow>
        bumpWatchKey h db k
          (putEntry h db k
            (msetnx_entry now v (umap_get new_entry k (db_at (getShard h st k) db))) st))"

definition msetnx :: "hasher \<Rightarrow> int \<Rightarrow> (string \<times> string) list \<Rightarrow> int64 \<Rightarrow> KvStore \<Rightarrow> KvStore \<times> int" where
  "msetnx h db pairs now st =
     (case msetnx_check h db now pairs st of
        (st1, False) \<Rightarrow> (st1, 0)
      | (st1, True) \<Rightarrow> (fold (msetnx_put h db now) pairs st1, 1))"

subsection \<open>The invariant\<close>

lemma wf_entry_string:
  "wf_entry e \<Longrightarrow> etype e = String \<Longrightarrow> wf_entry (e\<lparr>evalue := v\<rparr>)"
  "wf_entry (clear_collections e)" "wf_entry (msetnx_entry now v e)"
  by (simp_all add: wf_entry_def clear_collections_def msetnx_entry_def touchEntry_def)

lemma wf_string_ops [wf_rules]:
  assumes "wf_store h st"
  shows "wf_store h (fst (get h db key now st))" "wf_store h (fst (incrBy h db key delta now st))"
    "wf_store h (fst (strlen h db key now st))"
    "wf_store h (fst (append_kv h rng db key v now st))"
    "wf_store h (fst (getex h rng db key ex px pers now st))"
  using assms
  by (auto simp: get_def incrBy_def strlen_def append_kv_def getex_def Let_def
      intro!: wf_rules wf_entry_string intro: wf_live wf_live[OF wf_evict] split: option.split)

lemma wf_setOpt [wf_rules]:
  assumes "wf_store h st"
  shows "wf_store h (fst (setOpt h rng db key v nx xx ex px now st))"
  using assms
  by (auto simp: setOpt_def Let_def intro!: wf_rules wf_entry_string intro: wf_live wf_live[OF wf_evict] split: option.split)

lemma wf_set_commands [wf_rules]:
  assumes "wf_store h st"
  shows "wf_store h (set_kv h rng db key v now st)" "wf_store h (setex h rng db key v s now st)"
    "wf_store h (fst (getset h rng db key v now1 now2 st))" "wf_store h (fst (getdel h db key now1 now2 st))"
  using assms wf_string_ops(1)[OF assms, of db key now1]
  by (auto simp: set_kv_def setex_def getset_def getdel_def case_prod_unfold intro!: wf_setOpt wf_del
      split: sum.split option.split)

lemma msetnx_check_spec:
  "wf_store h st \<Longrightarrow> wf_store h (fst (msetnx_check h db now ps st)) \<and>
     (snd (msetnx_check h db now ps st) \<longleftrightarrow> (\<forall>k \<in> fst ` set ps. live h now st db k = None)) \<and>
     (\<forall>db' k. live h now (fst (msetnx_check h db now ps st)) db' k = live h now st db' k)"
proof (induction ps arbitrary: st)
  case (Cons p ps)
  obtain k v where p: "p = (k, v)" by (cases p)
  show ?case
    using Cons.IH[of "fst (probeEntry h db k now st)"] Cons.prems wf_shaped[OF Cons.prems]
    by (cases "live h now st db k") (auto simp: p wf_rules store_simps)
qed simp

lemma msetnx_put_spec:
  assumes "wf_store h st"
  shows "wf_store h (msetnx_put h db now (k, v) st)"
    "live h now (msetnx_put h db now (k, v) st) db' k' =
       (if db' = db \<and> k' = k then Some (msetnx_entry now v (umap_get new_entry k (db_at (getShard h st k) db)))
        else live h now st db' k')"
  using assms wf_shaped[OF assms]
  by (auto simp: msetnx_put_def store_simps isExpired_def msetnx_entry_def touchEntry_def
      intro!: wf_rules wf_entry_string(3)[unfolded msetnx_entry_def touchEntry_def])

lemma msetnx_fold_spec:
  assumes "wf_store h st"
  shows "wf_store h (fold (msetnx_put h db now) ps st) \<and>
    (\<forall>db' k. if db' = db \<and> k \<in> fst ` set ps
       then map_option evalue (live h now (fold (msetnx_put h db now) ps st) db' k) = map_of (rev ps) k \<and>
            map_option etype (live h now (fold (msetnx_put h db now) ps st) db' k) = Some String
       else live h now (fold (msetnx_put h db now) ps st) db' k = live h now st db' k)"
  using assms
proof (induction ps arbitrary: st rule: rev_induct)
  case (snoc p ps)
  obtain k v where p: "p = (k, v)" by (cases p)
  let ?s = "fold (msetnx_put h db now) ps st"
  note ih = snoc.IH[OF snoc.prems]
  have "evalue (msetnx_entry now v e) = v" "etype (msetnx_entry now v e) = String" for e
    by (simp_all add: msetnx_entry_def touchEntry_def)
  then have "if db' = db \<and> k' \<in> fst ` set (ps @ [p])
      then map_option evalue (live h now (msetnx_put h db now p ?s) db' k') = map_of (rev (ps @ [p])) k' \<and>
           map_option etype (live h now (msetnx_put h db now p ?s) db' k') = Some String
      else live h now (msetnx_put h db now p ?s) db' k' = live h now st db' k'" for db' k'
    using ih[THEN conjunct2, rule_format, of db' k'] unfolding p msetnx_put_spec(2)[OF conjunct1[OF ih]]
    by (cases "k' = k"; cases "k' \<in> fst ` set ps"; cases "db' = db") simp_all
  moreover have "fold (msetnx_put h db now) (ps @ [p]) st = msetnx_put h db now p ?s" by simp
  moreover have "wf_store h (msetnx_put h db now p ?s)"
    unfolding p by (rule msetnx_put_spec(1)[OF conjunct1[OF ih]])
  ultimately show ?case by presburger
qed simp

lemma wf_msetnx [wf_rules]: "wf_store h st \<Longrightarrow> wf_store h (fst (msetnx h db ps now st))"
  using msetnx_check_spec[of h st db now ps] msetnx_fold_spec[of h "fst (msetnx_check h db now ps st)" db now ps]
  by (auto simp: msetnx_def case_prod_unfold split: bool.split)

subsection \<open>Setting and reading\<close>

lemma snd_get:
  "snd (get h db key now st) =
     (case live h now st db key of None \<Rightarrow> Inr None
      | Some e \<Rightarrow> if etype e = String then Inr (Some (evalue e)) else Inl kWrongType)"
  by (simp add: get_def split: option.split)

lemma fst_get: "fst (get h db key now st) = fst (openEntry h db key now st)"
  by (simp add: get_def split: option.split)

text \<open>C18: \<open>SET\<close> with all its options. It first evicts; then \<open>NX\<close> with a visible key and \<open>XX\<close>
  without one return 0 and change nothing visible; otherwise it returns 1, any later \<open>GET\<close> up to the deadline
  returns exactly the value (for ever when no expiry is given, whatever the key held before and of
  whatever type), every other key is as eviction left it, and a watched key's token has changed.\<close>

theorem setOpt_correct:
  assumes "wf_store h st" "s0 = evictIfNeededLocked rng now st" "d = set_deadline ex px now"
    and "setOpt h rng db key value nx xx ex px now st = (st', r)"
  shows "wf_store h st' \<and>
    (if nx \<and> live h now s0 db key \<noteq> None \<or> xx \<and> live h now s0 db key = None
     then r = 0 \<and> (\<forall>db' k. live h now st' db' k = live h now s0 db' k)
     else r = 1 \<and>
       (\<forall>t. d \<le> 0 \<or> t < d \<longrightarrow> snd (get h db key t st') = Inr (Some value)) \<and>
       (\<forall>t. 0 < d \<and> d \<le> t \<longrightarrow> snd (get h db key t st') = Inr None) \<and>
       (\<forall>db' k. (db', k) \<noteq> (db, key) \<longrightarrow> live h now st' db' k = live h now s0 db' k) \<and>
       (db_index db \<and> watched h st key \<longrightarrow> token h st' db key \<noteq> token h s0 db key))"
proof -
  have wf0: "wf_store h s0" using assms(1,2) by (simp add: wf_rules)
  note sh = wf_shaped[OF wf0]
  have wf': "wf_store h st'" using wf_setOpt[OF assms(1), of rng db key "value" nx xx ex px now] assms(4) by simp
  show ?thesis
  proof (cases "nx \<and> live h now s0 db key \<noteq> None \<or> xx \<and> live h now s0 db key = None")
    case True
    then show ?thesis using assms(4) sh wf' by (auto simp: setOpt_def assms(2) [symmetric] store_simps)
  next
    case False
    define e where "e = (case live h now s0 db key of
        Some e \<Rightarrow> (if etype e \<noteq> String then clear_collections (e\<lparr>evalue := value\<rparr>) else e\<lparr>evalue := value\<rparr>)
      | None \<Rightarrow> new_entry\<lparr>evalue := value\<rparr>)"
    let ?s1 = "putEntry h db key (e\<lparr>expire_at_ms := d\<rparr>) (fst (openEntry h db key now s0))"
    have st': "st' = bumpWatchKey h db key ?s1" and r: "r = 1"
      using assms(4) False by (auto simp: setOpt_def assms(2,3) [symmetric] e_def Let_def split: if_splits)
    have e: "etype e = String" "evalue e = value"
      by (simp_all add: e_def clear_collections_def split: option.split)
    have "etype e = String \<Longrightarrow> wf_entry e"
      using wf_live[OF wf0] by (auto simp: e_def wf_entry_string split: option.split)
    then have "wf_store h ?s1" using wf0 e(1) by (auto intro!: wf_rules)
    moreover have "watched h ?s1 key = watched h st key"
      using sh watched_evict[OF assms(1)] by (simp add: store_simps assms(2))
    ultimately have "db_index db \<and> watched h st key \<longrightarrow> token h st' db key \<noteq> token h s0 db key"
      using token_bump_same[of h ?s1 db key] sh by (simp add: st' store_simps)
    then show ?thesis using False r wf' sh e
      by (auto simp: snd_get st' store_simps isExpired_def)
  qed
qed

theorem setOpt_correct_witness:
  "let (st', r) = setOpt demo_hash (\<lambda>_. 0) 1 ''list'' ''now a string'' False True 3 (- 1) 1000 demo_store in
   r = 1 \<and> snd (get demo_hash 1 ''list'' 3999 st') = Inr (Some ''now a string'') \<and>
   snd (get demo_hash 1 ''list'' 4000 st') = Inr None"
proof -
  obtain st' r where ex: "setOpt demo_hash (\<lambda>_. 0) 1 ''list'' ''now a string'' False True 3 (- 1) 1000 demo_store = (st', r)"
    by force
  have "live demo_hash 1000 (evictIfNeededLocked (\<lambda>_. 0) 1000 demo_store) 1 ''list'' \<noteq> None" by code_simp
  moreover have "set_deadline 3 (- 1) 1000 = 4000" by code_simp
  ultimately show ?thesis using setOpt_correct[OF wf_demo_store refl refl ex] by (simp add: ex)
qed

text \<open>Under a least-recently-used policy a key that \<open>SET\<close> has just created looks older than every
  key that was ever touched: \<open>setOpt\<close> never records an access, so the entry it creates has \<open>lru_ms\<close> 0.
  No later \<open>GET\<close> changes that.\<close>

theorem set_never_touches:
  assumes "wf_store h st" "live h now (evictIfNeededLocked rng now st) db key = None"
  shows "map_option lru_ms (live h t (fst (get h db key t (set_kv h rng db key value now st))) db key) = Some 0"
  using assms wf_shaped[OF wf_evict[OF assms(1), of rng now]]
  by (simp add: set_kv_def setOpt_def Let_def fst_get store_simps isExpired_def set_deadline_def)

theorem set_never_touches_witness:
  "map_option lru_ms (live demo_hash 2000 (fst (get demo_hash 0 ''new'' 2000
     (set_kv demo_hash (\<lambda>_. 0) 0 ''new'' ''v'' 1000 demo_store))) 0 ''new'') = Some 0"
proof -
  have "live demo_hash 1000 (evictIfNeededLocked (\<lambda>_. 0) 1000 demo_store) 0 ''new'' = None" by code_simp
  then show ?thesis by (rule set_never_touches[OF wf_demo_store])
qed

text \<open>C29: \<open>MSETNX\<close> is all or nothing: it returns 1 exactly when none of its keys is visible, and then
  every key holds the last value given for it as a string, and no other key has changed; when it returns 0
  nothing visible has changed.\<close>

theorem msetnx_atomic:
  assumes "wf_store h st" "msetnx h db ps now st = (st', r)"
  shows "wf_store h st' \<and> r = (if \<forall>k \<in> fst ` set ps. live h now st db k = None then 1 else 0) \<and>
    (\<forall>db' k. if r = 1 \<and> db' = db \<and> k \<in> fst ` set ps
       then (\<exists>v. map_of (rev ps) k = Some v \<and> snd (get h db k now st') = Inr (Some v))
       else live h now st' db' k = live h now st db' k)"
proof -
  let ?c = "msetnx_check h db now ps st"
  note chk = msetnx_check_spec[OF assms(1), of db now ps]
  show ?thesis
  proof (cases "snd ?c")
    case False
    then have "st' = fst ?c" "r = 0" using assms(2) by (auto simp: msetnx_def case_prod_unfold)
    then show ?thesis using chk False by auto
  next
    case True
    then have st': "st' = fold (msetnx_put h db now) ps (fst ?c)" and r: "r = 1"
      using assms(2) by (auto simp: msetnx_def case_prod_unfold)
    note res = msetnx_fold_spec[OF conjunct1[OF chk], of db now ps, folded st']
    have "\<exists>v. map_of (rev ps) k = Some v \<and> snd (get h db k now st') = Inr (Some v)" if "k \<in> fst ` set ps" for k
      using res[THEN conjunct2, rule_format, of db k] that
      by (cases "live h now st' db k") (auto simp: snd_get dest: sym)
    moreover have "live h now st' db' k = live h now st db' k" if "\<not> (db' = db \<and> k \<in> fst ` set ps)" for db' k
      using res[THEN conjunct2, rule_format, of db' k] chk that by auto
    ultimately show ?thesis using True chk res r by auto
  qed
qed

theorem msetnx_atomic_witness:
  "let (st', r) = msetnx demo_hash 0 [(''old'', ''1''), (''fresh'', ''2'')] 7 demo_store in
   r = 1 \<and> snd (get demo_hash 0 ''old'' 7 st') = Inr (Some ''1'')"
proof -
  obtain st' r where ex: "msetnx demo_hash 0 [(''old'', ''1''), (''fresh'', ''2'')] 7 demo_store = (st', r)" by force
  have lv: "live demo_hash 7 demo_store 0 ''old'' = None" "live demo_hash 7 demo_store 0 ''fresh'' = None" by code_simp+
  note res = msetnx_atomic[OF wf_demo_store ex]
  have "r = 1" using conjunct1[OF conjunct2[OF res]] lv by simp
  moreover from this have "snd (get demo_hash 0 ''old'' 7 st') = Inr (Some ''1'')"
    using spec[OF spec[OF conjunct2[OF conjunct2[OF res]], of 0], of "''old''"] by simp
  ultimately show ?thesis by (simp add: ex)
qed

subsection \<open>Counters\<close>

lemma to_string_not_Nil [simp]: "to_string n \<noteq> []"
  by (simp add: to_string_def)

lemma parseIntegerValue_to_string [simp]: "in_i64 n \<Longrightarrow> parseIntegerValue (to_string n) = Some n"
  by (simp add: parseIntegerValue_def strtoll_to_string)

lemma parseIntegerValue_range: "parseIntegerValue s = Some n \<Longrightarrow> in_i64 n"
  using strtoll_range[of s] by (auto simp: parseIntegerValue_def split: if_splits prod.splits)

text \<open>C27: \<open>INCRBY\<close> on every branch: a missing key counts from 0, a key of another type and a string that
  is not a number are errors that change nothing visible, and otherwise the result is the 64-bit
  (wrap-around) sum, which a later \<open>INCRBY\<close> reads back from the stored text; the time to live and all
  other keys are unchanged.\<close>

theorem incrBy_correct:
  assumes "wf_store h st" "in_i64 delta" "incrBy h db key delta now st = (st', r)"
  shows "wf_store h st' \<and>
    (let unchanged = (\<forall>db' k. live h now st' db' k = live h now st db' k);
         counted = (\<lambda>n. r = Inr n \<and> in_i64 n \<and>
           live h now st' = (live h now st)(db := (live h now st db)(key \<mapsto>
             (case live h now st db key of None \<Rightarrow> new_entry | Some e \<Rightarrow> e)\<lparr>evalue := to_string n\<rparr>)) \<and>
           (\<forall>d. snd (incrBy h db key d now st') = Inr (i64 (n + d))))
     in case live h now st db key of
          None \<Rightarrow> counted delta
        | Some e \<Rightarrow>
            if etype e \<noteq> String then r = Inl kWrongType \<and> unchanged
            else (case parseIntegerValue (evalue e) of
                    None \<Rightarrow> r = Inl kNotInteger \<and> unchanged
                  | Some n \<Rightarrow> counted (i64 (n + delta))))"
proof -
  have st': "st' = fst (incrBy h db key delta now st)" "r = snd (incrBy h db key delta now st)"
    using assms(3) by simp_all
  note sh = wf_shaped[OF assms(1)]
  have ne: "\<not> isExpired (e\<lparr>evalue := v\<rparr>) now" if "live h now st db key = Some e" for e v
    using live_not_expired[OF that] by (simp add: isExpired_def)
  have again: "snd (incrBy h db key d now s) = Inr (i64 (n + d))"
    if "live h now s db key = Some e" "etype e = String" "evalue e = to_string n" "in_i64 n" for s e n d
    using that by (simp add: incrBy_def Let_def)
  show ?thesis
    unfolding st' using sh assms(2) ne
    by (intro conjI wf_string_ops[OF assms(1)])
       (auto simp: incrBy_def[of h db key delta now st] Let_def store_simps fun_eq_iff isExpired_def
         intro!: again split: option.split)
qed

theorem incrBy_correct_witness:
  "let (st', r) = incrBy demo_hash 0 ''key'' 5 7 demo_store in
   r = Inr 15 \<and> snd (incrBy demo_hash 0 ''key'' (- 20) 7 st') = Inr (- 5)"
proof -
  have lv: "live demo_hash 7 demo_store 0 ''key'' = Some (new_entry\<lparr>evalue := ''10''\<rparr>)" by code_simp
  obtain st' r where ex: "incrBy demo_hash 0 ''key'' 5 7 demo_store = (st', r)" by force
  have "parseIntegerValue ''10'' = Some 10" "i64 (10 + 5) = 15" "i64 (15 + - 20) = - 5" by code_simp+
  then show ?thesis using incrBy_correct[OF wf_demo_store _ ex] lv by (simp add: Let_def ex in_i64_def)
qed

lemma strtoll_to_string_any:
  "strtoll (to_string n) = (max INT64_MIN (min INT64_MAX n), length (to_string n))"
proof (cases "n < 0")
  case True
  then show ?thesis by (simp add: strtoll_def to_string_def split_sign_def)
next
  case False
  then show ?thesis by (simp add: strtoll_def to_string_def no_space_dec_nat split_sign_dec_nat)
qed

text \<open>The integer parser never rejects a number for being too large, although the error text of its
  callers says "or out of range": the decimal text of any integer is accepted, and stands for the nearest 64-bit
  integer.\<close>

theorem parseIntegerValue_saturates:
  "parseIntegerValue (to_string n) = Some (max INT64_MIN (min INT64_MAX n))"
  by (simp add: parseIntegerValue_def strtoll_to_string_any)

subsection \<open>Appending, exchanging, taking\<close>

lemma append_get:
  assumes "wf_store h st" "s0 = evictIfNeededLocked rng now st"
  shows "snd (append_kv h rng db key v now st) = Inl kWrongType \<and> snd (get h db key now s0) = Inl kWrongType \<or>
    (\<exists>old. snd (get h db key now s0) = Inr old \<and>
       snd (append_kv h rng db key v now st) = Inr (int (length (case old of None \<Rightarrow> v | Some u \<Rightarrow> u @ v))) \<and>
       snd (get h db key now (fst (append_kv h rng db key v now st))) =
         Inr (Some (case old of None \<Rightarrow> v | Some u \<Rightarrow> u @ v)))"
proof -
  have sh: "shaped s0" using wf_evict[OF assms(1)] assms(2) by auto
  show ?thesis
  proof (cases "live h now s0 db key")
    case None
    then show ?thesis using sh
      by (simp add: append_kv_def assms(2) [symmetric] snd_get store_simps isExpired_def touchEntry_def)
  next
    case (Some e)
    then have "\<not> isExpired e now" by (rule live_not_expired)
    then show ?thesis using sh Some
      by (auto simp: append_kv_def assms(2) [symmetric] snd_get store_simps isExpired_def touchEntry_def Let_def)
  qed
qed

lemma getdel_get:
  assumes "wf_store h st"
  shows "snd (getdel h db key now now st) = snd (get h db key now st) \<and>
    ((\<exists>v. snd (get h db key now st) = Inr v) \<longrightarrow> live h now (fst (getdel h db key now now st)) db key = None)"
proof -
  note wf1 = wf_openEntry[OF assms, of db key now]
  have gone: "live h now (fst (del h db key now (fst (openEntry h db key now st)))) db key = None"
    using delMany_loop_spec[OF wf1 surjective_pairing, of db now "[key]" 0]
    by (simp add: del_def delMany_def case_prod_unfold)
  show ?thesis
    using gone wf_shaped[OF assms]
    by (cases "live h now st db key") (auto simp: getdel_def get_def store_simps)
qed

end
