(* ===== verification/Hashes.thy ===== *)
theory Hashes
  imports Strings
begin

text \<open>
  Hash values: \<open>hset\<close> to \<open>hincrby\<close> and \<open>hsetnx\<close> (\<open>zero/kv/store/kv_store.cc\<close>),
  \<open>hsetFields\<close> and \<open>hscan\<close> (\<open>kv_store_extras.cc\<close>). A hash is an association list whose order is
  the iteration order of the container.
\<close>

subsection \<open>Operations\<close>

definition hset :: "hasher \<Rightarrow> int \<Rightarrow> string \<Rightarrow> string \<Rightarrow> string \<Rightarrow> int64 \<Rightarrow> KvStore \<Rightarrow> KvStore \<times> (string + int64)" where
  "hset h db key field value now st =
     (case openEntry h db key now st of
        (st1, Some e) \<Rightarrow>
          if etype e \<noteq> Hash then (st1, Inl kWrongType)
          else (bumpWatchKey h db key (putEntry h db key (e\<lparr>ehash := AList.update field value (ehash e)\<rparr>) st1),
                Inr (if map_of (ehash e) field = None then 1 else 0))
      | (st1, None) \<Rightarrow>
          (bumpWatchKey h db key
             (putEntry h db key (new_entry\<lparr>etype := Hash, ehash := AList.update field value []\<rparr>) st1), Inr 1))"

definition hget :: "hasher \<Rightarrow> int \<Rightarrow> string \<Rightarrow> string \<Rightarrow> int64 \<Rightarrow> KvStore \<Rightarrow> KvStore \<times> (string + string option)" where
  "hget h db key field now st =
     (case openEntry h db key now st of
        (st1, None) \<Rightarrow> (st1, Inr None)
      | (st1, Some e) \<Rightarrow> if etype e \<noteq> Hash then (st1, Inl kWrongType) else (st1, Inr (map_of (ehash e) field)))"

definition hdel :: "hasher \<Rightarrow> int \<Rightarrow> string \<Rightarrow> string \<Rightarrow> int64 \<Rightarrow> KvStore \<Rightarrow> KvStore \<times> (string + int64)" where
  "hdel h db key field now st =
     (case openEntry h db key now st of
        (st1, None) \<Rightarrow> (st1, Inr 0)
      | (st1, Some e) \<Rightarrow>
          if etype e \<noteq> Hash then (st1, Inl kWrongType)
          else (let rest = AList.delete field (ehash e);
                    removed = (if map_of (ehash e) field = None then 0 else 1);
                    st2 = (if rest = [] then eraseEntry h db key st1
                           else putEntry h db key (e\<lparr>ehash := rest\<rparr>) st1)
                in (bumpWatchKey h db key st2, Inr removed)))"

definition hexists :: "hasher \<Rightarrow> int \<Rightarrow> string \<Rightarrow> string \<Rightarrow> int64 \<Rightarrow> KvStore \<Rightarrow> KvStore \<times> (string + bool)" where
  "hexists h db key field now st =
     (case openEntry h db key now st of
        (st1, None) \<Rightarrow> (st1, Inr False)
      | (st1, Some e) \<Rightarrow>
          if etype e \<noteq> Hash then (st1, Inl kWrongType) else (st1, Inr (map_of (ehash e) field \<noteq> None)))"

definition hlen :: "hasher \<Rightarrow> int \<Rightarrow> string \<Rightarrow> int64 \<Rightarrow> KvStore \<Rightarrow> KvStore \<times> (string + int64 option)" where
  "hlen h db key now st =
     (case openEntry h db key now st of
        (st1, None) \<Rightarrow> (st1, Inr None)
      | (st1, Some e) \<Rightarrow>
          if etype e \<noteq> Hash then (st1, Inl kWrongType) else (st1, Inr (Some (int (length (ehash e))))))"

definition hgetall :: "hasher \<Rightarrow> int \<Rightarrow> string \<Rightarrow> int64 \<Rightarrow> KvStore \<Rightarrow> KvStore \<times> (string + (string \<times> string) list option)" where
  "hgetall h db key now st =
     (case openEntry h db key now st of
        (st1, None) \<Rightarrow> (st1, Inr None)
      | (st1, Some e) \<Rightarrow>
          if etype e \<noteq> Hash then (st1, Inl kWrongType) else (st1, Inr (Some (sort_key fst (ehash e)))))"

text \<open>The loops over fields take one clock reading per call of \<open>hset\<close> or \<open>hget\<close>.\<close>

fun hmset :: "hasher \<Rightarrow> int \<Rightarrow> string \<Rightarrow> (string \<times> string) list \<Rightarrow> (nat \<Rightarrow> int64) \<Rightarrow> KvStore \<Rightarrow> KvStore \<times> (string + unit)" where
  "hmset h db key [] clock st = (st, Inr ())"
| "hmset h db key ((f, v) # fs) clock st =
     (case hset h db key f v (clock (length fs)) st of
        (st1, Inl err) \<Rightarrow> (st1, Inl err)
      | (st1, Inr _) \<Rightarrow> hmset h db key fs clock st1)"

fun hmget :: "hasher \<Rightarrow> int \<Rightarrow> string \<Rightarrow> string list \<Rightarrow> (nat \<Rightarrow> int64) \<Rightarrow> KvStore \<Rightarrow> KvStore \<times> (string + string option list)" where
  "hmget h db key [] clock st = (st, Inr [])"
| "hmget h db key (f # fs) clock st =
     (case hget h db key f (clock (length fs)) st of
        (st1, Inl err) \<Rightarrow> (st1, Inl err)
      | (st1, Inr v) \<Rightarrow> (case hmget h db key fs clock st1 of
                          (st2, Inl err) \<Rightarrow> (st2, Inl err)
                        | (st2, Inr vs) \<Rightarrow> (st2, Inr (v # vs))))"

definition hkeys :: "hasher \<Rightarrow> int \<Rightarrow> string \<Rightarrow> int64 \<Rightarrow> KvStore \<Rightarrow> KvStore \<times> (string + string list option)" where
  "hkeys h db key now st =
     (case hgetall h db key now st of
        (st1, Inl err) \<Rightarrow> (st1, Inl err)
      | (st1, Inr found) \<Rightarrow> (st1, Inr (map_option (map fst) found)))"

definition hvals :: "hasher \<Rightarrow> int \<Rightarrow> string \<Rightarrow> int64 \<Rightarrow> KvStore \<Rightarrow> KvStore \<times> (string + string list option)" where
  "hvals h db key now st =
     (case hgetall h db key now st of
        (st1, Inl err) \<Rightarrow> (st1, Inl err)
      | (st1, Inr found) \<Rightarrow> (st1, Inr (map_option (map snd) found)))"

definition hincrby :: "hasher \<Rightarrow> (nat \<Rightarrow> nat) \<Rightarrow> int \<Rightarrow> string \<Rightarrow> string \<Rightarrow> int64 \<Rightarrow> int64 \<Rightarrow> KvStore \<Rightarrow> KvStore \<times> (string + int64)" where
  "hincrby h rng db key field delta now st =
     (case openEntry h db key now (evictIfNeededLocked rng now st) of
        (st1, None) \<Rightarrow>
          (bumpWatchKey h db key
             (putEntry h db key
               (touchEntry now (new_entry\<lparr>etype := Hash, ehash := AList.update field (to_string delta) []\<rparr>)) st1), Inr delta)
      | (st1, Some e) \<Rightarrow>
          if etype e \<noteq> Hash then (st1, Inl kWrongType)
          else (case (case map_of (ehash e) field of None \<Rightarrow> Some 0 | Some s \<Rightarrow> parseIntegerValue s) of
                  None \<Rightarrow> (st1, Inl ''ERR hash value is not an integer'')
                | Some cur \<Rightarrow>
                    (let next = i64 (cur + delta)
                     in (bumpWatchKey h db key
                           (putEntry h db key
                             (touchEntry now (e\<lparr>ehash := AList.update field (to_string next) (ehash e)\<rparr>)) st1),
                         Inr next))))"

text \<open>\<open>hsetnx\<close> looks first, under a lock of its own and without purging, and then calls \<open>hset\<close>.\<close>

definition hsetnx :: "hasher \<Rightarrow> int \<Rightarrow> string \<Rightarrow> string \<Rightarrow> string \<Rightarrow> int64 \<Rightarrow> int64 \<Rightarrow> KvStore \<Rightarrow> KvStore \<times> (string + int)" where
  "hsetnx h db key field value now1 now2 st =
     (case peek h st db key of
        Some e \<Rightarrow>
          if \<not> isExpired e now1 \<and> etype e = Hash \<and> map_of (ehash e) field \<noteq> None then (st, Inr 0)
          else (case hset h db key field value now2 st of
                  (st1, Inl err) \<Rightarrow> (st1, Inl err) | (st1, Inr _) \<Rightarrow> (st1, Inr 1))
      | None \<Rightarrow> (case hset h db key field value now2 st of
                  (st1, Inl err) \<Rightarrow> (st1, Inl err) | (st1, Inr _) \<Rightarrow> (st1, Inr 1)))"

fun put_fields :: "(string \<times> string) list \<Rightarrow> (string, string) umap \<Rightarrow> int64 \<Rightarrow> (string, string) umap \<times> int64" where
  "put_fields [] m added = (m, added)"
| "put_fields ((f, v) # fs) m added =
     put_fields fs (AList.update f v m) (if map_of m f = None then added + 1 else added)"

definition hsetFields :: "hasher \<Rightarrow> int \<Rightarrow> string \<Rightarrow> (string \<times> string) list \<Rightarrow> int64 \<Rightarrow> KvStore \<Rightarrow> KvStore \<times> (string + int64)" where
  "hsetFields h db key fs now st =
     (if fs = [] then (st, Inr 0)
      else case openEntry h db key now st of
        (st1, existing) \<Rightarrow>
          if (case existing of None \<Rightarrow> False | Some e \<Rightarrow> etype e \<noteq> Hash) then (st1, Inl kWrongType)
          else (let e = (case existing of None \<Rightarrow> new_entry\<lparr>etype := Hash\<rparr> | Some e \<Rightarrow> e);
                    (m, added) = put_fields fs (ehash e) 0
                in (bumpWatchKey h db key (putEntry h db key (touchEntry now (e\<lparr>ehash := m\<rparr>)) st1), Inr added)))"

text \<open>The paging shared by \<open>HSCAN\<close>, \<open>SSCAN\<close> and \<open>ZSCAN\<close>, over a flat list of replies.\<close>

definition scanFlatItems :: "string list \<Rightarrow> uint64 \<Rightarrow> int \<Rightarrow> uint64 \<times> string list" where
  "scanFlatItems items cursor n =
     (let cnt = (if n \<le> 0 then 10 else nat n)
      in if unat cursor \<ge> length items then (0, [])
         else (let e = min (unat cursor + cnt) (length items)
               in (if e \<ge> length items then 0 else of_nat e, drop (unat cursor) (take e items))))"

definition hscan :: "hasher \<Rightarrow> int \<Rightarrow> string \<Rightarrow> uint64 \<Rightarrow> string \<Rightarrow> int \<Rightarrow> int64 \<Rightarrow> KvStore \<Rightarrow>
    KvStore \<times> (string + uint64 \<times> string list)" where
  "hscan h db key cursor pattern n now st =
     (case openEntry h db key now st of
        (st1, None) \<Rightarrow> (st1, Inr (0, []))
      | (st1, Some e) \<Rightarrow>
          if etype e \<noteq> Hash then (st1, Inl kWrongType)
          else (let names = sort (filter (matchGlob pattern) (map fst (ehash e)))
                in (st1, Inr (scanFlatItems (concat (map (\<lambda>f. [f, umap_get [] f (ehash e)]) names)) cursor n))))"

subsection \<open>The invariant\<close>

lemma wf_entry_hash:
  "wf_entry e \<Longrightarrow> etype e = Hash \<Longrightarrow> m \<noteq> [] \<Longrightarrow> distinct (map fst m) \<Longrightarrow> wf_entry (e\<lparr>ehash := m\<rparr>)"
  "m \<noteq> [] \<Longrightarrow> distinct (map fst m) \<Longrightarrow> wf_entry (new_entry\<lparr>etype := Hash, ehash := m\<rparr>)"
  by (simp_all add: wf_entry_def new_entry_def)

lemma distinct_keys_update: "distinct (map fst m) \<Longrightarrow> distinct (map fst (AList.update k v m))"
  by (rule distinct_update)

lemma distinct_keys_delete: "distinct (map fst m) \<Longrightarrow> distinct (map fst (AList.delete k m))"
  by (rule distinct_delete)

lemma wf_hash_distinct: "wf_entry e \<Longrightarrow> distinct (map fst (ehash e))"
  by (simp add: wf_entry_def)

lemmas wf_hash_intros = wf_rules wf_entry_hash distinct_keys_update distinct_keys_delete

lemma wf_hash_ops [wf_rules]:
  assumes "wf_store h st"
  shows "wf_store h (fst (hset h db key field v now st))" "wf_store h (fst (hget h db key field now st))"
    "wf_store h (fst (hdel h db key field now st))" "wf_store h (fst (hexists h db key field now st))"
    "wf_store h (fst (hlen h db key now st))" "wf_store h (fst (hgetall h db key now st))"
    "wf_store h (fst (hscan h db key c p n now st))"
  using assms
  by (auto simp: hset_def hget_def hdel_def hexists_def hlen_def hgetall_def hscan_def Let_def
      intro!: wf_hash_intros intro: wf_live wf_hash_distinct[OF wf_live] split: option.split)

lemma put_fields_spec:
  "map_of (fst (put_fields fs m a)) = map_of m ++ map_of (rev fs)"
  "distinct (map fst m) \<Longrightarrow> distinct (map fst (fst (put_fields fs m a)))"
  "fs \<noteq> [] \<or> m \<noteq> [] \<Longrightarrow> fst (put_fields fs m a) \<noteq> []"
  by (induction fs m a rule: put_fields.induct) (auto simp: distinct_update)

lemma wf_hash_ops2 [wf_rules]:
  assumes "wf_store h st"
  shows "wf_store h (fst (hkeys h db key now st))" "wf_store h (fst (hvals h db key now st))"
    "wf_store h (fst (hincrby h rng db key field delta now st))"
    "wf_store h (fst (hsetnx h db key field v now1 now2 st))"
  using assms
  by (auto simp: hkeys_def hvals_def hincrby_def hsetnx_def Let_def case_prod_unfold
      intro!: wf_hash_intros wf_hash_ops intro: wf_live wf_live[OF wf_evict] wf_hash_distinct[OF wf_live]
        wf_hash_distinct[OF wf_live[OF wf_evict]]
      split: option.split sum.split)

lemma wf_hsetFields [wf_rules]:
  assumes "wf_store h st"
  shows "wf_store h (fst (hsetFields h db key fs now st))"
  using assms
  by (auto simp: hsetFields_def Let_def case_prod_unfold
      intro!: wf_hash_intros put_fields_spec(2,3) intro: wf_live wf_hash_distinct[OF wf_live]
      split: option.split)

lemma wf_hmset [wf_rules]: "wf_store h st \<Longrightarrow> wf_store h (fst (hmset h db key fs clock st))"
proof (induction fs arbitrary: st)
  case (Cons p fs)
  obtain f v where p: "p = (f, v)" by (cases p)
  show ?case using Cons.IH[OF wf_hash_ops(1)[OF Cons.prems, of db key f v "clock (length fs)"]]
      wf_hash_ops(1)[OF Cons.prems, of db key f v "clock (length fs)"]
    by (auto simp: p case_prod_unfold split: sum.split)
qed simp

lemma wf_hmget [wf_rules]: "wf_store h st \<Longrightarrow> wf_store h (fst (hmget h db key fs clock st))"
proof (induction fs arbitrary: st)
  case (Cons f fs)
  show ?case using Cons.IH[OF wf_hash_ops(2)[OF Cons.prems, of db key f "clock (length fs)"]]
      wf_hash_ops(2)[OF Cons.prems, of db key f "clock (length fs)"]
    by (auto simp: case_prod_unfold split: sum.split)
qed simp

subsection \<open>A hash is a map from fields to values\<close>

definition hview :: "hasher \<Rightarrow> int \<Rightarrow> string \<Rightarrow> int64 \<Rightarrow> KvStore \<Rightarrow> string \<Rightarrow> string option" where
  "hview h db key now st = (case live h now st db key of None \<Rightarrow> Map.empty | Some e \<Rightarrow> map_of (ehash e))"

definition hash_ok :: "hasher \<Rightarrow> int \<Rightarrow> string \<Rightarrow> int64 \<Rightarrow> KvStore \<Rightarrow> bool" where
  "hash_ok h db key now st \<longleftrightarrow>
     wf_store h st \<and> (\<forall>e. live h now st db key = Some e \<longrightarrow> etype e = Hash)"

lemma hset_live:
  assumes "hash_ok h db key now st"
  shows "live h now (fst (hset h db key f v now st)) db' k =
    (if db' = db \<and> k = key
     then Some (case live h now st db key of
                  None \<Rightarrow> new_entry\<lparr>etype := Hash, ehash := AList.update f v []\<rparr>
                | Some e \<Rightarrow> e\<lparr>ehash := AList.update f v (ehash e)\<rparr>)
     else live h now st db' k)"
  using assms live_not_expired[of h now st db key] wf_shaped[of h st]
  by (auto simp: hash_ok_def hset_def store_simps isExpired_def split: option.split)

lemma hdel_live:
  assumes "hash_ok h db key now st"
  shows "live h now (fst (hdel h db key f now st)) db' k =
    (if db' = db \<and> k = key
     then (case live h now st db key of
             None \<Rightarrow> None
           | Some e \<Rightarrow> if AList.delete f (ehash e) = [] then None else Some (e\<lparr>ehash := AList.delete f (ehash e)\<rparr>))
     else live h now st db' k)"
  using assms live_not_expired[of h now st db key] wf_shaped[of h st]
  by (auto simp: hash_ok_def hdel_def Let_def store_simps isExpired_def split: option.split)

lemma hview_hset: "hash_ok h db key now st \<Longrightarrow> hview h db key now (fst (hset h db key f v now st)) = (hview h db key now st)(f \<mapsto> v)"
  by (simp add: hview_def hset_live split: option.split)

lemma hview_hdel: "hash_ok h db key now st \<Longrightarrow> hview h db key now (fst (hdel h db key f now st)) = (hview h db key now st)(f := None)"
  by (auto simp: hview_def hdel_live delete_Nil_upd split: option.split)

lemma hash_ok_hset: "hash_ok h db key now st \<Longrightarrow> hash_ok h db key now (fst (hset h db key f v now st))"
  using hset_live[of h db key now st f v db key]
  by (auto simp: hash_ok_def wf_rules split: option.splits)

lemma hash_ok_hdel: "hash_ok h db key now st \<Longrightarrow> hash_ok h db key now (fst (hdel h db key f now st))"
  using hdel_live[of h db key now st f db key]
  by (auto simp: hash_ok_def wf_rules split: option.splits if_splits)

text \<open>The fields of one hash satisfy the laws of a key space of their own.\<close>

interpretation hfields: keyspace "hash_ok h db key now" "\<lambda>st (u :: unit). hview h db key now st"
    "\<lambda>u f v st. fst (hset h db key f v now st)" "\<lambda>u f st. fst (hdel h db key f now st)" for h db key now
  by unfold_locales (simp_all add: hview_hset hview_hdel hash_ok_hset hash_ok_hdel)

lemma hash_ok_results:
  assumes "hash_ok h db key now st"
  shows "snd (hset h db key f v now st) = Inr (if hview h db key now st f = None then 1 else 0)"
    "snd (hdel h db key f now st) = Inr (if hview h db key now st f = None then 0 else 1)"
    "snd (hget h db key f now st) = Inr (hview h db key now st f)"
    "snd (hexists h db key f now st) = Inr (hview h db key now st f \<noteq> None)"
  using assms
  by (auto simp: hash_ok_def hset_def hdel_def hget_def hexists_def hview_def Let_def split: option.split)

lemma hlen_hgetall:
  assumes "hash_ok h db key now st" "live h now st db key = Some e"
  shows "snd (hlen h db key now st) = Inr (Some (int (card (dom (hview h db key now st)))))"
    "\<exists>kvs. snd (hgetall h db key now st) = Inr (Some kvs) \<and> map_of kvs = hview h db key now st \<and>
       sorted (map fst kvs) \<and> distinct (map fst kvs)"
proof -
  have e: "etype e = Hash" "distinct (map fst (ehash e))"
    using assms by (auto simp: hash_ok_def intro: wf_hash_distinct[OF wf_live])
  then show "snd (hlen h db key now st) = Inr (Some (int (card (dom (hview h db key now st)))))"
    using assms(2) distinct_card[OF e(2)] by (simp add: hlen_def hview_def dom_map_of_conv_image_fst)
  have "mset (sort_key fst (ehash e)) = mset (ehash e)" by simp
  then have "distinct (map fst (sort_key fst (ehash e)))"
    using e(2) by (metis mset_eq_imp_distinct_iff mset_map)
  moreover from this have "map_of (sort_key fst (ehash e)) = map_of (ehash e)"
    using e(2) by (intro map_of_eqI) (auto simp: map_of_eq_Some_iff)
  ultimately show "\<exists>kvs. snd (hgetall h db key now st) = Inr (Some kvs) \<and> map_of kvs = hview h db key now st \<and>
       sorted (map fst kvs) \<and> distinct (map fst kvs)"
    using assms(2) e(1) by (auto simp: hgetall_def hview_def intro: sorted_sort_key)
qed

text \<open>C25: On a key that is missing or holds a hash, the hash commands implement a map from fields to values:
  \<open>HSET\<close> assigns and tells whether the field is new, \<open>HGET\<close> and \<open>HEXISTS\<close> read, \<open>HDEL\<close> removes and tells
  whether there was something to remove, and the key exists afterwards exactly when the map is not empty;
  no other key changes.\<close>

theorem hash_refines_map:
  assumes "hash_ok h db key now st"
  shows "hview h db key now (fst (hset h db key f v now st)) = (hview h db key now st)(f \<mapsto> v) \<and>
    snd (hset h db key f v now st) = Inr (if hview h db key now st f = None then 1 else 0) \<and>
    snd (hget h db key f now st) = Inr (hview h db key now st f) \<and>
    snd (hexists h db key f now st) = Inr (hview h db key now st f \<noteq> None) \<and>
    hview h db key now (fst (hdel h db key f now st)) = (hview h db key now st)(f := None) \<and>
    snd (hdel h db key f now st) = Inr (if hview h db key now st f = None then 0 else 1) \<and>
    (live h now (fst (hdel h db key f now st)) db key = None \<longleftrightarrow> (hview h db key now st)(f := None) = Map.empty) \<and>
    (\<forall>db' k. (db', k) \<noteq> (db, key) \<longrightarrow>
       live h now (fst (hset h db key f v now st)) db' k = live h now st db' k \<and>
       live h now (fst (hdel h db key f now st)) db' k = live h now st db' k)"
proof -
  have "live h now (fst (hdel h db key f now st)) db key = None \<longleftrightarrow> (hview h db key now st)(f := None) = Map.empty"
    using map_of_delete[of f] by (auto simp: hdel_live[OF assms] hview_def simp flip: map_of_delete split: option.split)
  then show ?thesis using assms
    by (auto simp: hview_hset hview_hdel hash_ok_results hset_live hdel_live)
qed

definition hash_store :: KvStore where
  "hash_store = fst (hset length 0 ''h'' ''b'' ''2'' 5 (fst (hset length 0 ''h'' ''a'' ''1'' 5 new_store)))"

lemma hash_store_ok: "hash_ok length 0 ''h'' 7 hash_store"
proof -
  have "map_option etype (live length 7 hash_store 0 ''h'') = Some Hash" by code_simp
  then show ?thesis by (auto simp: hash_ok_def hash_store_def wf_rules)
qed

theorem hash_refines_map_witness:
  "snd (hget length 0 ''h'' ''a'' 7 hash_store) = Inr (Some ''1'') \<and>
   snd (hget length 0 ''h'' ''a'' 7 hash_store) = Inr (hview length 0 ''h'' 7 hash_store ''a'') \<and>
   hview length 0 ''h'' 7 (fst (hset length 0 ''h'' ''a'' ''9'' 7 hash_store)) ''a'' = Some ''9''"
proof -
  have "snd (hget length 0 ''h'' ''a'' 7 hash_store) = Inr (Some ''1'')" by code_simp
  then show ?thesis using hash_refines_map[OF hash_store_ok, of "''a''" "''9''"] by simp
qed

subsection \<open>Many fields at once\<close>

lemma hmset_fold:
  assumes "hash_ok h db key now st"
  shows "hmset h db key fs (\<lambda>_. now) st = (fold (\<lambda>(f, v) st. fst (hset h db key f v now st)) fs st, Inr ())"
  using assms
proof (induction fs arbitrary: st)
  case (Cons p fs)
  obtain f v where p: "p = (f, v)" by (cases p)
  show ?case using Cons.IH[OF hash_ok_hset[OF Cons.prems]] hash_ok_results(1)[OF Cons.prems]
    by (simp add: p case_prod_unfold)
qed simp

lemma hget_same: "hash_ok h db key now st \<Longrightarrow> hash_ok h db key now (fst (hget h db key f now st)) \<and>
    hview h db key now (fst (hget h db key f now st)) = hview h db key now st"
  using wf_shaped[of h st] by (auto simp: hash_ok_def hview_def hget_def store_simps wf_rules split: option.split)

lemma hmget_values:
  assumes "hash_ok h db key now st"
  shows "snd (hmget h db key fs (\<lambda>_. now) st) = Inr (map (hview h db key now st) fs)"
  using assms
proof (induction fs arbitrary: st)
  case (Cons f fs)
  show ?case using Cons.IH[OF conjunct1[OF hget_same[OF Cons.prems, of f]]] hget_same[OF Cons.prems, of f]
      hash_ok_results(3)[OF Cons.prems, of f]
    by (simp add: case_prod_unfold)
qed simp

text \<open>\<open>HMSET\<close> followed by \<open>HMGET\<close>, without the clock moving: every field reads as the last value
  assigned to it, the fields not assigned as before.\<close>

theorem hmset_hmget:
  assumes "hash_ok h db key now st" "st' = fst (hmset h db key fs (\<lambda>_. now) st)"
  shows "snd (hmset h db key fs (\<lambda>_. now) st) = Inr () \<and>
    snd (hmget h db key gs (\<lambda>_. now) st') =
      Inr (map (\<lambda>g. if g \<in> fst ` set fs then map_of (rev fs) g else hview h db key now st g) gs)"
proof -
  have st': "st' = fold (\<lambda>(f, v) st. fst (hset h db key f v now st)) fs st"
    using assms hmset_fold[OF assms(1), of fs] by simp
  have ok: "hash_ok h db key now st'"
    unfolding st' using hfields.ok_put_many[OF assms(1), of fs] by (simp add: case_prod_unfold)
  have "hview h db key now st' g = (if g \<in> fst ` set fs then map_of (rev fs) g else hview h db key now st g)" for g
    unfolding st' using hfields.view_put_many[OF assms(1), where kvs = fs and k' = g] by (simp add: case_prod_unfold)
  then show ?thesis using hmget_values[OF ok, of gs] hmset_fold[OF assms(1), of fs] by simp
qed

theorem hmset_hmget_witness:
  "snd (hmget length 0 ''h'' [''b'', ''c'', ''x''] (\<lambda>_. 7)
     (fst (hmset length 0 ''h'' [(''c'', ''5''), (''b'', ''4''), (''c'', ''6'')] (\<lambda>_. 7) hash_store))) =
   Inr [Some ''4'', Some ''6'', hview length 0 ''h'' 7 hash_store ''x'']"
  using hmset_hmget[OF hash_store_ok refl, of "[(''c'', ''5''), (''b'', ''4''), (''c'', ''6'')]" "[''b'', ''c'', ''x'']"]
  by simp

text \<open>\<open>HSCAN\<close> pages a flat list of names and values by single items: with a count of 1 the first page
  of a hash is a field name without its value, and an odd count always cuts a pair in two.\<close>

theorem hscan_splits_pairs:
  assumes "live h now st db key = Some e" "etype e = Hash"
    and "f = hd (sort (filter (matchGlob p) (map fst (ehash e))))" "filter (matchGlob p) (map fst (ehash e)) \<noteq> []"
  shows "snd (hscan h db key 0 p 1 now st) = Inr (1, [f])"
proof -
  obtain fs where "sort (filter (matchGlob p) (map fst (ehash e))) = f # fs"
    using assms(3,4) by (metis list.collapse length_0_conv length_sort)
  then show ?thesis using assms(1,2) by (simp add: hscan_def scanFlatItems_def Let_def)
qed

theorem hscan_splits_pairs_witness:
  "snd (hscan length 0 ''h'' 0 ''*'' 1 7 hash_store) = Inr (1, [''a''])"
proof -
  have "live length 7 hash_store 0 ''h'' = Some (new_entry\<lparr>etype := Hash, ehash := [(''a'', ''1''), (''b'', ''2'')]\<rparr>)"
    "sort (filter (matchGlob ''*'') [''a'', ''b'']) = [''a'', ''b'']" "filter (matchGlob ''*'') [''a'', ''b''] = [''a'', ''b'']"
    by code_simp+
  then show ?thesis using hscan_splits_pairs[of length 7 hash_store 0 "''h''"] by simp
qed

end
