(* ===== verification/Sets.thy ===== *)
theory Sets
  imports Hashes
begin

text \<open>
  Set values: \<open>setAdd\<close> to \<open>setDiff\<close> and \<open>spop\<close> (\<open>zero/kv/store/kv_store.cc\<close>), \<open>sscan\<close>
  and the three storing commands (\<open>kv_store_extras.cc\<close>). The loops over several keys are modelled with
  their early exits and with the purging of expired keys on the way; \<open>touch\<close> tells the variants that
  record an access from those that do not.
\<close>

subsection \<open>Operations on one set\<close>

fun insert_all :: "string list \<Rightarrow> string list \<Rightarrow> int64 \<Rightarrow> string list \<times> int64" where
  "insert_all [] s added = (s, added)"
| "insert_all (m # ms) s added =
     (if m \<in> set s then insert_all ms s added else insert_all ms (uset_insert m s) (added + 1))"

fun erase_all :: "string list \<Rightarrow> string list \<Rightarrow> int64 \<Rightarrow> string list \<times> int64" where
  "erase_all [] s removed = (s, removed)"
| "erase_all (m # ms) s removed =
     (if m \<in> set s then erase_all ms (filter (\<lambda>x. x \<noteq> m) s) (removed + 1) else erase_all ms s removed)"

definition setAdd :: "hasher \<Rightarrow> int \<Rightarrow> string \<Rightarrow> string list \<Rightarrow> int64 \<Rightarrow> KvStore \<Rightarrow> KvStore \<times> (string + int64)" where
  "setAdd h db key members now st =
     (if members = [] then (st, Inr 0)
      else case openEntry h db key now st of
        (st1, Some e) \<Rightarrow>
          if etype e \<noteq> Set then (st1, Inl kWrongType)
          else (case insert_all members (eset e) 0 of
                  (s, added) \<Rightarrow> (bumpWatchKey h db key (putEntry h db key (e\<lparr>eset := s\<rparr>) st1), Inr added))
      | (st1, None) \<Rightarrow>
          (case insert_all members [] 0 of
             (s, added) \<Rightarrow>
               (bumpWatchKey h db key (putEntry h db key (new_entry\<lparr>etype := Set, eset := s\<rparr>) st1), Inr added)))"

definition setRem :: "hasher \<Rightarrow> int \<Rightarrow> string \<Rightarrow> string list \<Rightarrow> int64 \<Rightarrow> KvStore \<Rightarrow> KvStore \<times> (string + int64)" where
  "setRem h db key members now st =
     (if members = [] then (st, Inr 0)
      else case openEntry h db key now st of
        (st1, None) \<Rightarrow> (st1, Inr 0)
      | (st1, Some e) \<Rightarrow>
          if etype e \<noteq> Set then (st1, Inl kWrongType)
          else (case erase_all members (eset e) 0 of
                  (s, removed) \<Rightarrow>
                    (let st2 = (if s = [] then eraseEntry h db key st1 else putEntry h db key (e\<lparr>eset := s\<rparr>) st1)
                     in (bumpWatchKey h db key st2, Inr removed))))"

definition setMembers :: "hasher \<Rightarrow> int \<Rightarrow> string \<Rightarrow> int64 \<Rightarrow> KvStore \<Rightarrow> KvStore \<times> (string + string list option)" where
  "setMembers h db key now st =
     (case openEntry h db key now st of
        (st1, None) \<Rightarrow> (st1, Inr None)
      | (st1, Some e) \<Rightarrow> if etype e \<noteq> Set then (st1, Inl kWrongType) else (st1, Inr (Some (eset e))))"

definition setCard :: "hasher \<Rightarrow> int \<Rightarrow> string \<Rightarrow> int64 \<Rightarrow> KvStore \<Rightarrow> KvStore \<times> (string + int64 option)" where
  "setCard h db key now st =
     (case openEntry h db key now st of
        (st1, None) \<Rightarrow> (st1, Inr None)
      | (st1, Some e) \<Rightarrow>
          if etype e \<noteq> Set then (st1, Inl kWrongType) else (st1, Inr (Some (int (length (eset e))))))"

definition setIsMember :: "hasher \<Rightarrow> int \<Rightarrow> string \<Rightarrow> string \<Rightarrow> int64 \<Rightarrow> KvStore \<Rightarrow> KvStore \<times> (string + bool)" where
  "setIsMember h db key member now st =
     (case openEntry h db key now st of
        (st1, None) \<Rightarrow> (st1, Inr False)
      | (st1, Some e) \<Rightarrow> if etype e \<noteq> Set then (st1, Inl kWrongType) else (st1, Inr (member \<in> set (eset e))))"

definition spop :: "hasher \<Rightarrow> (nat \<Rightarrow> nat) \<Rightarrow> int \<Rightarrow> string \<Rightarrow> int64 \<Rightarrow> KvStore \<Rightarrow> KvStore \<times> (string + string option)" where
  "spop h rng db key now st =
     (case openEntry h db key now (evictIfNeededLocked rng now st) of
        (st1, None) \<Rightarrow> (st1, Inr None)
      | (st1, Some e) \<Rightarrow>
          if etype e \<noteq> Set then (st1, Inl kWrongType)
          else (case eset e of
                  [] \<Rightarrow> (st1, Inr None)
                | m # s \<Rightarrow>
                    (let st2 = (if s = [] then eraseEntry h db key st1
                                else putEntry h db key (touchEntry now (e\<lparr>eset := s\<rparr>)) st1)
                     in (bumpWatchKey h db key st2, Inr (Some m)))))"

definition sscan :: "hasher \<Rightarrow> int \<Rightarrow> string \<Rightarrow> uint64 \<Rightarrow> string \<Rightarrow> int \<Rightarrow> int64 \<Rightarrow> KvStore \<Rightarrow>
    KvStore \<times> (string + uint64 \<times> string list)" where
  "sscan h db key cursor pattern n now st =
     (case openEntry h db key now st of
        (st1, None) \<Rightarrow> (st1, Inr (0, []))
      | (st1, Some e) \<Rightarrow>
          if etype e \<noteq> Set then (st1, Inl kWrongType)
          else (st1, Inr (scanFlatItems (sort (filter (matchGlob pattern) (eset e))) cursor n)))"

subsection \<open>Operations on several sets\<close>

text \<open>The loops. \<open>None\<close> as accumulator is \<open>first = true\<close>; a result \<open>Inr None\<close> is the early exit at a
  missing key.\<close>

fun inter_loop :: "hasher \<Rightarrow> int \<Rightarrow> int64 \<Rightarrow> bool \<Rightarrow> string list \<Rightarrow> string list option \<Rightarrow> KvStore \<Rightarrow>
    KvStore \<times> (string + string list option)" where
  "inter_loop h db now touch [] acc st = (st, Inr acc)"
| "inter_loop h db now touch (key # ks) acc st =
     (case probeEntry h db key now st of
        (st1, None) \<Rightarrow> (st1, Inr None)
      | (st1, Some e) \<Rightarrow>
          if etype e \<noteq> Set then (st1, Inl kWrongType)
          else inter_loop h db now touch ks
                 (Some (case acc of None \<Rightarrow> eset e | Some a \<Rightarrow> filter (\<lambda>m. m \<in> set (eset e)) a))
                 (if touch then putEntry h db key (touchEntry now e) st1 else st1))"

fun union_loop :: "hasher \<Rightarrow> int \<Rightarrow> int64 \<Rightarrow> bool \<Rightarrow> string list \<Rightarrow> string list \<Rightarrow> KvStore \<Rightarrow>
    KvStore \<times> (string + string list)" where
  "union_loop h db now touch [] acc st = (st, Inr acc)"
| "union_loop h db now touch (key # ks) acc st =
     (case probeEntry h db key now st of
        (st1, None) \<Rightarrow> union_loop h db now touch ks acc st1
      | (st1, Some e) \<Rightarrow>
          if etype e \<noteq> Set then (st1, Inl kWrongType)
          else union_loop h db now touch ks (fold uset_insert (eset e) acc)
                 (if touch then putEntry h db key (touchEntry now e) st1 else st1))"

fun diff_loop :: "hasher \<Rightarrow> int \<Rightarrow> int64 \<Rightarrow> string list \<Rightarrow> string list \<Rightarrow> KvStore \<Rightarrow> KvStore \<times> (string + string list)" where
  "diff_loop h db now [] acc st = (st, Inr acc)"
| "diff_loop h db now (key # ks) acc st =
     (case probeEntry h db key now st of
        (st1, None) \<Rightarrow> diff_loop h db now ks acc st1
      | (st1, Some e) \<Rightarrow>
          if etype e \<noteq> Set then (st1, Inl kWrongType)
          else diff_loop h db now ks (filter (\<lambda>m. m \<notin> set (eset e)) acc) st1)"

definition setInter :: "hasher \<Rightarrow> int \<Rightarrow> string list \<Rightarrow> int64 \<Rightarrow> KvStore \<Rightarrow> KvStore \<times> (string + string list)" where
  "setInter h db ks now st =
     (if ks = [] then (st, Inr [])
      else case inter_loop h db now True ks None st of
        (st1, Inl err) \<Rightarrow> (st1, Inl err)
      | (st1, Inr None) \<Rightarrow> (st1, Inr [])
      | (st1, Inr (Some acc)) \<Rightarrow> (st1, Inr (sort acc)))"

definition setUnion :: "hasher \<Rightarrow> int \<Rightarrow> string list \<Rightarrow> int64 \<Rightarrow> KvStore \<Rightarrow> KvStore \<times> (string + string list)" where
  "setUnion h db ks now st =
     (if ks = [] then (st, Inr [])
      else case union_loop h db now True ks [] st of
        (st1, Inl err) \<Rightarrow> (st1, Inl err)
      | (st1, Inr acc) \<Rightarrow> (st1, Inr (sort acc)))"

definition setDiff :: "hasher \<Rightarrow> int \<Rightarrow> string list \<Rightarrow> int64 \<Rightarrow> KvStore \<Rightarrow> KvStore \<times> (string + string list)" where
  "setDiff h db ks now st =
     (case ks of
        [] \<Rightarrow> (st, Inr [])
      | k # rest \<Rightarrow>
          (case probeEntry h db k now st of
             (st1, None) \<Rightarrow> (st1, Inr [])
           | (st1, Some e) \<Rightarrow>
               if etype e \<noteq> Set then (st1, Inl kWrongType)
               else (case diff_loop h db now rest (eset e) st1 of
                       (st2, Inl err) \<Rightarrow> (st2, Inl err)
                     | (st2, Inr acc) \<Rightarrow> (st2, Inr (sort acc)))))"

text \<open>The common end of the storing commands, and the erasure of the destination.\<close>

definition drop_dest :: "hasher \<Rightarrow> int \<Rightarrow> string \<Rightarrow> KvStore \<Rightarrow> KvStore" where
  "drop_dest h db dest st = bumpWatchKey h db dest (eraseEntry h db dest st)"

definition store_set :: "hasher \<Rightarrow> int \<Rightarrow> string \<Rightarrow> string list \<Rightarrow> int64 \<Rightarrow> KvStore \<Rightarrow> KvStore \<times> (string + int64)" where
  "store_set h db dest acc now st =
     (let st1 = (if acc = [] then eraseEntry h db dest st
                 else (let e = umap_get new_entry dest (db_at (getShard h st dest) db)
                       in putEntry h db dest
                            (touchEntry now (e\<lparr>etype := Set, evalue := [], ehash := [], elist := [], ezset := [],
                               estream := [], stream_groups := [], eset := acc, expire_at_ms := 0\<rparr>)) st))
      in (bumpWatchKey h db dest st1, Inr (int (length acc))))"

definition setInterStore :: "hasher \<Rightarrow> int \<Rightarrow> string \<Rightarrow> string list \<Rightarrow> int64 \<Rightarrow> KvStore \<Rightarrow> KvStore \<times> (string + int64)" where
  "setInterStore h db dest ks now st =
     (if ks = [] then (drop_dest h db dest st, Inr 0)
      else case inter_loop h db now False ks None st of
        (st1, Inl err) \<Rightarrow> (st1, Inl err)
      | (st1, Inr None) \<Rightarrow> (drop_dest h db dest st1, Inr 0)
      | (st1, Inr (Some acc)) \<Rightarrow> store_set h db dest acc now st1)"

definition setUnionStore :: "hasher \<Rightarrow> int \<Rightarrow> string \<Rightarrow> string list \<Rightarrow> int64 \<Rightarrow> KvStore \<Rightarrow> KvStore \<times> (string + int64)" where
  "setUnionStore h db dest ks now st =
     (case union_loop h db now False ks [] st of
        (st1, Inl err) \<Rightarrow> (st1, Inl err)
      | (st1, Inr acc) \<Rightarrow> store_set h db dest acc now st1)"

definition setDiffStore :: "hasher \<Rightarrow> int \<Rightarrow> string \<Rightarrow> string list \<Rightarrow> int64 \<Rightarrow> KvStore \<Rightarrow> KvStore \<times> (string + int64)" where
  "setDiffStore h db dest ks now st =
     (case ks of
        [] \<Rightarrow> (st, Inr 0)
      | k # rest \<Rightarrow>
          (case probeEntry h db k now st of
             (st1, None) \<Rightarrow> (drop_dest h db dest st1, Inr 0)
           | (st1, Some e) \<Rightarrow>
               if etype e \<noteq> Set then (st1, Inl kWrongType)
               else (case diff_loop h db now rest (eset e) st1 of
                       (st2, Inl err) \<Rightarrow> (st2, Inl err)
                     | (st2, Inr acc) \<Rightarrow> store_set h db dest acc now st2)))"

subsection \<open>The invariant\<close>

lemma insert_all_spec:
  "set (fst (insert_all ms s n)) = set s \<union> set ms"
  "distinct s \<Longrightarrow> distinct (fst (insert_all ms s n))"
  "snd (insert_all ms s n) = n + int (card (set ms - set s))"
  "ms \<noteq> [] \<or> s \<noteq> [] \<Longrightarrow> fst (insert_all ms s n) \<noteq> []"
proof (induction ms s n rule: insert_all.induct)
  case (2 m ms s added)
  have "set (m # ms) - set s = insert m (set ms - insert m (set s))" if "m \<notin> set s" using that by auto
  then have "card (set (m # ms) - set s) = Suc (card (set ms - insert m (set s)))" if "m \<notin> set s"
    using that by simp
  moreover have "set (m # ms) - set s = set ms - set s" if "m \<in> set s" using that by auto
  moreover have "m \<in> set s \<Longrightarrow> s \<noteq> []" by auto
  ultimately show "set (fst (insert_all (m # ms) s added)) = set s \<union> set (m # ms)"
    "distinct s \<Longrightarrow> distinct (fst (insert_all (m # ms) s added))"
    "snd (insert_all (m # ms) s added) = added + int (card (set (m # ms) - set s))"
    "m # ms \<noteq> [] \<or> s \<noteq> [] \<Longrightarrow> fst (insert_all (m # ms) s added) \<noteq> []"
    using 2 by (cases "m \<in> set s"; auto)+
qed simp_all

lemma erase_all_spec:
  "set (fst (erase_all ms s n)) = set s - set ms"
  "distinct s \<Longrightarrow> distinct (fst (erase_all ms s n))"
  "snd (erase_all ms s n) = n + int (card (set s \<inter> set ms))"
proof (induction ms s n rule: erase_all.induct)
  case (2 m ms s removed)
  have "set s \<inter> set (m # ms) = insert m (set (filter (\<lambda>x. x \<noteq> m) s) \<inter> set ms)" if "m \<in> set s" using that by auto
  then have "card (set s \<inter> set (m # ms)) = Suc (card (set (filter (\<lambda>x. x \<noteq> m) s) \<inter> set ms))" if "m \<in> set s"
    using that by simp
  moreover have "set s \<inter> set (m # ms) = set s \<inter> set ms" if "m \<notin> set s" using that by auto
  ultimately show "set (fst (erase_all (m # ms) s removed)) = set s - set (m # ms)"
    "distinct s \<Longrightarrow> distinct (fst (erase_all (m # ms) s removed))"
    "snd (erase_all (m # ms) s removed) = removed + int (card (set s \<inter> set (m # ms)))"
    using 2 by (cases "m \<in> set s"; auto)+
qed simp_all

lemma wf_entry_set:
  "wf_entry e \<Longrightarrow> etype e = Set \<Longrightarrow> s \<noteq> [] \<Longrightarrow> distinct s \<Longrightarrow> wf_entry (e\<lparr>eset := s\<rparr>)"
  "s \<noteq> [] \<Longrightarrow> distinct s \<Longrightarrow> wf_entry (new_entry\<lparr>etype := Set, eset := s\<rparr>)"
  "s \<noteq> [] \<Longrightarrow> distinct s \<Longrightarrow> wf_entry (e\<lparr>etype := Set, evalue := [], ehash := [], elist := [], ezset := [],
     estream := [], stream_groups := [], eset := s\<rparr>)"
  by (simp_all add: wf_entry_def)

lemma wf_set_distinct: "wf_entry e \<Longrightarrow> distinct (eset e)"
  by (simp add: wf_entry_def)

lemma wf_set_ops [wf_rules]:
  assumes "wf_store h st"
  shows "wf_store h (fst (setAdd h db key ms now st))" "wf_store h (fst (setRem h db key ms now st))"
    "wf_store h (fst (setMembers h db key now st))" "wf_store h (fst (setCard h db key now st))"
    "wf_store h (fst (setIsMember h db key m now st))" "wf_store h (fst (sscan h db key c p n now st))"
  using assms
  by (auto simp: setAdd_def setRem_def setMembers_def setCard_def setIsMember_def sscan_def Let_def case_prod_unfold
      intro!: wf_rules wf_entry_set insert_all_spec(2) erase_all_spec(2)
      intro: wf_live wf_set_distinct[OF wf_live] dest: insert_all_spec(4)[THEN notE, rotated]
      split: option.split)

lemma wf_spop [wf_rules]: "wf_store h st \<Longrightarrow> wf_store h (fst (spop h rng db key now st))"
proof -
  assume wf: "wf_store h st"
  have "distinct s" "wf_entry e" if "live h now (evictIfNeededLocked rng now st) db key = Some e" "eset e = m # s" for e m s
    using wf_live[OF wf_evict[OF wf] that(1)] that(2) wf_set_distinct[of e] by auto
  then show ?thesis using wf
    by (auto simp: spop_def Let_def intro!: wf_rules wf_entry_set split: option.split list.split)
qed

subsection \<open>A set is a set\<close>

definition sview :: "hasher \<Rightarrow> int \<Rightarrow> int64 \<Rightarrow> KvStore \<Rightarrow> string \<Rightarrow> string set" where
  "sview h db now st key = (case live h now st db key of None \<Rightarrow> {} | Some e \<Rightarrow> set (eset e))"

definition sets_ok :: "hasher \<Rightarrow> int \<Rightarrow> int64 \<Rightarrow> string set \<Rightarrow> KvStore \<Rightarrow> bool" where
  "sets_ok h db now K st \<longleftrightarrow>
     wf_store h st \<and> (\<forall>k \<in> K. \<forall>e. live h now st db k = Some e \<longrightarrow> etype e = Set)"

text \<open>Stores that differ in access times only.\<close>

definition alike :: "hasher \<Rightarrow> int64 \<Rightarrow> KvStore \<Rightarrow> KvStore \<Rightarrow> bool" where
  "alike h now st st' \<longleftrightarrow>
     (\<forall>db k. map_option (touchEntry 0) (live h now st' db k) = map_option (touchEntry 0) (live h now st db k))"

lemma touch_sel [simp]:
  "etype (touchEntry t e) = etype e" "eset (touchEntry t e) = eset e" "touchEntry t (touchEntry u e) = touchEntry t e"
  "expire_at_ms (touchEntry t e) = expire_at_ms e" "ehash (touchEntry t e) = ehash e" "elist (touchEntry t e) = elist e"
  "ezset (touchEntry t e) = ezset e" "evalue (touchEntry t e) = evalue e" "estream (touchEntry t e) = estream e"
  by (simp_all add: touchEntry_def)

lemma alike_refl [simp]: "alike h now st st"
  by (simp add: alike_def)

lemma alike_trans: "alike h now st st' \<Longrightarrow> alike h now st' st'' \<Longrightarrow> alike h now st st''"
  by (simp add: alike_def)

lemma alikeD:
  assumes "alike h now st st'"
  shows "live h now st' db k = None \<longleftrightarrow> live h now st db k = None"
    "sview h db now st' k = sview h db now st k"
    "(\<forall>e. live h now st' db k = Some e \<longrightarrow> etype e = t) \<longleftrightarrow> (\<forall>e. live h now st db k = Some e \<longrightarrow> etype e = t)"
proof -
  have eq: "map_option (touchEntry 0) (live h now st' db k) = map_option (touchEntry 0) (live h now st db k)"
    using assms by (simp add: alike_def)
  have inj: "etype a = etype b \<and> eset a = eset b" if t: "touchEntry 0 a = touchEntry 0 b" for a b
  proof -
    have "etype (touchEntry 0 a) = etype (touchEntry 0 b)" "eset (touchEntry 0 a) = eset (touchEntry 0 b)"
      by (simp_all only: t)
    then show ?thesis by simp
  qed
  show "live h now st' db k = None \<longleftrightarrow> live h now st db k = None" using eq by auto
  show "sview h db now st' k = sview h db now st k"
    using eq by (cases "live h now st db k"; cases "live h now st' db k") (auto simp: sview_def dest!: inj)
  show "(\<forall>e. live h now st' db k = Some e \<longrightarrow> etype e = t) \<longleftrightarrow> (\<forall>e. live h now st db k = Some e \<longrightarrow> etype e = t)"
    using eq by (cases "live h now st db k"; cases "live h now st' db k") (auto dest!: inj)
qed

lemma alike_sets_ok: "alike h now st st' \<Longrightarrow> sets_ok h db now K st \<Longrightarrow> wf_store h st' \<Longrightarrow> sets_ok h db now K st'"
  using alikeD(3) unfolding sets_ok_def by blast

text \<open>One round of a loop: the key is probed, and perhaps touched.\<close>

definition visit :: "hasher \<Rightarrow> int \<Rightarrow> int64 \<Rightarrow> bool \<Rightarrow> string \<Rightarrow> KvStore \<Rightarrow> KvStore" where
  "visit h db now touch key st =
     (case probeEntry h db key now st of
        (st1, None) \<Rightarrow> st1 | (st1, Some e) \<Rightarrow> if touch then putEntry h db key (touchEntry now e) st1 else st1)"

lemma visit_ok:
  assumes "sets_ok h db now K st"
  shows "wf_store h (visit h db now touch key st)" "alike h now st (visit h db now touch key st)"
    "sets_ok h db now K (visit h db now touch key st)"
proof -
  have wf: "wf_store h st" using assms by (simp add: sets_ok_def)
  show w: "wf_store h (visit h db now touch key st)"
    using wf by (auto simp: visit_def intro!: wf_rules intro: wf_live split: option.split)
  show a: "alike h now st (visit h db now touch key st)"
    using wf_shaped[OF wf] live_not_expired[of h now st db key]
    by (auto simp: alike_def visit_def store_simps split: option.split)
  show "sets_ok h db now K (visit h db now touch key st)" by (rule alike_sets_ok[OF a assms w])
qed

lemma inter_loop_spec:
  assumes "sets_ok h db now (set ks) st" "distinct a"
  shows "\<exists>st' r. inter_loop h db now touch ks (Some a) st = (st', Inr r) \<and> wf_store h st' \<and> alike h now st st' \<and>
    distinct (case r of None \<Rightarrow> [] | Some b \<Rightarrow> b) \<and>
    set (case r of None \<Rightarrow> [] | Some b \<Rightarrow> b) = set a \<inter> (\<Inter>k \<in> set ks. sview h db now st k)"
  using assms
proof (induction ks arbitrary: a st)
  case Nil
  then show ?case by (auto simp: sets_ok_def)
next
  case (Cons k ks)
  let ?s = "visit h db now touch k st"
  note v = visit_ok[OF Cons.prems(1), of touch k]
  show ?case
  proof (cases "live h now st db k")
    case None
    then have "inter_loop h db now touch (k # ks) (Some a) st = (?s, Inr None)" by (simp add: visit_def)
    then show ?thesis using v None by (auto simp: sview_def)
  next
    case (Some e)
    let ?a = "filter (\<lambda>m. m \<in> set (eset e)) a"
    have step: "inter_loop h db now touch (k # ks) (Some a) st = inter_loop h db now touch ks (Some ?a) ?s"
      using Some Cons.prems(1) by (simp add: visit_def sets_ok_def)
    have "sets_ok h db now (set ks) ?s" using v(3) by (simp add: sets_ok_def)
    then obtain st' r where r: "inter_loop h db now touch ks (Some ?a) ?s = (st', Inr r)" "wf_store h st'" "alike h now ?s st'"
        "distinct (case r of None \<Rightarrow> [] | Some b \<Rightarrow> b)"
        "set (case r of None \<Rightarrow> [] | Some b \<Rightarrow> b) = set ?a \<inter> (\<Inter>k \<in> set ks. sview h db now ?s k)"
      using Cons.IH[of ?s ?a] Cons.prems(2) by auto
    have "set ?a \<inter> (\<Inter>k \<in> set ks. sview h db now ?s k) = set a \<inter> (\<Inter>k \<in> set (k # ks). sview h db now st k)"
      using Some by (auto simp: alikeD(2)[OF v(2)] sview_def[of h db now st k])
    then show ?thesis unfolding step using r alike_trans[OF v(2) r(3)] by auto
  qed
qed

lemma inter_loop_first:
  assumes "sets_ok h db now (set (k # ks)) st"
  shows "\<exists>st' r. inter_loop h db now touch (k # ks) None st = (st', Inr r) \<and> wf_store h st' \<and> alike h now st st' \<and>
    distinct (case r of None \<Rightarrow> [] | Some b \<Rightarrow> b) \<and>
    set (case r of None \<Rightarrow> [] | Some b \<Rightarrow> b) = (\<Inter>k \<in> set (k # ks). sview h db now st k)"
proof (cases "live h now st db k")
  case None
  then have "inter_loop h db now touch (k # ks) None st = (visit h db now touch k st, Inr None)" by (simp add: visit_def)
  then show ?thesis using visit_ok[OF assms, of touch k] None by (auto simp: sview_def)
next
  case (Some e)
  let ?s = "visit h db now touch k st"
  note v = visit_ok[OF assms, of touch k]
  have ok: "sets_ok h db now (set ks) ?s" using v(3) by (simp add: sets_ok_def)
  have e: "distinct (eset e)" "etype e = Set"
    using assms Some by (auto simp: sets_ok_def intro: wf_set_distinct[OF wf_live])
  have step: "inter_loop h db now touch (k # ks) None st = inter_loop h db now touch ks (Some (eset e)) ?s"
    using Some e(2) by (simp add: visit_def)
  have "set (eset e) \<inter> (\<Inter>k \<in> set ks. sview h db now ?s k) = (\<Inter>k \<in> set (k # ks). sview h db now st k)"
    using Some by (auto simp: alikeD(2)[OF v(2)] sview_def[of h db now st k])
  then show ?thesis unfolding step using inter_loop_spec[OF ok e(1), of touch] alike_trans[OF v(2)] by metis
qed

lemma fold_uset_insert: "set (fold uset_insert xs acc) = set acc \<union> set xs" "distinct acc \<Longrightarrow> distinct (fold uset_insert xs acc)"
  by (induction xs arbitrary: acc) auto

lemma union_loop_spec:
  assumes "sets_ok h db now (set ks) st" "distinct a"
  shows "\<exists>st' r. union_loop h db now touch ks a st = (st', Inr r) \<and> wf_store h st' \<and> alike h now st st' \<and>
    distinct r \<and> set r = set a \<union> (\<Union>k \<in> set ks. sview h db now st k)"
  using assms
proof (induction ks arbitrary: a st)
  case Nil
  then show ?case by (auto simp: sets_ok_def)
next
  case (Cons k ks)
  let ?s = "visit h db now touch k st"
  note v = visit_ok[OF Cons.prems(1), of touch k]
  have ok: "sets_ok h db now (set ks) ?s" using v(3) by (simp add: sets_ok_def)
  define a' where "a' = (case live h now st db k of None \<Rightarrow> a | Some e \<Rightarrow> fold uset_insert (eset e) a)"
  have step: "union_loop h db now touch (k # ks) a st = union_loop h db now touch ks a' ?s"
    using Cons.prems(1) by (auto simp: visit_def sets_ok_def a'_def split: option.split)
  have a': "distinct a'" "set a' = set a \<union> sview h db now st k"
    using Cons.prems(2) by (simp_all add: a'_def fold_uset_insert sview_def split: option.split)
  obtain st' r where r: "union_loop h db now touch ks a' ?s = (st', Inr r)" "wf_store h st'" "alike h now ?s st'"
      "distinct r" "set r = set a' \<union> (\<Union>k \<in> set ks. sview h db now ?s k)"
    using Cons.IH[OF ok a'(1)] by blast
  then show ?case unfolding step using alike_trans[OF v(2) r(3)] a'(2) by (auto simp: alikeD(2)[OF v(2)])
qed

lemma diff_loop_spec:
  assumes "sets_ok h db now (set ks) st" "distinct a"
  shows "\<exists>st' r. diff_loop h db now ks a st = (st', Inr r) \<and> wf_store h st' \<and> alike h now st st' \<and>
    distinct r \<and> set r = set a - (\<Union>k \<in> set ks. sview h db now st k)"
  using assms
proof (induction ks arbitrary: a st)
  case Nil
  then show ?case by (auto simp: sets_ok_def)
next
  case (Cons k ks)
  let ?s = "visit h db now False k st"
  note v = visit_ok[OF Cons.prems(1), of False k]
  have ok: "sets_ok h db now (set ks) ?s" using v(3) by (simp add: sets_ok_def)
  define a' where "a' = (case live h now st db k of None \<Rightarrow> a | Some e \<Rightarrow> filter (\<lambda>m. m \<notin> set (eset e)) a)"
  have step: "diff_loop h db now (k # ks) a st = diff_loop h db now ks a' ?s"
    using Cons.prems(1) by (auto simp: visit_def sets_ok_def a'_def split: option.split)
  have a': "distinct a'" "set a' = set a - sview h db now st k"
    using Cons.prems(2) by (auto simp: a'_def sview_def split: option.split)
  obtain st' r where r: "diff_loop h db now ks a' ?s = (st', Inr r)" "wf_store h st'" "alike h now ?s st'"
      "distinct r" "set r = set a' - (\<Union>k \<in> set ks. sview h db now ?s k)"
    using Cons.IH[OF ok a'(1)] by blast
  then show ?case unfolding step using alike_trans[OF v(2) r(3)] a'(2) by (auto simp: alikeD(2)[OF v(2)])
qed

lemma diff_first:
  assumes "sets_ok h db now (set (k # ks)) st"
  shows "live h now st db k = None \<and> wf_store h (fst (probeEntry h db k now st)) \<and> alike h now st (fst (probeEntry h db k now st)) \<or>
    (\<exists>e st' r. live h now st db k = Some e \<and> etype e = Set \<and>
       diff_loop h db now ks (eset e) (fst (probeEntry h db k now st)) = (st', Inr r) \<and> wf_store h st' \<and> alike h now st st' \<and>
       distinct r \<and> set r = sview h db now st k - (\<Union>k \<in> set ks. sview h db now st k))"
proof -
  have vis: "visit h db now False k st = fst (probeEntry h db k now st)"
    by (simp add: visit_def split: option.split)
  note v = visit_ok[OF assms, of False k, unfolded vis]
  have ok: "sets_ok h db now (set ks) (fst (probeEntry h db k now st))" using v(3) by (simp add: sets_ok_def)
  show ?thesis
  proof (cases "live h now st db k")
    case None
    then show ?thesis using v by simp
  next
    case (Some e)
    then have e: "distinct (eset e)" "etype e = Set" "sview h db now st k = set (eset e)"
      using assms by (auto simp: sets_ok_def sview_def intro: wf_set_distinct[OF wf_live])
    then show ?thesis using diff_loop_spec[OF ok e(1)] Some alike_trans[OF v(2)] by (simp add: alikeD(2)[OF v(2)]) metis
  qed
qed

text \<open>C23: \<open>SINTER\<close>, \<open>SUNION\<close> and \<open>SDIFF\<close> compute the intersection, the union and the difference of
  their sets (a missing key is the empty set), each as a sorted list without repetition, whatever the
  iteration order of the containers, and change nothing but access times.\<close>

theorem set_algebra:
  assumes "sets_ok h db now (set (k # ks)) st"
  shows "snd (setInter h db (k # ks) now st) = Inr (sorted_list_of_set (\<Inter>x \<in> set (k # ks). sview h db now st x)) \<and>
    snd (setUnion h db (k # ks) now st) = Inr (sorted_list_of_set (\<Union>x \<in> set (k # ks). sview h db now st x)) \<and>
    snd (setDiff h db (k # ks) now st) = Inr (sorted_list_of_set (sview h db now st k - (\<Union>x \<in> set ks. sview h db now st x))) \<and>
    alike h now st (fst (setInter h db (k # ks) now st)) \<and> alike h now st (fst (setUnion h db (k # ks) now st)) \<and>
    alike h now st (fst (setDiff h db (k # ks) now st))"
proof -
  obtain s1 r1 where i: "inter_loop h db now True (k # ks) None st = (s1, Inr r1)" "alike h now st s1"
      "distinct (case r1 of None \<Rightarrow> [] | Some b \<Rightarrow> b)"
      "set (case r1 of None \<Rightarrow> [] | Some b \<Rightarrow> b) = (\<Inter>x \<in> set (k # ks). sview h db now st x)"
    using inter_loop_first[OF assms, of True] by blast
  have "setInter h db (k # ks) now st = (s1, Inr (sort (case r1 of None \<Rightarrow> [] | Some b \<Rightarrow> b)))"
    using i(1) by (simp only: setInter_def i(1)) (simp split: option.split)
  then have inter: "setInter h db (k # ks) now st = (s1, Inr (sorted_list_of_set (\<Inter>x \<in> set (k # ks). sview h db now st x)))"
    by (simp only: sort_distinct_set[OF i(3)] i(4))
  obtain s2 r2 where u: "union_loop h db now True (k # ks) [] st = (s2, Inr r2)" "alike h now st s2"
      "distinct r2" "set r2 = (\<Union>x \<in> set (k # ks). sview h db now st x)"
    using union_loop_spec[OF assms, of "[]" True] by (metis Un_empty_left distinct.simps(1) empty_set)
  have "setUnion h db (k # ks) now st = (s2, Inr (sort r2))"
    by (simp only: setUnion_def u(1)) simp
  then have union: "setUnion h db (k # ks) now st = (s2, Inr (sorted_list_of_set (\<Union>x \<in> set (k # ks). sview h db now st x)))"
    by (simp only: sort_distinct_set[OF u(3)] u(4))
  have "\<exists>s3. setDiff h db (k # ks) now st =
      (s3, Inr (sorted_list_of_set (sview h db now st k - (\<Union>x \<in> set ks. sview h db now st x)))) \<and> alike h now st s3"
    using diff_first[OF assms]
    by (auto simp: setDiff_def sview_def[of h db now st k] sort_distinct_set)
  then show ?thesis using inter union i(2) u(2) by auto
qed

definition set_store :: KvStore where
  "set_store = fst (setAdd length 0 ''bb'' [''z'', ''y''] 5 (fst (setAdd length 0 ''a'' [''x'', ''y'', ''w''] 5 new_store)))"

lemma set_store_ok: "sets_ok length 0 7 (set [''a'', ''bb'', ''none'']) set_store"
  "sview length 0 7 set_store ''a'' = {''x'', ''y'', ''w''}" "sview length 0 7 set_store ''bb'' = {''y'', ''z''}"
  "sview length 0 7 set_store ''none'' = {}"
proof -
  have l: "map_option etype (live length 7 set_store 0 ''a'') = Some Set"
      "map_option etype (live length 7 set_store 0 ''bb'') = Some Set"
      "live length 7 set_store 0 ''none'' = None" by code_simp+
  have "wf_store length set_store" by (simp add: set_store_def wf_rules)
  then show "sets_ok length 0 7 (set [''a'', ''bb'', ''none'']) set_store" using l by (auto simp: sets_ok_def)
  have "map_option eset (live length 7 set_store 0 ''a'') = Some [''x'', ''y'', ''w'']"
      "map_option eset (live length 7 set_store 0 ''bb'') = Some [''z'', ''y'']" by code_simp+
  then show "sview length 0 7 set_store ''a'' = {''x'', ''y'', ''w''}" "sview length 0 7 set_store ''bb'' = {''y'', ''z''}"
      "sview length 0 7 set_store ''none'' = {}"
    using l(3) by (auto simp: sview_def)
qed

theorem set_algebra_witness:
  "snd (setInter length 0 [''a'', ''bb''] 7 set_store) = Inr [''y''] \<and>
   snd (setDiff length 0 [''a'', ''bb'', ''none''] 7 set_store) = Inr [''w'', ''x'']"
proof -
  have two: "sets_ok length 0 7 (set [''a'', ''bb'']) set_store" using set_store_ok(1) by (auto simp: sets_ok_def)
  have "sorted_list_of_set {''x'', ''w''} = [''w'', ''x'']" by code_simp
  moreover have "{''x'', ''y'', ''w''} - {''y'', ''z''} = {''x'', ''w''}" "{''x'', ''y'', ''w''} \<inter> {''y'', ''z''} = {''y''}" by auto
  ultimately show ?thesis using set_algebra[OF two] set_algebra[OF set_store_ok(1)] by (simp add: set_store_ok)
qed

subsection \<open>Storing the result\<close>

lemma store_set_spec:
  assumes "wf_store h st" "distinct acc"
  shows "wf_store h (fst (store_set h db dest acc now st))" "snd (store_set h db dest acc now st) = Inr (int (card (set acc)))"
    "live h now (fst (store_set h db dest acc now st)) db' k =
       (if db' = db \<and> k = dest then live h now (fst (store_set h db dest acc now st)) db dest else live h now st db' k)"
    "sview h db now (fst (store_set h db dest acc now st)) dest = set acc"
    "live h now (fst (store_set h db dest acc now st)) db dest = None \<longleftrightarrow> acc = []"
    "\<forall>e. live h now (fst (store_set h db dest acc now st)) db dest = Some e \<longrightarrow> etype e = Set \<and> expire_at_ms e = 0"
  using assms wf_shaped[OF assms(1)] distinct_card[OF assms(2)]
  by (auto simp: store_set_def Let_def sview_def store_simps isExpired_def intro!: wf_rules wf_entry_set(3))

lemma drop_dest_spec:
  assumes "wf_store h st"
  shows "wf_store h (drop_dest h db dest st)"
    "live h now (drop_dest h db dest st) db' k = (if db' = db \<and> k = dest then None else live h now st db' k)"
  using assms wf_shaped[OF assms] by (simp_all add: drop_dest_def store_simps wf_rules)

text \<open>What a storing command promises: the destination is replaced by the result.\<close>

definition stored :: "hasher \<Rightarrow> int \<Rightarrow> string \<Rightarrow> int64 \<Rightarrow> KvStore \<Rightarrow> string set \<Rightarrow> KvStore \<times> (string + int64) \<Rightarrow> bool" where
  "stored h db dest now st S r \<longleftrightarrow>
     wf_store h (fst r) \<and> snd r = Inr (int (card S)) \<and> sview h db now (fst r) dest = S \<and>
     (live h now (fst r) db dest = None \<longleftrightarrow> S = {}) \<and>
     (\<forall>e. live h now (fst r) db dest = Some e \<longrightarrow> etype e = Set \<and> expire_at_ms e = 0) \<and>
     (\<forall>db' k. (db', k) \<noteq> (db, dest) \<longrightarrow> live h now (fst r) db' k = live h now st db' k)"

lemma stored_set: "wf_store h st \<Longrightarrow> distinct acc \<Longrightarrow> stored h db dest now st (set acc) (store_set h db dest acc now st)"
  using store_set_spec[of h st acc] unfolding stored_def by (metis prod.inject set_empty)

lemma stored_drop: "wf_store h st \<Longrightarrow> stored h db dest now st {} (drop_dest h db dest st, Inr 0)"
  using drop_dest_spec(1)[of h st db dest] drop_dest_spec(2)[of h st now db dest] by (auto simp: stored_def sview_def)

text \<open>Without touching, the loops leave every visible entry as it was.\<close>

definition alike0 :: "hasher \<Rightarrow> int64 \<Rightarrow> KvStore \<Rightarrow> KvStore \<Rightarrow> bool" where
  "alike0 h now st st' \<longleftrightarrow> (\<forall>db k. live h now st' db k = live h now st db k)"

lemma inter_loop_quiet:
  "wf_store h st \<Longrightarrow> alike0 h now st (fst (inter_loop h db now False ks acc st)) \<and> wf_store h (fst (inter_loop h db now False ks acc st))"
proof (induction ks arbitrary: acc st)
  case (Cons k ks)
  then show ?case using wf_shaped[OF Cons.prems]
    by (auto simp: alike0_def store_simps wf_rules split: option.split)
qed (simp add: alike0_def)

lemma union_loop_quiet:
  "wf_store h st \<Longrightarrow> alike0 h now st (fst (union_loop h db now False ks acc st)) \<and> wf_store h (fst (union_loop h db now False ks acc st))"
proof (induction ks arbitrary: acc st)
  case (Cons k ks)
  then show ?case using wf_shaped[OF Cons.prems]
    by (auto simp: alike0_def store_simps wf_rules split: option.split)
qed (simp add: alike0_def)

lemma diff_loop_quiet:
  "wf_store h st \<Longrightarrow> alike0 h now st (fst (diff_loop h db now ks acc st)) \<and> wf_store h (fst (diff_loop h db now ks acc st))"
proof (induction ks arbitrary: acc st)
  case (Cons k ks)
  then show ?case using wf_shaped[OF Cons.prems]
    by (auto simp: alike0_def store_simps wf_rules split: option.split)
qed (simp add: alike0_def)

lemma stored_quiet: "alike0 h now st st' \<Longrightarrow> stored h db dest now st' S r \<Longrightarrow> stored h db dest now st S r"
  by (simp add: stored_def alike0_def)

text \<open>C4: \<open>SINTERSTORE\<close>, \<open>SUNIONSTORE\<close> and \<open>SDIFFSTORE\<close> replace the destination, whatever it held, by the
  computed set without a time to live, or remove it when the result is empty, return the number of members, and
  leave every other key alone; the destination may itself be one of the sources.\<close>

theorem set_store_algebra:
  assumes "sets_ok h db now (set (k # ks)) st"
  shows "stored h db dest now st (\<Inter>x \<in> set (k # ks). sview h db now st x) (setInterStore h db dest (k # ks) now st) \<and>
    stored h db dest now st (\<Union>x \<in> set (k # ks). sview h db now st x) (setUnionStore h db dest (k # ks) now st) \<and>
    stored h db dest now st (sview h db now st k - (\<Union>x \<in> set ks. sview h db now st x)) (setDiffStore h db dest (k # ks) now st)"
proof -
  have wf: "wf_store h st" using assms by (simp add: sets_ok_def)
  obtain s1 r1 where i: "inter_loop h db now False (k # ks) None st = (s1, Inr r1)" "wf_store h s1"
      "distinct (case r1 of None \<Rightarrow> [] | Some b \<Rightarrow> b)"
      "set (case r1 of None \<Rightarrow> [] | Some b \<Rightarrow> b) = (\<Inter>x \<in> set (k # ks). sview h db now st x)"
    using inter_loop_first[OF assms, of False] by blast
  have q1: "alike0 h now st s1" using inter_loop_quiet[OF wf, of now db "k # ks" None] i(1) by simp
  have "setInterStore h db dest (k # ks) now st =
      (case r1 of None \<Rightarrow> (drop_dest h db dest s1, Inr 0) | Some acc \<Rightarrow> store_set h db dest acc now s1)"
    by (simp only: setInterStore_def i(1)) (simp split: option.split)
  then have inter: "stored h db dest now st (\<Inter>x \<in> set (k # ks). sview h db now st x) (setInterStore h db dest (k # ks) now st)"
    using stored_quiet[OF q1 stored_drop[OF i(2)]] stored_quiet[OF q1 stored_set[OF i(2) i(3)]]
    unfolding i(4)[symmetric] by (cases r1) simp_all
  obtain s2 r2 where u: "union_loop h db now False (k # ks) [] st = (s2, Inr r2)" "wf_store h s2"
      "distinct r2" "set r2 = (\<Union>x \<in> set (k # ks). sview h db now st x)"
    using union_loop_spec[OF assms, of "[]" False] by (metis Un_empty_left distinct.simps(1) empty_set)
  have q2: "alike0 h now st s2" using union_loop_quiet[OF wf, of now db "k # ks" "[]"] u(1) by simp
  have union: "stored h db dest now st (\<Union>x \<in> set (k # ks). sview h db now st x) (setUnionStore h db dest (k # ks) now st)"
    using stored_quiet[OF q2 stored_set[OF u(2,3)]] unfolding u(4)[symmetric] setUnionStore_def u(1) by simp
  have diff: "stored h db dest now st (sview h db now st k - (\<Union>x \<in> set ks. sview h db now st x)) (setDiffStore h db dest (k # ks) now st)"
    using diff_first[OF assms]
  proof
    assume n: "live h now st db k = None \<and> wf_store h (fst (probeEntry h db k now st)) \<and> alike h now st (fst (probeEntry h db k now st))"
    have "alike0 h now st (fst (probeEntry h db k now st))"
      using wf_shaped[OF wf] by (simp add: alike0_def store_simps)
    then show ?thesis using stored_quiet stored_drop n by (simp add: setDiffStore_def sview_def[of h db now st k])
  next
    assume "\<exists>e st' r. live h now st db k = Some e \<and> etype e = Set \<and>
       diff_loop h db now ks (eset e) (fst (probeEntry h db k now st)) = (st', Inr r) \<and> wf_store h st' \<and> alike h now st st' \<and>
       distinct r \<and> set r = sview h db now st k - (\<Union>k \<in> set ks. sview h db now st k)"
    then obtain e s3 r3 where d: "live h now st db k = Some e" "etype e = Set"
       "diff_loop h db now ks (eset e) (fst (probeEntry h db k now st)) = (s3, Inr r3)" "wf_store h s3"
       "distinct r3" "set r3 = sview h db now st k - (\<Union>k \<in> set ks. sview h db now st k)" by blast
    have "alike0 h now st s3"
      using diff_loop_quiet[OF wf_probeEntry[OF wf, of db k now], of now db ks "eset e"] d(3) wf_shaped[OF wf]
      by (simp add: alike0_def store_simps)
    then show ?thesis using stored_quiet[OF _ stored_set[OF d(4,5)]] d(1-3)
      unfolding d(6)[symmetric] by (simp add: setDiffStore_def)
  qed
  show ?thesis using inter union diff by blast
qed

theorem set_store_algebra_witness:
  "sview length 0 7 (fst (setInterStore length 0 ''a'' [''a'', ''bb''] 7 set_store)) ''a'' = {''y''} \<and>
   snd (setUnionStore length 0 ''bb'' [''a'', ''bb''] 7 set_store) = Inr 4"
proof -
  have two: "sets_ok length 0 7 (set [''a'', ''bb'']) set_store" using set_store_ok(1) by (auto simp: sets_ok_def)
  have "{''x'', ''y'', ''w''} \<inter> {''y'', ''z''} = {''y''}" "{''x'', ''y'', ''w''} \<union> {''y'', ''z''} = {''w'', ''x'', ''y'', ''z''}" by auto
  then show ?thesis
    using set_store_algebra[OF two, of "''a''"] set_store_algebra[OF two, of "''bb''"] by (simp add: set_store_ok stored_def)
qed

subsection \<open>The invariant, for the operations on several sets\<close>

lemma wf_inter_loop:
  "wf_store h st \<Longrightarrow> (\<forall>a. acc = Some a \<longrightarrow> distinct a) \<Longrightarrow>
   wf_store h (fst (inter_loop h db now touch ks acc st)) \<and>
   (\<forall>b. snd (inter_loop h db now touch ks acc st) = Inr (Some b) \<longrightarrow> distinct b)"
proof (induction ks arbitrary: acc st)
  case (Cons k ks)
  show ?case
  proof (cases "live h now st db k")
    case None
    then show ?thesis using Cons.prems by (simp add: wf_rules)
  next
    case (Some e)
    have "wf_entry e" using wf_live[OF Cons.prems(1) Some] .
    then have d: "\<forall>a. Some (case acc of None \<Rightarrow> eset e | Some a \<Rightarrow> filter (\<lambda>m. m \<in> set (eset e)) a) = Some a \<longrightarrow> distinct a"
      and w: "wf_store h (if touch then putEntry h db k (touchEntry now e) (fst (probeEntry h db k now st)) else fst (probeEntry h db k now st))"
      using Cons.prems wf_set_distinct by (auto intro!: wf_rules split: option.split)
    show ?thesis using Cons.IH[OF w d] Some wf_probeEntry[OF Cons.prems(1), of db k now] by simp
  qed
qed simp

lemma wf_union_loop:
  "wf_store h st \<Longrightarrow> distinct acc \<Longrightarrow>
   wf_store h (fst (union_loop h db now touch ks acc st)) \<and>
   (\<forall>b. snd (union_loop h db now touch ks acc st) = Inr b \<longrightarrow> distinct b)"
proof (induction ks arbitrary: acc st)
  case (Cons k ks)
  show ?case
  proof (cases "live h now st db k")
    case None
    then show ?thesis using Cons.IH[OF wf_probeEntry[OF Cons.prems(1), of db k now] Cons.prems(2)] by simp
  next
    case (Some e)
    have "wf_entry e" using wf_live[OF Cons.prems(1) Some] .
    then have w: "wf_store h (if touch then putEntry h db k (touchEntry now e) (fst (probeEntry h db k now st)) else fst (probeEntry h db k now st))"
      using Cons.prems by (auto intro!: wf_rules)
    show ?thesis
      using Cons.IH[OF w fold_uset_insert(2)[OF Cons.prems(2), of "eset e"]] Some wf_probeEntry[OF Cons.prems(1), of db k now]
      by simp
  qed
qed simp

lemma wf_diff_loop:
  "wf_store h st \<Longrightarrow> distinct acc \<Longrightarrow>
   wf_store h (fst (diff_loop h db now ks acc st)) \<and> (\<forall>b. snd (diff_loop h db now ks acc st) = Inr b \<longrightarrow> distinct b)"
proof (induction ks arbitrary: acc st)
  case (Cons k ks)
  note wf = wf_probeEntry[OF Cons.prems(1), of db k now]
  show ?case
    using Cons.IH[OF wf Cons.prems(2)] Cons.IH[OF wf distinct_filter[OF Cons.prems(2)]] wf by (auto split: option.split)
qed simp

lemma wf_multi_set_ops [wf_rules]:
  assumes "wf_store h st"
  shows "wf_store h (fst (setInter h db ks now st))" "wf_store h (fst (setUnion h db ks now st))"
    "wf_store h (fst (setInterStore h db dest ks now st))" "wf_store h (fst (setUnionStore h db dest ks now st))"
  using assms wf_inter_loop[OF assms, of None] wf_union_loop[OF assms, of "[]"]
  by (auto simp: setInter_def setUnion_def setInterStore_def setUnionStore_def
      case_prod_unfold intro!: store_set_spec(1) drop_dest_spec(1) split: option.split sum.split)

lemma wf_diff_ops [wf_rules]:
  assumes "wf_store h st"
  shows "wf_store h (fst (setDiff h db ks now st))" "wf_store h (fst (setDiffStore h db dest ks now st))"
proof -
  have "wf_store h (fst (setDiff h db (k # ks) now st)) \<and> wf_store h (fst (setDiffStore h db dest (k # ks) now st))" for k ks
  proof (cases "live h now st db k")
    case None
    then show ?thesis using assms by (simp add: setDiff_def setDiffStore_def wf_rules drop_dest_spec)
  next
    case (Some e)
    show ?thesis using wf_diff_loop[OF wf_probeEntry[OF assms, of db k now] wf_set_distinct[OF wf_live[OF assms Some]], of db now ks] Some
        wf_probeEntry[OF assms, of db k now]
      by (auto simp: setDiff_def setDiffStore_def case_prod_unfold intro!: store_set_spec(1) split: sum.split)
  qed
  then show "wf_store h (fst (setDiff h db ks now st))" "wf_store h (fst (setDiffStore h db dest ks now st))"
    using assms by (cases ks; simp add: setDiff_def setDiffStore_def)+
qed

text \<open>\<open>SADD\<close>, \<open>SREM\<close>, \<open>SISMEMBER\<close> and \<open>SCARD\<close> on a key that is missing or holds a set: union, difference,
  membership and size, with the number of members really added or removed as the result (repeated
  arguments count once), and no key left behind by an empty set.\<close>

theorem set_refines:
  assumes "sets_ok h db now {key} st" "ms \<noteq> []"
  shows "sview h db now (fst (setAdd h db key ms now st)) key = sview h db now st key \<union> set ms \<and>
    snd (setAdd h db key ms now st) = Inr (int (card (set ms - sview h db now st key))) \<and>
    sview h db now (fst (setRem h db key ms now st)) key = sview h db now st key - set ms \<and>
    snd (setRem h db key ms now st) = Inr (int (card (sview h db now st key \<inter> set ms))) \<and>
    (live h now (fst (setRem h db key ms now st)) db key = None \<longleftrightarrow> sview h db now st key \<subseteq> set ms) \<and>
    snd (setIsMember h db key m now st) = Inr (m \<in> sview h db now st key) \<and>
    snd (setCard h db key now st) = Inr (if sview h db now st key = {} then None else Some (int (card (sview h db now st key)))) \<and>
    (\<forall>db' k. (db', k) \<noteq> (db, key) \<longrightarrow>
       live h now (fst (setAdd h db key ms now st)) db' k = live h now st db' k \<and>
       live h now (fst (setRem h db key ms now st)) db' k = live h now st db' k)"
proof -
  have wf: "wf_store h st" using assms(1) by (simp add: sets_ok_def)
  note defs = setAdd_def setRem_def setIsMember_def setCard_def sview_def case_prod_unfold Let_def isExpired_def
  show ?thesis
  proof (cases "live h now st db key")
    case None
    then show ?thesis using assms(2) wf_shaped[OF wf]
      by (simp add: defs store_simps insert_all_spec)
  next
    case (Some e)
    have e: "etype e = Set" "eset e \<noteq> []" "distinct (eset e)"
      using Some assms(1) wf_live[OF wf Some] by (auto simp: sets_ok_def wf_entry_def)
    have gone: "fst (erase_all ms (eset e) 0) = [] \<longleftrightarrow> set (eset e) \<subseteq> set ms"
      using erase_all_spec(1)[of ms "eset e" 0] by (metis Diff_eq_empty_iff set_empty)
    show ?thesis using assms(2) Some e wf_shaped[OF wf] live_not_expired[OF Some] distinct_card[OF e(3)] gone
      by (auto simp: defs store_simps insert_all_spec erase_all_spec)
  qed
qed

theorem set_refines_witness:
  "snd (setAdd length 0 ''a'' [''x'', ''q'', ''q''] 7 set_store) = Inr 1 \<and>
   snd (setRem length 0 ''a'' [''x'', ''q'', ''q''] 7 set_store) = Inr 1"
proof -
  have "sets_ok length 0 7 {''a''} set_store" using set_store_ok(1) by (auto simp: sets_ok_def)
  from set_refines[OF this, of "[''x'', ''q'', ''q'']" "''x''"] show ?thesis
    by (simp add: set_store_ok insert_Diff_if)
qed

end
