(* ===== verification/Decimal.thy ===== *)
theory Decimal
  imports Prelude "HOL-Library.Log_Nat"
begin

text \<open>
  Doubles and their text. A \<open>double\<close> is its 64-bit IEEE 754 pattern. Comparison goes through \<open>dkey\<close>, the signed
  magnitude of the pattern, which orders all doubles but NaN; addition and the conversions are exact integer
  arithmetic in units of the least subnormal, rounded to nearest, ties to even.

  The conversions are those of the C library the server uses: \<open>strtod\<close>, and \<open>printf\<close> with \<open>%.17g\<close>, \<open>%g\<close>
  (which is also the default of \<open>std::ostream\<close>) and \<open>%f\<close> (\<open>std::to_string\<close>).
\<close>

subsection \<open>Doubles\<close>

definition dmag :: "double \<Rightarrow> int" where
  "dmag d = uint d mod 2 ^ 63"

definition dneg :: "double \<Rightarrow> bool" where
  "dneg d \<longleftrightarrow> 2 ^ 63 \<le> uint d"

definition kInf :: int where
  "kInf = 2047 * 2 ^ 52"

definition is_nan :: "double \<Rightarrow> bool" where
  "is_nan d \<longleftrightarrow> dmag d > kInf"

definition dkey :: "double \<Rightarrow> int" where
  "dkey d = (if dneg d then - dmag d else dmag d)"

definition dlt :: "double \<Rightarrow> double \<Rightarrow> bool" where
  "dlt a b \<longleftrightarrow> \<not> is_nan a \<and> \<not> is_nan b \<and> dkey a < dkey b"

definition deq :: "double \<Rightarrow> double \<Rightarrow> bool" where
  "deq a b \<longleftrightarrow> \<not> is_nan a \<and> \<not> is_nan b \<and> dkey a = dkey b"

definition dle :: "double \<Rightarrow> double \<Rightarrow> bool" where
  "dle a b \<longleftrightarrow> dlt a b \<or> deq a b"

text \<open>The units in 1.\<close>

definition kUnit :: int where
  "kUnit = 2 ^ 1074"

text \<open>The value of a finite double, in units of \<open>2 ^ - 1074\<close>, and the rounding of such a value.\<close>

definition dunits :: "double \<Rightarrow> int" where
  "dunits d =
     (let e = dmag d div 2 ^ 52; f = dmag d mod 2 ^ 52;
          m = (if e = 0 then f else (2 ^ 52 + f) * 2 ^ nat (e - 1))
      in if dneg d then - m else m)"

definition pack :: "bool \<Rightarrow> int \<Rightarrow> double" where
  "pack neg mag = of_int (mag + (if neg then 2 ^ 63 else 0))"

text \<open>
  Division rounded to nearest, ties to even, and the magnitude of the double nearest to \<open>n / d\<close> units: the
  mantissa has 53 bits, and the carry of the rounding runs into the exponent by itself.
\<close>

definition div_even :: "int \<Rightarrow> int \<Rightarrow> int" where
  "div_even n d =
     (let q = n div d; r = n mod d in if 2 * r > d \<or> 2 * r = d \<and> odd q then q + 1 else q)"

definition round_mag :: "int \<Rightarrow> int \<Rightarrow> int" where
  "round_mag n d =
     (let q = n div d in
      if q < 2 ^ 53 then div_even n d
      else (let k = nat (bitlen q - 53) in min kInf (int k * 2 ^ 52 + div_even n (d * 2 ^ k))))"

definition dadd :: "double \<Rightarrow> double \<Rightarrow> double" where
  "dadd a b =
     (if is_nan a \<or> is_nan b then pack False (kInf + 2 ^ 51)
      else if dmag a = kInf \<and> dmag b = kInf \<and> dneg a \<noteq> dneg b then pack False (kInf + 2 ^ 51)
      else if dmag a = kInf then a
      else if dmag b = kInf then b
      else (let s = dunits a + dunits b
            in if s = 0 then pack (dneg a \<and> dneg b) 0 else pack (s < 0) (round_mag \<bar>s\<bar> 1)))"

subsection \<open>Reading\<close>

text \<open>The magnitude of \<open>m * b ^ e\<close>.\<close>

definition scale_mag :: "int \<Rightarrow> int \<Rightarrow> int \<Rightarrow> int" where
  "scale_mag m b e =
     (if e \<ge> 0 then round_mag (m * b ^ nat e * kUnit) 1 else round_mag (m * kUnit) (b ^ nat (- e)))"

definition is_hex :: "char \<Rightarrow> bool" where
  "is_hex c \<longleftrightarrow> is_digit c \<or> to_lower c \<in> set ''abcdef''"

definition hex_val :: "char \<Rightarrow> nat" where
  "hex_val c = (if is_digit c then digit_val c else of_char (to_lower c) - 87)"

text \<open>An optional exponent after \<open>mark\<close>, which counts only with at least one digit.\<close>

definition read_exp :: "char \<Rightarrow> string \<Rightarrow> int \<times> nat" where
  "read_exp mark s =
     (case s of
        [] \<Rightarrow> (0, 0)
      | c # r \<Rightarrow>
          if to_lower c \<noteq> mark then (0, 0)
          else (case split_sign r of
                  (neg, sg, r') \<Rightarrow>
                    (let ds = takeWhile is_digit r'
                     in if ds = [] then (0, 0)
                        else (if neg then - int (dec_val ds) else int (dec_val ds), 1 + sg + length ds))))"

text \<open>Digits with an optional point: their value as an integer, the digits after the point, the length.\<close>

definition read_mantissa :: "(char \<Rightarrow> bool) \<Rightarrow> (char \<Rightarrow> nat) \<Rightarrow> nat \<Rightarrow> string \<Rightarrow> (int \<times> nat \<times> nat) option" where
  "read_mantissa dig val base s =
     (let ip = takeWhile dig s; r = dropWhile dig s;
          fp = (case r of [] \<Rightarrow> [] | c # r' \<Rightarrow> if c = CHR ''.'' then takeWhile dig r' else []);
          dot = (if r \<noteq> [] \<and> hd r = CHR ''.'' then 1 else 0)
      in if ip @ fp = [] then None
         else Some (int (foldl (\<lambda>a c. base * a + val c) 0 (ip @ fp)), length fp, length ip + dot + length fp))"

definition starts_ci :: "string \<Rightarrow> string \<Rightarrow> bool" where
  "starts_ci p s \<longleftrightarrow> map to_lower (take (length p) s) = p"

text \<open>\<open>strtod (s, &end)\<close>: the value and the offset of \<open>end\<close>, 0 when there is nothing to convert.\<close>

definition strtod :: "string \<Rightarrow> double \<times> nat" where
  "strtod s =
     (let ws = length (takeWhile is_space s); (neg, sg, r) = split_sign (dropWhile is_space s); n0 = ws + sg in
      if starts_ci ''infinity'' r then (pack neg kInf, n0 + 8)
      else if starts_ci ''inf'' r then (pack neg kInf, n0 + 3)
      else if starts_ci ''nan'' r then
        (pack neg (kInf + 2 ^ 51),
         n0 + 3 + (case drop 3 r of
                     [] \<Rightarrow> 0
                   | c # t \<Rightarrow>
                       let cs = takeWhile (\<lambda>c. is_digit c \<or> to_lower c \<noteq> c \<or> to_upper c \<noteq> c \<or> c = CHR ''_'') t
                       in if c = CHR ''('' \<and> drop (length cs) t \<noteq> [] \<and> hd (drop (length cs) t) = CHR '')''
                          then length cs + 2 else 0))
      else
        (case (if starts_ci ''0x'' r then read_mantissa is_hex hex_val 16 (drop 2 r) else None) of
           Some (m, f, n) \<Rightarrow>
             (case read_exp CHR ''p'' (drop (2 + n) r) of
                (e, k) \<Rightarrow> (pack neg (scale_mag m 2 (e - 4 * int f)), n0 + 2 + n + k))
         | None \<Rightarrow>
             (case read_mantissa is_digit digit_val 10 r of
                None \<Rightarrow> (0, 0)
              | Some (m, f, n) \<Rightarrow>
                  (case read_exp CHR ''e'' (drop n r) of
                     (e, k) \<Rightarrow> (pack neg (scale_mag m 10 (e - int f)), n0 + n + k)))))"

subsection \<open>Printing\<close>

text \<open>The decimal exponent of a positive number of units.\<close>

definition dec_exp :: "int \<Rightarrow> int" where
  "dec_exp u =
     (if u \<ge> kUnit then int (length (dec_nat (nat (u div kUnit)))) - 1
      else (case find (\<lambda>k. u * 10 ^ k \<ge> kUnit) [1..<400] of None \<Rightarrow> - 400 | Some k \<Rightarrow> - int k))"

text \<open>\<open>u * 10 ^ k\<close> units, rounded to an integer.\<close>

definition scaled :: "int \<Rightarrow> int \<Rightarrow> int" where
  "scaled u k = (if k \<ge> 0 then div_even (u * 10 ^ nat k) (kUnit) else div_even u (kUnit * 10 ^ nat (- k)))"

text \<open>The digits and the exponent of \<open>%e\<close> with \<open>p\<close> digits: the rounding may add a digit.\<close>

definition sci_digits :: "nat \<Rightarrow> int \<Rightarrow> string \<times> int" where
  "sci_digits p u =
     (let x = dec_exp u; d = scaled u (int p - 1 - x)
      in if d \<ge> 10 ^ p then (dec_nat (nat (d div 10)), x + 1) else (dec_nat (nat d), x))"

definition strip_zeros :: "string \<Rightarrow> string" where
  "strip_zeros s = rev (dropWhile (\<lambda>c. c = CHR ''0'') (rev s))"

definition with_point :: "string \<Rightarrow> string \<Rightarrow> string" where
  "with_point ip fp = (if fp = [] then ip else ip @ ''.'' @ fp)"

definition special_text :: "double \<Rightarrow> string option" where
  "special_text d =
     (let sg = (if dneg d then ''-'' else [])
      in if is_nan d then Some (sg @ ''nan'') else if dmag d = kInf then Some (sg @ ''inf'') else None)"

definition exp_text :: "int \<Rightarrow> string" where
  "exp_text x =
     (let ds = dec_nat (nat \<bar>x\<bar>)
      in ''e'' @ (if x < 0 then ''-'' else ''+'') @ (if length ds < 2 then ''0'' @ ds else ds))"

definition fmt_g :: "nat \<Rightarrow> double \<Rightarrow> string" where
  "fmt_g p d =
     (case special_text d of
        Some s \<Rightarrow> s
      | None \<Rightarrow>
          (let sg = (if dneg d then ''-'' else []); u = \<bar>dunits d\<bar> in
           if u = 0 then sg @ ''0''
           else (case sci_digits p u of
                   (ds, x) \<Rightarrow>
                     if - 4 \<le> x \<and> x < int p then
                       (if x \<ge> 0
                        then sg @ with_point (take (nat x + 1) ds) (strip_zeros (drop (nat x + 1) ds))
                        else sg @ with_point ''0'' (strip_zeros (replicate (nat (- x) - 1) CHR ''0'' @ ds)))
                     else sg @ with_point (take 1 ds) (strip_zeros (drop 1 ds)) @ exp_text x)))"

definition fmt_f :: "double \<Rightarrow> string" where
  "fmt_f d =
     (case special_text d of
        Some s \<Rightarrow> s
      | None \<Rightarrow>
          (let sg = (if dneg d then ''-'' else []);
               n = nat (scaled \<bar>dunits d\<bar> 6);
               fp = dec_nat (n mod 10 ^ 6)
           in sg @ dec_nat (n div 10 ^ 6) @ ''.'' @ replicate (6 - length fp) CHR ''0'' @ fp))"

subsection \<open>Integers\<close>

definition double_of_int :: "int \<Rightarrow> double" where
  "double_of_int n = pack (n < 0) (scale_mag \<bar>n\<bar> 10 0)"

lemma uint_pack: "0 \<le> mag \<Longrightarrow> mag < 2 ^ 63 \<Longrightarrow> uint (pack neg mag) = mag + (if neg then 2 ^ 63 else 0)"
  by (simp add: pack_def uint_word_of_int del: of_int_add)

lemma pack_sel:
  assumes "0 \<le> mag" "mag < 2 ^ 63"
  shows "dmag (pack neg mag) = mag" "dneg (pack neg mag) = neg"
  using assms by (auto simp: dmag_def dneg_def uint_pack)

lemma div_mod_parts: "0 \<le> r \<Longrightarrow> r < d \<Longrightarrow> (a * d + r) div d = a \<and> (a * d + r) mod d = r" for r :: int
  by simp

lemma kUnit_pos [simp]: "0 < kUnit" "\<bar>kUnit\<bar> = kUnit" "kUnit \<noteq> 0"
  by (simp_all add: kUnit_def)

lemma div_even_exact: "0 < d \<Longrightarrow> div_even (q * d) d = q"
  by (simp add: div_even_def)

text \<open>An integer of at most 53 bits is a double, exactly.\<close>

lemma scale_mag_int:
  fixes m :: int
  assumes "0 < m" "m < 2 ^ 53"
  obtains k f where "scale_mag m 10 0 = int k * 2 ^ 52 + f" "2 ^ 52 \<le> f" "f < 2 ^ 53" "f * 2 ^ k = m * kUnit" "1021 < k" "k \<le> 1074"
proof -
  define b where "b = nat (bitlen m)"
  have b: "bitlen m = int b" "0 < b" using bitlen_nonneg[of m] bitlen_eq_zero_iff[of m] assms(1) by (auto simp: b_def)
  have "nat (int b - 1) = b - 1" using b(2) by linarith
  then have bnd: "2 ^ (b - 1) \<le> m" "m < 2 ^ b" using bitlen_bounds[OF assms(1)] by (simp_all add: b(1))
  have b53: "b \<le> 53"
  proof (rule ccontr)
    assume "\<not> b \<le> 53"
    then have "(2::int) ^ 53 \<le> 2 ^ (b - 1)" by (intro power_increasing) auto
    then show False using bnd(1) assms(2) by simp
  qed
  have big: "bitlen (m * kUnit) = int (b + 1074)"
    using bitlen_pow2[OF assms(1), of 1074] by (simp only: b(1) of_nat_add of_nat_numeral kUnit_def)
  define k where "k = b + 1021"
  define f where "f = m * 2 ^ (53 - b)"
  have f: "2 ^ 52 \<le> f" "f < 2 ^ 53"
  proof -
    have "(2::int) ^ 52 = 2 ^ (b - 1) * 2 ^ (53 - b)" using b(2) b53 by (simp flip: power_add)
    also have "\<dots> \<le> f" unfolding f_def using bnd(1) by (intro mult_right_mono) auto
    finally show "2 ^ 52 \<le> f" .
    have "f < 2 ^ b * 2 ^ (53 - b)" unfolding f_def using bnd(2) by (intro mult_strict_right_mono) auto
    also have "\<dots> = 2 ^ 53" using b53 by (simp flip: power_add)
    finally show "f < 2 ^ 53" .
  qed
  have fk: "f * 2 ^ k = m * kUnit" using b53 by (simp add: f_def k_def kUnit_def mult.assoc flip: power_add)
  have ge: "\<not> m * kUnit < 2 ^ 53"
    using mult_mono[of 1 m "2 ^ 53" kUnit] assms(1) by (simp add: kUnit_def)
  have nk: "nat (int (b + 1074) - 53) = k" by (simp add: k_def)
  have "scale_mag m 10 0 = min kInf (int k * 2 ^ 52 + div_even (m * kUnit) (2 ^ k))"
  proof -
    have "scale_mag m 10 0 = round_mag (m * kUnit) 1" by (simp add: scale_mag_def)
    also have "\<dots> = min kInf (int (nat (bitlen (m * kUnit) - 53)) * 2 ^ 52 +
        div_even (m * kUnit) (2 ^ nat (bitlen (m * kUnit) - 53)))"
      unfolding round_mag_def Let_def div_by_1 mult_1 using ge by (simp only: if_False)
    finally show ?thesis by (simp only: big nk)
  qed
  also have "div_even (m * kUnit) (2 ^ k) = f" unfolding fk[symmetric] by (rule div_even_exact) simp
  also have "min kInf (int k * 2 ^ 52 + f) = int k * 2 ^ 52 + f" using f(2) b53 by (simp add: kInf_def k_def)
  finally show thesis using f fk b(2) b53 by (intro that[of k f]) (simp_all add: k_def)
qed

lemma dunits_double_of_int:
  assumes "\<bar>n\<bar> < 2 ^ 53"
  shows "dunits (double_of_int n) = n * kUnit" "special_text (double_of_int n) = None" "dneg (double_of_int n) \<longleftrightarrow> n < 0"
proof -
  consider "n = 0" | "0 < \<bar>n\<bar>" by linarith
  then have "dunits (double_of_int n) = n * kUnit \<and> special_text (double_of_int n) = None \<and> (dneg (double_of_int n) \<longleftrightarrow> n < 0)"
  proof cases
    case 1
    then show ?thesis by (simp add: double_of_int_def scale_mag_def round_mag_def div_even_def dunits_def special_text_def
          is_nan_def kInf_def pack_sel)
  next
    case 2
    obtain k f where s: "scale_mag \<bar>n\<bar> 10 0 = int k * 2 ^ 52 + f" "2 ^ 52 \<le> f" "f < 2 ^ 53" "f * 2 ^ k = \<bar>n\<bar> * kUnit"
        "1021 < k" "k \<le> 1074"
      using scale_mag_int[OF 2 assms] by metis
    let ?m = "int k * 2 ^ 52 + f"
    have m: "0 \<le> ?m" "?m < kInf" "?m < 2 ^ 63" using s(2,3,6) by (simp_all add: kInf_def)
    have "?m = (int k + 1) * 2 ^ 52 + (f - 2 ^ 52)" by (simp add: algebra_simps)
    then have "?m div 2 ^ 52 = int k + 1" "?m mod 2 ^ 52 = f - 2 ^ 52"
      using s(2,3) div_mod_parts[of "f - 2 ^ 52" "2 ^ 52" "int k + 1"] by auto
    then show ?thesis using m s(1,4) by (simp add: double_of_int_def dunits_def special_text_def is_nan_def pack_sel Let_def)
  qed
  then show "dunits (double_of_int n) = n * kUnit" "special_text (double_of_int n) = None" "dneg (double_of_int n) \<longleftrightarrow> n < 0"
    by blast+
qed

text \<open>Decimal digits of products with powers of ten.\<close>

lemma digit_char_0: "digit_char 0 = CHR ''0''"
  by code_simp

lemma dec_nat_times_10: "0 < n \<Longrightarrow> dec_nat (n * 10) = dec_nat n @ ''0''"
proof -
  assume "0 < n"
  then have "\<not> n * 10 < 10" by simp
  then show ?thesis by (subst dec_nat.simps) (simp add: digit_char_0)
qed

lemma dec_nat_shift: "0 < n \<Longrightarrow> dec_nat (n * 10 ^ k) = dec_nat n @ replicate k CHR ''0''"
proof (induction k)
  case (Suc k)
  have "dec_nat (n * 10 ^ Suc k) = dec_nat ((n * 10 ^ k) * 10)" by (simp add: mult.commute mult.left_commute)
  also have "\<dots> = dec_nat n @ replicate k CHR ''0'' @ ''0''" using Suc dec_nat_times_10[of "n * 10 ^ k"] by simp
  finally show ?case by (simp add: replicate_append_same)
qed simp

lemma dec_nat_less: "n < 10 ^ k \<Longrightarrow> 0 < k \<Longrightarrow> length (dec_nat n) \<le> k"
proof (induction n arbitrary: k rule: dec_nat.induct)
  case (1 n)
  show ?case
  proof (cases "n < 10")
    case True
    then show ?thesis using "1.prems"(2) by (subst dec_nat.simps) simp
  next
    case False
    then have "k \<noteq> 1" using "1.prems"(1) by auto
    then obtain j where j: "k = Suc j" "0 < j" using "1.prems"(2) by (cases k) auto
    then have "n div 10 < 10 ^ j" using "1.prems"(1) by (simp add: less_mult_imp_div_less mult.commute)
    then show ?thesis using "1.IH"[OF False _ j(2)] False j(1) by (subst dec_nat.simps) simp
  qed
qed

lemma less_dec_nat: "n < 10 ^ length (dec_nat n)"
proof (induction n rule: dec_nat.induct)
  case (1 n)
  show ?case
  proof (cases "n < 10")
    case True
    then show ?thesis by (subst dec_nat.simps) simp
  next
    case False
    then have "n div 10 < 10 ^ length (dec_nat (n div 10))" by (rule "1.IH")
    then have "n < 10 * 10 ^ length (dec_nat (n div 10))" by linarith
    then show ?thesis using False by (subst dec_nat.simps) simp
  qed
qed

lemma strip_zeros_replicate [simp]: "strip_zeros (replicate k CHR ''0'') = []"
  by (simp add: strip_zeros_def)

text \<open>\<open>%g\<close> with \<open>p\<close> digits prints an integer of at most \<open>p\<close> digits as an integer.\<close>

lemma fmt_g_int:
  assumes "\<bar>n\<bar> < 10 ^ p" "\<bar>n\<bar> < 2 ^ 53" "0 < p"
  shows "fmt_g p (double_of_int n) = to_string n"
proof (cases "n = 0")
  case True
  then show ?thesis using dunits_double_of_int[of 0]
    by (simp add: fmt_g_def to_string_def) (subst dec_nat.simps, simp add: digit_char_0)
next
  case False
  define m where "m = nat \<bar>n\<bar>"
  have m: "0 < m" "\<bar>n\<bar> = int m" "m < 10 ^ p" using False assms(1) by (simp_all add: m_def nat_less_iff)
  define l where "l = length (dec_nat m)"
  have l: "0 < l" "l \<le> p" using dec_nat_less[OF m(3) assms(3)] by (simp_all add: l_def)
  let ?u = "int m * kUnit"
  have u: "\<bar>dunits (double_of_int n)\<bar> = ?u" using dunits_double_of_int(1)[OF assms(2)] m(2) by (simp add: abs_mult)
  have x: "dec_exp ?u = int l - 1" using m(1) by (simp add: dec_exp_def l_def)
  have sc: "scaled ?u (int p - int l) = int (m * 10 ^ (p - l))"
  proof -
    have k: "nat (int p - int l) = p - l" using l(2) by simp
    have "scaled ?u (int p - int l) = div_even (int (m * 10 ^ (p - l)) * kUnit) (kUnit)"
      using l(2) unfolding scaled_def k by (simp add: mult.assoc mult.commute[of kUnit])
    also have "\<dots> = int (m * 10 ^ (p - l))" by (rule div_even_exact) simp
    finally show ?thesis .
  qed
  have "m * 10 ^ (p - l) < 10 ^ l * 10 ^ (p - l)" using less_dec_nat[of m] by (simp add: l_def)
  also have "\<dots> = 10 ^ p" using l(2) by (simp flip: power_add)
  finally have lt: "int (m * 10 ^ (p - l)) < 10 ^ p" by (metis of_nat_less_iff of_nat_power of_nat_numeral)
  have "nat (scaled ?u (int p - int l)) = m * 10 ^ (p - l)" by (simp only: sc nat_int)
  then have sci: "sci_digits p ?u = (dec_nat m @ replicate (p - l) CHR ''0'', int l - 1)"
    using x sc lt dec_nat_shift[OF m(1), of "p - l"] by (simp add: sci_digits_def Let_def)
  have parts: "take l (dec_nat m @ replicate (p - l) CHR ''0'') = dec_nat m"
    "drop l (dec_nat m @ replicate (p - l) CHR ''0'') = replicate (p - l) CHR ''0''" by (simp_all add: l_def)
  have pos: "nat (int l - 1) + 1 = l" "- 4 \<le> int l - 1" "int l - 1 < int p" "0 \<le> int l - 1" "?u \<noteq> 0"
    using l m(1) by auto
  have "fmt_g p (double_of_int n) = (if n < 0 then ''-'' else []) @ dec_nat m"
    unfolding fmt_g_def dunits_double_of_int(2)[OF assms(2)] dunits_double_of_int(3)[OF assms(2)] u Let_def option.case
    using pos by (simp only: sci prod.case if_False pos parts strip_zeros_replicate with_point_def simp_thms if_True)
  then show ?thesis by (simp add: to_string_def m_def)
qed

lemma digit_hd_not:
  assumes "is_digit c"
  shows "\<not> starts_ci ''infinity'' (c # s)" "\<not> starts_ci ''inf'' (c # s)" "\<not> starts_ci ''nan'' (c # s)"
proof -
  have "to_lower c = c" using assms by (auto simp: to_lower_def is_digit_def Let_def)
  moreover have "c \<noteq> CHR ''i''" "c \<noteq> CHR ''n''" using assms by (auto simp: is_digit_def)
  ultimately show "\<not> starts_ci ''infinity'' (c # s)" "\<not> starts_ci ''inf'' (c # s)" "\<not> starts_ci ''nan'' (c # s)"
    by (simp_all add: starts_ci_def)
qed

lemma not_0x_dec_nat: "\<not> starts_ci ''0x'' (dec_nat m)"
proof
  assume "starts_ci ''0x'' (dec_nat m)"
  then obtain c s where d: "to_lower c = CHR ''x''" "c \<in> set (dec_nat m)"
    by (cases "dec_nat m"; cases "tl (dec_nat m)") (auto simp: starts_ci_def)
  have "is_digit c" using dec_nat_digits[OF d(2)] .
  then have "to_lower c = c" by (auto simp: to_lower_def is_digit_def Let_def)
  then show False using d(1) \<open>is_digit c\<close> by (auto simp: is_digit_def)
qed

lemma read_mantissa_dec_nat: "read_mantissa is_digit digit_val 10 (dec_nat m) = Some (int m, 0, length (dec_nat m))"
proof -
  have d: "dropWhile is_digit (dec_nat m) = []" by (simp add: dropWhile_eq_Nil_conv dec_nat_digits)
  show ?thesis
    using dec_val_dec_nat[of m] unfolding read_mantissa_def Let_def d by (simp add: dec_val_def)
qed

text \<open>Reading an integer.\<close>

lemma strtod_to_string: "strtod (to_string n) = (double_of_int n, length (to_string n))"
proof -
  define m where "m = nat \<bar>n\<bar>"
  obtain c s where c: "dec_nat m = c # s" by (cases "dec_nat m") auto
  then have "is_digit c" using dec_nat_digits[of c m] by simp
  note no = digit_hd_not[OF this, of s, folded c] not_0x_dec_nat[of m]
  have "dropWhile is_space (to_string n) = to_string n" "takeWhile is_space (to_string n) = []"
    by (auto simp: to_string_def no_space_dec_nat)
  moreover have "split_sign (to_string n) = (n < 0, if n < 0 then 1 else 0, dec_nat m)"
    by (auto simp: to_string_def split_sign_dec_nat m_def) (simp add: split_sign_def)
  ultimately show ?thesis using no read_mantissa_dec_nat[of m]
    by (auto simp: strtod_def Let_def read_exp_def double_of_int_def m_def to_string_def)
qed

end
