(* ===== verification/ZSets.thy ===== *)
theory ZSets
  imports Lists Sets Decimal "HOL-Library.Product_Lexorder"
begin

text \<open>
  Sorted sets (\<open>zero/kv/store/kv_store.cc\<close> and \<open>kv_store_extras.cc\<close>), over the doubles of \<open>Decimal\<close>.

  The comparison functions given to \<open>std::sort\<close> order by score and then by member. Members are distinct, so that
  without NaN the result does not depend on the algorithm, and the reversed comparison gives the reversed list;
  with NaN (\<open>ZADD\<close> takes it) the code's comparison is not a strict weak order and its behaviour is undefined. The
  theorems about the order exclude NaN by hypothesis (\<open>no_nan\<close>).
\<close>

subsection \<open>Operations\<close>

fun zput_all :: "(double \<times> string) list \<Rightarrow> (string \<times> double) list \<Rightarrow> int64 \<Rightarrow> (string \<times> double) list \<times> int64" where
  "zput_all [] z added = (z, added)"
| "zput_all ((s, m) # ms) z added =
     zput_all ms (omap_put m s z) (if map_of z m = None then added + 1 else added)"

definition zadd :: "hasher \<Rightarrow> int \<Rightarrow> string \<Rightarrow> (double \<times> string) list \<Rightarrow> int64 \<Rightarrow> KvStore \<Rightarrow> KvStore \<times> (string + int64)" where
  "zadd h db key members now st =
     (if members = [] then (st, Inr 0)
      else case openEntry h db key now st of
        (st1, Some e) \<Rightarrow>
          if etype e \<noteq> ZSet then (st1, Inl kWrongType)
          else (case zput_all members (ezset e) 0 of
                  (z, added) \<Rightarrow> (bumpWatchKey h db key (putEntry h db key (e\<lparr>ezset := z\<rparr>) st1), Inr added))
      | (st1, None) \<Rightarrow>
          (case zput_all members [] 0 of
             (z, added) \<Rightarrow>
               (bumpWatchKey h db key (putEntry h db key (new_entry\<lparr>etype := ZSet, ezset := z\<rparr>) st1), Inr added)))"

record ZaddOptions =
  z_nx :: bool
  z_xx :: bool
  z_gt :: bool
  z_lt :: bool
  z_ch :: bool

text \<open>The loop of \<open>zaddOpt\<close>, with the counts of added and updated members.\<close>

fun zopt_loop :: "ZaddOptions \<Rightarrow> (double \<times> string) list \<Rightarrow> (string \<times> double) list \<Rightarrow> int64 \<Rightarrow> int64 \<Rightarrow>
    (string \<times> double) list \<times> int64 \<times> int64" where
  "zopt_loop opt [] z added updated = (z, added, updated)"
| "zopt_loop opt ((s, m) # ms) z added updated =
     (case map_of z m of
        Some old \<Rightarrow>
          if z_nx opt then zopt_loop opt ms z added updated
          else if z_gt opt \<and> dle s old then zopt_loop opt ms z added updated
          else if z_lt opt \<and> dle old s then zopt_loop opt ms z added updated
          else if \<not> deq old s then zopt_loop opt ms (omap_put m s z) added (updated + 1)
          else zopt_loop opt ms z added updated
      | None \<Rightarrow>
          if z_xx opt then zopt_loop opt ms z added updated
          else zopt_loop opt ms (omap_put m s z) (added + 1) updated)"

definition zaddOpt :: "hasher \<Rightarrow> int \<Rightarrow> string \<Rightarrow> ZaddOptions \<Rightarrow> (double \<times> string) list \<Rightarrow> int64 \<Rightarrow> KvStore \<Rightarrow>
    KvStore \<times> (string + int64)" where
  "zaddOpt h db key opt members now st =
     (if members = [] then (st, Inr 0)
      else if z_nx opt \<and> z_xx opt then (st, Inl ''ERR NX and XX options at the same time are not compatible'')
      else if z_gt opt \<and> z_lt opt then (st, Inl ''ERR GT and LT options at the same time are not compatible'')
      else case openEntry h db key now st of
        (st1, existing) \<Rightarrow>
          if (case existing of None \<Rightarrow> False | Some e \<Rightarrow> etype e \<noteq> ZSet) then (st1, Inl kWrongType)
          else if z_xx opt \<and> existing = None then (st1, Inr 0)
          else (let e = (case existing of None \<Rightarrow> new_entry\<lparr>etype := ZSet\<rparr> | Some e \<Rightarrow> e);
                    (z, added, updated) = zopt_loop opt members (ezset e) 0 0;
                    st2 = (if z = [] then eraseEntry h db key st1
                           else putEntry h db key (touchEntry now (e\<lparr>ezset := z\<rparr>)) st1)
                in (bumpWatchKey h db key st2, Inr (if z_ch opt then added + updated else added))))"

fun zerase_all :: "string list \<Rightarrow> (string \<times> double) list \<Rightarrow> int64 \<Rightarrow> (string \<times> double) list \<times> int64" where
  "zerase_all [] z removed = (z, removed)"
| "zerase_all (m # ms) z removed =
     zerase_all ms (AList.delete m z) (if map_of z m = None then removed else removed + 1)"

definition zrem :: "hasher \<Rightarrow> int \<Rightarrow> string \<Rightarrow> string list \<Rightarrow> int64 \<Rightarrow> KvStore \<Rightarrow> KvStore \<times> (string + int64)" where
  "zrem h db key members now st =
     (if members = [] then (st, Inr 0)
      else case openEntry h db key now st of
        (st1, None) \<Rightarrow> (st1, Inr 0)
      | (st1, Some e) \<Rightarrow>
          if etype e \<noteq> ZSet then (st1, Inl kWrongType)
          else (case zerase_all members (ezset e) 0 of
                  (z, removed) \<Rightarrow>
                    (let st2 = (if z = [] then eraseEntry h db key st1 else putEntry h db key (e\<lparr>ezset := z\<rparr>) st1)
                     in (bumpWatchKey h db key st2, Inr removed))))"

definition zscore :: "hasher \<Rightarrow> int \<Rightarrow> string \<Rightarrow> string \<Rightarrow> int64 \<Rightarrow> KvStore \<Rightarrow> KvStore \<times> (string + double option)" where
  "zscore h db key member now st =
     (case openEntry h db key now st of
        (st1, None) \<Rightarrow> (st1, Inr None)
      | (st1, Some e) \<Rightarrow> if etype e \<noteq> ZSet then (st1, Inl kWrongType) else (st1, Inr (map_of (ezset e) member)))"

definition zcard :: "hasher \<Rightarrow> int \<Rightarrow> string \<Rightarrow> int64 \<Rightarrow> KvStore \<Rightarrow> KvStore \<times> (string + int64 option)" where
  "zcard h db key now st =
     (case openEntry h db key now st of
        (st1, None) \<Rightarrow> (st1, Inr None)
      | (st1, Some e) \<Rightarrow>
          if etype e \<noteq> ZSet then (st1, Inl kWrongType) else (st1, Inr (Some (int (length (ezset e))))))"

text \<open>
  The sort of \<open>zrange\<close> and \<open>zrank\<close>, on scores that are not NaN: with NaN the order of the code's comparison is not a
  strict weak order and \<open>std::sort\<close> is undefined, so the value of this definition then says nothing about the code.
\<close>

definition rankedZset :: "(string \<times> double) list \<Rightarrow> bool \<Rightarrow> (double \<times> string) list" where
  "rankedZset z reverse =
     (let ranked = sort_key (\<lambda>(s, m). (dkey s, m)) (map (\<lambda>(m, s). (s, m)) z)
      in if reverse then rev ranked else ranked)"

definition zrange :: "hasher \<Rightarrow> int \<Rightarrow> string \<Rightarrow> int64 \<Rightarrow> int64 \<Rightarrow> bool \<Rightarrow> int64 \<Rightarrow> KvStore \<Rightarrow>
    KvStore \<times> (string + (string \<times> double) list option)" where
  "zrange h db key start stop reverse now st =
     (case openEntry h db key now st of
        (st1, None) \<Rightarrow> (st1, Inr None)
      | (st1, Some e) \<Rightarrow>
          if etype e \<noteq> ZSet then (st1, Inl kWrongType)
          else (let ranked = rankedZset (ezset e) reverse in
                case normalizeListRange (int (length ranked)) start stop of
                  (s, t) \<Rightarrow>
                    if s > t \<or> length ranked = 0 then (st1, Inr (Some []))
                    else (st1, Inr (Some (map (\<lambda>i. (snd (ranked ! nat i), fst (ranked ! nat i))) [s..t])))))"

fun rank_in :: "string \<Rightarrow> (double \<times> string) list \<Rightarrow> int64 \<Rightarrow> int64 option" where
  "rank_in member [] i = None"
| "rank_in member ((s, m) # r) i = (if m = member then Some i else rank_in member r (i + 1))"

definition zrank :: "hasher \<Rightarrow> int \<Rightarrow> string \<Rightarrow> string \<Rightarrow> bool \<Rightarrow> int64 \<Rightarrow> KvStore \<Rightarrow> KvStore \<times> (string + int64 option)" where
  "zrank h db key member reverse now st =
     (case openEntry h db key now st of
        (st1, None) \<Rightarrow> (st1, Inr None)
      | (st1, Some e) \<Rightarrow>
          if etype e \<noteq> ZSet then (st1, Inl kWrongType)
          else if map_of (ezset e) member = None then (st1, Inr None)
          else (st1, Inr (rank_in member (rankedZset (ezset e) reverse) 0)))"

definition zincrby :: "hasher \<Rightarrow> int \<Rightarrow> string \<Rightarrow> string \<Rightarrow> double \<Rightarrow> int64 \<Rightarrow> KvStore \<Rightarrow>
    KvStore \<times> (string + double \<times> bool)" where
  "zincrby h db key member increment now st =
     (case openEntry h db key now st of
        (st1, Some e) \<Rightarrow>
          if etype e \<noteq> ZSet then (st1, Inl kWrongType)
          else (let existed = (map_of (ezset e) member \<noteq> None);
                    next = dadd (case map_of (ezset e) member of None \<Rightarrow> 0 | Some s \<Rightarrow> s) increment
                in (bumpWatchKey h db key (putEntry h db key (e\<lparr>ezset := omap_put member next (ezset e)\<rparr>) st1),
                    Inr (next, existed)))
      | (st1, None) \<Rightarrow>
          (bumpWatchKey h db key
             (putEntry h db key (new_entry\<lparr>etype := ZSet, ezset := omap_put member increment []\<rparr>) st1),
           Inr (increment, False)))"

text \<open>The loops of \<open>zpopmin\<close> and \<open>zpopmax\<close> start from the first member and keep the best so far.\<close>

definition zbest :: "bool \<Rightarrow> (string \<times> double) list \<Rightarrow> string \<times> double" where
  "zbest least z =
     foldl (\<lambda>best it.
         if least then (if dlt (snd it) (snd best) \<or> deq (snd it) (snd best) \<and> fst it < fst best then it else best)
         else (if dlt (snd best) (snd it) \<or> deq (snd it) (snd best) \<and> fst it > fst best then it else best))
       (hd z) z"

definition zpop :: "hasher \<Rightarrow> (nat \<Rightarrow> nat) \<Rightarrow> int \<Rightarrow> string \<Rightarrow> bool \<Rightarrow> int64 \<Rightarrow> KvStore \<Rightarrow>
    KvStore \<times> (string + (string \<times> double) option)" where
  "zpop h rng db key least now st =
     (case openEntry h db key now (evictIfNeededLocked rng now st) of
        (st1, None) \<Rightarrow> (st1, Inr None)
      | (st1, Some e) \<Rightarrow>
          if etype e \<noteq> ZSet then (st1, Inl kWrongType)
          else if ezset e = [] then (st1, Inr None)
          else (let best = zbest least (ezset e);
                    z = AList.delete (fst best) (ezset e);
                    st2 = (if z = [] then eraseEntry h db key st1
                           else putEntry h db key (touchEntry now (e\<lparr>ezset := z\<rparr>)) st1)
                in (bumpWatchKey h db key st2, Inr (Some best))))"

definition zpopmin :: "hasher \<Rightarrow> (nat \<Rightarrow> nat) \<Rightarrow> int \<Rightarrow> string \<Rightarrow> int64 \<Rightarrow> KvStore \<Rightarrow>
    KvStore \<times> (string + (string \<times> double) option)" where
  "zpopmin h rng db key now st = zpop h rng db key True now st"

definition zpopmax :: "hasher \<Rightarrow> (nat \<Rightarrow> nat) \<Rightarrow> int \<Rightarrow> string \<Rightarrow> int64 \<Rightarrow> KvStore \<Rightarrow>
    KvStore \<times> (string + (string \<times> double) option)" where
  "zpopmax h rng db key now st = zpop h rng db key False now st"

subsection \<open>Bounds of a score range\<close>

record ScoreBound =
  sb_val :: double
  sb_exclusive :: bool
  sb_neg_inf :: bool
  sb_pos_inf :: bool

definition scoreGeMin :: "double \<Rightarrow> ScoreBound \<Rightarrow> bool" where
  "scoreGeMin score b \<longleftrightarrow>
     (if sb_neg_inf b then True else if sb_exclusive b then dlt (sb_val b) score else dle (sb_val b) score)"

definition scoreLeMax :: "double \<Rightarrow> ScoreBound \<Rightarrow> bool" where
  "scoreLeMax score b \<longleftrightarrow>
     (if sb_pos_inf b then True else if sb_exclusive b then dlt score (sb_val b) else dle score (sb_val b))"

definition scoreInRange :: "double \<Rightarrow> ScoreBound \<Rightarrow> ScoreBound \<Rightarrow> bool" where
  "scoreInRange score lo hi \<longleftrightarrow> scoreGeMin score lo \<and> scoreLeMax score hi"

subsection \<open>The invariant\<close>

definition zordered :: "(string \<times> double) list \<Rightarrow> bool" where
  "zordered z \<longleftrightarrow> sorted (map fst z) \<and> distinct (map fst z)"

lemma zordered_put: "zordered z \<Longrightarrow> zordered (omap_put m s z)"
  unfolding zordered_def by (rule sorted_omap_put)

lemma zordered_delete: "zordered z \<Longrightarrow> zordered (AList.delete m z)"
  by (simp add: zordered_def sorted_keys_delete distinct_keys_delete)

lemma zordered_wf: "wf_entry e \<Longrightarrow> zordered (ezset e)"
  by (simp add: wf_entry_def zordered_def)

lemma zordered_Nil [simp]: "zordered []" "zordered [x]"
  by (simp_all add: zordered_def)

lemma wf_entry_zset:
  "wf_entry e \<Longrightarrow> etype e = ZSet \<Longrightarrow> z \<noteq> [] \<Longrightarrow> zordered z \<Longrightarrow> wf_entry (e\<lparr>ezset := z\<rparr>)"
  "z \<noteq> [] \<Longrightarrow> zordered z \<Longrightarrow> wf_entry (new_entry\<lparr>etype := ZSet, ezset := z\<rparr>)"
  by (simp_all add: wf_entry_def zordered_def)

lemma zput_all_spec:
  "zordered z \<Longrightarrow> zordered (fst (zput_all ms z n))"
  "ms \<noteq> [] \<or> z \<noteq> [] \<Longrightarrow> fst (zput_all ms z n) \<noteq> []"
  "map_of (fst (zput_all ms z n)) = map_of z ++ map_of (rev (map (\<lambda>(s, m). (m, s)) ms))"
  by (induction ms z n rule: zput_all.induct) (auto simp: zordered_put)

lemma zerase_all_spec:
  "zordered z \<Longrightarrow> zordered (fst (zerase_all ms z n))"
  "map_of (fst (zerase_all ms z n)) = (map_of z) |` (- set ms)"
  by (induction ms z n rule: zerase_all.induct)
     (auto simp: zordered_delete restrict_map_def fun_eq_iff)

lemma zopt_loop_ordered: "zordered z \<Longrightarrow> zordered (fst (zopt_loop opt ms z a u))"
  by (induction opt ms z a u rule: zopt_loop.induct) (auto simp: zordered_put split: option.split)

lemma wf_zset_ops [wf_rules]:
  assumes "wf_store h st"
  shows "wf_store h (fst (zadd h db key ms now st))" "wf_store h (fst (zrem h db key ks now st))"
    "wf_store h (fst (zscore h db key m now st))" "wf_store h (fst (zcard h db key now st))"
    "wf_store h (fst (zrange h db key a b rv now st))" "wf_store h (fst (zrank h db key m rv now st))"
    "wf_store h (fst (zincrby h db key m d now st))"
  using assms
  by (auto simp: zadd_def zrem_def zscore_def zcard_def zrange_def zrank_def zincrby_def Let_def case_prod_unfold
      intro!: wf_rules wf_entry_zset zput_all_spec(1) zerase_all_spec(1) zordered_put
      intro: wf_live zordered_wf[OF wf_live] dest: zput_all_spec(2)[THEN notE, rotated]
      split: option.split)

lemma wf_zaddOpt [wf_rules]: "wf_store h st \<Longrightarrow> wf_store h (fst (zaddOpt h db key opt ms now st))"
  by (auto simp: zaddOpt_def Let_def case_prod_unfold intro!: wf_rules wf_entry_zset zopt_loop_ordered
      intro: wf_live zordered_wf[OF wf_live] split: option.split)

lemma wf_zpop: "wf_store h st \<Longrightarrow> wf_store h (fst (zpop h rng db key least now st))"
  by (auto simp: zpop_def Let_def intro!: wf_rules wf_entry_zset zordered_delete
      intro: wf_live[OF wf_evict] zordered_wf[OF wf_live[OF wf_evict]] split: option.split)

lemma wf_zpops [wf_rules]:
  assumes "wf_store h st"
  shows "wf_store h (fst (zpopmin h rng db key now st))" "wf_store h (fst (zpopmax h rng db key now st))"
  using assms by (simp_all add: zpopmin_def zpopmax_def wf_zpop)

subsection \<open>Ranking\<close>

definition zrank_list :: "(string \<times> double) list \<Rightarrow> (string \<times> double) list" where
  "zrank_list z = map (\<lambda>(s, m). (m, s)) (rankedZset z False)"

definition zbefore :: "string \<times> double \<Rightarrow> string \<times> double \<Rightarrow> bool" where
  "zbefore x y \<longleftrightarrow> dkey (snd x) < dkey (snd y) \<or> dkey (snd x) = dkey (snd y) \<and> fst x < fst y"

definition no_nan :: "(string \<times> double) list \<Rightarrow> bool" where
  "no_nan z \<longleftrightarrow> (\<forall>(m, s) \<in> set z. \<not> is_nan s)"

text \<open>
  The comparison of the code, the one of \<open>zrange\<close> and \<open>zrank\<close>: different scores decide, else members. Without NaN it is
  \<open>zbefore\<close>; with NaN it is not a strict weak order, since NaN differs from everything and is less than nothing.
\<close>

definition rank_less :: "string \<times> double \<Rightarrow> string \<times> double \<Rightarrow> bool" where
  "rank_less x y \<longleftrightarrow> (if \<not> deq (snd x) (snd y) then dlt (snd x) (snd y) else fst x < fst y)"

lemma rank_less: "\<not> is_nan (snd x) \<Longrightarrow> \<not> is_nan (snd y) \<Longrightarrow> rank_less x y \<longleftrightarrow> zbefore x y"
  by (auto simp: rank_less_def zbefore_def deq_def dlt_def)

lemma sorted_rank_less: "no_nan r \<Longrightarrow> sorted_wrt rank_less r \<longleftrightarrow> sorted_wrt zbefore r"
  by (induction r) (auto simp: no_nan_def rank_less case_prod_unfold)

lemma zbefore_unique: "mset r = mset r' \<Longrightarrow> sorted_wrt zbefore r \<Longrightarrow> sorted_wrt zbefore r' \<Longrightarrow> r = r'"
proof (induction r arbitrary: r')
  case (Cons x xs)
  then obtain y ys where r': "r' = y # ys" by (cases r') auto
  have "x = y"
  proof (rule ccontr)
    assume "x \<noteq> y"
    moreover have "set (x # xs) = set (y # ys)" using Cons.prems(1) r' by (metis mset_eq_setD)
    ultimately have "y \<in> set xs" "x \<in> set ys" by auto
    then have "zbefore x y" "zbefore y x" using Cons.prems(2,3) r' by auto
    then show False by (auto simp: zbefore_def)
  qed
  then show ?case using Cons r' by simp
qed simp

lemma rankedZset_reverse: "rankedZset z True = rev (rankedZset z False)"
  by (simp add: rankedZset_def)

lemma length_rankedZset [simp]: "length (rankedZset z rv) = length z"
  by (simp add: rankedZset_def Let_def)

lemma mset_zrank_list: "mset (zrank_list z) = mset z"
  by (simp add: zrank_list_def rankedZset_def multiset.map_comp comp_def case_prod_unfold)

lemma zrank_list_sorted:
  assumes "distinct (map fst z)"
  shows "sorted_wrt zbefore (zrank_list z)" "distinct (map fst (zrank_list z))"
proof -
  let ?r = "rankedZset z False"
  let ?k = "\<lambda>(s, m). (dkey s, m :: string)"
  show d: "distinct (map fst (zrank_list z))"
    using assms mset_zrank_list[of z] by (metis mset_eq_imp_distinct_iff mset_map)
  have "distinct (map snd ?r)" using d by (simp add: zrank_list_def comp_def case_prod_unfold)
  then have "distinct (map ?k ?r)"
    unfolding distinct_map inj_on_def by fastforce
  moreover have "sorted (map ?k ?r)" by (simp add: rankedZset_def)
  ultimately have "sorted_wrt (<) (map ?k ?r)" by (simp add: strict_sorted_iff)
  then have "sorted_wrt (\<lambda>x y. ?k x < ?k y) ?r" by (simp only: sorted_wrt_map)
  then show "sorted_wrt zbefore (zrank_list z)"
    unfolding zrank_list_def sorted_wrt_map by (rule sorted_wrt_mono_rel[rotated]) (auto simp: zbefore_def)
qed

lemma rank_in_spec:
  "distinct (map snd r) \<Longrightarrow> i < length r \<Longrightarrow> rank_in (snd (r ! i)) r k = Some (k + int i)"
proof (induction r arbitrary: i k)
  case (Cons x r)
  obtain s m where x: "x = (s, m)" by (cases x)
  show ?case
  proof (cases i)
    case (Suc j)
    then have "snd (r ! j) \<in> set (map snd r)" using Cons.prems by simp
    then show ?thesis using Cons Suc x by auto
  qed (simp add: x)
qed simp

definition zset_at :: "hasher \<Rightarrow> int \<Rightarrow> string \<Rightarrow> int64 \<Rightarrow> KvStore \<Rightarrow> (string \<times> double) list \<Rightarrow> bool" where
  "zset_at h db key now st z \<longleftrightarrow>
     wf_store h st \<and> (\<exists>e. live h now st db key = Some e \<and> etype e = ZSet \<and> ezset e = z)"

lemma zset_atD:
  assumes "zset_at h db key now st z"
  obtains e where "live h now st db key = Some e" "etype e = ZSet" "ezset e = z" "zordered z" "z \<noteq> []" "wf_store h st"
  using assms zordered_wf[OF wf_live] unfolding zset_at_def
  by (metis wf_live wf_entry_def)

lemma zrange_slice:
  assumes "zset_at h db key now st z" "int (length z) < 2 ^ 63" "in_i64 a" "in_i64 b"
  shows "snd (zrange h db key a b rv now st) = Inr (Some (lslice a b (if rv then rev (zrank_list z) else zrank_list z)))"
proof -
  obtain e where e: "live h now st db key = Some e" "etype e = ZSet" "ezset e = z" "z \<noteq> []"
    using zset_atD[OF assms(1)] by metis
  let ?r = "rankedZset z rv"
  obtain s t where n: "normalizeListRange (int (length ?r)) a b = (s, t)" by force
  have "length ?r = length z" by simp
  then have ne: "?r \<noteq> []" "int (length ?r) < 2 ^ 63" using e(4) assms(2) by (auto simp del: length_rankedZset)
  note r = range_slice(1)[OF ne assms(3,4) n]
  have "map (\<lambda>i. (snd (?r ! nat i), fst (?r ! nat i))) [s..t] = map (\<lambda>(s, m). (m, s)) (map (\<lambda>i. ?r ! nat i) [s..t])"
    by (simp add: case_prod_unfold)
  then have "snd (zrange h db key a b rv now st) = Inr (Some (map (\<lambda>(s, m). (m, s)) (lslice a b ?r)))"
    using e n r[symmetric] ne(1) by (simp add: zrange_def Let_def)
  also have "map (\<lambda>(s, m). (m, s)) (lslice a b ?r) = lslice a b (map (\<lambda>(s, m). (m, s)) ?r)"
    by (simp add: lslice_def Let_def drop_map take_map)
  also have "map (\<lambda>(s, m). (m, s)) ?r = (if rv then rev (zrank_list z) else zrank_list z)"
    by (simp add: zrank_list_def rankedZset_reverse rev_map)
  finally show ?thesis .
qed

lemma zrank_index:
  assumes "zset_at h db key now st z" "i < length z"
  shows "snd (zrank h db key (fst (zrank_list z ! i)) False now st) = Inr (Some (int i))"
    "snd (zrank h db key (fst (rev (zrank_list z) ! i)) True now st) = Inr (Some (int i))"
proof -
  obtain e where e: "live h now st db key = Some e" "etype e = ZSet" "ezset e = z" "zordered z"
    using zset_atD[OF assms(1)] by metis
  have len: "length (zrank_list z) = length z" by (simp add: zrank_list_def)
  have mem: "map_of z (fst x) \<noteq> None" if "x \<in> set (zrank_list z)" for x
    using that mset_eq_setD[OF mset_zrank_list[of z]] by (simp add: map_of_eq_None_iff)
  have dist: "distinct (map snd (rankedZset z False))" "distinct (map snd (rankedZset z True))"
    using zrank_list_sorted(2)[of z] e(4)
    by (simp_all add: zordered_def zrank_list_def comp_def case_prod_unfold rankedZset_reverse rev_map[symmetric])
  have el: "fst (zrank_list z ! i) = snd (rankedZset z False ! i)" "fst (rev (zrank_list z) ! i) = snd (rankedZset z True ! i)"
    using assms(2) by (simp_all add: zrank_list_def case_prod_unfold rankedZset_reverse rev_map)
  show "snd (zrank h db key (fst (zrank_list z ! i)) False now st) = Inr (Some (int i))"
    using rank_in_spec[OF dist(1), of i 0] e mem[of "zrank_list z ! i"] assms(2) len by (simp add: zrank_def el)
  show "snd (zrank h db key (fst (rev (zrank_list z) ! i)) True now st) = Inr (Some (int i))"
    using rank_in_spec[OF dist(2), of i 0] e mem[of "rev (zrank_list z) ! i"] assms(2) len nth_mem[of i "rev (zrank_list z)"]
    by (simp add: zrank_def el)
qed

text \<open>C38: Sorted sets without NaN rank by score and then by member: the ranking is the one permutation of the set that
  the comparison of the code orders strictly, whatever the sorting algorithm; \<open>ZRANGE\<close> returns the requested slice of
  it and \<open>ZREVRANGE\<close> the slice of its reverse, and \<open>ZRANK\<close>
  and \<open>ZREVRANK\<close> return exactly the position at which those two list the member.\<close>

theorem zset_ranking:
  assumes "zset_at h db key now st z" "no_nan z" "int (length z) < 2 ^ 63" "in_i64 a" "in_i64 b" "r = zrank_list z"
  shows "(\<forall>r'. mset r' = mset z \<and> sorted_wrt rank_less r' \<longleftrightarrow> r' = r) \<and>
    snd (zrange h db key a b False now st) = Inr (Some (lslice a b r)) \<and>
    snd (zrange h db key a b True now st) = Inr (Some (lslice a b (rev r))) \<and>
    (\<forall>i < length r. snd (zrank h db key (fst (r ! i)) False now st) = Inr (Some (int i)) \<and>
       snd (zrank h db key (fst (rev r ! i)) True now st) = Inr (Some (int i))) \<and>
    (\<forall>m. map_of z m = None \<longrightarrow> snd (zrank h db key m False now st) = Inr None)"
proof -
  obtain e where e: "live h now st db key = Some e" "etype e = ZSet" "ezset e = z" "zordered z"
    using zset_atD[OF assms(1)] by metis
  have "length r = length z" by (simp add: assms(6) zrank_list_def)
  moreover have "snd (zrank h db key m False now st) = Inr None" if "map_of z m = None" for m
    using e that by (simp add: zrank_def)
  moreover have "mset r' = mset z \<and> sorted_wrt rank_less r' \<longleftrightarrow> r' = r" for r'
  proof -
    have r: "mset r = mset z" "sorted_wrt zbefore r"
      using mset_zrank_list[of z] zrank_list_sorted(1)[of z] e(4) by (simp_all add: assms(6) zordered_def)
    have "no_nan r'" if "mset r' = mset z" for r' using assms(2) mset_eq_setD[OF that] by (simp add: no_nan_def)
    then show ?thesis using r zbefore_unique[of r' r] by (auto simp: sorted_rank_less)
  qed
  ultimately show ?thesis
    using zrange_slice[OF assms(1,3-5)] zrank_index[OF assms(1)] by (simp add: assms(6))
qed

text \<open>Scores 2.5, -0.0, 0.0 and 2.5 again.\<close>

definition zset_store :: KvStore where
  "zset_store = fst (zadd length 0 ''z'' [(0x4004000000000000, ''b''), (0x8000000000000000, ''d''), (0, ''c''),
     (0x4004000000000000, ''a'')] 5 new_store)"

lemma zset_store_at:
  "zset_at length 0 ''z'' 7 zset_store
     [(''a'', 0x4004000000000000), (''b'', 0x4004000000000000), (''c'', 0), (''d'', 0x8000000000000000)]"
proof -
  have "live length 7 zset_store 0 ''z'' = Some (new_entry\<lparr>etype := ZSet, ezset :=
      [(''a'', 0x4004000000000000), (''b'', 0x4004000000000000), (''c'', 0), (''d'', 0x8000000000000000)]\<rparr>)"
    by code_simp
  then show ?thesis by (simp add: zset_at_def zset_store_def wf_rules)
qed

theorem zset_ranking_witness:
  "snd (zrange length 0 ''z'' 0 (- 2) False 7 zset_store) =
     Inr (Some [(''c'', 0), (''d'', 0x8000000000000000), (''a'', 0x4004000000000000)]) \<and>
   snd (zrank length 0 ''z'' ''q'' False 7 zset_store) = Inr None"
proof -
  have "zrank_list [(''a'', 0x4004000000000000), (''b'', 0x4004000000000000), (''c'', 0), (''d'', 0x8000000000000000)] =
      [(''c'', 0), (''d'', 0x8000000000000000), (''a'', 0x4004000000000000), (''b'', 0x4004000000000000)]" by code_simp
  then show ?thesis
    using zset_ranking[OF zset_store_at _ _ _ _ refl, of 0 "- 2"] by (simp add: in_i64_def lslice_def no_nan_def is_nan_def dmag_def kInf_def)
qed

subsection \<open>Taking the first and the last\<close>

definition zleq :: "bool \<Rightarrow> string \<times> double \<Rightarrow> string \<times> double \<Rightarrow> bool" where
  "zleq least x y \<longleftrightarrow> (if least then \<not> zbefore y x else \<not> zbefore x y)"

lemma zleq_trans: "zleq l x y \<Longrightarrow> zleq l y w \<Longrightarrow> zleq l x w"
  by (auto simp: zleq_def zbefore_def split: if_splits)

lemma zleq_refl [simp]: "zleq l x x"
  by (simp add: zleq_def zbefore_def)

definition zpick :: "bool \<Rightarrow> string \<times> double \<Rightarrow> string \<times> double \<Rightarrow> string \<times> double" where
  "zpick least best it =
     (if least then (if dlt (snd it) (snd best) \<or> deq (snd it) (snd best) \<and> fst it < fst best then it else best)
      else (if dlt (snd best) (snd it) \<or> deq (snd it) (snd best) \<and> fst it > fst best then it else best))"

lemma zbest_zpick: "zbest least z = foldl (zpick least) (hd z) z"
  by (simp add: zbest_def zpick_def[abs_def])

lemma zpick_best:
  assumes "\<not> is_nan (snd x)" "\<not> is_nan (snd y)"
  shows "zpick l x y \<in> {x, y}" "zleq l (zpick l x y) x" "zleq l (zpick l x y) y"
  using assms by (auto simp: zpick_def zleq_def zbefore_def dlt_def deq_def)

lemma foldl_zpick:
  assumes "\<not> is_nan (snd x)" "no_nan z"
  shows "foldl (zpick l) x z \<in> insert x (set z) \<and> (\<forall>y \<in> insert x (set z). zleq l (foldl (zpick l) x z) y)"
  using assms
proof (induction z arbitrary: x)
  case (Cons y z)
  then have nn: "\<not> is_nan (snd y)" "no_nan z" by (auto simp: no_nan_def)
  note pk = zpick_best[OF Cons.prems(1) nn(1), of l]
  have "\<not> is_nan (snd (zpick l x y))" using pk(1) Cons.prems(1) nn(1) by auto
  note ih = Cons.IH[OF this nn(2)]
  let ?b = "foldl (zpick l) (zpick l x y) z"
  have "zleq l ?b (zpick l x y)" using ih by blast
  then have "zleq l ?b x" "zleq l ?b y" using zleq_trans pk(2,3) by blast+
  then show ?case using ih pk(1) by auto
qed simp

lemma zbest_extreme:
  assumes "no_nan z" "z \<noteq> []"
  shows "zbest l z \<in> set z" "y \<in> set z \<Longrightarrow> zleq l (zbest l z) y"
  using foldl_zpick[of "hd z" z l] assms hd_in_set[of z]
  by (auto simp: zbest_zpick no_nan_def case_prod_unfold)

lemma zleq_antisym:
  "zordered z \<Longrightarrow> x \<in> set z \<Longrightarrow> y \<in> set z \<Longrightarrow> zleq l x y \<Longrightarrow> zleq l y x \<Longrightarrow> x = y"
proof -
  assume z: "zordered z" "x \<in> set z" "y \<in> set z" and le: "zleq l x y" "zleq l y x"
  have "fst x = fst y" using le by (auto simp: zleq_def zbefore_def split: if_splits)
  moreover have "inj_on fst (set z)" using z(1) by (simp add: zordered_def distinct_map)
  ultimately show "x = y" using z(2,3) by (auto dest: inj_onD)
qed

lemma zbefore_zleq: "zbefore x y \<Longrightarrow> zleq True x y" "zbefore x y \<Longrightarrow> zleq False y x"
  by (auto simp: zleq_def zbefore_def)

lemma sorted_ends:
  assumes "sorted_wrt zbefore r" "x \<in> set r"
  shows "zleq True (hd r) x" "zleq False (last r) x"
proof -
  show "zleq True (hd r) x" using assms by (cases r) (auto intro: zbefore_zleq)
  show "zleq False (last r) x"
    using assms by (cases r rule: rev_cases) (auto simp: sorted_wrt_append intro: zbefore_zleq)
qed

lemma zbest_ends:
  assumes "zordered z" "no_nan z" "z \<noteq> []"
  shows "zbest True z = hd (zrank_list z)" "zbest False z = last (zrank_list z)"
proof -
  let ?r = "zrank_list z"
  have st: "set ?r = set z" using mset_eq_setD[OF mset_zrank_list[of z]] .
  then have ne: "?r \<noteq> []" using assms(3) by auto
  have sw: "sorted_wrt zbefore ?r" using zrank_list_sorted(1) assms(1) by (simp add: zordered_def)
  have in_z: "hd ?r \<in> set z" "last ?r \<in> set z" using ne st hd_in_set last_in_set by blast+
  have "zleq True (hd ?r) (zbest True z)"
    using sorted_ends(1)[OF sw] zbest_extreme(1)[OF assms(2,3)] st by simp
  then show "zbest True z = hd ?r"
    using zleq_antisym[OF assms(1)] zbest_extreme[OF assms(2,3)] in_z by blast
  have "zleq False (last ?r) (zbest False z)"
    using sorted_ends(2)[OF sw] zbest_extreme(1)[OF assms(2,3)] st by simp
  then show "zbest False z = last ?r"
    using zleq_antisym[OF assms(1)] zbest_extreme[OF assms(2,3)] in_z by blast
qed

lemma zrank_list_delete: "zrank_list (AList.delete m z) = filter (\<lambda>x. fst x \<noteq> m) (zrank_list z)"
  by (simp add: zrank_list_def rankedZset_def AList.delete_eq filter_map filter_sort comp_def case_prod_unfold eq_commute[of m])

lemma filter_ends:
  assumes "distinct (map fst r)" "r \<noteq> []"
  shows "filter (\<lambda>x. fst x \<noteq> fst (hd r)) r = tl r" "filter (\<lambda>x. fst x \<noteq> fst (last r)) r = butlast r"
proof -
  show "filter (\<lambda>x. fst x \<noteq> fst (hd r)) r = tl r"
    using assms by (cases r) (auto simp: filter_id_conv image_iff)
  show "filter (\<lambda>x. fst x \<noteq> fst (last r)) r = butlast r"
    using assms by (cases r rule: rev_cases) (auto simp: filter_id_conv image_iff)
qed

lemma zpop_state:
  assumes "zset_at h db key now (evictIfNeededLocked rng now st) z" "s0 = evictIfNeededLocked rng now st"
    "zpop h rng db key l now st = (st', r)"
  shows "r = Inr (Some (zbest l z))" "wf_store h st'"
    "zset_at h db key now st' (AList.delete (fst (zbest l z)) z) \<or>
       AList.delete (fst (zbest l z)) z = [] \<and> live h now st' db key = None"
    "(db', k) \<noteq> (db, key) \<Longrightarrow> live h now st' db' k = live h now s0 db' k"
proof -
  obtain e where e: "live h now s0 db key = Some e" "etype e = ZSet" "ezset e = z" "z \<noteq> []" "wf_store h s0"
    using zset_atD[OF assms(1)] assms(2) by metis
  have st': "st' = fst (zpop h rng db key l now st)" "r = snd (zpop h rng db key l now st)" using assms(3) by simp_all
  have ne: "\<not> isExpired (e\<lparr>ezset := v, lru_ms := now\<rparr>) now" for v
    using live_not_expired[OF e(1)] by (simp add: isExpired_def)
  note d = zpop_def assms(2)[symmetric] Let_def
  show "r = Inr (Some (zbest l z))" using e by (simp add: st' d)
  show "wf_store h st'" unfolding st' d
    using e ne zordered_delete[OF zordered_wf[OF wf_live[OF e(5,1)]]] wf_live[OF e(5,1)]
    by (auto intro!: wf_rules wf_entry_zset)
  then show "zset_at h db key now st' (AList.delete (fst (zbest l z)) z) \<or>
       AList.delete (fst (zbest l z)) z = [] \<and> live h now st' db key = None"
    using e ne wf_shaped[OF e(5)] by (auto simp: zset_at_def st' d store_simps touchEntry_def)
  show "live h now st' db' k = live h now s0 db' k" if "(db', k) \<noteq> (db, key)"
    using e wf_shaped[OF e(5)] that by (auto simp: st' d store_simps)
qed

text \<open>\<open>ZPOPMIN\<close> and \<open>ZPOPMAX\<close> take the first and the last element of the ranking: they return it, what
  remains is the ranking without it (and no key at all once nothing remains), and no other key changes, apart from
  what the eviction before the operation has taken. Scores must not be NaN.\<close>

theorem zpop_ends:
  assumes "zset_at h db key now (evictIfNeededLocked rng now st) z" "no_nan z"
    "zpopmin h rng db key now st = (lo, r)" "zpopmax h rng db key now st = (hi, r')"
  shows "r = Inr (Some (hd (zrank_list z))) \<and> r' = Inr (Some (last (zrank_list z))) \<and>
    (if length z = 1 then live h now lo db key = None \<and> live h now hi db key = None
     else (\<exists>z1 z2. zset_at h db key now lo z1 \<and> zrank_list z1 = tl (zrank_list z) \<and>
                   zset_at h db key now hi z2 \<and> zrank_list z2 = butlast (zrank_list z))) \<and>
    (\<forall>db' k. (db', k) \<noteq> (db, key) \<longrightarrow>
       live h now lo db' k = live h now (evictIfNeededLocked rng now st) db' k \<and>
       live h now hi db' k = live h now (evictIfNeededLocked rng now st) db' k)"
proof -
  have z: "zordered z" "z \<noteq> []" using zset_atD[OF assms(1)] by metis+
  note b = zbest_ends[OF z(1) assms(2) z(2)]
  have r: "distinct (map fst (zrank_list z))" "zrank_list z \<noteq> []" "length (zrank_list z) = length z"
    using zrank_list_sorted(2)[of z] z mset_zrank_list[of z] by (auto simp: zordered_def dest: mset_eq_length)
  have tl: "zrank_list (AList.delete (fst (zbest True z)) z) = tl (zrank_list z)"
    "zrank_list (AList.delete (fst (zbest False z)) z) = butlast (zrank_list z)"
    using filter_ends[OF r(1,2)] b by (simp_all add: zrank_list_delete)
  have len: "length (zrank_list x) = length x" for x by (simp add: zrank_list_def)
  have shrunk: "length (AList.delete (fst (zbest l z)) z) = length z - 1" for l
    using tl r(3) len[of "AList.delete (fst (zbest l z)) z"] by (cases l) simp_all
  have "0 < length z" using z(2) by simp
  then have one: "AList.delete (fst (zbest l z)) z = [] \<longleftrightarrow> length z = 1" for l
    unfolding length_0_conv[symmetric] shrunk by linarith
  note p = zpop_state[OF assms(1) refl assms(3)[unfolded zpopmin_def]]
    zpop_state[OF assms(1) refl assms(4)[unfolded zpopmax_def]]
  have empty: "\<not> zset_at h db key now s []" for s using zset_atD by blast
  have rest: "length z \<noteq> 1 \<Longrightarrow> zset_at h db key now lo (AList.delete (fst (zbest True z)) z)"
    "length z \<noteq> 1 \<Longrightarrow> zset_at h db key now hi (AList.delete (fst (zbest False z)) z)"
    using p(3,7) one by blast+
  have gone: "length z = 1 \<Longrightarrow> live h now lo db key = None" "length z = 1 \<Longrightarrow> live h now hi db key = None"
    using p(3,7) one empty by metis+
  show ?thesis
  proof (intro conjI)
    show "r = Inr (Some (hd (zrank_list z)))" "r' = Inr (Some (last (zrank_list z)))" using p(1,5) b by simp_all
    show "if length z = 1 then live h now lo db key = None \<and> live h now hi db key = None
       else (\<exists>z1 z2. zset_at h db key now lo z1 \<and> zrank_list z1 = tl (zrank_list z) \<and>
                     zset_at h db key now hi z2 \<and> zrank_list z2 = butlast (zrank_list z))"
      using rest gone tl by auto
  qed (use p(4,8) in blast)
qed

theorem zpop_ends_witness:
  "snd (zpopmin length id 0 ''z'' 7 zset_store) = Inr (Some (''c'', 0)) \<and>
   snd (zpopmax length id 0 ''z'' 7 zset_store) = Inr (Some (''b'', 0x4004000000000000))"
proof -
  let ?z = "[(''a'', 0x4004000000000000), (''b'', 0x4004000000000000), (''c'', 0), (''d'', 0x8000000000000000)]"
  have "zrank_list ?z = [(''c'', 0), (''d'', 0x8000000000000000), (''a'', 0x4004000000000000), (''b'', 0x4004000000000000)]"
    and nn: "no_nan ?z" by code_simp+
  moreover have ev: "evictIfNeededLocked id 7 zset_store = zset_store" by code_simp
  ultimately show ?thesis
    using zpop_ends[of length 0 "''z''" 7 id zset_store ?z, unfolded ev, OF zset_store_at nn surjective_pairing surjective_pairing]
    by simp
qed

subsection \<open>The options of ZADD\<close>

definition zview :: "hasher \<Rightarrow> int \<Rightarrow> string \<Rightarrow> int64 \<Rightarrow> KvStore \<Rightarrow> string \<rightharpoonup> double" where
  "zview h db key now st = (case live h now st db key of None \<Rightarrow> Map.empty | Some e \<Rightarrow> map_of (ezset e))"

text \<open>How the options let the score of one member change.\<close>

definition zopt_allows :: "ZaddOptions \<Rightarrow> double option \<Rightarrow> double option \<Rightarrow> bool" where
  "zopt_allows opt old new \<longleftrightarrow>
     (case (old, new) of
        (None, None) \<Rightarrow> True
      | (None, Some s) \<Rightarrow> \<not> z_xx opt
      | (Some s, None) \<Rightarrow> False
      | (Some s, Some t) \<Rightarrow> s = t \<or> (\<not> z_nx opt \<and> (z_gt opt \<longrightarrow> dlt s t) \<and> (z_lt opt \<longrightarrow> dlt t s)))"

lemma dlt_trans: "dlt a b \<Longrightarrow> dlt b c \<Longrightarrow> dlt a c"
  by (auto simp: dlt_def)

lemma dle_total: "\<not> is_nan a \<Longrightarrow> \<not> is_nan b \<Longrightarrow> \<not> dle a b \<longleftrightarrow> dlt b a"
  by (auto simp: dle_def dlt_def deq_def)

lemma zopt_allows_refl [simp]: "zopt_allows opt x x"
  by (simp add: zopt_allows_def split: option.split)

lemma zopt_allows_trans:
  "zopt_allows opt x y \<Longrightarrow> zopt_allows opt y w \<Longrightarrow> zopt_allows opt x w"
  using dlt_trans by (auto simp: zopt_allows_def split: option.splits)

lemma no_nan_put: "no_nan z \<Longrightarrow> \<not> is_nan s \<Longrightarrow> no_nan (omap_put m s z)"
  unfolding no_nan_def by (induction m s z rule: omap_put.induct) auto

text \<open>One round of the loop.\<close>

definition zopt_takes :: "ZaddOptions \<Rightarrow> double \<Rightarrow> double option \<Rightarrow> bool" where
  "zopt_takes opt s cur \<longleftrightarrow>
     (case cur of
        None \<Rightarrow> \<not> z_xx opt
      | Some old \<Rightarrow> \<not> z_nx opt \<and> \<not> (z_gt opt \<and> dle s old) \<and> \<not> (z_lt opt \<and> dle old s) \<and> \<not> deq old s)"

lemma zopt_loop_round:
  "zopt_loop opt ((s, m) # ms) z a u =
     (if zopt_takes opt s (map_of z m)
      then (if map_of z m = None then zopt_loop opt ms (omap_put m s z) (a + 1) u
            else zopt_loop opt ms (omap_put m s z) a (u + 1))
      else zopt_loop opt ms z a u)"
  by (auto simp: zopt_takes_def split: option.split)

lemma zopt_takes_allowed:
  assumes "no_nan z" "\<not> is_nan s" "zopt_takes opt s (map_of z m)"
  shows "zopt_allows opt (map_of z k) (map_of (omap_put m s z) k)"
proof -
  have "\<not> is_nan old" if "map_of z m = Some old" for old
    using assms(1) map_of_SomeD[OF that] by (auto simp: no_nan_def)
  then show ?thesis
    using assms(2,3) by (auto simp: zopt_takes_def zopt_allows_def dle_total split: option.splits)
qed

lemma zopt_loop_allows:
  assumes "no_nan z" "no_nan (map (\<lambda>(s, m). (m, s)) ms)" "zopt_loop opt ms z a u = (z', a', u')"
  shows "zopt_allows opt (map_of z k) (map_of z' k)"
  using assms
proof (induction ms arbitrary: z a u)
  case (Cons x ms)
  obtain s m where x: "x = (s, m)" by (cases x)
  have nn: "no_nan (map (\<lambda>(s, m). (m, s)) ms)" "\<not> is_nan s" using Cons.prems(2) by (auto simp: no_nan_def x)
  show ?case
  proof (cases "zopt_takes opt s (map_of z m)")
    case True
    then have "zopt_allows opt (map_of (omap_put m s z) k) (map_of z' k)"
      using Cons.IH[OF no_nan_put[OF Cons.prems(1) nn(2)] nn(1)] Cons.prems(3)
      by (auto simp: x zopt_loop_round simp del: zopt_loop.simps map_of_omap_put split: if_splits)
    then show ?thesis using zopt_takes_allowed[OF Cons.prems(1) nn(2) True] zopt_allows_trans by blast
  next
    case False
    then show ?thesis
      using Cons.IH[OF Cons.prems(1) nn(1)] Cons.prems(3) by (simp add: x zopt_loop_round del: zopt_loop.simps)
  qed
qed simp

lemma zopt_loop_count:
  assumes "zordered z" "zopt_loop opt ms z a u = (z', a', u')"
  shows "a' = a + int (length z') - int (length z) \<and> u \<le> u' \<and> fst ` set z' \<subseteq> fst ` set z \<union> snd ` set ms"
  using assms
proof (induction ms arbitrary: z a u)
  case (Cons x ms)
  obtain s m where x: "x = (s, m)" by (cases x)
  have len: "length (omap_put m s z) = length z + (if map_of z m = None then 1 else 0)"
    using Cons.prems(1) by (simp add: zordered_def length_omap_put)
  have "zopt_loop opt ms z a u = (z', a', u') \<or> zopt_loop opt ms (omap_put m s z) (a + 1) u = (z', a', u') \<and> map_of z m = None
      \<or> zopt_loop opt ms (omap_put m s z) a (u + 1) = (z', a', u') \<and> map_of z m \<noteq> None"
    using Cons.prems(2) by (simp add: x zopt_loop_round del: zopt_loop.simps split: if_splits)
  then consider "zopt_loop opt ms z a u = (z', a', u')"
    | "zopt_loop opt ms (omap_put m s z) (a + 1) u = (z', a', u')" "map_of z m = None"
    | "zopt_loop opt ms (omap_put m s z) a (u + 1) = (z', a', u')" "map_of z m \<noteq> None" by (elim disjE conjE)
  then show ?case
  proof cases
    case 1
    then show ?thesis using Cons.IH[OF Cons.prems(1) 1] by auto
  next
    case 2
    then show ?thesis using Cons.IH[OF zordered_put[OF Cons.prems(1)] 2(1)] len x by auto
  next
    case 3
    then show ?thesis using Cons.IH[OF zordered_put[OF Cons.prems(1)] 3(1)] len x by auto
  qed
qed simp

text \<open>\<open>ZADD\<close> with options, on a key that is missing or holds a sorted set: every member's score changes only
  as the options allow (\<open>NX\<close> never changes a score, \<open>XX\<close> never adds a member, \<open>GT\<close> only raises and \<open>LT\<close> only
  lowers scores, and no member is ever lost), only the named members are added, the result counts the members
  added (unless \<open>CH\<close> asks for the changes too, which only adds to it), and no other key changes. Scores must not
  be NaN.\<close>

theorem zaddOpt_options:
  assumes "wf_store h st" "no_nan (map (\<lambda>(s, m). (m, s)) ms)"
    "\<And>e. live h now st db key = Some e \<Longrightarrow> etype e = ZSet \<and> no_nan (ezset e)"
    "zaddOpt h db key opt ms now st = (st', Inr n)"
  defines "old \<equiv> zview h db key now st" and "new \<equiv> zview h db key now st'"
  shows "(\<forall>m. zopt_allows opt (old m) (new m)) \<and> dom new \<subseteq> dom old \<union> snd ` set ms \<and>
    int (card (dom new)) - int (card (dom old)) \<le> n \<and>
    (\<not> z_ch opt \<longrightarrow> n = int (card (dom new)) - int (card (dom old))) \<and>
    (\<forall>db' k. (db', k) \<noteq> (db, key) \<longrightarrow> live h now st' db' k = live h now st db' k)"
proof -
  note sh = wf_shaped[OF assms(1)]
  let ?e = "case live h now st db key of None \<Rightarrow> new_entry\<lparr>etype := ZSet\<rparr> | Some e \<Rightarrow> e"
  have z: "no_nan (ezset ?e)" "zordered (ezset ?e)" "old = map_of (ezset ?e)" "\<not> isExpired ?e now"
    using assms(3) zordered_wf[OF wf_live[OF assms(1)]] live_not_expired[of h now st db key]
    by (auto simp: no_nan_def old_def zview_def isExpired_def split: option.split)
  have card: "card (dom (map_of l)) = length l" if "zordered l" for l
    using that distinct_card[of "map fst l"] by (simp add: zordered_def dom_map_of_conv_image_fst)
  show ?thesis
  proof (cases "ms = [] \<or> z_xx opt \<and> live h now st db key = None")
    case True
    then have "n = 0" "\<And>db' k. live h now st' db' k = live h now st db' k"
      using assms(4) sh by (auto simp: zaddOpt_def store_simps split: if_splits)
    then show ?thesis by (simp add: old_def new_def zview_def)
  next
    case False
    obtain z' a u where l: "zopt_loop opt ms (ezset ?e) 0 0 = (z', a, u)" by (metis prod_cases3)
    have st': "n = (if z_ch opt then a + u else a)"
      "st' = bumpWatchKey h db key (if z' = [] then eraseEntry h db key (fst (openEntry h db key now st))
         else putEntry h db key (touchEntry now (?e\<lparr>ezset := z'\<rparr>)) (fst (openEntry h db key now st)))"
      using False assms(3,4) l by (auto simp: zaddOpt_def Let_def split: if_splits option.splits)
    have new: "new = map_of z'" using sh z(4)
      by (auto simp: new_def zview_def st'(2) store_simps touchEntry_def isExpired_def)
    note c = zopt_loop_count[OF z(2) l]
    have "zordered z'" using zopt_loop_ordered[OF z(2), of opt ms 0 0] l by simp
    then have cards: "card (dom new) = length z'" "card (dom old) = length (ezset ?e)"
      using card z(2,3) new by simp_all
    have "\<forall>m. zopt_allows opt (old m) (new m)"
      using zopt_loop_allows[OF z(1) assms(2) l] by (simp add: new z(3))
    moreover have "dom new \<subseteq> dom old \<union> snd ` set ms" using c by (simp add: new z(3) dom_map_of_conv_image_fst)
    moreover have "\<forall>db' k. (db', k) \<noteq> (db, key) \<longrightarrow> live h now st' db' k = live h now st db' k"
      using sh by (auto simp: st'(2) store_simps)
    ultimately show ?thesis using c st'(1) cards by simp
  qed
qed

theorem zaddOpt_options_witness:
  "let gt = \<lparr>z_nx = False, z_xx = False, z_gt = True, z_lt = False, z_ch = False\<rparr>;
       (st', r) = zaddOpt length 0 ''z'' gt [(0x3FF0000000000000, ''a''), (0x4010000000000000, ''q'')] 7 zset_store
   in r = Inr 1 \<and> zview length 0 ''z'' 7 st' ''a'' = Some 0x4004000000000000 \<and>
      int (card (dom (zview length 0 ''z'' 7 st'))) = 1 + int (card (dom (zview length 0 ''z'' 7 zset_store)))"
proof -
  let ?gt = "\<lparr>z_nx = False, z_xx = False, z_gt = True, z_lt = False, z_ch = False\<rparr>"
  let ?ms = "[(0x3FF0000000000000, ''a''), (0x4010000000000000, ''q'')] :: (double \<times> string) list"
  obtain st' r where ex: "zaddOpt length 0 ''z'' ?gt ?ms 7 zset_store = (st', r)" by force
  obtain e where e: "live length 7 zset_store 0 ''z'' = Some e" "etype e = ZSet" "wf_store length zset_store"
      "ezset e = [(''a'', 0x4004000000000000), (''b'', 0x4004000000000000), (''c'', 0), (''d'', 0x8000000000000000)]"
    using zset_atD[OF zset_store_at] by metis
  have nn: "no_nan (ezset e)" "no_nan (map (\<lambda>(s, m). (m, s)) ?ms)" unfolding e(4) by code_simp+
  have "snd (zaddOpt length 0 ''z'' ?gt ?ms 7 zset_store) = Inr 1"
    "zview length 0 ''z'' 7 (fst (zaddOpt length 0 ''z'' ?gt ?ms 7 zset_store)) ''a'' = Some 0x4004000000000000"
    by code_simp+
  then have r: "r = Inr 1" "zview length 0 ''z'' 7 st' ''a'' = Some 0x4004000000000000" by (simp_all add: ex)
  have hyp: "etype e' = ZSet \<and> no_nan (ezset e')" if "live length 7 zset_store 0 ''z'' = Some e'" for e'
    using that e nn(1) by simp
  have "int (card (dom (zview length 0 ''z'' 7 st'))) = 1 + int (card (dom (zview length 0 ''z'' 7 zset_store)))"
    using zaddOpt_options[OF e(3) nn(2) hyp ex[unfolded r(1)]] by simp
  then show ?thesis using r by (simp add: ex)
qed

end
