(* ===== verification/ZScores.thy ===== *)
theory ZScores
  imports ZSets Strings
begin

text \<open>
  The operations on scores and numbers in text form (\<open>zero/kv/store/kv_store_extras.cc\<close>): ranges of scores,
  the scan of a sorted set and \<open>INCRBYFLOAT\<close>.
\<close>

subsection \<open>Operations\<close>

definition parseScoreBound :: "string \<Rightarrow> ScoreBound option" where
  "parseScoreBound raw =
     (let none = \<lparr>sb_val = 0, sb_exclusive = False, sb_neg_inf = False, sb_pos_inf = False\<rparr> in
      if raw = [] then None
      else if raw \<in> set [''-inf'', ''-INF''] then Some (none\<lparr>sb_neg_inf := True\<rparr>)
      else if raw \<in> set [''+inf'', ''inf'', ''+INF'', ''INF''] then Some (none\<lparr>sb_pos_inf := True\<rparr>)
      else (let excl = (hd raw = CHR ''(''); s = (if excl then tl raw else raw)
            in case strtod s of
                 (v, n) \<Rightarrow> if n \<noteq> 0 \<and> \<not> is_nan v then Some (none\<lparr>sb_val := v, sb_exclusive := excl\<rparr>) else None))"

definition kNotFloatRange :: string where
  "kNotFloatRange = ''ERR min or max is not a float''"

text \<open>The loop of \<open>zrangeByScore\<close>: the count is compared after an element has been added.\<close>

fun score_loop :: "ScoreBound \<Rightarrow> ScoreBound \<Rightarrow> int64 \<Rightarrow> int64 \<Rightarrow> (double \<times> string) list \<Rightarrow> int64 \<Rightarrow>
    (string \<times> double) list \<Rightarrow> (string \<times> double) list" where
  "score_loop lo hi offset n [] skipped out = out"
| "score_loop lo hi offset n ((s, m) # r) skipped out =
     (if \<not> scoreInRange s lo hi then score_loop lo hi offset n r skipped out
      else if skipped < offset then score_loop lo hi offset n r (skipped + 1) out
      else if n \<ge> 0 \<and> int (length (out @ [(m, s)])) \<ge> n then out @ [(m, s)]
      else score_loop lo hi offset n r skipped (out @ [(m, s)]))"

definition zrangeByScore :: "hasher \<Rightarrow> int \<Rightarrow> string \<Rightarrow> string \<Rightarrow> string \<Rightarrow> bool \<Rightarrow> int64 \<Rightarrow> int64 \<Rightarrow> int64 \<Rightarrow> KvStore \<Rightarrow>
    KvStore \<times> (string + (string \<times> double) list option)" where
  "zrangeByScore h db key lo hi reverse offset n now st =
     (case (parseScoreBound lo, parseScoreBound hi) of
        (Some blo, Some bhi) \<Rightarrow>
          (case openEntry h db key now st of
             (st1, None) \<Rightarrow> (st1, Inr None)
           | (st1, Some e) \<Rightarrow>
               if etype e \<noteq> ZSet then (st1, Inl kWrongType)
               else (st1, Inr (Some (score_loop blo bhi offset n (rankedZset (ezset e) reverse) 0 []))))
      | _ \<Rightarrow> (st, Inl kNotFloatRange))"

definition zcount :: "hasher \<Rightarrow> int \<Rightarrow> string \<Rightarrow> string \<Rightarrow> string \<Rightarrow> int64 \<Rightarrow> KvStore \<Rightarrow> KvStore \<times> (string + int64 option)" where
  "zcount h db key lo hi now st =
     (case (parseScoreBound lo, parseScoreBound hi) of
        (Some blo, Some bhi) \<Rightarrow>
          (case openEntry h db key now st of
             (st1, None) \<Rightarrow> (st1, Inr None)
           | (st1, Some e) \<Rightarrow>
               if etype e \<noteq> ZSet then (st1, Inl kWrongType)
               else (st1, Inr (Some (foldl (\<lambda>n (m, s). if scoreInRange s blo bhi then n + 1 else n) 0 (ezset e)))))
      | _ \<Rightarrow> (st, Inl kNotFloatRange))"

text \<open>Scores and members go into one list of strings, which is sorted as a whole.\<close>

definition zscan :: "hasher \<Rightarrow> int \<Rightarrow> string \<Rightarrow> uint64 \<Rightarrow> string \<Rightarrow> int \<Rightarrow> int64 \<Rightarrow> KvStore \<Rightarrow>
    KvStore \<times> (string + uint64 \<times> string list)" where
  "zscan h db key cursor pattern n now st =
     (case openEntry h db key now st of
        (st1, None) \<Rightarrow> (st1, Inr (0, []))
      | (st1, Some e) \<Rightarrow>
          if etype e \<noteq> ZSet then (st1, Inl kWrongType)
          else (let flat = concat (map (\<lambda>(m, s). if matchGlob pattern m then [fmt_f s, m] else []) (ezset e))
                in (st1, Inr (scanFlatItems (sort flat) cursor n))))"

definition formatDouble :: "double \<Rightarrow> string" where
  "formatDouble v =
     (if is_nan v \<or> dmag v = kInf then fmt_f v
      else (let s = fmt_g 17 v
            in if CHR ''.'' \<in> set s \<and> CHR ''e'' \<notin> set s \<and> CHR ''E'' \<notin> set s
               then (let s' = strip_zeros s in if s' \<noteq> [] \<and> last s' = CHR ''.'' then butlast s' else s')
               else s))"

definition kNotFloat :: string where
  "kNotFloat = ''ERR value is not a valid float''"

definition incrByFloat :: "hasher \<Rightarrow> int \<Rightarrow> string \<Rightarrow> double \<Rightarrow> int64 \<Rightarrow> KvStore \<Rightarrow> KvStore \<times> (string + string)" where
  "incrByFloat h db key delta now st =
     (case openEntry h db key now st of
        (st1, None) \<Rightarrow>
          (bumpWatchKey h db key (putEntry h db key (new_entry\<lparr>evalue := formatDouble delta\<rparr>) st1), Inr (formatDouble delta))
      | (st1, Some e) \<Rightarrow>
          if etype e \<noteq> String then (st1, Inl kWrongType)
          else (case strtod (evalue e) of
                  (cur, n) \<Rightarrow>
                    if n = 0 then (st1, Inl kNotFloat)
                    else (let v = formatDouble (dadd cur delta)
                          in (bumpWatchKey h db key (putEntry h db key (touchEntry now (e\<lparr>evalue := v\<rparr>)) st1), Inr v))))"

subsection \<open>The invariant\<close>

lemma wf_score_ops [wf_rules]:
  assumes "wf_store h st"
  shows "wf_store h (fst (zrangeByScore h db key lo hi rv a n now st))" "wf_store h (fst (zcount h db key lo hi now st))"
    "wf_store h (fst (zscan h db key cu pt k now st))" "wf_store h (fst (incrByFloat h db key d now st))"
  using assms wf_live[OF assms]
  by (auto simp: zrangeByScore_def zcount_def zscan_def incrByFloat_def Let_def case_prod_unfold
      split: option.split intro!: wf_rules wf_entry_string)

subsection \<open>Ranges of scores\<close>

lemma score_loop_spec:
  assumes "n \<ge> 0 \<longrightarrow> int (length out) < max 1 n" "skipped \<le> max 0 offset"
  shows "score_loop lo hi offset n r skipped out =
    (let zs = drop (nat (offset - skipped)) (map (\<lambda>(s, m). (m, s)) (filter (\<lambda>(s, m). scoreInRange s lo hi) r))
     in if n \<ge> 0 then take (nat (max 1 n)) (out @ zs) else out @ zs)"
  using assms
proof (induction lo hi offset n r skipped out rule: score_loop.induct)
  case (1 lo hi offset n skipped out)
  then show ?case by auto
next
  case (2 lo hi offset n s m r skipped out)
  show ?case
  proof (cases "scoreInRange s lo hi \<and> skipped < offset")
    case True
    then have "nat (offset - skipped) = Suc (nat (offset - (skipped + 1)))" by linarith
    then show ?thesis using 2 True by (simp add: Let_def)
  next
    case False
    show ?thesis
    proof (cases "scoreInRange s lo hi")
      case True
      then have z: "nat (offset - skipped) = 0" using False by simp
      show ?thesis
      proof (cases "n \<ge> 0 \<and> int (length (out @ [(m, s)])) \<ge> n")
        case full: True
        then have "nat (max 1 n) = Suc (length out)" using "2.prems"(1) by auto
        then show ?thesis using True False full z by (simp add: Let_def)
      next
        case more: False
        then show ?thesis using 2 True False z by (auto simp: Let_def)
      qed
    qed (use 2 False in \<open>auto simp: Let_def\<close>)
  qed
qed

lemma count_in_range:
  "foldl (\<lambda>n (m, s). if P s then n + 1 else n) (k :: int) z = k + int (length (filter (\<lambda>(m, s). P s) z))"
  by (induction z arbitrary: k) auto

text \<open>\<open>ZRANGEBYSCORE\<close> returns the members whose score lies within the bounds, in the order of the ranking,
  from the offset on and up to the count, and \<open>ZCOUNT\<close> returns how many there are in all. The count is tested
  after an element has been taken, so that a count of 0 gives one element where there is one. Where a score is NaN the
  ranking of the model says nothing about the code.\<close>

theorem score_ranges:
  assumes "zset_at h db key now st z" "parseScoreBound lo = Some blo" "parseScoreBound hi = Some bhi"
  defines "ranged \<equiv> filter (\<lambda>(m, s). scoreInRange s blo bhi)"
  shows "snd (zrangeByScore h db key lo hi rv offset n now st) =
      Inr (Some (let zs = drop (nat offset) (ranged (if rv then rev (zrank_list z) else zrank_list z))
                 in if n \<ge> 0 then take (nat (max 1 n)) zs else zs)) \<and>
    snd (zcount h db key lo hi now st) = Inr (Some (int (length (ranged (zrank_list z)))))"
proof -
  obtain e where e: "live h now st db key = Some e" "etype e = ZSet" "ezset e = z"
    using zset_atD[OF assms(1)] by metis
  have sw: "map (\<lambda>(s, m). (m, s)) (filter (\<lambda>(s, m). scoreInRange s blo bhi) (rankedZset z rv)) =
      ranged (if rv then rev (zrank_list z) else zrank_list z)"
    by (simp add: ranged_def zrank_list_def filter_map comp_def case_prod_unfold rankedZset_reverse rev_map rev_filter)
  have "mset (ranged z) = mset (ranged (zrank_list z))" by (simp add: ranged_def mset_zrank_list)
  then have "length (ranged z) = length (ranged (zrank_list z))" by (rule mset_eq_length)
  then show ?thesis using e sw score_loop_spec[of n "[]" 0 offset blo bhi "rankedZset z rv"]
    by (simp add: zrangeByScore_def zcount_def assms(2,3) Let_def count_in_range ranged_def)
qed

theorem score_ranges_witness:
  "snd (zcount length 0 ''z'' ''(0'' ''+inf'' 7 zset_store) = Inr (Some 2) \<and>
   snd (zrangeByScore length 0 ''z'' ''(0'' ''+inf'' True 0 0 7 zset_store) = Inr (Some [(''b'', 0x4004000000000000)])"
proof -
  let ?z = "[(''a'', 0x4004000000000000), (''b'', 0x4004000000000000), (''c'', 0), (''d'', 0x8000000000000000)]"
  let ?lo = "\<lparr>sb_val = 0, sb_exclusive = True, sb_neg_inf = False, sb_pos_inf = False\<rparr>"
  let ?hi = "\<lparr>sb_val = 0, sb_exclusive = False, sb_neg_inf = False, sb_pos_inf = True\<rparr>"
  have p: "parseScoreBound ''(0'' = Some ?lo" "parseScoreBound ''+inf'' = Some ?hi" by code_simp+
  have w: "filter (\<lambda>(m, s). scoreInRange s ?lo ?hi) (zrank_list ?z) = [(''a'', 0x4004000000000000), (''b'', 0x4004000000000000)]"
    "filter (\<lambda>(m, s). scoreInRange s ?lo ?hi) (rev (zrank_list ?z)) = [(''b'', 0x4004000000000000), (''a'', 0x4004000000000000)]"
    by code_simp+
  show ?thesis using score_ranges[OF zset_store_at p, of True 0 0] by (simp add: w)
qed

end
