(* ===== verification/Streams.thy ===== *)
theory Streams
  imports Lists Sets "HOL-Library.Product_Lexorder"
begin

text \<open>
  Streams and consumer groups (\<open>zero/kv/store/kv_store.cc\<close> and \<open>kv_store_extras.cc\<close>). A stream is the vector
  of its entries; a group keeps, for every consumer, the identifiers delivered to it and not yet acknowledged.

  \<^item> Identifiers are strings. \<open>XADD\<close> and \<open>XRANGE\<close> parse them with \<open>parseStreamIdToken\<close>, the group
    operations and \<open>XREAD\<close> compare the strings themselves.
  \<^item> \<open>parseStreamIdToken\<close> compares the end pointer of a conversion with a pointer into another string. A pointer
    is a buffer with an offset here, so that the comparison has the meaning it has in the code: both strings are
    alive at the conversion, hence no position of one is a position of the other.
  \<^item> \<open>std::sort\<close> does not fix the order of pending records with equal identifiers (one identifier can be pending
    for several consumers); the model keeps their order.
\<close>

subsection \<open>Identifiers\<close>

record StreamIdParts =
  id_ms :: uint64
  id_seq :: uint64
  auto_id :: bool

definition zero_id :: StreamIdParts where
  "zero_id = \<lparr>id_ms = 0, id_seq = 0, auto_id = False\<rparr>"

text \<open>The buffers the parser's pointers point into: the argument and the two temporary substrings.\<close>

datatype cbuf = Arg | MsPart | SeqPart

definition parseStreamIdToken :: "string \<Rightarrow> StreamIdParts \<times> bool" where
  "parseStreamIdToken s =
     (if s = ''*'' then (zero_id\<lparr>auto_id := True\<rparr>, True)
      else if CHR ''-'' \<notin> set s then (zero_id, False)
      else (let dash = length (takeWhile (\<lambda>c. c \<noteq> CHR ''-'') s);
                (ms, n) = strtoull (take dash s);
                endp = (MsPart, n)
            in if endp \<noteq> (Arg, dash) then (zero_id, False)
               else (let part = drop (dash + 1) s;
                         (seq, n') = strtoull part
                     in if (part @ [CHR 0x00]) ! n' \<noteq> CHR 0x00 then (zero_id, False)
                        else (zero_id\<lparr>id_ms := ms, id_seq := seq\<rparr>, True))))"

definition compareStreamId :: "StreamIdParts \<Rightarrow> StreamIdParts \<Rightarrow> int" where
  "compareStreamId a b =
     (if id_ms a \<noteq> id_ms b then (if id_ms a < id_ms b then - 1 else 1)
      else if id_seq a \<noteq> id_seq b then (if id_seq a < id_seq b then - 1 else 1)
      else 0)"

definition formatStreamId :: "uint64 \<Rightarrow> uint64 \<Rightarrow> string" where
  "formatStreamId ms seq = to_string (uint ms) @ ''-'' @ to_string (uint seq)"

subsection \<open>Adding\<close>

definition make_fields :: "(string \<times> string) list \<Rightarrow> (string, string) umap" where
  "make_fields fs = foldl (\<lambda>m (f, v). AList.update f v m) [] fs"

definition next_auto :: "int64 \<Rightarrow> Entry \<Rightarrow> Entry" where
  "next_auto now e =
     (let ms = (of_int now :: uint64)
      in if ms > stream_last_ms e then e\<lparr>stream_last_ms := ms, stream_last_seq := 0\<rparr>
         else e\<lparr>stream_last_seq := stream_last_seq e + 1\<rparr>)"

definition kInvalidId :: string where
  "kInvalidId = ''ERR invalid stream ID''"

definition kSmallId :: string where
  "kSmallId = ''ERR The ID specified in XADD is equal or smaller than the target stream top item''"

text \<open>The identifier of a new entry, and the stream with its last identifier advanced.\<close>

definition xadd_id :: "string \<Rightarrow> int64 \<Rightarrow> Entry \<Rightarrow> string + Entry \<times> string" where
  "xadd_id id_in now e =
     (case parseStreamIdToken id_in of
        (req, ok) \<Rightarrow>
          if \<not> ok then Inl kInvalidId
          else if auto_id req
          then (let e' = next_auto now e in Inr (e', formatStreamId (stream_last_ms e') (stream_last_seq e')))
          else if estream e \<noteq> [] \<and> compareStreamId req (fst (parseStreamIdToken (se_id (last (estream e))))) \<le> 0
          then Inl kSmallId
          else Inr (e\<lparr>stream_last_ms := id_ms req, stream_last_seq := id_seq req\<rparr>, formatStreamId (id_ms req) (id_seq req)))"

definition xadd :: "hasher \<Rightarrow> (nat \<Rightarrow> nat) \<Rightarrow> int \<Rightarrow> string \<Rightarrow> string \<Rightarrow> (string \<times> string) list \<Rightarrow> int64 \<Rightarrow> KvStore \<Rightarrow>
    KvStore \<times> (string + string)" where
  "xadd h rng db key id_in fs now st =
     (if fs = [] then (st, Inl ''ERR wrong number of arguments for XADD'')
      else case openEntry h db key now (evictIfNeededLocked rng now st) of
        (st1, found) \<Rightarrow>
          if (case found of None \<Rightarrow> False | Some e \<Rightarrow> etype e \<noteq> Stream) then (st1, Inl kWrongType)
          else (let e = (case found of None \<Rightarrow> new_entry\<lparr>etype := Stream\<rparr> | Some e \<Rightarrow> e);
                    st2 = putEntry h db key e st1
                in case xadd_id id_in now e of
                     Inl err \<Rightarrow> (st2, Inl err)
                   | Inr (e', id_out) \<Rightarrow>
                       (bumpWatchKey h db key (putEntry h db key
                          (touchEntry now (e'\<lparr>estream := estream e' @ [\<lparr>se_id = id_out, se_fields = make_fields fs\<rparr>]\<rparr>)) st2),
                        Inr id_out)))"

subsection \<open>Reading\<close>

definition xlen :: "hasher \<Rightarrow> int \<Rightarrow> string \<Rightarrow> int64 \<Rightarrow> KvStore \<Rightarrow> KvStore \<times> (string + int64 option)" where
  "xlen h db key now st =
     (case openEntry h db key now st of
        (st1, None) \<Rightarrow> (st1, Inr None)
      | (st1, Some e) \<Rightarrow>
          if etype e \<noteq> Stream then (st1, Inl kWrongType)
          else (putEntry h db key (touchEntry now e) st1, Inr (Some (int (length (estream e))))))"

text \<open>The loops that collect the entries a predicate lets through, up to a positive count.\<close>

fun stream_pick :: "(StreamEntry \<Rightarrow> bool) \<Rightarrow> int64 \<Rightarrow> StreamEntry list \<Rightarrow> StreamEntry list \<Rightarrow> StreamEntry list" where
  "stream_pick P n [] out = out"
| "stream_pick P n (x # xs) out =
     (if \<not> P x then stream_pick P n xs out
      else if n > 0 \<and> int (length (out @ [x])) \<ge> n then out @ [x]
      else stream_pick P n xs (out @ [x]))"

definition xrange :: "hasher \<Rightarrow> int \<Rightarrow> string \<Rightarrow> string \<Rightarrow> string \<Rightarrow> int64 \<Rightarrow> bool \<Rightarrow> int64 \<Rightarrow> KvStore \<Rightarrow>
    KvStore \<times> (string + StreamEntry list option)" where
  "xrange h db key start stop n reverse now st =
     (case openEntry h db key now st of
        (st1, None) \<Rightarrow> (st1, Inr None)
      | (st1, Some e) \<Rightarrow>
          if etype e \<noteq> Stream then (st1, Inl kWrongType)
          else (let st2 = putEntry h db key (touchEntry now e) st1;
                    (start_id, ok1) = parseStreamIdToken (if start = ''-'' then ''0-0'' else start);
                    (end_id, ok2) = parseStreamIdToken
                      (if stop = ''+'' then ''18446744073709551615-18446744073709551615'' else stop);
                    cur = (\<lambda>it. fst (parseStreamIdToken (se_id it)))
                in if \<not> ok1 then (st2, Inr (Some []))
                   else if \<not> ok2 then (st2, Inr (Some []))
                   else if reverse
                   then (st2, Inr (Some (stream_pick (\<lambda>it. \<not> (compareStreamId (cur it) start_id > 0 \<or>
                           compareStreamId (cur it) end_id < 0)) n (rev (estream e)) [])))
                   else (st2, Inr (Some (stream_pick (\<lambda>it. \<not> (compareStreamId (cur it) start_id < 0 \<or>
                           compareStreamId (cur it) end_id > 0)) n (estream e) [])))))"

fun xread_loop :: "hasher \<Rightarrow> int \<Rightarrow> int64 \<Rightarrow> (string \<times> string) list \<Rightarrow> int64 \<Rightarrow> (string \<times> StreamEntry list) list \<Rightarrow>
    KvStore \<Rightarrow> KvStore \<times> (string \<times> StreamEntry list) list" where
  "xread_loop h db n [] now out st = (st, out)"
| "xread_loop h db n ((key, sid) # ks) now out st =
     (case probeEntry h db key now st of
        (st1, None) \<Rightarrow> xread_loop h db n ks now out st1
      | (st1, Some e) \<Rightarrow>
          if etype e \<noteq> Stream then xread_loop h db n ks now out st1
          else (let st2 = putEntry h db key (touchEntry now e) st1;
                    picked = stream_pick (\<lambda>it. \<not> (sid \<noteq> ''0'' \<and> se_id it \<le> sid)) n (estream e) []
                in xread_loop h db n ks now (if picked = [] then out else out @ [(key, picked)]) st2))"

definition xread :: "hasher \<Rightarrow> int \<Rightarrow> string list \<Rightarrow> string list \<Rightarrow> int64 \<Rightarrow> int64 \<Rightarrow> KvStore \<Rightarrow>
    KvStore \<times> (string + (string \<times> StreamEntry list) list)" where
  "xread h db ks ids n now st =
     (if length ks \<noteq> length ids \<or> ks = [] then (st, Inl ''ERR syntax error'')
      else (case xread_loop h db n (zip ks ids) now [] st of (st', out) \<Rightarrow> (st', Inr out)))"

subsection \<open>Removing\<close>

fun erase_id :: "string \<Rightarrow> StreamEntry list \<Rightarrow> StreamEntry list \<times> bool" where
  "erase_id sid [] = ([], False)"
| "erase_id sid (x # xs) =
     (if se_id x = sid then (xs, True) else (case erase_id sid xs of (ys, b) \<Rightarrow> (x # ys, b)))"

fun erase_ids :: "string list \<Rightarrow> StreamEntry list \<Rightarrow> int64 \<Rightarrow> StreamEntry list \<times> int64" where
  "erase_ids [] xs removed = (xs, removed)"
| "erase_ids (sid # ids) xs removed =
     (case erase_id sid xs of (ys, b) \<Rightarrow> erase_ids ids ys (if b then removed + 1 else removed))"

definition xdel :: "hasher \<Rightarrow> int \<Rightarrow> string \<Rightarrow> string list \<Rightarrow> int64 \<Rightarrow> KvStore \<Rightarrow> KvStore \<times> (string + int64)" where
  "xdel h db key ids now st =
     (case openEntry h db key now st of
        (st1, None) \<Rightarrow> (st1, Inr 0)
      | (st1, Some e) \<Rightarrow>
          if etype e \<noteq> Stream then (st1, Inl kWrongType)
          else (case erase_ids ids (estream e) 0 of
                  (xs, removed) \<Rightarrow>
                    (let st2 = (if xs = [] then eraseEntry h db key st1
                                else putEntry h db key (touchEntry now (e\<lparr>estream := xs\<rparr>)) st1)
                     in (bumpWatchKey h db key st2, Inr removed))))"

definition xtrim :: "hasher \<Rightarrow> int \<Rightarrow> string \<Rightarrow> int64 \<Rightarrow> int64 \<Rightarrow> KvStore \<Rightarrow> KvStore \<times> (string + int64)" where
  "xtrim h db key maxlen now st =
     (if maxlen < 0 then (st, Inl ''ERR syntax error'')
      else case openEntry h db key now st of
        (st1, None) \<Rightarrow> (st1, Inr 0)
      | (st1, Some e) \<Rightarrow>
          if etype e \<noteq> Stream then (st1, Inl kWrongType)
          else if int (length (estream e)) \<le> maxlen then (st1, Inr 0)
          else (let remove = int (length (estream e)) - maxlen
                in (bumpWatchKey h db key
                      (putEntry h db key (touchEntry now (e\<lparr>estream := drop (nat remove) (estream e)\<rparr>)) st1),
                    Inr remove)))"

subsection \<open>Consumer groups\<close>

definition kNoKey :: string where
  "kNoKey = ''ERR no such key''"

definition kNoGroup :: string where
  "kNoGroup = ''NOGROUP No such consumer group''"

definition xgroupCreate :: "hasher \<Rightarrow> int \<Rightarrow> string \<Rightarrow> string \<Rightarrow> string \<Rightarrow> bool \<Rightarrow> int64 \<Rightarrow> KvStore \<Rightarrow>
    KvStore \<times> (string + unit)" where
  "xgroupCreate h db key grp sid mkstream now st =
     (case openEntry h db key now st of
        (st1, found) \<Rightarrow>
          if found = None \<and> \<not> mkstream then (st1, Inl kNoKey)
          else if (case found of None \<Rightarrow> False | Some e \<Rightarrow> etype e \<noteq> Stream) then (st1, Inl kWrongType)
          else (let e = (case found of None \<Rightarrow> new_entry\<lparr>etype := Stream\<rparr> | Some e \<Rightarrow> e);
                    st2 = putEntry h db key e st1
                in if map_of (stream_groups e) grp \<noteq> None
                   then (st2, Inl ''BUSYGROUP Consumer Group name already exists'')
                   else (let last_id = (if sid = ''$'' then (if estream e = [] then ''0-0'' else se_id (last (estream e)))
                                        else sid);
                             gs = \<lparr>gs_last_id = last_id, consumers = []\<rparr>
                         in (bumpWatchKey h db key (putEntry h db key
                               (touchEntry now (e\<lparr>stream_groups := AList.update grp gs (stream_groups e)\<rparr>)) st2),
                             Inr ()))))"

definition xgroupDestroy :: "hasher \<Rightarrow> int \<Rightarrow> string \<Rightarrow> string \<Rightarrow> int64 \<Rightarrow> KvStore \<Rightarrow> KvStore \<times> (string + unit)" where
  "xgroupDestroy h db key grp now st =
     (case openEntry h db key now st of
        (st1, None) \<Rightarrow> (st1, Inl kNoKey)
      | (st1, Some e) \<Rightarrow>
          if etype e \<noteq> Stream then (st1, Inl kNoKey)
          else if map_of (stream_groups e) grp = None then (st1, Inl ''ERR no such group'')
          else (bumpWatchKey h db key (putEntry h db key
                  (touchEntry now (e\<lparr>stream_groups := AList.delete grp (stream_groups e)\<rparr>)) st1), Inr ()))"

definition new_consumer :: StreamConsumerState where
  "new_consumer = \<lparr>cs_last_id = [], cs_pending = [], pending_meta = []\<rparr>"

text \<open>The delivery loop of \<open>xreadGroup\<close>.\<close>

fun group_pick :: "int64 \<Rightarrow> string \<Rightarrow> int64 \<Rightarrow> StreamEntry list \<Rightarrow> StreamEntry list \<Rightarrow> StreamConsumerState \<Rightarrow>
    StreamEntry list \<times> StreamConsumerState" where
  "group_pick now start n [] picked cs = (picked, cs)"
| "group_pick now start n (x # xs) picked cs =
     (if se_id x \<le> start then group_pick now start n xs picked cs
      else (let picked' = picked @ [x];
                cs' = cs\<lparr>cs_last_id := se_id x, cs_pending := cs_pending cs @ [se_id x],
                  pending_meta := AList.update (se_id x) \<lparr>delivery_ms = now, delivery_count = 1\<rparr> (pending_meta cs)\<rparr>
            in if n > 0 \<and> int (length picked') \<ge> n then (picked', cs') else group_pick now start n xs picked' cs'))"

definition set_group :: "string \<Rightarrow> StreamGroupState \<Rightarrow> Entry \<Rightarrow> Entry" where
  "set_group grp gs e = e\<lparr>stream_groups := AList.update grp gs (stream_groups e)\<rparr>"

definition set_consumer :: "string \<Rightarrow> StreamConsumerState \<Rightarrow> StreamGroupState \<Rightarrow> StreamGroupState" where
  "set_consumer consumer cs gs = gs\<lparr>consumers := AList.update consumer cs (consumers gs)\<rparr>"

fun xreadGroup_loop :: "hasher \<Rightarrow> int \<Rightarrow> string \<Rightarrow> string \<Rightarrow> int64 \<Rightarrow> (string \<times> string) list \<Rightarrow> int64 \<Rightarrow>
    (string \<times> StreamEntry list) list \<Rightarrow> KvStore \<Rightarrow> KvStore \<times> (string + (string \<times> StreamEntry list) list)" where
  "xreadGroup_loop h db grp consumer n [] now out st = (st, Inr out)"
| "xreadGroup_loop h db grp consumer n ((key, sid) # ks) now out st =
     (case probeEntry h db key now st of
        (st1, None) \<Rightarrow> xreadGroup_loop h db grp consumer n ks now out st1
      | (st1, Some e) \<Rightarrow>
          if etype e \<noteq> Stream then xreadGroup_loop h db grp consumer n ks now out st1
          else (case map_of (stream_groups e) grp of
                  None \<Rightarrow> (st1, Inl kNoGroup)
                | Some gs \<Rightarrow>
                    (let cs = umap_get new_consumer consumer (consumers gs);
                         start0 = (if cs_last_id cs = [] then gs_last_id gs else cs_last_id cs);
                         start = (if sid = ''>'' then start0 else if sid \<noteq> [] then sid else start0);
                         (picked, cs') = group_pick now start n (estream e) [] cs;
                         e' = touchEntry now (set_group grp (set_consumer consumer cs' gs) e)
                     in xreadGroup_loop h db grp consumer n ks now
                          (if picked = [] then out else out @ [(key, picked)]) (putEntry h db key e' st1))))"

definition xreadGroup :: "hasher \<Rightarrow> int \<Rightarrow> string \<Rightarrow> string \<Rightarrow> string list \<Rightarrow> string list \<Rightarrow> int64 \<Rightarrow> int64 \<Rightarrow> KvStore \<Rightarrow>
    KvStore \<times> (string + (string \<times> StreamEntry list) list)" where
  "xreadGroup h db grp consumer ks ids n now st =
     (if length ks \<noteq> length ids \<or> ks = [] then (st, Inl ''ERR syntax error'')
      else xreadGroup_loop h db grp consumer n (zip ks ids) now [] st)"

fun ack_ids :: "string list \<Rightarrow> StreamConsumerState \<Rightarrow> int64 \<Rightarrow> StreamConsumerState \<times> int64" where
  "ack_ids [] cs acked = (cs, acked)"
| "ack_ids (sid # ids) cs acked =
     (if sid \<in> set (cs_pending cs)
      then ack_ids ids (cs\<lparr>cs_pending := remove1 sid (cs_pending cs),
             pending_meta := AList.delete sid (pending_meta cs)\<rparr>) (acked + 1)
      else ack_ids ids cs acked)"

fun ack_all :: "string list \<Rightarrow> (string, StreamConsumerState) umap \<Rightarrow> int64 \<Rightarrow>
    (string, StreamConsumerState) umap \<times> int64" where
  "ack_all ids [] acked = ([], acked)"
| "ack_all ids ((c, cs) # cps) acked =
     (case ack_ids ids cs acked of
        (cs', acked') \<Rightarrow> (case ack_all ids cps acked' of (cps', acked'') \<Rightarrow> ((c, cs') # cps', acked'')))"

text \<open>The guards all the group operations below begin with.\<close>

definition openGroup :: "hasher \<Rightarrow> int \<Rightarrow> string \<Rightarrow> string \<Rightarrow> int64 \<Rightarrow> KvStore \<Rightarrow> KvStore \<times> (string + Entry \<times> StreamGroupState)" where
  "openGroup h db key grp now st =
     (case openEntry h db key now st of
        (st1, None) \<Rightarrow> (st1, Inl kNoKey)
      | (st1, Some e) \<Rightarrow>
          if etype e \<noteq> Stream then (st1, Inl kNoKey)
          else (case map_of (stream_groups e) grp of
                  None \<Rightarrow> (st1, Inl kNoGroup)
                | Some gs \<Rightarrow> (st1, Inr (e, gs))))"

definition xack :: "hasher \<Rightarrow> int \<Rightarrow> string \<Rightarrow> string \<Rightarrow> string list \<Rightarrow> int64 \<Rightarrow> KvStore \<Rightarrow> KvStore \<times> (string + int64)" where
  "xack h db key grp ids now st =
     (case openGroup h db key grp now st of
        (st1, Inl err) \<Rightarrow> (st1, Inl err)
      | (st1, Inr (e, gs)) \<Rightarrow>
          (case ack_all ids (consumers gs) 0 of
             (cps, acked) \<Rightarrow>
               (bumpWatchKey h db key (putEntry h db key
                  (touchEntry now (set_group grp (gs\<lparr>consumers := cps\<rparr>) e)) st1), Inr acked)))"

record XPendingSummary =
  ps_count :: int64
  ps_min :: string
  ps_max :: string
  ps_consumers :: "(string \<times> int64) list"

definition count_pending :: "string \<Rightarrow> XPendingSummary \<times> (string, int64) umap \<Rightarrow> string \<Rightarrow> XPendingSummary \<times> (string, int64) umap" where
  "count_pending c acc pid =
     (case acc of
        (out, counts) \<Rightarrow>
          (out\<lparr>ps_count := ps_count out + 1,
               ps_min := (if ps_min out = [] \<or> pid < ps_min out then pid else ps_min out),
               ps_max := (if ps_max out = [] \<or> pid > ps_max out then pid else ps_max out)\<rparr>,
           AList.update c (umap_get 0 c counts + 1) counts))"

definition xpendingSummary :: "hasher \<Rightarrow> int \<Rightarrow> string \<Rightarrow> string \<Rightarrow> int64 \<Rightarrow> KvStore \<Rightarrow> KvStore \<times> (string + XPendingSummary)" where
  "xpendingSummary h db key grp now st =
     (case openGroup h db key grp now st of
        (st1, Inl err) \<Rightarrow> (st1, Inl err)
      | (st1, Inr (e, gs)) \<Rightarrow>
          (case foldl (\<lambda>acc (c, cs). foldl (count_pending c) acc (cs_pending cs))
                  (\<lparr>ps_count = 0, ps_min = [], ps_max = [], ps_consumers = []\<rparr>, []) (consumers gs) of
             (out, counts) \<Rightarrow> (st1, Inr (out\<lparr>ps_consumers := sort counts\<rparr>))))"

record XPendingDetail =
  pd_id :: string
  pd_consumer :: string
  idle_ms :: int64
  pd_count :: int64

definition pending_detail :: "int64 \<Rightarrow> string \<Rightarrow> StreamConsumerState \<Rightarrow> string \<Rightarrow> XPendingDetail" where
  "pending_detail now c cs pid =
     (case map_of (pending_meta cs) pid of
        None \<Rightarrow> \<lparr>pd_id = pid, pd_consumer = c, idle_ms = 0, pd_count = 0\<rparr>
      | Some m \<Rightarrow> \<lparr>pd_id = pid, pd_consumer = c, idle_ms = i64 (now - delivery_ms m), pd_count = delivery_count m\<rparr>)"

definition xpendingRange :: "hasher \<Rightarrow> int \<Rightarrow> string \<Rightarrow> string \<Rightarrow> string \<Rightarrow> string \<Rightarrow> int64 \<Rightarrow> string \<Rightarrow> int64 \<Rightarrow> KvStore \<Rightarrow>
    KvStore \<times> (string + XPendingDetail list)" where
  "xpendingRange h db key grp start stop n consumer_filter now st =
     (case openGroup h db key grp now st of
        (st1, Inl err) \<Rightarrow> (st1, Inl err)
      | (st1, Inr (e, gs)) \<Rightarrow>
          (let out = concat (map (\<lambda>(c, cs).
                 if consumer_filter \<noteq> [] \<and> c \<noteq> consumer_filter then []
                 else map (pending_detail now c cs)
                   (filter (\<lambda>pid. \<not> (start \<noteq> [] \<and> pid < start) \<and> \<not> (stop \<noteq> [] \<and> stop \<noteq> ''+'' \<and> pid > stop))
                     (cs_pending cs))) (consumers gs));
               sorted_out = sort_key pd_id out
           in (st1, Inr (if n \<ge> 0 \<and> int (length sorted_out) > n then take (nat n) sorted_out else sorted_out))))"

definition findStreamEntry :: "StreamEntry list \<Rightarrow> string \<Rightarrow> StreamEntry option" where
  "findStreamEntry xs sid = find (\<lambda>x. se_id x = sid) xs"

text \<open>
  One identifier of \<open>xclaim\<close>: the first consumer, in iteration order, for which it is pending and idle enough.
  The claiming consumer is itself in the map, so that its own record may be the one it claims from.
\<close>

fun claim_from :: "int64 \<Rightarrow> int64 \<Rightarrow> bool \<Rightarrow> string \<Rightarrow> (string, StreamConsumerState) umap \<Rightarrow>
    ((string, StreamConsumerState) umap \<times> int64) option" where
  "claim_from now min_idle force sid [] = None"
| "claim_from now min_idle force sid ((c, cs) # cps) =
     (let rest = map_option (\<lambda>(cps', n). ((c, cs) # cps', n)) (claim_from now min_idle force sid cps)
      in if sid \<notin> set (cs_pending cs) then rest
         else (let (prev_count, idle) = (case map_of (pending_meta cs) sid of
                        None \<Rightarrow> (0, 0)
                      | Some m \<Rightarrow> (delivery_count m, i64 (now - delivery_ms m)))
               in if \<not> force \<and> idle < min_idle then rest
                  else Some ((c, cs\<lparr>cs_pending := remove1 sid (cs_pending cs),
                               pending_meta := AList.delete sid (pending_meta cs)\<rparr>) # cps, prev_count)))"

definition give :: "int64 \<Rightarrow> string \<Rightarrow> int64 \<Rightarrow> StreamConsumerState \<Rightarrow> StreamConsumerState" where
  "give now sid prev_count cs =
     cs\<lparr>cs_pending := cs_pending cs @ [sid],
        pending_meta := AList.update sid \<lparr>delivery_ms = now, delivery_count = i64 (prev_count + 1)\<rparr> (pending_meta cs)\<rparr>"

fun claim_loop :: "int64 \<Rightarrow> int64 \<Rightarrow> bool \<Rightarrow> string \<Rightarrow> StreamEntry list \<Rightarrow> string list \<Rightarrow>
    (string, StreamConsumerState) umap \<Rightarrow> StreamEntry list \<Rightarrow> (string, StreamConsumerState) umap \<times> StreamEntry list" where
  "claim_loop now min_idle force consumer xs [] cps out = (cps, out)"
| "claim_loop now min_idle force consumer xs (sid # ids) cps out =
     (case claim_from now min_idle force sid cps of
        None \<Rightarrow> claim_loop now min_idle force consumer xs ids cps out
      | Some (cps', prev_count) \<Rightarrow>
          claim_loop now min_idle force consumer xs ids
            (AList.update consumer (give now sid prev_count (umap_get new_consumer consumer cps')) cps')
            (case findStreamEntry xs sid of None \<Rightarrow> out | Some se \<Rightarrow> out @ [se]))"

definition xclaim :: "hasher \<Rightarrow> int \<Rightarrow> string \<Rightarrow> string \<Rightarrow> string \<Rightarrow> int64 \<Rightarrow> string list \<Rightarrow> bool \<Rightarrow> int64 \<Rightarrow> KvStore \<Rightarrow>
    KvStore \<times> (string + StreamEntry list)" where
  "xclaim h db key grp consumer min_idle ids force now st =
     (case openGroup h db key grp now st of
        (st1, Inl err) \<Rightarrow> (st1, Inl err)
      | (st1, Inr (e, gs)) \<Rightarrow>
          (let cps0 = AList.update consumer (umap_get new_consumer consumer (consumers gs)) (consumers gs);
               (cps, out) = claim_loop now min_idle force consumer (estream e) ids cps0 []
           in (bumpWatchKey h db key (putEntry h db key
                 (touchEntry now (set_group grp (gs\<lparr>consumers := cps\<rparr>) e)) st1), Inr out)))"

subsection \<open>The invariant\<close>

lemma wf_entry_stream_state [simp]:
  "wf_entry (e\<lparr>stream_last_ms := ms\<rparr>) = wf_entry e" "wf_entry (e\<lparr>stream_last_seq := sq\<rparr>) = wf_entry e"
  "wf_entry (e\<lparr>stream_groups := gs\<rparr>) = wf_entry e"
  "wf_entry (set_group grp g e) = wf_entry e" "wf_entry (next_auto now e) = wf_entry e"
  by (simp_all add: wf_entry_def set_group_def next_auto_def touchEntry_def Let_def)

lemma wf_entry_stream [simp]:
  "etype e = Stream \<Longrightarrow> wf_entry e \<Longrightarrow> wf_entry (e\<lparr>estream := xs\<rparr>)"
  "wf_entry (new_entry\<lparr>etype := Stream\<rparr>)"
  by (simp_all add: wf_entry_def)

lemma etype_stream_state [simp]:
  "etype (next_auto now e) = etype e" "etype (set_group grp g e) = etype e" "etype (touchEntry now e) = etype e"
  "estream (next_auto now e) = estream e" "estream (set_group grp g e) = estream e" "estream (touchEntry now e) = estream e"
  "expire_at_ms (next_auto now e) = expire_at_ms e" "expire_at_ms (set_group grp g e) = expire_at_ms e"
  "expire_at_ms (touchEntry now e) = expire_at_ms e"
  by (simp_all add: set_group_def next_auto_def touchEntry_def Let_def)

lemma xadd_id_etype: "xadd_id sid now e = Inr (e', i) \<Longrightarrow> etype e' = etype e \<and> wf_entry e' = wf_entry e \<and> expire_at_ms e' = expire_at_ms e"
  by (auto simp: xadd_id_def Let_def split: prod.splits if_splits)

lemma case_openGroup [simp]:
  "case_prod f (openGroup h db key grp now st) = f (fst (openEntry h db key now st)) (snd (openGroup h db key grp now st))"
  by (simp add: openGroup_def split: option.split)

lemma fst_openGroup [simp]: "fst (openGroup h db key grp now st) = fst (openEntry h db key now st)"
  by (simp add: openGroup_def split: option.split)

lemma openGroup_Inr:
  "snd (openGroup h db key grp now st) = Inr (e, gs) \<longleftrightarrow>
     live h now st db key = Some e \<and> etype e = Stream \<and> map_of (stream_groups e) grp = Some gs"
  by (auto simp: openGroup_def split: option.split)

text \<open>The state \<open>XADD\<close> leaves, once the entry is found or made.\<close>

definition xadd_to :: "hasher \<Rightarrow> int \<Rightarrow> string \<Rightarrow> string \<Rightarrow> (string \<times> string) list \<Rightarrow> int64 \<Rightarrow> Entry \<Rightarrow> KvStore \<Rightarrow>
    KvStore \<times> (string + string)" where
  "xadd_to h db key id_in fs now e st1 =
     (case xadd_id id_in now e of
        Inl err \<Rightarrow> (putEntry h db key e st1, Inl err)
      | Inr (e', id_out) \<Rightarrow>
          (bumpWatchKey h db key (putEntry h db key
             (touchEntry now (e'\<lparr>estream := estream e' @ [\<lparr>se_id = id_out, se_fields = make_fields fs\<rparr>]\<rparr>))
             (putEntry h db key e st1)), Inr id_out))"

lemma xadd_cases:
  "xadd h rng db key id_in fs now st =
     (if fs = [] then (st, Inl ''ERR wrong number of arguments for XADD'')
      else let s0 = evictIfNeededLocked rng now st; st1 = fst (openEntry h db key now s0)
        in case live h now s0 db key of
             None \<Rightarrow> xadd_to h db key id_in fs now (new_entry\<lparr>etype := Stream\<rparr>) st1
           | Some e \<Rightarrow> if etype e \<noteq> Stream then (st1, Inl kWrongType) else xadd_to h db key id_in fs now e st1)"
  by (simp add: xadd_def xadd_to_def Let_def split: option.split)

lemma wf_xadd_to:
  assumes "wf_store h st" "wf_entry e" "etype e = Stream"
  shows "wf_store h (fst (xadd_to h db key id_in fs now e st))"
  using assms xadd_id_etype[of id_in now e]
  by (cases "xadd_id id_in now e") (auto simp: xadd_to_def intro!: wf_rules)

lemma wf_xadd [wf_rules]: "wf_store h st \<Longrightarrow> wf_store h (fst (xadd h rng db key sid fs now st))"
  using wf_live[OF wf_evict] by (auto simp: xadd_cases Let_def split: option.split intro!: wf_xadd_to wf_rules)

lemma wf_stream_reads [wf_rules]:
  assumes "wf_store h st"
  shows "wf_store h (fst (xlen h db key now st))" "wf_store h (fst (xrange h db key a b n rv now st))"
    "wf_store h (fst (xdel h db key ids now st))" "wf_store h (fst (xtrim h db key n now st))"
    "wf_store h (fst (xgroupCreate h db key grp sid mk now st))" "wf_store h (fst (xgroupDestroy h db key grp now st))"
  using assms wf_live[OF assms]
  by (auto simp: xlen_def xrange_def xdel_def xtrim_def xgroupCreate_def xgroupDestroy_def Let_def case_prod_unfold
      split: option.split intro!: wf_rules)

lemma wf_openGroup:
  assumes "wf_store h st" "snd (openGroup h db key grp now st) = Inr (e, gs)"
  shows "wf_entry e"
  using assms by (auto simp: openGroup_Inr intro: wf_live)

lemma wf_group_ops [wf_rules]:
  assumes "wf_store h st"
  shows "wf_store h (fst (xack h db key grp ids now st))" "wf_store h (fst (xpendingSummary h db key grp now st))"
    "wf_store h (fst (xpendingRange h db key grp a b n c now st))"
    "wf_store h (fst (xclaim h db key grp c n ids force now st))"
  using assms wf_openGroup[OF assms]
  by (auto simp: xack_def xpendingSummary_def xpendingRange_def xclaim_def Let_def case_prod_unfold
      split: sum.split intro!: wf_rules)

lemma wf_xread_loop: "wf_store h st \<Longrightarrow> wf_store h (fst (xread_loop h db n ks now out st))"
proof (induction ks arbitrary: out st)
  case (Cons k ks)
  obtain key sid where k: "k = (key, sid)" by (cases k)
  show ?case using Cons wf_live[OF Cons.prems, of now db key] wf_probeEntry[OF Cons.prems, of db key now]
    by (auto simp: k Let_def split: option.split intro!: Cons.IH wf_putEntry)
qed simp

lemma wf_xreadGroup_loop: "wf_store h st \<Longrightarrow> wf_store h (fst (xreadGroup_loop h db grp c n ks now out st))"
proof (induction ks arbitrary: out st)
  case (Cons k ks)
  obtain key sid where k: "k = (key, sid)" by (cases k)
  show ?case using Cons wf_live[OF Cons.prems, of now db key] wf_probeEntry[OF Cons.prems, of db key now]
    by (auto simp: k Let_def case_prod_unfold split: option.split intro!: Cons.IH wf_putEntry)
qed simp

lemma wf_xreads [wf_rules]:
  assumes "wf_store h st"
  shows "wf_store h (fst (xread h db ks ids n now st))" "wf_store h (fst (xreadGroup h db grp c ks ids n now st))"
  using assms by (auto simp: xread_def xreadGroup_def case_prod_unfold wf_xread_loop wf_xreadGroup_loop)

subsection \<open>Identifiers the server assigns\<close>

lemma parseStreamIdToken_iff: "snd (parseStreamIdToken s) \<longleftrightarrow> s = ''*''"
  by (simp add: parseStreamIdToken_def Let_def case_prod_unfold)

lemma parseStreamIdToken_star: "parseStreamIdToken ''*'' = (zero_id\<lparr>auto_id := True\<rparr>, True)"
  by (simp add: parseStreamIdToken_def)

lemma xadd_id_star: "xadd_id ''*'' now e =
    Inr (next_auto now e, formatStreamId (stream_last_ms (next_auto now e)) (stream_last_seq (next_auto now e)))"
  by (simp add: xadd_id_def parseStreamIdToken_star zero_id_def Let_def)

lemma xadd_id_explicit: "s \<noteq> ''*'' \<Longrightarrow> xadd_id s now e = Inl kInvalidId"
  using parseStreamIdToken_iff[of s] by (auto simp: xadd_id_def split: prod.split)

text \<open>No explicit identifier is ever accepted, because the parser compares a pointer into a temporary with a
  pointer into its argument: \<open>XADD\<close> with any identifier but \<open>*\<close> fails, and on a missing key it leaves an empty
  stream behind; \<open>XRANGE\<close> and \<open>XREVRANGE\<close> never return an entry unless both bounds are the literal \<open>*\<close>, not even
  for \<open>-\<close> and \<open>+\<close>.\<close>

theorem explicit_ids_rejected:
  assumes "wf_store h st" "sid \<noteq> ''*''" "fs \<noteq> []" "(start, stop) \<noteq> (''*'', ''*'')"
    "s0 = evictIfNeededLocked rng now st"
  shows "(case live h now s0 db key of
       Some e \<Rightarrow> snd (xadd h rng db key sid fs now st) = Inl (if etype e = Stream then kInvalidId else kWrongType)
     | None \<Rightarrow> snd (xadd h rng db key sid fs now st) = Inl kInvalidId \<and>
         live h now (fst (xadd h rng db key sid fs now st)) db key = Some (new_entry\<lparr>etype := Stream\<rparr>)) \<and>
    snd (xrange h db key start stop n reverse now st) =
      (case live h now st db key of None \<Rightarrow> Inr None | Some e \<Rightarrow> if etype e = Stream then Inr (Some []) else Inl kWrongType)"
proof -
  have sh: "shaped s0" using wf_evict[OF assms(1)] assms(5) by auto
  have "snd (parseStreamIdToken (if start = ''-'' then ''0-0'' else start)) \<longleftrightarrow> start = ''*''"
    "snd (parseStreamIdToken (if stop = ''+'' then ''18446744073709551615-18446744073709551615'' else stop)) \<longleftrightarrow> stop = ''*''"
    unfolding parseStreamIdToken_iff by auto
  then have "snd (xrange h db key start stop n reverse now st) =
      (case live h now st db key of None \<Rightarrow> Inr None | Some e \<Rightarrow> if etype e = Stream then Inr (Some []) else Inl kWrongType)"
    using assms(4) by (auto simp: xrange_def Let_def case_prod_unfold split: option.split)
  then show ?thesis using assms(2,3) sh
    by (auto simp: xadd_cases xadd_to_def xadd_id_explicit assms(5)[symmetric] Let_def store_simps isExpired_def
        split: option.split)
qed

text \<open>Three entries, the last two at the same reading of the clock.\<close>

definition stream_store :: KvStore where
  "stream_store =
     fst (xadd length id 0 ''s'' ''*'' [(''f'', ''3'')] 9 (fst (xadd length id 0 ''s'' ''*'' [(''f'', ''2'')] 9
       (fst (xadd length id 0 ''s'' ''*'' [(''f'', ''1'')] 5 new_store)))))"

lemma wf_stream_store: "wf_store length stream_store"
  by (simp add: stream_store_def wf_rules)

theorem explicit_ids_rejected_witness:
  "snd (xrange length 0 ''s'' ''-'' ''+'' 0 False 9 stream_store) = Inr (Some []) \<and>
   snd (xadd length id 0 ''s'' ''20-0'' [(''f'', ''4'')] 9 stream_store) = Inl kInvalidId"
proof -
  have "map_option etype (live length 9 stream_store 0 ''s'') = Some Stream"
    "evictIfNeededLocked id 9 stream_store = stream_store" by code_simp+
  then show ?thesis
    using explicit_ids_rejected[OF wf_stream_store _ _ _ refl, where sid = "''20-0''" and fs = "[(''f'', ''4'')]" and start = "''-''"
        and stop = "''+''" and rng = id and now = 9 and db = 0 and key = "''s''" and n = 0 and reverse = False]
    by auto
qed

text \<open>The identifiers of a stream, as numbers, grow and never pass the last one assigned.\<close>

definition stream_ok :: "Entry \<Rightarrow> bool" where
  "stream_ok e \<longleftrightarrow>
     (\<exists>ps. map se_id (estream e) = map (\<lambda>(ms, seq). formatStreamId ms seq) ps \<and> sorted_wrt (<) ps \<and>
       (\<forall>p \<in> set ps. p \<le> (stream_last_ms e, stream_last_seq e)))"

lemma formatStreamId_inject: "formatStreamId a b = formatStreamId c d \<longleftrightarrow> a = c \<and> b = d"
proof
  assume eq: "formatStreamId a b = formatStreamId c d"
  have dash: "takeWhile (\<lambda>x. x \<noteq> CHR ''-'') (formatStreamId p q) = dec_nat (nat (uint p))"
    "dropWhile (\<lambda>x. x \<noteq> CHR ''-'') (formatStreamId p q) = CHR ''-'' # dec_nat (nat (uint q))" for p q
  proof -
    have "\<forall>x \<in> set (dec_nat n). x \<noteq> CHR ''-''" for n using dec_nat_digits[of "CHR ''-''" n] by auto
    then show "takeWhile (\<lambda>x. x \<noteq> CHR ''-'') (formatStreamId p q) = dec_nat (nat (uint p))"
      "dropWhile (\<lambda>x. x \<noteq> CHR ''-'') (formatStreamId p q) = CHR ''-'' # dec_nat (nat (uint q))"
      by (simp_all add: formatStreamId_def to_string_def)
  qed
  have "dec_nat (nat (uint a)) = dec_nat (nat (uint c))" "dec_nat (nat (uint b)) = dec_nat (nat (uint d))"
    using dash[of a b] dash[of c d] eq by simp_all
  then show "a = c \<and> b = d" by (simp add: word_unat_eq_iff)
qed simp

lemma stream_ok_distinct: "stream_ok e \<Longrightarrow> distinct (map se_id (estream e))"
proof -
  assume "stream_ok e"
  then obtain ps where ps: "map se_id (estream e) = map (\<lambda>(ms, seq). formatStreamId ms seq) ps" "sorted_wrt (<) ps"
    by (auto simp: stream_ok_def)
  then have "distinct ps" using strict_sorted_iff by blast
  then have "distinct (map (\<lambda>(ms, seq). formatStreamId ms seq) ps)"
    by (auto simp: distinct_map inj_on_def formatStreamId_inject)
  then show ?thesis using ps(1) by simp
qed

lemma next_auto_greater:
  assumes "stream_last_seq e \<noteq> - 1"
  shows "(stream_last_ms e, stream_last_seq e) < (stream_last_ms (next_auto now e), stream_last_seq (next_auto now e))"
proof -
  have "stream_last_seq e < stream_last_seq e + 1"
    using assms unatSuc[of "stream_last_seq e"] by (auto simp: word_less_nat_alt add.commute[of _ 1] add_eq_0_iff)
  then show ?thesis by (auto simp: next_auto_def Let_def)
qed

lemma stream_ok_append:
  assumes "stream_ok e" "(stream_last_ms e, stream_last_seq e) < (stream_last_ms e', stream_last_seq e')" "estream e' = estream e"
  shows "stream_ok (touchEntry now (e'\<lparr>estream := estream e' @
    [\<lparr>se_id = formatStreamId (stream_last_ms e') (stream_last_seq e'), se_fields = f\<rparr>]\<rparr>))"
proof -
  obtain ps where ps: "map se_id (estream e) = map (\<lambda>(ms, seq). formatStreamId ms seq) ps" "sorted_wrt (<) ps"
      "\<forall>p \<in> set ps. p \<le> (stream_last_ms e, stream_last_seq e)"
    using assms(1) by (auto simp: stream_ok_def)
  let ?l = "(stream_last_ms e', stream_last_seq e')"
  have "\<forall>p \<in> set ps. p < ?l" using ps(3) assms(2) order.strict_trans1 by blast
  then have "sorted_wrt (<) (ps @ [?l])" "\<forall>p \<in> set (ps @ [?l]). p \<le> ?l"
    using ps(2) by (auto simp: sorted_wrt_append simp del: less_prod_simp less_eq_prod_simp intro: less_imp_le)
  then show ?thesis using ps(1) assms(3) unfolding stream_ok_def
    by (intro exI[of _ "ps @ [?l]"]) (simp add: touchEntry_def)
qed

lemma map_of_make_fields: "map_of (make_fields fs) = map_of (rev fs)"
proof -
  have "map_of (foldl (\<lambda>m (f, v). AList.update f v m) m0 fs) = map_of m0 ++ map_of (rev fs)" for m0
    by (induction fs arbitrary: m0) (auto simp: update_conv' map_add_def fun_eq_iff split: option.split)
  from this[of "[]"] show ?thesis by (simp add: make_fields_def)
qed

text \<open>C39: \<open>XADD\<close> with \<open>*\<close>, on a missing key or a stream: the new entry goes to the end with the fields as given
  (the last value of a repeated name), under an identifier larger than all earlier ones, whether the clock has
  advanced, stood still or been set back; other keys are unchanged. (The sequence number must not be at its
  64-bit maximum.)\<close>

theorem xadd_increasing:
  assumes "wf_store h st" "fs \<noteq> []" "xadd h rng db key ''*'' fs now st = (st', r)"
    "s0 = evictIfNeededLocked rng now st"
    "e = (case live h now s0 db key of None \<Rightarrow> new_entry\<lparr>etype := Stream\<rparr> | Some e \<Rightarrow> e)"
    "etype e = Stream" "stream_ok e" "stream_last_seq e \<noteq> - 1"
  shows "\<exists>sid f e'. r = Inr sid \<and> sid \<notin> se_id ` set (estream e) \<and> map_of f = map_of (rev fs) \<and>
    live h now st' db key = Some e' \<and> etype e' = Stream \<and> estream e' = estream e @ [\<lparr>se_id = sid, se_fields = f\<rparr>] \<and>
    stream_ok e' \<and> (stream_last_ms e, stream_last_seq e) < (stream_last_ms e', stream_last_seq e') \<and>
    (\<forall>db' k. (db', k) \<noteq> (db, key) \<longrightarrow> live h now st' db' k = live h now s0 db' k)"
proof -
  have sh: "shaped s0" using wf_evict[OF assms(1)] assms(4) by auto
  have ne: "\<not> isExpired e now" using live_not_expired[of h now s0 db key] by (auto simp: assms(5) isExpired_def split: option.split)
  let ?e = "next_auto now e" and ?s1 = "fst (openEntry h db key now s0)"
  let ?sid = "formatStreamId (stream_last_ms ?e) (stream_last_seq ?e)"
  let ?e' = "touchEntry now (?e\<lparr>estream := estream ?e @ [\<lparr>se_id = ?sid, se_fields = make_fields fs\<rparr>]\<rparr>)"
  have "xadd h rng db key ''*'' fs now st = xadd_to h db key ''*'' fs now e ?s1"
    using assms(2,5,6) by (auto simp: xadd_cases Let_def assms(4)[symmetric] split: option.split)
  then have st': "st' = bumpWatchKey h db key (putEntry h db key ?e' (putEntry h db key e ?s1))" "r = Inr ?sid"
    using assms(3) by (simp_all add: xadd_to_def xadd_id_star)
  have lv: "live h now st' db key = Some ?e'" using sh ne by (simp add: st' store_simps isExpired_def)
  have fr: "live h now st' db' k = live h now s0 db' k" if "(db', k) \<noteq> (db, key)" for db' k
    using sh that by (auto simp: st' store_simps)
  note gr = next_auto_greater[OF assms(8), of now]
  have ok: "stream_ok ?e'" using stream_ok_append[OF assms(7) gr] by simp
  have "?sid \<notin> se_id ` set (estream e)" using stream_ok_distinct[OF ok] by simp
  moreover have "(stream_last_ms e, stream_last_seq e) < (stream_last_ms ?e', stream_last_seq ?e')"
    using gr by (simp add: touchEntry_def)
  ultimately show ?thesis
    using lv fr ok map_of_make_fields assms(6) by (intro exI[of _ ?sid] exI[of _ "make_fields fs"] exI[of _ ?e']) (simp add: st'(2))
qed

theorem xadd_increasing_witness:
  "\<exists>sid e'. snd (xadd length id 0 ''s'' ''*'' [(''f'', ''4'')] 2 stream_store) = Inr sid \<and>
     live length 2 (fst (xadd length id 0 ''s'' ''*'' [(''f'', ''4'')] 2 stream_store)) 0 ''s'' = Some e' \<and>
     map se_id (estream e') = [''5-0'', ''9-0'', ''9-1'', sid] \<and> stream_ok e'"
proof -
  let ?x = "xadd length id 0 ''s'' ''*'' [(''f'', ''4'')] 2 stream_store"
  define e where "e = (case live length 2 stream_store 0 ''s'' of None \<Rightarrow> new_entry\<lparr>etype := Stream\<rparr> | Some e \<Rightarrow> e)"
  have ev: "stream_store = evictIfNeededLocked id 2 stream_store" by code_simp
  have e: "etype e = Stream" "map se_id (estream e) = [''5-0'', ''9-0'', ''9-1'']" "stream_last_seq e = 1"
    "stream_last_ms e = 9"
    "map (\<lambda>(ms, seq). formatStreamId ms seq) [(5, 0), (9, 0), (9, 1)] = [''5-0'', ''9-0'', ''9-1'']"
    unfolding e_def by code_simp+
  have "sorted_wrt (<) [(5, 0), (9, 0), (9, 1 :: uint64) :: uint64 \<times> uint64]" by code_simp
  then have "stream_ok e" using e(2-5) unfolding stream_ok_def
    by (intro exI[of _ "[(5, 0), (9, 0), (9, 1)]"]) simp
  moreover have "(1 :: uint64) \<noteq> - 1" by simp
  ultimately show ?thesis
    using xadd_increasing[OF wf_stream_store _ surjective_pairing ev e_def e(1), of "[(''f'', ''4'')]"] e(2,3) by fastforce
qed

subsection \<open>Reading from an identifier\<close>

definition limited :: "int64 \<Rightarrow> 'a list \<Rightarrow> 'a list" where
  "limited n xs = (if n > 0 then take (nat n) xs else xs)"

lemma limited_full:
  assumes "n \<le> int (length (out @ [x]))" "int (length out) < n"
  shows "limited n (out @ x # ys) = out @ [x]"
proof -
  have "nat n = Suc (length out)" using assms by simp
  then show ?thesis using assms by (simp add: limited_def)
qed

lemma limited_short: "(n > 0 \<longrightarrow> int (length xs) < n) \<Longrightarrow> limited n xs = xs"
  by (auto simp: limited_def)

lemma stream_pick_limited:
  "(n > 0 \<longrightarrow> int (length out) < n) \<Longrightarrow> stream_pick P n xs out = limited n (out @ filter P xs)"
proof (induction P n xs out rule: stream_pick.induct)
  case (2 P n x xs out)
  then show ?case by (auto simp: limited_full)
qed (simp add: limited_short)

text \<open>Identifiers compare as strings.\<close>

lemma seq_10_before_9: "formatStreamId ms 10 < formatStreamId ms 9"
proof -
  have "to_string 10 < to_string 9" by code_simp
  then have "xs @ ''-'' @ to_string 10 < xs @ ''-'' @ to_string 9" for xs :: string
    by (induction xs) (simp_all add: less_list_code)
  then show ?thesis by (simp add: formatStreamId_def)
qed

text \<open>\<open>XREAD\<close> on one stream returns, in order and up to the count, the entries whose identifier is after
  the given one in the order of strings (all of them for \<open>0\<close>). That is not the order of the stream: a reader that
  continues after entry \<open>ms-9\<close> is never given entry \<open>ms-10\<close>.\<close>

theorem xread_string_order:
  assumes "live h now st db key = Some e" "etype e = Stream"
  shows "snd (xread h db [key] [sid] n now st) =
      Inr (let zs = limited n (filter (\<lambda>x. sid = ''0'' \<or> sid < se_id x) (estream e)) in if zs = [] then [] else [(key, zs)]) \<and>
    (\<forall>ms out. sid = formatStreamId ms 9 \<longrightarrow> snd (xread h db [key] [sid] n now st) = Inr out \<longrightarrow>
       (\<forall>(k, zs) \<in> set out. formatStreamId ms 10 \<notin> se_id ` set zs))"
proof -
  have r: "snd (xread h db [key] [sid] n now st) =
      Inr (let zs = limited n (filter (\<lambda>x. sid = ''0'' \<or> sid < se_id x) (estream e)) in if zs = [] then [] else [(key, zs)])"
    using assms by (simp add: xread_def stream_pick_limited Let_def not_le case_prod_unfold)
  have miss: "formatStreamId ms 10 \<notin> se_id ` set (limited n (filter (\<lambda>x. sid = ''0'' \<or> sid < se_id x) xs))"
    if "sid = formatStreamId ms 9" for ms xs
  proof -
    have "CHR ''-'' \<in> set sid" by (simp add: that formatStreamId_def)
    then have "sid \<noteq> ''0''" by auto
    moreover have "\<not> sid < formatStreamId ms 10" using seq_10_before_9[of ms] that by simp
    ultimately show ?thesis by (auto simp: limited_def dest!: in_set_takeD)
  qed
  show ?thesis
  proof (intro conjI allI impI)
    fix ms out
    assume "sid = formatStreamId ms 9" "snd (xread h db [key] [sid] n now st) = Inr out"
    then show "\<forall>(k, zs) \<in> set out. formatStreamId ms 10 \<notin> se_id ` set zs"
      using miss[of ms "estream e"] r by (auto simp: Let_def split: if_splits)
  qed (rule r)
qed

theorem xread_string_order_witness:
  "snd (xread length 0 [''s''] [''9-0''] 5 9 stream_store) =
     Inr [(''s'', [\<lparr>se_id = ''9-1'', se_fields = [(''f'', ''3'')]\<rparr>])]"
proof -
  obtain e where e: "live length 9 stream_store 0 ''s'' = Some e" by (cases "live length 9 stream_store 0 ''s''") (code_simp, simp)
  have "map_option etype (live length 9 stream_store 0 ''s'') = Some Stream"
    "map_option (\<lambda>e. filter (\<lambda>x. ''9-0'' = ''0'' \<or> ''9-0'' < se_id x) (estream e)) (live length 9 stream_store 0 ''s'') =
       Some [\<lparr>se_id = ''9-1'', se_fields = [(''f'', ''3'')]\<rparr>]" by code_simp+
  then show ?thesis using xread_string_order[OF e, of "''9-0''" 5] e by (simp add: limited_def)
qed

subsection \<open>Delivery to a group\<close>

definition group_at :: "hasher \<Rightarrow> int \<Rightarrow> string \<Rightarrow> string \<Rightarrow> int64 \<Rightarrow> KvStore \<Rightarrow> (Entry \<times> StreamGroupState) option" where
  "group_at h db key grp now st =
     (case live h now st db key of
        None \<Rightarrow> None
      | Some e \<Rightarrow> if etype e \<noteq> Stream then None else map_option (Pair e) (map_of (stream_groups e) grp))"

lemma group_atD:
  assumes "group_at h db key grp now st = Some (e, gs)"
  shows "live h now st db key = Some e" "etype e = Stream" "map_of (stream_groups e) grp = Some gs" "\<not> isExpired e now"
  using assms live_not_expired by (auto simp: group_at_def split: option.splits if_splits)

lemma group_at_put:
  assumes "shaped st" "group_at h db key grp now st0 = Some (e, gs)" "e' = touchEntry now (set_group grp gs' e)"
  shows "group_at h db key grp now (putEntry h db key e' st) = Some (e', gs')"
  using group_atD[OF assms(2)] assms(1)
  by (simp add: group_at_def store_simps assms(3) isExpired_def) (simp add: touchEntry_def set_group_def)

lemma group_at_bump: "shaped st \<Longrightarrow> group_at h db key grp now (bumpWatchKey h db key st) = group_at h db key grp now st"
  by (simp add: group_at_def store_simps)

definition pend :: "string \<Rightarrow> StreamGroupState \<Rightarrow> string list" where
  "pend c gs = cs_pending (umap_get new_consumer c (consumers gs))"

lemma group_pick_spec:
  assumes "n > 0 \<longrightarrow> int (length picked) < n" "group_pick now start n xs picked cs = (zs, cs')"
  shows "\<exists>ys. zs = picked @ ys \<and> zs = limited n (picked @ filter (\<lambda>x. start < se_id x) xs) \<and>
    cs_pending cs' = cs_pending cs @ map se_id ys"
  using assms
proof (induction now start n xs picked cs rule: group_pick.induct)
  case (2 now start n x xs picked cs)
  show ?case
  proof (cases "se_id x \<le> start")
    case True
    then have "\<not> start < se_id x" by simp
    then show ?thesis using "2.IH"(1)[OF True "2.prems"(1)] "2.prems"(2) True by simp
  next
    case False
    show ?thesis
    proof (cases "n > 0 \<and> int (length (picked @ [x])) \<ge> n")
      case True
      then have "zs = picked @ [x]" "cs_pending cs' = cs_pending cs @ [se_id x]"
        using False "2.prems"(2) by (auto simp: Let_def)
      then show ?thesis using True False "2.prems"(1) limited_full[of n picked x]
        by (intro exI[of _ "[x]"]) (simp add: not_le)
    next
      case no: False
      have "group_pick now start n (x # xs) picked cs = group_pick now start n xs (picked @ [x]) (cs\<lparr>cs_last_id := se_id x,
          cs_pending := cs_pending cs @ [se_id x],
          pending_meta := AList.update (se_id x) \<lparr>delivery_ms = now, delivery_count = 1\<rparr> (pending_meta cs)\<rparr>)"
        using False no by (auto simp: Let_def)
      with "2.prems"(2) "2.IH"(2)[OF False refl refl no] no obtain ys where
        "zs = (picked @ [x]) @ ys" "zs = limited n ((picked @ [x]) @ filter (\<lambda>x. start < se_id x) xs)"
        "cs_pending cs' = cs_pending cs @ [se_id x] @ map se_id ys" by force
      then show ?thesis using False by (intro exI[of _ "x # ys"]) (simp add: not_le)
    qed
  qed
qed (simp add: limited_short)

lemma xreadGroup_one:
  assumes "wf_store h st" "group_at h db key grp now st = Some (e, gs)" "sid = ''>''"
    "xreadGroup h db grp c [key] [sid] n now st = (st', r)"
  defines "cs \<equiv> umap_get new_consumer c (consumers gs)"
  defines "zs \<equiv> limited n (filter (\<lambda>x. (if cs_last_id cs = [] then gs_last_id gs else cs_last_id cs) < se_id x) (estream e))"
  shows "r = Inr (if zs = [] then [] else [(key, zs)])"
    "\<exists>cs' e' gs'. group_at h db key grp now st' = Some (e', gs') \<and> gs' = set_consumer c cs' gs \<and>
       estream e' = estream e \<and> cs_pending cs' = cs_pending cs @ map se_id zs"
proof -
  note g = group_atD[OF assms(2)]
  let ?start = "if cs_last_id cs = [] then gs_last_id gs else cs_last_id cs"
  obtain ps cs' where p: "group_pick now ?start n (estream e) [] cs = (ps, cs')" by force
  let ?e = "touchEntry now (set_group grp (set_consumer c cs' gs) e)"
  have zs: "ps = zs" "cs_pending cs' = cs_pending cs @ map se_id zs"
    using group_pick_spec[OF _ p] by (auto simp: zs_def)
  have st': "st' = putEntry h db key ?e (fst (probeEntry h db key now st))" "r = Inr (if zs = [] then [] else [(key, zs)])"
    using assms(3,4) g p zs(1) by (auto simp: xreadGroup_def cs_def[symmetric] Let_def)
  then show "r = Inr (if zs = [] then [] else [(key, zs)])" by blast
  have "group_at h db key grp now st' = Some (?e, set_consumer c cs' gs)"
    unfolding st'(1) using wf_shaped[OF assms(1)] by (intro group_at_put[OF _ assms(2)]) simp_all
  then show "\<exists>cs' e' gs'. group_at h db key grp now st' = Some (e', gs') \<and> gs' = set_consumer c cs' gs \<and>
       estream e' = estream e \<and> cs_pending cs' = cs_pending cs @ map se_id zs"
    using zs(2) by (intro exI[of _ cs'] exI[of _ ?e]) simp
qed

lemma umap_get_set_consumer:
  "umap_get new_consumer c' (consumers (set_consumer c cs gs)) = (if c' = c then cs else umap_get new_consumer c' (consumers gs))"
  "gs_last_id (set_consumer c cs gs) = gs_last_id gs"
  by (simp_all add: set_consumer_def umap_get_def)

text \<open>\<open>XREADGROUP\<close> with \<open>>\<close>: a consumer that has not read yet is given, up to the count, the entries after
  the group's starting point, and each of them becomes pending for it. The group does not remember what it has
  delivered: another consumer of the same group is given the same entries once more, although a consumer group is
  to share the entries among its consumers.\<close>

theorem xreadGroup_redelivers:
  assumes "wf_store h st" "group_at h db key grp now st = Some (e, gs)"
    "map_of (consumers gs) c1 = None" "map_of (consumers gs) c2 = None" "c1 \<noteq> c2"
    "xreadGroup h db grp c1 [key] [''>''] n now st = (st1, r1)"
    "xreadGroup h db grp c2 [key] [''>''] n now st1 = (st2, r2)"
  defines "zs \<equiv> limited n (filter (\<lambda>x. gs_last_id gs < se_id x) (estream e))"
  shows "r1 = Inr (if zs = [] then [] else [(key, zs)]) \<and> r2 = r1 \<and>
    (\<exists>e' gs'. group_at h db key grp now st2 = Some (e', gs') \<and> pend c1 gs' = map se_id zs \<and> pend c2 gs' = map se_id zs)"
proof -
  have new: "umap_get new_consumer c1 (consumers gs) = new_consumer" "umap_get new_consumer c2 (consumers gs) = new_consumer"
    "cs_last_id new_consumer = []" "cs_pending new_consumer = []"
    using assms(3,4) by (simp_all add: umap_get_def new_consumer_def)
  note one = xreadGroup_one[OF assms(1,2) refl assms(6), unfolded new, simplified, folded zs_def]
  obtain cs1 e1 where g1: "group_at h db key grp now st1 = Some (e1, set_consumer c1 cs1 gs)"
      "estream e1 = estream e" "cs_pending cs1 = map se_id zs"
    using one(2) new(4) by auto
  have wf1: "wf_store h st1" using wf_xreads(2)[OF assms(1)] assms(6) by (metis fst_conv)
  note two = xreadGroup_one[OF wf1 g1(1) refl assms(7)]
  have z2: "limited n (filter (\<lambda>x. (if cs_last_id (umap_get new_consumer c2 (consumers (set_consumer c1 cs1 gs))) = []
      then gs_last_id (set_consumer c1 cs1 gs) else cs_last_id (umap_get new_consumer c2 (consumers (set_consumer c1 cs1 gs)))) < se_id x)
      (estream e1)) = zs"
    using assms(5) by (simp add: umap_get_set_consumer new g1(2) zs_def)
  obtain cs2 e2 where g2: "group_at h db key grp now st2 = Some (e2, set_consumer c2 cs2 (set_consumer c1 cs1 gs))"
      "cs_pending cs2 = map se_id zs"
    using two(2)[unfolded z2] assms(5) new(2,4) by (auto simp: umap_get_set_consumer)
  have "r1 = Inr (if zs = [] then [] else [(key, zs)])" using one(1) by (simp add: zs_def)
  then show ?thesis using two(1)[unfolded z2] g1 g2 assms(5) by (auto simp: pend_def umap_get_set_consumer)
qed

definition group_store :: KvStore where
  "group_store = fst (xgroupCreate length 0 ''s'' ''g'' ''0-0'' False 9 stream_store)"

lemma wf_group_store: "wf_store length group_store"
  by (simp add: group_store_def wf_rules wf_stream_store)

lemma group_store_at:
  obtains e where "group_at length 0 ''s'' ''g'' 9 group_store = Some (e, \<lparr>gs_last_id = ''0-0'', consumers = []\<rparr>)"
    "map se_id (estream e) = [''5-0'', ''9-0'', ''9-1'']"
proof -
  have g: "map_option (\<lambda>(e, gs). (map se_id (estream e), gs)) (group_at length 0 ''s'' ''g'' 9 group_store) =
      Some ([''5-0'', ''9-0'', ''9-1''], \<lparr>gs_last_id = ''0-0'', consumers = []\<rparr>)" by code_simp
  then show thesis using that by (cases "group_at length 0 ''s'' ''g'' 9 group_store") (auto split: prod.splits)
qed

theorem xreadGroup_redelivers_witness:
  "\<exists>zs. map se_id zs = [''5-0'', ''9-0''] \<and>
     snd (xreadGroup length 0 ''g'' ''alice'' [''s''] [''>''] 2 9 group_store) = Inr [(''s'', zs)] \<and>
     snd (xreadGroup length 0 ''g'' ''bob'' [''s''] [''>''] 2 9
       (fst (xreadGroup length 0 ''g'' ''alice'' [''s''] [''>''] 2 9 group_store))) = Inr [(''s'', zs)]"
proof -
  obtain e where e: "group_at length 0 ''s'' ''g'' 9 group_store = Some (e, \<lparr>gs_last_id = ''0-0'', consumers = []\<rparr>)"
    "map se_id (estream e) = [''5-0'', ''9-0'', ''9-1'']" by (rule group_store_at)
  let ?zs = "limited 2 (filter (\<lambda>x. ''0-0'' < se_id x) (estream e))"
  have "map se_id (filter (\<lambda>x. ''0-0'' < se_id x) (estream e)) = filter (\<lambda>i. ''0-0'' < i) [''5-0'', ''9-0'', ''9-1'']"
    unfolding e(2)[symmetric] filter_map comp_def ..
  moreover have "filter (\<lambda>i. ''0-0'' < i) [''5-0'', ''9-0'', ''9-1''] = [''5-0'', ''9-0'', ''9-1'']" by code_simp
  ultimately have zs: "map se_id ?zs = [''5-0'', ''9-0'']" by (simp add: limited_def flip: take_map)
  then show ?thesis
    using xreadGroup_redelivers[OF wf_group_store e(1) _ _ _ surjective_pairing surjective_pairing, of "''alice''" "''bob''" 2]
    by (intro exI[of _ ?zs]) auto
qed

subsection \<open>Acknowledging and claiming\<close>

definition pendings :: "(string, StreamConsumerState) umap \<Rightarrow> string list" where
  "pendings cps = concat (map (\<lambda>(c, cs). cs_pending cs) cps)"

lemma pendings_simps [simp]: "pendings [] = []" "pendings ((c, cs) # cps) = cs_pending cs @ pendings cps"
  by (simp_all add: pendings_def)

lemma ack_ids_spec:
  "ack_ids ids cs a = (cs', a') \<Longrightarrow>
     cs_pending cs' = foldl (\<lambda>p i. remove1 i p) (cs_pending cs) ids \<and>
     a' = a + int (length (cs_pending cs)) - int (length (cs_pending cs'))"
proof (induction ids cs a rule: ack_ids.induct)
  case (2 sid ids cs a)
  show ?case
  proof (cases "sid \<in> set (cs_pending cs)")
    case True
    then have "length (cs_pending cs) = Suc (length (remove1 sid (cs_pending cs)))"
      using length_pos_if_in_set[OF True] by (simp add: length_remove1)
    then show ?thesis using 2 True by (auto simp del: length_remove1)
  qed (use 2 in \<open>simp add: remove1_idem\<close>)
qed simp

lemma ack_all_spec:
  "ack_all ids cps a = (cps', a') \<Longrightarrow>
     map fst cps' = map fst cps \<and> a' = a + int (length (pendings cps)) - int (length (pendings cps')) \<and>
     cs_pending (umap_get new_consumer c cps') = foldl (\<lambda>p i. remove1 i p) (cs_pending (umap_get new_consumer c cps)) ids"
proof (induction ids cps a arbitrary: cps' a' rule: ack_all.induct)
  case (1 ids a)
  have "foldl (\<lambda>p i. remove1 i p) [] ids = []" by (induction ids) simp_all
  then show ?case using 1 by (auto simp: umap_get_def new_consumer_def)
next
  case (2 ids c1 cs cps a)
  obtain cs1 a1 where x: "ack_ids ids cs a = (cs1, a1)" by force
  obtain cps1 a2 where y: "ack_all ids cps a1 = (cps1, a2)" by force
  show ?case using "2.IH"[OF x[symmetric] y] ack_ids_spec[OF x] "2.prems" x y by (auto simp: umap_get_def)
qed

text \<open>\<open>XACK\<close> takes one record of every given identifier from the pending list of every consumer that has one,
  keeps everything else of the stream, and returns how many records it took in all.\<close>

theorem xack_correct:
  assumes "wf_store h st" "group_at h db key grp now st = Some (e, gs)" "xack h db key grp ids now st = (st', r)"
  shows "\<exists>e' gs'. group_at h db key grp now st' = Some (e', gs') \<and> estream e' = estream e \<and>
    (\<forall>g. g \<noteq> grp \<longrightarrow> map_of (stream_groups e') g = map_of (stream_groups e) g) \<and>
    map fst (consumers gs') = map fst (consumers gs) \<and>
    (\<forall>c. pend c gs' = foldl (\<lambda>p i. remove1 i p) (pend c gs) ids) \<and>
    r = Inr (int (length (pendings (consumers gs))) - int (length (pendings (consumers gs'))))"
proof -
  note g = group_atD[OF assms(2)]
  have og: "snd (openGroup h db key grp now st) = Inr (e, gs)" using g by (simp add: openGroup_Inr)
  obtain cps a where k: "ack_all ids (consumers gs) 0 = (cps, a)" by force
  let ?gs = "gs\<lparr>consumers := cps\<rparr>" and ?s = "fst (openEntry h db key now st)"
  let ?e = "touchEntry now (set_group grp ?gs e)"
  have st': "st' = bumpWatchKey h db key (putEntry h db key ?e ?s)" "r = Inr a"
    using assms(3) og k by (simp_all add: xack_def)
  have "group_at h db key grp now st' = Some (?e, ?gs)"
    using wf_shaped[OF assms(1)] group_at_put[OF _ assms(2) refl, of ?s] by (simp add: st' group_at_bump)
  moreover have "\<forall>g. g \<noteq> grp \<longrightarrow> map_of (stream_groups ?e) g = map_of (stream_groups e) g"
    by (simp add: touchEntry_def set_group_def)
  ultimately show ?thesis using ack_all_spec[OF k] st'(2)
    by (intro exI[of _ ?e] exI[of _ ?gs]) (simp add: pend_def)
qed

theorem xack_correct_witness:
  "snd (xack length 0 ''s'' ''g'' [''9-0'', ''7-7''] 9
     (fst (xreadGroup length 0 ''g'' ''alice'' [''s''] [''>''] 0 9 group_store))) = Inr 1"
proof -
  let ?st = "fst (xreadGroup length 0 ''g'' ''alice'' [''s''] [''>''] 0 9 group_store)"
  have wf: "wf_store length ?st" by (simp add: wf_rules wf_group_store)
  have m: "map_option (\<lambda>(e, gs). map (\<lambda>(c, cs). (c, cs_pending cs)) (consumers gs)) (group_at length 0 ''s'' ''g'' 9 ?st) =
      Some [(''alice'', [''5-0'', ''9-0'', ''9-1''])]" by code_simp
  then obtain e gs where g: "group_at length 0 ''s'' ''g'' 9 ?st = Some (e, gs)"
      "map (\<lambda>(c, cs). (c, cs_pending cs)) (consumers gs) = [(''alice'', [''5-0'', ''9-0'', ''9-1''])]"
    by (cases "group_at length 0 ''s'' ''g'' 9 ?st") (auto split: prod.splits)
  then obtain cs where cs: "consumers gs = [(''alice'', cs)]" "cs_pending cs = [''5-0'', ''9-0'', ''9-1'']" by auto
  obtain e' gs' where x: "map fst (consumers gs') = map fst (consumers gs)"
      "\<forall>c. pend c gs' = foldl (\<lambda>p i. remove1 i p) (pend c gs) [''9-0'', ''7-7'']"
      "snd (xack length 0 ''s'' ''g'' [''9-0'', ''7-7''] 9 ?st) =
         Inr (int (length (pendings (consumers gs))) - int (length (pendings (consumers gs'))))"
    using xack_correct[OF wf g(1) surjective_pairing, of "[''9-0'', ''7-7'']"] by blast
  have "pend ''alice'' gs' = [''5-0'', ''9-1'']" using x(2) cs by (simp add: pend_def umap_get_def)
  moreover have "map fst (consumers gs') = [''alice'']" using x(1) cs by simp
  ultimately obtain cs' where "consumers gs' = [(''alice'', cs')]" "cs_pending cs' = [''5-0'', ''9-1'']"
    by (auto simp: pend_def umap_get_def)
  then show ?thesis using x(3) cs by simp
qed

lemma pendings_update:
  "mset (pendings (AList.update c cs cps)) + mset (cs_pending (umap_get new_consumer c cps)) = mset (pendings cps) + mset (cs_pending cs)"
  by (induction cps) (auto simp: umap_get_def new_consumer_def split: option.splits)

lemma umap_get_cons: "umap_get d k ((a, b) # m) = (if k = a then b else umap_get d k m)"
  by (simp add: umap_get_def)

lemma claim_from_Some:
  "claim_from now mi force sid cps = Some (cps', n) \<Longrightarrow>
     mset (pendings cps) = add_mset sid (mset (pendings cps')) \<and>
     (\<forall>c x. x \<noteq> sid \<longrightarrow> x \<in> set (cs_pending (umap_get new_consumer c cps)) \<longrightarrow> x \<in> set (cs_pending (umap_get new_consumer c cps')))"
proof (induction now mi force sid cps arbitrary: cps' n rule: claim_from.induct)
  case (2 now mi force sid c cs cps)
  have "mset (cs_pending cs) = add_mset sid (mset (remove1 sid (cs_pending cs)))" if "sid \<in> set (cs_pending cs)"
    using that by simp
  then show ?case using 2
    by (auto simp: umap_get_cons Let_def split: if_splits prod.splits)
qed simp

lemma claim_from_forced: "claim_from now mi True sid cps = None \<longleftrightarrow> sid \<notin> set (pendings cps)"
  by (induction now mi True sid cps rule: claim_from.induct) (auto simp: Let_def split: prod.splits)

lemma claim_loop_spec:
  assumes "claim_loop now mi force c xs ids cps out = (cps', out')"
  shows "mset (pendings cps') = mset (pendings cps) \<and> set out' \<subseteq> set out \<union> set xs \<and>
    set (cs_pending (umap_get new_consumer c cps)) \<subseteq> set (cs_pending (umap_get new_consumer c cps')) \<and>
    (force \<longrightarrow> set ids \<inter> set (pendings cps) \<subseteq> set (cs_pending (umap_get new_consumer c cps')))"
  using assms
proof (induction ids arbitrary: cps out)
  case (Cons sid ids)
  show ?case
  proof (cases "claim_from now mi force sid cps")
    case None
    then show ?thesis using Cons claim_from_forced[of now mi sid cps] by (cases force) fastforce+
  next
    case (Some p)
    obtain cps1 n where p: "p = (cps1, n)" by (cases p)
    note f = claim_from_Some[OF Some[unfolded p]]
    let ?u = "umap_get new_consumer c cps1"
    let ?cps = "AList.update c (give now sid n ?u) cps1"
    have g: "umap_get new_consumer c ?cps = give now sid n ?u" "cs_pending (give now sid n ?u) = cs_pending ?u @ [sid]"
      by (simp_all add: umap_get_def give_def)
    have m: "mset (pendings ?cps) = mset (pendings cps)"
      using pendings_update[of c "give now sid n ?u" cps1] f by (simp add: g)
    have keep: "set (cs_pending (umap_get new_consumer c cps)) \<subseteq> set (cs_pending (umap_get new_consumer c ?cps))"
      "sid \<in> set (cs_pending (umap_get new_consumer c ?cps))" using f g by auto
    have out: "set (case findStreamEntry xs sid of None \<Rightarrow> out | Some se \<Rightarrow> out @ [se]) \<subseteq> set out \<union> set xs"
      by (auto simp: findStreamEntry_def find_Some_iff split: option.split)
    have "claim_loop now mi force c xs ids ?cps (case findStreamEntry xs sid of None \<Rightarrow> out | Some se \<Rightarrow> out @ [se]) = (cps', out')"
      using Cons.prems Some p by simp
    from Cons.IH[OF this] show ?thesis using m keep out mset_eq_setD[OF m] by auto
  qed
qed simp

text \<open>C40: \<open>XCLAIM\<close> only moves pending records: the identifiers pending in the group, counted with their
  repetitions, stay the same, the claiming consumer keeps what it had, the returned entries are entries of the stream, and
  when the claim is forced every given identifier that was pending for anyone is pending for the claiming consumer.\<close>

theorem xclaim_conserves:
  assumes "wf_store h st" "group_at h db key grp now st = Some (e, gs)"
    "xclaim h db key grp c mi ids force now st = (st', r)"
  shows "\<exists>e' gs' out. group_at h db key grp now st' = Some (e', gs') \<and> estream e' = estream e \<and> r = Inr out \<and>
    mset (pendings (consumers gs')) = mset (pendings (consumers gs)) \<and> set out \<subseteq> set (estream e) \<and>
    set (pend c gs) \<subseteq> set (pend c gs') \<and>
    (force \<longrightarrow> set ids \<inter> set (pendings (consumers gs)) \<subseteq> set (pend c gs'))"
proof -
  note g = group_atD[OF assms(2)]
  have og: "snd (openGroup h db key grp now st) = Inr (e, gs)" using g by (simp add: openGroup_Inr)
  let ?u = "umap_get new_consumer c (consumers gs)"
  let ?cps0 = "AList.update c ?u (consumers gs)"
  obtain cps out where k: "claim_loop now mi force c (estream e) ids ?cps0 [] = (cps, out)" by force
  let ?gs = "gs\<lparr>consumers := cps\<rparr>" and ?s = "fst (openEntry h db key now st)"
  let ?e = "touchEntry now (set_group grp ?gs e)"
  have st': "st' = bumpWatchKey h db key (putEntry h db key ?e ?s)" "r = Inr out"
    using assms(3) og k by (simp_all add: xclaim_def Let_def)
  have at: "group_at h db key grp now st' = Some (?e, ?gs)"
    using wf_shaped[OF assms(1)] group_at_put[OF _ assms(2) refl, of ?s] by (simp add: st' group_at_bump)
  have m: "mset (pendings ?cps0) = mset (pendings (consumers gs))" using pendings_update[of c ?u "consumers gs"] by simp
  have u: "umap_get new_consumer c ?cps0 = ?u" by (simp add: umap_get_def)
  show ?thesis using claim_loop_spec[OF k] at st'(2) m mset_eq_setD[OF m] u
    by (intro exI[of _ ?e] exI[of _ ?gs] exI[of _ out]) (simp add: pend_def)
qed

theorem xclaim_conserves_witness:
  "\<exists>e' gs'. group_at length 0 ''s'' ''g'' 9 (fst (xclaim length 0 ''s'' ''g'' ''bob'' 100 [''9-0''] True 9
     (fst (xreadGroup length 0 ''g'' ''alice'' [''s''] [''>''] 0 9 group_store)))) = Some (e', gs') \<and>
     ''9-0'' \<in> set (pend ''bob'' gs') \<and> length (pendings (consumers gs')) = 3"
proof -
  let ?st = "fst (xreadGroup length 0 ''g'' ''alice'' [''s''] [''>''] 0 9 group_store)"
  have wf: "wf_store length ?st" by (simp add: wf_rules wf_group_store)
  have "map_option (\<lambda>(e, gs). pendings (consumers gs)) (group_at length 0 ''s'' ''g'' 9 ?st) =
      Some [''5-0'', ''9-0'', ''9-1'']" by code_simp
  then obtain e gs where g: "group_at length 0 ''s'' ''g'' 9 ?st = Some (e, gs)" "pendings (consumers gs) = [''5-0'', ''9-0'', ''9-1'']"
    by (cases "group_at length 0 ''s'' ''g'' 9 ?st") (auto split: prod.splits)
  obtain e' gs' where x: "group_at length 0 ''s'' ''g'' 9 (fst (xclaim length 0 ''s'' ''g'' ''bob'' 100 [''9-0''] True 9 ?st)) = Some (e', gs')"
      "mset (pendings (consumers gs')) = mset (pendings (consumers gs))"
      "True \<longrightarrow> set [''9-0''] \<inter> set (pendings (consumers gs)) \<subseteq> set (pend ''bob'' gs')"
    using xclaim_conserves[OF wf g(1) surjective_pairing, of "''bob''" 100 "[''9-0'']" True] by blast
  then show ?thesis using g(2) mset_eq_length[OF x(2)] by (intro exI[of _ e'] exI[of _ gs']) simp
qed

end
