(* ===== verification/CmdArgs.thy ===== *)
theory CmdArgs
  imports Resp ZScores Streams
begin

text \<open>
  What the command handlers of \<open>zero/kv/command_dispatch.cc\<close> and \<open>zero/kv/commands_p0p1.cc\<close> share: the parsers of
  arguments, the parsers of options, and the encoders of replies. A request is the array of its values, the
  command's name first. The two files have their own \<open>parseInt64Arg\<close> and \<open>parseDoubleArg\<close>: those of
  \<open>commands_p0p1.cc\<close>, here with the suffix \<open>_lax\<close>, accept a number followed by anything.
\<close>

type_synonym request = "RespValue list"

subsection \<open>Arguments\<close>

text \<open>\<open>req.array[i].str\<close>; handlers use it for positions they have checked.\<close>

definition arg :: "request \<Rightarrow> nat \<Rightarrow> string" where
  "arg req i = rstr (req ! i)"

text \<open>\<open>*end == 0\<close> after a conversion that stopped at position \<open>n\<close> of a terminated string.\<close>

definition at_end :: "string \<Rightarrow> nat \<Rightarrow> bool" where
  "at_end s n \<longleftrightarrow> (s @ [CHR 0x00]) ! n = CHR 0x00"

definition parseDbIndex :: "RespValue \<Rightarrow> int option" where
  "parseDbIndex v =
     (if is_null v \<or> rtype v \<noteq> BulkString \<or> rstr v = [] then None
      else case strtoll (rstr v) of
        (n, k) \<Rightarrow> if k = 0 \<or> \<not> at_end (rstr v) k \<or> n < 0 \<or> n > 15 then None else Some n)"

definition parseInt64Arg :: "RespValue \<Rightarrow> int64 option" where
  "parseInt64Arg v =
     (if is_null v \<or> rtype v \<noteq> BulkString \<or> rstr v = [] then None
      else case strtoll (rstr v) of (n, k) \<Rightarrow> if k = 0 \<or> \<not> at_end (rstr v) k then None else Some n)"

definition parseDoubleArg :: "RespValue \<Rightarrow> double option" where
  "parseDoubleArg v =
     (if is_null v \<or> rtype v \<noteq> BulkString \<or> rstr v = [] then None
      else case strtod (rstr v) of (n, k) \<Rightarrow> if k = 0 \<or> \<not> at_end (rstr v) k then None else Some n)"

definition parseInt64Arg_lax :: "RespValue \<Rightarrow> int64 option" where
  "parseInt64Arg_lax v =
     (if rtype v \<noteq> BulkString \<or> is_null v then None
      else case strtoll (rstr v) of (n, k) \<Rightarrow> if k = 0 then None else Some n)"

definition parseDoubleArg_lax :: "RespValue \<Rightarrow> double option" where
  "parseDoubleArg_lax v =
     (if rtype v \<noteq> BulkString \<or> is_null v then None
      else case strtod (rstr v) of (n, k) \<Rightarrow> if k \<noteq> 0 \<and> \<not> is_nan n then Some n else None)"

definition upperArg :: "string \<Rightarrow> string" where
  "upperArg s = map to_upper s"

definition formatScore :: "double \<Rightarrow> string" where
  "formatScore score = fmt_g 6 score"

text \<open>The loops that gather the remaining arguments and fail on a null one.\<close>

definition collect_args :: "request \<Rightarrow> string list option" where
  "collect_args vs = (if list_ex is_null vs then None else Some (map rstr vs))"

fun collect_pairs :: "request \<Rightarrow> (string \<times> string) list option" where
  "collect_pairs (a # b # r) =
     (if is_null a \<or> is_null b then None else map_option ((#) (rstr a, rstr b)) (collect_pairs r))"
| "collect_pairs r = Some []"

text \<open>\<open>(int) n\<close> for a 64-bit number.\<close>

definition to_int :: "int64 \<Rightarrow> int" where
  "to_int n = (n + 2 ^ 31) mod 2 ^ 32 - 2 ^ 31"

subsection \<open>Options\<close>

definition kSyntax :: string where
  "kSyntax = ''ERR syntax error''"

definition kNotInt :: string where
  "kNotInt = ''ERR value is not an integer or out of range''"

record SetOptions =
  so_nx :: bool
  so_xx :: bool
  so_ex :: int64
  so_px :: int64

fun parseSetOptions :: "request \<Rightarrow> SetOptions \<Rightarrow> string + SetOptions" where
  "parseSetOptions [] opt = Inr opt"
| "parseSetOptions (v # r) opt =
     (if is_null v then Inl kSyntax
      else let flag = upperArg (rstr v) in
        if flag = ''NX'' then (if so_xx opt then Inl kSyntax else parseSetOptions r (opt\<lparr>so_nx := True\<rparr>))
        else if flag = ''XX'' then (if so_nx opt then Inl kSyntax else parseSetOptions r (opt\<lparr>so_xx := True\<rparr>))
        else if flag = ''EX'' then
          (if so_px opt \<ge> 0 then Inl kSyntax
           else case r of
             [] \<Rightarrow> Inl kSyntax
           | w # r' \<Rightarrow> if is_null w then Inl kSyntax
                      else (case parseInt64Arg w of None \<Rightarrow> Inl kNotInt
                            | Some n \<Rightarrow> parseSetOptions r' (opt\<lparr>so_ex := n\<rparr>)))
        else if flag = ''PX'' then
          (if so_ex opt \<ge> 0 then Inl kSyntax
           else case r of
             [] \<Rightarrow> Inl kSyntax
           | w # r' \<Rightarrow> if is_null w then Inl kSyntax
                      else (case parseInt64Arg w of None \<Rightarrow> Inl kNotInt
                            | Some n \<Rightarrow> parseSetOptions r' (opt\<lparr>so_px := n\<rparr>)))
        else Inl kSyntax)"

text \<open>The options \<open>MATCH\<close> and \<open>COUNT\<close> of the scans; the parser of the count differs between the two files.\<close>

fun scan_options :: "(RespValue \<Rightarrow> int64 option) \<Rightarrow> request \<Rightarrow> string \<Rightarrow> int64 \<Rightarrow> (string \<times> int64) option" where
  "scan_options pint [] pattern n = Some (pattern, n)"
| "scan_options pint (v # r) pattern n =
     (if is_null v then None
      else let opt = upperArg (rstr v) in
        if opt = ''MATCH'' then
          (case r of [] \<Rightarrow> None | w # r' \<Rightarrow> if is_null w then None else scan_options pint r' (rstr w) n)
        else if opt = ''COUNT'' then
          (case r of [] \<Rightarrow> None
           | w # r' \<Rightarrow> (case pint w of None \<Rightarrow> None | Some n' \<Rightarrow> scan_options pint r' pattern n'))
        else None)"

text \<open>The flags of \<open>ZADD\<close>, up to the first word that is none: the options and the remaining arguments.\<close>

fun zadd_flags :: "request \<Rightarrow> ZaddOptions \<Rightarrow> (ZaddOptions \<times> request) option" where
  "zadd_flags [] opt = Some (opt, [])"
| "zadd_flags (v # r) opt =
     (if is_null v then None
      else let flag = upperArg (rstr v) in
        if flag = ''NX'' then zadd_flags r (opt\<lparr>z_nx := True\<rparr>)
        else if flag = ''XX'' then zadd_flags r (opt\<lparr>z_xx := True\<rparr>)
        else if flag = ''GT'' then zadd_flags r (opt\<lparr>z_gt := True\<rparr>)
        else if flag = ''LT'' then zadd_flags r (opt\<lparr>z_lt := True\<rparr>)
        else if flag = ''CH'' then zadd_flags r (opt\<lparr>z_ch := True\<rparr>)
        else Some (opt, v # r))"

fun zadd_members :: "request \<Rightarrow> string + (double \<times> string) list" where
  "zadd_members (a # b # r) =
     (if is_null a \<or> is_null b then Inl kSyntax
      else case parseDoubleArg a of
        None \<Rightarrow> Inl ''ERR value is not a valid float''
      | Some s \<Rightarrow> (case zadd_members r of Inl e \<Rightarrow> Inl e | Inr ms \<Rightarrow> Inr ((s, rstr b) # ms)))"
| "zadd_members r = Inr []"

text \<open>The options of \<open>ZRANGEBYSCORE\<close>: scores, offset and count.\<close>

fun score_options :: "request \<Rightarrow> bool \<Rightarrow> int64 \<Rightarrow> int64 \<Rightarrow> (bool \<times> int64 \<times> int64) option" where
  "score_options [] ws off n = Some (ws, off, n)"
| "score_options (v # r) ws off n =
     (if is_null v then None
      else let opt = upperArg (rstr v) in
        if opt = ''WITHSCORES'' then score_options r True off n
        else if opt = ''LIMIT'' then
          (case r of
             a # b # r' \<Rightarrow> (case (parseInt64Arg_lax a, parseInt64Arg_lax b) of
                 (Some off', Some n') \<Rightarrow> score_options r' ws off' n' | _ \<Rightarrow> None)
           | _ \<Rightarrow> None)
        else None)"

text \<open>The options of \<open>GETEX\<close>.\<close>

fun getex_options :: "request \<Rightarrow> int64 \<Rightarrow> int64 \<Rightarrow> bool \<Rightarrow> string + int64 \<times> int64 \<times> bool" where
  "getex_options [] ex px pers = Inr (ex, px, pers)"
| "getex_options (v # r) ex px pers =
     (if is_null v then Inl kSyntax
      else let opt = upperArg (rstr v) in
        if opt = ''PERSIST'' then getex_options r ex px True
        else if (opt = ''EX'' \<or> opt = ''PX'') \<and> r \<noteq> [] then
          (case parseInt64Arg (hd r) of
             None \<Rightarrow> Inl kNotInt
           | Some n \<Rightarrow> if opt = ''EX'' then getex_options (tl r) n px pers else getex_options (tl r) ex n pers)
        else Inl kSyntax)"

text \<open>The identifiers of \<open>XCLAIM\<close>, among which the word \<open>FORCE\<close> may stand anywhere.\<close>

fun claim_ids :: "request \<Rightarrow> bool \<Rightarrow> string list \<Rightarrow> (bool \<times> string list) option" where
  "claim_ids [] force ids = Some (force, ids)"
| "claim_ids (v # r) force ids =
     (if is_null v then None
      else if upperArg (rstr v) = ''FORCE'' then claim_ids r True ids
      else claim_ids r force (ids @ [rstr v]))"

subsection \<open>Replies\<close>

definition array_of :: "RespValue list \<Rightarrow> RespValue" where
  "array_of vs = RespValue Array [] 0 vs False"

definition bulks :: "string list \<Rightarrow> RespValue" where
  "bulks ss = array_of (map bulk ss)"

definition bulk_or_null :: "string option \<Rightarrow> RespValue" where
  "bulk_or_null v = (case v of None \<Rightarrow> nullBulk | Some s \<Rightarrow> bulk s)"

definition int_or_zero :: "int64 option \<Rightarrow> RespValue" where
  "int_or_zero v = resp_integer (case v of None \<Rightarrow> 0 | Some n \<Rightarrow> n)"

definition bulks_or_empty :: "string list option \<Rightarrow> RespValue" where
  "bulks_or_empty v = bulks (case v of None \<Rightarrow> [] | Some ss \<Rightarrow> ss)"

definition bad_args :: "string \<Rightarrow> RespValue" where
  "bad_args cmd =
     resp_err (''ERR wrong number of arguments for '' @ [CHR 0x27] @ cmd @ [CHR 0x27] @ '' command'')"

definition syntax_error :: RespValue where
  "syntax_error = resp_err kSyntax"

definition not_int :: RespValue where
  "not_int = resp_err kNotInt"

text \<open>\<open>if(!store->op(..., &err)) return err; return f(result)\<close>.\<close>

definition reply_with :: "('a \<Rightarrow> RespValue) \<Rightarrow> KvStore \<times> (string + 'a) \<Rightarrow> KvStore \<times> RespValue" where
  "reply_with f r = (fst r, case snd r of Inl err \<Rightarrow> resp_err err | Inr v \<Rightarrow> f v)"

definition reply :: "('a \<Rightarrow> RespValue) \<Rightarrow> KvStore \<times> 'a \<Rightarrow> KvStore \<times> RespValue" where
  "reply f r = (fst r, f (snd r))"

definition encodeStreamEntries :: "StreamEntry list \<Rightarrow> RespValue" where
  "encodeStreamEntries es = array_of (map (\<lambda>e.
     array_of (bulk (se_id e) # concat (map (\<lambda>n. [bulk n, bulk (the (map_of (se_fields e) n))])
       (sort (map fst (se_fields e)))))) es)"

definition encode_streams :: "(string \<times> StreamEntry list) list \<Rightarrow> RespValue" where
  "encode_streams rs = array_of (map (\<lambda>(k, es). array_of [bulk k, encodeStreamEntries es]) rs)"

definition encodeCollectionScan :: "uint64 \<times> string list \<Rightarrow> RespValue" where
  "encodeCollectionScan sr = array_of [bulk (to_string (uint (fst sr))), bulks (snd sr)]"

definition encode_scored :: "bool \<Rightarrow> (string \<times> double) list option \<Rightarrow> RespValue" where
  "encode_scored ws v = array_of (concat (map (\<lambda>(m, s). if ws then [bulk m, bulk (formatScore s)] else [bulk m])
     (case v of None \<Rightarrow> [] | Some zs \<Rightarrow> zs)))"

definition encode_popped :: "(string \<times> double) option \<Rightarrow> RespValue" where
  "encode_popped v = (case v of None \<Rightarrow> emptyArray | Some (m, s) \<Rightarrow> array_of [bulk m, bulk (fmt_f s)])"

definition encode_summary :: "XPendingSummary \<Rightarrow> RespValue" where
  "encode_summary s =
     array_of [resp_integer (ps_count s), bulk (if ps_min s = [] then ''0-0'' else ps_min s),
       bulk (if ps_max s = [] then ''0-0'' else ps_max s),
       array_of (map (\<lambda>(c, n). array_of [bulk c, resp_integer n]) (ps_consumers s))]"

subsection \<open>Lemmas\<close>

lemma fst_reply [simp]: "fst (reply_with f r) = fst r" "fst (reply g s) = fst s"
  by (simp_all add: reply_with_def reply_def)

lemma collect_args_Some: "collect_args vs = Some ss \<longleftrightarrow> list_all (\<lambda>v. \<not> is_null v) vs \<and> ss = map rstr vs"
  by (auto simp: collect_args_def list_ex_iff list_all_iff)

lemma collect_args_bulks [simp]: "collect_args (map bulk ss) = Some ss"
  by (induction ss) (auto simp: collect_args_def bulk_def)

lemma collect_pairs_bulks [simp]:
  "collect_pairs (concat (map (\<lambda>(k, v). [bulk k, bulk v]) ps)) = Some ps"
  by (induction ps) (auto simp: bulk_def)

end
