(* ===== verification/Rdb.thy ===== *)
theory Rdb
  imports Keys
begin

text \<open>
  Snapshots: \<open>zero/kv/persistence/rdb.cc\<close>, with \<open>DUMP\<close> and \<open>RESTORE\<close> of single keys. The bytes are those of a
  little-endian machine. A reader takes the bytes between its pointer and the end and returns a value with the bytes
  that are left, or \<open>None\<close>. Memory is taken to suffice, also for the \<open>reserve\<close> of a count that was read. Files
  are not modelled: \<open>save\<close> and \<open>load\<close> add reading and writing a file to \<open>dump\<close> and \<open>loadFromString\<close>. The older
  format in JSON is not modelled, so \<open>loadFromString\<close> is the branch of the binary format.
\<close>

subsection \<open>Numbers and strings\<close>

definition kMagicV2 :: string where
  "kMagicV2 = ''SYRDB2'' @ [CHR 0x00, CHR 0x00]"

definition kDumpMagic :: string where
  "kDumpMagic = ''SYRDMP'' @ [CHR 0x00, CHR 0x00]"

definition kBinaryVersion :: nat where
  "kBinaryVersion = 2"

primrec le_bytes :: "nat \<Rightarrow> nat \<Rightarrow> string" where
  "le_bytes 0 v = []"
| "le_bytes (Suc n) v = char_of (v mod 256) # le_bytes n (v div 256)"

primrec le_val :: "string \<Rightarrow> nat" where
  "le_val [] = 0"
| "le_val (c # s) = of_char c + 256 * le_val s"

definition appendU8 :: "nat \<Rightarrow> string" where "appendU8 v = le_bytes 1 v"
definition appendU32 :: "nat \<Rightarrow> string" where "appendU32 v = le_bytes 4 v"
definition appendU64 :: "uint64 \<Rightarrow> string" where "appendU64 v = le_bytes 8 (unat v)"
definition appendI64 :: "int64 \<Rightarrow> string" where "appendI64 v = le_bytes 8 (nat (v mod 2 ^ 64))"

definition appendStr :: "string \<Rightarrow> string" where
  "appendStr s = appendU32 (length s) @ s"

type_synonym 'a reader = "string \<Rightarrow> ('a \<times> string) option"

definition readPod :: "nat \<Rightarrow> nat reader" where
  "readPod n p = (if length p < n then None else Some (le_val (take n p), drop n p))"

definition readU64 :: "uint64 reader" where
  "readU64 p = map_option (\<lambda>(v, q). (of_nat v, q)) (readPod 8 p)"

definition readI64 :: "int64 reader" where
  "readI64 p = map_option (\<lambda>(v, q). (i64 (int v), q)) (readPod 8 p)"

definition readStr :: "string reader" where
  "readStr p =
     (case readPod 4 p of
        None \<Rightarrow> None
      | Some (len, q) \<Rightarrow> if length q < len then None else Some (take len q, drop len q))"

text \<open>The loops over a count that was read, and the pair of reads in the body of most of them.\<close>

fun read_times :: "nat \<Rightarrow> 'a reader \<Rightarrow> 'a list reader" where
  "read_times n r p =
     (if n = 0 then Some ([], p)
      else case r p of
        None \<Rightarrow> None
      | Some (x, q) \<Rightarrow> (case read_times (n - 1) r q of None \<Rightarrow> None | Some (xs, q') \<Rightarrow> Some (x # xs, q')))"

declare read_times.simps [simp del]

definition read_list :: "'a reader \<Rightarrow> 'a list reader" where
  "read_list r p = (case readPod 4 p of None \<Rightarrow> None | Some (n, q) \<Rightarrow> read_times n r q)"

definition read_pair :: "'a reader \<Rightarrow> 'b reader \<Rightarrow> ('a \<times> 'b) reader" where
  "read_pair r1 r2 p =
     (case r1 p of
        None \<Rightarrow> None
      | Some (x, q) \<Rightarrow> (case r2 q of None \<Rightarrow> None | Some (y, q') \<Rightarrow> Some ((x, y), q')))"

definition read_as :: "('a \<Rightarrow> 'b) \<Rightarrow> 'a reader \<Rightarrow> 'b reader" where
  "read_as f r p = map_option (\<lambda>(x, q). (f x, q)) (r p)"

text \<open>\<open>m[k] = v\<close> for each pair read, in order.\<close>

definition assign_all :: "('k \<times> 'v) list \<Rightarrow> ('k, 'v) umap" where
  "assign_all ps = fold (\<lambda>(k, v). AList.update k v) ps []"

definition insert_each :: "string list \<Rightarrow> string list" where
  "insert_each ms = fold uset_insert ms []"

definition put_each :: "(string \<times> double) list \<Rightarrow> (string \<times> double) list" where
  "put_each ps = fold (\<lambda>(k, v). omap_put k v) ps []"

subsection \<open>Streams\<close>

definition write_list :: "('a \<Rightarrow> string) \<Rightarrow> 'a list \<Rightarrow> string" where
  "write_list f xs = appendU32 (length xs) @ concat (map f xs)"

definition meta_of :: "StreamConsumerState \<Rightarrow> string \<Rightarrow> int64 \<times> int64" where
  "meta_of c pid = (case map_of (pending_meta c) pid of None \<Rightarrow> (0, 1) | Some m \<Rightarrow> (delivery_ms m, delivery_count m))"

definition write_pending :: "StreamConsumerState \<Rightarrow> string \<Rightarrow> string" where
  "write_pending c pid = appendStr pid @ appendI64 (fst (meta_of c pid)) @ appendI64 (snd (meta_of c pid))"

definition write_consumer :: "string \<times> StreamConsumerState \<Rightarrow> string" where
  "write_consumer cp =
     appendStr (fst cp) @ appendStr (cs_last_id (snd cp)) @ write_list (write_pending (snd cp)) (cs_pending (snd cp))"

definition write_group :: "string \<times> StreamGroupState \<Rightarrow> string" where
  "write_group gp =
     appendStr (fst gp) @ appendStr (gs_last_id (snd gp)) @ write_list write_consumer (consumers (snd gp))"

definition write_field :: "string \<times> string \<Rightarrow> string" where
  "write_field f = appendStr (fst f) @ appendStr (snd f)"

definition write_item :: "StreamEntry \<Rightarrow> string" where
  "write_item se = appendStr (se_id se) @ write_list write_field (se_fields se)"

definition writeStreamEntry :: "Entry \<Rightarrow> string" where
  "writeStreamEntry e =
     appendU64 (stream_last_ms e) @ appendU64 (stream_last_seq e) @ write_list write_item (estream e) @
     write_list write_group (stream_groups e)"

definition make_item :: "string \<times> (string \<times> string) list \<Rightarrow> StreamEntry" where
  "make_item x = \<lparr>se_id = fst x, se_fields = assign_all (snd x)\<rparr>"

definition read_item :: "StreamEntry reader" where
  "read_item = read_as make_item (read_pair readStr (read_list (read_pair readStr readStr)))"

definition make_consumer :: "string \<times> string \<times> (string \<times> int64 \<times> int64) list \<Rightarrow> string \<times> StreamConsumerState" where
  "make_consumer x =
     (case x of (cname, lid, ps) \<Rightarrow>
        (cname, \<lparr>cs_last_id = lid, cs_pending = map fst ps,
                 pending_meta = assign_all (map (\<lambda>(pid, ms, n). (pid, \<lparr>delivery_ms = ms, delivery_count = n\<rparr>)) ps)\<rparr>))"

definition read_consumer :: "(string \<times> StreamConsumerState) reader" where
  "read_consumer =
     read_as make_consumer (read_pair readStr (read_pair readStr (read_list (read_pair readStr (read_pair readI64 readI64)))))"

definition make_group :: "string \<times> string \<times> (string \<times> StreamConsumerState) list \<Rightarrow> string \<times> StreamGroupState" where
  "make_group x = (case x of (gname, lid, cs) \<Rightarrow> (gname, \<lparr>gs_last_id = lid, consumers = assign_all cs\<rparr>))"

definition read_group :: "(string \<times> StreamGroupState) reader" where
  "read_group = read_as make_group (read_pair readStr (read_pair readStr (read_list read_consumer)))"

definition readStreamEntry :: "Entry \<Rightarrow> Entry reader" where
  "readStreamEntry e =
     read_as (\<lambda>(ms, seq, items, gs). e\<lparr>stream_last_ms := ms, stream_last_seq := seq, estream := items,
                stream_groups := assign_all gs\<rparr>)
       (read_pair readU64 (read_pair readU64 (read_pair (read_list read_item) (read_list read_group))))"

subsection \<open>Entries\<close>

definition type_byte :: "ObjType \<Rightarrow> nat" where
  "type_byte t = (case t of String \<Rightarrow> 0 | Hash \<Rightarrow> 1 | List \<Rightarrow> 2 | Set \<Rightarrow> 3 | ZSet \<Rightarrow> 4 | Stream \<Rightarrow> 5)"

text \<open>The cast of a byte to \<open>ObjType\<close>; there is no such type for a byte above 5.\<close>

definition type_of :: "nat \<Rightarrow> ObjType option" where
  "type_of n = (if n = 0 then Some String else if n = 1 then Some Hash else if n = 2 then Some List
     else if n = 3 then Some Set else if n = 4 then Some ZSet else if n = 5 then Some Stream else None)"

definition write_score :: "string \<times> double \<Rightarrow> string" where
  "write_score z = appendStr (fst z) @ appendU64 (snd z)"

definition writeEntryPayload :: "Entry \<Rightarrow> string" where
  "writeEntryPayload e =
     (case etype e of
        Hash \<Rightarrow> write_list write_field (ehash e)
      | List \<Rightarrow> write_list appendStr (elist e)
      | Set \<Rightarrow> write_list appendStr (eset e)
      | ZSet \<Rightarrow> write_list write_score (ezset e)
      | Stream \<Rightarrow> writeStreamEntry e
      | String \<Rightarrow> appendStr (evalue e))"

text \<open>\<open>t\<close> is the type of the byte, with \<open>String\<close> standing for the default branch of the switch; the type of the entry
  is set by the callers.\<close>

definition readEntryPayload :: "ObjType \<Rightarrow> Entry \<Rightarrow> Entry reader" where
  "readEntryPayload t e =
     (case t of
        Hash \<Rightarrow> read_as (\<lambda>ps. e\<lparr>ehash := assign_all ps\<rparr>) (read_list (read_pair readStr readStr))
      | List \<Rightarrow> read_as (\<lambda>vs. e\<lparr>elist := vs\<rparr>) (read_list readStr)
      | Set \<Rightarrow> read_as (\<lambda>ms. e\<lparr>eset := insert_each ms\<rparr>) (read_list readStr)
      | ZSet \<Rightarrow> read_as (\<lambda>zs. e\<lparr>ezset := put_each zs\<rparr>) (read_list (read_pair readStr readU64))
      | Stream \<Rightarrow> readStreamEntry e
      | String \<Rightarrow> read_as (\<lambda>v. e\<lparr>evalue := v\<rparr>) readStr)"

definition skipEntryPayload :: "ObjType \<Rightarrow> unit reader" where
  "skipEntryPayload t =
     (case t of
        Hash \<Rightarrow> read_as (\<lambda>_. ()) (read_list (read_pair readStr readStr))
      | List \<Rightarrow> read_as (\<lambda>_. ()) (read_list readStr)
      | Set \<Rightarrow> read_as (\<lambda>_. ()) (read_list readStr)
      | ZSet \<Rightarrow> read_as (\<lambda>_. ()) (read_list (read_pair readStr readU64))
      | Stream \<Rightarrow> read_as (\<lambda>_. ()) (readStreamEntry new_entry)
      | String \<Rightarrow> read_as (\<lambda>_. ()) readStr)"

subsection \<open>Snapshots\<close>

type_synonym snapshot = "(int \<times> (string \<times> Entry) list) list"

text \<open>The live entries are collected by database; a database with no live entry in its first shard gets its slot
  from a later one.\<close>

fun snap_add :: "int \<Rightarrow> (string \<times> Entry) list \<Rightarrow> snapshot \<Rightarrow> snapshot" where
  "snap_add db es [] = (if es = [] then [] else [(db, es)])"
| "snap_add db es ((d, xs) # r) = (if d = db then (d, xs @ es) # r else (d, xs) # snap_add db es r)"

definition snap_shard :: "int64 \<Rightarrow> Shard \<Rightarrow> snapshot \<Rightarrow> snapshot" where
  "snap_shard now sh s = fold (\<lambda>(db, d). snap_add db (purgeExpiredDb d now)) (m_dbs sh) s"

definition snapshot_of :: "int64 \<Rightarrow> KvStore \<Rightarrow> snapshot" where
  "snapshot_of now st = fold (snap_shard now) (m_shards st) []"

definition write_entry :: "string \<times> Entry \<Rightarrow> string" where
  "write_entry kv =
     appendStr (fst kv) @ appendI64 (expire_at_ms (snd kv)) @ appendU8 (type_byte (etype (snd kv))) @
     writeEntryPayload (snd kv)"

definition write_database :: "int \<times> (string \<times> Entry) list \<Rightarrow> string" where
  "write_database db = appendI64 (fst db) @ write_list write_entry (snd db)"

text \<open>\<open>dumpBinaryV2\<close>, with the readings of the clock for the header and for the entries.\<close>

definition dumpBinaryV2 :: "int64 \<Rightarrow> int64 \<Rightarrow> KvStore \<Rightarrow> string" where
  "dumpBinaryV2 t now st =
     kMagicV2 @ appendU32 kBinaryVersion @ appendI64 t @ write_list write_database (snapshot_of now st) @ appendU8 255"

text \<open>Reading: \<open>Inl\<close> is the failure with its message, which some branches leave empty.\<close>

definition or_err :: "string \<Rightarrow> 'a option \<Rightarrow> string + 'a" where
  "or_err err x = (case x of None \<Rightarrow> Inl err | Some y \<Rightarrow> Inr y)"

definition kBadEntry :: string where "kBadEntry = ''ERR malformed RDB entry''"

definition load_payload :: "nat \<Rightarrow> Entry \<Rightarrow> string \<Rightarrow> string + Entry \<times> string" where
  "load_payload b e p =
     (let t = (case type_of b of None \<Rightarrow> String | Some t \<Rightarrow> t)
      in or_err (if t = Stream then ''ERR malformed RDB stream'' else []) (readEntryPayload t (e\<lparr>etype := t\<rparr>) p))"

text \<open>One entry: \<open>None\<close> for one that has expired and is skipped.\<close>

definition load_entry :: "int64 \<Rightarrow> string \<Rightarrow> string + (string \<times> Entry) option \<times> string" where
  "load_entry now p =
     (case read_pair readStr readI64 p of
        None \<Rightarrow> Inl kBadEntry
      | Some ((key, ex), q) \<Rightarrow>
          let e = new_entry\<lparr>expire_at_ms := ex\<rparr> in
          if isExpired e now then
            (case readPod 1 q of
               None \<Rightarrow> Inl []
             | Some (b, q1) \<Rightarrow>
                 map_sum id (\<lambda>(_, q2). (None, q2))
                   (or_err ''ERR malformed RDB entry payload''
                     (skipEntryPayload (case type_of b of None \<Rightarrow> String | Some t \<Rightarrow> t) q1)))
          else
            (case readPod 1 q of
               None \<Rightarrow> Inl ''ERR malformed RDB type''
             | Some (b, q1) \<Rightarrow> map_sum id (\<lambda>(e', q2). (Some (key, e'), q2)) (load_payload b e q1)))"

fun load_entries :: "int64 \<Rightarrow> nat \<Rightarrow> DbMap \<Rightarrow> string \<Rightarrow> string + DbMap \<times> string" where
  "load_entries now n d p =
     (if n = 0 then Inr (d, p)
      else case load_entry now p of
        Inl err \<Rightarrow> Inl err
      | Inr (x, q) \<Rightarrow> load_entries now (n - 1) (case x of None \<Rightarrow> d | Some (k, e) \<Rightarrow> AList.update k e d) q)"

declare load_entries.simps [simp del]

text \<open>\<open>(int) db_id\<close>: the map of databases is keyed by \<open>int\<close>.\<close>

definition as_int :: "int64 \<Rightarrow> int" where
  "as_int n = (n + 2 ^ 31) mod 2 ^ 32 - 2 ^ 31"

fun load_databases :: "int64 \<Rightarrow> nat \<Rightarrow> (int, DbMap) umap \<Rightarrow> string \<Rightarrow> string + (int, DbMap) umap \<times> string" where
  "load_databases now n rebuilt p =
     (if n = 0 then Inr (rebuilt, p)
      else case readI64 p of
        None \<Rightarrow> Inl ''ERR malformed RDB db id''
      | Some (db_id, q) \<Rightarrow>
          (case readPod 4 q of
             None \<Rightarrow> Inl ''ERR malformed RDB key count''
           | Some (key_count, q1) \<Rightarrow>
               (case load_entries now key_count (umap_get [] (as_int db_id) rebuilt) q1 of
                  Inl err \<Rightarrow> Inl err
                | Inr (d, q2) \<Rightarrow> load_databases now (n - 1) (AList.update (as_int db_id) d rebuilt) q2)))"

declare load_databases.simps [simp del]

definition clear_shard :: "Shard \<Rightarrow> Shard" where
  "clear_shard sh = sh\<lparr>m_dbs := [], m_watch_versions := map (\<lambda>_. []) (m_watch_versions sh)\<rparr>"

definition install :: "hasher \<Rightarrow> (int, DbMap) umap \<Rightarrow> KvStore \<Rightarrow> KvStore" where
  "install h rebuilt st =
     fold (\<lambda>(db, d) s. fold (\<lambda>(k, e). putEntry h db k e) d s) rebuilt (st\<lparr>m_shards := map clear_shard (m_shards st)\<rparr>)"

definition loadBinaryV2 :: "hasher \<Rightarrow> int64 \<Rightarrow> string \<Rightarrow> KvStore \<Rightarrow> KvStore \<times> (string + unit)" where
  "loadBinaryV2 h now data st =
     (if length data < 8 \<or> take 8 data \<noteq> kMagicV2 then (st, Inl ''ERR invalid RDB magic'')
      else case readPod 4 (drop 8 data) of
        None \<Rightarrow> (st, Inl ''ERR unsupported RDB version'')
      | Some (version, p1) \<Rightarrow>
          if version \<noteq> kBinaryVersion then (st, Inl ''ERR unsupported RDB version'')
          else (case readPod 8 p1 of
            None \<Rightarrow> (st, Inl ''ERR malformed RDB header'')
          | Some (_, p2) \<Rightarrow>
              (case readPod 4 p2 of
                 None \<Rightarrow> (st, Inl ''ERR malformed RDB databases'')
               | Some (db_count, p3) \<Rightarrow>
                   (case load_databases now db_count [] p3 of
                      Inl err \<Rightarrow> (st, Inl err)
                    | Inr (rebuilt, p4) \<Rightarrow>
                        (case readPod 1 p4 of
                           None \<Rightarrow> (st, Inl ''ERR malformed RDB footer'')
                         | Some (footer, _) \<Rightarrow>
                             if footer \<noteq> 255 then (st, Inl ''ERR malformed RDB footer'')
                             else (install h rebuilt st, Inr ()))))))"

subsection \<open>Single keys\<close>

text \<open>\<open>dumpKey\<close>: the remaining time to live and the payload, where the key is live.\<close>

definition dumpKey :: "hasher \<Rightarrow> int \<Rightarrow> string \<Rightarrow> int64 \<Rightarrow> KvStore \<Rightarrow> (int64 \<times> string) option" where
  "dumpKey h db key now st =
     (case map_of (m_dbs (getShard h st key)) db of
        None \<Rightarrow> None
      | Some d \<Rightarrow>
          (case map_of d key of
             None \<Rightarrow> None
           | Some e \<Rightarrow>
               if isExpired e now then None
               else Some (if expire_at_ms e > now then expire_at_ms e - now else 0,
                          kDumpMagic @ appendI64 (expire_at_ms e) @ appendU8 (type_byte (etype e)) @ writeEntryPayload e)))"

definition kBadPayload :: string where
  "kBadPayload = ''ERR DUMP payload version or checksum are wrong''"

definition kBusyKey :: string where
  "kBusyKey = ''BUSYKEY Target key name already exists.''"

text \<open>The entry in a payload; the second component is the type of its byte.\<close>

definition parse_payload :: "string \<Rightarrow> (Entry \<times> ObjType option) option" where
  "parse_payload payload =
     (if length payload < 8 \<or> take 6 payload \<noteq> ''SYRDMP'' then None
      else case read_pair readI64 (readPod 1) (drop 8 payload) of
        None \<Rightarrow> None
      | Some ((_, b), q) \<Rightarrow>
          (let t = (case type_of b of None \<Rightarrow> String | Some t \<Rightarrow> t)
           in map_option (\<lambda>(e, _). (e, type_of b)) (readEntryPayload t (new_entry\<lparr>etype := t\<rparr>) q)))"

text \<open>\<open>restoreKey\<close>: the payload may name a type outside the enumeration; such an entry is no value of the model,
  and \<open>untyped\<close> stands for the store it is entered into.\<close>

definition restoreKey ::
    "hasher \<Rightarrow> (int \<Rightarrow> string \<Rightarrow> KvStore \<Rightarrow> KvStore) \<Rightarrow> int \<Rightarrow> string \<Rightarrow> int64 \<Rightarrow> string \<Rightarrow> bool \<Rightarrow> int64 \<Rightarrow> KvStore \<Rightarrow>
     KvStore \<times> (string + unit)" where
  "restoreKey h untyped db key ttl_ms payload replace now st =
     (case parse_payload payload of
        None \<Rightarrow> (st, Inl kBadPayload)
      | Some (e, t) \<Rightarrow>
          (let st1 = upd_shard h key (\<lambda>sh. set_db db (db_at sh db) sh) st;
               busy = (case map_of (db_at (getShard h st key) db) key of None \<Rightarrow> False | Some x \<Rightarrow> \<not> isExpired x now)
           in if busy \<and> \<not> replace then (st1, Inl kBusyKey)
              else if t = None then (untyped db key st1, Inr ())
              else (bumpWatchKey h db key
                      (putEntry h db key (e\<lparr>expire_at_ms := (if ttl_ms = 0 then 0 else i64 (now + ttl_ms)), lru_ms := now\<rparr>) st1),
                    Inr ())))"

subsection \<open>Codecs\<close>

text \<open>A writer and a reader that fit: reading what was written gives back a value (up to \<open>norm\<close>) and leaves what
  follows. Lists of such values fit as well.\<close>

locale codec =
  fixes ok :: "'a \<Rightarrow> bool"
    and wr :: "'a \<Rightarrow> string"
    and rd :: "string \<Rightarrow> ('b \<times> string) option"
    and norm :: "'a \<Rightarrow> 'b"
  assumes rd_wr: "ok x \<Longrightarrow> rd (wr x @ s) = Some (norm x, s)"
begin

lemma rd_times: "list_all ok xs \<Longrightarrow> read_times (length xs) rd (concat (map wr xs) @ s) = Some (map norm xs, s)"
  by (induction xs) (simp_all add: read_times.simps[of _ _ "concat _ @ _"] read_times.simps[of _ _ "_ @ _"]
      read_times.simps[of 0] rd_wr)

end

lemma le_val_bytes: "le_val (le_bytes n v) = v mod 256 ^ n"
proof (induction n arbitrary: v)
  case (Suc n)
  have "v mod (256 * 256 ^ n) = v mod 256 + 256 * (v div 256 mod 256 ^ n)" by (simp add: mod_mult2_eq)
  then show ?case by (simp add: Suc)
qed simp

lemma length_le_bytes [simp]: "length (le_bytes n v) = n"
  by (induction n arbitrary: v) simp_all

lemma readPod_le [simp]: "readPod n (le_bytes n v @ s) = Some (v mod 256 ^ n, s)"
  by (simp add: readPod_def le_val_bytes)

lemma readPod_U32 [simp]: "n < 2 ^ 32 \<Longrightarrow> readPod 4 (appendU32 n @ s) = Some (n, s)"
  by (simp add: appendU32_def)

lemma readPod_U8 [simp]: "n < 256 \<Longrightarrow> readPod (Suc 0) (appendU8 n @ s) = Some (n, s)"
  using readPod_le[of 1 n s] by (simp add: appendU8_def del: readPod_le)

lemma readU64_append [simp]: "readU64 (appendU64 v @ s) = Some (v, s)"
  using unsigned_less[of v, where 'a = nat] by (simp add: readU64_def appendU64_def)

lemma readI64_append [simp]: "in_i64 v \<Longrightarrow> readI64 (appendI64 v @ s) = Some (v, s)"
proof -
  assume v: "in_i64 v"
  have "nat (v mod 2 ^ 64) < 256 ^ 8" by (simp add: nat_less_iff)
  moreover have "i64 (v mod 2 ^ 64) = v" using v by (simp add: i64_def in_i64_def mod_add_left_eq)
  ultimately show ?thesis by (simp add: readI64_def appendI64_def)
qed

lemma readStr_append [simp]: "length t < 2 ^ 32 \<Longrightarrow> readStr (appendStr t @ s) = Some (t, s)"
  by (simp add: readStr_def appendStr_def)

lemma codec_list:
  assumes "codec ok wr rd norm" "length xs < 2 ^ 32" "list_all ok xs"
  shows "read_list rd (write_list wr xs @ s) = Some (map norm xs, s)"
  using assms codec.rd_times[OF assms(1,3)] by (simp add: read_list_def write_list_def)

text \<open>What fits the format: counts and lengths are 32 bits wide, and times are 64-bit integers, as the members of the
  structures are; the maps of a stream have distinct keys, as every \<open>std::unordered_map\<close>.\<close>

definition short :: "'a list \<Rightarrow> bool" where
  "short s \<longleftrightarrow> length s < 2 ^ 32"

definition field_fits :: "string \<times> string \<Rightarrow> bool" where
  "field_fits f \<longleftrightarrow> short (fst f) \<and> short (snd f)"

definition item_fits :: "StreamEntry \<Rightarrow> bool" where
  "item_fits se \<longleftrightarrow> short (se_id se) \<and> short (se_fields se) \<and> list_all field_fits (se_fields se) \<and>
     distinct (map fst (se_fields se))"

definition pending_fits :: "StreamConsumerState \<Rightarrow> string \<Rightarrow> bool" where
  "pending_fits c pid \<longleftrightarrow> short pid \<and> in_i64 (fst (meta_of c pid)) \<and> in_i64 (snd (meta_of c pid))"

definition consumer_fits :: "string \<times> StreamConsumerState \<Rightarrow> bool" where
  "consumer_fits cp \<longleftrightarrow> short (fst cp) \<and> short (cs_last_id (snd cp)) \<and> short (cs_pending (snd cp)) \<and>
     list_all (pending_fits (snd cp)) (cs_pending (snd cp))"

definition group_fits :: "string \<times> StreamGroupState \<Rightarrow> bool" where
  "group_fits gp \<longleftrightarrow> short (fst gp) \<and> short (gs_last_id (snd gp)) \<and> short (consumers (snd gp)) \<and>
     list_all consumer_fits (consumers (snd gp)) \<and> distinct (map fst (consumers (snd gp)))"

definition score_fits :: "string \<times> double \<Rightarrow> bool" where
  "score_fits z \<longleftrightarrow> short (fst z)"

definition fits :: "Entry \<Rightarrow> bool" where
  "fits e \<longleftrightarrow> in_i64 (expire_at_ms e) \<and> short (evalue e) \<and> short (ehash e) \<and> list_all field_fits (ehash e) \<and>
     short (elist e) \<and> list_all short (elist e) \<and> short (eset e) \<and> list_all short (eset e) \<and>
     short (ezset e) \<and> list_all score_fits (ezset e) \<and>
     short (estream e) \<and> list_all item_fits (estream e) \<and>
     short (stream_groups e) \<and> list_all group_fits (stream_groups e) \<and> distinct (map fst (stream_groups e))"

text \<open>A consumer comes back with records for exactly its pending identifiers.\<close>

definition kept_consumer :: "string \<times> StreamConsumerState \<Rightarrow> string \<times> StreamConsumerState" where
  "kept_consumer cp = (fst cp, \<lparr>cs_last_id = cs_last_id (snd cp), cs_pending = cs_pending (snd cp), pending_meta =
     assign_all (map (\<lambda>pid. (pid, \<lparr>delivery_ms = fst (meta_of (snd cp) pid), delivery_count = snd (meta_of (snd cp) pid)\<rparr>))
       (cs_pending (snd cp)))\<rparr>)"

definition kept_group :: "string \<times> StreamGroupState \<Rightarrow> string \<times> StreamGroupState" where
  "kept_group gp = (fst gp, \<lparr>gs_last_id = gs_last_id (snd gp), consumers = map kept_consumer (consumers (snd gp))\<rparr>)"

lemma fold_update_distinct:
  "distinct (map fst (m @ ps)) \<Longrightarrow> fold (\<lambda>(k, v). AList.update k v) ps m = m @ ps"
proof (induction ps arbitrary: m)
  case (Cons p ps)
  obtain k v where p: "p = (k, v)" by (cases p)
  have "AList.update k v m = m @ [(k, v)]" using Cons.prems unfolding p by (induction m) auto
  then show ?case using Cons.IH[of "m @ [(k, v)]"] Cons.prems by (simp add: p)
qed simp

lemma assign_all_distinct: "distinct (map fst ps) \<Longrightarrow> assign_all ps = ps"
  using fold_update_distinct[of "[]" ps] by (simp add: assign_all_def)

lemma insert_each_distinct: "distinct ms \<Longrightarrow> insert_each ms = ms"
proof -
  have "distinct (m @ ms) \<Longrightarrow> fold uset_insert ms m = m @ ms" for m
    by (induction ms arbitrary: m) (simp_all add: uset_insert_def)
  from this[of "[]"] show "distinct ms \<Longrightarrow> ?thesis" by (simp add: insert_each_def)
qed

lemma put_each_sorted: "sorted (map fst ps) \<Longrightarrow> distinct (map fst ps) \<Longrightarrow> put_each ps = ps"
proof -
  have put: "\<forall>x \<in> set m. fst x < k \<Longrightarrow> omap_put k v m = m @ [(k, v)]" for k :: string and v :: double and m
    by (induction m) auto
  have "sorted (map fst (m @ ps)) \<Longrightarrow> distinct (map fst (m @ ps)) \<Longrightarrow> fold (\<lambda>(k, v). omap_put k v) ps m = m @ ps" for m
  proof (induction ps arbitrary: m)
    case (Cons p ps)
    obtain k v where p: "p = (k, v)" by (cases p)
    have "\<forall>x \<in> set m. fst x < k" using Cons.prems by (force simp: p sorted_append order.strict_iff_order)
    then show ?case using Cons.IH[of "m @ [(k, v)]"] Cons.prems by (simp add: p put)
  qed simp
  from this[of "[]"] show "sorted (map fst ps) \<Longrightarrow> distinct (map fst ps) \<Longrightarrow> ?thesis" by (simp add: put_each_def)
qed

interpretation strs: codec short appendStr readStr id
  by unfold_locales (simp add: short_def)

interpretation fields: codec field_fits write_field "read_pair readStr readStr" id
  by unfold_locales (simp add: field_fits_def write_field_def read_pair_def short_def)

interpretation scores: codec score_fits write_score "read_pair readStr readU64" id
  by unfold_locales (simp add: score_fits_def write_score_def read_pair_def short_def)

lemma read_list_write:
  "short xs \<Longrightarrow> list_all short xs \<Longrightarrow> read_list readStr (write_list appendStr xs @ s) = Some (xs, s)"
  "short fs \<Longrightarrow> list_all field_fits fs \<Longrightarrow> read_list (read_pair readStr readStr) (write_list write_field fs @ s) = Some (fs, s)"
  "short zs \<Longrightarrow> list_all score_fits zs \<Longrightarrow> read_list (read_pair readStr readU64) (write_list write_score zs @ s) = Some (zs, s)"
  using codec_list[OF strs.codec_axioms] codec_list[OF fields.codec_axioms] codec_list[OF scores.codec_axioms]
  by (simp_all add: short_def)

interpretation items: codec item_fits write_item read_item id
proof unfold_locales
  fix x s
  assume x: "item_fits x"
  then have "make_item (se_id x, se_fields x) = x" by (simp add: make_item_def item_fits_def assign_all_distinct)
  then show "read_item (write_item x @ s) = Some (id x, s)"
    using x by (simp add: read_item_def write_item_def read_as_def read_pair_def item_fits_def read_list_write short_def)
qed

lemma codec_pending:
  "codec (pending_fits c) (write_pending c) (read_pair readStr (read_pair readI64 readI64))
     (\<lambda>pid. (pid, fst (meta_of c pid), snd (meta_of c pid)))"
  by unfold_locales (simp add: pending_fits_def write_pending_def read_pair_def short_def)

interpretation members: codec consumer_fits write_consumer read_consumer kept_consumer
proof unfold_locales
  fix x s
  assume x: "consumer_fits x"
  then show "read_consumer (write_consumer x @ s) = Some (kept_consumer x, s)"
    using codec_list[OF codec_pending, of "cs_pending (snd x)" "snd x" s]
    by (simp add: read_consumer_def write_consumer_def read_as_def read_pair_def consumer_fits_def short_def make_consumer_def
        kept_consumer_def comp_def case_prod_unfold)
qed

lemma fst_kept [simp]: "fst (kept_consumer cp) = fst cp" "fst (kept_group gp) = fst gp"
  by (simp_all add: kept_consumer_def kept_group_def)

interpretation groups: codec group_fits write_group read_group kept_group
proof unfold_locales
  fix x s
  assume x: "group_fits x"
  then have "assign_all (map kept_consumer (consumers (snd x))) = map kept_consumer (consumers (snd x))"
    by (intro assign_all_distinct) (simp add: group_fits_def comp_def)
  then show "read_group (write_group x @ s) = Some (kept_group x, s)"
    using x codec_list[OF members.codec_axioms, of "consumers (snd x)" s]
    by (simp add: read_group_def write_group_def read_as_def read_pair_def group_fits_def short_def make_group_def kept_group_def)
qed

subsection \<open>Entries come back\<close>

definition fill :: "Entry \<Rightarrow> Entry \<Rightarrow> Entry" where
  "fill e e0 =
     (case etype e of
        Hash \<Rightarrow> e0\<lparr>ehash := ehash e\<rparr>
      | List \<Rightarrow> e0\<lparr>elist := elist e\<rparr>
      | Set \<Rightarrow> e0\<lparr>eset := eset e\<rparr>
      | ZSet \<Rightarrow> e0\<lparr>ezset := ezset e\<rparr>
      | Stream \<Rightarrow> e0\<lparr>stream_last_ms := stream_last_ms e, stream_last_seq := stream_last_seq e, estream := estream e,
                     stream_groups := map kept_group (stream_groups e)\<rparr>
      | String \<Rightarrow> e0\<lparr>evalue := evalue e\<rparr>)"

text \<open>What clients see of an entry, whatever the order of its unordered containers.\<close>

datatype Contents =
    CString string
  | CHash "string \<rightharpoonup> string"
  | CList "string list"
  | CSet "string set"
  | CZSet "(string \<times> double) list"
  | CStream uint64 uint64 "(string \<times> (string \<rightharpoonup> string)) list"
      "string \<rightharpoonup> string \<times> (string \<rightharpoonup> string \<times> (string \<times> int64 \<times> int64) list)"

definition consumer_view :: "StreamConsumerState \<Rightarrow> string \<times> (string \<times> int64 \<times> int64) list" where
  "consumer_view c = (cs_last_id c, map (\<lambda>pid. (pid, meta_of c pid)) (cs_pending c))"

definition group_view :: "StreamGroupState \<Rightarrow> string \<times> (string \<rightharpoonup> string \<times> (string \<times> int64 \<times> int64) list)" where
  "group_view g = (gs_last_id g, map_option consumer_view \<circ> map_of (consumers g))"

definition contents :: "Entry \<Rightarrow> Contents" where
  "contents e =
     (case etype e of
        Hash \<Rightarrow> CHash (map_of (ehash e))
      | List \<Rightarrow> CList (elist e)
      | Set \<Rightarrow> CSet (set (eset e))
      | ZSet \<Rightarrow> CZSet (ezset e)
      | Stream \<Rightarrow> CStream (stream_last_ms e) (stream_last_seq e) (map (\<lambda>se. (se_id se, map_of (se_fields se))) (estream e))
                    (map_option group_view \<circ> map_of (stream_groups e))
      | String \<Rightarrow> CString (evalue e))"

lemma map_of_assign_graph: "pid \<in> set ps \<Longrightarrow> map_of (assign_all (map (\<lambda>p. (p, f p)) ps)) pid = Some (f pid)"
proof -
  have "map_of (fold (\<lambda>(k, v). AList.update k v) (map (\<lambda>p. (p, f p)) ps) m) pid =
      (if pid \<in> set ps then Some (f pid) else map_of m pid)" for m
    by (induction ps arbitrary: m) simp_all
  then show "pid \<in> set ps \<Longrightarrow> ?thesis" by (simp add: assign_all_def)
qed

lemma consumer_view_kept [simp]: "consumer_view (snd (kept_consumer cp)) = consumer_view (snd cp)"
proof -
  have "meta_of (snd (kept_consumer cp)) pid = meta_of (snd cp) pid" if "pid \<in> set (cs_pending (snd cp))" for pid
    using map_of_assign_graph[OF that, of "\<lambda>p. \<lparr>delivery_ms = fst (meta_of (snd cp) p), delivery_count = snd (meta_of (snd cp) p)\<rparr>"]
    by (simp add: kept_consumer_def meta_of_def[of "\<lparr>cs_last_id = _, cs_pending = _, pending_meta = _\<rparr>"])
  then show ?thesis by (simp add: consumer_view_def) (simp add: kept_consumer_def)
qed

lemma map_of_keep:
  assumes "\<And>x. fst (f x) = fst x" "\<And>x. v (snd (f x)) = v (snd x)"
  shows "map_option v (map_of (map f xs) k) = map_option v (map_of xs k)"
proof (induction xs)
  case (Cons x xs)
  have "f x = (fst x, snd (f x))" by (simp add: prod_eq_iff assms(1))
  then show ?case using Cons assms(2)[of x] by (cases x) (metis (mono_tags, lifting) fst_conv list.simps(9) map_of_Cons_code(2) option.simps(9) snd_conv)
qed simp

lemma group_view_kept [simp]: "group_view (snd (kept_group gp)) = group_view (snd gp)"
  by (simp add: group_view_def kept_group_def fun_eq_iff map_of_keep[of kept_consumer])

lemma contents_fill: "etype e0 = etype e \<Longrightarrow> contents (fill e e0) = contents e"
  by (cases "etype e") (simp_all add: contents_def fill_def fun_eq_iff map_of_keep[of kept_group])

lemma fill_sel [simp]: "expire_at_ms (fill e e0) = expire_at_ms e0" "etype (fill e e0) = etype e0"
  by (simp_all add: fill_def split: ObjType.split)

lemma wf_fill: "wf_entry e \<Longrightarrow> wf_entry (fill e (new_entry\<lparr>expire_at_ms := x, etype := etype e\<rparr>))"
  by (cases "etype e") (auto simp: wf_entry_def fill_def new_entry_def)

lemma readStreamEntry_write:
  assumes "fits e" "etype e = Stream"
  shows "readStreamEntry e0 (writeStreamEntry e @ s) = Some (fill e e0, s)"
proof -
  have "assign_all (map kept_group (stream_groups e)) = map kept_group (stream_groups e)"
    using assms by (intro assign_all_distinct) (simp add: fits_def comp_def)
  then show ?thesis
    using assms codec_list[OF items.codec_axioms, of "estream e"] codec_list[OF groups.codec_axioms, of "stream_groups e"]
    by (simp add: readStreamEntry_def writeStreamEntry_def read_as_def read_pair_def fits_def short_def fill_def)
qed

lemma readEntryPayload_write:
  assumes "fits e" "wf_entry e"
  shows "readEntryPayload (etype e) e0 (writeEntryPayload e @ s) = Some (fill e e0, s)"
  using assms readStreamEntry_write[OF assms(1)]
  by (cases "etype e")
    (simp_all add: readEntryPayload_def writeEntryPayload_def read_as_def fill_def fits_def read_list_write
      assign_all_distinct insert_each_distinct put_each_sorted wf_entry_def, simp add: short_def)

lemma skipEntryPayload_write:
  assumes "fits e" "wf_entry e"
  shows "skipEntryPayload (etype e) (writeEntryPayload e @ s) = Some ((), s)"
  using assms readStreamEntry_write[OF assms(1)]
  by (cases "etype e")
    (simp_all add: skipEntryPayload_def writeEntryPayload_def read_as_def fits_def read_list_write, simp add: short_def)

lemma type_byte [simp]: "type_of (type_byte t) = Some t" "type_byte t < 256"
  by (cases t; simp add: type_of_def type_byte_def)+

subsection \<open>Databases come back\<close>

definition restored :: "Entry \<Rightarrow> Entry" where
  "restored e = fill e (new_entry\<lparr>expire_at_ms := expire_at_ms e, etype := etype e\<rparr>)"

lemma restored_sel [simp]: "expire_at_ms (restored e) = expire_at_ms e" "contents (restored e) = contents e"
  "isExpired (restored e) t = isExpired e t" "wf_entry e \<Longrightarrow> wf_entry (restored e)"
  by (simp_all add: restored_def contents_fill isExpired_def wf_fill)

definition entry_fits :: "string \<times> Entry \<Rightarrow> bool" where
  "entry_fits kv \<longleftrightarrow> short (fst kv) \<and> fits (snd kv) \<and> wf_entry (snd kv)"

lemma load_entry_write:
  assumes "entry_fits kv"
  shows "load_entry now (write_entry kv @ s) =
    Inr (if isExpired (snd kv) now then None else Some (fst kv, restored (snd kv)), s)"
proof -
  have k: "short (fst kv)" and f: "fits (snd kv)" and w: "wf_entry (snd kv)" and i: "in_i64 (expire_at_ms (snd kv))"
    using assms by (simp_all add: entry_fits_def fits_def)
  have "isExpired (new_entry\<lparr>expire_at_ms := expire_at_ms (snd kv)\<rparr>) now = isExpired (snd kv) now"
    by (simp add: isExpired_def)
  then show ?thesis
    using k i skipEntryPayload_write[OF f w] readEntryPayload_write[OF f w]
    by (simp add: load_entry_def write_entry_def read_pair_def short_def or_err_def load_payload_def restored_def Let_def)
qed

definition reloaded :: "int64 \<Rightarrow> (string \<times> Entry) list \<Rightarrow> DbMap" where
  "reloaded now es = map (\<lambda>(k, e). (k, restored e)) (filter (\<lambda>(k, e). \<not> isExpired e now) es)"

lemma load_entries_write:
  "list_all entry_fits es \<Longrightarrow> load_entries now (length es) d (concat (map write_entry es) @ s) =
     Inr (fold (\<lambda>(k, e). AList.update k e) (reloaded now es) d, s)"
proof (induction es arbitrary: d)
  case Nil
  then show ?case by (simp add: load_entries.simps[of _ 0] reloaded_def)
next
  case (Cons kv es)
  then show ?case
    by (subst load_entries.simps) (auto simp: load_entry_write reloaded_def case_prod_unfold)
qed

lemma reloaded_keys: "distinct (map fst es) \<Longrightarrow> distinct (map fst (reloaded now es))"
  by (induction es) (force simp: reloaded_def)+

lemma map_of_reloaded:
  "distinct (map fst es) \<Longrightarrow> map_of (reloaded now es) k =
     (case map_of es k of None \<Rightarrow> None | Some e \<Rightarrow> if isExpired e now then None else Some (restored e))"
  by (induction es) (auto simp: reloaded_def map_of_eq_None_iff image_iff split: option.split)

definition database_fits :: "int \<times> (string \<times> Entry) list \<Rightarrow> bool" where
  "database_fits x \<longleftrightarrow> - (2 ^ 31) \<le> fst x \<and> fst x < 2 ^ 31 \<and> short (snd x) \<and> list_all entry_fits (snd x) \<and>
     distinct (map fst (snd x))"

lemma load_databases_write:
  "list_all database_fits dbs \<Longrightarrow> distinct (map fst (m @ dbs)) \<Longrightarrow>
   load_databases now (length dbs) m (concat (map write_database dbs) @ s) =
     Inr (m @ map (\<lambda>(db, es). (db, reloaded now es)) dbs, s)"
proof (induction dbs arbitrary: m)
  case Nil
  then show ?case by (simp add: load_databases.simps[of _ 0])
next
  case (Cons x dbs)
  obtain db es where x: "x = (db, es)" by (cases x)
  have f: "- (2 ^ 31) \<le> db" "db < 2 ^ 31" "short es" "list_all entry_fits es" "distinct (map fst es)"
    using Cons.prems(1) by (simp_all add: x database_fits_def)
  have i: "in_i64 db" "as_int db = db" using f(1,2) by (simp_all add: in_i64_def as_int_def)
  have n: "map_of m db = None" using Cons.prems(2) by (simp add: x map_of_eq_None_iff)
  have "AList.update db d m = m @ [(db, d)]" for d
    using fold_update_distinct[of m "[(db, d)]"] Cons.prems(2) by (simp add: x)
  moreover have "fold (\<lambda>(k, e). AList.update k e) (reloaded now es) [] = reloaded now es"
    using assign_all_distinct[OF reloaded_keys[OF f(5)]] by (simp add: assign_all_def)
  ultimately show ?case
    using Cons.IH[of "m @ [(db, reloaded now es)]"] Cons.prems f i n load_entries_write[OF f(4)]
    by (subst load_databases.simps) (simp add: x write_database_def[of "(db, es)"] write_list_def short_def umap_get_def)
qed

text \<open>The snapshot has exactly the live entries.\<close>

lemma snap_add_spec:
  "umap_get [] d (snap_add db es s) = umap_get [] d s @ (if d = db then es else [])"
  "fst ` set (snap_add db es s) \<subseteq> insert db (fst ` set s)"
  "distinct (map fst s) \<Longrightarrow> distinct (map fst (snap_add db es s))"
  by (induction db es s rule: snap_add.induct) (auto simp: umap_get_def)

lemma snap_dbs_spec:
  "umap_get [] d (fold (\<lambda>(db, x). snap_add db (purgeExpiredDb x now)) dbs s) =
     umap_get [] d s @ concat (map (\<lambda>(db, x). if d = db then purgeExpiredDb x now else []) dbs)"
  "fst ` set (fold (\<lambda>(db, x). snap_add db (purgeExpiredDb x now)) dbs s) \<subseteq> fst ` set dbs \<union> fst ` set s"
  "distinct (map fst s) \<Longrightarrow> distinct (map fst (fold (\<lambda>(db, x). snap_add db (purgeExpiredDb x now)) dbs s))"
proof (induction dbs arbitrary: s)
  case (Cons x dbs)
  obtain db y where x: "x = (db, y)" by (cases x)
  { case 1 show ?case using Cons.IH(1)[of "snap_add db (purgeExpiredDb y now) s"] by (auto simp: x snap_add_spec) }
  { case 2 show ?case using Cons.IH(2)[of "snap_add db (purgeExpiredDb y now) s"] snap_add_spec(2)[of db "purgeExpiredDb y now" s]
      by (auto simp: x) }
  { case 3 then show ?case using Cons.IH(3)[of "snap_add db (purgeExpiredDb y now) s"] by (simp add: x snap_add_spec) }
qed simp_all

lemma concat_one_db:
  "distinct (map fst dbs) \<Longrightarrow>
   concat (map (\<lambda>(db, x). if d = db then purgeExpiredDb x now else []) dbs) = purgeExpiredDb (umap_get [] d dbs) now"
proof (induction dbs)
  case (Cons x dbs)
  have none: "d \<notin> fst ` set dbs \<Longrightarrow> concat (map (\<lambda>(db, x). if d = db then purgeExpiredDb x now else []) dbs) = []"
    by (induction dbs) auto
  show ?case using Cons none by (cases x) (auto simp: umap_get_def)
qed (simp add: umap_get_def purgeExpiredDb_def)

lemma snap_shards_spec:
  assumes "\<forall>sh \<in> set shs. distinct (map fst (m_dbs sh))"
  shows "umap_get [] d (fold (snap_shard now) shs s) = umap_get [] d s @ concat (map (\<lambda>sh. purgeExpiredDb (db_at sh d) now) shs) \<and>
    fst ` set (fold (snap_shard now) shs s) \<subseteq> (\<Union>sh \<in> set shs. fst ` set (m_dbs sh)) \<union> fst ` set s \<and>
    (distinct (map fst s) \<longrightarrow> distinct (map fst (fold (snap_shard now) shs s)))"
  using assms
proof (induction shs arbitrary: s)
  case (Cons sh shs)
  have d: "umap_get [] d (snap_shard now sh s) = umap_get [] d s @ purgeExpiredDb (db_at sh d) now"
    using Cons.prems by (simp add: snap_shard_def snap_dbs_spec concat_one_db db_at_def)
  have k: "fst ` set (snap_shard now sh s) \<subseteq> fst ` set (m_dbs sh) \<union> fst ` set s"
    unfolding snap_shard_def by (rule snap_dbs_spec(2))
  have u: "distinct (map fst s) \<Longrightarrow> distinct (map fst (snap_shard now sh s))"
    unfolding snap_shard_def by (rule snap_dbs_spec(3))
  let ?r = "fold (snap_shard now) shs (snap_shard now sh s)"
  have IH: "umap_get [] d ?r = umap_get [] d (snap_shard now sh s) @ concat (map (\<lambda>sh. purgeExpiredDb (db_at sh d) now) shs)"
      "fst ` set ?r \<subseteq> (\<Union>sh \<in> set shs. fst ` set (m_dbs sh)) \<union> fst ` set (snap_shard now sh s)"
      "distinct (map fst (snap_shard now sh s)) \<longrightarrow> distinct (map fst ?r)"
    using Cons.IH[of "snap_shard now sh s"] Cons.prems by simp_all
  have "fst ` set ?r \<subseteq> (\<Union>sh \<in> set (sh # shs). fst ` set (m_dbs sh)) \<union> fst ` set s"
    using IH(2) k by (simp only: list.set UN_insert) blast
  then show ?case using IH(1,3) d u by simp
qed simp

lemma wf_shards_distinct: "wf_store h st \<Longrightarrow> \<forall>sh \<in> set (m_shards st). distinct (map fst (m_dbs sh))"
  by (auto simp: wf_store_def wf_shard_def in_set_conv_nth)

lemma snapshot_entries:
  assumes "wf_store h st"
  shows "umap_get [] d (snapshot_of now st) = concat (map (\<lambda>sh. purgeExpiredDb (db_at sh d) now) (m_shards st))"
  using snap_shards_spec[OF wf_shards_distinct[OF assms], of d now "[]"] by (simp add: snapshot_of_def umap_get_def)

lemma map_fst_snapshot:
  assumes "wf_store h st"
  shows "map fst (umap_get [] d (snapshot_of now st)) = db_keys d now st"
  by (simp add: snapshot_entries[OF assms] db_keys_def map_concat comp_def)

lemma snapshot_lookup:
  assumes "wf_store h st"
  shows "map_of (umap_get [] d (snapshot_of now st)) k = live h now st d k"
proof (cases "live h now st d k")
  case None
  then have "k \<notin> set (db_keys d now st)" by (simp add: set_db_keys[OF assms])
  then show ?thesis using None by (simp add: map_of_eq_None_iff flip: map_fst_snapshot[OF assms])
next
  case (Some e)
  let ?sh = "getShard h st k"
  have s: "?sh \<in> set (m_shards st)" using wf_shaped[OF assms] by (simp add: getShard_def shaped_def)
  have "map_of (db_at ?sh d) k = Some e" "\<not> isExpired e now"
    using Some by (auto simp: live_def peek_def split: option.splits if_splits)
  then have "(k, e) \<in> set (purgeExpiredDb (db_at ?sh d) now)" by (auto simp: purgeExpiredDb_def dest: map_of_SomeD)
  then have "(k, e) \<in> set (umap_get [] d (snapshot_of now st))" using s by (auto simp: snapshot_entries[OF assms])
  moreover have "distinct (map fst (umap_get [] d (snapshot_of now st)))"
    by (simp add: map_fst_snapshot[OF assms] distinct_db_keys[OF assms])
  ultimately show ?thesis using Some by simp
qed

lemma snapshot_member:
  assumes "wf_store h st" "(db, es) \<in> set (snapshot_of now st)"
  shows "es = umap_get [] db (snapshot_of now st)" "distinct (map fst es)" "db \<in> (\<Union>sh \<in> set (m_shards st). fst ` set (m_dbs sh))"
    "(k, e) \<in> set es \<Longrightarrow> live h now st db k = Some e"
proof -
  have d: "distinct (map fst (snapshot_of now st))"
    using snap_shards_spec[OF wf_shards_distinct[OF assms(1)], of 0 now "[]"] by (simp add: snapshot_of_def)
  show es: "es = umap_get [] db (snapshot_of now st)" using d assms(2) by (simp add: umap_get_def)
  show k: "distinct (map fst es)" by (simp add: es map_fst_snapshot[OF assms(1)] distinct_db_keys[OF assms(1)])
  show "(k, e) \<in> set es \<Longrightarrow> live h now st db k = Some e"
    using k snapshot_lookup[OF assms(1), of db now k] by (simp add: es)
  show "db \<in> (\<Union>sh \<in> set (m_shards st). fst ` set (m_dbs sh))"
    using snap_shards_spec[OF wf_shards_distinct[OF assms(1)], of 0 now "[]"] assms(2) by (force simp: snapshot_of_def)
qed

lemma distinct_snapshot: "wf_store h st \<Longrightarrow> distinct (map fst (snapshot_of now st))"
  using snap_shards_spec[OF wf_shards_distinct, of h st 0 now "[]"] by (simp add: snapshot_of_def)

text \<open>Entering the rebuilt databases.\<close>

lemma peek_install:
  assumes "shaped st" "distinct (map fst rebuilt)" "\<forall>(db, d) \<in> set rebuilt. distinct (map fst d)"
  shows "peek h (install h rebuilt st) db k = map_of (umap_get [] db rebuilt) k"
proof -
  have "shaped s \<Longrightarrow> (\<forall>db \<in> fst ` set r. \<forall>k. peek h s db k = None) \<Longrightarrow> distinct (map fst r) \<Longrightarrow> \<forall>(db, d) \<in> set r. distinct (map fst d) \<Longrightarrow>
    peek h (fold (\<lambda>(db, d) s. fold (\<lambda>(k, e). putEntry h db k e) d s) r s) db k =
      (if db \<in> fst ` set r then map_of (umap_get [] db r) k else peek h s db k)" for r s
  proof (induction r arbitrary: s)
    case (Cons x r)
    obtain db' d where x: "x = (db', d)" by (cases x)
    let ?s = "fold (\<lambda>(k, e). putEntry h db' k e) d s"
    have v: "peek h ?s b j = (if b = db' \<and> j \<in> fst ` set d then map_of (rev d) j else peek h s b j)" for b j
      by (rule raw.view_put_many[OF Cons.prems(1)])
    have r: "map_of (rev d) = map_of d" using Cons.prems(4) by (simp add: x map_of_inject_set flip: rev_map)
    have "peek h (fold (\<lambda>(db, d) s. fold (\<lambda>(k, e). putEntry h db k e) d s) r ?s) db k =
        (if db \<in> fst ` set r then map_of (umap_get [] db r) k else peek h ?s db k)"
      using Cons.prems by (intro Cons.IH raw.ok_put_many) (auto simp: v x)
    moreover have none: "k \<notin> fst ` set d \<Longrightarrow> map_of d k = None" by (simp add: map_of_eq_None_iff)
    ultimately show ?case using Cons.prems by (auto simp: x v r umap_get_def none)
  qed simp
  moreover have "shaped (st\<lparr>m_shards := map clear_shard (m_shards st)\<rparr>)" using assms(1) by (simp add: shaped_def)
  moreover have "peek h (st\<lparr>m_shards := map clear_shard (m_shards st)\<rparr>) b j = None" for b j
    using assms(1) by (simp add: peek_def getShard_map clear_shard_def db_at_def umap_get_def)
  moreover have "db \<notin> fst ` set rebuilt \<Longrightarrow> umap_get [] db rebuilt = []"
    by (simp add: umap_get_def map_of_eq_None_iff[symmetric] eq_commute[of None])
  ultimately show ?thesis using assms(2,3) by (simp add: install_def)
qed

lemma wf_install:
  assumes "wf_store h st" "\<forall>(db, d) \<in> set rebuilt. \<forall>(k, e) \<in> set d. wf_entry e"
  shows "wf_store h (install h rebuilt st)"
proof -
  have one: "wf_store h s \<Longrightarrow> \<forall>(k, e) \<in> set d. wf_entry e \<Longrightarrow> wf_store h (fold (\<lambda>(k, e). putEntry h db k e) d s)" for db d s
    by (induction d arbitrary: s) (auto simp: wf_rules)
  have "wf_store h s \<Longrightarrow> \<forall>(db, d) \<in> set r. \<forall>(k, e) \<in> set d. wf_entry e \<Longrightarrow>
      wf_store h (fold (\<lambda>(db, d) s. fold (\<lambda>(k, e). putEntry h db k e) d s) r s)" for r s
    by (induction r arbitrary: s) (auto simp: one)
  moreover have "wf_store h (st\<lparr>m_shards := map clear_shard (m_shards st)\<rparr>)"
    using assms(1) by (rule wf_map_shards) (simp add: wf_shard_def clear_shard_def)
  ultimately show ?thesis using assms(2) by (simp add: install_def)
qed

text \<open>A store whose entries fit the format: its databases are those of the server, and no count exceeds 32 bits.\<close>

definition storable :: "hasher \<Rightarrow> int64 \<Rightarrow> KvStore \<Rightarrow> bool" where
  "storable h now st \<longleftrightarrow>
     (\<forall>sh \<in> set (m_shards st). \<forall>(db, d) \<in> set (m_dbs sh). db_index db) \<and>
     (\<forall>db. short (db_keys db now st)) \<and> (\<forall>db k e. live h now st db k = Some e \<longrightarrow> short k \<and> fits e)"

lemma snapshot_fits:
  assumes "wf_store h st" "storable h now st"
  shows "list_all database_fits (snapshot_of now st)" "length (snapshot_of now st) < 2 ^ 32"
proof -
  have db: "db_index db" if "(db, es) \<in> set (snapshot_of now st)" for db es
    using snapshot_member(3)[OF assms(1) that] assms(2) by (fastforce simp: storable_def)
  have "database_fits (db, es)" if m: "(db, es) \<in> set (snapshot_of now st)" for db es
  proof -
    have "map fst es = db_keys db now st"
      using map_fst_snapshot[OF assms(1), of db now] snapshot_member(1)[OF assms(1) m] by simp
    then have "short es" using assms(2) by (metis length_map short_def storable_def)
    moreover have "entry_fits (k, e)" if "(k, e) \<in> set es" for k e
      using snapshot_member(4)[OF assms(1) m that] assms(2) wf_live[OF assms(1)] by (auto simp: storable_def entry_fits_def)
    ultimately show ?thesis
      using db[OF m] snapshot_member(2)[OF assms(1) m]
      by (auto simp: database_fits_def list_all_iff db_index_def kMaxDb_def)
  qed
  then show "list_all database_fits (snapshot_of now st)" by (auto simp: list_all_iff)
  have "set (map fst (snapshot_of now st)) \<subseteq> {0..<16}" using db by (force simp: db_index_def kMaxDb_def)
  then have "length (map fst (snapshot_of now st)) \<le> card {0..<16::int}"
    by (metis card_mono distinct_card distinct_snapshot[OF assms(1)] finite_atLeastLessThan_int)
  then show "length (snapshot_of now st) < 2 ^ 32" by simp
qed

lemma length_kMagicV2 [simp]: "length kMagicV2 = 8"
  by (simp add: kMagicV2_def)

lemma loadBinaryV2_dump:
  assumes "wf_store h st" "storable h now st"
  shows "loadBinaryV2 h now' (dumpBinaryV2 t now st) st0 =
    (install h (map (\<lambda>(db, es). (db, reloaded now' es)) (snapshot_of now st)) st0, Inr ())"
proof -
  have "appendU32 kBinaryVersion = appendU32 2" by (simp add: kBinaryVersion_def)
  moreover have "readPod 8 (appendI64 t @ s) = Some (nat (t mod 2 ^ 64) mod 256 ^ 8, s)" for s
    unfolding appendI64_def by (rule readPod_le)
  ultimately show ?thesis
    using load_databases_write[OF snapshot_fits(1)[OF assms], of "[]"] distinct_snapshot[OF assms(1), of now] snapshot_fits(2)[OF assms]
      readPod_U8[of 255 "[]"]
    by (simp add: loadBinaryV2_def dumpBinaryV2_def write_list_def kBinaryVersion_def)
qed

text \<open>C6: A snapshot restores the database. Loading, at a later time and over any well-formed store, what \<open>dumpBinaryV2\<close>
  wrote succeeds; from then on every key of every database has the value, of whichever of the six types, and the
  deadline it had when the snapshot was taken, and is there exactly if it has not expired; nothing else is there.\<close>

theorem rdb_roundtrip:
  assumes "wf_store h st" "storable h now st" "wf_store h st0" "now \<le> now'"
  shows "case loadBinaryV2 h now' (dumpBinaryV2 t now st) st0 of
    (st', r) \<Rightarrow> r = Inr () \<and> wf_store h st' \<and>
      (\<forall>n \<ge> now'. \<forall>db k. map_option (\<lambda>e. (contents e, expire_at_ms e)) (live h n st' db k) =
                         map_option (\<lambda>e. (contents e, expire_at_ms e)) (live h n st db k))"
proof -
  let ?r = "map (\<lambda>(db, es). (db, reloaded now' es)) (snapshot_of now st)"
  have keys: "map fst ?r = map fst (snapshot_of now st)" by (simp add: comp_def case_prod_unfold)
  have d: "distinct (map fst ?r)" unfolding keys by (rule distinct_snapshot[OF assms(1)])
  have each: "\<forall>(db, d) \<in> set ?r. distinct (map fst d)"
    using snapshot_member(2)[OF assms(1)] by (auto simp: reloaded_keys)
  have wfe: "\<forall>(db, d) \<in> set ?r. \<forall>(k, e) \<in> set d. wf_entry e"
    using snapshot_member(4)[OF assms(1)] wf_live[OF assms(1)] by (fastforce simp: reloaded_def)
  have get: "umap_get [] db ?r = reloaded now' (umap_get [] db (snapshot_of now st))" for db
    by (induction "snapshot_of now st") (auto simp: umap_get_def reloaded_def map_of_map split: option.split)
  have u: "distinct (map fst (umap_get [] db (snapshot_of now st)))" for db
    by (simp add: map_fst_snapshot[OF assms(1)] distinct_db_keys[OF assms(1)])
  have p: "peek h (install h ?r st0) db k =
      (case live h now st db k of None \<Rightarrow> None | Some e \<Rightarrow> if isExpired e now' then None else Some (restored e))" for db k
    by (simp add: peek_install[OF wf_shaped[OF assms(3)] d each] get map_of_reloaded[OF u] snapshot_lookup[OF assms(1)])
  have "map_option (\<lambda>e. (contents e, expire_at_ms e)) (live h n (install h ?r st0) db k) =
      map_option (\<lambda>e. (contents e, expire_at_ms e)) (live h n st db k)" if "now' \<le> n" for n db k
    using isExpired_mono[of _ now' n] isExpired_mono[of _ now n] assms(4) that
    by (auto simp: live_def[of h n] p) (auto simp: live_def split: option.splits)
  then show ?thesis using loadBinaryV2_dump[OF assms(1,2)] wf_install[OF assms(3) wfe] by simp
qed

subsection \<open>Truncated snapshots\<close>

text \<open>A reader that has succeeded does not look at what follows.\<close>

locale prefix_reader =
  fixes rd :: "string \<Rightarrow> ('a \<times> string) option"
  assumes more: "rd p = Some (x, q) \<Longrightarrow> rd (p @ s) = Some (x, q @ s)"
begin

lemma times_more: "read_times n rd p = Some (xs, q) \<Longrightarrow> read_times n rd (p @ s) = Some (xs, q @ s)"
proof (induction n arbitrary: p xs)
  case 0
  then show ?case by (simp add: read_times.simps[of 0])
next
  case (Suc n)
  then show ?case
    by (subst (asm) read_times.simps, subst read_times.simps) (auto simp: more split: option.splits)
qed

end

lemma readPod_more: "readPod n p = Some (v, q) \<Longrightarrow> readPod n (p @ s) = Some (v, q @ s)"
  by (auto simp: readPod_def split: if_splits)

lemma prefix_list: "prefix_reader r \<Longrightarrow> prefix_reader (read_list r)"
  by (auto simp: prefix_reader_def[of "read_list r"] read_list_def readPod_more prefix_reader.times_more split: option.splits)

lemma prefix_pair: "prefix_reader r1 \<Longrightarrow> prefix_reader r2 \<Longrightarrow> prefix_reader (read_pair r1 r2)"
  by (fastforce simp: prefix_reader_def read_pair_def split: option.splits)

lemma prefix_as: "prefix_reader r \<Longrightarrow> prefix_reader (read_as f r)"
  by (fastforce simp: prefix_reader_def read_as_def)

interpretation str_reader: prefix_reader readStr
  by unfold_locales (auto simp: readStr_def readPod_more split: option.splits if_splits)

interpretation u64_reader: prefix_reader readU64
  by unfold_locales (auto simp: readU64_def readPod_more)

interpretation i64_reader: prefix_reader readI64
  by unfold_locales (auto simp: readI64_def readPod_more)

lemmas prefix_rules = prefix_list prefix_pair prefix_as str_reader.prefix_reader_axioms u64_reader.prefix_reader_axioms
  i64_reader.prefix_reader_axioms

lemma prefix_stream: "prefix_reader (readStreamEntry e)"
  unfolding readStreamEntry_def read_item_def read_group_def read_consumer_def by (intro prefix_rules)

interpretation payload: prefix_reader "readEntryPayload t e" for t e
  by (cases t) (simp_all add: readEntryPayload_def prefix_rules prefix_stream)

interpretation skipped: prefix_reader "skipEntryPayload t" for t
  by (cases t) (simp_all add: skipEntryPayload_def prefix_rules prefix_stream)

interpretation header: prefix_reader "read_pair readStr readI64"
  by (intro prefix_rules)

lemma load_entry_more: "load_entry now p = Inr (x, q) \<Longrightarrow> load_entry now (p @ s) = Inr (x, q @ s)"
  by (auto simp: load_entry_def load_payload_def or_err_def Let_def header.more readPod_more payload.more skipped.more
      split: option.splits if_splits)

lemma load_entries_more: "load_entries now n d p = Inr (x, q) \<Longrightarrow> load_entries now n d (p @ s) = Inr (x, q @ s)"
proof (induction n arbitrary: d p)
  case 0
  then show ?case by (simp add: load_entries.simps[of _ 0])
next
  case (Suc n)
  then show ?case
    by (subst (asm) load_entries.simps, subst load_entries.simps) (auto simp: load_entry_more split: sum.splits)
qed

lemma load_databases_more: "load_databases now n m p = Inr (x, q) \<Longrightarrow> load_databases now n m (p @ s) = Inr (x, q @ s)"
proof (induction n arbitrary: m p)
  case 0
  then show ?case by (simp add: load_databases.simps[of _ 0])
next
  case (Suc n)
  then show ?case
    by (subst (asm) load_databases.simps, subst load_databases.simps)
      (auto simp: i64_reader.more readPod_more load_entries_more split: sum.splits option.splits)
qed

text \<open>The bytes left when loading succeeds.\<close>

definition loads :: "int64 \<Rightarrow> string \<Rightarrow> string \<Rightarrow> bool" where
  "loads now data rest \<longleftrightarrow>
     8 \<le> length data \<and> take 8 data = kMagicV2 \<and>
     (\<exists>p1 v p2 n p3 r p4. readPod 4 (drop 8 data) = Some (kBinaryVersion, p1) \<and> readPod 8 p1 = Some (v, p2) \<and>
        readPod 4 p2 = Some (n, p3) \<and> load_databases now n [] p3 = Inr (r, p4) \<and> readPod 1 p4 = Some (255, rest))"

lemma loadBinaryV2_loads:
  "snd (loadBinaryV2 h now data st) = Inr () \<Longrightarrow> \<exists>rest. loads now data rest"
  by (auto simp: loadBinaryV2_def loads_def split: if_splits option.splits sum.splits)

lemma loadBinaryV2_fails: "snd (loadBinaryV2 h now data st) = Inl err \<Longrightarrow> fst (loadBinaryV2 h now data st) = st"
  by (auto simp: loadBinaryV2_def split: if_splits option.splits sum.splits)

lemma loads_more:
  assumes "loads now p rest"
  shows "loads now (p @ s) (rest @ s)"
proof -
  obtain p1 v p2 n p3 r p4 where *: "readPod 4 (drop 8 p) = Some (kBinaryVersion, p1)" "readPod 8 p1 = Some (v, p2)"
      "readPod 4 p2 = Some (n, p3)" "load_databases now n [] p3 = Inr (r, p4)" "readPod 1 p4 = Some (255, rest)"
    using assms by (auto simp: loads_def)
  from assms have "8 \<le> length p" "take 8 p = kMagicV2" by (simp_all add: loads_def)
  then show ?thesis
    using readPod_more[OF *(1), of s] readPod_more[OF *(2), of s] readPod_more[OF *(3), of s] load_databases_more[OF *(4), of s]
      readPod_more[OF *(5), of s]
    by (auto simp: loads_def)
qed

lemma loads_unique: "loads now data r1 \<Longrightarrow> loads now data r2 \<Longrightarrow> r1 = r2"
  by (auto simp: loads_def)

lemma loads_dump:
  assumes "wf_store h st" "storable h now st"
  shows "loads now' (dumpBinaryV2 t now st) []"
proof -
  have "readPod 8 (appendI64 t @ s) = Some (nat (t mod 2 ^ 64) mod 256 ^ 8, s)" for s
    unfolding appendI64_def by (rule readPod_le)
  then show ?thesis
    using load_databases_write[OF snapshot_fits(1)[OF assms], of "[]"] distinct_snapshot[OF assms(1), of now] snapshot_fits(2)[OF assms]
      readPod_U8[of 255 "[]"]
    by (simp add: loads_def dumpBinaryV2_def write_list_def kBinaryVersion_def)
qed

text \<open>C7: A snapshot file that was cut short anywhere is refused, and the store it would have been loaded into is left as
  it was.\<close>

theorem rdb_truncated:
  assumes "wf_store h st" "storable h now st" "n < length (dumpBinaryV2 t now st)"
  shows "\<exists>err. loadBinaryV2 h now' (take n (dumpBinaryV2 t now st)) st0 = (st0, Inl err)"
proof (cases "loadBinaryV2 h now' (take n (dumpBinaryV2 t now st)) st0")
  case (Pair st1 r)
  show ?thesis
  proof (cases r)
    case (Inl err)
    then show ?thesis using loadBinaryV2_fails[of h now' "take n (dumpBinaryV2 t now st)" st0 err] Pair by auto
  next
    case (Inr u)
    then obtain rest where "loads now' (take n (dumpBinaryV2 t now st)) rest"
      using loadBinaryV2_loads[of h now' "take n (dumpBinaryV2 t now st)" st0] Pair by auto
    then have "loads now' (dumpBinaryV2 t now st) (rest @ drop n (dumpBinaryV2 t now st))"
      using loads_more[of now' "take n (dumpBinaryV2 t now st)" rest "drop n (dumpBinaryV2 t now st)"] by simp
    then have "rest @ drop n (dumpBinaryV2 t now st) = []" using loads_unique loads_dump[OF assms(1,2)] by blast
    then show ?thesis using assms(3) by simp
  qed
qed

subsection \<open>DUMP and RESTORE\<close>

lemma parse_payload_dump:
  assumes "wf_entry e" "fits e"
  shows "parse_payload (kDumpMagic @ appendI64 (expire_at_ms e) @ appendU8 (type_byte (etype e)) @ writeEntryPayload e) =
    Some (fill e (new_entry\<lparr>etype := etype e\<rparr>), Some (etype e))"
proof -
  have "in_i64 (expire_at_ms e)" using assms(2) by (simp add: fits_def)
  then show ?thesis using readEntryPayload_write[OF assms(2,1), of "new_entry\<lparr>etype := etype e\<rparr>" "[]"]
    by (simp add: parse_payload_def kDumpMagic_def read_pair_def Let_def)
qed

lemma open_db_views:
  assumes "wf_store h st"
  shows "wf_store h (upd_shard h key (\<lambda>sh. set_db db (db_at sh db) sh) st)"
    "peek h (upd_shard h key (\<lambda>sh. set_db db (db_at sh db) sh) st) = peek h st"
proof -
  show "wf_store h (upd_shard h key (\<lambda>sh. set_db db (db_at sh db) sh) st)"
    using assms by (intro wf_upd_shard wf_set_db wf_db_at wf_getShard)
  show "peek h (upd_shard h key (\<lambda>sh. set_db db (db_at sh db) sh) st) = peek h st"
  proof (intro ext)
    fix d k
    show "peek h (upd_shard h key (\<lambda>sh. set_db db (db_at sh db) sh) st) d k = peek h st d k"
      using wf_shaped[OF assms] same_shard[of h k key st]
      by (cases "shardIdx h k = shardIdx h key") (simp_all add: peek_def getShard_upd_shard)
  qed
qed

lemma contents_times [simp]:
  "contents (e\<lparr>expire_at_ms := x\<rparr>) = contents e" "contents (e\<lparr>lru_ms := y\<rparr>) = contents e" "wf_entry (e\<lparr>lru_ms := y\<rparr>) = wf_entry e"
  by (simp_all add: contents_def wf_entry_def split: ObjType.split)

text \<open>C8: \<open>RESTORE\<close> undoes \<open>DUMP\<close>: the payload of a live key, restored under any name in any database of any store where
  the name is free or \<open>REPLACE\<close> is given, succeeds; the new key holds the value of the old one, of whichever type,
  with the time to live that \<open>RESTORE\<close> names (none for 0), and no other key changes.\<close>

theorem dump_restore:
  assumes "wf_store h st" "live h now st db key = Some e" "fits e" "wf_store h st2"
    and "replace \<or> live h now2 st2 db2 key2 = None"
  shows "\<exists>payload. dumpKey h db key now st = Some (if expire_at_ms e > now then expire_at_ms e - now else 0, payload) \<and>
    (case restoreKey h u db2 key2 life payload replace now2 st2 of
       (st', r) \<Rightarrow> r = Inr () \<and> wf_store h st' \<and>
         map_option (\<lambda>e. (contents e, expire_at_ms e)) (peek h st' db2 key2) =
           Some (contents e, if life = 0 then 0 else i64 (now2 + life)) \<and>
         (\<forall>d k. (d, k) \<noteq> (db2, key2) \<longrightarrow> peek h st' d k = peek h st2 d k))"
proof -
  let ?p = "kDumpMagic @ appendI64 (expire_at_ms e) @ appendU8 (type_byte (etype e)) @ writeEntryPayload e"
  have wf: "wf_entry e" by (rule wf_live[OF assms(1,2)])
  have 1: "dumpKey h db key now st = Some (if expire_at_ms e > now then expire_at_ms e - now else 0, ?p)"
    using assms(2)
    by (auto simp: dumpKey_def live_def peek_def db_at_def umap_get_def split: option.splits if_splits)
  let ?e = "(fill e (new_entry\<lparr>etype := etype e\<rparr>))\<lparr>expire_at_ms := (if life = 0 then 0 else i64 (now2 + life)), lru_ms := now2\<rparr>"
  let ?st1 = "upd_shard h key2 (\<lambda>sh. set_db db2 (db_at sh db2) sh) st2"
  have free: "(case map_of (db_at (getShard h st2 key2) db2) key2 of None \<Rightarrow> False | Some x \<Rightarrow> \<not> isExpired x now2) \<longleftrightarrow>
      live h now2 st2 db2 key2 \<noteq> None"
    by (simp add: live_def peek_def split: option.split)
  have 2: "restoreKey h u db2 key2 life ?p replace now2 st2 = (bumpWatchKey h db2 key2 (putEntry h db2 key2 ?e ?st1), Inr ())"
    unfolding restoreKey_def parse_payload_dump[OF wf assms(3)] Let_def free using assms(5) by auto
  have "wf_entry (fill e (new_entry\<lparr>etype := etype e\<rparr>))" using wf_fill[OF wf, of 0] by (simp add: new_entry_def)
  then have "wf_entry ?e" by simp
  then have 3: "wf_store h (bumpWatchKey h db2 key2 (putEntry h db2 key2 ?e ?st1))"
    by (intro wf_rules open_db_views(1) assms(4))
  have "contents ?e = contents e" by (simp add: contents_fill)
  then show ?thesis using 1 2 3 wf_shaped[OF open_db_views(1)[OF assms(4), of key2 db2]]
    by (auto simp: store_simps peek_putEntry open_db_views(2)[OF assms(4)])
qed

text \<open>A payload can be forged: its type byte and counts are not checked against what the store keeps true. This one
  makes an empty list.\<close>

definition empty_list_payload :: string where
  "empty_list_payload = kDumpMagic @ replicate 8 (CHR 0x00) @ [CHR 0x02] @ replicate 4 (CHR 0x00)"

theorem restore_makes_empty_list:
  "case restoreKey (\<lambda>_. 0) (\<lambda>_ _ st. st) 0 ''k'' 0 empty_list_payload False 7 new_store of
     (st, r) \<Rightarrow> r = Inr () \<and> snd (exists (\<lambda>_. 0) 0 ''k'' 7 st) \<and> peek (\<lambda>_. 0) st 0 ''k'' = Some (new_entry\<lparr>etype := List, lru_ms := 7\<rparr>)"
  by code_simp

subsection \<open>Witnesses\<close>

lemma demo_live: "live demo_hash 3 demo_store db k = Some e \<Longrightarrow>
    k \<in> {''key'', ''old'', ''list''} \<and> (e = new_entry\<lparr>evalue := ''10''\<rparr> \<or> e = new_entry\<lparr>evalue := ''v'', expire_at_ms := 5\<rparr> \<or>
      e = new_entry\<lparr>etype := List, elist := [''x'', ''y'']\<rparr>)"
  by (auto simp: live_def demo_store_def peek_putEntry shaped_ops wf_shaped[OF wf_new_store]
      split: option.splits if_splits)

lemma demo_storable: "storable demo_hash 3 demo_store"
proof -
  have 1: "\<forall>sh \<in> set (m_shards demo_store). \<forall>(db, d) \<in> set (m_dbs sh). db_index db" by code_simp
  have 2: "short (db_keys db 3 demo_store)" for db
  proof -
    have "set (db_keys db 3 demo_store) \<subseteq> {''key'', ''old'', ''list''}"
      using demo_live by (fastforce simp: set_db_keys[OF wf_demo_store])
    then have "length (db_keys db 3 demo_store) \<le> card {''key'', ''old'', ''list''}"
      by (metis card_mono distinct_card distinct_db_keys[OF wf_demo_store] finite.emptyI finite.insertI)
    then show ?thesis by (simp add: short_def)
  qed
  have 3: "short k \<and> fits e" if "live demo_hash 3 demo_store db k = Some e" for db k e
    using demo_live[OF that] by (auto simp: fits_def short_def in_i64_def)
  show ?thesis using 1 2 3 by (simp add: storable_def)
qed

lemma rdb_roundtrip_witness:
  "map_option (\<lambda>e. (contents e, expire_at_ms e))
     (live demo_hash 4 (fst (loadBinaryV2 demo_hash 4 (dumpBinaryV2 3 3 demo_store) new_store)) 1 ''list'') =
   Some (CList [''x'', ''y''], 0)"
proof -
  have "live demo_hash 4 demo_store 1 ''list'' = Some (new_entry\<lparr>etype := List, elist := [''x'', ''y'']\<rparr>)" by code_simp
  then show ?thesis
    using rdb_roundtrip[OF wf_demo_store demo_storable wf_new_store, of 4 3] by (simp add: case_prod_unfold contents_def)
qed

lemma rdb_truncated_witness:
  "\<exists>err. loadBinaryV2 demo_hash 4 (take 20 (dumpBinaryV2 3 3 demo_store)) new_store = (new_store, Inl err)"
proof -
  have "20 < length (dumpBinaryV2 3 3 demo_store)" by code_simp
  then show ?thesis by (rule rdb_truncated[OF wf_demo_store demo_storable])
qed

lemma dump_restore_witness:
  "\<exists>payload. dumpKey demo_hash 1 ''list'' 3 demo_store = Some (0, payload) \<and>
     snd (restoreKey demo_hash (\<lambda>_ _ st. st) 2 ''copy'' 100 payload False 8 new_store) = Inr ()"
proof -
  have "live demo_hash 3 demo_store 1 ''list'' = Some (new_entry\<lparr>etype := List, elist := [''x'', ''y'']\<rparr>)" by code_simp
  moreover have "fits (new_entry\<lparr>etype := List, elist := [''x'', ''y'']\<rparr>)" by (simp add: fits_def short_def in_i64_def)
  moreover have "live demo_hash 8 new_store 2 ''copy'' = None" by (simp add: live_def)
  ultimately show ?thesis
    using dump_restore[of demo_hash demo_store 3 1 "''list''" _ new_store False 8 2 "''copy''" 100 "\<lambda>_ _ st. st"]
    by (fastforce simp: case_prod_unfold)
qed

end
