(* ===== verification/Server.thy ===== *)
theory Server
  imports Lists ZScores Streams Rdb
begin

text \<open>
  Payloads of \<open>RESTORE\<close> that enter a well-formed entry or are refused: all that \<open>DUMP\<close> makes are of this kind.
\<close>

definition sound_payload :: "string \<Rightarrow> bool" where
  "sound_payload p \<longleftrightarrow> (case parse_payload p of None \<Rightarrow> True | Some (e, t) \<Rightarrow> t \<noteq> None \<and> wf_entry e)"

lemma dump_sound:
  assumes "wf_store h st" "live h now st db key = Some e" "fits e"
  obtains life p where "dumpKey h db key now st = Some (life, p)" "sound_payload p"
proof -
  have wf: "wf_entry e" by (rule wf_live[OF assms(1,2)])
  have "wf_entry (fill e (new_entry\<lparr>etype := etype e\<rparr>))" using wf_fill[OF wf, of 0] by (simp add: new_entry_def)
  then have "sound_payload (kDumpMagic @ appendI64 (expire_at_ms e) @ appendU8 (type_byte (etype e)) @ writeEntryPayload e)"
    by (simp add: sound_payload_def parse_payload_dump[OF wf assms(3)])
  moreover have "\<exists>life. dumpKey h db key now st =
      Some (life, kDumpMagic @ appendI64 (expire_at_ms e) @ appendU8 (type_byte (etype e)) @ writeEntryPayload e)"
    using assms(2) by (auto simp: dumpKey_def live_def peek_def db_at_def umap_get_def split: option.splits if_splits)
  ultimately show ?thesis using that by blast
qed

lemma wf_restoreKey:
  assumes "wf_store h st" "sound_payload p"
  shows "wf_store h (fst (restoreKey h u db key life p replace now st))"
proof -
  note w = open_db_views(1)[OF assms(1), of key db]
  have e: "wf_entry (e\<lparr>expire_at_ms := d, lru_ms := now\<rparr>)" if "parse_payload p = Some (e, t)" for e t d
    using assms(2) that by (simp add: sound_payload_def)
  then show ?thesis using assms w
    by (auto simp: restoreKey_def sound_payload_def Let_def split: option.splits intro!: wf_rules)
qed

text \<open>Loading a snapshot: what a well-formed store wrote, or bytes that are refused.\<close>

lemma wf_load_dump:
  assumes "wf_store h st" "wf_store h st0" "storable h now st0"
  shows "wf_store h (fst (loadBinaryV2 h now' (dumpBinaryV2 t now st0) st))"
proof -
  have "\<forall>(db, d) \<in> set (map (\<lambda>(db, es). (db, reloaded now' es)) (snapshot_of now st0)). \<forall>(k, e) \<in> set d. wf_entry e"
    using snapshot_member(4)[OF assms(2)] wf_live[OF assms(2)] by (fastforce simp: reloaded_def)
  then show ?thesis by (simp add: loadBinaryV2_dump[OF assms(2,3)] wf_install[OF assms(1)])
qed

lemma load_refused: "snd (loadBinaryV2 h now data st) = Inl err \<Longrightarrow> fst (loadBinaryV2 h now data st) = st"
  by (auto simp: loadBinaryV2_def Let_def split: option.splits sum.splits prod.splits if_splits)

text \<open>
  The store as a state machine: one transition per public operation of \<open>KvStore\<close> that is modelled, with any
  arguments, any clock readings and any choices of the eviction. Clients, the command dispatcher and the
  background cycles act on the store through these transitions only. The two operations that enter bytes from outside
  as entries have conditions: \<open>restoreKey\<close> gets a sound payload (others can break the store,
  \<open>restore_makes_empty_list\<close>), and a snapshot is loaded that is refused or was written by a well-formed store.
  The reachable states are well formed.
\<close>

inductive kv_step :: "hasher \<Rightarrow> KvStore \<Rightarrow> KvStore \<Rightarrow> bool" where
  "kv_step h st (fst (watchToken h db key st))"
| "kv_step h st (fst (exists h db key now st))"
| "kv_step h st (fst (type_kv h db key now st))"
| "kv_step h st (fst (delMany h db ks now st))"
| "kv_step h st (fst (del h db key now st))"
| "kv_step h st (fst (existsMany h db ks now st))"
| "kv_step h st (fst (persist h db key now st))"
| "kv_step h st (fst (expire h db key s now st))"
| "kv_step h st (fst (pexpire h db key s now st))"
| "kv_step h st (fst (expireAt h db key s now st))"
| "kv_step h st (fst (pexpireAt h db key s now st))"
| "kv_step h st (fst (ttl h db key now st))"
| "kv_step h st (fst (pttl h db key now st))"
| "kv_step h st (fst (purgeExpiredActive n now st))"
| "kv_step h st (fst (dbsize db now st))"
| "kv_step h st (fst (expireCount db now st))"
| "kv_step h st (fst (keys db p now st))"
| "kv_step h st (fst (scan db c p n now st))"
| "kv_step h st (fst (renameKey h db key key2 flag now st))"
| "kv_step h st (fst (get h db key now st))"
| "kv_step h st (fst (setOpt h rng db key v nx xx s s2 now st))"
| "kv_step h st (fst (getset h rng db key v now now2 st))"
| "kv_step h st (fst (getdel h db key now now2 st))"
| "kv_step h st (fst (incrBy h db key s now st))"
| "kv_step h st (fst (append_kv h rng db key v now st))"
| "kv_step h st (fst (strlen h db key now st))"
| "kv_step h st (fst (getex h rng db key s s2 flag now st))"
| "kv_step h st (fst (msetnx h db kvs now st))"
| "kv_step h st (fst (hset h db key f v now st))"
| "kv_step h st (fst (hget h db key f now st))"
| "kv_step h st (fst (hdel h db key f now st))"
| "kv_step h st (fst (hexists h db key f now st))"
| "kv_step h st (fst (hlen h db key now st))"
| "kv_step h st (fst (hgetall h db key now st))"
| "kv_step h st (fst (hmset h db key kvs clock st))"
| "kv_step h st (fst (hmget h db key ks clock st))"
| "kv_step h st (fst (hkeys h db key now st))"
| "kv_step h st (fst (hvals h db key now st))"
| "kv_step h st (fst (hincrby h rng db key f s now st))"
| "kv_step h st (fst (hsetnx h db key f v now now2 st))"
| "kv_step h st (fst (hsetFields h db key kvs now st))"
| "kv_step h st (fst (hscan h db key c p n now st))"
| "kv_step h st (fst (listPush h db key ks flag now st))"
| "kv_step h st (fst (listPop h db key flag now st))"
| "kv_step h st (fst (listLen h db key now st))"
| "kv_step h st (fst (listRange h db key s s2 now st))"
| "kv_step h st (fst (listIndex h db key s now st))"
| "kv_step h st (fst (listTrim h db key s s2 now st))"
| "kv_step h st (fst (listSet h db key s v now st))"
| "kv_step h st (fst (listRem h db key s v now st))"
| "kv_step h st (fst (listRPopLPush h db key key2 now now2 st))"
| "kv_step h st (fst (listInsert h db key flag f v now st))"
| "kv_step h st (fst (setAdd h db key ks now st))"
| "kv_step h st (fst (setRem h db key ks now st))"
| "kv_step h st (fst (setMembers h db key now st))"
| "kv_step h st (fst (setCard h db key now st))"
| "kv_step h st (fst (setIsMember h db key f now st))"
| "kv_step h st (fst (spop h rng db key now st))"
| "kv_step h st (fst (sscan h db key c p n now st))"
| "kv_step h st (fst (setInter h db ks now st))"
| "kv_step h st (fst (setUnion h db ks now st))"
| "kv_step h st (fst (setDiff h db ks now st))"
| "kv_step h st (fst (setInterStore h db key ks now st))"
| "kv_step h st (fst (setUnionStore h db key ks now st))"
| "kv_step h st (fst (setDiffStore h db key ks now st))"
| "kv_step h st (fst (zadd h db key zms now st))"
| "kv_step h st (fst (zaddOpt h db key zopt zms now st))"
| "kv_step h st (fst (zrem h db key ks now st))"
| "kv_step h st (fst (zscore h db key f now st))"
| "kv_step h st (fst (zcard h db key now st))"
| "kv_step h st (fst (zrange h db key s s2 flag now st))"
| "kv_step h st (fst (zrank h db key f flag now st))"
| "kv_step h st (fst (zincrby h db key f d now st))"
| "kv_step h st (fst (zpopmin h rng db key now st))"
| "kv_step h st (fst (zpopmax h rng db key now st))"
| "kv_step h st (fst (zrangeByScore h db key f v flag s s2 now st))"
| "kv_step h st (fst (zcount h db key f v now st))"
| "kv_step h st (fst (zscan h db key c p n now st))"
| "kv_step h st (fst (incrByFloat h db key d now st))"
| "kv_step h st (fst (xadd h rng db key f kvs now st))"
| "kv_step h st (fst (xlen h db key now st))"
| "kv_step h st (fst (xrange h db key f v s flag now st))"
| "kv_step h st (fst (xread h db ks ks2 s now st))"
| "kv_step h st (fst (xdel h db key ks now st))"
| "kv_step h st (fst (xtrim h db key s now st))"
| "kv_step h st (fst (xgroupCreate h db key f v flag now st))"
| "kv_step h st (fst (xgroupDestroy h db key f now st))"
| "kv_step h st (fst (xreadGroup h db f v ks ks2 s now st))"
| "kv_step h st (fst (xack h db key f ks now st))"
| "kv_step h st (fst (xpendingSummary h db key f now st))"
| "kv_step h st (fst (xpendingRange h db key f v v2 s v3 now st))"
| "kv_step h st (fst (xclaim h db key f v s ks flag now st))"
| "kv_step h st (set_kv h rng db key v now st)"
| "kv_step h st (setex h rng db key v s now st)"
| "kv_step h st (flushdb db st)"
| "kv_step h st (flushall st)"
| "kv_step h st (setMaxMemory s st)"
| "kv_step h st (setMaxMemoryPolicy v st)"
| "kv_step h st (evictIfNeededLocked rng now st)"
| kv_restore: "sound_payload v \<Longrightarrow> kv_step h st (fst (restoreKey h untyped db key s v flag now st))"
| kv_load: "wf_store h st2 \<Longrightarrow> storable h now st2 \<Longrightarrow> kv_step h st (fst (loadBinaryV2 h now2 (dumpBinaryV2 s now st2) st))"
| kv_refused: "snd (loadBinaryV2 h now v st) = Inl err \<Longrightarrow> kv_step h st (fst (loadBinaryV2 h now v st))"

text \<open>A run of the server: the store after each operation, most recent last.\<close>

inductive kv_run :: "hasher \<Rightarrow> KvStore \<Rightarrow> KvStore \<Rightarrow> bool" where
  kv_start: "kv_run h st st"
| kv_next: "kv_run h st st1 \<Longrightarrow> kv_step h st1 st2 \<Longrightarrow> kv_run h st st2"

lemma wf_settings [wf_rules]:
  "wf_store h st \<Longrightarrow> wf_store h (setMaxMemory n st)" "wf_store h st \<Longrightarrow> wf_store h (setMaxMemoryPolicy p st)"
  by (simp_all add: setMaxMemoryPolicy_def setMaxMemory_def wf_store_def)

lemma wf_watchToken [wf_rules]: "wf_store h st \<Longrightarrow> wf_store h (fst (watchToken h db key st))"
  using wf_getShard[of h st key] unfolding watchToken_def fst_conv
  by (intro wf_upd_shard) (auto simp: wf_shard_def)

lemma wf_purgeExpiredActive [wf_rules]: "wf_store h st \<Longrightarrow> wf_store h (fst (purgeExpiredActive n now st))"
  unfolding purgeExpiredActive_def
  by (auto simp flip: purge_scan_shard_def intro!: wf_map_shards wf_purge_scan_shard)

lemma kv_step_wf: "kv_step h st st' \<Longrightarrow> wf_store h st \<Longrightarrow> wf_store h st'"
  by (induction rule: kv_step.induct) (simp_all only: wf_rules wf_restoreKey wf_load_dump load_refused)

lemma kv_run_wf: "kv_run h st st' \<Longrightarrow> wf_store h st \<Longrightarrow> wf_store h st'"
  by (induction rule: kv_run.induct) (auto intro: kv_step_wf)

text \<open>C17: Every state the store can reach from the empty store, by any sequence of operations with any
  arguments at any times, restored payloads being sound and snapshots refused or written by a well-formed store,
  is well formed: sixteen shards, every key in the shard of its hash and at most once
  per database, every value with the collection of its own type only, hashes, lists, sets and sorted sets never
  empty, their fields, members and keys without repetition, sorted sets ordered.\<close>

theorem reachable_wf:
  assumes "kv_run h new_store st"
  shows "wf_store h st"
  using kv_run_wf[OF assms] by simp

lemma demo_payload_sound: "sound_payload (kDumpMagic @ appendI64 0 @ appendU8 (type_byte String) @ appendStr ''v'')"
  by code_simp

theorem reachable_wf_witness:
  "wf_store length (fst (restoreKey length (\<lambda>_ _ st. st) 0 ''r'' 0
      (kDumpMagic @ appendI64 0 @ appendU8 (type_byte String) @ appendStr ''v'') False 11
      (fst (setInterStore length 0 ''d'' [''a''] 9 (fst (setAdd length 0 ''a'' [''x''] 5 new_store))))))"
proof -
  let ?s = "fst (setAdd length 0 ''a'' [''x''] 5 new_store)"
  let ?t = "fst (setInterStore length 0 ''d'' [''a''] 9 ?s)"
  have "kv_step length new_store ?s" "kv_step length ?s ?t" by (rule kv_step.intros)+
  moreover have "kv_step length ?t (fst (restoreKey length (\<lambda>_ _ st. st) 0 ''r'' 0
      (kDumpMagic @ appendI64 0 @ appendU8 (type_byte String) @ appendStr ''v'') False 11 ?t))"
    by (rule kv_restore[OF demo_payload_sound])
  ultimately show ?thesis using reachable_wf[OF kv_next[OF kv_next[OF kv_next[OF kv_start]]]] by blast
qed

end
