(* ===== verification/Commands.thy ===== *)
theory Commands
  imports CmdArgs Server
begin

text \<open>
  The handlers of the commands that act on the store only (\<open>registerBuiltinCommands\<close> of
  \<open>zero/kv/command_dispatch.cc\<close> and \<open>registerP0P1Commands\<close> of \<open>zero/kv/commands_p0p1.cc\<close>). A handler takes the
  environment of the process, the database of the session, the request and the store, and gives the store and
  the reply. The readings of the clock during one command are \<open>e_clock e 0\<close>, \<open>e_clock e 1\<close> and so on.
\<close>

record Env =
  e_hash :: hasher
  e_clock :: "nat \<Rightarrow> int64"
  e_rng :: "nat \<Rightarrow> nat \<Rightarrow> nat"

type_synonym store_cmd = "Env \<Rightarrow> int \<Rightarrow> request \<Rightarrow> KvStore \<Rightarrow> KvStore \<times> RespValue"

subsection \<open>Keys\<close>

definition cmd_dbsize :: store_cmd where
  "cmd_dbsize e db req st =
     (if length req \<noteq> 1 then (st, bad_args ''dbsize'') else reply resp_integer (dbsize db (e_clock e 0) st))"

definition cmd_flushdb :: store_cmd where
  "cmd_flushdb e db req st = (if length req \<noteq> 1 then (st, bad_args ''flushdb'') else (flushdb db st, resp_ok))"

definition cmd_flushall :: store_cmd where
  "cmd_flushall e db req st = (if length req \<noteq> 1 then (st, bad_args ''flushall'') else (flushall st, resp_ok))"

definition cmd_type :: store_cmd where
  "cmd_type e db req st =
     (if length req \<noteq> 2 \<or> is_null (req ! 1) then (st, bad_args ''type'')
      else reply bulk (type_kv (e_hash e) db (arg req 1) (e_clock e 0) st))"

definition cmd_keys :: store_cmd where
  "cmd_keys e db req st =
     (if length req \<noteq> 2 \<or> is_null (req ! 1) then (st, bad_args ''keys'')
      else reply bulks (keys db (arg req 1) (e_clock e 0) st))"

definition cmd_scan :: store_cmd where
  "cmd_scan e db req st =
     (if length req < 2 \<or> is_null (req ! 1) then (st, bad_args ''scan'')
      else case parseInt64Arg (req ! 1) of
        None \<Rightarrow> (st, resp_err ''ERR invalid cursor'')
      | Some c \<Rightarrow>
          if c < 0 then (st, resp_err ''ERR invalid cursor'')
          else (case scan_options parseInt64Arg (drop 2 req) ''*'' 10 of
                  None \<Rightarrow> (st, syntax_error)
                | Some (pattern, n) \<Rightarrow>
                    reply encodeCollectionScan (scan db (of_int c) pattern (to_int n) (e_clock e 0) st)))"

definition cmd_exists :: store_cmd where
  "cmd_exists e db req st =
     (if length req < 2 then (st, bad_args ''exists'')
      else case collect_args (drop 1 req) of
        None \<Rightarrow> (st, syntax_error)
      | Some ks \<Rightarrow> reply resp_integer (existsMany (e_hash e) db ks (e_clock e 0) st))"

definition cmd_del :: store_cmd where
  "cmd_del e db req st =
     (if length req < 2 then (st, bad_args ''del'')
      else case collect_args (drop 1 req) of
        None \<Rightarrow> (st, syntax_error)
      | Some ks \<Rightarrow> reply resp_integer (delMany (e_hash e) db ks (e_clock e 0) st))"

text \<open>\<open>EXPIRE\<close>, \<open>PEXPIRE\<close>, \<open>EXPIREAT\<close> and \<open>PEXPIREAT\<close> have the same handler around four operations of the store.\<close>

definition deadline_cmd :: "string \<Rightarrow>
    (hasher \<Rightarrow> int \<Rightarrow> string \<Rightarrow> int64 \<Rightarrow> int64 \<Rightarrow> KvStore \<Rightarrow> KvStore \<times> int64) \<Rightarrow> store_cmd" where
  "deadline_cmd cmd op e db req st =
     (if length req \<noteq> 3 \<or> is_null (req ! 1) \<or> is_null (req ! 2) then (st, bad_args cmd)
      else case parseInt64Arg (req ! 2) of
        None \<Rightarrow> (st, not_int)
      | Some n \<Rightarrow> reply resp_integer (op (e_hash e) db (arg req 1) n (e_clock e 0) st))"

definition cmd_expire :: store_cmd where "cmd_expire = deadline_cmd ''expire'' expire"
definition cmd_pexpire :: store_cmd where "cmd_pexpire = deadline_cmd ''pexpire'' pexpire"
definition cmd_expireat :: store_cmd where "cmd_expireat = deadline_cmd ''expireat'' expireAt"
definition cmd_pexpireat :: store_cmd where "cmd_pexpireat = deadline_cmd ''pexpireat'' pexpireAt"

definition cmd_ttl :: store_cmd where
  "cmd_ttl e db req st =
     (if length req \<noteq> 2 \<or> is_null (req ! 1) then (st, bad_args ''ttl'')
      else reply resp_integer (ttl (e_hash e) db (arg req 1) (e_clock e 0) st))"

definition cmd_pttl :: store_cmd where
  "cmd_pttl e db req st =
     (if length req \<noteq> 2 \<or> is_null (req ! 1) then (st, bad_args ''pttl'')
      else reply resp_integer (pttl (e_hash e) db (arg req 1) (e_clock e 0) st))"

definition cmd_persist :: store_cmd where
  "cmd_persist e db req st =
     (if length req \<noteq> 2 \<or> is_null (req ! 1) then (st, bad_args ''persist'')
      else reply resp_integer (persist (e_hash e) db (arg req 1) (e_clock e 0) st))"

definition cmd_rename :: store_cmd where
  "cmd_rename e db req st =
     (if length req \<noteq> 3 \<or> is_null (req ! 1) \<or> is_null (req ! 2) then (st, bad_args ''rename'')
      else reply_with (\<lambda>_. resp_ok) (renameKey (e_hash e) db (arg req 1) (arg req 2) False (e_clock e 0) st))"

definition cmd_renamenx :: store_cmd where
  "cmd_renamenx e db req st =
     (if length req \<noteq> 3 \<or> is_null (req ! 1) \<or> is_null (req ! 2) then (st, bad_args ''renamenx'')
      else reply_with (\<lambda>rc. resp_integer (if rc = 0 then 0 else 1))
        (renameKey (e_hash e) db (arg req 1) (arg req 2) True (e_clock e 0) st))"

subsection \<open>Strings\<close>

definition cmd_get :: store_cmd where
  "cmd_get e db req st =
     (if length req \<noteq> 2 \<or> is_null (req ! 1) then (st, bad_args ''get'')
      else reply_with bulk_or_null (get (e_hash e) db (arg req 1) (e_clock e 0) st))"

definition cmd_getset :: store_cmd where
  "cmd_getset e db req st =
     (if length req \<noteq> 3 \<or> is_null (req ! 1) \<or> is_null (req ! 2) then (st, bad_args ''getset'')
      else reply_with bulk_or_null
        (getset (e_hash e) (e_rng e 0) db (arg req 1) (arg req 2) (e_clock e 0) (e_clock e 1) st))"

definition cmd_getdel :: store_cmd where
  "cmd_getdel e db req st =
     (if length req \<noteq> 2 \<or> is_null (req ! 1) then (st, bad_args ''getdel'')
      else reply_with bulk_or_null (getdel (e_hash e) db (arg req 1) (e_clock e 0) (e_clock e 1) st))"

definition no_set_options :: SetOptions where
  "no_set_options = \<lparr>so_nx = False, so_xx = False, so_ex = - 1, so_px = - 1\<rparr>"

definition cmd_set :: store_cmd where
  "cmd_set e db req st =
     (if length req < 3 \<or> is_null (req ! 1) \<or> is_null (req ! 2) then (st, bad_args ''set'')
      else case parseSetOptions (drop 3 req) no_set_options of
        Inl err \<Rightarrow> (st, resp_err err)
      | Inr opt \<Rightarrow>
          reply (\<lambda>rc. if rc \<noteq> 0 then resp_ok else nullBulk)
            (setOpt (e_hash e) (e_rng e 0) db (arg req 1) (arg req 2) (so_nx opt) (so_xx opt) (so_ex opt) (so_px opt)
               (e_clock e 0) st))"

definition cmd_setnx :: store_cmd where
  "cmd_setnx e db req st =
     (if length req \<noteq> 3 \<or> is_null (req ! 1) \<or> is_null (req ! 2) then (st, bad_args ''setnx'')
      else reply (\<lambda>rc. resp_integer (if rc \<noteq> 0 then 1 else 0))
        (setOpt (e_hash e) (e_rng e 0) db (arg req 1) (arg req 2) True False (- 1) (- 1) (e_clock e 0) st))"

definition cmd_setex :: store_cmd where
  "cmd_setex e db req st =
     (if length req \<noteq> 4 \<or> is_null (req ! 1) \<or> is_null (req ! 2) \<or> is_null (req ! 3) then (st, bad_args ''setex'')
      else case parseInt64Arg (req ! 2) of
        None \<Rightarrow> (st, not_int)
      | Some n \<Rightarrow> (setex (e_hash e) (e_rng e 0) db (arg req 1) (arg req 3) n (e_clock e 0) st, resp_ok))"

text \<open>The loop of \<open>MGET\<close>: the first error ends it and is the whole reply.\<close>

fun mget_loop :: "Env \<Rightarrow> int \<Rightarrow> nat \<Rightarrow> request \<Rightarrow> RespValue list \<Rightarrow> KvStore \<Rightarrow> KvStore \<times> RespValue" where
  "mget_loop e db i [] out st = (st, array_of out)"
| "mget_loop e db i (v # r) out st =
     (if is_null v then mget_loop e db i r (out @ [nullBulk]) st
      else case get (e_hash e) db (rstr v) (e_clock e i) st of
        (st1, Inl err) \<Rightarrow> (st1, resp_err err)
      | (st1, Inr x) \<Rightarrow> mget_loop e db (i + 1) r (out @ [bulk_or_null x]) st1)"

definition cmd_mget :: store_cmd where
  "cmd_mget e db req st = (if length req < 2 then (st, bad_args ''mget'') else mget_loop e db 0 (drop 1 req) [] st)"

text \<open>The loop of \<open>MSET\<close> sets each pair before it looks at the next one.\<close>

fun mset_loop :: "Env \<Rightarrow> int \<Rightarrow> nat \<Rightarrow> request \<Rightarrow> KvStore \<Rightarrow> KvStore \<times> RespValue" where
  "mset_loop e db i (k # v # r) st =
     (if is_null k \<or> is_null v then (st, resp_err ''ERR syntax error in MSET'')
      else mset_loop e db (i + 1) r (set_kv (e_hash e) (e_rng e i) db (rstr k) (rstr v) (e_clock e i) st))"
| "mset_loop e db i r st = (st, resp_ok)"

definition cmd_mset :: store_cmd where
  "cmd_mset e db req st =
     (if length req < 3 \<or> even (length req) then (st, bad_args ''mset'') else mset_loop e db 0 (drop 1 req) st)"

definition cmd_msetnx :: store_cmd where
  "cmd_msetnx e db req st =
     (if length req < 3 \<or> even (length req) then (st, bad_args ''msetnx'')
      else case collect_pairs (drop 1 req) of
        None \<Rightarrow> (st, resp_err ''ERR syntax error in MSETNX'')
      | Some ps \<Rightarrow> reply resp_integer (msetnx (e_hash e) db ps (e_clock e 0) st))"

definition dispatchIncrBy :: "int64 \<Rightarrow> string \<Rightarrow> nat \<Rightarrow> store_cmd" where
  "dispatchIncrBy delta cmd min_args e db req st =
     (if length req \<noteq> min_args \<or> is_null (req ! 1) then (st, bad_args cmd)
      else reply_with resp_integer (incrBy (e_hash e) db (arg req 1) delta (e_clock e 0) st))"

definition cmd_incr :: store_cmd where "cmd_incr = dispatchIncrBy 1 ''incr'' 2"
definition cmd_decr :: store_cmd where "cmd_decr = dispatchIncrBy (- 1) ''decr'' 2"

definition cmd_incrby :: store_cmd where
  "cmd_incrby e db req st =
     (if length req \<noteq> 3 \<or> is_null (req ! 1) \<or> is_null (req ! 2) then (st, bad_args ''incrby'')
      else case parseInt64Arg (req ! 2) of
        None \<Rightarrow> (st, not_int)
      | Some n \<Rightarrow> reply_with resp_integer (incrBy (e_hash e) db (arg req 1) n (e_clock e 0) st))"

definition cmd_decrby :: store_cmd where
  "cmd_decrby e db req st =
     (if length req \<noteq> 3 \<or> is_null (req ! 1) \<or> is_null (req ! 2) then (st, bad_args ''decrby'')
      else case parseInt64Arg (req ! 2) of
        None \<Rightarrow> (st, not_int)
      | Some n \<Rightarrow> reply_with resp_integer (incrBy (e_hash e) db (arg req 1) (i64 (- n)) (e_clock e 0) st))"

definition cmd_incrbyfloat :: store_cmd where
  "cmd_incrbyfloat e db req st =
     (if length req \<noteq> 3 \<or> is_null (req ! 1) \<or> is_null (req ! 2) then (st, bad_args ''incrbyfloat'')
      else case parseDoubleArg_lax (req ! 2) of
        None \<Rightarrow> (st, resp_err kNotFloat)
      | Some d \<Rightarrow> reply_with bulk (incrByFloat (e_hash e) db (arg req 1) d (e_clock e 0) st))"

definition cmd_append :: store_cmd where
  "cmd_append e db req st =
     (if length req \<noteq> 3 \<or> is_null (req ! 1) \<or> is_null (req ! 2) then (st, bad_args ''append'')
      else reply_with resp_integer (append_kv (e_hash e) (e_rng e 0) db (arg req 1) (arg req 2) (e_clock e 0) st))"

definition cmd_strlen :: store_cmd where
  "cmd_strlen e db req st =
     (if length req \<noteq> 2 \<or> is_null (req ! 1) then (st, bad_args ''strlen'')
      else reply_with int_or_zero (strlen (e_hash e) db (arg req 1) (e_clock e 0) st))"

definition cmd_getex :: store_cmd where
  "cmd_getex e db req st =
     (if length req < 2 \<or> is_null (req ! 1) then (st, bad_args ''getex'')
      else case getex_options (drop 2 req) 0 0 False of
        Inl err \<Rightarrow> (st, resp_err err)
      | Inr (ex, px, pers) \<Rightarrow>
          reply_with bulk_or_null (getex (e_hash e) (e_rng e 0) db (arg req 1) ex px pers (e_clock e 0) st))"

subsection \<open>Hashes\<close>

text \<open>With one field the values are used without a test for null.\<close>

definition cmd_hset :: store_cmd where
  "cmd_hset e db req st =
     (if length req < 4 \<or> odd (length req) \<or> is_null (req ! 1) then (st, bad_args ''hset'')
      else if length req = 4 then
        reply_with resp_integer (hset (e_hash e) db (arg req 1) (arg req 2) (arg req 3) (e_clock e 0) st)
      else case collect_pairs (drop 2 req) of
        None \<Rightarrow> (st, syntax_error)
      | Some fs \<Rightarrow> reply_with resp_integer (hsetFields (e_hash e) db (arg req 1) fs (e_clock e 0) st))"

definition cmd_hget :: store_cmd where
  "cmd_hget e db req st =
     (if length req \<noteq> 3 \<or> is_null (req ! 1) \<or> is_null (req ! 2) then (st, bad_args ''hget'')
      else reply_with bulk_or_null (hget (e_hash e) db (arg req 1) (arg req 2) (e_clock e 0) st))"

definition cmd_hgetall :: store_cmd where
  "cmd_hgetall e db req st =
     (if length req \<noteq> 2 \<or> is_null (req ! 1) then (st, bad_args ''hgetall'')
      else reply_with (\<lambda>x. case x of None \<Rightarrow> emptyArray | Some fs \<Rightarrow> bulks (concat (map (\<lambda>(f, v). [f, v]) fs)))
        (hgetall (e_hash e) db (arg req 1) (e_clock e 0) st))"

fun hdel_loop :: "Env \<Rightarrow> int \<Rightarrow> string \<Rightarrow> nat \<Rightarrow> request \<Rightarrow> int64 \<Rightarrow> KvStore \<Rightarrow> KvStore \<times> RespValue" where
  "hdel_loop e db key i [] removed st = (st, resp_integer removed)"
| "hdel_loop e db key i (v # r) removed st =
     (if is_null v then (st, syntax_error)
      else case hdel (e_hash e) db key (rstr v) (e_clock e i) st of
        (st1, Inl err) \<Rightarrow> (st1, resp_err err)
      | (st1, Inr n) \<Rightarrow> hdel_loop e db key (i + 1) r (removed + n) st1)"

definition cmd_hdel :: store_cmd where
  "cmd_hdel e db req st =
     (if length req < 3 \<or> is_null (req ! 1) then (st, bad_args ''hdel'')
      else hdel_loop e db (arg req 1) 0 (drop 2 req) 0 st)"

definition cmd_hexists :: store_cmd where
  "cmd_hexists e db req st =
     (if length req \<noteq> 3 \<or> is_null (req ! 1) \<or> is_null (req ! 2) then (st, bad_args ''hexists'')
      else reply_with (\<lambda>b. resp_integer (if b then 1 else 0)) (hexists (e_hash e) db (arg req 1) (arg req 2) (e_clock e 0) st))"

definition cmd_hlen :: store_cmd where
  "cmd_hlen e db req st =
     (if length req \<noteq> 2 \<or> is_null (req ! 1) then (st, bad_args ''hlen'')
      else reply_with int_or_zero (hlen (e_hash e) db (arg req 1) (e_clock e 0) st))"

definition cmd_hmset :: store_cmd where
  "cmd_hmset e db req st =
     (if length req < 4 \<or> odd (length req) \<or> is_null (req ! 1) then (st, bad_args ''hmset'')
      else case collect_pairs (drop 2 req) of
        None \<Rightarrow> (st, syntax_error)
      | Some fs \<Rightarrow> reply_with (\<lambda>_. resp_ok) (hmset (e_hash e) db (arg req 1) fs (e_clock e) st))"

definition cmd_hmget :: store_cmd where
  "cmd_hmget e db req st =
     (if length req < 3 \<or> is_null (req ! 1) then (st, bad_args ''hmget'')
      else case collect_args (drop 2 req) of
        None \<Rightarrow> (st, syntax_error)
      | Some fs \<Rightarrow> reply_with (\<lambda>vs. array_of (map bulk_or_null vs)) (hmget (e_hash e) db (arg req 1) fs (e_clock e) st))"

definition cmd_hkeys :: store_cmd where
  "cmd_hkeys e db req st =
     (if length req \<noteq> 2 \<or> is_null (req ! 1) then (st, bad_args ''hkeys'')
      else reply_with bulks_or_empty (hkeys (e_hash e) db (arg req 1) (e_clock e 0) st))"

definition cmd_hvals :: store_cmd where
  "cmd_hvals e db req st =
     (if length req \<noteq> 2 \<or> is_null (req ! 1) then (st, bad_args ''hvals'')
      else reply_with bulks_or_empty (hvals (e_hash e) db (arg req 1) (e_clock e 0) st))"

definition cmd_hincrby :: store_cmd where
  "cmd_hincrby e db req st =
     (if length req \<noteq> 4 \<or> is_null (req ! 1) \<or> is_null (req ! 2) \<or> is_null (req ! 3) then (st, bad_args ''hincrby'')
      else case parseInt64Arg (req ! 3) of
        None \<Rightarrow> (st, not_int)
      | Some n \<Rightarrow> reply_with resp_integer (hincrby (e_hash e) (e_rng e 0) db (arg req 1) (arg req 2) n (e_clock e 0) st))"

definition cmd_hsetnx :: store_cmd where
  "cmd_hsetnx e db req st =
     (if length req \<noteq> 4 \<or> is_null (req ! 1) \<or> is_null (req ! 2) \<or> is_null (req ! 3) then (st, bad_args ''hsetnx'')
      else reply_with resp_integer
        (hsetnx (e_hash e) db (arg req 1) (arg req 2) (arg req 3) (e_clock e 0) (e_clock e 1) st))"

subsection \<open>Lists\<close>

definition pop_cmd :: "string \<Rightarrow> bool \<Rightarrow> store_cmd" where
  "pop_cmd cmd left e db req st =
     (if length req \<noteq> 2 \<or> is_null (req ! 1) then (st, bad_args cmd)
      else reply_with bulk_or_null (listPop (e_hash e) db (arg req 1) left (e_clock e 0) st))"

definition cmd_lpop :: store_cmd where "cmd_lpop = pop_cmd ''lpop'' True"
definition cmd_rpop :: store_cmd where "cmd_rpop = pop_cmd ''rpop'' False"

definition cmd_llen :: store_cmd where
  "cmd_llen e db req st =
     (if length req \<noteq> 2 \<or> is_null (req ! 1) then (st, bad_args ''llen'')
      else reply_with int_or_zero (listLen (e_hash e) db (arg req 1) (e_clock e 0) st))"

definition cmd_lrange :: store_cmd where
  "cmd_lrange e db req st =
     (if length req \<noteq> 4 \<or> is_null (req ! 1) \<or> is_null (req ! 2) \<or> is_null (req ! 3) then (st, bad_args ''lrange'')
      else case (parseInt64Arg (req ! 2), parseInt64Arg (req ! 3)) of
        (Some start, Some stop) \<Rightarrow>
          reply_with bulks_or_empty (listRange (e_hash e) db (arg req 1) start stop (e_clock e 0) st)
      | _ \<Rightarrow> (st, not_int))"

definition cmd_lindex :: store_cmd where
  "cmd_lindex e db req st =
     (if length req \<noteq> 3 \<or> is_null (req ! 1) \<or> is_null (req ! 2) then (st, bad_args ''lindex'')
      else case parseInt64Arg (req ! 2) of
        None \<Rightarrow> (st, not_int)
      | Some i \<Rightarrow> reply_with bulk_or_null (listIndex (e_hash e) db (arg req 1) i (e_clock e 0) st))"

definition cmd_ltrim :: store_cmd where
  "cmd_ltrim e db req st =
     (if length req \<noteq> 4 \<or> is_null (req ! 1) \<or> is_null (req ! 2) \<or> is_null (req ! 3) then (st, bad_args ''ltrim'')
      else case (parseInt64Arg (req ! 2), parseInt64Arg (req ! 3)) of
        (Some start, Some stop) \<Rightarrow>
          reply_with (\<lambda>_. resp_ok) (listTrim (e_hash e) db (arg req 1) start stop (e_clock e 0) st)
      | _ \<Rightarrow> (st, not_int))"

definition cmd_lset :: store_cmd where
  "cmd_lset e db req st =
     (if length req \<noteq> 4 \<or> is_null (req ! 1) \<or> is_null (req ! 2) \<or> is_null (req ! 3) then (st, bad_args ''lset'')
      else case parseInt64Arg (req ! 2) of
        None \<Rightarrow> (st, not_int)
      | Some i \<Rightarrow> reply_with (\<lambda>_. resp_ok) (listSet (e_hash e) db (arg req 1) i (arg req 3) (e_clock e 0) st))"

definition cmd_lrem :: store_cmd where
  "cmd_lrem e db req st =
     (if length req \<noteq> 4 \<or> is_null (req ! 1) \<or> is_null (req ! 2) \<or> is_null (req ! 3) then (st, bad_args ''lrem'')
      else case parseInt64Arg (req ! 2) of
        None \<Rightarrow> (st, not_int)
      | Some n \<Rightarrow> reply_with resp_integer (listRem (e_hash e) db (arg req 1) n (arg req 3) (e_clock e 0) st))"

definition cmd_rpoplpush :: store_cmd where
  "cmd_rpoplpush e db req st =
     (if length req \<noteq> 3 \<or> is_null (req ! 1) \<or> is_null (req ! 2) then (st, bad_args ''rpoplpush'')
      else case listRPopLPush (e_hash e) db (arg req 1) (arg req 2) (e_clock e 0) (e_clock e 1) st of
        (st1, ok, v, err) \<Rightarrow> (st1, if ok then bulk_or_null v else resp_err (case err of None \<Rightarrow> [] | Some m \<Rightarrow> m)))"

definition cmd_linsert :: store_cmd where
  "cmd_linsert e db req st =
     (if length req \<noteq> 5 \<or> is_null (req ! 1) \<or> is_null (req ! 2) \<or> is_null (req ! 3) \<or> is_null (req ! 4)
      then (st, bad_args ''linsert'')
      else let place = upperArg (arg req 2); before = (place = ''BEFORE'') in
        if \<not> before \<and> place \<noteq> ''AFTER'' then (st, syntax_error)
        else reply_with (\<lambda>n. resp_integer (if n = - 2 then 0 else n))
          (listInsert (e_hash e) db (arg req 1) before (arg req 3) (arg req 4) (e_clock e 0) st))"

subsection \<open>The invariant\<close>

definition keeps_wf :: "store_cmd \<Rightarrow> bool" where
  "keeps_wf c \<longleftrightarrow> (\<forall>e db req st. wf_store (e_hash e) st \<longrightarrow> wf_store (e_hash e) (fst (c e db req st)))"

named_theorems cmd_wf \<open>handlers that preserve the store invariant\<close>

lemma keeps_wfI: "(\<And>e db req st. wf_store (e_hash e) st \<Longrightarrow> wf_store (e_hash e) (fst (c e db req st))) \<Longrightarrow> keeps_wf c"
  by (simp add: keeps_wf_def)

lemma keeps_wfD: "keeps_wf c \<Longrightarrow> wf_store (e_hash e) st \<Longrightarrow> wf_store (e_hash e) (fst (c e db req st))"
  by (simp add: keeps_wf_def)

lemma wf_mget_loop: "wf_store (e_hash e) st \<Longrightarrow> wf_store (e_hash e) (fst (mget_loop e db i vs out st))"
proof (induction e db i vs out st rule: mget_loop.induct)
  case (2 e db i v r out st)
  have "wf_store (e_hash e) (fst (get (e_hash e) db (rstr v) (e_clock e i) st))" using 2(3) by (rule wf_rules)
  then show ?case using 2 by (auto split: prod.split sum.split)
qed simp

lemma wf_mset_loop: "wf_store (e_hash e) st \<Longrightarrow> wf_store (e_hash e) (fst (mset_loop e db i vs st))"
  by (induction e db i vs st rule: mset_loop.induct) (auto intro: wf_rules)

lemma wf_hdel_loop: "wf_store (e_hash e) st \<Longrightarrow> wf_store (e_hash e) (fst (hdel_loop e db key i vs n st))"
proof (induction e db key i vs n st rule: hdel_loop.induct)
  case (2 e db key i v r n st)
  have "wf_store (e_hash e) (fst (hdel (e_hash e) db key (rstr v) (e_clock e i) st))" using 2(2) by (rule wf_rules)
  then show ?case using 2 by (auto split: prod.split sum.split)
qed simp

lemma wf_cmd_rpoplpush [cmd_wf]: "keeps_wf cmd_rpoplpush"
proof (rule keeps_wfI)
  fix e :: Env and db req st
  assume "wf_store (e_hash e) st"
  then have "wf_store (e_hash e) (fst (listRPopLPush (e_hash e) db (arg req 1) (arg req 2) (e_clock e 0) (e_clock e 1) st))"
    by (rule wf_rules)
  then show "wf_store (e_hash e) (fst (cmd_rpoplpush e db req st))"
    using \<open>wf_store (e_hash e) st\<close> by (simp add: cmd_rpoplpush_def case_prod_unfold)
qed

lemmas cmd_splits = option.split sum.split prod.split

lemma wf_deadline_cmd:
  assumes "\<And>h db key n now st. wf_store h st \<Longrightarrow> wf_store h (fst (op h db key n now st))"
  shows "keeps_wf (deadline_cmd cmd op)"
  using assms by (intro keeps_wfI) (auto simp: deadline_cmd_def split: option.split)

lemma wf_cmd_deadlines [cmd_wf]:
  "keeps_wf cmd_expire" "keeps_wf cmd_pexpire" "keeps_wf cmd_expireat" "keeps_wf cmd_pexpireat"
  unfolding cmd_expire_def cmd_pexpire_def cmd_expireat_def cmd_pexpireat_def
  by (auto intro!: wf_deadline_cmd intro: wf_rules)

lemma wf_cmd_keys [cmd_wf]:
  "keeps_wf cmd_dbsize" "keeps_wf cmd_flushdb" "keeps_wf cmd_flushall" "keeps_wf cmd_type" "keeps_wf cmd_keys"
  "keeps_wf cmd_scan" "keeps_wf cmd_exists" "keeps_wf cmd_del" "keeps_wf cmd_ttl" "keeps_wf cmd_pttl"
  "keeps_wf cmd_persist" "keeps_wf cmd_rename" "keeps_wf cmd_renamenx"
  by (intro keeps_wfI; auto simp: cmd_dbsize_def cmd_flushdb_def cmd_flushall_def cmd_type_def cmd_keys_def
      cmd_scan_def cmd_exists_def cmd_del_def cmd_ttl_def cmd_pttl_def cmd_persist_def cmd_rename_def
      cmd_renamenx_def
      split: cmd_splits intro: wf_rules)+

lemma wf_cmd_strings [cmd_wf]:
  "keeps_wf cmd_get" "keeps_wf cmd_getset" "keeps_wf cmd_getdel" "keeps_wf cmd_set" "keeps_wf cmd_setnx"
  "keeps_wf cmd_setex" "keeps_wf cmd_mget" "keeps_wf cmd_mset" "keeps_wf cmd_msetnx" "keeps_wf cmd_incr"
  "keeps_wf cmd_decr" "keeps_wf cmd_incrby" "keeps_wf cmd_decrby" "keeps_wf cmd_incrbyfloat"
  "keeps_wf cmd_append" "keeps_wf cmd_strlen" "keeps_wf cmd_getex"
  by (intro keeps_wfI; auto simp: cmd_get_def cmd_getset_def cmd_getdel_def cmd_set_def cmd_setnx_def
      cmd_setex_def cmd_mget_def cmd_mset_def cmd_msetnx_def cmd_incr_def cmd_decr_def cmd_incrby_def
      cmd_decrby_def cmd_incrbyfloat_def cmd_append_def cmd_strlen_def cmd_getex_def
      dispatchIncrBy_def wf_mget_loop wf_mset_loop split: cmd_splits intro: wf_rules)+

lemma wf_cmd_hashes [cmd_wf]:
  "keeps_wf cmd_hset" "keeps_wf cmd_hget" "keeps_wf cmd_hgetall" "keeps_wf cmd_hdel" "keeps_wf cmd_hexists"
  "keeps_wf cmd_hlen" "keeps_wf cmd_hmset" "keeps_wf cmd_hmget" "keeps_wf cmd_hkeys" "keeps_wf cmd_hvals"
  "keeps_wf cmd_hincrby" "keeps_wf cmd_hsetnx"
  by (intro keeps_wfI; auto simp: cmd_hset_def cmd_hget_def cmd_hgetall_def cmd_hdel_def cmd_hexists_def
      cmd_hlen_def cmd_hmset_def cmd_hmget_def cmd_hkeys_def cmd_hvals_def cmd_hincrby_def cmd_hsetnx_def
      wf_hdel_loop split: cmd_splits intro: wf_rules)+

lemma wf_cmd_lists [cmd_wf]:
  "keeps_wf cmd_lpop" "keeps_wf cmd_rpop" "keeps_wf cmd_llen" "keeps_wf cmd_lrange" "keeps_wf cmd_lindex"
  "keeps_wf cmd_ltrim" "keeps_wf cmd_lset" "keeps_wf cmd_lrem" "keeps_wf cmd_linsert"
  by (intro keeps_wfI; auto simp: cmd_lpop_def cmd_rpop_def cmd_llen_def cmd_lrange_def cmd_lindex_def
      cmd_ltrim_def cmd_lset_def cmd_lrem_def cmd_linsert_def
      pop_cmd_def Let_def split: cmd_splits intro: wf_rules)+

end
