(* ===== verification/CmdColl.thy ===== *)
theory CmdColl
  imports Commands
begin

text \<open>
  The handlers of the commands on sets, sorted sets and streams, and of the scans of collections
  (\<open>zero/kv/command_dispatch.cc\<close>, \<open>zero/kv/commands_p0p1.cc\<close>).
\<close>

subsection \<open>Sets\<close>

text \<open>The handlers that take a key and its members, or a destination and its sources.\<close>

definition members_cmd :: "string \<Rightarrow>
    (hasher \<Rightarrow> int \<Rightarrow> string \<Rightarrow> string list \<Rightarrow> int64 \<Rightarrow> KvStore \<Rightarrow> KvStore \<times> (string + int64)) \<Rightarrow> store_cmd" where
  "members_cmd cmd op e db req st =
     (if length req < 3 \<or> is_null (req ! 1) then (st, bad_args cmd)
      else case collect_args (drop 2 req) of
        None \<Rightarrow> (st, syntax_error)
      | Some ms \<Rightarrow> reply_with resp_integer (op (e_hash e) db (arg req 1) ms (e_clock e 0) st))"

definition cmd_sadd :: store_cmd where "cmd_sadd = members_cmd ''sadd'' setAdd"
definition cmd_srem :: store_cmd where "cmd_srem = members_cmd ''srem'' setRem"
definition cmd_sinterstore :: store_cmd where "cmd_sinterstore = members_cmd ''sinterstore'' setInterStore"
definition cmd_sunionstore :: store_cmd where "cmd_sunionstore = members_cmd ''sunionstore'' setUnionStore"
definition cmd_sdiffstore :: store_cmd where "cmd_sdiffstore = members_cmd ''sdiffstore'' setDiffStore"

definition cmd_smembers :: store_cmd where
  "cmd_smembers e db req st =
     (if length req \<noteq> 2 \<or> is_null (req ! 1) then (st, bad_args ''smembers'')
      else reply_with bulks_or_empty (setMembers (e_hash e) db (arg req 1) (e_clock e 0) st))"

definition cmd_scard :: store_cmd where
  "cmd_scard e db req st =
     (if length req \<noteq> 2 \<or> is_null (req ! 1) then (st, bad_args ''scard'')
      else reply_with int_or_zero (setCard (e_hash e) db (arg req 1) (e_clock e 0) st))"

definition cmd_sismember :: store_cmd where
  "cmd_sismember e db req st =
     (if length req \<noteq> 3 \<or> is_null (req ! 1) \<or> is_null (req ! 2) then (st, bad_args ''sismember'')
      else reply_with (\<lambda>b. resp_integer (if b then 1 else 0))
        (setIsMember (e_hash e) db (arg req 1) (arg req 2) (e_clock e 0) st))"

definition algebra_cmd :: "string \<Rightarrow>
    (hasher \<Rightarrow> int \<Rightarrow> string list \<Rightarrow> int64 \<Rightarrow> KvStore \<Rightarrow> KvStore \<times> (string + string list)) \<Rightarrow> store_cmd" where
  "algebra_cmd cmd op e db req st =
     (if length req < 2 then (st, bad_args cmd)
      else case collect_args (drop 1 req) of
        None \<Rightarrow> (st, syntax_error)
      | Some ks \<Rightarrow> reply_with bulks (op (e_hash e) db ks (e_clock e 0) st))"

definition cmd_sinter :: store_cmd where "cmd_sinter = algebra_cmd ''sinter'' setInter"
definition cmd_sunion :: store_cmd where "cmd_sunion = algebra_cmd ''sunion'' setUnion"
definition cmd_sdiff :: store_cmd where "cmd_sdiff = algebra_cmd ''sdiff'' setDiff"

definition cmd_spop :: store_cmd where
  "cmd_spop e db req st =
     (if length req \<noteq> 2 \<or> is_null (req ! 1) then (st, bad_args ''spop'')
      else reply_with bulk_or_null (spop (e_hash e) (e_rng e 0) db (arg req 1) (e_clock e 0) st))"

subsection \<open>Scans of collections\<close>

definition dispatchCollectionScan :: "string \<Rightarrow>
    (hasher \<Rightarrow> int \<Rightarrow> string \<Rightarrow> uint64 \<Rightarrow> string \<Rightarrow> int \<Rightarrow> int64 \<Rightarrow> KvStore \<Rightarrow>
       KvStore \<times> (string + uint64 \<times> string list)) \<Rightarrow> store_cmd" where
  "dispatchCollectionScan cmd op e db req st =
     (if length req < 3 \<or> is_null (req ! 1) \<or> is_null (req ! 2) then (st, bad_args cmd)
      else case parseInt64Arg_lax (req ! 2) of
        None \<Rightarrow> (st, resp_err ''ERR invalid cursor'')
      | Some c \<Rightarrow>
          if c < 0 then (st, resp_err ''ERR invalid cursor'')
          else (case scan_options parseInt64Arg_lax (drop 3 req) ''*'' 10 of
                  None \<Rightarrow> (st, syntax_error)
                | Some (pattern, n) \<Rightarrow>
                    reply_with encodeCollectionScan
                      (op (e_hash e) db (arg req 1) (of_int c) pattern (to_int n) (e_clock e 0) st)))"

definition cmd_hscan :: store_cmd where "cmd_hscan = dispatchCollectionScan ''hscan'' hscan"
definition cmd_sscan :: store_cmd where "cmd_sscan = dispatchCollectionScan ''sscan'' sscan"
definition cmd_zscan :: store_cmd where "cmd_zscan = dispatchCollectionScan ''zscan'' zscan"

subsection \<open>Sorted sets\<close>

definition no_zadd_options :: ZaddOptions where
  "no_zadd_options = \<lparr>z_nx = False, z_xx = False, z_gt = False, z_lt = False, z_ch = False\<rparr>"

definition cmd_zadd :: store_cmd where
  "cmd_zadd e db req st =
     (if length req < 4 \<or> is_null (req ! 1) then (st, bad_args ''zadd'')
      else case zadd_flags (drop 2 req) no_zadd_options of
        None \<Rightarrow> (st, syntax_error)
      | Some (opt, rest) \<Rightarrow>
          if odd (length rest) then (st, syntax_error)
          else (case zadd_members rest of
                  Inl err \<Rightarrow> (st, resp_err err)
                | Inr ms \<Rightarrow> reply_with resp_integer (zaddOpt (e_hash e) db (arg req 1) opt ms (e_clock e 0) st)))"

definition cmd_zrem :: store_cmd where "cmd_zrem = members_cmd ''zrem'' zrem"

definition cmd_zscore :: store_cmd where
  "cmd_zscore e db req st =
     (if length req \<noteq> 3 \<or> is_null (req ! 1) \<or> is_null (req ! 2) then (st, bad_args ''zscore'')
      else reply_with (\<lambda>x. bulk_or_null (map_option formatScore x))
        (zscore (e_hash e) db (arg req 1) (arg req 2) (e_clock e 0) st))"

definition cmd_zcard :: store_cmd where
  "cmd_zcard e db req st =
     (if length req \<noteq> 2 \<or> is_null (req ! 1) then (st, bad_args ''zcard'')
      else reply_with int_or_zero (zcard (e_hash e) db (arg req 1) (e_clock e 0) st))"

definition dispatchZrange :: "bool \<Rightarrow> string \<Rightarrow> store_cmd" where
  "dispatchZrange reverse cmd e db req st =
     (if length req < 4 \<or> is_null (req ! 1) \<or> is_null (req ! 2) \<or> is_null (req ! 3) then (st, bad_args cmd)
      else case (parseInt64Arg (req ! 2), parseInt64Arg (req ! 3)) of
        (Some start, Some stop) \<Rightarrow>
          (let ws = (length req \<ge> 5 \<and> \<not> is_null (req ! 4) \<and> upperArg (arg req 4) = ''WITHSCORES'')
           in reply_with (encode_scored ws) (zrange (e_hash e) db (arg req 1) start stop reverse (e_clock e 0) st))
      | _ \<Rightarrow> (st, not_int))"

definition cmd_zrange :: store_cmd where "cmd_zrange = dispatchZrange False ''zrange''"
definition cmd_zrevrange :: store_cmd where "cmd_zrevrange = dispatchZrange True ''zrevrange''"

definition dispatchZrangeByScore :: "bool \<Rightarrow> string \<Rightarrow> store_cmd" where
  "dispatchZrangeByScore reverse cmd e db req st =
     (if length req < 4 \<or> is_null (req ! 1) \<or> is_null (req ! 2) \<or> is_null (req ! 3) then (st, bad_args cmd)
      else case score_options (drop 4 req) False 0 (- 1) of
        None \<Rightarrow> (st, syntax_error)
      | Some (ws, off, n) \<Rightarrow>
          reply_with (encode_scored ws)
            (zrangeByScore (e_hash e) db (arg req 1) (arg req 2) (arg req 3) reverse off n (e_clock e 0) st))"

definition cmd_zrangebyscore :: store_cmd where "cmd_zrangebyscore = dispatchZrangeByScore False ''zrangebyscore''"
definition cmd_zrevrangebyscore :: store_cmd where
  "cmd_zrevrangebyscore = dispatchZrangeByScore True ''zrevrangebyscore''"

definition cmd_zcount :: store_cmd where
  "cmd_zcount e db req st =
     (if length req \<noteq> 4 \<or> is_null (req ! 1) \<or> is_null (req ! 2) \<or> is_null (req ! 3) then (st, bad_args ''zcount'')
      else reply_with int_or_zero (zcount (e_hash e) db (arg req 1) (arg req 2) (arg req 3) (e_clock e 0) st))"

definition cmd_zincrby :: store_cmd where
  "cmd_zincrby e db req st =
     (if length req \<noteq> 4 \<or> is_null (req ! 1) \<or> is_null (req ! 2) \<or> is_null (req ! 3) then (st, bad_args ''zincrby'')
      else case parseDoubleArg (req ! 2) of
        None \<Rightarrow> (st, resp_err kNotFloat)
      | Some d \<Rightarrow>
          reply_with (\<lambda>(s, _). bulk (formatScore s)) (zincrby (e_hash e) db (arg req 1) (arg req 3) d (e_clock e 0) st))"

definition rank_cmd :: "string \<Rightarrow> bool \<Rightarrow> store_cmd" where
  "rank_cmd cmd reverse e db req st =
     (if length req \<noteq> 3 \<or> is_null (req ! 1) \<or> is_null (req ! 2) then (st, bad_args cmd)
      else reply_with (\<lambda>x. case x of None \<Rightarrow> nullBulk | Some r \<Rightarrow> if r \<ge> 0 then resp_integer r else nullBulk)
        (zrank (e_hash e) db (arg req 1) (arg req 2) reverse (e_clock e 0) st))"

definition cmd_zrank :: store_cmd where "cmd_zrank = rank_cmd ''zrank'' False"
definition cmd_zrevrank :: store_cmd where "cmd_zrevrank = rank_cmd ''zrevrank'' True"

definition cmd_zpopmin :: store_cmd where
  "cmd_zpopmin e db req st =
     (if length req \<noteq> 2 \<or> is_null (req ! 1) then (st, bad_args ''zpopmin'')
      else reply_with encode_popped (zpopmin (e_hash e) (e_rng e 0) db (arg req 1) (e_clock e 0) st))"

definition cmd_zpopmax :: store_cmd where
  "cmd_zpopmax e db req st =
     (if length req \<noteq> 2 \<or> is_null (req ! 1) then (st, bad_args ''zpopmax'')
      else reply_with encode_popped (zpopmax (e_hash e) (e_rng e 0) db (arg req 1) (e_clock e 0) st))"

subsection \<open>Streams\<close>

definition cmd_xadd :: store_cmd where
  "cmd_xadd e db req st =
     (if length req < 4 \<or> is_null (req ! 1) \<or> is_null (req ! 2) then (st, bad_args ''xadd'')
      else if odd (length req - 3) then (st, syntax_error)
      else case collect_pairs (drop 3 req) of
        None \<Rightarrow> (st, syntax_error)
      | Some fs \<Rightarrow> reply_with bulk (xadd (e_hash e) (e_rng e 0) db (arg req 1) (arg req 2) fs (e_clock e 0) st))"

definition cmd_xlen :: store_cmd where
  "cmd_xlen e db req st =
     (if length req \<noteq> 2 \<or> is_null (req ! 1) then (st, bad_args ''xlen'')
      else reply_with int_or_zero (xlen (e_hash e) db (arg req 1) (e_clock e 0) st))"

definition xrange_cmd :: "string \<Rightarrow> bool \<Rightarrow> store_cmd" where
  "xrange_cmd cmd reverse e db req st =
     (if length req < 4 \<or> is_null (req ! 1) \<or> is_null (req ! 2) \<or> is_null (req ! 3) then (st, bad_args cmd)
      else case (if length req \<ge> 5 then parseInt64Arg (req ! 4) else Some (- 1)) of
        None \<Rightarrow> (st, not_int)
      | Some n \<Rightarrow>
          reply_with (\<lambda>x. encodeStreamEntries (case x of None \<Rightarrow> [] | Some es \<Rightarrow> es))
            (xrange (e_hash e) db (arg req 1) (arg req 2) (arg req 3) n reverse (e_clock e 0) st))"

definition cmd_xrange :: store_cmd where "cmd_xrange = xrange_cmd ''xrange'' False"
definition cmd_xrevrange :: store_cmd where "cmd_xrevrange = xrange_cmd ''xrevrange'' True"

text \<open>\<open>XREAD\<close>: where the keys begin, or \<open>None\<close> for a bad count; then the keys up to \<open>mid\<close> and the identifiers from
  there on.\<close>

definition xread_start :: "request \<Rightarrow> (int64 \<times> nat) option" where
  "xread_start req =
     (if rtype (req ! 1) = BulkString \<and> upperArg (arg req 1) = ''COUNT'' then
        (if length req < 5 then None else map_option (\<lambda>n. (n, 3)) (parseInt64Arg (req ! 2)))
      else Some (- 1, 1))"

definition cmd_xread :: store_cmd where
  "cmd_xread e db req st =
     (if length req < 4 then (st, bad_args ''xread'')
      else case xread_start req of
        None \<Rightarrow> (st, syntax_error)
      | Some (n, key_start) \<Rightarrow>
          if length req < key_start + 2 \<or> is_null (req ! key_start) \<or> upperArg (arg req key_start) \<noteq> ''STREAMS''
          then (st, syntax_error)
          else let mid = (length req - key_start - 1) div 2 + key_start in
            if mid \<le> key_start \<or> mid \<ge> length req then (st, syntax_error)
            else (case (collect_args (drop (key_start + 1) (take mid req)), collect_args (drop mid req)) of
                    (Some ks, Some ids) \<Rightarrow> reply_with encode_streams (xread (e_hash e) db ks ids n (e_clock e 0) st)
                  | _ \<Rightarrow> (st, syntax_error)))"

definition cmd_xdel :: store_cmd where "cmd_xdel = members_cmd ''xdel'' xdel"

definition cmd_xgroup :: store_cmd where
  "cmd_xgroup e db req st =
     (if length req < 4 \<or> is_null (req ! 1) \<or> is_null (req ! 2) \<or> is_null (req ! 3) then (st, bad_args ''xgroup'')
      else let sub = upperArg (arg req 1) in
        if sub = ''CREATE'' then
          (let mk = (length req \<ge> 5 \<and> \<not> is_null (req ! 4) \<and> upperArg (arg req 4) = ''MKSTREAM'');
               i = (if mk then 5 else 4)
           in if length req \<le> i \<or> is_null (req ! i) then (st, syntax_error)
              else reply_with (\<lambda>_. resp_ok)
                (xgroupCreate (e_hash e) db (arg req 2) (arg req 3) (arg req i) mk (e_clock e 0) st))
        else if sub = ''DESTROY'' then
          reply_with (\<lambda>_. resp_ok) (xgroupDestroy (e_hash e) db (arg req 2) (arg req 3) (e_clock e 0) st)
        else (st, resp_err ''ERR unknown XGROUP subcommand''))"

definition cmd_xreadgroup :: store_cmd where
  "cmd_xreadgroup e db req st =
     (if length req < 6 then (st, bad_args ''xreadgroup'')
      else if upperArg (arg req 1) \<noteq> ''GROUP'' \<or> is_null (req ! 2) \<or> is_null (req ! 3) then (st, syntax_error)
      else case (if upperArg (arg req 4) = ''COUNT'' then
                   (if length req < 7 then None else map_option (\<lambda>n. (n, 6)) (parseInt64Arg (req ! 5)))
                 else Some (- 1, 4)) of
        None \<Rightarrow> (st, syntax_error)
      | Some (n, i) \<Rightarrow>
          if length req \<le> i \<or> upperArg (arg req i) \<noteq> ''STREAMS'' then (st, syntax_error)
          else let mid = i + 1 + (length req - i - 1) div 2 in
            reply_with encode_streams
              (xreadGroup (e_hash e) db (arg req 2) (arg req 3) (map rstr (drop (i + 1) (take mid req)))
                 (map rstr (drop mid req)) n (e_clock e 0) st))"

definition cmd_xack :: store_cmd where
  "cmd_xack e db req st =
     (if length req < 4 \<or> is_null (req ! 1) \<or> is_null (req ! 2) then (st, bad_args ''xack'')
      else case collect_args (drop 3 req) of
        None \<Rightarrow> (st, syntax_error)
      | Some ids \<Rightarrow> reply_with resp_integer (xack (e_hash e) db (arg req 1) (arg req 2) ids (e_clock e 0) st))"

definition cmd_xtrim :: store_cmd where
  "cmd_xtrim e db req st =
     (if length req < 4 \<or> is_null (req ! 1) \<or> is_null (req ! 2) \<or> is_null (req ! 3) then (st, bad_args ''xtrim'')
      else if upperArg (arg req 2) \<noteq> ''MAXLEN'' then (st, syntax_error)
      else let i = (if upperArg (arg req 3) = ''~'' then 4 else 3) in
        if length req \<le> i then (st, syntax_error)
        else case parseInt64Arg_lax (req ! i) of
          None \<Rightarrow> (st, syntax_error)
        | Some n \<Rightarrow> reply_with resp_integer (xtrim (e_hash e) db (arg req 1) n (e_clock e 0) st))"

definition pending_row :: "XPendingDetail \<Rightarrow> RespValue" where
  "pending_row d = array_of [bulk (pd_id d), bulk (pd_consumer d), resp_integer (idle_ms d), resp_integer (pd_count d)]"

text \<open>\<open>XPENDING\<close>: with \<open>-\<close> as the start the count and the consumer are expected one place further.\<close>

definition cmd_xpending :: store_cmd where
  "cmd_xpending e db req st =
     (if length req < 3 \<or> is_null (req ! 1) \<or> is_null (req ! 2) then (st, bad_args ''xpending'')
      else if length req \<ge> 6 then
        (let i = (if \<not> is_null (req ! 3) \<and> arg req 3 = ''-'' then 4 else 3);
             n = (if length req > i + 1 then (case parseInt64Arg_lax (req ! (i + 1)) of None \<Rightarrow> 10 | Some k \<Rightarrow> k) else 10);
             consumer = (if length req > i + 2 \<and> \<not> is_null (req ! (i + 2)) then arg req (i + 2) else []);
             start = (if \<not> is_null (req ! 3) then arg req 3 else ''-'');
             stop = (if \<not> is_null (req ! 4) then arg req 4 else ''+'')
         in reply_with (\<lambda>ds. array_of (map pending_row ds))
              (xpendingRange (e_hash e) db (arg req 1) (arg req 2) start stop n consumer (e_clock e 0) st))
      else reply_with encode_summary (xpendingSummary (e_hash e) db (arg req 1) (arg req 2) (e_clock e 0) st))"

definition claimed_row :: "StreamEntry \<Rightarrow> RespValue" where
  "claimed_row s = array_of [bulk (se_id s), bulks (concat (map (\<lambda>(f, v). [f, v]) (se_fields s)))]"

definition cmd_xclaim :: store_cmd where
  "cmd_xclaim e db req st =
     (if length req < 6 \<or> is_null (req ! 1) \<or> is_null (req ! 2) \<or> is_null (req ! 3) \<or> is_null (req ! 4)
      then (st, bad_args ''xclaim'')
      else case parseInt64Arg_lax (req ! 4) of
        None \<Rightarrow> (st, not_int)
      | Some idle \<Rightarrow>
          (case claim_ids (drop 5 req) False [] of
             None \<Rightarrow> (st, syntax_error)
           | Some (force, ids) \<Rightarrow>
               reply_with (\<lambda>es. array_of (map claimed_row es))
                 (xclaim (e_hash e) db (arg req 1) (arg req 2) (arg req 3) idle ids force (e_clock e 0) st)))"

subsection \<open>The invariant\<close>

lemma wf_members_cmd:
  assumes "\<And>h db key ms now st. wf_store h st \<Longrightarrow> wf_store h (fst (op h db key ms now st))"
  shows "keeps_wf (members_cmd cmd op)"
  using assms by (intro keeps_wfI) (auto simp: members_cmd_def split: option.split)

lemma wf_algebra_cmd:
  assumes "\<And>h db ks now st. wf_store h st \<Longrightarrow> wf_store h (fst (op h db ks now st))"
  shows "keeps_wf (algebra_cmd cmd op)"
  using assms by (intro keeps_wfI) (auto simp: algebra_cmd_def split: option.split)

lemma wf_collection_scan:
  assumes "\<And>h db key c p n now st. wf_store h st \<Longrightarrow> wf_store h (fst (op h db key c p n now st))"
  shows "keeps_wf (dispatchCollectionScan cmd op)"
  using assms by (intro keeps_wfI) (auto simp: dispatchCollectionScan_def split: cmd_splits)

lemma wf_cmd_members [cmd_wf]:
  "keeps_wf cmd_sadd" "keeps_wf cmd_srem" "keeps_wf cmd_sinterstore" "keeps_wf cmd_sunionstore"
  unfolding cmd_sadd_def cmd_srem_def cmd_sinterstore_def cmd_sunionstore_def
  by (auto intro!: wf_members_cmd intro: wf_rules)

lemma wf_cmd_members_more [cmd_wf]:
  "keeps_wf cmd_sdiffstore" "keeps_wf cmd_zrem" "keeps_wf cmd_xdel"
  unfolding cmd_sdiffstore_def cmd_zrem_def cmd_xdel_def
  by (auto intro!: wf_members_cmd intro: wf_rules)

lemma wf_cmd_algebra [cmd_wf]:
  "keeps_wf cmd_sinter" "keeps_wf cmd_sunion" "keeps_wf cmd_sdiff"
  unfolding cmd_sinter_def cmd_sunion_def cmd_sdiff_def
  by (auto intro!: wf_algebra_cmd intro: wf_rules)

lemma wf_cmd_scans [cmd_wf]:
  "keeps_wf cmd_hscan" "keeps_wf cmd_sscan" "keeps_wf cmd_zscan"
  unfolding cmd_hscan_def cmd_sscan_def cmd_zscan_def
  by (auto intro!: wf_collection_scan intro: wf_rules)

lemma wf_cmd_sets [cmd_wf]:
  "keeps_wf cmd_smembers" "keeps_wf cmd_scard" "keeps_wf cmd_sismember" "keeps_wf cmd_spop"
  by (intro keeps_wfI; auto simp: cmd_smembers_def cmd_scard_def cmd_sismember_def cmd_spop_def
      split: cmd_splits intro: wf_rules)+

lemma wf_cmd_zsets [cmd_wf]:
  "keeps_wf cmd_zadd" "keeps_wf cmd_zscore" "keeps_wf cmd_zcard" "keeps_wf cmd_zrange"
  "keeps_wf cmd_zrevrange" "keeps_wf cmd_zrangebyscore" "keeps_wf cmd_zrevrangebyscore" "keeps_wf cmd_zcount"
  "keeps_wf cmd_zincrby" "keeps_wf cmd_zrank" "keeps_wf cmd_zrevrank" "keeps_wf cmd_zpopmin"
  "keeps_wf cmd_zpopmax"
  by (intro keeps_wfI; auto simp: cmd_zadd_def cmd_zscore_def cmd_zcard_def cmd_zrange_def cmd_zrevrange_def
      cmd_zrangebyscore_def cmd_zrevrangebyscore_def cmd_zcount_def cmd_zincrby_def cmd_zrank_def
      cmd_zrevrank_def cmd_zpopmin_def cmd_zpopmax_def
      dispatchZrange_def dispatchZrangeByScore_def rank_cmd_def split: cmd_splits intro: wf_rules)+

lemma wf_cmd_streams [cmd_wf]:
  "keeps_wf cmd_xadd" "keeps_wf cmd_xlen" "keeps_wf cmd_xrange" "keeps_wf cmd_xrevrange" "keeps_wf cmd_xread"
  "keeps_wf cmd_xgroup" "keeps_wf cmd_xreadgroup" "keeps_wf cmd_xack" "keeps_wf cmd_xtrim"
  "keeps_wf cmd_xpending" "keeps_wf cmd_xclaim"
  by (intro keeps_wfI; auto simp: cmd_xadd_def cmd_xlen_def cmd_xrange_def cmd_xrevrange_def cmd_xread_def
      cmd_xgroup_def cmd_xreadgroup_def cmd_xack_def cmd_xtrim_def cmd_xpending_def cmd_xclaim_def
      xrange_cmd_def Let_def split: cmd_splits intro: wf_rules)+

end
