(* ===== verification/SlowLog.thy ===== *)
theory SlowLog
  imports Resp
begin

text \<open>
  The log of slow commands: \<open>zero/kv/slowlog.cc\<close>. The mutex that every method takes is not modelled; each method is
  one step.
\<close>

record SlowlogEntry =
  le_id :: int64
  timestamp_ms :: int64
  duration_us :: int64
  le_args :: "string list"
  le_client_id :: int64
  le_client_addr :: string

record Slowlog =
  m_max_len :: int64
  m_slower_than_us :: int64
  m_next_id :: int64
  m_entries :: "SlowlogEntry list"

definition new_slowlog :: Slowlog where
  "new_slowlog = \<lparr>m_max_len = 128, m_slower_than_us = 10000, m_next_id = 1, m_entries = []\<rparr>"

subsection \<open>Operations\<close>

definition argsFromRequest :: "RespValue \<Rightarrow> string list" where
  "argsFromRequest request =
     (if rtype request \<noteq> Array then []
      else map (\<lambda>item. if is_null item then ''(nil)''
                       else if rtype item = BulkString then rstr item
                       else if rtype item = Integer then to_string (rint item)
                       else ''?'') (rarray request))"

definition setMaxLen :: "int64 \<Rightarrow> Slowlog \<Rightarrow> Slowlog" where
  "setMaxLen n s =
     (let n = (if n < 0 then 0 else n); s = s\<lparr>m_max_len := n\<rparr>
      in if n > 0 \<and> int (length (m_entries s)) > n
         then s\<lparr>m_entries := drop (length (m_entries s) - nat n) (m_entries s)\<rparr> else s)"

definition setSlowerThanUs :: "int64 \<Rightarrow> Slowlog \<Rightarrow> Slowlog" where
  "setSlowerThanUs us s = s\<lparr>m_slower_than_us := (if us < 0 then 0 else us)\<rparr>"

definition record_slow :: "int64 \<Rightarrow> string \<Rightarrow> RespValue \<Rightarrow> int64 \<Rightarrow> int64 \<Rightarrow> Slowlog \<Rightarrow> Slowlog" where
  "record_slow client_id client_addr request duration now s =
     (if duration < m_slower_than_us s then s
      else let entry = \<lparr>le_id = m_next_id s, timestamp_ms = now, duration_us = duration,
                        le_args = argsFromRequest request, le_client_id = client_id, le_client_addr = client_addr\<rparr>;
               es = m_entries s @ [entry]
           in s\<lparr>m_next_id := m_next_id s + 1,
                m_entries := (if m_max_len s > 0 \<and> int (length es) > m_max_len s then tl es else es)\<rparr>)"

definition get_slow :: "int64 \<Rightarrow> Slowlog \<Rightarrow> SlowlogEntry list" where
  "get_slow n s =
     (let len = int (length (m_entries s)); n = (if n \<le> 0 \<or> n > len then len else n)
      in drop (nat (len - n)) (m_entries s))"

definition len_slow :: "Slowlog \<Rightarrow> int64" where
  "len_slow s = int (length (m_entries s))"

definition reset_slow :: "Slowlog \<Rightarrow> Slowlog" where
  "reset_slow s = s\<lparr>m_entries := []\<rparr>"

subsection \<open>The log is bounded and numbered\<close>

inductive slow_reachable :: "Slowlog \<Rightarrow> bool" where
  slow_new: "slow_reachable new_slowlog"
| slow_max: "slow_reachable s \<Longrightarrow> slow_reachable (setMaxLen n s)"
| slow_limit: "slow_reachable s \<Longrightarrow> slow_reachable (setSlowerThanUs us s)"
| slow_record: "slow_reachable s \<Longrightarrow> slow_reachable (record_slow c a req d now s)"
| slow_reset: "slow_reachable s \<Longrightarrow> slow_reachable (reset_slow s)"

text \<open>The entries carry the consecutive numbers that end before the next one, and there are at most as many as
  configured.\<close>

definition slow_ok :: "Slowlog \<Rightarrow> bool" where
  "slow_ok s \<longleftrightarrow>
     map le_id (m_entries s) = map (\<lambda>i. m_next_id s - int (length (m_entries s)) + int i) [0..<length (m_entries s)] \<and>
     (m_max_len s > 0 \<longrightarrow> int (length (m_entries s)) \<le> m_max_len s) \<and> m_slower_than_us s \<ge> 0"

lemma ids_drop:
  assumes "map f es = map (\<lambda>i. n - int (length es) + int i) [0..<length es]"
  shows "map f (drop k es) = map (\<lambda>i. n - int (length (drop k es)) + int i) [0..<length (drop k es)]"
proof (rule nth_equalityI)
  fix i assume "i < length (map f (drop k es))"
  then have "k + i < length es" by simp
  then have "map f es ! (k + i) = n - int (length es) + int (k + i)" unfolding assms by simp
  then show "map f (drop k es) ! i = map (\<lambda>i. n - int (length (drop k es)) + int i) [0..<length (drop k es)] ! i"
    using \<open>k + i < length es\<close> by (simp add: of_nat_diff)
qed simp

lemma ids_snoc:
  assumes "map f es = map (\<lambda>i. n - int (length es) + int i) [0..<length es]" "f e = n"
  shows "map f (es @ [e]) = map (\<lambda>i. (n + 1) - int (length (es @ [e])) + int i) [0..<length (es @ [e])]"
  using assms by (simp add: algebra_simps)

lemma slow_ok_setMaxLen: "slow_ok s \<Longrightarrow> slow_ok (setMaxLen n s)"
  using ids_drop[of le_id "m_entries s" "m_next_id s" "length (m_entries s) - nat n"]
  by (auto simp: slow_ok_def setMaxLen_def Let_def)

lemma slow_ok_record:
  assumes "slow_ok s"
  shows "slow_ok (record_slow c a req d now s)"
proof (cases "d < m_slower_than_us s")
  case slow: False
  define entry where "entry = \<lparr>le_id = m_next_id s, timestamp_ms = now, duration_us = d,
    le_args = argsFromRequest req, le_client_id = c, le_client_addr = a\<rparr>"
  define es where "es = m_entries s @ [entry]"
  have ids: "map le_id es = map (\<lambda>i. (m_next_id s + 1) - int (length es) + int i) [0..<length es]"
    unfolding es_def using assms by (intro ids_snoc) (simp_all add: slow_ok_def entry_def)
  have len: "length es = Suc (length (m_entries s))" by (simp add: es_def)
  have r: "record_slow c a req d now s = s\<lparr>m_next_id := m_next_id s + 1,
      m_entries := (if m_max_len s > 0 \<and> int (length es) > m_max_len s then drop 1 es else es)\<rparr>"
    using slow by (simp add: record_slow_def Let_def entry_def es_def drop_Suc del: drop_append)
  show ?thesis using assms ids ids_drop[OF ids, of 1] by (auto simp: r slow_ok_def len)
qed (simp add: record_slow_def assms)

lemma slow_ok_rest:
  "slow_ok new_slowlog" "slow_ok s \<Longrightarrow> slow_ok (setSlowerThanUs us s)" "slow_ok s \<Longrightarrow> slow_ok (reset_slow s)"
  by (simp_all add: slow_ok_def new_slowlog_def setSlowerThanUs_def reset_slow_def)

lemma slow_reachable_ok: "slow_reachable s \<Longrightarrow> slow_ok s"
  by (induction rule: slow_reachable.induct) (simp_all add: slow_ok_setMaxLen slow_ok_record slow_ok_rest)

text \<open>In every state the slow log can reach, its entries carry consecutive numbers up to the last one given out
  and there are at most as many as the limit allows, if there is one (a limit of 0 means none). Recording a
  command that is slow enough appends it as the last entry, drops the oldest if the log is full, and \<open>SLOWLOG GET\<close>
  returns the most recent entries, oldest first.\<close>

theorem slowlog_correct:
  assumes "slow_reachable s"
  shows "map le_id (m_entries s) = map (\<lambda>i. m_next_id s - int (length (m_entries s)) + int i) [0..<length (m_entries s)] \<and>
    (m_max_len s > 0 \<longrightarrow> len_slow s \<le> m_max_len s) \<and>
    (d \<ge> m_slower_than_us s \<longrightarrow>
      m_entries (record_slow c a req d now s) =
        (let es = m_entries s @ [\<lparr>le_id = m_next_id s, timestamp_ms = now, duration_us = d,
                   le_args = argsFromRequest req, le_client_id = c, le_client_addr = a\<rparr>]
         in if len_slow s = m_max_len s \<and> m_max_len s > 0 then tl es else es)) \<and>
    get_slow n s = (if n > 0 \<and> n < len_slow s then drop (length (m_entries s) - nat n) (m_entries s) else m_entries s)"
proof -
  have ok: "slow_ok s" using assms by (rule slow_reachable_ok)
  have "nat (int (length (m_entries s)) - n) = length (m_entries s) - nat n" if "0 < n" using that by linarith
  then have "get_slow n s =
      (if n > 0 \<and> n < len_slow s then drop (length (m_entries s) - nat n) (m_entries s) else m_entries s)"
    by (auto simp: get_slow_def Let_def len_slow_def)
  then show ?thesis using ok by (auto simp: record_slow_def Let_def slow_ok_def len_slow_def)
qed

definition slow_example :: Slowlog where
  "slow_example = record_slow 7 ''a'' (RespValue Array [] 0 [bulk ''KEYS'', nullBulk] False) 20000 5
     (record_slow 7 ''a'' (RespValue Array [] 0 [bulk ''PING''] False) 10000 4 (setMaxLen 1 new_slowlog))"

theorem slowlog_correct_witness:
  "len_slow slow_example \<le> 1 \<and> map le_id (get_slow 0 slow_example) = [2] \<and>
   map le_args (m_entries (record_slow 8 ''b'' (RespValue Array [] 0 [] False) 10001 6 slow_example)) = [[]]"
proof -
  have r: "slow_reachable slow_example" unfolding slow_example_def by (intro slow_reachable.intros)
  have v: "m_max_len slow_example = 1" "m_slower_than_us slow_example = 10000" "map le_id (m_entries slow_example) = [2]"
    "length (m_entries slow_example) = 1" by code_simp+
  have "m_entries slow_example \<noteq> []" "tl (m_entries slow_example) = []" using v(4) by (auto simp: length_Suc_conv)
  moreover have "len_slow slow_example = 1" by (simp add: len_slow_def v(4))
  ultimately show ?thesis
    using slowlog_correct[OF r, of 10001 8 "''b''" "RespValue Array [] 0 [] False" 6 0] v by (simp add: Let_def argsFromRequest_def)
qed

end
