(* ===== verification/PubSub.thy ===== *)
theory PubSub
  imports Resp Glob
begin

text \<open>
  Publish/subscribe: \<open>zero/kv/pubsub/pubsub_hub.cc\<close>. A session is a number that stands for the identity of its
  object. The hub holds weak pointers: whether a session still exists when a method looks is the argument \<open>alive\<close>.
  The mutex that every method takes is not modelled; each method is one step.
\<close>

type_synonym sid = nat

record PubSubHub =
  m_channels :: "(string, sid list) umap"
  m_patterns :: "(string, sid list) umap"
  m_sessionChannels :: "(sid, string list) umap"
  m_sessionPatterns :: "(sid, string list) umap"

definition new_hub :: PubSubHub where
  "new_hub = \<lparr>m_channels = [], m_patterns = [], m_sessionChannels = [], m_sessionPatterns = []\<rparr>"

subsection \<open>Operations\<close>

text \<open>The file has its own copy of \<open>matchGlob\<close>, equal to the store's.\<close>

definition matchPattern :: "string \<Rightarrow> string \<Rightarrow> bool" where
  "matchPattern pattern channel = matchGlob pattern channel"

definition removeFromChannelMap :: "(sid \<Rightarrow> bool) \<Rightarrow> string \<Rightarrow> sid \<Rightarrow> PubSubHub \<Rightarrow> PubSubHub" where
  "removeFromChannelMap alive channel session h =
     (case map_of (m_channels h) channel of
        None \<Rightarrow> h
      | Some subs \<Rightarrow>
          (let subs = filter (\<lambda>s. alive s \<and> s \<noteq> session) subs
           in h\<lparr>m_channels := (if subs = [] then AList.delete channel (m_channels h)
                               else AList.update channel subs (m_channels h))\<rparr>))"

definition removeFromPatternMap :: "(sid \<Rightarrow> bool) \<Rightarrow> string \<Rightarrow> sid \<Rightarrow> PubSubHub \<Rightarrow> PubSubHub" where
  "removeFromPatternMap alive pattern session h =
     (case map_of (m_patterns h) pattern of
        None \<Rightarrow> h
      | Some subs \<Rightarrow>
          (let subs = filter (\<lambda>s. alive s \<and> s \<noteq> session) subs
           in h\<lparr>m_patterns := (if subs = [] then AList.delete pattern (m_patterns h)
                               else AList.update pattern subs (m_patterns h))\<rparr>))"

definition subscribe :: "string \<Rightarrow> sid \<Rightarrow> PubSubHub \<Rightarrow> PubSubHub" where
  "subscribe channel session h =
     h\<lparr>m_channels := AList.update channel (umap_get [] channel (m_channels h) @ [session]) (m_channels h),
       m_sessionChannels := AList.update session (uset_insert channel (umap_get [] session (m_sessionChannels h)))
         (m_sessionChannels h)\<rparr>"

definition unsubscribe :: "(sid \<Rightarrow> bool) \<Rightarrow> string \<Rightarrow> sid \<Rightarrow> PubSubHub \<Rightarrow> PubSubHub" where
  "unsubscribe alive channel session h =
     (case map_of (m_sessionChannels h) session of
        None \<Rightarrow> h
      | Some names \<Rightarrow>
          (let names = removeAll channel names
           in removeFromChannelMap alive channel session
                (h\<lparr>m_sessionChannels := (if names = [] then AList.delete session (m_sessionChannels h)
                                         else AList.update session names (m_sessionChannels h))\<rparr>)))"

definition unsubscribeAll :: "(sid \<Rightarrow> bool) \<Rightarrow> sid \<Rightarrow> PubSubHub \<Rightarrow> PubSubHub" where
  "unsubscribeAll alive session h =
     (case map_of (m_sessionChannels h) session of
        None \<Rightarrow> h
      | Some names \<Rightarrow>
          foldl (\<lambda>h ch. removeFromChannelMap alive ch session h)
            (h\<lparr>m_sessionChannels := AList.delete session (m_sessionChannels h)\<rparr>) names)"

definition psubscribe :: "string \<Rightarrow> sid \<Rightarrow> PubSubHub \<Rightarrow> PubSubHub" where
  "psubscribe pattern session h =
     h\<lparr>m_patterns := AList.update pattern (umap_get [] pattern (m_patterns h) @ [session]) (m_patterns h),
       m_sessionPatterns := AList.update session (uset_insert pattern (umap_get [] session (m_sessionPatterns h)))
         (m_sessionPatterns h)\<rparr>"

definition punsubscribe :: "(sid \<Rightarrow> bool) \<Rightarrow> string \<Rightarrow> sid \<Rightarrow> PubSubHub \<Rightarrow> PubSubHub" where
  "punsubscribe alive pattern session h =
     (case map_of (m_sessionPatterns h) session of
        None \<Rightarrow> h
      | Some names \<Rightarrow>
          (let names = removeAll pattern names
           in removeFromPatternMap alive pattern session
                (h\<lparr>m_sessionPatterns := (if names = [] then AList.delete session (m_sessionPatterns h)
                                         else AList.update session names (m_sessionPatterns h))\<rparr>)))"

definition punsubscribeAll :: "(sid \<Rightarrow> bool) \<Rightarrow> sid \<Rightarrow> PubSubHub \<Rightarrow> PubSubHub" where
  "punsubscribeAll alive session h =
     (case map_of (m_sessionPatterns h) session of
        None \<Rightarrow> h
      | Some names \<Rightarrow>
          foldl (\<lambda>h pat. removeFromPatternMap alive pat session h)
            (h\<lparr>m_sessionPatterns := AList.delete session (m_sessionPatterns h)\<rparr>) names)"

definition removeSession :: "(sid \<Rightarrow> bool) \<Rightarrow> sid \<Rightarrow> PubSubHub \<Rightarrow> PubSubHub" where
  "removeSession alive session h = punsubscribeAll alive session (unsubscribeAll alive session h)"

definition subscriptionCount :: "sid \<Rightarrow> PubSubHub \<Rightarrow> int64" where
  "subscriptionCount session h =
     (case map_of (m_sessionChannels h) session of None \<Rightarrow> 0 | Some cs \<Rightarrow> int (length cs)) +
     (case map_of (m_sessionPatterns h) session of None \<Rightarrow> 0 | Some ps \<Rightarrow> int (length ps))"

text \<open>
  \<open>publish\<close>: the messages pushed to the sessions in the order of the code, and how many of the pushes wrote
  something; whether a push does is up to the socket and is the argument \<open>sends\<close>.
\<close>

definition channel_targets :: "(sid \<Rightarrow> bool) \<Rightarrow> string \<Rightarrow> PubSubHub \<Rightarrow> sid list" where
  "channel_targets alive channel h =
     (case map_of (m_channels h) channel of None \<Rightarrow> [] | Some subs \<Rightarrow> filter alive subs)"

definition pattern_targets :: "(sid \<Rightarrow> bool) \<Rightarrow> string \<Rightarrow> PubSubHub \<Rightarrow> (string \<times> sid) list" where
  "pattern_targets alive channel h =
     concat (map (\<lambda>(p, subs). if matchPattern p channel then map (Pair p) (filter alive subs) else []) (m_patterns h))"

definition message :: "string \<Rightarrow> string \<Rightarrow> RespValue" where
  "message channel msg = RespValue Array [] 0 [bulk ''message'', bulk channel, bulk msg] False"

definition pmessage :: "string \<Rightarrow> string \<Rightarrow> string \<Rightarrow> RespValue" where
  "pmessage pattern channel msg =
     RespValue Array [] 0 [bulk ''pmessage'', bulk pattern, bulk channel, bulk msg] False"

definition publish :: "(sid \<Rightarrow> bool) \<Rightarrow> (sid \<Rightarrow> RespValue \<Rightarrow> bool) \<Rightarrow> string \<Rightarrow> string \<Rightarrow> PubSubHub \<Rightarrow>
    (sid \<times> RespValue) list \<times> int64" where
  "publish alive sends channel msg h =
     (let pushed = map (\<lambda>s. (s, message channel msg)) (channel_targets alive channel h) @
                   map (\<lambda>(p, s). (s, pmessage p channel msg)) (pattern_targets alive channel h)
      in (pushed, int (length (filter (\<lambda>(s, m). sends s m) pushed))))"

subsection \<open>An interface for both tables of subscriptions\<close>

text \<open>
  The hub keeps channels and patterns with the same code twice: a table from names to the sessions that
  subscribed, and one from sessions to their names. The interface is what a subscription, its removal and the
  removal of all names of a session do to the two tables; what follows for their consistency is proved once.
\<close>

locale subscriptions =
  fixes subs :: "'h \<Rightarrow> string \<Rightarrow> sid list"
    and names :: "'h \<Rightarrow> sid \<Rightarrow> string list"
    and sub :: "string \<Rightarrow> sid \<Rightarrow> 'h \<Rightarrow> 'h"
    and unsub :: "(sid \<Rightarrow> bool) \<Rightarrow> string \<Rightarrow> sid \<Rightarrow> 'h \<Rightarrow> 'h"
    and unsub_all :: "(sid \<Rightarrow> bool) \<Rightarrow> sid \<Rightarrow> 'h \<Rightarrow> 'h"
  assumes subs_sub: "subs (sub n s h) m = (if m = n then subs h n @ [s] else subs h m)"
    and names_sub: "set (names (sub n s h) t) = (if t = s then insert n (set (names h s)) else set (names h t))"
    and unsub_others: "m \<noteq> n \<Longrightarrow> subs (unsub A n s h) m = subs h m"
    and unsub_keeps: "A t \<Longrightarrow> t \<noteq> s \<Longrightarrow> t \<in> set (subs (unsub A n s h) n) \<longleftrightarrow> t \<in> set (subs h n)"
    and unsub_only: "s \<in> set (subs (unsub A n s h) n) \<Longrightarrow> s \<in> set (subs h n) \<and> n \<notin> set (names h s)"
    and names_unsub: "set (names (unsub A n s h) t) = (if t = s then set (names h s) - {n} else set (names h t))"
    and subs_unsub_all: "subs (unsub_all A s h) m =
      (if m \<in> set (names h s) then filter (\<lambda>t. A t \<and> t \<noteq> s) (subs h m) else subs h m)"
    and names_unsub_all: "set (names (unsub_all A s h) t) = (if t = s then {} else set (names h t))"
begin

definition consistent :: "(sid \<Rightarrow> bool) \<Rightarrow> 'h \<Rightarrow> bool" where
  "consistent A h \<longleftrightarrow> (\<forall>s n. A s \<longrightarrow> (s \<in> set (subs h n) \<longleftrightarrow> n \<in> set (names h s)))"

lemma consistent_sub: "consistent A h \<Longrightarrow> consistent A (sub n s h)"
  by (auto simp: consistent_def subs_sub names_sub)

lemma consistent_unsub:
  assumes "consistent A h"
  shows "consistent A (unsub A n s h)"
  unfolding consistent_def
proof (intro allI impI)
  fix t m assume "A t"
  then have c: "t \<in> set (subs h m) \<longleftrightarrow> m \<in> set (names h t)" using assms by (simp add: consistent_def)
  show "t \<in> set (subs (unsub A n s h) m) \<longleftrightarrow> m \<in> set (names (unsub A n s h) t)"
  proof (cases "m = n")
    case True
    then show ?thesis using c unsub_keeps[of A t s n h] unsub_only[of s A n h] \<open>A t\<close> by (cases "t = s") (auto simp: names_unsub)
  qed (use c in \<open>auto simp: unsub_others names_unsub\<close>)
qed

lemma consistent_unsub_all: "consistent A h \<Longrightarrow> consistent A (unsub_all A s h)"
  by (auto simp: consistent_def subs_unsub_all names_unsub_all)

lemma consistent_expire: "consistent A h \<Longrightarrow> (\<And>s. B s \<Longrightarrow> A s) \<Longrightarrow> consistent B h"
  by (auto simp: consistent_def)

lemma gone: "consistent A h \<Longrightarrow> A s \<Longrightarrow> s \<notin> set (subs (unsub_all A s h) n)"
  by (auto simp: consistent_def subs_unsub_all)

end

definition channel_subs :: "PubSubHub \<Rightarrow> string \<Rightarrow> sid list" where
  "channel_subs h c = umap_get [] c (m_channels h)"

definition channel_names :: "PubSubHub \<Rightarrow> sid \<Rightarrow> string list" where
  "channel_names h s = umap_get [] s (m_sessionChannels h)"

definition pattern_subs :: "PubSubHub \<Rightarrow> string \<Rightarrow> sid list" where
  "pattern_subs h c = umap_get [] c (m_patterns h)"

definition pattern_names :: "PubSubHub \<Rightarrow> sid \<Rightarrow> string list" where
  "pattern_names h s = umap_get [] s (m_sessionPatterns h)"

lemmas hub_views = channel_subs_def channel_names_def pattern_subs_def pattern_names_def umap_get_def

lemma channel_subs_remove:
  "channel_subs (removeFromChannelMap A c s h) d =
     (if d = c then filter (\<lambda>t. A t \<and> t \<noteq> s) (channel_subs h c) else channel_subs h d)"
  by (auto simp: removeFromChannelMap_def hub_views Let_def split: option.split)

lemma pattern_subs_remove:
  "pattern_subs (removeFromPatternMap A c s h) d =
     (if d = c then filter (\<lambda>t. A t \<and> t \<noteq> s) (pattern_subs h c) else pattern_subs h d)"
  by (auto simp: removeFromPatternMap_def hub_views Let_def split: option.split)

lemma remove_fields [simp]:
  "m_sessionChannels (removeFromChannelMap A c s h) = m_sessionChannels h"
  "m_patterns (removeFromChannelMap A c s h) = m_patterns h"
  "m_sessionPatterns (removeFromChannelMap A c s h) = m_sessionPatterns h"
  "m_sessionPatterns (removeFromPatternMap A c s h) = m_sessionPatterns h"
  "m_channels (removeFromPatternMap A c s h) = m_channels h"
  "m_sessionChannels (removeFromPatternMap A c s h) = m_sessionChannels h"
  by (auto simp: removeFromChannelMap_def removeFromPatternMap_def Let_def split: option.split)

lemma channel_subs_removes:
  "channel_subs (foldl (\<lambda>h ch. removeFromChannelMap A ch s h) h cs) d =
     (if d \<in> set cs then filter (\<lambda>t. A t \<and> t \<noteq> s) (channel_subs h d) else channel_subs h d)"
  by (induction cs arbitrary: h) (auto simp: channel_subs_remove intro: filter_cong)

lemma pattern_subs_removes:
  "pattern_subs (foldl (\<lambda>h ch. removeFromPatternMap A ch s h) h cs) d =
     (if d \<in> set cs then filter (\<lambda>t. A t \<and> t \<noteq> s) (pattern_subs h d) else pattern_subs h d)"
  by (induction cs arbitrary: h) (auto simp: pattern_subs_remove intro: filter_cong)

lemma removes_fields [simp]:
  "m_sessionChannels (foldl (\<lambda>h ch. removeFromChannelMap A ch s h) h cs) = m_sessionChannels h"
  "m_patterns (foldl (\<lambda>h ch. removeFromChannelMap A ch s h) h cs) = m_patterns h"
  "m_sessionPatterns (foldl (\<lambda>h ch. removeFromChannelMap A ch s h) h cs) = m_sessionPatterns h"
  "m_sessionPatterns (foldl (\<lambda>h ch. removeFromPatternMap A ch s h) h cs) = m_sessionPatterns h"
  "m_channels (foldl (\<lambda>h ch. removeFromPatternMap A ch s h) h cs) = m_channels h"
  "m_sessionChannels (foldl (\<lambda>h ch. removeFromPatternMap A ch s h) h cs) = m_sessionChannels h"
  by (induction cs arbitrary: h) auto

lemma subs_cong [simp]:
  "channel_subs (h\<lparr>m_sessionChannels := x\<rparr>) = channel_subs h" "pattern_subs (h\<lparr>m_sessionPatterns := x\<rparr>) = pattern_subs h"
  by (auto simp: hub_views fun_eq_iff)

interpretation chan: subscriptions channel_subs channel_names subscribe unsubscribe unsubscribeAll
proof
  fix A n s t m h
  show "channel_subs (subscribe n s h) m = (if m = n then channel_subs h n @ [s] else channel_subs h m)"
    by (simp add: subscribe_def hub_views)
  show "set (channel_names (subscribe n s h) t) =
      (if t = s then insert n (set (channel_names h s)) else set (channel_names h t))"
    by (auto simp: subscribe_def hub_views)
  show "m \<noteq> n \<Longrightarrow> channel_subs (unsubscribe A n s h) m = channel_subs h m"
    by (simp add: unsubscribe_def channel_subs_remove Let_def split: option.split)
  show "A t \<Longrightarrow> t \<noteq> s \<Longrightarrow> t \<in> set (channel_subs (unsubscribe A n s h) n) \<longleftrightarrow> t \<in> set (channel_subs h n)"
    by (simp add: unsubscribe_def channel_subs_remove Let_def split: option.split)
  show "s \<in> set (channel_subs (unsubscribe A n s h) n) \<Longrightarrow> s \<in> set (channel_subs h n) \<and> n \<notin> set (channel_names h s)"
    by (auto simp: unsubscribe_def channel_subs_remove channel_names_def umap_get_def Let_def split: option.splits)
  show "set (channel_names (unsubscribe A n s h) t) =
      (if t = s then set (channel_names h s) - {n} else set (channel_names h t))"
    by (auto simp: unsubscribe_def channel_names_def umap_get_def Let_def removeAll_filter_not_eq filter_empty_conv
        split: option.split)
  show "channel_subs (unsubscribeAll A s h) m =
      (if m \<in> set (channel_names h s) then filter (\<lambda>t. A t \<and> t \<noteq> s) (channel_subs h m) else channel_subs h m)"
    by (simp add: unsubscribeAll_def channel_subs_removes channel_names_def umap_get_def split: option.split)
  show "set (channel_names (unsubscribeAll A s h) t) = (if t = s then {} else set (channel_names h t))"
    by (simp add: unsubscribeAll_def channel_names_def umap_get_def split: option.split)
qed

interpretation patt: subscriptions pattern_subs pattern_names psubscribe punsubscribe punsubscribeAll
proof
  fix A n s t m h
  show "pattern_subs (psubscribe n s h) m = (if m = n then pattern_subs h n @ [s] else pattern_subs h m)"
    by (simp add: psubscribe_def hub_views)
  show "set (pattern_names (psubscribe n s h) t) =
      (if t = s then insert n (set (pattern_names h s)) else set (pattern_names h t))"
    by (auto simp: psubscribe_def hub_views)
  show "m \<noteq> n \<Longrightarrow> pattern_subs (punsubscribe A n s h) m = pattern_subs h m"
    by (simp add: punsubscribe_def pattern_subs_remove Let_def split: option.split)
  show "A t \<Longrightarrow> t \<noteq> s \<Longrightarrow> t \<in> set (pattern_subs (punsubscribe A n s h) n) \<longleftrightarrow> t \<in> set (pattern_subs h n)"
    by (simp add: punsubscribe_def pattern_subs_remove Let_def split: option.split)
  show "s \<in> set (pattern_subs (punsubscribe A n s h) n) \<Longrightarrow> s \<in> set (pattern_subs h n) \<and> n \<notin> set (pattern_names h s)"
    by (auto simp: punsubscribe_def pattern_subs_remove pattern_names_def umap_get_def Let_def split: option.splits)
  show "set (pattern_names (punsubscribe A n s h) t) =
      (if t = s then set (pattern_names h s) - {n} else set (pattern_names h t))"
    by (auto simp: punsubscribe_def pattern_names_def umap_get_def Let_def removeAll_filter_not_eq filter_empty_conv
        split: option.split)
  show "pattern_subs (punsubscribeAll A s h) m =
      (if m \<in> set (pattern_names h s) then filter (\<lambda>t. A t \<and> t \<noteq> s) (pattern_subs h m) else pattern_subs h m)"
    by (simp add: punsubscribeAll_def pattern_subs_removes pattern_names_def umap_get_def split: option.split)
  show "set (pattern_names (punsubscribeAll A s h) t) = (if t = s then {} else set (pattern_names h t))"
    by (simp add: punsubscribeAll_def pattern_names_def umap_get_def split: option.split)
qed

subsection \<open>Delivery\<close>

text \<open>The states of the hub while sessions subscribe, unsubscribe, leave and expire.\<close>

inductive hub_reachable :: "(sid \<Rightarrow> bool) \<Rightarrow> PubSubHub \<Rightarrow> bool" where
  "hub_reachable A new_hub"
| "hub_reachable A h \<Longrightarrow> hub_reachable A (subscribe c s h)"
| "hub_reachable A h \<Longrightarrow> hub_reachable A (unsubscribe A c s h)"
| "hub_reachable A h \<Longrightarrow> hub_reachable A (unsubscribeAll A s h)"
| "hub_reachable A h \<Longrightarrow> hub_reachable A (psubscribe p s h)"
| "hub_reachable A h \<Longrightarrow> hub_reachable A (punsubscribe A p s h)"
| "hub_reachable A h \<Longrightarrow> hub_reachable A (punsubscribeAll A s h)"
| "hub_reachable A h \<Longrightarrow> hub_reachable (A(s := False)) h"

definition hub_ok :: "(sid \<Rightarrow> bool) \<Rightarrow> PubSubHub \<Rightarrow> bool" where
  "hub_ok A h \<longleftrightarrow> chan.consistent A h \<and> patt.consistent A h \<and> distinct (map fst (m_patterns h))"

lemma other_tables [simp]:
  "pattern_subs (subscribe c s h) = pattern_subs h" "pattern_names (subscribe c s h) = pattern_names h"
  "pattern_subs (unsubscribe A c s h) = pattern_subs h" "pattern_names (unsubscribe A c s h) = pattern_names h"
  "pattern_subs (unsubscribeAll A s h) = pattern_subs h" "pattern_names (unsubscribeAll A s h) = pattern_names h"
  "channel_subs (psubscribe c s h) = channel_subs h" "channel_names (psubscribe c s h) = channel_names h"
  "channel_subs (punsubscribe A c s h) = channel_subs h" "channel_names (punsubscribe A c s h) = channel_names h"
  "channel_subs (punsubscribeAll A s h) = channel_subs h" "channel_names (punsubscribeAll A s h) = channel_names h"
  by (auto simp: fun_eq_iff channel_subs_def channel_names_def pattern_subs_def pattern_names_def subscribe_def
      unsubscribe_def unsubscribeAll_def psubscribe_def punsubscribe_def punsubscribeAll_def Let_def split: option.split)

lemma consistent_others [simp]:
  "patt.consistent A (subscribe c s h) = patt.consistent A h"
  "patt.consistent A (unsubscribe B c s h) = patt.consistent A h"
  "patt.consistent A (unsubscribeAll B s h) = patt.consistent A h"
  "chan.consistent A (psubscribe c s h) = chan.consistent A h"
  "chan.consistent A (punsubscribe B c s h) = chan.consistent A h"
  "chan.consistent A (punsubscribeAll B s h) = chan.consistent A h"
  by (simp_all add: chan.consistent_def patt.consistent_def)

lemma distinct_removeFromPatternMap:
  "distinct (map fst (m_patterns h)) \<Longrightarrow> distinct (map fst (m_patterns (removeFromPatternMap A p s h)))"
  by (auto simp: removeFromPatternMap_def Let_def distinct_update distinct_delete split: option.split)

lemma distinct_removes:
  "distinct (map fst (m_patterns h)) \<Longrightarrow>
   distinct (map fst (m_patterns (foldl (\<lambda>h ch. removeFromPatternMap A ch s h) h cs)))"
  by (induction cs arbitrary: h) (simp_all add: distinct_removeFromPatternMap)

lemma distinct_patterns:
  assumes "distinct (map fst (m_patterns h))"
  shows "distinct (map fst (m_patterns (subscribe c s h)))" "distinct (map fst (m_patterns (unsubscribe A c s h)))"
    "distinct (map fst (m_patterns (unsubscribeAll A s h)))" "distinct (map fst (m_patterns (psubscribe c s h)))"
    "distinct (map fst (m_patterns (punsubscribe A c s h)))" "distinct (map fst (m_patterns (punsubscribeAll A s h)))"
  using assms
  by (auto simp: subscribe_def unsubscribe_def unsubscribeAll_def psubscribe_def punsubscribe_def punsubscribeAll_def
      Let_def distinct_update distinct_removeFromPatternMap distinct_removes split: option.split)

lemma hub_reachable_ok: "hub_reachable A h \<Longrightarrow> hub_ok A h"
proof (induction rule: hub_reachable.induct)
  case (1 A)
  then show ?case by (simp add: hub_ok_def new_hub_def chan.consistent_def patt.consistent_def hub_views)
next
  case (8 A h s)
  then show ?case
    by (auto simp: hub_ok_def elim!: chan.consistent_expire patt.consistent_expire split: if_splits)
qed (auto simp: hub_ok_def distinct_patterns
      intro: chan.consistent_sub chan.consistent_unsub chan.consistent_unsub_all
        patt.consistent_sub patt.consistent_unsub patt.consistent_unsub_all)

lemma channel_targets_set: "set (channel_targets A c h) = {s \<in> set (channel_subs h c). A s}"
  by (auto simp: channel_targets_def hub_views split: option.split)

lemma pattern_targets_set:
  assumes "distinct (map fst (m_patterns h))"
  shows "set (pattern_targets A c h) = {(p, s). matchPattern p c \<and> s \<in> set (pattern_subs h p) \<and> A s}"
proof -
  have "(p, ss) \<in> set (m_patterns h) \<longleftrightarrow> map_of (m_patterns h) p = Some ss" for p ss
    using assms by simp
  then show ?thesis by (force simp: pattern_targets_def pattern_subs_def umap_get_def split: if_splits option.splits)
qed

text \<open>C30: In every state of the hub, a published message is pushed to a session, if and only if the session still
  exists and has subscribed to the channel or to a pattern that matches it; a session that was removed receives
  nothing. The reply counts the pushes that wrote something, hence at most the pushes, and exactly the pushes
  when all sockets accept them.\<close>

theorem publish_correct:
  assumes "hub_reachable A h"
  shows "((\<exists>m. (s, m) \<in> set (fst (publish A sends c msg h))) \<longleftrightarrow>
      A s \<and> (c \<in> set (channel_names h s) \<or> (\<exists>p \<in> set (pattern_names h s). matchPattern p c))) \<and>
    (s, m) \<notin> set (fst (publish A sends c msg (removeSession A s h))) \<and>
    snd (publish A sends c msg h) \<le> int (length (fst (publish A sends c msg h))) \<and>
    snd (publish A (\<lambda>_ _. True) c msg h) = int (length (fst (publish A (\<lambda>_ _. True) c msg h)))"
proof -
  have ok: "chan.consistent A h" "patt.consistent A h" "distinct (map fst (m_patterns h))"
    using hub_reachable_ok[OF assms] by (simp_all add: hub_ok_def)
  have pushed: "(\<exists>m. (s, m) \<in> set (fst (publish A sends c msg g))) \<longleftrightarrow>
      s \<in> set (channel_targets A c g) \<or> (\<exists>p. (p, s) \<in> set (pattern_targets A c g))" for g
    by (force simp: publish_def Let_def)
  have "(\<exists>m. (s, m) \<in> set (fst (publish A sends c msg h))) \<longleftrightarrow>
      A s \<and> (c \<in> set (channel_names h s) \<or> (\<exists>p \<in> set (pattern_names h s). matchPattern p c))"
    unfolding pushed using ok
    by (auto simp: channel_targets_set pattern_targets_set chan.consistent_def patt.consistent_def)
  moreover have "s \<notin> set (channel_targets A c (removeSession A s h))"
    using chan.gone[OF ok(1), of s c] by (auto simp: channel_targets_set removeSession_def)
  moreover have "(p, s) \<notin> set (pattern_targets A c (removeSession A s h))" for p
    using patt.gone[of A "unsubscribeAll A s h" s p] ok
    by (auto simp: pattern_targets_set removeSession_def distinct_patterns)
  moreover have "snd (publish A sn c msg h) = int (length (filter (\<lambda>(s, m). sn s m) (fst (publish A sn c msg h))))" for sn
    unfolding publish_def Let_def by (simp only: fst_conv snd_conv)
  ultimately show ?thesis using pushed[of "removeSession A s h"] length_filter_le by (simp add: case_prod_unfold)
qed

definition hub_example :: PubSubHub where
  "hub_example = subscribe ''news'' 2 (psubscribe ''n*'' 1 (subscribe ''news'' 1 new_hub))"

lemma hub_example_reachable: "hub_reachable (\<lambda>_. True) hub_example"
  unfolding hub_example_def by (intro hub_reachable.intros)

theorem publish_correct_witness:
  "(\<exists>m. (1, m) \<in> set (fst (publish (\<lambda>_. True) (\<lambda>_ _. True) ''nx'' ''hi'' hub_example))) \<and>
   \<not> (\<exists>m. (2, m) \<in> set (fst (publish (\<lambda>_. True) (\<lambda>_ _. True) ''nx'' ''hi'' hub_example))) \<and>
   snd (publish (\<lambda>_. True) (\<lambda>_ _. True) ''news'' ''hi'' hub_example) =
     int (length (fst (publish (\<lambda>_. True) (\<lambda>_ _. True) ''news'' ''hi'' hub_example)))"
proof -
  have v: "channel_names hub_example 1 = [''news'']" "pattern_names hub_example 1 = [''n*'']"
    "channel_names hub_example 2 = [''news'']" "pattern_names hub_example 2 = []" "matchPattern ''n*'' ''nx''"
    by code_simp+
  show ?thesis
    using publish_correct[OF hub_example_reachable, of 1 "\<lambda>_ _. True" "''nx''" "''hi''"]
      publish_correct[OF hub_example_reachable, of 2 "\<lambda>_ _. True" "''nx''" "''hi''"]
      publish_correct[OF hub_example_reachable, of 2 "\<lambda>_ _. True" "''news''" "''hi''"] v by simp
qed

text \<open>A session that subscribes to a channel it has already subscribed to receives every message twice, although its
  number of subscriptions does not change.\<close>

lemma double_subscription:
  assumes "A s"
  shows "channel_targets A c (subscribe c s h) = channel_targets A c h @ [s]"
    and "c \<in> set (channel_names h s) \<Longrightarrow> subscriptionCount s (subscribe c s h) = subscriptionCount s h"
  using assms by (auto simp: channel_targets_def subscriptionCount_def subscribe_def hub_views uset_insert_def
      split: option.splits)

end
