(* ===== verification/Blocking.thy ===== *)
theory Blocking
  imports Lists PubSub
begin

text \<open>
  Sessions that wait for a list: \<open>zero/kv/blocking/blocking_list_hub.cc\<close>. The hub keeps the waiters in the order in
  which they came. A waiter is a local variable of the suspended command, which reads it again once it is woken; the
  waiter that an operation has served or cancelled is part of its result. The fiber and the scheduler of a waiter
  are not modelled. The k-th reading of the clock is \<open>clock k\<close>.
\<close>

record ListWaiter =
  w_session :: "sid option"
  w_db :: int
  w_keys :: "string list"
  pop_right :: bool
  deadline_ms :: int64
  w_done :: bool
  result_key :: string
  result_value :: string

subsection \<open>Operations\<close>

definition addWaiter :: "ListWaiter \<Rightarrow> ListWaiter list \<Rightarrow> ListWaiter list" where
  "addWaiter w hub = hub @ [w]"

text \<open>\<open>std::list::remove\<close> takes the one pointer to the waiter out of the list.\<close>

definition removeWaiter :: "ListWaiter \<Rightarrow> ListWaiter list \<Rightarrow> ListWaiter list" where
  "removeWaiter w hub = remove1 w hub"

definition cancelWaiters :: "(sid \<Rightarrow> bool) \<Rightarrow> sid \<Rightarrow> ListWaiter list \<Rightarrow> ListWaiter list \<times> ListWaiter list" where
  "cancelWaiters alive session hub =
     (let mine = (\<lambda>w. w_session w = Some session \<and> alive session)
      in (filter (\<lambda>w. \<not> mine w) hub, map (\<lambda>w. w\<lparr>w_done := True\<rparr>) (filter mine hub)))"

fun fulfill_loop :: "hasher \<Rightarrow> (nat \<Rightarrow> int64) \<Rightarrow> nat \<Rightarrow> int \<Rightarrow> bool \<Rightarrow> string list \<Rightarrow> KvStore \<Rightarrow>
    KvStore \<times> nat \<times> (string \<times> string) option" where
  "fulfill_loop h clock i db left [] st = (st, i, None)"
| "fulfill_loop h clock i db left (key # ks) st =
     (case listPop h db key left (clock i) st of
        (st1, Inr (Some v)) \<Rightarrow> (st1, i + 1, Some (key, v))
      | (st1, _) \<Rightarrow> fulfill_loop h clock (i + 1) db left ks st1)"

definition tryFulfill :: "hasher \<Rightarrow> (nat \<Rightarrow> int64) \<Rightarrow> nat \<Rightarrow> ListWaiter \<Rightarrow> KvStore \<Rightarrow> KvStore \<times> nat \<times> ListWaiter option" where
  "tryFulfill h clock i w st =
     (case fulfill_loop h clock i (w_db w) (\<not> pop_right w) (w_keys w) st of
        (st1, i1, None) \<Rightarrow> (st1, i1, None)
      | (st1, i1, Some (k, v)) \<Rightarrow> (st1, i1, Some (w\<lparr>result_key := k, result_value := v, w_done := True\<rparr>)))"

text \<open>The loop of \<open>onPush\<close>: the store, the waiters that remain and the one that was served.\<close>

fun onPush_loop :: "hasher \<Rightarrow> (nat \<Rightarrow> int64) \<Rightarrow> nat \<Rightarrow> int \<Rightarrow> string \<Rightarrow> ListWaiter list \<Rightarrow> KvStore \<Rightarrow>
    KvStore \<times> ListWaiter list \<times> ListWaiter option" where
  "onPush_loop h clock i db key [] st = (st, [], None)"
| "onPush_loop h clock i db key (w # ws) st =
     (if w_db w \<noteq> db \<or> key \<notin> set (w_keys w) then
        (case onPush_loop h clock i db key ws st of (st1, ws1, r) \<Rightarrow> (st1, w # ws1, r))
      else case tryFulfill h clock i w st of
        (st1, i1, Some w') \<Rightarrow> (st1, ws, Some w')
      | (st1, i1, None) \<Rightarrow> (case onPush_loop h clock i1 db key ws st1 of (st2, ws1, r) \<Rightarrow> (st2, w # ws1, r)))"

definition onPush :: "hasher \<Rightarrow> (nat \<Rightarrow> int64) \<Rightarrow> int \<Rightarrow> string \<Rightarrow> ListWaiter list \<Rightarrow> KvStore \<Rightarrow>
    KvStore \<times> ListWaiter list \<times> ListWaiter option" where
  "onPush h clock db key hub st = onPush_loop h clock 0 db key hub st"

subsection \<open>The invariant\<close>

lemma wf_fulfill_loop: "wf_store h st \<Longrightarrow> wf_store h (fst (fulfill_loop h clock i db left ks st))"
proof (induction h clock i db left ks st rule: fulfill_loop.induct)
  case (2 h clock i db left key ks st)
  have "wf_store h (fst (listPop h db key left (clock i) st))" using "2.prems" by (rule wf_rules)
  then show ?case using 2 by (auto split: prod.split sum.split option.split)
qed simp

lemma wf_tryFulfill: "wf_store h st \<Longrightarrow> wf_store h (fst (tryFulfill h clock i w st))"
  using wf_fulfill_loop[of h st clock i "w_db w" "\<not> pop_right w" "w_keys w"]
  by (auto simp: tryFulfill_def split: prod.split option.split)

lemma wf_onPush_loop: "wf_store h st \<Longrightarrow> wf_store h (fst (onPush_loop h clock i db key ws st))"
proof (induction h clock i db key ws st rule: onPush_loop.induct)
  case (2 h clock i db key w ws st)
  then show ?case using wf_tryFulfill[OF "2.prems", of clock i w] by (auto split: prod.split option.split)
qed simp

lemma wf_onPush [wf_rules]: "wf_store h st \<Longrightarrow> wf_store h (fst (onPush h clock db key hub st))"
  by (simp add: onPush_def wf_onPush_loop)

subsection \<open>The first waiter is served\<close>

lemma lview_list_ok: "wf_store h st \<Longrightarrow> lview h db key now st \<noteq> [] \<Longrightarrow> list_ok h db key now st"
  using wf_live[of h st now db key] by (auto simp: lview_def list_ok_def wf_entry_def split: option.splits)

lemma pop_miss:
  assumes "wf_store h st" "lview h db key now st = []"
  shows "\<nexists>v. snd (listPop h db key left now st) = Inr (Some v)"
    and "live h now (fst (listPop h db key left now st)) = live h now st"
  using assms wf_live[OF assms(1)] wf_shaped[OF assms(1)]
  by (auto simp: listPop_def lview_def wf_entry_def store_simps fun_eq_iff split: option.split if_splits)

definition first_list :: "hasher \<Rightarrow> int \<Rightarrow> int64 \<Rightarrow> KvStore \<Rightarrow> string list \<Rightarrow> string option" where
  "first_list h db now st ks = find (\<lambda>k. lview h db k now st \<noteq> []) ks"

lemma fulfill_loop_spec:
  assumes "wf_store h st"
  shows "case first_list h db now st ks of
      None \<Rightarrow> snd (snd (fulfill_loop h (\<lambda>_. now) i db left ks st)) = None \<and>
        live h now (fst (fulfill_loop h (\<lambda>_. now) i db left ks st)) = live h now st
    | Some k \<Rightarrow> \<exists>s. fst (fulfill_loop h (\<lambda>_. now) i db left ks st) = fst (listPop h db k left now s) \<and>
        live h now s = live h now st \<and> wf_store h s \<and>
        snd (snd (fulfill_loop h (\<lambda>_. now) i db left ks st)) =
          Some (k, if left then hd (lview h db k now st) else last (lview h db k now st))"
  using assms
proof (induction ks arbitrary: st i)
  case (Cons k ks)
  show ?case
  proof (cases "lview h db k now st = []")
    case True
    let ?s1 = "fst (listPop h db k left now st)"
    have s1: "live h now ?s1 = live h now st" "wf_store h ?s1"
      using pop_miss(2)[OF Cons.prems True] Cons.prems by (auto intro: wf_rules)
    have view: "lview h db m now ?s1 = lview h db m now st" for m by (simp add: lview_def s1(1))
    have step: "fulfill_loop h (\<lambda>_. now) i db left (k # ks) st = fulfill_loop h (\<lambda>_. now) (i + 1) db left ks ?s1"
      using pop_miss(1)[OF Cons.prems True, of left]
      by (cases "listPop h db k left now st") (auto split: sum.split option.split)
    have "first_list h db now st (k # ks) = first_list h db now ?s1 ks" using True by (simp add: first_list_def view)
    then show ?thesis unfolding step using Cons.IH[OF s1(2), of "i + 1", unfolded s1(1) view] by (simp only:)
  next
    case False
    then have ok: "list_ok h db k now st" by (rule lview_list_ok[OF Cons.prems])
    then show ?thesis using False Cons.prems list_results(2)[OF ok, of left]
      by (auto simp: first_list_def case_prod_unfold split: if_splits)
  qed
qed (simp add: first_list_def)

lemma fulfill_loop_hit:
  assumes "wf_store h st" "first_list h db now st ks = Some k" "r = fulfill_loop h (\<lambda>_. now) i db left ks st"
  shows "snd (snd r) = Some (k, if left then hd (lview h db k now st) else last (lview h db k now st))"
    and "lview h db k now (fst r) = (if left then tl (lview h db k now st) else butlast (lview h db k now st))"
    and "(db', k') \<noteq> (db, k) \<Longrightarrow> live h now (fst r) db' k' = live h now st db' k'"
proof -
  obtain s where s: "fst r = fst (listPop h db k left now s)" "live h now s = live h now st" "wf_store h s"
    and v: "snd (snd r) = Some (k, if left then hd (lview h db k now st) else last (lview h db k now st))"
    using fulfill_loop_spec[OF assms(1), where db = db and now = now and ks = ks and i = i and left = left] assms(2,3) by auto
  have view: "lview h db k now s = lview h db k now st" by (simp add: lview_def s(2))
  have "lview h db k now st \<noteq> []" using assms(2) by (auto simp: first_list_def find_Some_iff)
  then have ok: "list_ok h db k now s" using lview_list_ok[OF s(3), of db k now] by (simp add: view)
  show "snd (snd r) = Some (k, if left then hd (lview h db k now st) else last (lview h db k now st))" by (rule v)
  show "lview h db k now (fst r) = (if left then tl (lview h db k now st) else butlast (lview h db k now st))"
    using lview_pop[OF ok, of left] by (simp add: s(1) view)
  show "(db', k') \<noteq> (db, k) \<Longrightarrow> live h now (fst r) db' k' = live h now st db' k'"
    using listPop_live[OF ok, of left db' k'] by (auto simp: s(1,2))
qed

lemma onPush_skip:
  assumes "\<forall>w \<in> set ws1. w_db w \<noteq> db \<or> key \<notin> set (w_keys w)"
  shows "onPush_loop h clock i db key (ws1 @ ws2) st =
    (case onPush_loop h clock i db key ws2 st of (st1, ws', r) \<Rightarrow> (st1, ws1 @ ws', r))"
  using assms by (induction ws1) (auto split: prod.split)

text \<open>C34: When an element has been pushed to a list, the first waiter for it is served and no other, whatever else is
  waiting and however many elements there are: it takes the first element (the last one for \<open>BRPOP\<close>) of the first
  of its keys that holds a list; every other key keeps its value, and the other waiters remain in their order.\<close>

theorem onPush_serves_first:
  assumes "wf_store h st" "lview h db key now st \<noteq> []"
    and "\<forall>w \<in> set ws1. w_db w \<noteq> db \<or> key \<notin> set (w_keys w)" "w_db w = db" "key \<in> set (w_keys w)"
  shows "\<exists>st' k. first_list h db now st (w_keys w) = Some k \<and>
    onPush h (\<lambda>_. now) db key (ws1 @ w # ws2) st =
      (st', ws1 @ ws2, Some (w\<lparr>result_key := k, w_done := True, result_value :=
         (if pop_right w then last (lview h db k now st) else hd (lview h db k now st))\<rparr>)) \<and>
    lview h db k now st' = (if pop_right w then butlast (lview h db k now st) else tl (lview h db k now st)) \<and>
    (\<forall>db' k'. (db', k') \<noteq> (db, k) \<longrightarrow> live h now st' db' k' = live h now st db' k')"
proof -
  obtain k where k: "first_list h db now st (w_keys w) = Some k"
    using assms(2,5) by (cases "first_list h db now st (w_keys w)") (auto simp: first_list_def find_None_iff)
  obtain st' i' r where f: "fulfill_loop h (\<lambda>_. now) 0 db (\<not> pop_right w) (w_keys w) st = (st', i', r)"
    by (cases "fulfill_loop h (\<lambda>_. now) 0 db (\<not> pop_right w) (w_keys w) st") auto
  note hit = fulfill_loop_hit[OF assms(1) k f[symmetric]]
  have "onPush h (\<lambda>_. now) db key (ws1 @ w # ws2) st =
      (st', ws1 @ ws2, Some (w\<lparr>result_key := k, w_done := True, result_value :=
         (if pop_right w then last (lview h db k now st) else hd (lview h db k now st))\<rparr>))"
    using hit(1) f assms(4,5) by (simp add: onPush_def onPush_skip[OF assms(3)] tryFulfill_def)
  then show ?thesis using hit(2,3) k by auto
qed

definition wait_for :: "sid \<Rightarrow> string list \<Rightarrow> ListWaiter" where
  "wait_for s ks = \<lparr>w_session = Some s, w_db = 0, w_keys = ks, pop_right = False, deadline_ms = - 1, w_done = False,
     result_key = [], result_value = []\<rparr>"

theorem onPush_serves_first_witness:
  "fst (snd (onPush length (\<lambda>_. 7) 0 ''l'' [wait_for 1 [''x''], wait_for 2 [''x'', ''l''], wait_for 3 [''l'']] list_store)) =
     [wait_for 1 [''x''], wait_for 3 [''l'']] \<and>
   lview length 0 ''l'' 7 (fst (onPush length (\<lambda>_. 7) 0 ''l'' [wait_for 1 [''x''], wait_for 2 [''x'', ''l''], wait_for 3 [''l'']] list_store)) =
     [''b'', ''a'', ''c'']"
proof -
  have "first_list length 0 7 list_store [''x'', ''l''] = Some ''l''" by code_simp
  then show ?thesis
    using onPush_serves_first[of length list_store 0 "''l''" 7 "[wait_for 1 [''x'']]" "wait_for 2 [''x'', ''l'']" "[wait_for 3 [''l'']]"]
      list_store_ok by (auto simp: wait_for_def list_ok_def)
qed

end
