(* ===== verification/Replication.thy ===== *)
theory Replication
  imports Resp PubSub
begin

text \<open>
  The master side of replication: \<open>zero/kv/replication/replication.cc\<close>. Commands are encoded into a backlog of
  chunks, which a replica that comes back may continue from. A session is a number, as in the publish/subscribe hub.
  Opening and closing connections and scheduling the synchronisation of a replica are input and output and are not
  modelled.
\<close>

datatype Role = Master | Slave

record BacklogChunk =
  start_offset :: int64
  payload :: string

record ReplicationManager =
  m_role :: Role
  m_repl_id :: string
  m_offset :: int64
  m_backlog :: "BacklogChunk list"
  m_backlog_bytes :: int
  m_replicas :: "sid list"
  m_master_host :: string
  m_master_port :: int
  m_master_link_status :: int64
  m_master_repl_id :: string
  m_master_offset :: int64

definition kMaxBacklogBytes :: int where
  "kMaxBacklogBytes = 1024 * 1024"

definition new_replication :: "string \<Rightarrow> ReplicationManager" where
  "new_replication replid = \<lparr>m_role = Master, m_repl_id = replid, m_offset = 0, m_backlog = [], m_backlog_bytes = 0,
     m_replicas = [], m_master_host = [], m_master_port = 0, m_master_link_status = 0, m_master_repl_id = [],
     m_master_offset = - 1\<rparr>"

subsection \<open>Operations\<close>

definition setSlaveOf :: "string \<Rightarrow> int \<Rightarrow> ReplicationManager \<Rightarrow> ReplicationManager" where
  "setSlaveOf host port r =
     (if host = [] then r\<lparr>m_role := Master, m_master_host := [], m_master_port := 0, m_master_link_status := 0,
        m_master_repl_id := [], m_master_offset := - 1\<rparr>
      else r\<lparr>m_role := Slave, m_master_host := host, m_master_port := port, m_master_link_status := 0\<rparr>)"

definition promoteToMaster :: "ReplicationManager \<Rightarrow> ReplicationManager" where
  "promoteToMaster r = setSlaveOf [] 0 r"

definition registerReplica :: "sid \<Rightarrow> ReplicationManager \<Rightarrow> ReplicationManager" where
  "registerReplica s r = r\<lparr>m_replicas := m_replicas r @ [s]\<rparr>"

definition removeReplica :: "(sid \<Rightarrow> bool) \<Rightarrow> sid \<Rightarrow> ReplicationManager \<Rightarrow> ReplicationManager" where
  "removeReplica alive s r = r\<lparr>m_replicas := filter (\<lambda>t. alive t \<and> t \<noteq> s) (m_replicas r)\<rparr>"

definition connectedSlaves :: "(sid \<Rightarrow> bool) \<Rightarrow> ReplicationManager \<Rightarrow> int" where
  "connectedSlaves alive r = int (length (filter alive (m_replicas r)))"

fun trim_backlog :: "int \<Rightarrow> BacklogChunk list \<Rightarrow> int \<times> BacklogChunk list" where
  "trim_backlog bytes [] = (bytes, [])"
| "trim_backlog bytes (c # cs) =
     (if bytes > kMaxBacklogBytes then trim_backlog (bytes - int (length (payload c))) cs else (bytes, c # cs))"

definition appendBacklog :: "string \<Rightarrow> ReplicationManager \<Rightarrow> ReplicationManager" where
  "appendBacklog p r =
     (if p = [] then r
      else case trim_backlog (m_backlog_bytes r + int (length p))
                  (m_backlog r @ [\<lparr>start_offset = m_offset r + 1, payload = p\<rparr>]) of
        (bytes, cs) \<Rightarrow> r\<lparr>m_backlog := cs, m_backlog_bytes := bytes, m_offset := m_offset r + int (length p)\<rparr>)"

text \<open>The payloads pushed to the replicas that still exist.\<close>

definition fanoutToReplicas :: "(sid \<Rightarrow> bool) \<Rightarrow> string \<Rightarrow> ReplicationManager \<Rightarrow> (sid \<times> string) list" where
  "fanoutToReplicas alive encoded r = map (\<lambda>s. (s, encoded)) (filter alive (m_replicas r))"

definition propagateCommand :: "(sid \<Rightarrow> bool) \<Rightarrow> RespValue \<Rightarrow> ReplicationManager \<Rightarrow>
    ReplicationManager \<times> (sid \<times> string) list" where
  "propagateCommand alive command r =
     (if m_role r \<noteq> Master then (r, [])
      else let encoded = encode command; r' = appendBacklog encoded r in (r', fanoutToReplicas alive encoded r'))"

text \<open>The loop of \<open>tryCollectPartial\<close> over the chunks.\<close>

fun collect_from :: "int64 \<Rightarrow> BacklogChunk list \<Rightarrow> string option" where
  "collect_from want [] = None"
| "collect_from want (c # cs) =
     (if want > start_offset c + int (length (payload c)) - 1 then collect_from want cs
      else if want < start_offset c then None
      else Some (drop (nat (want - start_offset c)) (payload c) @ concat (map payload cs)))"

definition tryCollectPartial :: "string \<Rightarrow> int64 \<Rightarrow> ReplicationManager \<Rightarrow> string option" where
  "tryCollectPartial replid offset r =
     (if replid \<noteq> ''?'' \<and> replid \<noteq> m_repl_id r then None
      else if offset < 0 then None
      else case m_backlog r of
        [] \<Rightarrow> None
      | c # cs \<Rightarrow> if offset + 1 < start_offset c then None else collect_from (offset + 1) (c # cs))"

datatype PsyncKind = Full | Partial | PsyncError

text \<open>
  \<open>handlePsync\<close>, with the snapshot of the store as an argument, or \<open>None\<close> where it cannot be written. The answer
  \<open>ERR store unavailable\<close> to a call without a store is left out: the server never makes one.
\<close>

definition handlePsync :: "string \<Rightarrow> int64 \<Rightarrow> string option \<Rightarrow> ReplicationManager \<Rightarrow> PsyncKind \<times> RespValue \<times> string" where
  "handlePsync replid offset snapshot r =
     (if m_role r \<noteq> Master then (PsyncError, resp_err ''ERR PSYNC not allowed on replica'', [])
      else case tryCollectPartial replid offset r of
        Some out \<Rightarrow> (Partial, RespValue SimpleString ''CONTINUE'' 0 [] False, out)
      | None \<Rightarrow>
          (case snapshot of
             None \<Rightarrow> (PsyncError, resp_err ''ERR failed dumping RDB for replication'', [])
           | Some data \<Rightarrow>
               (Full, RespValue SimpleString (''FULLRESYNC '' @ m_repl_id r @ '' '' @ to_string (m_offset r)) 0 [] False, data)))"

subsection \<open>The backlog is the end of the stream of commands\<close>

text \<open>The states a master can reach, with the bytes of all commands it has propagated.\<close>

inductive repl_reachable :: "ReplicationManager \<Rightarrow> string \<Rightarrow> bool" where
  "repl_reachable (new_replication replid) []"
| "repl_reachable r hist \<Longrightarrow> m_role r = Master \<Longrightarrow>
     repl_reachable (fst (propagateCommand A cmd r)) (hist @ encode cmd)"
| "repl_reachable r hist \<Longrightarrow> m_role r \<noteq> Master \<Longrightarrow> repl_reachable (fst (propagateCommand A cmd r)) hist"
| "repl_reachable r hist \<Longrightarrow> repl_reachable (setSlaveOf host port r) hist"
| "repl_reachable r hist \<Longrightarrow> repl_reachable (registerReplica s r) hist"
| "repl_reachable r hist \<Longrightarrow> repl_reachable (removeReplica A s r) hist"

text \<open>Chunks that follow each other without gaps and end at an offset.\<close>

fun chunks_to :: "BacklogChunk list \<Rightarrow> int64 \<Rightarrow> bool" where
  "chunks_to [] off \<longleftrightarrow> True"
| "chunks_to (c # cs) off \<longleftrightarrow>
     payload c \<noteq> [] \<and> start_offset c = off + 1 - int (length (concat (map payload (c # cs)))) \<and> chunks_to cs off"

definition repl_ok :: "ReplicationManager \<Rightarrow> string \<Rightarrow> bool" where
  "repl_ok r hist \<longleftrightarrow>
     m_offset r = int (length hist) \<and> m_backlog_bytes r = int (length (concat (map payload (m_backlog r)))) \<and>
     m_backlog_bytes r \<le> kMaxBacklogBytes \<and> chunks_to (m_backlog r) (int (length hist)) \<and>
     (\<exists>old. hist = old @ concat (map payload (m_backlog r)))"

lemma chunks_snoc:
  "chunks_to cs off \<Longrightarrow> p \<noteq> [] \<Longrightarrow> chunks_to (cs @ [\<lparr>start_offset = off + 1, payload = p\<rparr>]) (off + int (length p))"
  by (induction cs) auto

lemma trim_backlog_props:
  assumes "bytes = int (length (concat (map payload cs)))" "chunks_to cs off" "trim_backlog bytes cs = (b, cs')"
  shows "b = int (length (concat (map payload cs')))" "b \<le> kMaxBacklogBytes" "chunks_to cs' off"
    "\<exists>old. concat (map payload cs) = old @ concat (map payload cs')"
proof -
  have "b = int (length (concat (map payload cs'))) \<and> b \<le> kMaxBacklogBytes \<and> chunks_to cs' off \<and>
      (\<exists>old. concat (map payload cs) = old @ concat (map payload cs'))"
    using assms
  proof (induction bytes cs rule: trim_backlog.induct)
    case (2 bytes c cs)
    show ?case
    proof (cases "bytes > kMaxBacklogBytes")
      case True
      have "bytes - int (length (payload c)) = int (length (concat (map payload cs)))" "chunks_to cs off"
        "trim_backlog (bytes - int (length (payload c))) cs = (b, cs')" using "2.prems" True by simp_all
      from "2.IH"[OF True this] obtain old where
        "b = int (length (concat (map payload cs')))" "b \<le> kMaxBacklogBytes" "chunks_to cs' off"
        "concat (map payload cs) = old @ concat (map payload cs')" by blast
      then show ?thesis by (intro conjI exI[of _ "payload c @ old"]) simp_all
    next
      case False
      then show ?thesis using "2.prems" by (intro conjI exI[of _ "[]"]) auto
    qed
  qed (auto simp: kMaxBacklogBytes_def)
  then show "b = int (length (concat (map payload cs')))" "b \<le> kMaxBacklogBytes" "chunks_to cs' off"
    "\<exists>old. concat (map payload cs) = old @ concat (map payload cs')" by blast+
qed

lemma repl_ok_append:
  assumes "repl_ok r hist"
  shows "repl_ok (appendBacklog p r) (hist @ p)"
proof (cases "p = []")
  case False
  let ?cs = "m_backlog r @ [\<lparr>start_offset = m_offset r + 1, payload = p\<rparr>]"
  obtain b cs' where t: "trim_backlog (m_backlog_bytes r + int (length p)) ?cs = (b, cs')" by (rule prod.exhaust)
  have off: "m_offset r = int (length hist)" "chunks_to (m_backlog r) (int (length hist))"
    "m_backlog_bytes r + int (length p) = int (length (concat (map payload ?cs)))"
    using assms unfolding repl_ok_def by (auto simp del: map_append) (simp add: repl_ok_def)
  have "chunks_to ?cs (m_offset r + int (length p))" unfolding off(1) using off(2) False by (rule chunks_snoc)
  with off(3) have tr: "b = int (length (concat (map payload cs')))" "b \<le> kMaxBacklogBytes"
    "chunks_to cs' (m_offset r + int (length p))" "\<exists>old. concat (map payload ?cs) = old @ concat (map payload cs')"
    using trim_backlog_props[OF _ _ t] by auto
  obtain old old2 where "hist = old @ concat (map payload (m_backlog r))"
    "concat (map payload (m_backlog r)) @ p = old2 @ concat (map payload cs')"
    using assms tr(4) by (auto simp: repl_ok_def)
  then have "hist @ p = (old @ old2) @ concat (map payload cs')" by simp
  then have "\<exists>old. hist @ p = old @ concat (map payload cs')" by blast
  then show ?thesis using tr(1-3) False t off(1) by (simp add: repl_ok_def appendBacklog_def)
qed (simp add: appendBacklog_def assms)

lemma repl_reachable_ok: "repl_reachable r hist \<Longrightarrow> repl_ok r hist"
  by (induction rule: repl_reachable.induct)
    (auto simp: propagateCommand_def Let_def repl_ok_append, auto simp: repl_ok_def new_replication_def setSlaveOf_def
      registerReplica_def removeReplica_def kMaxBacklogBytes_def)

lemma collect_from_spec:
  assumes "chunks_to cs off" "cs \<noteq> []" "want \<ge> start_offset (hd cs)"
  shows "collect_from want cs =
    (if want \<le> off then Some (drop (nat (want - start_offset (hd cs))) (concat (map payload cs))) else None)"
  using assms
proof (induction cs)
  case (Cons c cs)
  let ?n = "start_offset c + int (length (payload c))"
  show ?case
  proof (cases "want > ?n - 1")
    case True
    show ?thesis
    proof (cases cs)
      case Nil
      then show ?thesis using Cons.prems True by auto
    next
      case (Cons d ds)
      then have d: "start_offset d = ?n" using Cons.prems(1) by simp
      have "nat (want - start_offset c) - length (payload c) = nat (want - start_offset d)"
        "length (payload c) \<le> nat (want - start_offset c)" using True d by linarith+
      then show ?thesis using Cons.IH Cons.prems(1) True Cons d by (simp add: drop_all)
    qed
  next
    case False
    then have "nat (want - start_offset c) - length (payload c) = 0" using Cons.prems by simp
    moreover have "want \<le> off" using False Cons.prems(1) by (simp add: algebra_simps)
    ultimately show ?thesis using False Cons.prems by simp
  qed
qed simp

text \<open>C33: For a master in any reachable state, a replica that names the right history and an offset is given exactly
  the bytes of the commands propagated after that offset, if they are still in the backlog and there are some; the
  backlog never holds more than its limit, and it is always the end of the stream. A replica that has missed
  nothing is not continued.\<close>

theorem psync_continues:
  assumes "repl_reachable r hist"
  shows "tryCollectPartial replid offset r =
      (if (replid = ''?'' \<or> replid = m_repl_id r) \<and> 0 \<le> offset \<and> int (length hist) - m_backlog_bytes r \<le> offset \<and>
          offset < int (length hist)
       then Some (drop (nat offset) hist) else None) \<and>
    m_offset r = int (length hist) \<and> m_backlog_bytes r \<le> kMaxBacklogBytes \<and>
    concat (map payload (m_backlog r)) = drop (nat (int (length hist) - m_backlog_bytes r)) hist"
proof -
  note ok = repl_reachable_ok[OF assms]
  then obtain old where h: "hist = old @ concat (map payload (m_backlog r))" by (auto simp: repl_ok_def)
  have b: "m_backlog_bytes r = int (length (concat (map payload (m_backlog r))))" "m_offset r = int (length hist)"
    "chunks_to (m_backlog r) (int (length hist))" using ok unfolding repl_ok_def by blast+
  have old: "int (length hist) - m_backlog_bytes r = int (length old)" using arg_cong[OF h, of length] b(1) by simp
  have partial: "tryCollectPartial replid offset r =
      (if (replid = ''?'' \<or> replid = m_repl_id r) \<and> 0 \<le> offset \<and> int (length old) \<le> offset \<and>
          offset < int (length hist) then Some (drop (nat offset) hist) else None)"
  proof (cases "m_backlog r")
    case Nil
    then show ?thesis using h by (auto simp: tryCollectPartial_def)
  next
    case (Cons c cs)
    have c: "start_offset c = int (length old) + 1" using b(3) arg_cong[OF h, of length] by (simp add: Cons)
    have "drop (nat offset) hist = drop (nat (offset + 1 - start_offset c)) (concat (map payload (c # cs)))"
      if "int (length old) \<le> offset"
    proof -
      have "nat offset = length old + nat (offset + 1 - start_offset c)" using that c by simp
      then show ?thesis using h by (simp add: Cons)
    qed
    then show ?thesis using collect_from_spec[OF b(3), of "offset + 1"] c
      by (auto simp: tryCollectPartial_def Cons)
  qed
  have "concat (map payload (m_backlog r)) = drop (nat (int (length hist) - m_backlog_bytes r)) hist"
    unfolding old using h by simp
  then show ?thesis using partial ok unfolding old by (simp add: repl_ok_def)
qed

definition repl_example :: ReplicationManager where
  "repl_example = fst (propagateCommand (\<lambda>_. True) (bulk ''b'') (fst (propagateCommand (\<lambda>_. True) (bulk ''a'') (new_replication ''id''))))"

theorem psync_continues_witness:
  "tryCollectPartial ''id'' 7 repl_example = Some (encode (bulk ''b'')) \<and> tryCollectPartial ''id'' 14 repl_example = None \<and>
   m_offset repl_example = 14"
proof -
  have "repl_reachable (fst (propagateCommand (\<lambda>_. True) (bulk ''a'') (new_replication ''id''))) ([] @ encode (bulk ''a''))"
    by (intro repl_reachable.intros) (simp add: new_replication_def)
  moreover have "m_role (fst (propagateCommand (\<lambda>_. True) (bulk ''a'') (new_replication ''id''))) = Master" by code_simp
  ultimately have r: "repl_reachable repl_example (([] @ encode (bulk ''a'')) @ encode (bulk ''b''))"
    unfolding repl_example_def by (rule repl_reachable.intros)
  have v: "length (encode (bulk ''a'')) = 7" "length (encode (bulk ''b'')) = 7" "m_repl_id repl_example = ''id''"
    "m_backlog_bytes repl_example = 14" by code_simp+
  show ?thesis using psync_continues[OF r, of "''id''" 7] psync_continues[OF r, of "''id''" 14] v by simp
qed

end
