(* ===== verification/Session.thy ===== *)
theory Session
  imports CmdColl SlowLog Blocking Replication Rdb
begin

text \<open>
  Sessions and the state of the process around the store: \<open>zero/kv/kv_context.h\<close>, \<open>zero/kv/kv_config.cc\<close>, the log of
  commands (\<open>zero/kv/persistence/aof.cc\<close>), and the handlers of the commands that use more than the store
  (\<open>zero/kv/command_dispatch.cc\<close>, \<open>zero/kv/commands_p0p1.cc\<close>, \<open>zero/kv/info.cc\<close>).
\<close>

subsection \<open>State\<close>

datatype AofFsyncPolicy = Always | EverySec | No

text \<open>The bytes of the log file are part of the log; writing to it is taken to succeed.\<close>

record AofLog =
  m_enabled :: bool
  m_fsync :: AofFsyncPolicy
  aof_data :: string

record WatchEntry =
  we_db :: int
  we_key :: string
  we_token :: uint64

text \<open>\<open>KvContext\<close>: \<open>ctx_session\<close> is the session the weak pointer leads to, \<open>ctx_pubsub\<close> whether the hub is set.\<close>

record KvContext =
  ctx_db :: int
  ctx_quit :: bool
  authenticated :: bool
  pubsub_mode :: bool
  multi_mode :: bool
  repl_apply :: bool
  replica_connection :: bool
  client_id :: int64
  client_name :: string
  client_addr :: string
  multi_queue :: "RespValue list"
  ctx_watched :: "WatchEntry list"
  ctx_pubsub :: bool
  ctx_session :: "sid option"

definition new_context :: KvContext where
  "new_context = \<lparr>ctx_db = 0, ctx_quit = False, authenticated = False, pubsub_mode = False, multi_mode = False,
     repl_apply = False, replica_connection = False, client_id = 0, client_name = [], client_addr = [],
     multi_queue = [], ctx_watched = [], ctx_pubsub = False, ctx_session = None\<rparr>"

text \<open>What the other parts do with a session: its methods \<open>appendResponse\<close>, \<open>pushPubSubMessage\<close> and
  \<open>pushReplicationPayload\<close>.\<close>

datatype SessionOutput =
    AppendResponse RespValue
  | PushPubSubMessage RespValue
  | PushReplicationPayload string

text \<open>
  The objects of the process: the store, the slow log, the hubs, the password, the log of commands and the
  replication manager (where there are any), and the script engine's setting, cache and kill flag. \<open>wd_output\<close>
  records what was given to sessions beside the replies to their own commands, in its order,
  \<open>wd_woken\<close> the waiters that were served and scheduled, \<open>wd_file\<close> the snapshot files written, with their paths,
  and \<open>wd_stopped\<close> whether the server was told to stop.
\<close>

record World =
  wd_store :: KvStore
  wd_slowlog :: Slowlog
  wd_hub :: PubSubHub
  wd_waiters :: "ListWaiter list"
  wd_pass :: string
  wd_aof :: "AofLog option"
  wd_repl :: "ReplicationManager option"
  wd_lua_atomic :: bool
  wd_scripts :: "(string, string) umap"
  wd_kill :: bool
  wd_output :: "(sid \<times> SessionOutput) list"
  wd_woken :: "ListWaiter list"
  wd_file :: "(string \<times> string) list"
  wd_stopped :: bool

text \<open>
  Lua, as the engine sees it: values, and what a script does between its calls of \<open>redis.call\<close> and \<open>redis.pcall\<close>.
  A call that returns goes on with the first continuation; an error it raises goes on with the second one, since a
  script may catch it. The interpreter stops every script (a counted hook ends endless loops), so a run is a
  well-founded tree.
\<close>

datatype LuaValue =
    LuaNil
  | LuaBool bool
  | LuaNumber double
  | LuaString string
  | LuaTable "(LuaValue \<times> LuaValue) list"
  | LuaOther

datatype LuaRun =
    LuaReturn LuaValue
  | LuaError string
  | LuaCall bool "LuaValue list" "LuaValue \<Rightarrow> LuaRun" "string \<Rightarrow> LuaRun"

text \<open>
  What comes from outside: \<open>std::hash\<close>; for every command the readings of the clock and the random choices while it
  runs and the clock around it; which sessions still exist and whether a push to one writes something; the time of
  day and the list of clients; whether a scheduler runs, and what happens while a command waits (the world when it
  resumes and the served waiter, or \<open>None\<close> at the deadline); whether writing a file fails; whether the background
  jobs accept work; whether a shutdown function is bound; what entering an entry of no type does; the script
  interpreter, its way of printing numbers, and \<open>SHA1\<close>. A command is named by its place: the command of the
  client is \<open>[]\<close>, the i-th command that the command \<open>k\<close> runs in turn is \<open>k @ [i]\<close>.
\<close>

type_synonym place = "nat list"

record Outside =
  o_hash :: hasher
  o_clock :: "place \<Rightarrow> nat \<Rightarrow> int64"
  o_rng :: "place \<Rightarrow> nat \<Rightarrow> nat \<Rightarrow> nat"
  o_begin :: "place \<Rightarrow> int64"
  o_end :: "place \<Rightarrow> int64"
  o_now :: "place \<Rightarrow> int64"
  o_alive :: "sid \<Rightarrow> bool"
  o_sends :: "sid \<Rightarrow> RespValue \<Rightarrow> bool"
  o_timeval :: "int \<times> int"
  o_clients :: "(int64 \<times> string \<times> string) list option"
  o_sched :: bool
  o_wait :: "ListWaiter \<Rightarrow> World \<Rightarrow> World \<times> ListWaiter option"
  o_write_fails :: "string \<Rightarrow> string option"
  o_bgsave :: bool
  o_bgrewrite :: bool
  o_shutdown :: bool
  o_untyped :: "int \<Rightarrow> string \<Rightarrow> KvStore \<Rightarrow> KvStore"
  o_lua :: "string \<Rightarrow> string list \<Rightarrow> string list \<Rightarrow> LuaRun"
  o_lua_number :: "double \<Rightarrow> string"
  o_sha1 :: "string \<Rightarrow> string"

type_synonym handler = "Outside \<Rightarrow> place \<Rightarrow> KvContext \<Rightarrow> request \<Rightarrow> World \<Rightarrow> KvContext \<times> World \<times> RespValue"

definition env :: "Outside \<Rightarrow> place \<Rightarrow> Env" where
  "env out k = \<lparr>e_hash = o_hash out, e_clock = o_clock out k, e_rng = o_rng out k\<rparr>"

definition on_store :: "store_cmd \<Rightarrow> handler" where
  "on_store c out k ctx req w =
     (case c (env out k) (ctx_db ctx) req (wd_store w) of (st, r) \<Rightarrow> (ctx, w\<lparr>wd_store := st\<rparr>, r))"

subsection \<open>Configuration and names of commands\<close>

definition isAuthRequired :: "World \<Rightarrow> bool" where
  "isAuthRequired w \<longleftrightarrow> wd_pass w \<noteq> []"

definition isCommandAuthExempt :: "string \<Rightarrow> bool" where
  "isCommandAuthExempt name \<longleftrightarrow> name = ''AUTH'' \<or> name = ''PING''"

definition isPubsubAllowedCommand :: "string \<Rightarrow> bool" where
  "isPubsubAllowedCommand name \<longleftrightarrow>
     name = ''SUBSCRIBE'' \<or> name = ''UNSUBSCRIBE'' \<or> name = ''PSUBSCRIBE'' \<or> name = ''PUNSUBSCRIBE'' \<or>
     name = ''PING'' \<or> name = ''QUIT''"

definition isSlaveWriteAllowed :: "string \<Rightarrow> bool" where
  "isSlaveWriteAllowed name \<longleftrightarrow>
     name \<in> set [''AUTH'', ''PING'', ''INFO'', ''ROLE'', ''SLAVEOF'', ''REPLICAOF'', ''QUIT'', ''CONFIG'', ''CLIENT'']"

definition kMutating :: "string list" where
  "kMutating =
     [''SET'', ''SETEX'', ''SETNX'', ''GETSET'', ''GETDEL'', ''GETEX'', ''DEL'', ''EXPIRE'', ''PEXPIRE'', ''EXPIREAT'',
      ''PEXPIREAT'', ''PERSIST'', ''MSET'', ''MSETNX'', ''INCR'', ''DECR'', ''INCRBY'', ''DECRBY'', ''INCRBYFLOAT'',
      ''HSET'', ''HDEL'', ''HMSET'', ''HSETNX'', ''HINCRBY'', ''LPUSH'', ''RPUSH'', ''LPOP'', ''RPOP'', ''LTRIM'',
      ''LSET'', ''LREM'', ''RPOPLPUSH'', ''LINSERT'', ''SADD'', ''SREM'', ''SPOP'', ''SINTERSTORE'', ''SUNIONSTORE'',
      ''SDIFFSTORE'', ''ZADD'', ''ZREM'', ''ZINCRBY'', ''ZPOPMIN'', ''ZPOPMAX'', ''APPEND'', ''XADD'', ''XDEL'',
      ''XGROUP'', ''XACK'', ''XTRIM'', ''XCLAIM'', ''RESTORE'', ''RENAME'', ''RENAMENX'', ''FLUSHDB'', ''FLUSHALL'',
      ''SELECT'']"

definition isMutatingCommand :: "string \<Rightarrow> bool" where
  "isMutatingCommand name \<longleftrightarrow> name \<in> set kMutating"

definition isSlave :: "World \<Rightarrow> bool" where
  "isSlave w \<longleftrightarrow> (case wd_repl w of None \<Rightarrow> False | Some r \<Rightarrow> m_role r = Slave)"

definition cmdNameFromRequest :: "RespValue \<Rightarrow> string" where
  "cmdNameFromRequest request =
     (if rtype request \<noteq> Array \<or> rarray request = [] then []
      else let cmd = hd (rarray request) in
        if rtype cmd \<noteq> BulkString \<or> is_null cmd then [] else upperArg (rstr cmd))"

subsection \<open>The log and the replicas\<close>

definition aof_append :: "RespValue \<Rightarrow> AofLog \<Rightarrow> AofLog" where
  "aof_append command a = (if \<not> m_enabled a then a else a\<lparr>aof_data := aof_data a @ encode command\<rparr>)"

definition log_command :: "RespValue \<Rightarrow> World \<Rightarrow> World" where
  "log_command cmd w = w\<lparr>wd_aof := map_option (aof_append cmd) (wd_aof w)\<rparr>"

definition propagate :: "Outside \<Rightarrow> RespValue \<Rightarrow> World \<Rightarrow> World" where
  "propagate out cmd w =
     (case wd_repl w of
        None \<Rightarrow> w
      | Some r \<Rightarrow> (case propagateCommand (o_alive out) cmd r of
                    (r', sent) \<Rightarrow> w\<lparr>wd_repl := Some r', wd_output := wd_output w @ map (map_prod id PushReplicationPayload) sent\<rparr>))"

subsection \<open>Handlers of the connection\<close>

definition cmd_ping :: handler where
  "cmd_ping out k ctx req w =
     (ctx, w, if length req \<ge> 2 \<and> \<not> is_null (req ! 1) then bulk (arg req 1) else pong)"

definition cmd_echo :: handler where
  "cmd_echo out k ctx req w =
     (ctx, w, if length req < 2 \<or> is_null (req ! 1) then bad_args ''echo'' else bulk (arg req 1))"

definition cmd_select :: handler where
  "cmd_select out k ctx req w =
     (if length req \<noteq> 2 then (ctx, w, bad_args ''select'')
      else case parseDbIndex (req ! 1) of
        None \<Rightarrow> (ctx, w, resp_err ''ERR invalid DB index'')
      | Some db \<Rightarrow> (ctx\<lparr>ctx_db := db\<rparr>, w, resp_ok))"

definition cmd_auth :: handler where
  "cmd_auth out k ctx req w =
     (if length req \<noteq> 2 \<or> is_null (req ! 1) then (ctx, w, bad_args ''auth'')
      else if \<not> isAuthRequired w \<or> arg req 1 = wd_pass w then (ctx\<lparr>authenticated := True\<rparr>, w, resp_ok)
      else (ctx, w, resp_err ''ERR invalid password''))"

definition cmd_quit :: handler where
  "cmd_quit out k ctx req w = (ctx\<lparr>ctx_quit := True\<rparr>, w, resp_ok)"

definition client_line :: "int \<Rightarrow> int64 \<times> string \<times> string \<Rightarrow> string" where
  "client_line db c =
     (case c of (i, name, addr) \<Rightarrow>
        ''id='' @ to_string i @ '' addr='' @ addr @ '' name='' @ name @ '' db='' @ to_string db @ [CHR 0x0A])"

definition cmd_client :: handler where
  "cmd_client out k ctx req w =
     (if length req < 2 \<or> is_null (req ! 1) then (ctx, w, bad_args ''client'')
      else let sub = upperArg (arg req 1) in
        if sub = ''ID'' then (ctx, w, resp_integer (client_id ctx))
        else if sub = ''SETNAME'' then
          (if length req \<noteq> 3 \<or> is_null (req ! 2) then (ctx, w, bad_args ''client setname'')
           else (ctx\<lparr>client_name := arg req 2\<rparr>, w, resp_ok))
        else if sub = ''LIST'' then
          (ctx, w, bulk (case o_clients out of None \<Rightarrow> [] | Some cs \<Rightarrow> concat (map (client_line (ctx_db ctx)) cs)))
        else if sub = ''GETNAME'' then (ctx, w, bulk (client_name ctx))
        else if sub = ''KILL'' then (ctx, w, resp_integer 0)
        else (ctx, w, resp_err ''ERR unknown CLIENT subcommand''))"

definition cmd_lastsave :: handler where
  "cmd_lastsave out k ctx req w =
     (ctx, w, if length req \<noteq> 1 then bad_args ''lastsave'' else resp_integer (m_lastSaveSec (wd_store w)))"

definition cmd_time :: handler where
  "cmd_time out k ctx req w =
     (ctx, w, if length req \<noteq> 1 then bad_args ''time''
              else case o_timeval out of (s, us) \<Rightarrow> bulks [to_string s, to_string us])"

subsection \<open>Transactions\<close>

definition clearWatch :: "KvContext \<Rightarrow> KvContext" where
  "clearWatch ctx = ctx\<lparr>ctx_watched := []\<rparr>"

fun watchConflict :: "hasher \<Rightarrow> WatchEntry list \<Rightarrow> KvStore \<Rightarrow> KvStore \<times> bool" where
  "watchConflict h [] st = (st, False)"
| "watchConflict h (e # es) st =
     (case watchToken h (we_db e) (we_key e) st of
        (st1, t) \<Rightarrow> if t \<noteq> we_token e then (st1, True) else watchConflict h es st1)"

text \<open>The loop of \<open>WATCH\<close>: a null key ends it with an error, with the keys before it watched.\<close>

fun watch_loop :: "hasher \<Rightarrow> request \<Rightarrow> KvContext \<Rightarrow> KvStore \<Rightarrow> KvContext \<times> KvStore \<times> RespValue" where
  "watch_loop h [] ctx st = (ctx, st, resp_ok)"
| "watch_loop h (v # r) ctx st =
     (if is_null v then (ctx, st, syntax_error)
      else case watchToken h (ctx_db ctx) (rstr v) st of
        (st1, t) \<Rightarrow>
          watch_loop h r
            (if \<exists>e \<in> set (ctx_watched ctx). we_db e = ctx_db ctx \<and> we_key e = rstr v then ctx
             else ctx\<lparr>ctx_watched := ctx_watched ctx @ [\<lparr>we_db = ctx_db ctx, we_key = rstr v, we_token = t\<rparr>]\<rparr>) st1)"

definition cmd_watch :: handler where
  "cmd_watch out k ctx req w =
     (if length req < 2 then (ctx, w, bad_args ''watch'')
      else case watch_loop (o_hash out) (drop 1 req) ctx (wd_store w) of
        (ctx', st, r) \<Rightarrow> (ctx', w\<lparr>wd_store := st\<rparr>, r))"

definition cmd_unwatch :: handler where
  "cmd_unwatch out k ctx req w =
     (if length req \<noteq> 1 then (ctx, w, bad_args ''unwatch'') else (clearWatch ctx, w, resp_ok))"

definition kNested :: RespValue where
  "kNested = resp_err ''ERR MULTI calls can not be nested''"

definition cmd_multi :: handler where
  "cmd_multi out k ctx req w =
     (if length req \<noteq> 1 then (ctx, w, bad_args ''multi'')
      else if multi_mode ctx then (ctx, w, kNested)
      else (ctx\<lparr>multi_mode := True, multi_queue := []\<rparr>, w, resp_ok))"

definition leave_multi :: "KvContext \<Rightarrow> KvContext" where
  "leave_multi ctx = clearWatch (ctx\<lparr>multi_mode := False, multi_queue := []\<rparr>)"

definition cmd_discard :: handler where
  "cmd_discard out k ctx req w =
     (if length req \<noteq> 1 then (ctx, w, bad_args ''discard'')
      else if \<not> multi_mode ctx then (ctx, w, resp_err ''ERR DISCARD without MULTI'')
      else (leave_multi ctx, w, resp_ok))"

subsection \<open>Lists with waiters\<close>

definition notifyListPush :: "Outside \<Rightarrow> (nat \<Rightarrow> int64) \<Rightarrow> int \<Rightarrow> string \<Rightarrow> World \<Rightarrow> World" where
  "notifyListPush out clock db key w =
     (case onPush (o_hash out) clock db key (wd_waiters w) (wd_store w) of
        (st, ws, served) \<Rightarrow>
          w\<lparr>wd_store := st, wd_waiters := ws,
            wd_woken := wd_woken w @ (case served of None \<Rightarrow> [] | Some x \<Rightarrow> [x])\<rparr>)"

definition push_cmd :: "string \<Rightarrow> bool \<Rightarrow> handler" where
  "push_cmd cmd left out k ctx req w =
     (if length req < 3 \<or> is_null (req ! 1) then (ctx, w, bad_args cmd)
      else case collect_args (drop 2 req) of
        None \<Rightarrow> (ctx, w, syntax_error)
      | Some vs \<Rightarrow>
          (case listPush (o_hash out) (ctx_db ctx) (arg req 1) vs left (o_clock out k 0) (wd_store w) of
             (st, Inl err) \<Rightarrow> (ctx, w\<lparr>wd_store := st\<rparr>, resp_err err)
           | (st, Inr n) \<Rightarrow>
               (ctx, notifyListPush out (\<lambda>i. o_clock out k (i + 1)) (ctx_db ctx) (arg req 1) (w\<lparr>wd_store := st\<rparr>),
                resp_integer n)))"

definition cmd_lpush :: handler where "cmd_lpush = push_cmd ''lpush'' True"
definition cmd_rpush :: handler where "cmd_rpush = push_cmd ''rpush'' False"

text \<open>\<open>(int64_t)(timeout * 1000.0)\<close>, for a finite result.\<close>

definition timeout_millis :: "double \<Rightarrow> int64" where
  "timeout_millis t = dunits (pack False (round_mag (dunits t * 1000) 1)) div kUnit"

text \<open>The first round over the keys: an error of the store ends it.\<close>

fun pop_first :: "hasher \<Rightarrow> (nat \<Rightarrow> int64) \<Rightarrow> nat \<Rightarrow> int \<Rightarrow> bool \<Rightarrow> string list \<Rightarrow> KvStore \<Rightarrow>
    KvStore \<times> nat \<times> (string + (string \<times> string) option)" where
  "pop_first h clock i db left [] st = (st, i, Inr None)"
| "pop_first h clock i db left (key # ks) st =
     (case listPop h db key left (clock i) st of
        (st1, Inl err) \<Rightarrow> (st1, i + 1, Inl err)
      | (st1, Inr (Some v)) \<Rightarrow> (st1, i + 1, Inr (Some (key, v)))
      | (st1, Inr None) \<Rightarrow> pop_first h clock (i + 1) db left ks st1)"

definition new_waiter :: "KvContext \<Rightarrow> string list \<Rightarrow> bool \<Rightarrow> int64 \<Rightarrow> ListWaiter" where
  "new_waiter ctx ks right deadline =
     \<lparr>w_session = ctx_session ctx, w_db = ctx_db ctx, w_keys = ks, pop_right = right,
       deadline_ms = deadline, w_done = False, result_key = [], result_value = []\<rparr>"

text \<open>The waiter is entered, others run, and it is taken out again when the command resumes.\<close>

definition wait_in_hub :: "Outside \<Rightarrow> ListWaiter \<Rightarrow> World \<Rightarrow> World \<times> ListWaiter option" where
  "wait_in_hub out x w =
     (case o_wait out x (w\<lparr>wd_waiters := addWaiter x (wd_waiters w)\<rparr>) of
        (w', r) \<Rightarrow> (w'\<lparr>wd_waiters := removeWaiter x (wd_waiters w')\<rparr>, r))"

definition kTimeoutRange :: string where
  "kTimeoutRange = ''ERR timeout is not a float or out of range''"

definition tryBlockingPop :: "bool \<Rightarrow> handler" where
  "tryBlockingPop right out k ctx req w =
     (if length req < 3 then (ctx, w, bad_args (if right then ''brpop'' else ''blpop''))
      else case collect_args (butlast (drop 1 req)) of
        None \<Rightarrow> (ctx, w, syntax_error)
      | Some ks \<Rightarrow>
          if is_null (last req) then (ctx, w, syntax_error)
          else (case parseDoubleArg (last req) of
                  None \<Rightarrow> (ctx, w, resp_err kTimeoutRange)
                | Some timeout \<Rightarrow>
                    if dlt timeout 0 then (ctx, w, resp_err kTimeoutRange)
                    else (case pop_first (o_hash out) (o_clock out k) 0 (ctx_db ctx) (\<not> right) ks (wd_store w) of
                            (st, i, Inl err) \<Rightarrow> (ctx, w\<lparr>wd_store := st\<rparr>, resp_err err)
                          | (st, i, Inr (Some (key, v))) \<Rightarrow> (ctx, w\<lparr>wd_store := st\<rparr>, bulks [key, v])
                          | (st, i, Inr None) \<Rightarrow>
                              (let w1 = w\<lparr>wd_store := st\<rparr> in
                               if deq timeout 0 \<or> \<not> o_sched out then (ctx, w1, nullBulk)
                               else let deadline = (if dlt 0 timeout then i64 (o_clock out k i + timeout_millis timeout) else - 1)
                                    in case wait_in_hub out (new_waiter ctx ks right deadline) w1 of
                                      (w2, None) \<Rightarrow> (ctx, w2, nullBulk)
                                    | (w2, Some x) \<Rightarrow>
                                        (ctx, w2, if result_key x = [] then nullBulk else bulks [result_key x, result_value x])))))"

definition cmd_blpop :: handler where "cmd_blpop = tryBlockingPop False"
definition cmd_brpop :: handler where "cmd_brpop = tryBlockingPop True"

definition cmd_brpoplpush :: handler where
  "cmd_brpoplpush out k ctx req w =
     (if length req \<noteq> 4 \<or> is_null (req ! 1) \<or> is_null (req ! 2) \<or> is_null (req ! 3) then (ctx, w, bad_args ''brpoplpush'')
      else case parseDoubleArg_lax (req ! 3) of
        None \<Rightarrow> (ctx, w, resp_err kTimeoutRange)
      | Some timeout \<Rightarrow>
          if dlt timeout 0 then (ctx, w, resp_err kTimeoutRange)
          else (case listRPopLPush (o_hash out) (ctx_db ctx) (arg req 1) (arg req 2) (o_clock out k 0) (o_clock out k 1)
                       (wd_store w) of
                  (st, True, Some v, err) \<Rightarrow> (ctx, w\<lparr>wd_store := st\<rparr>, bulk v)
                | (st, False, v, Some err) \<Rightarrow> (ctx, w\<lparr>wd_store := st\<rparr>, resp_err err)
                | (st, ok, v, err) \<Rightarrow>
                    (let w1 = w\<lparr>wd_store := st\<rparr> in
                     if deq timeout 0 \<or> \<not> o_sched out then (ctx, w1, nullBulk)
                     else case wait_in_hub out
                             (new_waiter ctx [arg req 1] True (i64 (o_clock out k 2 + timeout_millis timeout))) w1 of
                       (w2, None) \<Rightarrow> (ctx, w2, nullBulk)
                     | (w2, Some x) \<Rightarrow>
                         if result_value x = [] then (ctx, w2, nullBulk)
                         else (case listPush (o_hash out) (ctx_db ctx) (arg req 2) [result_value x] True (o_clock out k 3)
                                      (wd_store w2) of
                                 (st, Inl err) \<Rightarrow> (ctx, w2\<lparr>wd_store := st\<rparr>, resp_err err)
                               | (st, Inr n) \<Rightarrow>
                                   (ctx, notifyListPush out (\<lambda>i. o_clock out k (i + 4)) (ctx_db ctx) (arg req 2)
                                      (w2\<lparr>wd_store := st\<rparr>), bulk (result_value x))))))"

end
