(* ===== verification/Admin.thy ===== *)
theory Admin
  imports Session
begin

text \<open>
  The handlers of publish/subscribe, the slow log, the configuration, replication and \<open>INFO\<close>
  (\<open>zero/kv/command_dispatch.cc\<close>, \<open>zero/kv/commands_p0p1.cc\<close>, \<open>zero/kv/info.cc\<close>).
\<close>

subsection \<open>Publish/subscribe\<close>

definition makePubSubMetaReply :: "string \<Rightarrow> string \<Rightarrow> int64 \<Rightarrow> RespValue" where
  "makePubSubMetaReply kind channel n = array_of [bulk kind, bulk channel, resp_integer n]"

text \<open>The loops over the channels or patterns of a request, which skip null ones.\<close>

fun meta_loop :: "string \<Rightarrow> (string \<Rightarrow> PubSubHub \<Rightarrow> PubSubHub) \<Rightarrow> sid \<Rightarrow> request \<Rightarrow> RespValue list \<Rightarrow> PubSubHub \<Rightarrow>
    PubSubHub \<times> RespValue list" where
  "meta_loop kind act s [] acc h = (h, acc)"
| "meta_loop kind act s (v # r) acc h =
     (if is_null v then meta_loop kind act s r acc h
      else let h' = act (rstr v) h
           in meta_loop kind act s r (acc @ [makePubSubMetaReply kind (rstr v) (subscriptionCount s h')]) h')"

definition kNoPubSub :: RespValue where
  "kNoPubSub = resp_err ''ERR Pub/Sub unavailable''"

definition kNoSession :: RespValue where
  "kNoSession = resp_err ''ERR session unavailable''"

definition subscribe_cmd :: "string \<Rightarrow> (string \<Rightarrow> sid \<Rightarrow> PubSubHub \<Rightarrow> PubSubHub) \<Rightarrow> handler" where
  "subscribe_cmd kind act out k ctx req w =
     (if length req < 2 then (ctx, w, bad_args kind)
      else if \<not> ctx_pubsub ctx then (ctx, w, kNoPubSub)
      else case ctx_session ctx of
        None \<Rightarrow> (ctx, w, kNoSession)
      | Some s \<Rightarrow>
          (case meta_loop kind (\<lambda>c. act c s) s (drop 1 req) [] (wd_hub w) of
             (h, replies) \<Rightarrow> (ctx\<lparr>pubsub_mode := True\<rparr>, w\<lparr>wd_hub := h\<rparr>, array_of replies)))"

definition cmd_subscribe :: handler where "cmd_subscribe = subscribe_cmd ''subscribe'' subscribe"
definition cmd_psubscribe :: handler where "cmd_psubscribe = subscribe_cmd ''psubscribe'' psubscribe"

definition leave_pubsub :: "sid \<Rightarrow> PubSubHub \<Rightarrow> KvContext \<Rightarrow> KvContext" where
  "leave_pubsub s h ctx = (if subscriptionCount s h = 0 then ctx\<lparr>pubsub_mode := False\<rparr> else ctx)"

definition cmd_unsubscribe :: handler where
  "cmd_unsubscribe out k ctx req w =
     (if \<not> ctx_pubsub ctx then (ctx, w, kNoPubSub)
      else case ctx_session ctx of
        None \<Rightarrow> (ctx, w, kNoSession)
      | Some s \<Rightarrow>
          if length req = 1 then
            (let h = unsubscribeAll (o_alive out) s (wd_hub w)
             in (leave_pubsub s h ctx, w\<lparr>wd_hub := h\<rparr>, array_of [makePubSubMetaReply ''unsubscribe'' [] 0]))
          else (case meta_loop ''unsubscribe'' (\<lambda>c. unsubscribe (o_alive out) c s) s (drop 1 req) [] (wd_hub w) of
                  (h, replies) \<Rightarrow> (leave_pubsub s h ctx, w\<lparr>wd_hub := h\<rparr>, array_of replies)))"

definition cmd_punsubscribe :: handler where
  "cmd_punsubscribe out k ctx req w =
     (if \<not> ctx_pubsub ctx then (ctx, w, kNoPubSub)
      else case ctx_session ctx of
        None \<Rightarrow> (ctx, w, kNoSession)
      | Some s \<Rightarrow>
          if length req = 1 then
            (let before = subscriptionCount s (wd_hub w); h = punsubscribeAll (o_alive out) s (wd_hub w)
             in (if before > 0 then leave_pubsub s h ctx else ctx, w\<lparr>wd_hub := h\<rparr>,
                 array_of [makePubSubMetaReply ''punsubscribe'' [] 0]))
          else (case meta_loop ''punsubscribe'' (\<lambda>c. punsubscribe (o_alive out) c s) s (drop 1 req) [] (wd_hub w) of
                  (h, replies) \<Rightarrow> (leave_pubsub s h ctx, w\<lparr>wd_hub := h\<rparr>, array_of replies)))"

definition cmd_publish :: handler where
  "cmd_publish out k ctx req w =
     (if length req \<noteq> 3 \<or> is_null (req ! 1) \<or> is_null (req ! 2) then (ctx, w, bad_args ''publish'')
      else if \<not> ctx_pubsub ctx then (ctx, w, resp_integer 0)
      else case publish (o_alive out) (o_sends out) (arg req 1) (arg req 2) (wd_hub w) of
        (pushed, n) \<Rightarrow> (ctx, w\<lparr>wd_output := wd_output w @ map (map_prod id PushPubSubMessage) pushed\<rparr>, resp_integer n))"

subsection \<open>The slow log\<close>

definition slow_row :: "SlowlogEntry \<Rightarrow> RespValue" where
  "slow_row e =
     array_of [resp_integer (le_id e), resp_integer (cdiv (timestamp_ms e) 1000), resp_integer (duration_us e),
       bulks (le_args e), resp_integer (le_client_id e), bulk (le_client_addr e)]"

definition slowlogGet :: "request \<Rightarrow> Slowlog \<Rightarrow> RespValue" where
  "slowlogGet req s =
     (if length req \<ge> 3 \<and> \<not> is_null (req ! 2) then
        (case parseInt64Arg_lax (req ! 2) of
           None \<Rightarrow> not_int
         | Some n \<Rightarrow> array_of (map slow_row (get_slow n s)))
      else array_of (map slow_row (get_slow 10 s)))"

definition cmd_slowlog :: handler where
  "cmd_slowlog out k ctx req w =
     (if length req < 2 \<or> is_null (req ! 1) then (ctx, w, bad_args ''slowlog'')
      else let sub = upperArg (arg req 1) in
        if sub = ''GET'' then (ctx, w, slowlogGet req (wd_slowlog w))
        else if sub = ''LEN'' then (ctx, w, resp_integer (len_slow (wd_slowlog w)))
        else if sub = ''RESET'' then (ctx, w\<lparr>wd_slowlog := reset_slow (wd_slowlog w)\<rparr>, resp_ok)
        else (ctx, w, resp_err ''ERR unknown SLOWLOG subcommand''))"

subsection \<open>Configuration\<close>

definition setFsyncPolicyString :: "string \<Rightarrow> AofLog \<Rightarrow> AofLog" where
  "setFsyncPolicyString policy a =
     (let p = map to_lower policy
      in a\<lparr>m_fsync := (if p = ''always'' then Always else if p = ''no'' then No else EverySec)\<rparr>)"

definition fsyncPolicyString :: "AofLog \<Rightarrow> string" where
  "fsyncPolicyString a = (case m_fsync a of Always \<Rightarrow> ''always'' | No \<Rightarrow> ''no'' | EverySec \<Rightarrow> ''everysec'')"

text \<open>The table of \<open>CONFIG GET\<close>, in the order in which the map is traversed.\<close>

definition config_known :: "World \<Rightarrow> (string, string) umap" where
  "config_known w =
     (let aof = (case wd_aof w of Some a \<Rightarrow> if m_enabled a then Some a else None | None \<Rightarrow> None) in
      [(''maxmemory'', to_string (m_maxmemory (wd_store w))),
       (''maxmemory-policy'', m_maxmemory_policy (wd_store w)),
       (''save'', ''''),
       (''appendonly'', if aof \<noteq> None then ''yes'' else ''no''),
       (''appendfsync'', case aof of Some a \<Rightarrow> fsyncPolicyString a | None \<Rightarrow> ''everysec''),
       (''requirepass'', if isAuthRequired w then ''yes'' else ''''),
       (''timeout'', ''0''),
       (''tcp-keepalive'', ''300''),
       (''databases'', ''16''),
       (''slowlog-log-slower-than'', to_string (m_slower_than_us (wd_slowlog w))),
       (''slowlog-max-len'', to_string (m_max_len (wd_slowlog w))),
       (''dir'', ''.''),
       (''dbfilename'', m_rdbPath (wd_store w)),
       (''lua-global-atomic'', if wd_lua_atomic w then ''yes'' else ''no'')])"

fun config_pick :: "(string, string) umap \<Rightarrow> request \<Rightarrow> string list \<Rightarrow> string list" where
  "config_pick known [] acc = acc"
| "config_pick known (v # r) acc =
     (if is_null v then config_pick known r acc
      else if rstr v = ''*'' then concat (map (\<lambda>(a, b). [a, b]) known)
      else config_pick known r (acc @ (case map_of known (rstr v) of None \<Rightarrow> [] | Some x \<Rightarrow> [rstr v, x])))"

definition configGet :: "request \<Rightarrow> World \<Rightarrow> RespValue" where
  "configGet req w =
     (if length req = 2 then bulks (concat (map (\<lambda>(a, b). [a, b]) (config_known w)))
      else bulks (config_pick (config_known w) (drop 2 req) []))"

definition kPolicies :: "string list" where
  "kPolicies = [''noeviction'', ''allkeys-lru'', ''allkeys-random'', ''volatile-lru'', ''volatile-random'', ''volatile-ttl'']"

text \<open>The settings that take a number: anything that begins with one is accepted.\<close>

definition set_number :: "string \<Rightarrow> string \<Rightarrow> (int64 \<Rightarrow> World) \<Rightarrow> World \<Rightarrow> World \<times> RespValue" where
  "set_number key v act w =
     (case strtoll v of (n, i) \<Rightarrow> if i = 0 then (w, resp_err (''ERR invalid '' @ key)) else (act n, resp_ok))"

definition configSet :: "request \<Rightarrow> World \<Rightarrow> World \<times> RespValue" where
  "configSet req w =
     (if length req \<noteq> 4 \<or> is_null (req ! 2) \<or> is_null (req ! 3)
      then (w, resp_err ''ERR wrong number of arguments for CONFIG SET'')
      else let key = map to_lower (arg req 2); v = arg req 3 in
        if key = ''maxmemory'' then set_number key v (\<lambda>n. w\<lparr>wd_store := setMaxMemory n (wd_store w)\<rparr>) w
        else if key = ''maxmemory-policy'' then
          (if v \<notin> set kPolicies then (w, resp_err ''ERR invalid maxmemory policy'')
           else (w\<lparr>wd_store := setMaxMemoryPolicy v (wd_store w)\<rparr>, resp_ok))
        else if key = ''requirepass'' then (w\<lparr>wd_pass := v\<rparr>, resp_ok)
        else if key = ''appendfsync'' then
          (case wd_aof w of
             None \<Rightarrow> (w, resp_err ''ERR AOF unavailable'')
           | Some a \<Rightarrow> (w\<lparr>wd_aof := Some (setFsyncPolicyString v a)\<rparr>, resp_ok))
        else if key = ''slowlog-log-slower-than'' then
          set_number key v (\<lambda>n. w\<lparr>wd_slowlog := setSlowerThanUs n (wd_slowlog w)\<rparr>) w
        else if key = ''slowlog-max-len'' then set_number key v (\<lambda>n. w\<lparr>wd_slowlog := setMaxLen n (wd_slowlog w)\<rparr>) w
        else if key = ''dbfilename'' then (w\<lparr>wd_store := (wd_store w)\<lparr>m_rdbPath := v\<rparr>\<rparr>, resp_ok)
        else if key = ''lua-global-atomic'' then
          (if v \<noteq> ''yes'' \<and> v \<noteq> ''no'' then
             (w, resp_err (''ERR lua-global-atomic must be '' @ [CHR 0x27] @ ''yes'' @ [CHR 0x27] @ '' or '' @
                            [CHR 0x27] @ ''no'' @ [CHR 0x27]))
           else (w\<lparr>wd_lua_atomic := (v = ''yes'')\<rparr>, resp_ok))
        else if key = ''dir'' then (w, resp_ok)
        else (w, resp_err (''ERR unsupported CONFIG parameter: '' @ key)))"

definition cmd_config :: handler where
  "cmd_config out k ctx req w =
     (if length req < 2 \<or> is_null (req ! 1) then (ctx, w, bad_args ''config'')
      else let sub = upperArg (arg req 1) in
        if sub = ''GET'' then (ctx, w, configGet req w)
        else if sub = ''SET'' then (case configSet req w of (w', r) \<Rightarrow> (ctx, w', r))
        else (ctx, w, resp_err ''ERR CONFIG subcommand must be GET or SET''))"

subsection \<open>Replication\<close>

definition makeRoleReply :: "ReplicationManager option \<Rightarrow> RespValue" where
  "makeRoleReply repl =
     (case repl of
        None \<Rightarrow> array_of [bulk ''master'', resp_integer 0, array_of []]
      | Some r \<Rightarrow>
          if m_role r = Master then array_of [bulk ''master'', resp_integer (m_offset r), array_of []]
          else array_of [bulk ''slave'', bulk (m_master_host r), resp_integer (m_master_port r), bulk ''connect'',
                         bulk (to_string (m_master_link_status r))])"

definition cmd_role :: handler where
  "cmd_role out k ctx req w = (ctx, w, if length req \<noteq> 1 then bad_args ''role'' else makeRoleReply (wd_repl w))"

definition cmd_slaveof :: handler where
  "cmd_slaveof out k ctx req w =
     (if length req \<noteq> 3 \<or> is_null (req ! 1) \<or> is_null (req ! 2) then (ctx, w, bad_args ''slaveof'')
      else case wd_repl w of
        None \<Rightarrow> (ctx, w, resp_err ''ERR replication unavailable'')
      | Some r \<Rightarrow>
          if upperArg (arg req 1) = ''NO'' \<and> upperArg (arg req 2) = ''ONE'' then
            (ctx, w\<lparr>wd_repl := Some (promoteToMaster r)\<rparr>, resp_ok)
          else (case parseInt64Arg (req ! 2) of
                  None \<Rightarrow> (ctx, w, resp_err ''ERR invalid port'')
                | Some port \<Rightarrow>
                    if port \<le> 0 \<or> port > 65535 then (ctx, w, resp_err ''ERR invalid port'')
                    else (ctx, w\<lparr>wd_repl := Some (setSlaveOf (arg req 1) port r)\<rparr>, resp_ok)))"

subsection \<open>INFO\<close>

definition info_line :: "string \<Rightarrow> string \<Rightarrow> string" where
  "info_line key v = key @ v @ crlf"

definition buildInfoText :: "(nat \<Rightarrow> int64) \<Rightarrow> (sid \<Rightarrow> bool) \<Rightarrow> int \<Rightarrow> ReplicationManager option \<Rightarrow> KvStore \<Rightarrow> KvStore \<times> string" where
  "buildInfoText clock alive db repl st =
     (case dbsize db (clock 0) st of (st1, nkeys) \<Rightarrow>
      (case expireCount db (clock 1) st1 of (st2, nexpires) \<Rightarrow>
        (st2,
         info_line ''# Server'' [] @ info_line ''redis_version:'' ''7.0.0'' @ info_line ''redis_mode:'' ''standalone'' @
         info_line ''redis_engine:'' ''zero-redis'' @ info_line ''os:'' ''Linux'' @ info_line ''arch_bits:'' ''64'' @
         info_line ''# Keyspace'' [] @
         info_line (''db'' @ to_string db) ('':keys='' @ to_string nkeys @ '',expires='' @ to_string nexpires @ '',avg_ttl=0'') @
         info_line ''# Persistence'' [] @ info_line ''rdb_last_save_time:'' (to_string (m_lastSaveSec st2)) @
         info_line ''rdb_path:'' (m_rdbPath st2) @
         info_line ''# Memory'' [] @ info_line ''used_memory:'' (to_string (usedMemoryApprox (clock 2) st2)) @
         info_line ''maxmemory:'' (to_string (m_maxmemory st2)) @ info_line ''maxmemory_policy:'' (m_maxmemory_policy st2) @
         (case repl of
            None \<Rightarrow> []
          | Some r \<Rightarrow>
              info_line ''# Replication'' [] @
              (if m_role r = Master then
                 info_line ''role:'' ''master'' @ info_line ''connected_slaves:'' (to_string (connectedSlaves alive r)) @
                 info_line ''master_replid:'' (m_repl_id r) @ info_line ''master_repl_offset:'' (to_string (m_offset r))
               else
                 info_line ''role:'' ''slave'' @ info_line ''master_host:'' (m_master_host r) @
                 info_line ''master_port:'' (to_string (m_master_port r)) @
                 info_line ''master_link_status:'' (to_string (m_master_link_status r)) @
                 info_line ''master_replid_saved:'' (m_master_repl_id r) @
                 info_line ''master_repl_offset_saved:'' (to_string (m_master_offset r)))))))"

definition cmd_info :: handler where
  "cmd_info out k ctx req w =
     (case buildInfoText (o_clock out k) (o_alive out) (ctx_db ctx) (wd_repl w) (wd_store w) of
        (st, text) \<Rightarrow> (ctx, w\<lparr>wd_store := st\<rparr>, bulk text))"

end
