(* ===== verification/Persist.thy ===== *)
theory Persist
  imports Session
begin

text \<open>
  The handlers of snapshots, synchronisation and shutdown (\<open>zero/kv/command_dispatch.cc\<close>,
  \<open>zero/kv/commands_p0p1.cc\<close>), with \<open>KvStore::saveRdb\<close> and the functions the server binds for them
  (\<open>zero/kv/kv_server.cc\<close>).
\<close>

text \<open>\<open>saveRdb\<close>: the snapshot goes to a file by writing another one and renaming it; the readings of the clock are those
  of the header, of the entries and of the time of the save.\<close>

definition saveRdb :: "Outside \<Rightarrow> (nat \<Rightarrow> int64) \<Rightarrow> World \<Rightarrow> World \<times> string option" where
  "saveRdb out clock w =
     (let path = m_rdbPath (wd_store w) in
      case o_write_fails out path of
        Some err \<Rightarrow> (w, Some err)
      | None \<Rightarrow>
          (w\<lparr>wd_store := (wd_store w)\<lparr>m_lastSaveSec := cdiv (clock 2) 1000\<rparr>,
             wd_file := wd_file w @ [(path, dumpBinaryV2 (clock 0) (clock 1) (wd_store w))]\<rparr>, None))"

definition cmd_save :: handler where
  "cmd_save out k ctx req w =
     (if length req \<noteq> 1 then (ctx, w, bad_args ''save'')
      else case saveRdb out (o_clock out k) w of
        (w', Some err) \<Rightarrow> (ctx, w', resp_err (if err = [] then ''ERR save failed'' else err))
      | (w', None) \<Rightarrow> (ctx, w', resp_ok))"

text \<open>The background jobs only schedule their work here.\<close>

definition cmd_bgsave :: handler where
  "cmd_bgsave out k ctx req w =
     (ctx, w,
      if length req \<noteq> 1 then bad_args ''bgsave''
      else if \<not> o_bgsave out then resp_err ''ERR Background save already in progress''
      else resp_ok)"

definition cmd_bgrewriteaof :: handler where
  "cmd_bgrewriteaof out k ctx req w =
     (ctx, w,
      if length req \<noteq> 1 then bad_args ''bgrewriteaof''
      else if (case wd_aof w of None \<Rightarrow> True | Some a \<Rightarrow> \<not> m_enabled a) then resp_err ''ERR AOF disabled''
      else if \<not> o_bgrewrite out then resp_err ''ERR Background AOF rewrite already in progress''
      else resp_ok)"

text \<open>\<open>PSYNC\<close>: the line, and the snapshot or the missing bytes, are given to the session and there is no reply.\<close>

definition cmd_psync :: handler where
  "cmd_psync out k ctx req w =
     (if length req \<noteq> 3 \<or> is_null (req ! 1) \<or> is_null (req ! 2) then (ctx, w, bad_args ''psync'')
      else case wd_repl w of
        None \<Rightarrow> (ctx, w, resp_err ''ERR replication unavailable'')
      | Some r \<Rightarrow>
          (case parseInt64Arg (req ! 2) of
             None \<Rightarrow> (ctx, w, resp_err ''ERR invalid replication offset'')
           | Some offset \<Rightarrow>
               (case handlePsync (arg req 1) offset (Some (dumpBinaryV2 (o_clock out k 0) (o_clock out k 1) (wd_store w))) r of
                  (PsyncError, line, _) \<Rightarrow> (ctx, w, line)
                | (kind, line, data) \<Rightarrow>
                    (case ctx_session ctx of
                       None \<Rightarrow> (ctx, w, line)
                     | Some s \<Rightarrow>
                         if kind = Full then
                           (ctx\<lparr>replica_connection := True\<rparr>,
                            w\<lparr>wd_output := wd_output w @ [(s, AppendResponse line), (s, AppendResponse (bulk data))], wd_repl := Some (registerReplica s r)\<rparr>,
                            resp_none)
                         else if data \<noteq> [] then
                           (ctx\<lparr>replica_connection := True\<rparr>,
                            w\<lparr>wd_output := wd_output w @ [(s, AppendResponse line), (s, PushReplicationPayload data)],
                              wd_repl := Some (registerReplica s r)\<rparr>,
                            resp_none)
                         else (ctx, w\<lparr>wd_output := wd_output w @ [(s, AppendResponse line)]\<rparr>, resp_none)))))"

definition cmd_dump :: handler where
  "cmd_dump out k ctx req w =
     (ctx, w,
      if length req \<noteq> 2 \<or> is_null (req ! 1) then bad_args ''dump''
      else case dumpKey (o_hash out) (ctx_db ctx) (arg req 1) (o_clock out k 0) (wd_store w) of
        None \<Rightarrow> nullBulk
      | Some (_, data) \<Rightarrow> bulk data)"

definition cmd_restore :: handler where
  "cmd_restore out k ctx req w =
     (if length req < 4 \<or> is_null (req ! 1) \<or> is_null (req ! 2) \<or> is_null (req ! 3) then (ctx, w, bad_args ''restore'')
      else case parseInt64Arg_lax (req ! 2) of
        None \<Rightarrow> (ctx, w, resp_err ''ERR invalid TTL value, must be an integer'')
      | Some life \<Rightarrow>
          (let replace = list_ex (\<lambda>v. \<not> is_null v \<and> upperArg (rstr v) = ''REPLACE'') (drop 4 req)
           in case restoreKey (o_hash out) (o_untyped out) (ctx_db ctx) (arg req 1) life (arg req 3) replace (o_clock out k 0)
                     (wd_store w) of
             (st, Inl err) \<Rightarrow> (ctx, w\<lparr>wd_store := st\<rparr>, resp_err err)
           | (st, Inr _) \<Rightarrow> (ctx, w\<lparr>wd_store := st\<rparr>, resp_ok)))"

text \<open>\<open>SHUTDOWN\<close>, with the function that \<open>KvServer\<close> binds: save unless told not to, whatever comes of it, and stop.\<close>

definition shutdown_fn :: "Outside \<Rightarrow> place \<Rightarrow> bool \<Rightarrow> World \<Rightarrow> World" where
  "shutdown_fn out k save w = (if save then fst (saveRdb out (o_clock out k) w) else w)\<lparr>wd_stopped := True\<rparr>"

definition cmd_shutdown :: handler where
  "cmd_shutdown out k ctx req w =
     (let opt = (if length req \<ge> 2 \<and> \<not> is_null (req ! 1) then upperArg (arg req 1) else ''SAVE'') in
      if opt \<noteq> ''NOSAVE'' \<and> opt \<noteq> ''SAVE'' then (ctx, w, syntax_error)
      else (ctx, if o_shutdown out then shutdown_fn out k (opt = ''SAVE'') w else w, resp_ok))"

text \<open>What a save leaves alone.\<close>

lemma saveRdb_store:
  "wf_store h (wd_store (fst (saveRdb out clock w))) = wf_store h (wd_store w)"
  "peek h (wd_store (fst (saveRdb out clock w))) = peek h (wd_store w)"
  by (simp_all add: saveRdb_def Let_def wf_store_def peek_def getShard_def fun_eq_iff split: option.split)

end
