(* ===== verification/Scripts.thy ===== *)
theory Scripts
  imports Session
begin

text \<open>
  Scripts: \<open>zero/kv/lua_engine.cc\<close> and the handlers of \<open>EVAL\<close>, \<open>EVALSHA\<close> and \<open>SCRIPT\<close> in
  \<open>zero/kv/command_dispatch.cc\<close>. The interpreter is a library and a parameter; what is modelled is the conversion of
  values in both directions, the calls that scripts make, and the cache of scripts.
\<close>

subsection \<open>Values\<close>

fun pushRespValue :: "RespValue \<Rightarrow> LuaValue" where
  "pushRespValue (RespValue t s i vs null) =
     (if t = BulkString \<and> null then LuaBool False
      else case t of
        SimpleString \<Rightarrow> LuaString s
      | BulkString \<Rightarrow> LuaString s
      | Integer \<Rightarrow> LuaNumber (double_of_int i)
      | Error \<Rightarrow> LuaTable [(LuaString ''err'', LuaString s)]
      | Array \<Rightarrow> LuaTable (zip (map (\<lambda>n. LuaNumber (double_of_int (int n + 1))) [0..<length vs]) (map pushRespValue vs))
      | Null \<Rightarrow> LuaBool False)"

text \<open>\<open>(int64_t)\<close> of a number that fits.\<close>

definition trunc_double :: "double \<Rightarrow> int64" where
  "trunc_double x = cdiv (dunits x) kUnit"

definition lua_field :: "string \<Rightarrow> (LuaValue \<times> LuaValue) list \<Rightarrow> string option" where
  "lua_field name t = (case map_of t (LuaString name) of Some (LuaString s) \<Rightarrow> Some s | _ \<Rightarrow> None)"

definition is_number :: "LuaValue \<Rightarrow> bool" where
  "is_number v \<longleftrightarrow> (case v of LuaNumber _ \<Rightarrow> True | _ \<Rightarrow> False)"

definition resp_null :: RespValue where
  "resp_null = RespValue Null [] 0 [] False"

text \<open>A table is traversed in the order of its list, which stands for that of \<open>lua_next\<close>.\<close>

function luaToResp :: "LuaValue \<Rightarrow> RespValue" where
  "luaToResp (LuaBool b) = (if b then resp_integer 1 else resp_null)"
| "luaToResp (LuaNumber x) = resp_integer (trunc_double x)"
| "luaToResp (LuaString s) = RespValue BulkString s 0 [] False"
| "luaToResp (LuaTable t) =
     (case lua_field ''ok'' t of
        Some s \<Rightarrow> RespValue SimpleString s 0 [] False
      | None \<Rightarrow>
          (case lua_field ''err'' t of
             Some s \<Rightarrow> resp_err s
           | None \<Rightarrow> RespValue Array [] 0 (map (\<lambda>kv. luaToResp (snd kv)) (filter (\<lambda>kv. is_number (fst kv)) t)) False))"
| "luaToResp LuaNil = resp_null"
| "luaToResp LuaOther = resp_null"
  by pat_completeness auto
termination
proof (relation "measure size")
  fix t and kv :: "LuaValue \<times> LuaValue"
  assume "kv \<in> set (filter (\<lambda>kv. is_number (fst kv)) t)"
  then have m: "kv \<in> set t" by simp
  have "size (snd kv) < size_prod size size kv" by (cases kv) simp
  also have "\<dots> \<le> size_list (size_prod size size) t" using m by (rule size_list_estimation') simp
  finally show "(snd kv, LuaTable t) \<in> measure size" by simp
qed simp

subsection \<open>Calls\<close>

text \<open>The text of an argument: a number counts as a string for \<open>lua_isstring\<close>, and other values give the empty string.\<close>

definition lua_arg :: "Outside \<Rightarrow> LuaValue \<Rightarrow> RespValue" where
  "lua_arg out v =
     RespValue BulkString
       (case v of LuaString s \<Rightarrow> s | LuaNumber x \<Rightarrow> o_lua_number out x | LuaBool b \<Rightarrow> (if b then ''1'' else ''0'') | _ \<Rightarrow> [])
       0 [] False"

definition kNotInScript :: "string list" where
  "kNotInScript = [''EVAL'', ''EVALSHA'', ''SCRIPT'', ''MULTI'', ''EXEC'']"

definition lua_error_table :: "string \<Rightarrow> LuaValue" where
  "lua_error_table err = LuaTable [(LuaString ''err'', LuaString err)]"

text \<open>A C string ends at the first NUL.\<close>

definition c_str :: "string \<Rightarrow> string" where
  "c_str s = takeWhile (\<lambda>c. c \<noteq> CHR 0x00) s"

type_synonym dispatcher = "Outside \<Rightarrow> place \<Rightarrow> KvContext \<Rightarrow> RespValue \<Rightarrow> World \<Rightarrow> KvContext \<times> World \<times> RespValue"

text \<open>\<open>luaRedisCallImpl\<close>: the value returned, or the error raised.\<close>

definition luaRedisCallImpl ::
    "dispatcher \<Rightarrow> Outside \<Rightarrow> place \<Rightarrow> bool \<Rightarrow> LuaValue list \<Rightarrow> KvContext \<Rightarrow> World \<Rightarrow> KvContext \<times> World \<times> (string + LuaValue)" where
  "luaRedisCallImpl disp out k raise args ctx w =
     (if args = [] then
        (ctx, w, if raise then Inl ''ERR wrong number of arguments for redis.call''
                 else Inr (lua_error_table ''ERR wrong number of arguments''))
      else let req = map (lua_arg out) args; cmdName = upperArg (rstr (hd req)) in
        if cmdName \<in> set kNotInScript then
          (let err = ''ERR '' @ cmdName @ '' not allowed inside script''
           in (ctx, w, if raise then Inl err else Inr (lua_error_table err)))
        else (case disp out k ctx (array_of req) w of
                (ctx1, w1, rsp) \<Rightarrow>
                  (ctx1, w1, if raise \<and> rtype rsp = Error then Inl (c_str (rstr rsp)) else Inr (pushRespValue rsp))))"

text \<open>The script runs to its end; the i-th call is the command \<open>k @ [i]\<close>.\<close>

primrec run_lua :: "LuaRun \<Rightarrow> dispatcher \<Rightarrow> Outside \<Rightarrow> place \<Rightarrow> nat \<Rightarrow> KvContext \<Rightarrow> World \<Rightarrow> KvContext \<times> World \<times> RespValue" where
  "run_lua (LuaReturn v) disp out k i ctx w = (ctx, w, luaToResp v)"
| "run_lua (LuaError err) disp out k i ctx w = (ctx, w, resp_err (''ERR '' @ err))"
| "run_lua (LuaCall raise args ok bad) disp out k i ctx w =
     (case luaRedisCallImpl disp out (k @ [i]) raise args ctx w of
        (ctx1, w1, Inl err) \<Rightarrow> (\<lambda>x. run_lua (bad x)) err disp out k (i + 1) ctx1 w1
      | (ctx1, w1, Inr v) \<Rightarrow> (\<lambda>x. run_lua (ok x)) v disp out k (i + 1) ctx1 w1)"

definition lua_eval ::
    "dispatcher \<Rightarrow> Outside \<Rightarrow> place \<Rightarrow> string \<Rightarrow> string list \<Rightarrow> string list \<Rightarrow> KvContext \<Rightarrow> World \<Rightarrow> KvContext \<times> World \<times> RespValue" where
  "lua_eval disp out k script ks argv ctx w =
     run_lua (o_lua out script ks argv) disp out k 0 ctx (w\<lparr>wd_kill := False\<rparr>)"

subsection \<open>Handlers\<close>

definition str_or_empty :: "RespValue \<Rightarrow> string" where
  "str_or_empty v = (if is_null v then [] else rstr v)"

text \<open>The keys and arguments of a script; the number of keys is not checked.\<close>

definition script_args :: "request \<Rightarrow> string list \<times> string list" where
  "script_args req =
     (let numkeys = nat (fst (strtoll (rstr (req ! 2)))); rest = map str_or_empty (drop 3 req)
      in (take numkeys rest, drop numkeys rest))"

definition cmd_eval :: "dispatcher \<Rightarrow> handler" where
  "cmd_eval disp out k ctx req w =
     (if length req < 3 then (ctx, w, bad_args ''eval'')
      else let script = str_or_empty (req ! 1) in
        if script = [] then (ctx, w, resp_err ''ERR invalid script'')
        else case script_args req of (ks, argv) \<Rightarrow> lua_eval disp out k script ks argv ctx w)"

definition getScriptBody :: "string \<Rightarrow> World \<Rightarrow> string" where
  "getScriptBody sha w = umap_get [] sha (wd_scripts w)"

definition cmd_evalsha :: "dispatcher \<Rightarrow> handler" where
  "cmd_evalsha disp out k ctx req w =
     (if length req < 3 then (ctx, w, bad_args ''evalsha'')
      else let script = getScriptBody (str_or_empty (req ! 1)) w in
        if script = [] then (ctx, w, resp_err ''NOSCRIPT No matching script. Please use EVAL.'')
        else case script_args req of (ks, argv) \<Rightarrow> lua_eval disp out k script ks argv ctx w)"

definition scriptLoad :: "Outside \<Rightarrow> string \<Rightarrow> World \<Rightarrow> World \<times> string" where
  "scriptLoad out script w = (w\<lparr>wd_scripts := AList.update (o_sha1 out script) script (wd_scripts w)\<rparr>, o_sha1 out script)"

definition scriptExists :: "string list \<Rightarrow> World \<Rightarrow> bool list" where
  "scriptExists shas w = map (\<lambda>s. map_of (wd_scripts w) s \<noteq> None) shas"

definition scriptFlush :: "World \<Rightarrow> World" where
  "scriptFlush w = w\<lparr>wd_scripts := []\<rparr>"

definition scriptKill :: "World \<Rightarrow> World" where
  "scriptKill w = w\<lparr>wd_kill := True\<rparr>"

definition cmd_script :: handler where
  "cmd_script out k ctx req w =
     (if length req < 2 then (ctx, w, bad_args ''script'')
      else let sub = upperArg (arg req 1) in
        if sub = ''LOAD'' then
          (if length req < 3 then (ctx, w, bad_args ''script|load'')
           else case scriptLoad out (arg req 2) w of (w', sha) \<Rightarrow> (ctx, w', bulk sha))
        else if sub = ''EXISTS'' then
          (ctx, w, array_of (map (\<lambda>b. resp_integer (if b then 1 else 0)) (scriptExists (map rstr (drop 2 req)) w)))
        else if sub = ''KILL'' then (ctx, scriptKill w, resp_ok)
        else if sub = ''FLUSH'' then (ctx, scriptFlush w, resp_ok)
        else (ctx, w, resp_err (''ERR Unknown SCRIPT subcommand: '' @ sub)))"

end
