(* ===== verification/Dispatch.thy ===== *)
theory Dispatch
  imports Admin Persist Scripts
begin

text \<open>
  The dispatcher: \<open>CommandDispatch\<close> of \<open>zero/kv/command_dispatch.cc\<close>, with the table that
  \<open>registerBuiltinCommands\<close> and \<open>registerP0P1Commands\<close> fill, the gates before a command runs, and transactions.
\<close>

subsection \<open>The table of handlers\<close>

definition store_table :: "(string \<times> store_cmd) list" where
  "store_table =
     [(''DBSIZE'', cmd_dbsize), (''FLUSHDB'', cmd_flushdb), (''FLUSHALL'', cmd_flushall), (''TYPE'', cmd_type),
      (''KEYS'', cmd_keys), (''SCAN'', cmd_scan), (''EXISTS'', cmd_exists), (''DEL'', cmd_del),
      (''EXPIRE'', cmd_expire), (''PEXPIRE'', cmd_pexpire), (''EXPIREAT'', cmd_expireat),
      (''PEXPIREAT'', cmd_pexpireat), (''TTL'', cmd_ttl), (''PTTL'', cmd_pttl), (''PERSIST'', cmd_persist),
      (''RENAME'', cmd_rename), (''RENAMENX'', cmd_renamenx), (''GET'', cmd_get), (''GETSET'', cmd_getset),
      (''GETDEL'', cmd_getdel), (''SET'', cmd_set), (''SETNX'', cmd_setnx), (''SETEX'', cmd_setex),
      (''MGET'', cmd_mget), (''MSET'', cmd_mset), (''MSETNX'', cmd_msetnx), (''INCR'', cmd_incr),
      (''DECR'', cmd_decr), (''INCRBY'', cmd_incrby), (''DECRBY'', cmd_decrby),
      (''INCRBYFLOAT'', cmd_incrbyfloat), (''APPEND'', cmd_append), (''STRLEN'', cmd_strlen),
      (''GETEX'', cmd_getex), (''HSET'', cmd_hset), (''HGET'', cmd_hget), (''HGETALL'', cmd_hgetall),
      (''HDEL'', cmd_hdel), (''HEXISTS'', cmd_hexists), (''HLEN'', cmd_hlen), (''HMSET'', cmd_hmset),
      (''HMGET'', cmd_hmget), (''HKEYS'', cmd_hkeys), (''HVALS'', cmd_hvals), (''HINCRBY'', cmd_hincrby),
      (''HSETNX'', cmd_hsetnx), (''LPOP'', cmd_lpop), (''RPOP'', cmd_rpop), (''LLEN'', cmd_llen),
      (''LRANGE'', cmd_lrange), (''LINDEX'', cmd_lindex), (''LTRIM'', cmd_ltrim), (''LSET'', cmd_lset),
      (''LREM'', cmd_lrem), (''RPOPLPUSH'', cmd_rpoplpush), (''LINSERT'', cmd_linsert), (''SADD'', cmd_sadd),
      (''SREM'', cmd_srem), (''SINTERSTORE'', cmd_sinterstore), (''SUNIONSTORE'', cmd_sunionstore),
      (''SDIFFSTORE'', cmd_sdiffstore), (''SMEMBERS'', cmd_smembers), (''SCARD'', cmd_scard),
      (''SISMEMBER'', cmd_sismember), (''SINTER'', cmd_sinter), (''SUNION'', cmd_sunion),
      (''SDIFF'', cmd_sdiff), (''SPOP'', cmd_spop), (''HSCAN'', cmd_hscan), (''SSCAN'', cmd_sscan),
      (''ZSCAN'', cmd_zscan), (''ZADD'', cmd_zadd), (''ZREM'', cmd_zrem), (''ZSCORE'', cmd_zscore),
      (''ZCARD'', cmd_zcard), (''ZRANGE'', cmd_zrange), (''ZREVRANGE'', cmd_zrevrange),
      (''ZRANGEBYSCORE'', cmd_zrangebyscore), (''ZREVRANGEBYSCORE'', cmd_zrevrangebyscore),
      (''ZCOUNT'', cmd_zcount), (''ZINCRBY'', cmd_zincrby), (''ZRANK'', cmd_zrank),
      (''ZREVRANK'', cmd_zrevrank), (''ZPOPMIN'', cmd_zpopmin), (''ZPOPMAX'', cmd_zpopmax),
      (''XADD'', cmd_xadd), (''XLEN'', cmd_xlen), (''XRANGE'', cmd_xrange), (''XREVRANGE'', cmd_xrevrange),
      (''XREAD'', cmd_xread), (''XDEL'', cmd_xdel), (''XGROUP'', cmd_xgroup), (''XREADGROUP'', cmd_xreadgroup),
      (''XACK'', cmd_xack), (''XTRIM'', cmd_xtrim), (''XPENDING'', cmd_xpending), (''XCLAIM'', cmd_xclaim)]"

definition session_table :: "(string \<times> handler) list" where
  "session_table =
     [(''PING'', cmd_ping), (''ECHO'', cmd_echo), (''SELECT'', cmd_select), (''AUTH'', cmd_auth),
      (''QUIT'', cmd_quit), (''CLIENT'', cmd_client), (''LASTSAVE'', cmd_lastsave), (''TIME'', cmd_time),
      (''WATCH'', cmd_watch), (''UNWATCH'', cmd_unwatch), (''MULTI'', cmd_multi), (''DISCARD'', cmd_discard),
      (''LPUSH'', cmd_lpush), (''RPUSH'', cmd_rpush), (''BLPOP'', cmd_blpop), (''BRPOP'', cmd_brpop),
      (''BRPOPLPUSH'', cmd_brpoplpush), (''SUBSCRIBE'', cmd_subscribe), (''PSUBSCRIBE'', cmd_psubscribe),
      (''UNSUBSCRIBE'', cmd_unsubscribe), (''PUNSUBSCRIBE'', cmd_punsubscribe), (''PUBLISH'', cmd_publish),
      (''SLOWLOG'', cmd_slowlog), (''CONFIG'', cmd_config), (''ROLE'', cmd_role), (''SLAVEOF'', cmd_slaveof),
      (''INFO'', cmd_info), (''PSYNC'', cmd_psync), (''SAVE'', cmd_save), (''BGREWRITEAOF'', cmd_bgrewriteaof),
      (''BGSAVE'', cmd_bgsave), (''SCRIPT'', cmd_script), (''DUMP'', cmd_dump), (''RESTORE'', cmd_restore),
      (''SHUTDOWN'', cmd_shutdown)]"

definition base_table :: "(string \<times> handler) list" where
  "base_table = map (\<lambda>(n, c). (n, on_store c)) store_table @ session_table"

text \<open>\<open>EXEC\<close>, \<open>EVAL\<close> and \<open>EVALSHA\<close> run other commands: \<open>e\<close> is the handler of \<open>EXEC\<close>, and \<open>d\<close> the dispatcher that
  scripts call.\<close>

definition registered :: "handler \<Rightarrow> dispatcher \<Rightarrow> (string \<times> handler) list" where
  "registered e d =
     [(''EXEC'', e), (''EVAL'', cmd_eval d), (''EVALSHA'', cmd_evalsha d)] @ base_table"

text \<open>\<open>addCommand\<close> enters a handler under its name and under its name in lower case.\<close>

definition m_handlers :: "handler \<Rightarrow> dispatcher \<Rightarrow> (string, handler) umap" where
  "m_handlers e d = concat (map (\<lambda>(n, c). [(n, c), (map to_lower n, c)]) (registered e d))"

definition find_handler :: "handler \<Rightarrow> dispatcher \<Rightarrow> string \<Rightarrow> handler option" where
  "find_handler e d raw =
     (case map_of (m_handlers e d) raw of Some c \<Rightarrow> Some c | None \<Rightarrow> map_of (m_handlers e d) (map to_lower raw))"

subsection \<open>Running a command\<close>

definition kProtocol :: RespValue where
  "kProtocol = resp_err ''ERR protocol error: expected array''"

definition kEmptyCommand :: RespValue where
  "kEmptyCommand = resp_err ''ERR empty command''"

definition no_command :: "RespValue \<Rightarrow> bool" where
  "no_command request \<longleftrightarrow>
     rarray request = [] \<or> rtype (hd (rarray request)) \<noteq> BulkString \<or> is_null (hd (rarray request))"

definition unknown_command :: "string \<Rightarrow> RespValue" where
  "unknown_command raw = resp_err (''ERR unknown command '' @ [CHR 0x27] @ raw @ [CHR 0x27])"

text \<open>The handler of \<open>EXEC\<close> runs queued commands through \<open>dispatchExecOne\<close>, the i-th one as \<open>k @ [i]\<close>.\<close>

definition dispatchExecOne :: "handler \<Rightarrow> dispatcher \<Rightarrow> dispatcher" where
  "dispatchExecOne e d out k ctx request w =
     (if rtype request \<noteq> Array then (ctx, w, kProtocol)
      else if no_command request then (ctx, w, kEmptyCommand)
      else let raw = rstr (hd (rarray request)) in
        case find_handler e d raw of
          None \<Rightarrow> (ctx, w, unknown_command raw)
        | Some c \<Rightarrow> c out k ctx (rarray request) w)"

fun exec_loop :: "handler \<Rightarrow> dispatcher \<Rightarrow> Outside \<Rightarrow> place \<Rightarrow> nat \<Rightarrow> RespValue list \<Rightarrow> RespValue list \<Rightarrow> KvContext \<Rightarrow> World \<Rightarrow>
    KvContext \<times> World \<times> RespValue" where
  "exec_loop e d out k i [] acc ctx w = (ctx, w, array_of acc)"
| "exec_loop e d out k i (cmd # q) acc ctx w =
     (case dispatchExecOne e d out (k @ [i]) ctx cmd w of
        (ctx1, w1, rsp) \<Rightarrow>
          exec_loop e d out k (i + 1) q (acc @ [rsp]) ctx1
            (if rtype rsp \<noteq> Error \<and> isMutatingCommand (cmdNameFromRequest cmd)
             then propagate out cmd (log_command cmd w1) else w1))"

definition cmd_exec :: "handler \<Rightarrow> dispatcher \<Rightarrow> handler" where
  "cmd_exec e d out k ctx req w =
     (if length req \<noteq> 1 then (ctx, w, bad_args ''exec'')
      else if \<not> multi_mode ctx then (ctx, w, resp_err ''ERR EXEC without MULTI'')
      else case watchConflict (o_hash out) (ctx_watched ctx) (wd_store w) of
        (st, True) \<Rightarrow> (leave_multi ctx, w\<lparr>wd_store := st\<rparr>, nullBulk)
      | (st, False) \<Rightarrow> exec_loop e d out k 0 (multi_queue ctx) [] (leave_multi ctx) (w\<lparr>wd_store := st\<rparr>))"

definition kNoAuth :: RespValue where
  "kNoAuth = resp_err ''NOAUTH Authentication required.''"

definition kReadOnly :: RespValue where
  "kReadOnly = resp_err (''READONLY You can'' @ [CHR 0x27] @ ''t write against a read only replica.'')"

definition kPubSubOnly :: RespValue where
  "kPubSubOnly = resp_err ''ERR only (P|S)SUBSCRIBE / (P|S)UNSUBSCRIBE / PING / QUIT allowed in Pub/Sub mode''"

text \<open>The answer of the gates before a command is queued or run, or \<open>None\<close>.\<close>

definition gate :: "KvContext \<Rightarrow> string \<Rightarrow> World \<Rightarrow> RespValue option" where
  "gate ctx raw w =
     (let up = upperArg raw in
      if pubsub_mode ctx \<and> \<not> isPubsubAllowedCommand raw \<and> \<not> isPubsubAllowedCommand up then Some kPubSubOnly
      else if isAuthRequired w \<and> \<not> authenticated ctx \<and> \<not> isCommandAuthExempt raw \<and> \<not> isCommandAuthExempt up
      then Some kNoAuth
      else if \<not> repl_apply ctx \<and> isSlave w \<and> (isMutatingCommand raw \<or> isMutatingCommand up) \<and>
              \<not> isSlaveWriteAllowed raw \<and> \<not> isSlaveWriteAllowed up
      then Some kReadOnly
      else None)"

definition run_command :: "handler \<Rightarrow> dispatcher \<Rightarrow> dispatcher" where
  "run_command e d out k ctx request w =
     (let raw = rstr (hd (rarray request)) in
      case find_handler e d raw of
        None \<Rightarrow> (ctx, w, unknown_command raw)
      | Some c \<Rightarrow>
          (case c out k ctx (rarray request) w of
             (ctx1, w1, rsp) \<Rightarrow>
               (ctx1, w1\<lparr>wd_slowlog := record_slow (client_id ctx1) (client_addr ctx1) request
                           (i64 ((o_end out k - o_begin out k) * 1000)) (o_now out k) (wd_slowlog w1)\<rparr>, rsp)))"

definition dispatch_with :: "handler \<Rightarrow> dispatcher \<Rightarrow> dispatcher" where
  "dispatch_with e d out k ctx request w =
     (if rtype request \<noteq> Array then (ctx, w, kProtocol)
      else if no_command request then (ctx, w, kEmptyCommand)
      else let raw = rstr (hd (rarray request)); n = upperArg raw in
        case gate ctx raw w of
          Some rsp \<Rightarrow> (ctx, w, rsp)
        | None \<Rightarrow>
            if multi_mode ctx \<and> n \<noteq> ''EXEC'' \<and> n \<noteq> ''DISCARD'' then
              (if n = ''MULTI'' then (ctx, w, kNested)
               else if n = ''WATCH'' \<or> n = ''BLPOP'' \<or> n = ''BRPOP'' then
                 (ctx, w, resp_err (''ERR '' @ n @ '' not allowed in MULTI''))
               else (ctx\<lparr>multi_queue := multi_queue ctx @ [request]\<rparr>, w, queued))
            else run_command e d out k ctx request w)"

text \<open>
  The knot is tied with bounds that are never reached. Scripts may not call \<open>EXEC\<close>, \<open>EVAL\<close> or \<open>EVALSHA\<close>, so their
  dispatcher never uses the handlers given to it here; \<open>EXEC\<close> is never queued, so \<open>EXEC\<close> never finds itself. Both
  are shown below (\<open>script_dispatch_closed\<close>, \<open>exec_closed\<close>).
\<close>

definition unreachable :: handler where
  "unreachable out k ctx req w = (ctx, w, resp_none)"

definition no_dispatch :: dispatcher where
  "no_dispatch out k ctx request w = (ctx, w, resp_none)"

definition script_dispatch :: dispatcher where
  "script_dispatch = dispatch_with unreachable no_dispatch"

definition exec :: handler where
  "exec = cmd_exec unreachable script_dispatch"

definition dispatch :: "Outside \<Rightarrow> KvContext \<Rightarrow> RespValue \<Rightarrow> World \<Rightarrow> KvContext \<times> World \<times> RespValue" where
  "dispatch out = dispatch_with exec script_dispatch out []"

subsection \<open>Which handler runs\<close>

definition cmd_name :: "RespValue \<Rightarrow> string" where
  "cmd_name request = map to_lower (rstr (hd (rarray request)))"

lemma to_lower_letters:
  "to_lower CHR ''A'' = CHR ''a''" "to_lower CHR ''B'' = CHR ''b''" "to_lower CHR ''C'' = CHR ''c''"
  "to_lower CHR ''D'' = CHR ''d''" "to_lower CHR ''E'' = CHR ''e''" "to_lower CHR ''F'' = CHR ''f''"
  "to_lower CHR ''G'' = CHR ''g''" "to_lower CHR ''H'' = CHR ''h''" "to_lower CHR ''I'' = CHR ''i''"
  "to_lower CHR ''J'' = CHR ''j''" "to_lower CHR ''K'' = CHR ''k''" "to_lower CHR ''L'' = CHR ''l''"
  "to_lower CHR ''M'' = CHR ''m''" "to_lower CHR ''N'' = CHR ''n''" "to_lower CHR ''O'' = CHR ''o''"
  "to_lower CHR ''P'' = CHR ''p''" "to_lower CHR ''Q'' = CHR ''q''" "to_lower CHR ''R'' = CHR ''r''"
  "to_lower CHR ''S'' = CHR ''s''" "to_lower CHR ''T'' = CHR ''t''" "to_lower CHR ''U'' = CHR ''u''"
  "to_lower CHR ''V'' = CHR ''v''" "to_lower CHR ''W'' = CHR ''w''" "to_lower CHR ''X'' = CHR ''x''"
  "to_lower CHR ''Y'' = CHR ''y''" "to_lower CHR ''Z'' = CHR ''z''"
  by code_simp+

lemma to_upper_letters:
  "to_upper CHR ''A'' = CHR ''A''" "to_upper CHR ''B'' = CHR ''B''" "to_upper CHR ''C'' = CHR ''C''"
  "to_upper CHR ''D'' = CHR ''D''" "to_upper CHR ''E'' = CHR ''E''" "to_upper CHR ''F'' = CHR ''F''"
  "to_upper CHR ''G'' = CHR ''G''" "to_upper CHR ''H'' = CHR ''H''" "to_upper CHR ''I'' = CHR ''I''"
  "to_upper CHR ''J'' = CHR ''J''" "to_upper CHR ''K'' = CHR ''K''" "to_upper CHR ''L'' = CHR ''L''"
  "to_upper CHR ''M'' = CHR ''M''" "to_upper CHR ''N'' = CHR ''N''" "to_upper CHR ''O'' = CHR ''O''"
  "to_upper CHR ''P'' = CHR ''P''" "to_upper CHR ''Q'' = CHR ''Q''" "to_upper CHR ''R'' = CHR ''R''"
  "to_upper CHR ''S'' = CHR ''S''" "to_upper CHR ''T'' = CHR ''T''" "to_upper CHR ''U'' = CHR ''U''"
  "to_upper CHR ''V'' = CHR ''V''" "to_upper CHR ''W'' = CHR ''W''" "to_upper CHR ''X'' = CHR ''X''"
  "to_upper CHR ''Y'' = CHR ''Y''" "to_upper CHR ''Z'' = CHR ''Z''"
  by code_simp+

lemma to_lower_idem [simp]: "to_lower (to_lower c) = to_lower c"
  by (simp add: to_lower_def Let_def)

lemma find_handler_name:
  assumes "find_handler e d raw = Some c"
  shows "\<exists>n. (n, c) \<in> set (registered e d) \<and> map to_lower raw = map to_lower n"
proof -
  have "map_of (m_handlers e d) x = Some c \<Longrightarrow> \<exists>n. (n, c) \<in> set (registered e d) \<and> map to_lower x = map to_lower n" for x
    by (auto simp: m_handlers_def comp_def dest!: map_of_SomeD) (blast, blast)
  from this[of raw] this[of "map to_lower raw"] show ?thesis using assms
    by (auto simp: find_handler_def comp_def split: option.splits)
qed

lemma lower_specials: "map to_lower ''EXEC'' = ''exec''" "map to_lower ''EVAL'' = ''eval''" "map to_lower ''EVALSHA'' = ''evalsha''"
  by (simp_all add: to_lower_letters)

lemma find_handler_cases:
  assumes "find_handler e d raw = Some c"
  obtains (exec) "map to_lower raw = ''exec''" "c = e"
    | (eval) "map to_lower raw = ''eval''" "c = cmd_eval d"
    | (evalsha) "c = cmd_evalsha d"
    | (table) n where "(n, c) \<in> set base_table" "map to_lower n = map to_lower raw"
proof -
  obtain n where n: "(n, c) \<in> set (registered e d)" "map to_lower raw = map to_lower n" using find_handler_name[OF assms] by blast
  then consider "n = ''EXEC''" "c = e" | "n = ''EVAL''" "c = cmd_eval d" | "c = cmd_evalsha d" | "(n, c) \<in> set base_table"
    by (auto simp: registered_def)
  then show ?thesis
  proof cases
    case 1
    then show ?thesis using n(2) lower_specials(1) by (intro exec) simp_all
  next
    case 2
    then show ?thesis using n(2) lower_specials(2) by (intro eval) simp_all
  next
    case 3
    then show ?thesis by (rule evalsha)
  next
    case 4
    then show ?thesis using n(2) by (intro table[of n]) simp_all
  qed
qed

subsection \<open>Invariants of the dispatcher\<close>

text \<open>The commands that a script gets through to the dispatcher, whatever replies it gets, are \<open>allowed\<close>.\<close>

primrec lua_calls :: "(request \<Rightarrow> bool) \<Rightarrow> Outside \<Rightarrow> LuaRun \<Rightarrow> bool" where
  "lua_calls allowed out (LuaReturn v) = True"
| "lua_calls allowed out (LuaError err) = True"
| "lua_calls allowed out (LuaCall raise args ok bad) =
     ((args \<noteq> [] \<longrightarrow> upperArg (rstr (lua_arg out (hd args))) \<notin> set kNotInScript \<longrightarrow> allowed (map (lua_arg out) args)) \<and>
      (\<forall>v. lua_calls allowed out (ok v)) \<and> (\<forall>err. lua_calls allowed out (bad err)))"

definition ok_request :: "(request \<Rightarrow> bool) \<Rightarrow> RespValue \<Rightarrow> bool" where
  "ok_request allowed r \<longleftrightarrow> rtype r \<noteq> Array \<or> no_command r \<or> allowed (rarray r)"

definition keeps :: "(Outside \<Rightarrow> KvContext \<Rightarrow> World \<Rightarrow> bool) \<Rightarrow> Outside \<Rightarrow> KvContext \<times> World \<times> RespValue \<Rightarrow> bool" where
  "keeps I out r \<longleftrightarrow> I out (fst r) (fst (snd r))"

text \<open>
  What it takes for a property of sessions and the world to hold throughout: the handlers of the table keep it, as
  long as only \<open>allowed\<close> commands are sent, queued and called from scripts, and only scripts run that are
  \<open>text_ok\<close>; so do the steps of the dispatcher itself. Then \<open>dispatch\<close> keeps it, with transactions and scripts.
\<close>

locale dispatch_invariant =
  fixes I :: "Outside \<Rightarrow> KvContext \<Rightarrow> World \<Rightarrow> bool"
    and allowed :: "request \<Rightarrow> bool"
    and text_ok :: "string \<Rightarrow> bool"
    and S :: "Outside \<Rightarrow> bool"
  assumes base: "S out \<Longrightarrow> I out ctx w \<Longrightarrow> (n, c) \<in> set base_table \<Longrightarrow> map to_lower n = map to_lower (rstr (hd req)) \<Longrightarrow>
      allowed req \<Longrightarrow> keeps I out (c out k ctx req w)"
    and scripts: "S out \<Longrightarrow> text_ok script \<Longrightarrow> lua_calls allowed out (o_lua out script ks argv)"
    and source: "allowed req \<Longrightarrow> map to_lower (rstr (hd req)) = ''eval'' \<Longrightarrow> \<not> length req < 3 \<Longrightarrow> text_ok (str_or_empty (req ! 1))"
    and cached: "I out ctx w \<Longrightarrow> getScriptBody sha w \<noteq> [] \<Longrightarrow> text_ok (getScriptBody sha w)"
    and kill: "I out ctx w \<Longrightarrow> I out ctx (w\<lparr>wd_kill := b\<rparr>)"
    and slow: "I out ctx w \<Longrightarrow> I out ctx (w\<lparr>wd_slowlog := s\<rparr>)"
    and log: "I out ctx w \<Longrightarrow> I out ctx (propagate out cmd (log_command cmd w))"
    and leave: "I out ctx w \<Longrightarrow> I out (leave_multi ctx) (w\<lparr>wd_store := fst (watchConflict (o_hash out) es (wd_store w))\<rparr>)"
    and enqueue: "I out ctx w \<Longrightarrow> allowed (rarray r) \<Longrightarrow> rtype r = Array \<Longrightarrow> \<not> no_command r \<Longrightarrow>
      upperArg (rstr (hd (rarray r))) \<notin> {''EXEC'', ''DISCARD'', ''MULTI'', ''WATCH'', ''BLPOP'', ''BRPOP''} \<Longrightarrow>
      I out (ctx\<lparr>multi_queue := multi_queue ctx @ [r]\<rparr>) w"
    and queue: "I out ctx w \<Longrightarrow> r \<in> set (multi_queue ctx) \<Longrightarrow> ok_request allowed r"
begin

definition inv_handler :: "handler \<Rightarrow> bool" where
  "inv_handler c \<longleftrightarrow> (\<forall>out k ctx req w. S out \<longrightarrow> I out ctx w \<longrightarrow> keeps I out (c out k ctx req w))"

definition inv_dispatcher :: "dispatcher \<Rightarrow> bool" where
  "inv_dispatcher d \<longleftrightarrow> (\<forall>out k ctx r w. S out \<longrightarrow> I out ctx w \<longrightarrow> ok_request allowed r \<longrightarrow> keeps I out (d out k ctx r w))"

lemma ok_array: "allowed req \<Longrightarrow> ok_request allowed (array_of req)"
  by (simp add: ok_request_def array_of_def)

lemma inv_call:
  assumes "inv_dispatcher d" "S out" "I out ctx w"
    "args \<noteq> [] \<longrightarrow> upperArg (rstr (lua_arg out (hd args))) \<notin> set kNotInScript \<longrightarrow> allowed (map (lua_arg out) args)"
  shows "I out (fst (luaRedisCallImpl d out k raise args ctx w)) (fst (snd (luaRedisCallImpl d out k raise args ctx w)))"
proof (cases "args = [] \<or> upperArg (rstr (lua_arg out (hd args))) \<in> set kNotInScript")
  case False
  then have "ok_request allowed (array_of (map (lua_arg out) args))" using assms(4) by (intro ok_array) simp
  then have "keeps I out (d out k ctx (array_of (map (lua_arg out) args)) w)"
    using assms(1-3) by (simp add: inv_dispatcher_def)
  then show ?thesis using False assms(3) by (simp add: luaRedisCallImpl_def Let_def case_prod_unfold keeps_def hd_map)
qed (use assms(3) in \<open>auto simp: luaRedisCallImpl_def Let_def hd_map\<close>)

lemma inv_run_lua:
  assumes "inv_dispatcher d" "S out"
  shows "lua_calls allowed out run \<Longrightarrow> I out ctx w \<Longrightarrow> keeps I out (run_lua run d out k i ctx w)"
proof (induction run arbitrary: i ctx w)
  case (LuaCall raise args ok bad)
  have "I out (fst (luaRedisCallImpl d out (k @ [i]) raise args ctx w)) (fst (snd (luaRedisCallImpl d out (k @ [i]) raise args ctx w)))"
    using inv_call[OF assms LuaCall.prems(2)] LuaCall.prems(1) by simp
  then show ?case using LuaCall.IH LuaCall.prems(1) by (auto split: prod.splits sum.splits)
qed (simp_all add: keeps_def)

lemma inv_eval:
  assumes "inv_dispatcher d" "S out" "I out ctx w"
  shows "allowed req \<Longrightarrow> map to_lower (rstr (hd req)) = ''eval'' \<Longrightarrow> keeps I out (cmd_eval d out k ctx req w)"
    and "keeps I out (cmd_evalsha d out k ctx req w)"
proof -
  have run: "keeps I out (lua_eval d out k script ks argv ctx w)" if "text_ok script" for script ks argv
    unfolding lua_eval_def by (rule inv_run_lua[OF assms(1,2) scripts[OF assms(2) that] kill[OF assms(3)]])
  show "keeps I out (cmd_eval d out k ctx req w)" if "allowed req" "map to_lower (rstr (hd req)) = ''eval''"
    using run[OF source[OF that]] assms(3) by (simp add: cmd_eval_def Let_def case_prod_unfold) (simp add: keeps_def)
  show "keeps I out (cmd_evalsha d out k ctx req w)"
    using run[OF cached[OF assms(3)]] assms(3) by (simp add: cmd_evalsha_def Let_def case_prod_unfold) (simp add: keeps_def)
qed

lemma inv_find:
  assumes "inv_handler e" "inv_dispatcher d" "find_handler e d (rstr (hd req)) = Some c" "allowed req" "S out" "I out ctx w"
  shows "keeps I out (c out k ctx req w)"
  using assms(3)
proof (cases rule: find_handler_cases)
  case (table n)
  then show ?thesis using assms base[of out ctx w n c req k] by simp
next
  case eval
  then show ?thesis using inv_eval(1)[OF assms(2,5,6,4)] by simp
next
  case evalsha
  then show ?thesis using inv_eval(2)[OF assms(2,5,6)] by simp
qed (use assms in \<open>auto simp: inv_handler_def\<close>)

lemma inv_execOne:
  assumes "inv_handler e" "inv_dispatcher d"
  shows "inv_dispatcher (dispatchExecOne e d)"
  unfolding inv_dispatcher_def
proof (intro allI impI)
  fix out :: Outside and k and ctx :: KvContext and r and w :: World
  assume "S out" "I out ctx w" "ok_request allowed r"
  then show "keeps I out (dispatchExecOne e d out k ctx r w)"
    using inv_find[OF assms]
    by (auto simp: dispatchExecOne_def Let_def ok_request_def split: option.split) (auto simp: keeps_def)
qed

lemma inv_exec_loop:
  assumes "inv_handler e" "inv_dispatcher d" "S out"
  shows "I out ctx w \<Longrightarrow> list_all (ok_request allowed) q \<Longrightarrow> keeps I out (exec_loop e d out k i q acc ctx w)"
proof (induction q arbitrary: i acc ctx w)
  case (Cons cmd q)
  have "keeps I out (dispatchExecOne e d out (k @ [i]) ctx cmd w)"
    using inv_execOne[OF assms(1,2)] assms(3) Cons.prems by (simp add: inv_dispatcher_def)
  then show ?case using Cons.IH Cons.prems(2) log by (auto simp: keeps_def[of I out "dispatchExecOne _ _ _ _ _ _ _"] case_prod_unfold)
qed (simp add: keeps_def)

lemma inv_exec:
  assumes "inv_handler e" "inv_dispatcher d"
  shows "inv_handler (cmd_exec e d)"
  unfolding inv_handler_def
proof (intro allI impI)
  fix out :: Outside and k and ctx :: KvContext and req and w :: World
  assume *: "S out" "I out ctx w"
  have "list_all (ok_request allowed) (multi_queue ctx)" using queue[OF *(2)] by (simp add: list_all_iff)
  then show "keeps I out (cmd_exec e d out k ctx req w)"
    using inv_exec_loop[OF assms *(1) leave[OF *(2), of "ctx_watched ctx"], of "multi_queue ctx" k 0 "[]"]
      leave[OF *(2), of "ctx_watched ctx"] *(2)
    by (cases "watchConflict (o_hash out) (ctx_watched ctx) (wd_store w)") (auto simp: cmd_exec_def keeps_def split: bool.split)
qed

lemma inv_dispatch_with:
  assumes "inv_handler e" "inv_dispatcher d"
  shows "inv_dispatcher (dispatch_with e d)"
  unfolding inv_dispatcher_def
proof (intro allI impI)
  fix out :: Outside and k and ctx :: KvContext and r and w :: World
  assume *: "S out" "I out ctx w" "ok_request allowed r"
  have run: "keeps I out (run_command e d out k ctx r w)" if "rtype r = Array" "\<not> no_command r"
  proof (cases "find_handler e d (rstr (hd (rarray r)))")
    case (Some c)
    have "allowed (rarray r)" using *(3) that by (simp add: ok_request_def)
    from inv_find[OF assms Some this *(1,2), of k] show ?thesis
      by (simp add: run_command_def Some case_prod_unfold keeps_def slow)
  qed (use *(2) in \<open>simp add: run_command_def keeps_def\<close>)
  then show "keeps I out (dispatch_with e d out k ctx r w)"
    using * enqueue[OF *(2), of r]
    by (auto simp: dispatch_with_def Let_def ok_request_def split: option.split) (auto simp: keeps_def)
qed

lemma inv_dispatch:
  assumes "S out" "I out ctx w" "ok_request allowed r"
  shows "I out (fst (dispatch out ctx r w)) (fst (snd (dispatch out ctx r w)))"
proof -
  have u: "inv_handler unreachable" "inv_dispatcher no_dispatch"
    by (simp_all add: inv_handler_def inv_dispatcher_def unreachable_def no_dispatch_def keeps_def)
  have s: "inv_dispatcher script_dispatch" unfolding script_dispatch_def by (rule inv_dispatch_with[OF u])
  have "inv_dispatcher (dispatch_with exec script_dispatch)"
    unfolding exec_def by (intro inv_dispatch_with inv_exec u s)
  then show ?thesis using assms by (simp add: inv_dispatcher_def dispatch_def keeps_def)
qed

end

end
