(* ===== verification/Served.thy ===== *)
theory Served
  imports Dispatch
begin

text \<open>
  What holds of the server while it serves: the invariant of the store, the queues of the sessions, and that the
  bounds with which the dispatcher is defined are never reached.
\<close>

subsection \<open>Handlers and the store\<close>

text \<open>
  A world whose store is well formed and whose cached scripts are among the texts \<open>G\<close>; what runs while a command
  waits keeps it so.
\<close>

definition good_world :: "string set \<Rightarrow> hasher \<Rightarrow> World \<Rightarrow> bool" where
  "good_world G h w \<longleftrightarrow> wf_store h (wd_store w) \<and> snd ` set (wd_scripts w) \<subseteq> G"

definition waits_ok :: "string set \<Rightarrow> Outside \<Rightarrow> bool" where
  "waits_ok G out \<longleftrightarrow> (\<forall>x w. good_world G (o_hash out) w \<longrightarrow> good_world G (o_hash out) (fst (o_wait out x w)))"

definition handler_wf :: "string set \<Rightarrow> handler \<Rightarrow> bool" where
  "handler_wf G c \<longleftrightarrow> (\<forall>out k ctx req w. waits_ok G out \<longrightarrow> good_world G (o_hash out) w \<longrightarrow>
     good_world G (o_hash out) (fst (snd (c out k ctx req w))))"

lemma handler_wfI:
  "(\<And>out k ctx req w. waits_ok G out \<Longrightarrow> good_world G (o_hash out) w \<Longrightarrow>
      good_world G (o_hash out) (fst (snd (c out k ctx req w)))) \<Longrightarrow> handler_wf G c"
  by (simp add: handler_wf_def)

lemma handler_wfD:
  "handler_wf G c \<Longrightarrow> waits_ok G out \<Longrightarrow> good_world G (o_hash out) w \<Longrightarrow>
   good_world G (o_hash out) (fst (snd (c out k ctx req w)))"
  by (simp add: handler_wf_def)

text \<open>A handler that leaves the scripts alone.\<close>

lemma handler_wf_store:
  assumes "\<And>out k ctx req w. wf_store (o_hash out) (wd_store w) \<Longrightarrow> wf_store (o_hash out) (wd_store (fst (snd (c out k ctx req w))))"
    and "\<And>out k ctx req w. wd_scripts (fst (snd (c out k ctx req w))) = wd_scripts w"
  shows "handler_wf G c"
  using assms by (simp add: handler_wf_def good_world_def)

lemma wf_on_store: "keeps_wf c \<Longrightarrow> handler_wf G (on_store c)"
  using keeps_wfD[of c "env _ _"] by (intro handler_wf_store) (simp_all add: on_store_def env_def case_prod_unfold)

lemma wf_watchConflict: "wf_store h st \<Longrightarrow> wf_store h (fst (watchConflict h es st))"
proof (induction h es st rule: watchConflict.induct)
  case (2 h e es st)
  then show ?case using wf_watchToken[OF "2.prems", of "we_db e" "we_key e"] by (auto split: prod.split)
qed simp

lemma wf_watch_loop: "wf_store h st \<Longrightarrow> wf_store h (fst (snd (watch_loop h vs ctx st)))"
proof (induction vs arbitrary: ctx st)
  case (Cons v r)
  then show ?case using wf_watchToken[OF Cons.prems, of "ctx_db ctx" "rstr v"] by (auto split: prod.split)
qed simp

lemma wf_pop_first: "wf_store h st \<Longrightarrow> wf_store h (fst (pop_first h clock i db left ks st))"
proof (induction h clock i db left ks st rule: pop_first.induct)
  case (2 h clock i db left key ks st)
  have "wf_store h (fst (listPop h db key left (clock i) st))" using "2.prems" by (rule wf_rules)
  then show ?case using 2 by (auto split: prod.split sum.split option.split)
qed simp

lemma good_store:
  "good_world G h w \<Longrightarrow> wf_store h st \<Longrightarrow> good_world G h (w\<lparr>wd_store := st\<rparr>)"
  "good_world G h w \<Longrightarrow> wf_store h (wd_store w)"
  by (simp_all add: good_world_def)

lemma good_notify: "good_world G (o_hash out) w \<Longrightarrow> good_world G (o_hash out) (notifyListPush out clock db key w)"
  using wf_onPush[of "o_hash out" "wd_store w" clock db key "wd_waiters w"]
  by (simp add: notifyListPush_def good_world_def case_prod_unfold)

lemma good_wait_in_hub:
  "waits_ok G out \<Longrightarrow> good_world G (o_hash out) w \<Longrightarrow> good_world G (o_hash out) (fst (wait_in_hub out x w))"
  by (simp add: wait_in_hub_def waits_ok_def good_world_def case_prod_unfold)

lemma wf_push_cmd: "handler_wf G (push_cmd cmd left)"
proof (rule handler_wfI)
  fix out :: Outside and k and ctx :: KvContext and req and w :: World
  assume good: "good_world G (o_hash out) w"
  have p: "wf_store (o_hash out) st" if "listPush (o_hash out) db key vs left now (wd_store w) = (st, r)"
    for db key vs now st r using wf_list_ops(1)[OF good_store(2)[OF good]] that by (metis fst_conv)
  show "good_world G (o_hash out) (fst (snd (push_cmd cmd left out k ctx req w)))"
    using good by (auto simp: push_cmd_def dest: p intro!: good_notify good_store(1) split: option.split prod.split sum.split)
qed

lemma wf_tryBlockingPop: "handler_wf G (tryBlockingPop right)"
proof (rule handler_wfI)
  fix out :: Outside and k and ctx :: KvContext and req and w :: World
  assume out: "waits_ok G out" and good: "good_world G (o_hash out) w"
  have w: "good_world G (o_hash out) (w\<lparr>wd_store := st\<rparr>)" if "pop_first (o_hash out) (o_clock out k) 0 (ctx_db ctx) (\<not> right) ks (wd_store w) = (st, i, r)"
    for ks st i r using wf_pop_first[OF good_store(2)[OF good]] good_store(1)[OF good] that by (metis fst_conv)
  have v: "good_world G (o_hash out) w2" if "wait_in_hub out x w1 = (w2, r)" "good_world G (o_hash out) w1"
    for x w1 w2 r using good_wait_in_hub[OF out] that by (metis fst_conv)
  show "good_world G (o_hash out) (fst (snd (tryBlockingPop right out k ctx req w)))"
    using good by (auto simp: tryBlockingPop_def Let_def dest: w dest!: v split: option.split prod.split sum.split)
qed

lemma wf_brpoplpush: "handler_wf G cmd_brpoplpush"
proof (rule handler_wfI)
  fix out :: Outside and k and ctx :: KvContext and req and w :: World
  assume out: "waits_ok G out" and good: "good_world G (o_hash out) w"
  have r: "wf_store (o_hash out) st" if "listRPopLPush (o_hash out) db src dst a b (wd_store w) = (st, x)" for db src dst a b st x
    using wf_listRPopLPush[OF good_store(2)[OF good]] that by (metis fst_conv)
  have v: "good_world G (o_hash out) w2" if "wait_in_hub out x w1 = (w2, r)" "good_world G (o_hash out) w1"
    for x w1 w2 r using good_wait_in_hub[OF out] that by (metis fst_conv)
  have p: "good_world G (o_hash out) (w1\<lparr>wd_store := st\<rparr>)"
    if "good_world G (o_hash out) w1" "listPush (o_hash out) db key vs left now (wd_store w1) = (st, r)"
    for db key vs left now w1 st r using wf_list_ops(1)[OF good_store(2)[OF that(1)]] good_store(1)[OF that(1)] that(2) by (metis fst_conv)
  show "good_world G (o_hash out) (fst (snd (cmd_brpoplpush out k ctx req w)))"
    using good by (auto simp: cmd_brpoplpush_def Let_def dest!: r dest!: v intro: good_store(1) p intro!: good_notify
        split: option.split prod.split sum.split bool.split)
qed

lemma wf_cmd_watch: "handler_wf G cmd_watch"
  using wf_watch_loop by (intro handler_wf_store) (simp_all add: cmd_watch_def case_prod_unfold)

lemma wf_cmd_info: "handler_wf G cmd_info"
proof (rule handler_wf_store)
  fix out :: Outside and k and ctx :: KvContext and req and w :: World
  assume "wf_store (o_hash out) (wd_store w)"
  then have "wf_store (o_hash out) (fst (expireCount db b (fst (dbsize db a (wd_store w)))))" for db a b by (intro wf_rules)
  then show "wf_store (o_hash out) (wd_store (fst (snd (cmd_info out k ctx req w))))"
    by (simp add: cmd_info_def buildInfoText_def case_prod_unfold)
qed (simp add: cmd_info_def buildInfoText_def case_prod_unfold)

lemma wf_rdbPath: "wf_store h st \<Longrightarrow> wf_store h (st\<lparr>m_rdbPath := p\<rparr>)"
  by (simp add: wf_store_def)

lemma wf_cmd_config: "handler_wf G cmd_config"
  by (rule handler_wf_store)
    (auto simp: cmd_config_def configSet_def set_number_def Let_def wf_rdbPath intro: wf_settings
      split: prod.split option.split)

lemma store_unchanged:
  "wd_store (fst (snd (cmd_ping out k ctx req w))) = wd_store w" "wd_store (fst (snd (cmd_echo out k ctx req w))) = wd_store w"
  "wd_store (fst (snd (cmd_select out k ctx req w))) = wd_store w" "wd_store (fst (snd (cmd_auth out k ctx req w))) = wd_store w"
  "wd_store (fst (snd (cmd_quit out k ctx req w))) = wd_store w" "wd_store (fst (snd (cmd_client out k ctx req w))) = wd_store w"
  "wd_store (fst (snd (cmd_lastsave out k ctx req w))) = wd_store w" "wd_store (fst (snd (cmd_time out k ctx req w))) = wd_store w"
  "wd_store (fst (snd (cmd_unwatch out k ctx req w))) = wd_store w" "wd_store (fst (snd (cmd_multi out k ctx req w))) = wd_store w"
  "wd_store (fst (snd (cmd_discard out k ctx req w))) = wd_store w" "wd_store (fst (snd (cmd_subscribe out k ctx req w))) = wd_store w"
  "wd_store (fst (snd (cmd_psubscribe out k ctx req w))) = wd_store w"
  "wd_store (fst (snd (cmd_unsubscribe out k ctx req w))) = wd_store w"
  "wd_store (fst (snd (cmd_punsubscribe out k ctx req w))) = wd_store w"
  "wd_store (fst (snd (cmd_publish out k ctx req w))) = wd_store w" "wd_store (fst (snd (cmd_slowlog out k ctx req w))) = wd_store w"
  "wd_store (fst (snd (cmd_role out k ctx req w))) = wd_store w" "wd_store (fst (snd (cmd_slaveof out k ctx req w))) = wd_store w"
  "wd_store (fst (snd (cmd_psync out k ctx req w))) = wd_store w" "wd_store (fst (snd (cmd_bgsave out k ctx req w))) = wd_store w"
  "wd_store (fst (snd (cmd_bgrewriteaof out k ctx req w))) = wd_store w" "wd_store (fst (snd (cmd_dump out k ctx req w))) = wd_store w"
  by (simp_all add: cmd_ping_def cmd_echo_def cmd_select_def cmd_auth_def cmd_quit_def cmd_client_def cmd_lastsave_def
      cmd_time_def cmd_unwatch_def cmd_multi_def cmd_discard_def cmd_subscribe_def cmd_psubscribe_def subscribe_cmd_def
      cmd_unsubscribe_def cmd_punsubscribe_def cmd_publish_def cmd_slowlog_def cmd_role_def cmd_slaveof_def Let_def
      cmd_psync_def cmd_bgsave_def cmd_bgrewriteaof_def cmd_dump_def split: option.split prod.split PsyncKind.split)

lemma scripts_unchanged:
  "wd_scripts (fst (snd (cmd_ping out k ctx req w))) = wd_scripts w" "wd_scripts (fst (snd (cmd_echo out k ctx req w))) = wd_scripts w"
  "wd_scripts (fst (snd (cmd_select out k ctx req w))) = wd_scripts w" "wd_scripts (fst (snd (cmd_auth out k ctx req w))) = wd_scripts w"
  "wd_scripts (fst (snd (cmd_quit out k ctx req w))) = wd_scripts w" "wd_scripts (fst (snd (cmd_client out k ctx req w))) = wd_scripts w"
  "wd_scripts (fst (snd (cmd_lastsave out k ctx req w))) = wd_scripts w" "wd_scripts (fst (snd (cmd_time out k ctx req w))) = wd_scripts w"
  "wd_scripts (fst (snd (cmd_unwatch out k ctx req w))) = wd_scripts w" "wd_scripts (fst (snd (cmd_multi out k ctx req w))) = wd_scripts w"
  "wd_scripts (fst (snd (cmd_discard out k ctx req w))) = wd_scripts w" "wd_scripts (fst (snd (cmd_subscribe out k ctx req w))) = wd_scripts w"
  "wd_scripts (fst (snd (cmd_psubscribe out k ctx req w))) = wd_scripts w"
  "wd_scripts (fst (snd (cmd_unsubscribe out k ctx req w))) = wd_scripts w"
  "wd_scripts (fst (snd (cmd_punsubscribe out k ctx req w))) = wd_scripts w"
  "wd_scripts (fst (snd (cmd_publish out k ctx req w))) = wd_scripts w" "wd_scripts (fst (snd (cmd_slowlog out k ctx req w))) = wd_scripts w"
  "wd_scripts (fst (snd (cmd_role out k ctx req w))) = wd_scripts w" "wd_scripts (fst (snd (cmd_slaveof out k ctx req w))) = wd_scripts w"
  "wd_scripts (fst (snd (cmd_psync out k ctx req w))) = wd_scripts w" "wd_scripts (fst (snd (cmd_bgsave out k ctx req w))) = wd_scripts w"
  "wd_scripts (fst (snd (cmd_bgrewriteaof out k ctx req w))) = wd_scripts w" "wd_scripts (fst (snd (cmd_dump out k ctx req w))) = wd_scripts w"
  by (simp_all add: cmd_ping_def cmd_echo_def cmd_select_def cmd_auth_def cmd_quit_def cmd_client_def cmd_lastsave_def
      cmd_time_def cmd_unwatch_def cmd_multi_def cmd_discard_def cmd_subscribe_def cmd_psubscribe_def subscribe_cmd_def
      cmd_unsubscribe_def cmd_punsubscribe_def cmd_publish_def cmd_slowlog_def cmd_role_def cmd_slaveof_def Let_def
      cmd_psync_def cmd_bgsave_def cmd_bgrewriteaof_def cmd_dump_def split: option.split prod.split PsyncKind.split)

lemma wf_quiet:
  "handler_wf G cmd_ping" "handler_wf G cmd_echo" "handler_wf G cmd_select" "handler_wf G cmd_auth"
  "handler_wf G cmd_quit" "handler_wf G cmd_client" "handler_wf G cmd_lastsave" "handler_wf G cmd_time"
  "handler_wf G cmd_unwatch" "handler_wf G cmd_multi" "handler_wf G cmd_discard" "handler_wf G cmd_subscribe"
  "handler_wf G cmd_psubscribe" "handler_wf G cmd_unsubscribe" "handler_wf G cmd_punsubscribe"
  "handler_wf G cmd_publish" "handler_wf G cmd_slowlog" "handler_wf G cmd_role" "handler_wf G cmd_slaveof"
  "handler_wf G cmd_psync" "handler_wf G cmd_bgsave" "handler_wf G cmd_bgrewriteaof" "handler_wf G cmd_dump"
  by (simp_all add: handler_wf_def good_world_def store_unchanged scripts_unchanged)

lemma wf_pushes: "handler_wf G cmd_lpush" "handler_wf G cmd_rpush" "handler_wf G cmd_blpop" "handler_wf G cmd_brpop"
  by (simp_all add: cmd_lpush_def cmd_rpush_def cmd_blpop_def cmd_brpop_def wf_push_cmd wf_tryBlockingPop)

lemma saveRdb_scripts: "wd_scripts (fst (saveRdb out clock w)) = wd_scripts w"
  by (simp add: saveRdb_def Let_def split: option.split)

lemma wf_saves: "handler_wf G cmd_save" "handler_wf G cmd_shutdown"
  by (rule handler_wf_store;
      simp add: cmd_save_def cmd_shutdown_def shutdown_fn_def Let_def case_prod_unfold saveRdb_store(1) saveRdb_scripts split: option.split)+

text \<open>All handlers but those of \<open>RESTORE\<close>, whose payload can be forged, and of \<open>SCRIPT\<close>.\<close>

lemma wf_session_table: "(n, c) \<in> set session_table \<Longrightarrow> n \<notin> {''RESTORE'', ''SCRIPT''} \<Longrightarrow> handler_wf G c"
proof -
  have "list_all (\<lambda>(n, c). n \<in> {''RESTORE'', ''SCRIPT''} \<or> handler_wf G c) session_table"
    unfolding session_table_def by (simp add: wf_quiet wf_pushes wf_brpoplpush wf_cmd_watch wf_cmd_info wf_cmd_config wf_saves)
  then show "(n, c) \<in> set session_table \<Longrightarrow> n \<notin> {''RESTORE'', ''SCRIPT''} \<Longrightarrow> handler_wf G c"
    by (fastforce simp: list_all_iff)
qed

lemma wf_store_table: "(n, c) \<in> set store_table \<Longrightarrow> keeps_wf c"
  unfolding store_table_def by (auto intro: cmd_wf)

lemma wf_cmd_restore:
  assumes "length req > 3 \<Longrightarrow> sound_payload (arg req 3)" "wf_store (o_hash out) (wd_store w)"
  shows "wf_store (o_hash out) (wd_store (fst (snd (cmd_restore out k ctx req w))))"
    "wd_scripts (fst (snd (cmd_restore out k ctx req w))) = wd_scripts w"
proof -
  have "wf_store (o_hash out) (fst (restoreKey (o_hash out) u db key life (arg req 3) r now (wd_store w)))"
    if "length req > 3" for u db key life r now by (rule wf_restoreKey[OF assms(2) assms(1)[OF that]])
  then show "wf_store (o_hash out) (wd_store (fst (snd (cmd_restore out k ctx req w))))"
    using assms(2) by (auto simp: cmd_restore_def Let_def case_prod_unfold split: option.split sum.split)
  show "wd_scripts (fst (snd (cmd_restore out k ctx req w))) = wd_scripts w"
    by (simp add: cmd_restore_def Let_def case_prod_unfold split: option.split sum.split)
qed

lemma set_AList_update: "(a, b) \<in> set (AList.update k v xs) \<Longrightarrow> b = v \<or> (a, b) \<in> set xs"
  by (induction xs) (auto split: if_splits)

lemma wf_cmd_script:
  assumes "length req > 2 \<Longrightarrow> upperArg (arg req 1) = ''LOAD'' \<Longrightarrow> arg req 2 \<in> G" "good_world G h w"
  shows "good_world G h (fst (snd (cmd_script out k ctx req w)))"
  using assms by (auto simp: cmd_script_def good_world_def scriptLoad_def scriptKill_def scriptFlush_def Let_def
      dest!: set_AList_update)

subsection \<open>Handlers and the queue\<close>

definition queue_ok :: "handler \<Rightarrow> bool" where
  "queue_ok c \<longleftrightarrow> (\<forall>out k ctx req w. multi_queue (fst (c out k ctx req w)) = multi_queue ctx \<or> multi_queue (fst (c out k ctx req w)) = [])"

lemma queue_on_store: "queue_ok (on_store c)"
  by (simp add: queue_ok_def on_store_def case_prod_unfold)

lemma queue_watch_loop: "multi_queue (fst (watch_loop h vs ctx st)) = multi_queue ctx"
  by (induction vs arbitrary: ctx st) (simp_all add: case_prod_unfold)

lemma queue_leave_pubsub: "multi_queue (leave_pubsub s hub ctx) = multi_queue ctx"
  by (simp add: leave_pubsub_def)

lemma queue_connection:
  "queue_ok cmd_ping" "queue_ok cmd_echo" "queue_ok cmd_select" "queue_ok cmd_auth" "queue_ok cmd_quit"
  "queue_ok cmd_client" "queue_ok cmd_lastsave" "queue_ok cmd_time" "queue_ok cmd_watch" "queue_ok cmd_unwatch"
  "queue_ok cmd_multi" "queue_ok cmd_discard"
  by (simp_all add: queue_ok_def cmd_ping_def cmd_echo_def cmd_select_def cmd_auth_def cmd_quit_def cmd_client_def
      cmd_lastsave_def cmd_time_def cmd_watch_def cmd_unwatch_def cmd_multi_def cmd_discard_def clearWatch_def
      leave_multi_def queue_watch_loop Let_def case_prod_unfold split: option.split)

lemma queue_lists:
  "queue_ok cmd_lpush" "queue_ok cmd_rpush" "queue_ok cmd_blpop" "queue_ok cmd_brpop" "queue_ok cmd_brpoplpush"
  by (auto simp: queue_ok_def cmd_lpush_def cmd_rpush_def push_cmd_def cmd_blpop_def cmd_brpop_def tryBlockingPop_def
      cmd_brpoplpush_def Let_def split: option.split prod.split sum.split bool.split)

lemma queue_admin:
  "queue_ok cmd_subscribe" "queue_ok cmd_psubscribe" "queue_ok cmd_unsubscribe" "queue_ok cmd_punsubscribe" "queue_ok cmd_publish"
  "queue_ok cmd_slowlog" "queue_ok cmd_config" "queue_ok cmd_role" "queue_ok cmd_slaveof" "queue_ok cmd_info"
  by (auto simp: queue_ok_def cmd_subscribe_def cmd_psubscribe_def subscribe_cmd_def cmd_unsubscribe_def cmd_punsubscribe_def
      cmd_publish_def cmd_slowlog_def cmd_config_def cmd_role_def cmd_slaveof_def cmd_info_def queue_leave_pubsub Let_def
      split: option.split prod.split)

lemma queue_persist:
  "queue_ok cmd_psync" "queue_ok cmd_save" "queue_ok cmd_bgsave" "queue_ok cmd_bgrewriteaof" "queue_ok cmd_dump"
  "queue_ok cmd_restore" "queue_ok cmd_shutdown" "queue_ok cmd_script"
  by (auto simp: queue_ok_def cmd_psync_def cmd_save_def cmd_bgsave_def cmd_bgrewriteaof_def cmd_dump_def cmd_restore_def
      cmd_shutdown_def cmd_script_def Let_def split: option.split prod.split sum.split PsyncKind.split)

lemma queue_base: "(n, c) \<in> set base_table \<Longrightarrow> queue_ok c"
  unfolding base_table_def session_table_def
  by (auto simp: queue_on_store queue_connection queue_lists queue_admin queue_persist)

lemma queue_kept: "queue_ok c \<Longrightarrow> list_all P (multi_queue ctx) \<Longrightarrow> list_all P (multi_queue (fst (c out k ctx req w)))"
  unfolding queue_ok_def by (metis list.pred_inject(1))

lemma queue_leave [simp]: "multi_queue (leave_multi ctx) = []"
  by (simp add: leave_multi_def clearWatch_def)

text \<open>Commands that are answered at once inside a transaction are never queued.\<close>

definition plain :: "RespValue \<Rightarrow> bool" where
  "plain r \<longleftrightarrow> rtype r = Array \<and> \<not> no_command r \<and>
     upperArg (rstr (hd (rarray r))) \<notin> {''EXEC'', ''DISCARD'', ''MULTI'', ''WATCH'', ''BLPOP'', ''BRPOP''}"

interpretation queues: dispatch_invariant "\<lambda>out ctx w. list_all plain (multi_queue ctx)" "\<lambda>r. True" "\<lambda>s. True" "\<lambda>out. True"
proof (unfold_locales, goal_cases)
  case (1 out ctx w n c k req)
  then show ?case using queue_kept[OF queue_base] by (simp add: keeps_def)
next
  case (2 out script ks argv)
  have "lua_calls (\<lambda>r. True) out run" for run by (induction run) simp_all
  then show ?case .
qed (simp_all add: plain_def ok_request_def)

lemma to_upper_lower: "to_upper (to_lower c) = to_upper c"
  by (auto simp: to_lower_def to_upper_def Let_def)

lemma upper_of_lower: "map to_lower raw = map to_lower n \<Longrightarrow> upperArg raw = upperArg n"
proof -
  assume "map to_lower raw = map to_lower n"
  then have "map to_upper (map to_lower raw) = map to_upper (map to_lower n)" by simp
  then show ?thesis by (simp add: upperArg_def comp_def to_upper_lower)
qed

lemma to_lower_small:
  "to_lower CHR ''e'' = CHR ''e''" "to_lower CHR ''x'' = CHR ''x''" "to_lower CHR ''c'' = CHR ''c''" "to_lower CHR ''v'' = CHR ''v''"
  "to_lower CHR ''a'' = CHR ''a''" "to_lower CHR ''l'' = CHR ''l''" "to_lower CHR ''s'' = CHR ''s''" "to_lower CHR ''h'' = CHR ''h''"
  by code_simp+

lemma m_handlers_split:
  "map_of (m_handlers e d) x =
     (if x = ''EXEC'' \<or> x = ''exec'' then Some e else if x = ''EVAL'' \<or> x = ''eval'' then Some (cmd_eval d)
      else if x = ''EVALSHA'' \<or> x = ''evalsha'' then Some (cmd_evalsha d)
      else map_of (concat (map (\<lambda>(n, c). [(n, c), (map to_lower n, c)]) base_table)) x)"
  by (simp add: m_handlers_def registered_def to_lower_letters)

lemma find_handler_indep:
  assumes "map to_lower raw \<noteq> ''exec''" "map to_lower raw \<noteq> ''eval'' \<and> map to_lower raw \<noteq> ''evalsha'' \<or> d = d'"
  shows "find_handler e d raw = find_handler e' d' raw"
proof -
  have same: "map_of (m_handlers e d) x = map_of (m_handlers e' d') x" if x: "map to_lower x = map to_lower raw" for x
  proof -
    have "x \<noteq> ''EXEC''" "x \<noteq> ''exec''" using assms(1) x by (auto simp: to_lower_letters to_lower_small)
    moreover have "d = d' \<or> x \<noteq> ''EVAL'' \<and> x \<noteq> ''eval'' \<and> x \<noteq> ''EVALSHA'' \<and> x \<noteq> ''evalsha''"
      using assms(2) x by (auto simp: to_lower_letters to_lower_small)
    ultimately show ?thesis unfolding m_handlers_split by auto
  qed
  from same[of raw] same[of "map to_lower raw"] show ?thesis by (simp add: find_handler_def comp_def split: option.split)
qed

lemma dispatchExecOne_indep:
  "cmd_name r \<noteq> ''exec'' \<Longrightarrow> dispatchExecOne e d out k ctx r w = dispatchExecOne e' d out k ctx r w"
  using find_handler_indep[of "rstr (hd (rarray r))" d d e e'] by (simp add: dispatchExecOne_def cmd_name_def Let_def)

lemma plain_name: "plain r \<Longrightarrow> cmd_name r \<noteq> ''exec''"
proof
  assume p: "plain r" and "cmd_name r = ''exec''"
  then have "map to_lower (rstr (hd (rarray r))) = map to_lower ''EXEC''" by (simp add: cmd_name_def to_lower_letters)
  from upper_of_lower[OF this] have "upperArg (rstr (hd (rarray r))) = ''EXEC''" by (simp add: upperArg_def to_upper_letters)
  then show False using p by (simp add: plain_def)
qed

text \<open>The two bounds are never reached: the handler of \<open>EXEC\<close> does not depend on what it finds for \<open>EXEC\<close>, in every
  context whose queue holds only commands that can be queued; and the dispatcher of scripts does not depend on the
  handlers of the commands that scripts may not call.\<close>

lemma exec_closed:
  assumes "list_all plain (multi_queue ctx)"
  shows "cmd_exec e d out k ctx req w = cmd_exec e' d out k ctx req w"
proof -
  have "list_all plain q \<Longrightarrow> exec_loop e d out k i q acc ctx w = exec_loop e' d out k i q acc ctx w" for i q acc ctx w
  proof (induction q arbitrary: i acc ctx w)
    case (Cons r q)
    then have "dispatchExecOne e d out (k @ [i]) ctx r w = dispatchExecOne e' d out (k @ [i]) ctx r w"
      using dispatchExecOne_indep[OF plain_name] by simp
    then show ?case using Cons by (simp split: prod.split)
  qed simp
  then show ?thesis using assms by (simp add: cmd_exec_def split: prod.split bool.split)
qed

lemma script_dispatch_closed:
  assumes "upperArg (rstr (hd (rarray r))) \<notin> set kNotInScript"
  shows "dispatch_with e d out k ctx r w = dispatch_with e' d' out k ctx r w"
proof -
  let ?raw = "rstr (hd (rarray r))"
  have "map to_lower ?raw \<noteq> map to_lower n" if "upperArg n \<in> set kNotInScript" for n
    using upper_of_lower[of ?raw n] assms that by auto
  from this[of "''EXEC''"] this[of "''EVAL''"] this[of "''EVALSHA''"]
  have "find_handler e d ?raw = find_handler e' d' ?raw"
    by (intro find_handler_indep) (simp_all add: kNotInScript_def upperArg_def to_upper_letters to_lower_letters)
  then have "run_command e d out k ctx r w = run_command e' d' out k ctx r w" by (simp add: run_command_def Let_def)
  then show ?thesis unfolding dispatch_with_def by (simp only:)
qed

subsection \<open>The store stays well formed\<close>

text \<open>
  The requests covered. The payload of a \<open>RESTORE\<close> is sound, and the texts of scripts, sent with \<open>EVAL\<close> or cached with
  \<open>SCRIPT LOAD\<close>, are in \<open>G\<close>; every other request is covered, well formed or not. The scripts in \<open>G\<close> call \<open>RESTORE\<close>
  with sound payloads only, whatever replies they get.
\<close>

definition sound_request :: "string set \<Rightarrow> request \<Rightarrow> bool" where
  "sound_request G req \<longleftrightarrow>
     (let n = map to_lower (rstr (hd req)) in
      (n = ''restore'' \<and> length req > 3 \<longrightarrow> sound_payload (arg req 3)) \<and>
      (n = ''eval'' \<and> length req > 2 \<longrightarrow> str_or_empty (req ! 1) \<in> G) \<and>
      (n = ''script'' \<and> length req > 2 \<and> upperArg (arg req 1) = ''LOAD'' \<longrightarrow> arg req 2 \<in> G))"

definition scripts_ok :: "string set \<Rightarrow> Outside \<Rightarrow> bool" where
  "scripts_ok G out \<longleftrightarrow> (\<forall>script \<in> G. \<forall>ks argv. lua_calls (sound_request G) out (o_lua out script ks argv))"

definition calm :: "string set \<Rightarrow> KvContext \<Rightarrow> bool" where
  "calm G ctx \<longleftrightarrow> list_all (ok_request (sound_request G)) (multi_queue ctx)"

lemma store_log_propagate [simp]:
  "wd_store (log_command cmd w) = wd_store w" "wd_store (propagate out cmd w) = wd_store w"
  "wd_scripts (log_command cmd w) = wd_scripts w" "wd_scripts (propagate out cmd w) = wd_scripts w"
  by (simp_all add: log_command_def propagate_def split: option.split prod.split)

lemma cached_script:
  assumes "good_world G h w" "getScriptBody sha w \<noteq> []"
  shows "getScriptBody sha w \<in> G"
proof -
  obtain s where s: "map_of (wd_scripts w) sha = Some s" "getScriptBody sha w = s"
    using assms(2) by (auto simp: getScriptBody_def umap_get_def split: option.splits)
  from map_of_SomeD[OF s(1)] have "s \<in> snd ` set (wd_scripts w)" by force
  then show ?thesis using assms(1) s(2) by (auto simp: good_world_def)
qed

lemma keeps_good:
  assumes "(n, c) \<in> set base_table" "map to_lower n = map to_lower (rstr (hd req))" "sound_request G req"
    and "waits_ok G out" "good_world G (o_hash out) w"
  shows "good_world G (o_hash out) (fst (snd (c out k ctx req w)))"
proof (cases "(n, c) \<in> set session_table")
  case True
  consider "n \<notin> {''RESTORE'', ''SCRIPT''}" | "n = ''RESTORE''" "c = cmd_restore" | "n = ''SCRIPT''" "c = cmd_script"
    using True by (auto simp: session_table_def)
  then show ?thesis
  proof cases
    case 1
    then show ?thesis using handler_wfD[OF wf_session_table[OF True] assms(4,5)] by simp
  next
    case 2
    then have "length req > 3 \<Longrightarrow> sound_payload (arg req 3)"
      using assms(2,3) by (simp add: sound_request_def Let_def to_lower_letters)
    from wf_cmd_restore[OF this, of out w k ctx] show ?thesis using 2 assms(5) by (simp add: good_world_def)
  next
    case 3
    then have "length req > 2 \<Longrightarrow> upperArg (arg req 1) = ''LOAD'' \<Longrightarrow> arg req 2 \<in> G"
      using assms(2,3) by (simp add: sound_request_def Let_def to_lower_letters)
    from wf_cmd_script[OF this assms(5)] show ?thesis using 3 by simp
  qed
next
  case False
  then obtain c' where "(n, c') \<in> set store_table" "c = on_store c'" using assms(1) by (auto simp: base_table_def)
  then show ?thesis using handler_wfD[OF wf_on_store[OF wf_store_table] assms(4,5)] by blast
qed

interpretation stores: dispatch_invariant
  "\<lambda>out ctx w. calm G ctx \<and> good_world G (o_hash out) w" "sound_request G" "\<lambda>s. s \<in> G" "\<lambda>out. waits_ok G out \<and> scripts_ok G out"
  for G
proof (unfold_locales, goal_cases)
  case (1 out ctx w n c req k)
  then show ?case using keeps_good[OF 1(3,4,5)] queue_kept[OF queue_base[OF 1(3)], of _ ctx out k req w]
    by (simp add: keeps_def calm_def)
next
  case (4 out ctx w sha)
  then show ?case using cached_script by blast
next
  case (8 out ctx w es)
  then show ?case by (simp add: calm_def good_world_def wf_watchConflict)
qed (auto simp: scripts_ok_def sound_request_def calm_def good_world_def ok_request_def list_all_iff)

text \<open>
  The worlds the server gets to: any session, in any state its commands can have left it in, sends any request that
  is covered; while a command waits, the server goes on in the same way; the timers sweep expired keys and save
  snapshots.
\<close>

inductive reaches :: "string set \<Rightarrow> hasher \<Rightarrow> World \<Rightarrow> World \<Rightarrow> bool" for G h where
  reaches_refl: "reaches G h w w"
| reaches_command: "reaches G h w w1 \<Longrightarrow> o_hash out = h \<Longrightarrow> (\<And>x v. reaches G h v (fst (o_wait out x v))) \<Longrightarrow> scripts_ok G out \<Longrightarrow>
    calm G ctx \<Longrightarrow> ok_request (sound_request G) request \<Longrightarrow> reaches G h w (fst (snd (dispatch out ctx request w1)))"
| reaches_sweep: "reaches G h w w1 \<Longrightarrow> reaches G h w (w1\<lparr>wd_store := fst (purgeExpiredActive n now (wd_store w1))\<rparr>)"
| reaches_save: "reaches G h w w1 \<Longrightarrow> reaches G h w (fst (saveRdb out clock w1))"

lemma reaches_good: "reaches G h w w' \<Longrightarrow> good_world G h w \<Longrightarrow> good_world G h w'"
proof (induction rule: reaches.induct)
  case (reaches_command w w1 out ctx request)
  have "waits_ok G out" using reaches_command.IH(2) reaches_command.hyps(2) by (auto simp: waits_ok_def)
  then show ?case
    using stores.inv_dispatch[of G out ctx w1 request] reaches_command by simp
qed (simp_all add: good_world_def wf_purgeExpiredActive saveRdb_store saveRdb_scripts)

text \<open>C1: The store stays well formed whatever requests arrive from any sessions, malformed ones, transactions and scripts
  included, whatever runs while a blocking command waits, and whatever the timers do in between, as long as \<open>RESTORE\<close>
  is only given sound payloads: by the clients, by queued commands, and by the scripts that the clients send (\<open>G\<close> is
  the set of their texts, and the server starts with scripts of \<open>G\<close> in its cache). Every payload that \<open>DUMP\<close> makes is
  sound; a forged one can break the store (\<open>restore_makes_empty_list\<close>).\<close>

theorem served_wf:
  assumes "reaches G h w w'" "wf_store h (wd_store w)" "snd ` set (wd_scripts w) \<subseteq> G"
  shows "wf_store h (wd_store w')"
  using reaches_good[OF assms(1)] assms(2,3) by (simp add: good_world_def)

text \<open>A world and an outside for the witnesses.\<close>

definition demo_out :: Outside where
  "demo_out = \<lparr>o_hash = (\<lambda>_. 0), o_clock = (\<lambda>_ _. 7), o_rng = (\<lambda>_ _ _. 0), o_begin = (\<lambda>_. 7), o_end = (\<lambda>_. 7), o_now = (\<lambda>_. 7),
     o_alive = (\<lambda>_. True), o_sends = (\<lambda>_ _. True), o_timeval = (0, 0), o_clients = None, o_sched = True,
     o_wait = (\<lambda>x w. (w, None)), o_write_fails = (\<lambda>_. None), o_bgsave = True, o_bgrewrite = True, o_shutdown = True,
     o_untyped = (\<lambda>_ _ st. st), o_lua = (\<lambda>script ks argv. LuaCall True (map LuaString (script # ks @ argv)) LuaReturn LuaError),
     o_lua_number = (\<lambda>_. []), o_sha1 = id\<rparr>"

definition demo_world :: World where
  "demo_world = \<lparr>wd_store = new_store, wd_slowlog = new_slowlog, wd_hub = new_hub, wd_waiters = [], wd_pass = [], wd_aof = None,
     wd_repl = None, wd_lua_atomic = False, wd_scripts = [], wd_kill = False, wd_output = [], wd_woken = [],
     wd_file = [], wd_stopped = False\<rparr>"

definition quiet_out :: Outside where
  "quiet_out = demo_out\<lparr>o_lua := (\<lambda>script ks argv. LuaReturn LuaNil)\<rparr>"

lemma bulks_sel [simp]:
  "rtype (bulks ss) = Array" "rarray (bulks ss) = map bulk ss" "rstr (bulk s) = s" "\<not> is_null (bulk s)" "rtype (bulk s) = BulkString"
  by (simp_all add: bulks_def array_of_def bulk_def)

lemma no_command_bulks [simp]: "no_command (bulks ss) \<longleftrightarrow> ss = []"
  by (cases ss) (simp_all add: no_command_def)

text \<open>A session that sends its requests one after the other.\<close>

fun send_all :: "Outside \<Rightarrow> KvContext \<Rightarrow> RespValue list \<Rightarrow> World \<Rightarrow> World" where
  "send_all out ctx [] w = w"
| "send_all out ctx (r # rs) w = (case dispatch out ctx r w of (ctx', w', rsp) \<Rightarrow> send_all out ctx' rs w')"

lemma send_all_reaches:
  assumes "o_hash out = h" "\<And>x v. fst (o_wait out x v) = v" "scripts_ok G out"
  shows "reaches G h w w1 \<Longrightarrow> calm G ctx \<Longrightarrow> good_world G h w1 \<Longrightarrow> list_all (ok_request (sound_request G)) rs \<Longrightarrow>
    reaches G h w (send_all out ctx rs w1)"
proof (induction rs arbitrary: ctx w1)
  case (Cons r rs)
  have "reaches G h v (fst (o_wait out x v))" for x v by (simp add: assms(2) reaches_refl)
  then have "reaches G h w (fst (snd (dispatch out ctx r w1)))"
    using Cons.prems assms by (intro reaches_command) simp_all
  moreover have "waits_ok G out" by (simp add: waits_ok_def assms(2))
  then have "calm G (fst (dispatch out ctx r w1)) \<and> good_world G h (fst (snd (dispatch out ctx r w1)))"
    using stores.inv_dispatch[of G out ctx w1 r] Cons.prems assms(1,3) by simp
  ultimately show ?case using Cons by (simp add: case_prod_unfold)
qed simp

text \<open>The witness: a script that sets a key, then a transaction with a \<open>SET\<close> and an \<open>LPUSH\<close>.\<close>

definition demo_session :: "RespValue list" where
  "demo_session = map bulks [[''EVAL'', ''SET'', ''1'', ''k'', ''v''], [''MULTI''], [''SET'', ''k'', ''v''], [''LPUSH'', ''l'', ''x''], [''EXEC'']]"

lemma served_wf_witness:
  "reaches {''SET''} (\<lambda>_. 0) demo_world (send_all demo_out new_context demo_session demo_world) \<and>
   wf_store (\<lambda>_. 0) (wd_store (send_all demo_out new_context demo_session demo_world))"
proof -
  have s: "scripts_ok {''SET''} demo_out"
    by (simp add: scripts_ok_def demo_out_def sound_request_def lua_arg_def to_lower_letters)
  have g: "good_world {''SET''} (\<lambda>_. 0) demo_world" by (simp add: good_world_def demo_world_def)
  have l: "list_all (ok_request (sound_request {''SET''})) demo_session"
    by (simp add: demo_session_def ok_request_def sound_request_def to_lower_letters str_or_empty_def)
  have r: "reaches {''SET''} (\<lambda>_. 0) demo_world (send_all demo_out new_context demo_session demo_world)"
    using s l g by (intro send_all_reaches reaches_refl) (simp_all add: demo_out_def calm_def new_context_def)
  show ?thesis using r served_wf[OF r] by (simp add: demo_world_def)
qed

end
