(* ===== verification/RespReader.thy ===== *)
theory RespReader
  imports Resp
begin

text \<open>
  The incremental parser \<open>zero/kv/resp_reader.cc\<close>. The buffer \<open>m_data\<close> of length
  \<open>m_len\<close> is a string, positions are offsets into it. \<open>parseValue\<close> is recursive on
  nested arrays; it takes a fuel argument that bounds the nesting depth and returns \<open>None\<close>
  only when the fuel is used up, which does not happen with the fuel \<open>tryParse\<close> gives it
  (\<open>parseValue_returns\<close>). The output parameter \<open>out\<close> is passed in and returned. Memory is taken to suffice:
  in the code \<open>out.array.reserve(count)\<close> throws when a header announces more items than can be
  allocated, and the exception ends the connection.
\<close>

datatype ParseStatus = ParseOk | ParseNeedMore | ParseError

text \<open>\<open>memchr (p, c, n)\<close>: the offset of the first \<open>c\<close> among the first \<open>n\<close> characters.\<close>

fun memchr :: "char \<Rightarrow> nat \<Rightarrow> string \<Rightarrow> nat option" where
  "memchr c 0 s = None"
| "memchr c (Suc n) [] = None"
| "memchr c (Suc n) (x # s) = (if x = c then Some 0 else map_option Suc (memchr c n s))"

lemma memchr_bound: "memchr c n s = Some i \<Longrightarrow> i < n \<and> i < length s"
  by (induction c n s arbitrary: i rule: memchr.induct) (auto split: if_splits)

function find_crlf :: "string \<Rightarrow> nat option" where
  "find_crlf s =
     (if length s \<le> 1 then None
      else case memchr CHR 0x0D (length s - 1) s of
             None \<Rightarrow> None
           | Some i \<Rightarrow> if s ! (i + 1) = CHR 0x0A then Some i
                       else map_option ((+) (i + 1)) (find_crlf (drop (i + 1) s)))"
  by pat_completeness auto
termination
  by (relation "measure length") (auto dest: memchr_bound)

declare find_crlf.simps [simp del]

text \<open>The digit loop of \<open>readInt64\<close>, with its overflow check, and \<open>readInt64\<close> itself:
  the value and the number of characters consumed.\<close>

fun readDigits :: "int64 \<Rightarrow> nat \<Rightarrow> string \<Rightarrow> (int64 \<times> nat) option" where
  "readDigits val k [] = Some (val, k)"
| "readDigits val k (c # r) =
     (if is_digit c
      then (let digit = int (digit_val c)
            in if val > (INT64_MAX - digit) div 10 then None
               else readDigits (val * 10 + digit) (k + 1) r)
      else Some (val, k))"

definition readInt64 :: "string \<Rightarrow> (int64 \<times> nat) option" where
  "readInt64 p =
     (if p = [] then None
      else
        (let (neg, sg, r) = split_sign p
         in if r = [] \<or> \<not> is_digit (hd r) then None
            else case readDigits 0 sg r of
                   None \<Rightarrow> None
                 | Some (val, k) \<Rightarrow> Some (if neg then - val else val, k)))"

text \<open>\<open>readLine\<close>: the line and the position after its end.\<close>

definition readLine :: "string \<Rightarrow> nat \<Rightarrow> (string \<times> nat) option" where
  "readLine d pos =
     (if pos \<ge> length d then None
      else case find_crlf (drop pos d) of
             None \<Rightarrow> None
           | Some i \<Rightarrow> Some (take i (drop pos d), pos + i + 2))"

definition isRespPrefix :: "char \<Rightarrow> bool" where
  "isRespPrefix c \<longleftrightarrow> c = CHR ''*'' \<or> c = CHR ''$'' \<or> c = CHR ''+'' \<or> c = CHR ''-'' \<or> c = CHR '':''"

text \<open>The word splitting loop of \<open>parseInline\<close>.\<close>

function inline_words :: "string \<Rightarrow> string list" where
  "inline_words line =
     (let s = dropWhile is_space line
      in if s = [] then []
         else takeWhile (\<lambda>c. \<not> is_space c) s # inline_words (dropWhile (\<lambda>c. \<not> is_space c) s))"
  by pat_completeness auto
termination
proof (relation "measure length", simp)
  fix line s :: string
  assume s: "s = dropWhile is_space line" "s \<noteq> []"
  then have "\<not> is_space (hd s)" using hd_dropWhile by blast
  then have "length (dropWhile (\<lambda>c. \<not> is_space c) s) < length s"
    using s(2) by (cases s) (auto simp: le_imp_less_Suc length_dropWhile_le)
  also have "length s \<le> length line" by (simp add: s(1) length_dropWhile_le)
  finally show "(dropWhile (\<lambda>c. \<not> is_space c) s, line) \<in> measure length" by simp
qed

declare inline_words.simps [simp del]

definition parseInline :: "string \<Rightarrow> nat \<Rightarrow> RespValue \<Rightarrow> ParseStatus \<times> nat \<times> RespValue" where
  "parseInline d pos out =
     (case readLine d pos of
        None \<Rightarrow> (ParseNeedMore, pos, out)
      | Some (line, pos') \<Rightarrow>
          if line = [] then (ParseError, pos', out)
          else
            (let arr = map bulk (inline_words line);
                 out' = RespValue Array (rstr out) (rint out) arr (is_null out)
             in (if arr = [] then ParseError else ParseOk, pos', out')))"

text \<open>The item loop of the array case; \<open>f\<close> is the recursive call.\<close>

fun parseItems :: "(nat \<Rightarrow> (ParseStatus \<times> nat \<times> RespValue) option) \<Rightarrow> nat \<Rightarrow> nat \<Rightarrow> RespValue list \<Rightarrow>
    (ParseStatus \<times> nat \<times> RespValue list) option" where
  "parseItems f 0 pos acc = Some (ParseOk, pos, acc)"
| "parseItems f (Suc n) pos acc =
     (case f pos of
        None \<Rightarrow> None
      | Some (st, pos', item) \<Rightarrow>
          if st \<noteq> ParseOk then Some (st, pos', acc) else parseItems f n pos' (acc @ [item]))"

definition crlf_at :: "string \<Rightarrow> nat \<Rightarrow> bool" where
  "crlf_at d i \<longleftrightarrow> d ! i = CHR 0x0D \<and> d ! (i + 1) = CHR 0x0A"

fun parseValue :: "nat \<Rightarrow> string \<Rightarrow> nat \<Rightarrow> RespValue \<Rightarrow> (ParseStatus \<times> nat \<times> RespValue) option" where
  "parseValue 0 d pos out = None"
| "parseValue (Suc fuel) d pos (RespValue t s n arr nul) =
     (if pos \<ge> length d then Some (ParseNeedMore, pos, RespValue t s n arr nul)
      else
        (let prefix = d ! pos; p1 = pos + 1 in
         if prefix = CHR ''+'' \<or> prefix = CHR ''-'' then
           (case readLine d p1 of
              None \<Rightarrow> Some (ParseNeedMore, p1, RespValue t s n arr nul)
            | Some (line, pos') \<Rightarrow>
                Some (ParseOk, pos',
                  RespValue (if prefix = CHR ''+'' then SimpleString else Error) line n arr nul))
         else if prefix = CHR '':'' then
           (case readInt64 (drop p1 d) of
              None \<Rightarrow> Some (ParseError, p1, RespValue t s n arr nul)
            | Some (val, k) \<Rightarrow>
                if p1 + k + 1 \<ge> length d \<or> \<not> crlf_at d (p1 + k)
                then Some (ParseNeedMore, p1, RespValue t s n arr nul)
                else Some (ParseOk, p1 + k + 2, RespValue Integer s val arr nul))
         else if prefix = CHR ''$'' then
           (case readInt64 (drop p1 d) of
              None \<Rightarrow> Some (ParseError, p1, RespValue t s n arr nul)
            | Some (len, k) \<Rightarrow>
                if (p1 + k + 1 \<ge> length d \<or> \<not> crlf_at d (p1 + k)) \<and> p1 + k \<ge> length d
                then Some (ParseNeedMore, pos, RespValue t s n arr nul)
                else
                  (let p2 = p1 + k + 2 in
                   if len < 0 then Some (ParseOk, p2, RespValue BulkString s n arr True)
                   else if p2 + nat len + 2 > length d
                   then Some (ParseNeedMore, pos, RespValue t s n arr nul)
                   else
                     (let out' = RespValue BulkString (take (nat len) (drop p2 d)) n arr False;
                          p3 = p2 + nat len
                      in if \<not> crlf_at d p3 then Some (ParseError, pos, out')
                         else Some (ParseOk, p3 + 2, out'))))
         else if prefix = CHR ''*'' then
           (case readInt64 (drop p1 d) of
              None \<Rightarrow> Some (ParseError, p1, RespValue t s n arr nul)
            | Some (cnt, k) \<Rightarrow>
                if p1 + k + 1 \<ge> length d \<or> \<not> crlf_at d (p1 + k)
                then Some (ParseNeedMore, pos, RespValue t s n arr nul)
                else if cnt < 0 then Some (ParseError, pos, RespValue t s n arr nul)
                else
                  (case parseItems (\<lambda>p. parseValue fuel d p defaultValue) (nat cnt) (p1 + k + 2) [] of
                     None \<Rightarrow> None
                   | Some (st, pos', items) \<Rightarrow>
                       if st \<noteq> ParseOk then Some (st, pos, RespValue Array s n [] nul)
                       else Some (ParseOk, pos', RespValue Array s n items nul)))
         else Some (ParseError, p1, RespValue t s n arr nul)))"

text \<open>\<open>tryParse\<close>: the status, the value, and the number of bytes consumed when it is \<open>Ok\<close>.\<close>

definition tryParse :: "string \<Rightarrow> RespValue \<Rightarrow> (ParseStatus \<times> nat \<times> RespValue) option" where
  "tryParse d out =
     (if d \<noteq> [] \<and> \<not> isRespPrefix (hd d) then Some (parseInline d 0 out)
      else parseValue (Suc (length d)) d 0 out)"

subsection \<open>Values that have a wire form of their own\<close>

text \<open>
  The values the encoder and the parser agree on: the fields a type does not use have their
  default, a line holds no line end, an integer is one \<open>appendInt64\<close> prints correctly, and
  lengths fit \<open>int64_t\<close>.
\<close>

fun wire :: "RespValue \<Rightarrow> bool" where
  "wire (RespValue t s n arr nul) =
     (case t of
        SimpleString \<Rightarrow> find_crlf s = None \<and> n = 0 \<and> arr = [] \<and> \<not> nul
      | Error \<Rightarrow> find_crlf s = None \<and> n = 0 \<and> arr = [] \<and> \<not> nul
      | Integer \<Rightarrow> s = [] \<and> arr = [] \<and> \<not> nul \<and> in_i64 n \<and> (0 \<le> n \<or> n mod 10 = 0)
      | BulkString \<Rightarrow> n = 0 \<and> arr = [] \<and> (if nul then s = [] else int (length s) \<le> INT64_MAX)
      | Array \<Rightarrow> s = [] \<and> n = 0 \<and> \<not> nul \<and> int (length arr) \<le> INT64_MAX \<and> list_all wire arr
      | Null \<Rightarrow> False)"

subsection \<open>Lines\<close>

definition crlf_in :: "string \<Rightarrow> nat \<Rightarrow> bool" where
  "crlf_in s i \<longleftrightarrow> i + 1 < length s \<and> crlf_at s i"

lemma memchr_Some: "memchr c n s = Some i \<Longrightarrow> s ! i = c \<and> (\<forall>j<i. s ! j \<noteq> c)"
proof (induction c n s arbitrary: i rule: memchr.induct)
  case (3 c n x s)
  show ?case
  proof (cases "x = c")
    case False
    then obtain k where k: "memchr c n s = Some k" "i = Suc k" using "3.prems" by auto
    then have "s ! k = c" "\<And>j. j < k \<Longrightarrow> s ! j \<noteq> c" using "3.IH" False by auto
    then show ?thesis using k(2) False by (auto simp: nth_Cons split: nat.splits)
  qed (use "3.prems" in auto)
qed auto

lemma memchr_None: "memchr c n s = None \<Longrightarrow> j < n \<Longrightarrow> j < length s \<Longrightarrow> s ! j \<noteq> c"
proof (induction c n s arbitrary: j rule: memchr.induct)
  case (3 c n x s)
  then show ?case by (cases j) (auto split: if_splits)
qed auto

lemma crlf_in_drop: "crlf_in (drop k s) i \<longleftrightarrow> crlf_in s (k + i)"
  by (auto simp: crlf_in_def crlf_at_def add_ac)

text \<open>\<open>find_crlf\<close> finds the first line end.\<close>

lemma find_crlf_first:
  "case find_crlf s of None \<Rightarrow> \<forall>i. \<not> crlf_in s i
   | Some i \<Rightarrow> crlf_in s i \<and> (\<forall>j<i. \<not> crlf_in s j)"
proof (induction s rule: find_crlf.induct)
  case (1 s)
  show ?case
  proof (cases "length s \<le> 1 \<or> memchr CHR 0x0D (length s - 1) s = None")
    case True
    then have "\<not> crlf_in s i" for i
      using memchr_None[of "CHR 0x0D" "length s - 1" s i]
      by (cases "i + 1 < length s") (auto simp: crlf_in_def crlf_at_def less_diff_conv)
    with True show ?thesis by (auto simp: find_crlf.simps[of s])
  next
    case False
    then obtain i where i: "memchr CHR 0x0D (length s - 1) s = Some i" by auto
    note b = memchr_bound[OF i] and v = memchr_Some[OF i]
    have before: "\<not> crlf_in s j" if "j < i" for j
      using v that by (auto simp: crlf_in_def crlf_at_def)
    show ?thesis
    proof (cases "s ! (i + 1) = CHR 0x0A")
      case True
      with b v before False i show ?thesis
        by (auto simp: find_crlf.simps[of s] crlf_in_def crlf_at_def)
    next
      case ne: False
      have at: "\<not> crlf_in s i" using ne by (simp add: crlf_in_def crlf_at_def)
      have upto: "\<not> crlf_in s j" if "j < i + 1" for j
        using that before at by (auto simp: less_Suc_eq)
      have IH: "case find_crlf (drop (i + 1) s) of
          None \<Rightarrow> \<forall>j. \<not> crlf_in s (i + 1 + j)
        | Some k \<Rightarrow> crlf_in s (i + 1 + k) \<and> (\<forall>j<k. \<not> crlf_in s (i + 1 + j))"
        using "1.IH"[of i] False i ne unfolding crlf_in_drop by simp
      have split: "(j < i + 1) \<or> (\<exists>k. j = i + 1 + k)" for j
        by (metis le_iff_add not_less)
      show ?thesis
      proof (cases "find_crlf (drop (i + 1) s)")
        case None
        then have "\<not> crlf_in s j" for j using IH split[of j] upto by auto
        then show ?thesis using None False i ne by (simp add: find_crlf.simps[of s])
      next
        case (Some k)
        then have "\<not> crlf_in s j" if "j < i + 1 + k" for j
          using IH split[of j] upto that by auto
        then show ?thesis using Some IH False i ne by (simp add: find_crlf.simps[of s])
      qed
    qed
  qed
qed

lemma find_crlf_eq_Some:
  assumes "crlf_in s i" "\<And>j. j < i \<Longrightarrow> \<not> crlf_in s j"
  shows "find_crlf s = Some i"
  using assms find_crlf_first[of s] by (auto split: option.splits) (metis linorder_neqE_nat)

lemma find_crlf_line:
  assumes "find_crlf s = None"
  shows "find_crlf (s @ crlf @ rest) = Some (length s)"
proof (rule find_crlf_eq_Some)
  show "crlf_in (s @ crlf @ rest) (length s)"
    by (simp add: crlf_in_def crlf_at_def crlf_def nth_append)
next
  fix j assume j: "j < length s"
  have "\<not> crlf_in s j" using find_crlf_first[of s] assms by simp
  with j show "\<not> crlf_in (s @ crlf @ rest) j"
    by (cases "j + 1 = length s") (auto simp: crlf_in_def crlf_at_def crlf_def nth_append)
qed

subsection \<open>Numbers\<close>

lemma overflow_check_iff: "(M - d) div 10 < v \<longleftrightarrow> M < v * 10 + d" for v :: int
  by linarith

lemma foldl_digits_ge: "a \<le> foldl (\<lambda>a c. 10 * a + digit_val c) a ds"
proof (induction ds arbitrary: a)
  case (Cons d ds)
  have "a \<le> 10 * a + digit_val d" by simp
  also have "\<dots> \<le> foldl (\<lambda>a c. 10 * a + digit_val c) (10 * a + digit_val d) ds" by (rule Cons)
  finally show ?case by simp
qed simp

lemma readDigits_app:
  assumes "\<And>c. c \<in> set ds \<Longrightarrow> is_digit c" "rest = [] \<or> \<not> is_digit (hd rest)"
    "int (foldl (\<lambda>a c. 10 * a + digit_val c) a ds) \<le> INT64_MAX"
  shows "readDigits (int a) k (ds @ rest) =
    Some (int (foldl (\<lambda>a c. 10 * a + digit_val c) a ds), k + length ds)"
  using assms
proof (induction ds arbitrary: a k)
  case Nil
  then show ?case by (cases rest) auto
next
  case (Cons d ds)
  let ?a = "10 * a + digit_val d"
  have "int ?a \<le> INT64_MAX"
    using foldl_digits_ge[of ?a ds] Cons.prems(3) by simp
  then have "\<not> (INT64_MAX - int (digit_val d)) div 10 < int a"
    unfolding overflow_check_iff by simp
  moreover have "int a * 10 + int (digit_val d) = int ?a" by simp
  ultimately show ?case
    using Cons.IH[of ?a "k + 1"] Cons.prems by (simp add: Let_def mult.commute)
qed

lemma readDigits_dec_nat:
  assumes "int n \<le> INT64_MAX" "rest = [] \<or> \<not> is_digit (hd rest)"
  shows "readDigits 0 k (dec_nat n @ rest) = Some (int n, k + length (dec_nat n))"
  using readDigits_app[of "dec_nat n" rest 0 k] assms dec_nat_digits[of _ n] dec_val_dec_nat[of n]
  by (simp add: dec_val_def)

lemma dec_nat_Cons: obtains c r where "dec_nat n = c # r" "is_digit c"
  using hd_dec_nat_digit[of n] by (cases "dec_nat n") auto

lemma readInt64_to_string:
  assumes "- INT64_MAX \<le> n" "n \<le> INT64_MAX" "rest = [] \<or> \<not> is_digit (hd rest)"
  shows "readInt64 (to_string n @ rest) = Some (n, length (to_string n))"
proof (cases "n < 0")
  case True
  obtain c r where "dec_nat (nat (- n)) = c # r" "is_digit c" by (rule dec_nat_Cons)
  with True readDigits_dec_nat[of "nat (- n)" rest 1] assms show ?thesis
    by (simp add: readInt64_def to_string_def split_sign_def)
next
  case False
  obtain c r where cr: "dec_nat (nat n) = c # r" "is_digit c" by (rule dec_nat_Cons)
  then have "c \<noteq> CHR ''-''" "c \<noteq> CHR ''+''" by auto
  with cr False readDigits_dec_nat[of "nat n" rest 0] assms show ?thesis
    by (simp add: readInt64_def to_string_def split_sign_def)
qed

lemma readDigits_bounds:
  "readDigits val k s = Some (v, k') \<Longrightarrow> 0 \<le> val \<Longrightarrow> val \<le> INT64_MAX \<Longrightarrow>
   0 \<le> v \<and> v \<le> INT64_MAX \<and> k \<le> k' \<and> k' \<le> k + length s"
proof (induction val k s rule: readDigits.induct)
  case (2 val k c r)
  show ?case
  proof (cases "is_digit c")
    case True
    let ?d = "int (digit_val c)"
    have ok: "\<not> (INT64_MAX - ?d) div 10 < val" using True "2.prems"(1) by (auto split: if_splits)
    then have "val * 10 + ?d \<le> INT64_MAX" unfolding overflow_check_iff by simp
    moreover have "readDigits (val * 10 + ?d) (k + 1) r = Some (v, k')"
      using True ok "2.prems"(1) by (simp add: Let_def)
    ultimately show ?thesis using "2.IH"[OF True refl ok] "2.prems"(2) by simp
  qed (use 2 in auto)
qed auto

lemma split_sign_length: "split_sign p = (neg, sg, r) \<Longrightarrow> length p = sg + length r"
  by (cases p) (auto simp: split_sign_def split: if_splits)

lemma readInt64_bounds:
  assumes "readInt64 p = Some (v, k)"
  shows "- INT64_MAX \<le> v \<and> v \<le> INT64_MAX \<and> k \<le> length p"
proof -
  obtain neg sg r where sp: "split_sign p = (neg, sg, r)" by (cases "split_sign p") auto
  with assms obtain w where "readDigits 0 sg r = Some (w, k)" "v = (if neg then - w else w)"
    by (auto simp: readInt64_def split: if_splits option.splits)
  then show ?thesis
    using readDigits_bounds[of 0 sg r w k] split_sign_length[OF sp] by (auto simp: INT64_MAX_def)
qed

subsection \<open>Round trip\<close>

lemma crlf_not_digit [simp]: "\<not> is_digit CHR 0x0D"
  by (simp add: is_digit_def)

lemma hd_crlf [simp]: "hd (crlf @ r) = CHR 0x0D" "crlf @ r \<noteq> []" "length crlf = 2"
  by (simp_all add: crlf_def)

lemma crlf_at_drop:
  assumes "drop p d = crlf @ r"
  shows "crlf_at d p" "p + 2 \<le> length d" "drop (p + 2) d = r"
proof -
  have l: "length d - p = 2 + length r" using arg_cong[OF assms, of length] by simp
  then show "p + 2 \<le> length d" by simp
  have "d ! p = drop p d ! 0" "d ! (p + 1) = drop p d ! 1" using l by auto
  then show "crlf_at d p" by (simp add: assms crlf_at_def crlf_def)
  have "drop (p + 2) d = drop 2 (drop p d)" by (simp add: add.commute)
  then show "drop (p + 2) d = r" by (simp add: assms)
qed

lemma drop_prefix: "drop p d = a @ b \<Longrightarrow> drop (p + length a) d = b"
  by (metis append_eq_conv_conj drop_drop add.commute)

lemma drop_Cons_nth:
  assumes "drop p d = c # r"
  shows "p < length d" "d ! p = c" "drop (p + 1) d = r"
proof -
  show "p < length d" using assms by (metis drop_all list.discI not_le)
  then show "d ! p = c" "drop (p + 1) d = r" using assms by (simp_all add: Cons_nth_drop_Suc [symmetric])
qed

text \<open>The three steps every counted item starts with: prefix, number, line end.\<close>

lemma counted_header:
  assumes "drop pos d = c # to_string n @ crlf @ r" "- INT64_MAX \<le> n" "n \<le> INT64_MAX"
  shows "pos < length d" "d ! pos = c"
    "readInt64 (drop (Suc pos) d) = Some (n, length (to_string n))"
    "crlf_at d (Suc pos + length (to_string n))"
    "Suc pos + length (to_string n) + 2 \<le> length d"
    "drop (Suc pos + length (to_string n) + 2) d = r"
proof -
  note h = drop_Cons_nth[OF assms(1)]
  show "pos < length d" "d ! pos = c" by (rule h)+
  show "readInt64 (drop (Suc pos) d) = Some (n, length (to_string n))"
    using h(3) readInt64_to_string[of n "crlf @ r"] assms(2,3) by simp
  have "drop (Suc pos + length (to_string n)) d = crlf @ r"
    using drop_prefix[OF h(3)] by simp
  from crlf_at_drop[OF this]
  show "crlf_at d (Suc pos + length (to_string n))" "Suc pos + length (to_string n) + 2 \<le> length d"
    "drop (Suc pos + length (to_string n) + 2) d = r" by simp_all
qed

lemma parseItems_concat:
  assumes "\<And>x p r. x \<in> set xs \<Longrightarrow> drop p d = encode x @ r \<Longrightarrow>
      f p = Some (ParseOk, p + length (encode x), x)"
    and "drop pos d = concat (map encode xs) @ rest"
  shows "parseItems f (length xs) pos acc =
    Some (ParseOk, pos + length (concat (map encode xs)), acc @ xs)"
  using assms
proof (induction xs arbitrary: pos acc)
  case (Cons x xs)
  have d: "drop pos d = encode x @ concat (map encode xs) @ rest" using Cons.prems(2) by simp
  then have "f pos = Some (ParseOk, pos + length (encode x), x)" by (intro Cons.prems(1)) simp_all
  moreover have "drop (pos + length (encode x)) d = concat (map encode xs) @ rest"
    using drop_prefix[OF d] .
  ultimately show ?case using Cons.IH[of "pos + length (encode x)" "acc @ [x]"] Cons.prems(1)
    by (simp add: add.assoc)
qed simp

lemma length_encode_item: "x \<in> set xs \<Longrightarrow> length (encode x) \<le> length (concat (map encode xs))"
  by (induction xs) auto

lemma parseValue_encode:
  "wire v \<Longrightarrow> drop pos d = encode v @ rest \<Longrightarrow> length (encode v) \<le> fuel \<Longrightarrow>
   parseValue fuel d pos defaultValue = Some (ParseOk, pos + length (encode v), v)"
proof (induction v arbitrary: pos rest fuel)
  case (RespValue t s n arr nul)
  note w = RespValue.prems(1) and dr = RespValue.prems(2) and fu = RespValue.prems(3)
  have "encode (RespValue t s n arr nul) \<noteq> []"
    using w by (cases t; cases nul) (auto simp: encode_simps kRespNullBulk_def)
  with fu obtain g where g: "fuel = Suc g" by (cases fuel) auto
  consider (line) "t = SimpleString \<or> t = Error" | (int) "t = Integer" | (null) "t = BulkString" nul
    | (bulk) "t = BulkString" "\<not> nul" | (array) "t = Array"
    using w by (cases t) auto
  then show ?case
  proof cases
    case line
    let ?c = "if t = SimpleString then CHR ''+'' else CHR ''-''"
    have d: "drop pos d = ?c # s @ crlf @ rest" using dr line by (auto simp: encode_simps)
    note h = drop_Cons_nth[OF d]
    have "drop (Suc pos) d = s @ crlf @ rest" using h(3) by simp
    moreover from this have "Suc pos < length d"
      by (cases "Suc pos < length d") (auto simp: crlf_def)
    moreover have "find_crlf s = None" using w line by auto
    ultimately have "readLine d (Suc pos) = Some (s, Suc pos + length s + 2)"
      by (simp add: readLine_def find_crlf_line)
    then show ?thesis using w line h
      by (auto simp: g defaultValue_def encode_simps)
  next
    case int
    have "n \<noteq> - (2 ^ 63)" using w int by auto
    then have n: "- INT64_MAX \<le> n" "n \<le> INT64_MAX" "appendInt64 [] n = to_string n"
      using w int appendInt64_ok[of n "[]"]
      by (auto simp: in_i64_def INT64_MAX_def)
    then have d: "drop pos d = CHR '':'' # to_string n @ crlf @ rest"
      using dr int by (simp add: encode_simps)
    note h = counted_header[OF d n(1,2)]
    show ?thesis using w int h n(3) by (simp add: g defaultValue_def encode_simps Let_def)
  next
    case null
    have "to_string (- 1) = ''-1''" by code_simp
    then have d: "drop pos d = CHR ''$'' # to_string (- 1) @ crlf @ rest"
      using dr null by (simp add: encode_simps kRespNullBulk_def)
    have "- INT64_MAX \<le> - 1" "- 1 \<le> INT64_MAX" by (simp_all add: INT64_MAX_def)
    note h = counted_header[OF d this]
    have "length (to_string (- 1)) = 2" by code_simp
    then show ?thesis using w null h
      by (simp add: g defaultValue_def encode_simps kRespNullBulk_def Let_def)
  next
    case bulk
    have d: "drop pos d = CHR ''$'' # to_string (int (length s)) @ crlf @ s @ crlf @ rest"
      using dr bulk by (simp add: encode_simps)
    have "- INT64_MAX \<le> int (length s)" "int (length s) \<le> INT64_MAX"
      using w bulk by (simp_all add: INT64_MAX_def)
    note h = counted_header[OF d this]
    note e = crlf_at_drop[OF drop_prefix[OF h(6)]]
    show ?thesis using w bulk h e
      by (simp add: g defaultValue_def encode_simps Let_def add_ac)
  next
    case array
    have d: "drop pos d = CHR ''*'' # to_string (int (length arr)) @ crlf @ concat (map encode arr) @ rest"
      using dr array by (simp add: encode_simps)
    have "- INT64_MAX \<le> int (length arr)" "int (length arr) \<le> INT64_MAX"
      using w array by (simp_all add: INT64_MAX_def)
    note h = counted_header[OF d this]
    have "parseValue g d p defaultValue = Some (ParseOk, p + length (encode x), x)"
      if "x \<in> set arr" "drop p d = encode x @ r" for x p r
      using RespValue.IH[OF that(1) _ that(2)] w array that(1) fu length_encode_item[OF that(1)]
      by (simp add: g encode_simps list_all_iff)
    from parseItems_concat[OF this h(6)] show ?thesis using w array h
      by (simp add: g defaultValue_def encode_simps Let_def)
  qed
qed

subsection \<open>Every call returns\<close>

lemma parseItems_advance:
  assumes "\<And>p p' v. f p = Some (ParseOk, p', v) \<Longrightarrow> p < p'"
  shows "parseItems f n pos acc = Some (ParseOk, pos', items) \<Longrightarrow> pos \<le> pos'"
proof (induction n arbitrary: pos acc)
  case (Suc n)
  then obtain p v where "f pos = Some (ParseOk, p, v)" "parseItems f n p (acc @ [v]) = Some (ParseOk, pos', items)"
    by (auto split: option.splits if_splits)
  then show ?case using assms Suc.IH by (metis less_imp_le le_trans)
qed simp

lemma readLine_advance: "readLine d p = Some (l, p') \<Longrightarrow> p + 2 \<le> p' \<and> p' \<le> length d"
  using find_crlf_first[of "drop p d"]
  by (auto simp: readLine_def crlf_in_def split: if_splits option.splits)

lemma parseValue_advance:
  "parseValue fuel d pos out = Some (ParseOk, pos', v) \<Longrightarrow> pos < pos'"
proof (induction fuel arbitrary: pos out pos' v)
  case (Suc g)
  obtain t s n arr nul where o: "out = RespValue t s n arr nul" by (cases out)
  have items: "parseItems (\<lambda>p. parseValue g d p defaultValue) m p [] = Some (ParseOk, q, xs) \<Longrightarrow> p \<le> q"
    for m p q xs by (rule parseItems_advance) (rule Suc.IH)
  show ?case using Suc.prems unfolding o
    by (auto simp: Let_def split: if_splits option.splits dest!: items readLine_advance)
qed simp

lemma parseItems_returns:
  assumes "\<And>p p' v. f p = Some (ParseOk, p', v) \<Longrightarrow> p < p'"
    and "\<And>p. pos \<le> p \<Longrightarrow> f p \<noteq> None"
  shows "parseItems f n pos acc \<noteq> None"
  using assms(2)
proof (induction n arbitrary: pos acc)
  case (Suc n)
  obtain st p v where f: "f pos = Some (st, p, v)" using Suc.prems[of pos] by auto
  show ?case
  proof (cases "st = ParseOk")
    case True
    then have "pos < p" using f assms(1) by blast
    then show ?thesis using f True Suc.IH[of p "acc @ [v]"] Suc.prems by simp
  qed (simp add: f)
qed simp

lemma parseValue_returns:
  "length d - pos < fuel \<Longrightarrow> parseValue fuel d pos out \<noteq> None"
proof (induction fuel arbitrary: pos out)
  case (Suc g)
  obtain t s n arr nul where o: "out = RespValue t s n arr nul" by (cases out)
  have items: "parseItems (\<lambda>p. parseValue g d p defaultValue) m (Suc (Suc (Suc (pos + k)))) [] \<noteq> None"
    if "pos < length d" for m k
    by (rule parseItems_returns) (use Suc that in \<open>auto dest: parseValue_advance\<close>)
  show ?case
  proof (cases "pos < length d")
    case True
    have "(parseItems (\<lambda>p. parseValue g d p defaultValue) m (Suc (Suc (Suc (pos + k)))) [] = None) = False"
      for m k using items[OF True] by blast
    then show ?thesis unfolding o using True
      by (simp add: Let_def split: option.split del: not_None_eq)
  qed (simp add: o)
qed simp

lemma parseItems_bound:
  assumes "\<And>p p' v. f p = Some (ParseOk, p', v) \<Longrightarrow> p' \<le> b"
  shows "parseItems f n pos acc = Some (ParseOk, pos', items) \<Longrightarrow> pos \<le> b \<Longrightarrow> pos' \<le> b"
proof (induction n arbitrary: pos acc)
  case (Suc n)
  then obtain p v where "f pos = Some (ParseOk, p, v)" "parseItems f n p (acc @ [v]) = Some (ParseOk, pos', items)"
    by (auto split: option.splits if_splits)
  then show ?case using assms Suc.IH by blast
qed simp

lemma parseValue_bound:
  "parseValue fuel d pos out = Some (ParseOk, pos', v) \<Longrightarrow> pos' \<le> length d + 1"
proof (induction fuel arbitrary: pos out pos' v)
  case (Suc g)
  obtain t s n arr nul where o: "out = RespValue t s n arr nul" by (cases out)
  have items: "parseItems (\<lambda>p. parseValue g d p defaultValue) m p [] = Some (ParseOk, q, xs) \<Longrightarrow>
      p \<le> length d + 1 \<Longrightarrow> q \<le> length d + 1"
    for m p q xs by (rule parseItems_bound) (rule Suc.IH)
  show ?case using Suc.prems unfolding o
    by (auto simp: Let_def split: if_splits option.splits dest!: items readLine_advance)
qed simp

lemma parseInline_bound:
  "parseInline d pos out = (ParseOk, pos', v) \<Longrightarrow> pos < pos' \<and> pos' \<le> length d"
  by (auto simp: parseInline_def Let_def split: option.splits if_splits dest!: readLine_advance)

lemma tryParse_returns: "tryParse d out \<noteq> None"
  using parseValue_returns[of d 0 "Suc (length d)" out] by (simp add: tryParse_def del: not_None_eq)

lemma tryParse_bound: "tryParse d out = Some (ParseOk, c, v) \<Longrightarrow> 0 < c \<and> c \<le> length d + 1"
  using parseValue_advance[of "Suc (length d)" d 0 out c v] parseValue_bound[of "Suc (length d)" d 0 out c v]
    parseInline_bound[of d 0 out c v]
  by (auto simp: tryParse_def le_SucI split: if_splits)

text \<open>A variable that held a request before reads the next one like a fresh one.\<close>

lemma tryParse_request:
  assumes "wire v" "rtype v = Array" "rstr out = []" "rint out = 0" "\<not> is_null out"
  shows "tryParse (encode v @ rest) out = Some (ParseOk, length (encode v), v)"
proof -
  obtain s n arr nul where v: "v = RespValue Array s n arr nul" using assms(2) by (cases v) auto
  obtain t a where o: "out = RespValue t [] 0 a False" using assms(3-5) by (cases out) auto
  obtain r where e: "encode v @ rest = CHR ''*'' # r" by (simp add: v encode_simps)
  have "parseValue (Suc (length (encode v @ rest))) (encode v @ rest) 0 defaultValue = Some (ParseOk, length (encode v), v)"
    using parseValue_encode[OF assms(1), of 0 "encode v @ rest" rest "Suc (length (encode v @ rest))"] by simp
  then show ?thesis
    unfolding tryParse_def e o defaultValue_def by (auto simp: isRespPrefix_def Let_def split: option.splits if_splits)
qed

subsection \<open>Properties\<close>

text \<open>
  round trip. A value in wire form, encoded and followed by any further bytes (the next
  pipelined command), is parsed back to the same value, and exactly its own bytes are consumed.
\<close>

theorem tryParse_encode:
  assumes "wire v"
  shows "tryParse (encode v @ rest) defaultValue = Some (ParseOk, length (encode v), v)"
proof -
  obtain t s n arr nul where v: "v = RespValue t s n arr nul" by (cases v)
  have "encode v \<noteq> []" "isRespPrefix (hd (encode v))"
    using assms unfolding v
    by (cases t; cases nul; simp add: encode_simps kRespNullBulk_def isRespPrefix_def)+
  then show ?thesis
    using parseValue_encode[OF assms, of 0 "encode v @ rest" rest "Suc (length (encode v @ rest))"]
    by (simp add: tryParse_def)
qed

theorem tryParse_encode_witness:
  "wire (RespValue Array [] 0 [bulk ''GET'', bulk ''foo''] False) \<and>
   tryParse (encode (RespValue Array [] 0 [bulk ''GET'', bulk ''foo''] False) @ ''rest'') defaultValue =
   Some (ParseOk, length (encode (RespValue Array [] 0 [bulk ''GET'', bulk ''foo''] False)),
     RespValue Array [] 0 [bulk ''GET'', bulk ''foo''] False)"
proof -
  have w: "wire (RespValue Array [] 0 [bulk ''GET'', bulk ''foo''] False)"
    by (simp add: bulk_def INT64_MAX_def)
  show ?thesis using w tryParse_encode[OF w, of "''rest''"] by blast
qed

text \<open>
  the parser returns on every buffer, whatever its contents, and a successful parse consumes at
  least one byte and at most one byte more than the buffer holds. (The excess byte is real: see the
  null bulk below.)
\<close>

theorem tryParse_returns_bounded:
  "\<exists>st c v. tryParse d out = Some (st, c, v) \<and> (st = ParseOk \<longrightarrow> 0 < c \<and> c \<le> length d + 1)"
  using tryParse_returns[of d out] tryParse_bound[of d out] by auto

theorem tryParse_returns_bounded_witness:
  "\<exists>st c v. tryParse ''PING'' defaultValue = Some (st, c, v) \<and> (st = ParseOk \<longrightarrow> 0 < c \<and> c \<le> length ''PING'' + 1)"
  by (rule tryParse_returns_bounded)

text \<open>
  A null bulk whose line end has not fully arrived is accepted and counted with the missing
  byte: the parser reports 9 bytes consumed of a buffer that holds 8.
\<close>

theorem tryParse_null_bulk_overrun:
  "let d = ''*1'' @ crlf @ ''$-1'' @ [CHR 0x0D] in
   length d = 8 \<and> tryParse d defaultValue = Some (ParseOk, 9, RespValue Array [] 0 [nullBulk] False)"
  by code_simp

text \<open>
  a command that is cut after its first byte is refused instead of waited for: the encoding of
  every array parses completely, its first byte alone is an error (the session then closes the
  connection).
\<close>

theorem tryParse_cut_after_marker:
  assumes "wire v" "rtype v = Array"
  shows "(\<exists>c x. tryParse (take 1 (encode v)) out = Some (ParseError, c, x)) \<and>
    tryParse (encode v) defaultValue = Some (ParseOk, length (encode v), v)"
proof -
  obtain s n arr nul where v: "v = RespValue Array s n arr nul" using assms(2) by (cases v) auto
  obtain t' s' n' arr' nul' where o: "out = RespValue t' s' n' arr' nul'" by (cases out)
  have "take 1 (encode v) = [CHR ''*'']" by (simp add: v encode_simps)
  moreover have "tryParse [CHR ''*''] out = Some (ParseError, 1, out)"
    by (simp add: tryParse_def isRespPrefix_def readInt64_def o)
  moreover have "isRespPrefix (hd (encode v))" by (simp add: v encode_simps isRespPrefix_def)
  ultimately show ?thesis
    using parseValue_encode[OF assms(1), of 0 "encode v" "[]" "Suc (length (encode v))"]
    by (simp add: tryParse_def)
qed

theorem tryParse_cut_after_marker_witness:
  "(\<exists>c x. tryParse (take 1 (encode (RespValue Array [] 0 [bulk ''PING''] False))) defaultValue = Some (ParseError, c, x)) \<and>
   tryParse (encode (RespValue Array [] 0 [bulk ''PING''] False)) defaultValue =
   Some (ParseOk, length (encode (RespValue Array [] 0 [bulk ''PING''] False)), RespValue Array [] 0 [bulk ''PING''] False)"
  by (rule tryParse_cut_after_marker) (simp_all add: bulk_def INT64_MAX_def)

end
