(* ===== verification/Transactions.thy ===== *)
theory Transactions
  imports Served RespReader
begin

text \<open>
  Which handler the dispatcher runs for a request, and what it does with a request that passes the gates.
\<close>

subsection \<open>Names\<close>

definition command_names :: "string list" where
  "command_names =
     [''EXEC'', ''EVAL'', ''EVALSHA'', ''DBSIZE'', ''FLUSHDB'', ''FLUSHALL'', ''TYPE'', ''KEYS'', ''SCAN'',
      ''EXISTS'', ''DEL'', ''EXPIRE'', ''PEXPIRE'', ''EXPIREAT'', ''PEXPIREAT'', ''TTL'', ''PTTL'',
      ''PERSIST'', ''RENAME'', ''RENAMENX'', ''GET'', ''GETSET'', ''GETDEL'', ''SET'', ''SETNX'', ''SETEX'',
      ''MGET'', ''MSET'', ''MSETNX'', ''INCR'', ''DECR'', ''INCRBY'', ''DECRBY'', ''INCRBYFLOAT'', ''APPEND'',
      ''STRLEN'', ''GETEX'', ''HSET'', ''HGET'', ''HGETALL'', ''HDEL'', ''HEXISTS'', ''HLEN'', ''HMSET'',
      ''HMGET'', ''HKEYS'', ''HVALS'', ''HINCRBY'', ''HSETNX'', ''LPOP'', ''RPOP'', ''LLEN'', ''LRANGE'',
      ''LINDEX'', ''LTRIM'', ''LSET'', ''LREM'', ''RPOPLPUSH'', ''LINSERT'', ''SADD'', ''SREM'',
      ''SINTERSTORE'', ''SUNIONSTORE'', ''SDIFFSTORE'', ''SMEMBERS'', ''SCARD'', ''SISMEMBER'', ''SINTER'',
      ''SUNION'', ''SDIFF'', ''SPOP'', ''HSCAN'', ''SSCAN'', ''ZSCAN'', ''ZADD'', ''ZREM'', ''ZSCORE'',
      ''ZCARD'', ''ZRANGE'', ''ZREVRANGE'', ''ZRANGEBYSCORE'', ''ZREVRANGEBYSCORE'', ''ZCOUNT'', ''ZINCRBY'',
      ''ZRANK'', ''ZREVRANK'', ''ZPOPMIN'', ''ZPOPMAX'', ''XADD'', ''XLEN'', ''XRANGE'', ''XREVRANGE'',
      ''XREAD'', ''XDEL'', ''XGROUP'', ''XREADGROUP'', ''XACK'', ''XTRIM'', ''XPENDING'', ''XCLAIM'', ''PING'',
      ''ECHO'', ''SELECT'', ''AUTH'', ''QUIT'', ''CLIENT'', ''LASTSAVE'', ''TIME'', ''WATCH'', ''UNWATCH'',
      ''MULTI'', ''DISCARD'', ''LPUSH'', ''RPUSH'', ''BLPOP'', ''BRPOP'', ''BRPOPLPUSH'', ''SUBSCRIBE'',
      ''PSUBSCRIBE'', ''UNSUBSCRIBE'', ''PUNSUBSCRIBE'', ''PUBLISH'', ''SLOWLOG'', ''CONFIG'', ''ROLE'',
      ''SLAVEOF'', ''INFO'', ''PSYNC'', ''SAVE'', ''BGREWRITEAOF'', ''BGSAVE'', ''SCRIPT'', ''DUMP'',
      ''RESTORE'', ''SHUTDOWN'']"

lemma registered_names: "map fst (registered e d) = command_names"
  by (simp add: registered_def base_table_def store_table_def session_table_def command_names_def)

definition lower_names :: "string list" where
  "lower_names =
     [''exec'', ''eval'', ''evalsha'', ''dbsize'', ''flushdb'', ''flushall'', ''type'', ''keys'', ''scan'',
      ''exists'', ''del'', ''expire'', ''pexpire'', ''expireat'', ''pexpireat'', ''ttl'', ''pttl'',
      ''persist'', ''rename'', ''renamenx'', ''get'', ''getset'', ''getdel'', ''set'', ''setnx'', ''setex'',
      ''mget'', ''mset'', ''msetnx'', ''incr'', ''decr'', ''incrby'', ''decrby'', ''incrbyfloat'', ''append'',
      ''strlen'', ''getex'', ''hset'', ''hget'', ''hgetall'', ''hdel'', ''hexists'', ''hlen'', ''hmset'',
      ''hmget'', ''hkeys'', ''hvals'', ''hincrby'', ''hsetnx'', ''lpop'', ''rpop'', ''llen'', ''lrange'',
      ''lindex'', ''ltrim'', ''lset'', ''lrem'', ''rpoplpush'', ''linsert'', ''sadd'', ''srem'',
      ''sinterstore'', ''sunionstore'', ''sdiffstore'', ''smembers'', ''scard'', ''sismember'', ''sinter'',
      ''sunion'', ''sdiff'', ''spop'', ''hscan'', ''sscan'', ''zscan'', ''zadd'', ''zrem'', ''zscore'',
      ''zcard'', ''zrange'', ''zrevrange'', ''zrangebyscore'', ''zrevrangebyscore'', ''zcount'', ''zincrby'',
      ''zrank'', ''zrevrank'', ''zpopmin'', ''zpopmax'', ''xadd'', ''xlen'', ''xrange'', ''xrevrange'',
      ''xread'', ''xdel'', ''xgroup'', ''xreadgroup'', ''xack'', ''xtrim'', ''xpending'', ''xclaim'', ''ping'',
      ''echo'', ''select'', ''auth'', ''quit'', ''client'', ''lastsave'', ''time'', ''watch'', ''unwatch'',
      ''multi'', ''discard'', ''lpush'', ''rpush'', ''blpop'', ''brpop'', ''brpoplpush'', ''subscribe'',
      ''psubscribe'', ''unsubscribe'', ''punsubscribe'', ''publish'', ''slowlog'', ''config'', ''role'',
      ''slaveof'', ''info'', ''psync'', ''save'', ''bgrewriteaof'', ''bgsave'', ''script'', ''dump'',
      ''restore'', ''shutdown'']"

lemma lower_command_names: "map (map to_lower) command_names = lower_names"
  by (simp add: command_names_def lower_names_def to_lower_letters)

lemma distinct_lower_names: "distinct lower_names"
  by (simp add: lower_names_def)

text \<open>The name of a command selects its handler in whatever case it is written.\<close>

lemma find_handler_registered:
  assumes "(n, c) \<in> set (registered e d)" "map to_lower raw = map to_lower n"
  shows "find_handler e d raw = Some c"
proof -
  have "map (\<lambda>(n, c). map to_lower n) (registered e d) = map (map to_lower) (map fst (registered e d))"
    by (simp add: case_prod_unfold comp_def)
  then have d: "distinct (map (\<lambda>(n, c). map to_lower n) (registered e d))"
    unfolding registered_names lower_command_names using distinct_lower_names by simp
  have same: "c' = c" if "(n', c') \<in> set (registered e d)" "map to_lower n' = map to_lower n" for n' c'
    using d assms(1) that by (auto simp: distinct_map inj_on_def)
  have "(map to_lower raw, c) \<in> set (m_handlers e d)" using assms by (auto simp: m_handlers_def intro!: bexI[of _ "(n, c)"])
  then obtain c1 where "map_of (m_handlers e d) (map to_lower raw) = Some c1" by (meson weak_map_of_SomeI)
  then obtain c2 where c2: "find_handler e d raw = Some c2" by (cases "map_of (m_handlers e d) raw") (auto simp: find_handler_def)
  then show ?thesis using find_handler_name[OF c2] same assms(2) by metis
qed

lemma find_session: "(n, c) \<in> set session_table \<Longrightarrow> find_handler e d n = Some c"
  by (rule find_handler_registered[of n]) (auto simp: registered_def base_table_def)

lemma find_store: "(n, c) \<in> set store_table \<Longrightarrow> find_handler e d n = Some (on_store c)"
  by (rule find_handler_registered[of n]) (force simp: registered_def base_table_def)+

lemma find_exec: "find_handler e d ''EXEC'' = Some e"
  by (rule find_handler_registered[of "''EXEC''"]) (auto simp: registered_def)

text \<open>What \<open>dispatch\<close> does with a request of bulk strings outside of a transaction, or with the commands that end one.\<close>

lemma dispatch_runs:
  assumes "find_handler exec script_dispatch n = Some c" "gate ctx n w = None" "multi_mode ctx \<longrightarrow> upperArg n = ''EXEC'' \<or> upperArg n = ''DISCARD''"
  shows "dispatch out ctx (bulks (n # as)) w =
    (case c out [] ctx (map bulk (n # as)) w of
       (ctx1, w1, rsp) \<Rightarrow>
         (ctx1, w1\<lparr>wd_slowlog := record_slow (client_id ctx1) (client_addr ctx1) (bulks (n # as))
                    (i64 ((o_end out [] - o_begin out []) * 1000)) (o_now out []) (wd_slowlog w1)\<rparr>, rsp))"
  using assms by (auto simp: dispatch_def dispatch_with_def run_command_def Let_def)

lemma upper_names: "upperArg ''EXEC'' = ''EXEC''" "upperArg ''WATCH'' = ''WATCH''" "upperArg ''MULTI'' = ''MULTI''"
  "upperArg ''SET'' = ''SET''" "upperArg ''GET'' = ''GET''" "upperArg ''AUTH'' = ''AUTH''" "upperArg ''PING'' = ''PING''"
  "upperArg ''BLPOP'' = ''BLPOP''" "upperArg ''ZADD'' = ''ZADD''" "upperArg ''ZSCORE'' = ''ZSCORE''" "upperArg ''XREAD'' = ''XREAD''"
  "upperArg ''DISCARD'' = ''DISCARD''" "upperArg ''SELECT'' = ''SELECT''"
  by (simp_all add: upperArg_def to_upper_letters)

end
