(* ===== verification/Watching.thy ===== *)
theory Watching
  imports Transactions
begin

text \<open>
  What \<open>WATCH\<close>, \<open>MULTI\<close> and \<open>EXEC\<close> guarantee together: a transaction runs as a whole and in order, or not at all when a
  watched key has changed.
\<close>

subsection \<open>WATCH and EXEC\<close>

lemma watchToken_views:
  assumes "shaped st"
  shows "snd (watchToken h db key st) = token h st db key" "token h (fst (watchToken h db key st)) = token h st"
    "peek h (fst (watchToken h db key st)) = peek h st" "shaped (fst (watchToken h db key st))"
    "live h now (fst (watchToken h db key st)) = live h now st"
    "watched h (fst (watchToken h db key st)) k \<longleftrightarrow> shardIdx h k = shardIdx h key \<or> watched h st k"
proof -
  show p: "peek h (fst (watchToken h db key st)) = peek h st"
    using assms by (auto simp: watchToken_def peek_def fun_eq_iff getShard_upd_shard db_at_def) (simp add: getShard_def)
  show "live h now (fst (watchToken h db key st)) = live h now st" by (simp add: live_def fun_eq_iff p)
  show "token h (fst (watchToken h db key st)) = token h st"
    using assms by (simp add: watchToken_def token_upd_data fun_eq_iff)
  show "watched h (fst (watchToken h db key st)) k \<longleftrightarrow> shardIdx h k = shardIdx h key \<or> watched h st k"
    using assms by (simp add: watchToken_def watched_def getShard_upd_shard)
qed (use assms in \<open>simp_all add: watchToken_def token_def\<close>)

lemma watchConflict_spec:
  assumes "shaped st"
  shows "snd (watchConflict h es st) \<longleftrightarrow> (\<exists>e \<in> set es. token h st (we_db e) (we_key e) \<noteq> we_token e)"
    "token h (fst (watchConflict h es st)) = token h st" "live h now (fst (watchConflict h es st)) = live h now st"
  using assms by (induction es arbitrary: st) (simp_all add: case_prod_unfold watchToken_views)

lemma watch_loop_spec:
  assumes "shaped st" "list_all (\<lambda>v. \<not> is_null v) vs"
    and "\<forall>e \<in> set (ctx_watched ctx). we_token e = token h st (we_db e) (we_key e)"
  shows "snd (snd (watch_loop h vs ctx st)) = resp_ok \<and>
    (\<lambda>e. (we_db e, we_key e)) ` set (ctx_watched (fst (watch_loop h vs ctx st))) =
       (\<lambda>e. (we_db e, we_key e)) ` set (ctx_watched ctx) \<union> Pair (ctx_db ctx) ` rstr ` set vs \<and>
    (\<forall>e \<in> set (ctx_watched (fst (watch_loop h vs ctx st))). we_token e = token h st (we_db e) (we_key e))"
  using assms
proof (induction vs arbitrary: ctx st)
  case (Cons v vs)
  let ?st = "fst (watchToken h (ctx_db ctx) (rstr v) st)" and ?t = "snd (watchToken h (ctx_db ctx) (rstr v) st)"
  let ?ctx = "if \<exists>e \<in> set (ctx_watched ctx). we_db e = ctx_db ctx \<and> we_key e = rstr v then ctx
             else ctx\<lparr>ctx_watched := ctx_watched ctx @ [\<lparr>we_db = ctx_db ctx, we_key = rstr v, we_token = ?t\<rparr>]\<rparr>"
  have step: "watch_loop h (v # vs) ctx st = watch_loop h vs ?ctx ?st" using Cons.prems(2) by (simp add: case_prod_unfold)
  have all: "list_all (\<lambda>v. \<not> is_null v) vs" using Cons.prems(2) by simp
  have "\<forall>e \<in> set (ctx_watched ?ctx). we_token e = token h ?st (we_db e) (we_key e)"
    using Cons.prems by (auto simp: watchToken_views)
  note IH = Cons.IH[OF watchToken_views(4)[OF Cons.prems(1), of h "ctx_db ctx" "rstr v"] all this]
  have db: "ctx_db ?ctx = ctx_db ctx" by simp
  have keys: "(\<lambda>e. (we_db e, we_key e)) ` set (ctx_watched ?ctx) =
      (\<lambda>e. (we_db e, we_key e)) ` set (ctx_watched ctx) \<union> {(ctx_db ctx, rstr v)}" by force
  show ?case unfolding step using IH unfolding keys db
    by (auto simp: watchToken_views(2)[OF Cons.prems(1)])
qed simp_all

lemma watch_loop_live: "shaped st \<Longrightarrow> live h now (fst (snd (watch_loop h vs ctx st))) = live h now st"
  by (induction vs arbitrary: ctx st) (simp_all add: case_prod_unfold watchToken_views)

text \<open>\<open>EXEC\<close> answers every queued command.\<close>

lemma exec_loop_replies:
  "rtype (snd (snd (exec_loop e d out k i q acc ctx w))) = Array \<and>
   length (rarray (snd (snd (exec_loop e d out k i q acc ctx w)))) = length acc + length q"
  by (induction q arbitrary: i acc ctx w) (simp_all add: array_of_def case_prod_unfold)

text \<open>
  C3: \<open>EXEC\<close> refuses exactly when a watched key has changed. A session watches keys, and later, after whatever others
  have done, executes a transaction. If the token of one of the keys differs from what it was at the \<open>WATCH\<close>, nothing
  is run, the reply is null and no value changes; otherwise the queued commands are run in order on the store as it
  is, and each is answered. Watching itself changes no value.
\<close>

theorem watch_exec:
  assumes "shaped (wd_store w0)" "shaped (wd_store w2)" "ctx_watched ctx0 = []" "ks \<noteq> []"
    and "cmd_watch out0 p0 ctx0 (map bulk (''WATCH'' # ks)) w0 = (ctx1, w1, r)"
    and "ctx_watched ctx2 = ctx_watched ctx1" "multi_mode ctx2" "h = o_hash out0" "o_hash out = h"
    and "exec out p ctx2 [bulk ''EXEC''] w2 = (ctx3, w3, rsp)"
  shows "r = resp_ok \<and> live h now (wd_store w1) = live h now (wd_store w0) \<and>
    (if \<exists>k \<in> set ks. token h (wd_store w2) (ctx_db ctx0) k \<noteq> token h (wd_store w0) (ctx_db ctx0) k
     then rsp = nullBulk \<and> ctx3 = leave_multi ctx2 \<and> live h now (wd_store w3) = live h now (wd_store w2)
     else \<exists>st. live h now st = live h now (wd_store w2) \<and> length (rarray rsp) = length (multi_queue ctx2) \<and>
       (ctx3, w3, rsp) = exec_loop unreachable script_dispatch out p 0 (multi_queue ctx2) [] (leave_multi ctx2) (w2\<lparr>wd_store := st\<rparr>))"
proof -
  let ?h = "o_hash out0" and ?vs = "map bulk ks" and ?db = "ctx_db ctx0"
  have loop: "watch_loop ?h ?vs ctx0 (wd_store w0) = (ctx1, wd_store w1, r)"
    using assms(4,5) by (auto simp: cmd_watch_def neq_Nil_conv split: prod.splits)
  have nn: "list_all (\<lambda>v. \<not> is_null v) ?vs" by (simp add: list_all_iff)
  note wl = watch_loop_spec[OF assms(1) nn, of ctx0 ?h, unfolded loop]
  have keys: "(\<lambda>e. (we_db e, we_key e)) ` set (ctx_watched ctx1) = Pair ?db ` set ks"
    and toks: "\<And>e. e \<in> set (ctx_watched ctx1) \<Longrightarrow> we_token e = token ?h (wd_store w0) (we_db e) (we_key e)"
    using wl assms(3) by (auto simp: image_image)
  have changed: "(\<exists>e \<in> set (ctx_watched ctx2). token h (wd_store w2) (we_db e) (we_key e) \<noteq> we_token e) \<longleftrightarrow>
      (\<exists>k \<in> set ks. token h (wd_store w2) ?db k \<noteq> token h (wd_store w0) ?db k)"
  proof -
    let ?P = "\<lambda>x. token h (wd_store w2) (fst x) (snd x) \<noteq> token h (wd_store w0) (fst x) (snd x)"
    have "(\<exists>e \<in> set (ctx_watched ctx2). token h (wd_store w2) (we_db e) (we_key e) \<noteq> we_token e) \<longleftrightarrow>
        (\<exists>x \<in> (\<lambda>e. (we_db e, we_key e)) ` set (ctx_watched ctx1). ?P x)" using toks assms(6,8) by auto
    then show ?thesis unfolding keys by auto
  qed
  obtain st b where c: "watchConflict h (ctx_watched ctx2) (wd_store w2) = (st, b)" by (metis prod.exhaust)
  have st: "live h now st = live h now (wd_store w2)"
    and b: "b \<longleftrightarrow> (\<exists>e \<in> set (ctx_watched ctx2). token h (wd_store w2) (we_db e) (we_key e) \<noteq> we_token e)"
    using watchConflict_spec(1)[OF assms(2), of h "ctx_watched ctx2"] watchConflict_spec(3)[OF assms(2), of h now "ctx_watched ctx2"] c
    by simp_all
  have live: "r = resp_ok" "live h now (wd_store w1) = live h now (wd_store w0)"
    using wl watch_loop_live[OF assms(1), of ?h now ?vs ctx0] assms(3,8) loop by simp_all
  show ?thesis
  proof (cases b)
    case True
    then show ?thesis using assms(7,9,10) c st live b changed by (auto simp: exec_def cmd_exec_def)
  next
    case False
    then have e: "exec_loop unreachable script_dispatch out p 0 (multi_queue ctx2) [] (leave_multi ctx2) (w2\<lparr>wd_store := st\<rparr>) = (ctx3, w3, rsp)"
      using assms(7,9,10) c by (simp add: exec_def cmd_exec_def)
    then have "length (rarray rsp) = length (multi_queue ctx2)"
      using exec_loop_replies[of unreachable script_dispatch out p 0 "multi_queue ctx2" "[]" "leave_multi ctx2" "w2\<lparr>wd_store := st\<rparr>"] by simp
    then show ?thesis using False st live b changed e by auto
  qed
qed

text \<open>Another client sets a watched key, and the transaction is refused.\<close>

definition watcher :: KvContext where
  "watcher = fst (cmd_watch quiet_out [] new_context (map bulk [''WATCH'', ''k'']) demo_world)"

definition after_set :: World where
  "after_set = (let w = fst (snd (cmd_watch quiet_out [] new_context (map bulk [''WATCH'', ''k'']) demo_world))
     in w\<lparr>wd_store := fst (cmd_set (env quiet_out []) 0 (map bulk [''SET'', ''k'', ''v'']) (wd_store w))\<rparr>)"

theorem watch_exec_witness:
  "token (\<lambda>_. 0) (wd_store after_set) 0 ''k'' \<noteq> token (\<lambda>_. 0) new_store 0 ''k'' \<and>
   snd (snd (exec quiet_out [] (watcher\<lparr>multi_mode := True\<rparr>) [bulk ''EXEC''] after_set)) = nullBulk"
proof -
  have tok: "token (\<lambda>_. 0) (wd_store after_set) 0 ''k'' \<noteq> token (\<lambda>_. 0) new_store 0 ''k''" "shaped (wd_store after_set)"
    by code_simp+
  obtain ctx1 w1 r where w: "cmd_watch quiet_out [] new_context (map bulk (''WATCH'' # [''k''])) demo_world = (ctx1, w1, r)" by (metis prod_cases3)
  obtain ctx3 w3 rsp where e: "exec quiet_out [] (watcher\<lparr>multi_mode := True\<rparr>) [bulk ''EXEC''] after_set = (ctx3, w3, rsp)" by (metis prod_cases3)
  have c: "ctx_watched (watcher\<lparr>multi_mode := True\<rparr>) = ctx_watched ctx1" "ctx_watched new_context = []" "ctx_db new_context = 0"
    "wd_store demo_world = new_store" "shaped new_store"
    using w wf_new_store by (simp_all add: watcher_def new_context_def demo_world_def wf_shaped[OF wf_new_store])
  have h: "(\<lambda>_. 0) = o_hash quiet_out" by (simp add: quiet_out_def demo_out_def)
  have s0: "shaped (wd_store demo_world)" using c(4,5) by simp
  have "multi_mode (watcher\<lparr>multi_mode := True\<rparr>)" by simp
  from watch_exec[OF s0 tok(2) c(2) _ w c(1) this h h[symmetric] e, of 0] tok(1) c(3,4) e show ?thesis by simp
qed

end
