(* ===== verification/Serve.thy ===== *)
theory Serve
  imports Watching
begin

text \<open>
  A connection from its first to its last byte: the buffers of \<open>KvSession\<close> (\<open>zero/kv/kv_session.cc\<close>) and the loop of
  \<open>KvServer::handleClient\<close> (\<open>zero/kv/kv_server.cc\<close>). The socket is the list of chunks that arrive and the bytes
  written; \<open>s_writes\<close> is the number of writes that succeed before the peer is gone, or \<open>None\<close>.
\<close>

subsection \<open>The session\<close>

record KvSession =
  s_ctx :: KvContext
  m_buffer :: string
  m_readPos :: nat
  m_dataLen :: nat
  m_writeBuf :: string
  s_in :: "string list"
  s_out :: string
  s_writes :: "nat option"
  s_closed :: bool

definition kDefaultBufferSize :: nat where
  "kDefaultBufferSize = 16 * 1024"

definition new_session :: "string list \<Rightarrow> nat option \<Rightarrow> KvSession" where
  "new_session input writes = \<lparr>s_ctx = new_context, m_buffer = replicate kDefaultBufferSize (CHR 0x00), m_readPos = 0,
     m_dataLen = 0, m_writeBuf = [], s_in = input, s_out = [], s_writes = writes, s_closed = False\<rparr>"

definition close_session :: "KvSession \<Rightarrow> KvSession" where
  "close_session s = s\<lparr>s_closed := True\<rparr>"

definition compactIfNeeded :: "KvSession \<Rightarrow> KvSession" where
  "compactIfNeeded s =
     (if m_readPos s = 0 then s
      else if m_readPos s < length (m_buffer s) div 2 \<and> m_dataLen s < length (m_buffer s) then s
      else if m_readPos s < m_dataLen s then
        (let n = m_dataLen s - m_readPos s
         in s\<lparr>m_buffer := take n (drop (m_readPos s) (m_buffer s)) @ drop n (m_buffer s), m_dataLen := n, m_readPos := 0\<rparr>)
      else s\<lparr>m_dataLen := 0, m_readPos := 0\<rparr>)"

definition unread :: "KvSession \<Rightarrow> string" where
  "unread s = take (m_dataLen s - m_readPos s) (drop (m_readPos s) (m_buffer s))"

text \<open>The reader always returns (\<open>tryParse_returns\<close>).\<close>

definition parse_next :: "RespValue \<Rightarrow> KvSession \<Rightarrow> ParseStatus \<times> nat \<times> RespValue" where
  "parse_next v s = (case tryParse (unread s) v of Some r \<Rightarrow> r | None \<Rightarrow> (ParseNeedMore, 0, v))"

text \<open>One call of \<open>read\<close>: the bytes, or \<open>None\<close> when it returns 0 or less.\<close>

definition socket_read :: "nat \<Rightarrow> KvSession \<Rightarrow> KvSession \<times> string option" where
  "socket_read n s =
     (if s_closed s then (s, None)
      else case s_in s of
        [] \<Rightarrow> (s, None)
      | chunk # r \<Rightarrow>
          if chunk = [] then (s\<lparr>s_in := r\<rparr>, None)
          else if length chunk \<le> n then (s\<lparr>s_in := r\<rparr>, Some chunk)
          else (s\<lparr>s_in := drop n chunk # r\<rparr>, Some (take n chunk)))"

definition fill_buffer :: "string \<Rightarrow> KvSession \<Rightarrow> KvSession" where
  "fill_buffer bytes s =
     s\<lparr>m_buffer := take (m_dataLen s) (m_buffer s) @ bytes @ drop (m_dataLen s + length bytes) (m_buffer s),
       m_dataLen := m_dataLen s + length bytes\<rparr>"

text \<open>The body of the loop of \<open>recvCommand\<close>: it ends with a result, or goes on.\<close>

definition recv_round :: "RespValue \<Rightarrow> KvSession \<Rightarrow> (KvSession \<times> RespValue option) + (RespValue \<times> KvSession)" where
  "recv_round v s0 =
     (let s = compactIfNeeded s0;
          (st, consumed, v') = (if m_dataLen s > m_readPos s then parse_next v s else (ParseNeedMore, 0, v))
      in if st = ParseOk then Inl (s\<lparr>m_readPos := m_readPos s + consumed\<rparr>, Some v')
         else if st = ParseError then Inl (close_session s, None)
         else if m_dataLen s \<ge> length (m_buffer s) then
           (if length (m_buffer s) \<ge> 16 * 1024 * 1024 then Inl (close_session s, None)
            else Inr (v', s\<lparr>m_buffer := m_buffer s @ replicate (length (m_buffer s)) (CHR 0x00)\<rparr>))
         else (case socket_read (length (m_buffer s) - m_dataLen s) s of
                 (s1, None) \<Rightarrow> Inl (close_session s1, None)
               | (s1, Some bytes) \<Rightarrow> Inr (v', fill_buffer bytes s1)))"

partial_function (option) recvCommand :: "RespValue \<Rightarrow> KvSession \<Rightarrow> (KvSession \<times> RespValue option) option" where
  "recvCommand v s = (case recv_round v s of Inl r \<Rightarrow> Some r | Inr (v', s') \<Rightarrow> recvCommand v' s')"

definition tryRecvCommand :: "RespValue \<Rightarrow> KvSession \<Rightarrow> KvSession \<times> RespValue option" where
  "tryRecvCommand v s0 =
     (let s = compactIfNeeded s0
      in if m_dataLen s \<le> m_readPos s then (s, None)
         else case parse_next v s of
           (ParseOk, consumed, v') \<Rightarrow> (s\<lparr>m_readPos := m_readPos s + consumed\<rparr>, Some v')
         | (ParseError, _, _) \<Rightarrow> (close_session s, None)
         | (ParseNeedMore, _, _) \<Rightarrow> (s, None))"

definition append_reply :: "RespValue \<Rightarrow> KvSession \<Rightarrow> KvSession" where
  "append_reply rsp s = s\<lparr>m_writeBuf := appendResponse (m_writeBuf s) rsp\<rparr>"

text \<open>\<open>flushResponses\<close> and the result of \<open>writeFixSize\<close>; the buffer is cleared in any case.\<close>

definition flushResponses :: "KvSession \<Rightarrow> KvSession \<times> int" where
  "flushResponses s =
     (if m_writeBuf s = [] then (s, 0)
      else if s_closed s \<or> s_writes s = Some 0 then (s\<lparr>m_writeBuf := []\<rparr>, - 1)
      else (s\<lparr>m_writeBuf := [], s_out := s_out s @ m_writeBuf s, s_writes := map_option (\<lambda>n. n - 1) (s_writes s)\<rparr>,
            int (length (m_writeBuf s))))"

definition pushPubSubMessage :: "RespValue \<Rightarrow> KvSession \<Rightarrow> KvSession" where
  "pushPubSubMessage msg s = fst (flushResponses (append_reply msg s))"

definition pushReplicationPayload :: "string \<Rightarrow> KvSession \<Rightarrow> KvSession" where
  "pushReplicationPayload encoded s = fst (flushResponses (s\<lparr>m_writeBuf := m_writeBuf s @ encoded\<rparr>))"

primrec give_output :: "SessionOutput \<Rightarrow> KvSession \<Rightarrow> KvSession" where
  "give_output (AppendResponse v) = append_reply v"
| "give_output (PushPubSubMessage v) = pushPubSubMessage v"
| "give_output (PushReplicationPayload d) = pushReplicationPayload d"

text \<open>What the world has given to this session since it had given \<open>n\<close> outputs.\<close>

definition deliver :: "nat \<Rightarrow> World \<Rightarrow> KvSession \<Rightarrow> KvSession" where
  "deliver n w s =
     fold (\<lambda>(who, o1). if Some who = ctx_session (s_ctx s) then give_output o1 else id) (drop n (wd_output w)) s"

subsection \<open>The loop of a client\<close>

text \<open>The body of the inner loop; \<open>aof\<close> and \<open>repl\<close> were determined when the client connected.\<close>

definition handle_request :: "Outside \<Rightarrow> bool \<Rightarrow> bool \<Rightarrow> RespValue \<Rightarrow> KvSession \<Rightarrow> World \<Rightarrow> KvSession \<times> World" where
  "handle_request out aof repl req s w =
     (case dispatch out (s_ctx s) req w of
        (ctx, w1, rsp) \<Rightarrow>
          let s1 = deliver (length (wd_output w)) w1 (s\<lparr>s_ctx := ctx\<rparr>);
              s2 = (if rtype rsp \<noteq> Null then append_reply rsp s1 else s1);
              w2 = (if (aof \<or> repl) \<and> rtype rsp \<noteq> Error \<and> isMutatingCommand (cmdNameFromRequest req)
                    then (let w' = (if aof then log_command req w1 else w1) in if repl then propagate out req w' else w')
                    else w1)
          in (deliver (length (wd_output w1)) w2 s2, w2))"

text \<open>What is left to read; compaction does not change it.\<close>

lemma compact_fields [simp]:
  "s_ctx (compactIfNeeded s) = s_ctx s" "m_writeBuf (compactIfNeeded s) = m_writeBuf s" "s_in (compactIfNeeded s) = s_in s"
  "s_out (compactIfNeeded s) = s_out s" "s_writes (compactIfNeeded s) = s_writes s" "s_closed (compactIfNeeded s) = s_closed s"
  by (simp_all add: compactIfNeeded_def Let_def)

definition available :: "KvSession \<Rightarrow> nat" where
  "available s = m_dataLen s - m_readPos s"

lemma compact_available: "available (compactIfNeeded s) = available s"
  by (simp add: compactIfNeeded_def available_def Let_def)

lemma parse_next_consumes: "parse_next v s = (ParseOk, c, v') \<Longrightarrow> 0 < c"
  by (auto simp: parse_next_def dest: tryParse_bound split: option.splits)

lemma tryRecv_available:
  "tryRecvCommand v s = (s', r) \<Longrightarrow> available s' \<le> available s \<and> (r \<noteq> None \<longrightarrow> available s' < available s)"
  using compact_available[of s]
  by (auto simp: tryRecvCommand_def available_def close_session_def Let_def dest: parse_next_consumes
      split: if_splits prod.splits ParseStatus.splits)

text \<open>Output does not touch the input side of a session.\<close>

definition input_side :: "KvSession \<Rightarrow> string \<times> nat \<times> nat \<times> string list \<times> bool" where
  "input_side s = (m_buffer s, m_readPos s, m_dataLen s, s_in s, s_closed s)"

lemma input_side_ctx [simp]: "input_side (s\<lparr>s_ctx := c\<rparr>) = input_side s" "input_side (s\<lparr>m_writeBuf := b\<rparr>) = input_side s"
  by (simp_all add: input_side_def)

lemma input_side_flush [simp]: "input_side (fst (flushResponses s)) = input_side s"
  by (simp add: input_side_def flushResponses_def)

lemma input_side_append [simp]: "input_side (append_reply v s) = input_side s"
  by (simp add: append_reply_def)

lemma input_side_give [simp]: "input_side (give_output x s) = input_side s"
  by (cases x) (simp_all add: pushPubSubMessage_def pushReplicationPayload_def)

lemma input_side_fold: "input_side (fold (\<lambda>(who, x). if P who then give_output x else id) xs s) = input_side s"
  by (induction xs arbitrary: s) (simp_all add: case_prod_unfold)

lemma input_side_deliver [simp]: "input_side (deliver n w s) = input_side s"
  unfolding deliver_def by (rule input_side_fold)

lemma input_side_handle [simp]: "input_side (fst (handle_request out aof repl req s w)) = input_side s"
  by (simp add: handle_request_def Let_def case_prod_unfold)

lemma available_side: "input_side s = input_side t \<Longrightarrow> available s = available t"
  by (simp add: input_side_def available_def)

lemma batch_step:
  assumes "(s1, w1) = handle_request out aof repl req s w" "(s2, Some req') = tryRecvCommand req s1"
  shows "available s2 < available s"
proof -
  have "available s1 = available s" using assms(1) by (metis available_side fst_conv input_side_handle)
  then show ?thesis using tryRecv_available[OF assms(2)[symmetric]] by simp
qed

function (sequential) handle_batch ::
    "(nat \<Rightarrow> Outside) \<Rightarrow> bool \<Rightarrow> bool \<Rightarrow> nat \<Rightarrow> RespValue \<Rightarrow> KvSession \<Rightarrow> World \<Rightarrow> nat \<times> KvSession \<times> World" where
  "handle_batch outs aof repl i req s w =
     (case handle_request (outs i) aof repl req s w of
        (s1, w1) \<Rightarrow>
          if ctx_quit (s_ctx s1) then (i + 1, s1, w1)
          else (case tryRecvCommand req s1 of
                  (s2, None) \<Rightarrow> (i + 1, s2, w1)
                | (s2, Some req') \<Rightarrow> handle_batch outs aof repl (i + 1) req' s2 w1))"
  by pat_completeness auto
termination
  by (relation "measure (\<lambda>(outs, aof, repl, i, req, s, w). available s)") (auto intro: batch_step)

declare handle_batch.simps [simp del]

text \<open>
  \<open>idle\<close> is what the other parts of the server do while this client waits for the i-th command. A replica stays
  until it disconnects; this wait, which the code makes in rounds of a second, is one step here and always ends.
  Exceptions that leave the loop are not modelled.
\<close>

partial_function (option) serve_loop ::
    "(nat \<Rightarrow> Outside) \<Rightarrow> (nat \<Rightarrow> World \<Rightarrow> World) \<Rightarrow> bool \<Rightarrow> bool \<Rightarrow> nat \<Rightarrow> KvSession \<Rightarrow> World \<Rightarrow> (KvSession \<times> World) option" where
  "serve_loop outs idle aof repl i s w =
     (let w1 = idle i w
      in case recvCommand defaultValue (deliver (length (wd_output w)) w1 s) of
           None \<Rightarrow> None
         | Some (s1, None) \<Rightarrow> Some (s1, w1)
         | Some (s1, Some req) \<Rightarrow>
             (case handle_batch outs aof repl i req s1 w1 of
                (j, s2, w2) \<Rightarrow>
                  (case flushResponses s2 of
                     (s3, n) \<Rightarrow>
                       if n \<le> 0 then Some (s3, w2)
                       else if replica_connection (s_ctx s3) then
                         (let w3 = idle j w2 in Some (deliver (length (wd_output w2)) w3 s3, w3))
                       else if ctx_quit (s_ctx s3) then Some (s3, w2)
                       else serve_loop outs idle aof repl j s3 w2)))"

text \<open>What is undone when the connection ends.\<close>

definition disconnect :: "(sid \<Rightarrow> bool) \<Rightarrow> sid \<Rightarrow> World \<Rightarrow> World" where
  "disconnect alive me w =
     (case cancelWaiters alive me (wd_waiters w) of
        (ws, woken) \<Rightarrow>
          w\<lparr>wd_hub := removeSession alive me (wd_hub w), wd_waiters := ws, wd_woken := wd_woken w @ woken,
            wd_repl := map_option (removeReplica alive me) (wd_repl w)\<rparr>)"

definition connect :: "sid \<Rightarrow> int64 \<Rightarrow> string \<Rightarrow> string list \<Rightarrow> nat option \<Rightarrow> World \<Rightarrow> KvSession" where
  "connect me cid addr input writes w =
     (new_session input writes)\<lparr>s_ctx := new_context\<lparr>ctx_pubsub := True, ctx_session := Some me, client_id := cid,
        client_addr := addr, authenticated := \<not> isAuthRequired w\<rparr>\<rparr>"

definition aof_active :: "World \<Rightarrow> bool" where
  "aof_active w \<longleftrightarrow> (case wd_aof w of None \<Rightarrow> False | Some a \<Rightarrow> m_enabled a)"

definition repl_active :: "World \<Rightarrow> bool" where
  "repl_active w \<longleftrightarrow> (case wd_repl w of None \<Rightarrow> False | Some r \<Rightarrow> m_role r = Master)"

definition handleClient ::
    "(nat \<Rightarrow> Outside) \<Rightarrow> (nat \<Rightarrow> World \<Rightarrow> World) \<Rightarrow> (sid \<Rightarrow> bool) \<Rightarrow> sid \<Rightarrow> int64 \<Rightarrow> string \<Rightarrow> string list \<Rightarrow> nat option \<Rightarrow>
     World \<Rightarrow> (KvSession \<times> World) option" where
  "handleClient outs idle alive me cid addr input writes w =
     map_option (\<lambda>(s, w'). (close_session s, disconnect alive me w'))
       (serve_loop outs idle (aof_active w) (repl_active w) 0 (connect me cid addr input writes w) w)"

subsection \<open>Every connection ends\<close>

definition sane :: "KvSession \<Rightarrow> bool" where
  "sane s \<longleftrightarrow> m_buffer s \<noteq> [] \<and> m_dataLen s \<le> length (m_buffer s)"

definition to_come :: "KvSession \<Rightarrow> nat" where
  "to_come s = sum_list (map length (s_in s))"

lemma sane_side: "input_side s = input_side t \<Longrightarrow> sane s = sane t" "input_side s = input_side t \<Longrightarrow> to_come s = to_come t"
  by (simp_all add: input_side_def sane_def to_come_def)

lemma compact_sane: "sane s \<Longrightarrow> sane (compactIfNeeded s)" "length (m_buffer (compactIfNeeded s)) = length (m_buffer s) \<or> \<not> sane s"
  by (auto simp: compactIfNeeded_def sane_def Let_def)

lemma compact_to_come [simp]: "to_come (compactIfNeeded s) = to_come s"
  by (simp add: to_come_def)

lemma socket_read_cases:
  assumes "socket_read n s = (s', r)" "0 < n"
  obtains (closed) "r = None"
    | (bytes) bs where "r = Some bs" "bs \<noteq> []" "length bs \<le> n" "to_come s = length bs + to_come s'"
        "m_buffer s' = m_buffer s" "m_dataLen s' = m_dataLen s" "m_readPos s' = m_readPos s"
proof (cases r)
  case (Some bs)
  then show ?thesis using assms bytes[of bs]
    by (auto simp: socket_read_def to_come_def split: if_splits list.splits)
qed (rule closed)

text \<open>A round keeps the session sane; a command it returns has taken at least a byte, and going on means that the
  buffer grew or bytes arrived.\<close>

definition reads_less :: "(KvSession \<times> KvSession) set" where
  "reads_less = inv_image (less_than <*lex*> less_than) (\<lambda>s. (to_come s, 16 * 1024 * 1024 - length (m_buffer s)))"

definition left_over :: "KvSession \<Rightarrow> nat" where
  "left_over s = available s + to_come s"

lemma wf_reads_less: "wf reads_less"
  unfolding reads_less_def by (intro wf_inv_image wf_lex_prod wf_less_than)

lemma grow_less:
  assumes "sane s" "\<not> 16 * 1024 * 1024 \<le> length (m_buffer s)"
  shows "(s\<lparr>m_buffer := m_buffer s @ replicate (length (m_buffer s)) c\<rparr>, s) \<in> reads_less"
proof -
  have "0 < length (m_buffer s)" using assms(1) by (simp add: sane_def)
  then have "16777216 - (length (m_buffer s) + length (m_buffer s)) < 16777216 - length (m_buffer s)" using assms(2) by linarith
  then show ?thesis by (simp add: reads_less_def to_come_def)
qed

lemma compact_less: "sane s \<Longrightarrow> (t, compactIfNeeded s) \<in> reads_less \<longleftrightarrow> (t, s) \<in> reads_less"
  using compact_sane(2)[of s] by (auto simp: reads_less_def)

lemma fill_sane:
  assumes "sane s" "socket_read (length (m_buffer s) - m_dataLen s) s = (s1, Some bs)" "m_dataLen s < length (m_buffer s)"
  shows "sane (fill_buffer bs s1)" "left_over (fill_buffer bs s1) \<le> left_over s" "(fill_buffer bs s1, s) \<in> reads_less"
proof -
  have n: "0 < length (m_buffer s) - m_dataLen s" using assms(3) by simp
  from assms(2) n have "sane (fill_buffer bs s1) \<and> left_over (fill_buffer bs s1) \<le> left_over s \<and> (fill_buffer bs s1, s) \<in> reads_less"
    by (cases rule: socket_read_cases)
      (use assms(1,3) in \<open>auto simp: sane_def left_over_def available_def to_come_def fill_buffer_def reads_less_def\<close>)
  then show "sane (fill_buffer bs s1)" "left_over (fill_buffer bs s1) \<le> left_over s" "(fill_buffer bs s1, s) \<in> reads_less" by auto
qed

lemma recv_round_progress:
  assumes "sane s"
  shows "case recv_round v s of
      Inl (t, r) \<Rightarrow> sane t \<and> (r \<noteq> None \<longrightarrow> left_over t < left_over s)
    | Inr (v', t) \<Rightarrow> sane t \<and> left_over t \<le> left_over s \<and> (t, s) \<in> reads_less"
proof -
  let ?s = "compactIfNeeded s"
  have sane: "sane ?s" and left: "left_over ?s = left_over s"
    using compact_sane[of s] assms compact_available[of s] by (auto simp: left_over_def)
  obtain st c v' where p: "(if m_dataLen ?s > m_readPos ?s then parse_next v ?s else (ParseNeedMore, 0, v)) = (st, c, v')"
    by (metis prod_cases3)
  have ok: "left_over (?s\<lparr>m_readPos := m_readPos ?s + c\<rparr>) < left_over s" if "st = ParseOk"
  proof -
    have "m_readPos ?s < m_dataLen ?s" "0 < c" using p that by (auto split: if_splits dest: parse_next_consumes)
    then show ?thesis unfolding left[symmetric] by (simp add: left_over_def available_def to_come_def)
  qed
  have sane': "sane (t\<lparr>m_readPos := n\<rparr>) = sane t" "sane (close_session t) = sane t" for t n
    by (simp_all add: sane_def close_session_def)
  have grown: "sane (?s\<lparr>m_buffer := m_buffer ?s @ b\<rparr>)" "left_over (?s\<lparr>m_buffer := m_buffer ?s @ b\<rparr>) = left_over s" for b
    using sane unfolding left[symmetric] by (simp_all add: sane_def left_over_def available_def to_come_def)
  have read: "sane t" if "socket_read n ?s = (t, r)" for n t r
    using that sane by (auto simp: socket_read_def sane_def split: if_splits list.splits)
  note less = grow_less[OF sane, unfolded compact_less[OF assms]]
  note fill = fill_sane[OF sane, unfolded compact_less[OF assms] left]
  show ?thesis unfolding recv_round_def p Let_def using ok sane read less fill
    by (auto simp: sane' grown split: prod.split option.split)
qed

lemma recvCommand_returns:
  "sane s \<Longrightarrow> \<exists>s' r. recvCommand v s = Some (s', r) \<and> sane s' \<and> (r \<noteq> None \<longrightarrow> left_over s' < left_over s)"
proof (induction s arbitrary: v rule: wf_induct_rule[OF wf_reads_less])
  case (1 s)
  show ?case
  proof (cases "recv_round v s")
    case (Inl r)
    then show ?thesis using recv_round_progress[OF "1.prems", of v]
      by (subst recvCommand.simps) (auto split: prod.splits)
  next
    case (Inr vt)
    obtain v' t where vt: "vt = (v', t)" by (cases vt)
    have t: "sane t" "left_over t \<le> left_over s" "(t, s) \<in> reads_less"
      using recv_round_progress[OF "1.prems", of v] by (simp_all add: Inr vt)
    from "1.IH"[OF t(3,1), of v'] show ?thesis using t(2) by (subst recvCommand.simps) (auto simp: Inr vt)
  qed
qed

lemma tryRecv_keeps:
  assumes "sane s"
  shows "sane (fst (tryRecvCommand v s))" "to_come (fst (tryRecvCommand v s)) = to_come s"
  using compact_sane[of s] assms
  by (auto simp: tryRecvCommand_def close_session_def sane_def to_come_def Let_def split: prod.split ParseStatus.split)

lemma handle_batch_left_over:
  "handle_batch outs aof repl i req s w = (j, t, w') \<Longrightarrow> sane s \<Longrightarrow> sane t \<and> left_over t \<le> left_over s"
proof (induction outs aof repl i req s w rule: handle_batch.induct)
  case (1 outs aof repl i req s w)
  obtain s1 w1 where h: "handle_request (outs i) aof repl req s w = (s1, w1)" by (metis prod.exhaust)
  obtain s2 r where rcv: "tryRecvCommand req s1 = (s2, r)" by (metis prod.exhaust)
  have side: "input_side s1 = input_side s" using h by (metis fst_conv input_side_handle)
  then have s1: "sane s1" "left_over s1 = left_over s"
    using 1(3) sane_side[OF side] available_side[OF side] by (simp_all add: left_over_def)
  have s2: "sane s2" "left_over s2 \<le> left_over s1"
    using tryRecv_keeps[OF s1(1), of req] tryRecv_available[OF rcv] by (simp_all add: rcv left_over_def)
  show ?case
  proof (cases "ctx_quit (s_ctx s1) \<or> r = None")
    case True
    then show ?thesis using 1(2) s1 s2 by (auto simp: handle_batch.simps[of outs aof repl i req] h rcv split: if_splits)
  next
    case False
    then obtain req' where r: "r = Some req'" by auto
    have "handle_batch outs aof repl (i + 1) req' s2 w1 = (j, t, w')"
      using 1(2) False r by (simp add: handle_batch.simps[of outs aof repl i req] h rcv)
    from 1(1)[OF h[symmetric] _ rcv[symmetric] r this s2(1)] False s1 s2 show ?thesis by auto
  qed
qed

lemma serve_loop_returns: "sane s \<Longrightarrow> \<exists>r. serve_loop outs idle aof repl i s w = Some r"
proof (induction "left_over s" arbitrary: i s w rule: less_induct)
  case less
  let ?s = "deliver (length (wd_output w)) (idle i w) s"
  have side: "input_side ?s = input_side s" by simp
  have s: "sane ?s" "left_over ?s = left_over s"
    using less.prems sane_side[OF side] available_side[OF side] by (simp_all add: left_over_def)
  obtain s1 r where r: "recvCommand defaultValue ?s = Some (s1, r)" "sane s1" "r \<noteq> None \<longrightarrow> left_over s1 < left_over s"
    using recvCommand_returns[OF s(1), of defaultValue] s(2) by auto
  show ?case
  proof (cases r)
    case None
    then show ?thesis using r(1) by (subst serve_loop.simps) (simp add: Let_def)
  next
    case (Some req)
    obtain j s2 w2 where b: "handle_batch outs aof repl i req s1 (idle i w) = (j, s2, w2)" by (metis prod_cases3)
    obtain s3 n where f: "flushResponses s2 = (s3, n)" by (metis prod.exhaust)
    have side: "input_side s3 = input_side s2" using f by (metis fst_conv input_side_flush)
    have "sane s3" "left_over s3 < left_over s"
      using handle_batch_left_over[OF b r(2)] r(3) Some sane_side[OF side] available_side[OF side]
      by (simp_all add: left_over_def)
    from less.hyps[OF this(2,1), of j w2] show ?thesis
      by (subst serve_loop.simps) (auto simp: Let_def r(1) Some b f)
  qed
qed

lemma removeFrom_sessions [simp]:
  "m_sessionChannels (foldl (\<lambda>h ch. removeFromChannelMap alive ch me h) h cs) = m_sessionChannels h"
  "m_sessionPatterns (foldl (\<lambda>h ch. removeFromChannelMap alive ch me h) h cs) = m_sessionPatterns h"
  "m_sessionChannels (foldl (\<lambda>h p. removeFromPatternMap alive p me h) h cs) = m_sessionChannels h"
  "m_sessionPatterns (foldl (\<lambda>h p. removeFromPatternMap alive p me h) h cs) = m_sessionPatterns h"
  by (induction cs arbitrary: h) (simp_all add: removeFromChannelMap_def removeFromPatternMap_def Let_def split: option.split)

lemma removeSession_count: "subscriptionCount me (removeSession alive me h) = 0"
  by (auto simp: subscriptionCount_def removeSession_def punsubscribeAll_def unsubscribeAll_def delete_conv' split: option.split)

text \<open>
  The loop of a client ends on every finite input. The socket of the model delivers finitely many chunks, the waits of a
  client and of its commands (\<open>idle\<close>, \<open>o_wait\<close>) end, and no operation throws. Then, whatever the bytes,
  \<open>handleClient\<close> returns, and it leaves the session closed, without subscriptions, without waiters and
  not among the replicas. In the code a replica's loop or a blocking pop can wait for ever, and an exception, such as
  that of \<open>reserve\<close> for a huge array count in \<open>parseValue\<close>, leaves \<open>handleClient\<close> without this cleanup.
\<close>

theorem handleClient_returns:
  "\<exists>s w'. handleClient outs idle alive me cid addr input writes w = Some (s, w') \<and> s_closed s \<and>
     subscriptionCount me (wd_hub w') = 0 \<and> filter (\<lambda>x. w_session x = Some me \<and> alive me) (wd_waiters w') = [] \<and>
     (case wd_repl w' of None \<Rightarrow> True | Some r \<Rightarrow> me \<notin> set (m_replicas r))"
proof -
  have "sane (connect me cid addr input writes w)"
    by (simp add: connect_def new_session_def sane_def kDefaultBufferSize_def)
  then obtain r where "serve_loop outs idle (aof_active w) (repl_active w) 0 (connect me cid addr input writes w) w = Some r"
    using serve_loop_returns by blast
  then show ?thesis
    by (cases r) (auto simp: handleClient_def close_session_def disconnect_def cancelWaiters_def removeReplica_def Let_def
        removeSession_count filter_empty_conv split: option.split)
qed

subsection \<open>Bytes and requests\<close>

text \<open>
  The server on requests instead of bytes: a client that sends batches of requests. A session without its receive
  buffer is \<open>bare\<close>.
\<close>

definition bare :: "KvSession \<Rightarrow> KvSession" where
  "bare s = s\<lparr>m_buffer := [], m_readPos := 0, m_dataLen := 0, s_in := []\<rparr>"

fun handle_all :: "(nat \<Rightarrow> Outside) \<Rightarrow> bool \<Rightarrow> bool \<Rightarrow> nat \<Rightarrow> RespValue list \<Rightarrow> KvSession \<Rightarrow> World \<Rightarrow> nat \<times> KvSession \<times> World" where
  "handle_all outs aof repl i [] s w = (i, s, w)"
| "handle_all outs aof repl i (req # reqs) s w =
     (case handle_request (outs i) aof repl req s w of
        (s1, w1) \<Rightarrow> if ctx_quit (s_ctx s1) then (i + 1, s1, w1) else handle_all outs aof repl (i + 1) reqs s1 w1)"

fun serve_batches ::
    "(nat \<Rightarrow> Outside) \<Rightarrow> (nat \<Rightarrow> World \<Rightarrow> World) \<Rightarrow> bool \<Rightarrow> bool \<Rightarrow> nat \<Rightarrow> RespValue list list \<Rightarrow> KvSession \<Rightarrow> World \<Rightarrow> KvSession \<times> World" where
  "serve_batches outs idle aof repl i [] s w = (deliver (length (wd_output w)) (idle i w) s, idle i w)"
| "serve_batches outs idle aof repl i (b # bs) s w =
     (case handle_all outs aof repl i b (deliver (length (wd_output w)) (idle i w) s) (idle i w) of
        (j, s2, w2) \<Rightarrow>
          (case flushResponses s2 of
             (s3, n) \<Rightarrow>
               if n \<le> 0 then (s3, w2)
               else if replica_connection (s_ctx s3) then (deliver (length (wd_output w2)) (idle j w2) s3, idle j w2)
               else if ctx_quit (s_ctx s3) then (s3, w2)
               else serve_batches outs idle aof repl j bs s3 w2))"

lemma bare_ctx [simp]: "s_ctx (bare s) = s_ctx s" "bare (s\<lparr>s_ctx := c\<rparr>) = (bare s)\<lparr>s_ctx := c\<rparr>" "bare (bare s) = bare s"
  by (simp_all add: bare_def)

lemma bare_append [simp]: "append_reply v (bare s) = bare (append_reply v s)"
  by (simp add: bare_def append_reply_def)

lemma bare_flush: "flushResponses (bare s) = apfst bare (flushResponses s)"
  by (simp add: bare_def flushResponses_def)

lemma bare_writeBuf: "(bare s)\<lparr>m_writeBuf := b\<rparr> = bare (s\<lparr>m_writeBuf := b\<rparr>)" "m_writeBuf (bare s) = m_writeBuf s"
  by (simp_all add: bare_def)

lemma bare_give: "give_output x (bare s) = bare (give_output x s)"
  by (cases x) (simp_all add: pushPubSubMessage_def pushReplicationPayload_def bare_flush bare_writeBuf)

lemma bare_fold:
  "fold (\<lambda>(who, x). if P who then give_output x else id) xs (bare s) =
   bare (fold (\<lambda>(who, x). if P who then give_output x else id) xs s)"
  by (induction xs arbitrary: s) (simp_all add: case_prod_unfold bare_give)

lemma bare_deliver: "deliver n w (bare s) = bare (deliver n w s)"
  by (simp add: deliver_def bare_fold)

lemma bare_handle: "handle_request out aof repl req (bare s) w = apfst bare (handle_request out aof repl req s w)"
proof -
  have up: "(bare s)\<lparr>s_ctx := c\<rparr> = bare (s\<lparr>s_ctx := c\<rparr>)" for c by simp
  show ?thesis by (simp only: handle_request_def Let_def case_prod_unfold up bare_ctx(1) bare_deliver bare_append apfst_conv if_distrib[of bare, symmetric])
qed

text \<open>The commands of a client: arrays that have a wire form.\<close>

definition is_request :: "RespValue \<Rightarrow> bool" where
  "is_request v \<longleftrightarrow> wire v \<and> rtype v = Array"

lemma request_fields: "is_request v \<Longrightarrow> rstr v = [] \<and> rint v = 0 \<and> \<not> is_null v"
  by (cases v) (auto simp: is_request_def)

lemma compact_unread: "sane s \<Longrightarrow> unread (compactIfNeeded s) = unread s"
  by (auto simp: compactIfNeeded_def unread_def sane_def Let_def)

lemma compact_read_pos: "m_readPos s \<le> m_dataLen s \<Longrightarrow> m_readPos (compactIfNeeded s) \<le> m_dataLen (compactIfNeeded s)"
  by (simp add: compactIfNeeded_def Let_def)

lemma length_unread: "sane s \<Longrightarrow> length (unread s) = available s"
  by (auto simp: unread_def sane_def available_def min_def)

lemma bare_compact [simp]: "bare (compactIfNeeded s) = bare s"
  by (simp add: bare_def compactIfNeeded_def Let_def)

text \<open>Taking the next request from the bytes that are there.\<close>

lemma parse_next_request:
  assumes "is_request v" "unread s = encode v @ rest" "rstr old = []" "rint old = 0" "\<not> is_null old"
  shows "parse_next old s = (ParseOk, length (encode v), v)"
  using tryParse_request[of v old rest] assms by (simp add: parse_next_def is_request_def)

lemma unread_advance:
  assumes "sane s" "unread s = a @ rest"
  shows "unread (s\<lparr>m_readPos := m_readPos s + length a\<rparr>) = rest"
proof -
  have "rest = drop (length a) (unread s)" using assms(2) by simp
  then show ?thesis by (simp add: unread_def drop_take add.commute)
qed

definition holds :: "nat \<Rightarrow> string \<Rightarrow> KvSession \<Rightarrow> bool" where
  "holds n bytes s \<longleftrightarrow> sane s \<and> m_readPos s \<le> m_dataLen s \<and> unread s = bytes \<and> length (m_buffer s) = n"

lemma holds_side: "input_side s = input_side t \<Longrightarrow> holds n bytes s = holds n bytes t"
  by (simp add: input_side_def holds_def sane_def unread_def)

lemma holds_compact: "holds n bytes s \<Longrightarrow> holds n bytes (compactIfNeeded s)"
  using compact_sane[of s] compact_unread[of s] compact_read_pos[of s] by (auto simp: holds_def)

lemma holds_available: "holds n bytes s \<Longrightarrow> m_dataLen s = m_readPos s + length bytes"
  using length_unread[of s] by (auto simp: holds_def available_def)

lemma holds_advance:
  assumes "holds n (a @ rest) s"
  shows "holds n rest (s\<lparr>m_readPos := m_readPos s + length a\<rparr>)"
  using assms unread_advance[of s a rest] holds_available[OF assms] by (auto simp: holds_def sane_def)

lemma encode_request_nonempty: "is_request v \<Longrightarrow> encode v \<noteq> []"
  by (cases v) (auto simp: is_request_def encode_simps)

lemma bare_read_pos [simp]: "bare (s\<lparr>m_readPos := p\<rparr>) = bare s"
  by (simp add: bare_def)

lemma tryRecv_request:
  assumes "holds n (encode v @ rest) s" "is_request v" "is_request old"
  shows "\<exists>t. tryRecvCommand old s = (t, Some v) \<and> holds n rest t \<and> bare t = bare s \<and> s_in t = s_in s"
proof -
  let ?s = "compactIfNeeded s"
  have h: "holds n (encode v @ rest) ?s" by (rule holds_compact[OF assms(1)])
  have "m_readPos ?s < m_dataLen ?s" using holds_available[OF h] encode_request_nonempty[OF assms(2)] by simp
  moreover have "parse_next old ?s = (ParseOk, length (encode v), v)"
    using parse_next_request[OF assms(2)] h request_fields[OF assms(3)] by (simp add: holds_def)
  ultimately show ?thesis using holds_advance[OF h] by (simp add: tryRecvCommand_def Let_def)
qed

lemma tryRecv_empty:
  assumes "holds n [] s"
  shows "\<exists>t. tryRecvCommand old s = (t, None) \<and> holds n [] t \<and> bare t = bare s \<and> s_in t = s_in s"
  using holds_compact[OF assms] holds_available[OF holds_compact[OF assms]] by (simp add: tryRecvCommand_def Let_def)

lemma bare_side: "input_side s = input_side t \<Longrightarrow> s_in s = s_in t" "input_side s = input_side t \<Longrightarrow> s_closed s = s_closed t"
  by (simp_all add: input_side_def)

lemma bare_closed: "bare s = bare t \<Longrightarrow> s_closed s = s_closed t"
  by (drule arg_cong[of _ _ s_closed]) (simp add: bare_def)

lemma batch_requests:
  "holds n (concat (map encode reqs)) s \<Longrightarrow> is_request req \<Longrightarrow> list_all is_request reqs \<Longrightarrow>
   handle_batch outs aof repl i req s w = (j, t, w') \<Longrightarrow>
   handle_all outs aof repl i (req # reqs) (bare s) w = (j, bare t, w') \<and> s_in t = s_in s \<and> s_closed t = s_closed s \<and>
     (ctx_quit (s_ctx t) \<or> holds n [] t)"
proof (induction reqs arbitrary: req i s w)
  case Nil
  obtain s1 w1 where h: "handle_request (outs i) aof repl req s w = (s1, w1)" by (metis prod.exhaust)
  have side: "input_side s1 = input_side s" using h by (metis fst_conv input_side_handle)
  have "holds n [] s1" using Nil.prems(1) holds_side[OF side] by simp
  from tryRecv_empty[OF this, of req] show ?case
    using Nil.prems(4) bare_side[OF side] by (auto dest: bare_closed simp: handle_batch.simps[of outs aof repl i req] h bare_handle split: if_splits)
next
  case (Cons r reqs)
  obtain s1 w1 where h: "handle_request (outs i) aof repl req s w = (s1, w1)" by (metis prod.exhaust)
  have side: "input_side s1 = input_side s" using h by (metis fst_conv input_side_handle)
  have "holds n (encode r @ concat (map encode reqs)) s1" using Cons.prems(1) holds_side[OF side] by simp
  from tryRecv_request[OF this _ Cons.prems(2)] Cons.prems(3) obtain s2
    where s2: "tryRecvCommand req s1 = (s2, Some r)" "holds n (concat (map encode reqs)) s2" "bare s2 = bare s1" "s_in s2 = s_in s1"
    by auto
  show ?case
  proof (cases "ctx_quit (s_ctx s1)")
    case True
    then show ?thesis using Cons.prems(4) bare_side[OF side]
      by (auto simp: handle_batch.simps[of outs aof repl i req] h bare_handle)
  next
    case False
    then have "handle_batch outs aof repl (i + 1) r s2 w1 = (j, t, w')"
      using Cons.prems(4) by (simp add: handle_batch.simps[of outs aof repl i req] h s2(1))
    from Cons.IH[OF s2(2) _ _ this] Cons.prems(3) False bare_side[OF side] bare_closed[OF s2(3)] s2(3,4) show ?thesis
      by (simp add: h bare_handle)
  qed
qed

text \<open>A chunk of at most half the buffer always fits behind what has been read.\<close>

lemma compact_room:
  assumes "holds n [] s"
  shows "m_dataLen (compactIfNeeded s) = 0 \<or> m_dataLen (compactIfNeeded s) < n div 2"
proof -
  have "m_readPos s = m_dataLen s" "length (m_buffer s) = n"
    using holds_available[OF assms] assms by (simp_all add: holds_def)
  then show ?thesis by (simp add: compactIfNeeded_def)
qed

lemma fill_holds:
  assumes "holds n [] s" "m_dataLen s + length bytes \<le> n"
  shows "holds n bytes (fill_buffer bytes (s\<lparr>s_in := later\<rparr>))" "bare (fill_buffer bytes (s\<lparr>s_in := later\<rparr>)) = bare s"
    "s_in (fill_buffer bytes (s\<lparr>s_in := later\<rparr>)) = later"
proof -
  have d: "m_readPos s = m_dataLen s" "length (m_buffer s) = n" "m_buffer s \<noteq> []"
    using holds_available[OF assms(1)] assms(1) by (simp_all add: holds_def sane_def)
  then show "holds n bytes (fill_buffer bytes (s\<lparr>s_in := later\<rparr>))"
    using assms(2) by (auto simp: holds_def sane_def unread_def fill_buffer_def)
qed (simp_all add: fill_buffer_def bare_def)

lemma recv_chunk:
  assumes "holds n [] s" "\<not> s_closed s" "s_in s = (encode v @ rest) # later" "is_request v" "length (encode v @ rest) \<le> n div 2"
  shows "\<exists>t. recvCommand defaultValue s = Some (t, Some v) \<and> holds n rest t \<and> bare t = bare s \<and> s_in t = later"
proof -
  let ?s = "compactIfNeeded s" and ?bytes = "encode v @ rest"
  let ?t = "fill_buffer ?bytes (?s\<lparr>s_in := later\<rparr>)"
  have h: "holds n [] ?s" by (rule holds_compact[OF assms(1)])
  have ne: "?bytes \<noteq> []" using encode_request_nonempty[OF assms(4)] by simp
  then have "0 < length ?bytes" by blast
  then have room: "m_dataLen ?s < n" "length ?bytes \<le> n - m_dataLen ?s" "m_dataLen ?s + length ?bytes \<le> n"
    using compact_room[OF assms(1)] assms(5) by linarith+
  have len: "length (m_buffer ?s) = n" "m_readPos ?s = m_dataLen ?s" using h holds_available[OF h] by (simp_all add: holds_def)
  have "socket_read (n - m_dataLen ?s) ?s = (?s\<lparr>s_in := later\<rparr>, Some ?bytes)"
    using assms(2,3) ne room(2) by (simp add: socket_read_def)
  then have r1: "recv_round defaultValue s = Inr (defaultValue, ?t)"
    using len room(1) by (simp add: recv_round_def Let_def)
  have t: "holds n ?bytes (compactIfNeeded ?t)" by (intro holds_compact fill_holds[OF h room(3)])
  have "parse_next defaultValue (compactIfNeeded ?t) = (ParseOk, length (encode v), v)"
    using parse_next_request[OF assms(4), of "compactIfNeeded ?t" rest] t by (simp add: holds_def defaultValue_def)
  moreover have "m_readPos (compactIfNeeded ?t) < m_dataLen (compactIfNeeded ?t)"
    using holds_available[OF t] encode_request_nonempty[OF assms(4)] by simp
  ultimately have r2: "recv_round defaultValue ?t =
      Inl ((compactIfNeeded ?t)\<lparr>m_readPos := m_readPos (compactIfNeeded ?t) + length (encode v)\<rparr>, Some v)"
    by (simp add: recv_round_def Let_def)
  have "recvCommand defaultValue s = recvCommand defaultValue ?t" by (subst recvCommand.simps) (simp add: r1)
  then show ?thesis using holds_advance[OF t] fill_holds(2,3)[OF h room(3), of later]
    by (subst (asm) recvCommand.simps[of _ ?t]) (simp add: r2)
qed

lemma recv_end:
  assumes "holds n [] s" "s_in s = []" "n > 1"
  shows "\<exists>t. recvCommand defaultValue s = Some (t, None) \<and> bare t = bare (close_session s)"
proof -
  have h: "holds n [] (compactIfNeeded s)" by (rule holds_compact[OF assms(1)])
  have "m_readPos (compactIfNeeded s) = m_dataLen (compactIfNeeded s)" "m_dataLen (compactIfNeeded s) < length (m_buffer (compactIfNeeded s))"
    using compact_room[OF assms(1)] assms(3) h holds_available[OF h] by (auto simp: holds_def)
  then have "recv_round defaultValue s = Inl (close_session (compactIfNeeded s), None)"
    using assms(2) by (simp add: recv_round_def socket_read_def Let_def)
  then show ?thesis by (subst recvCommand.simps) (simp add: bare_def close_session_def compactIfNeeded_def Let_def)
qed

definition whole_batch :: "nat \<Rightarrow> RespValue list \<Rightarrow> bool" where
  "whole_batch n reqs \<longleftrightarrow> reqs \<noteq> [] \<and> list_all is_request reqs \<and> length (concat (map encode reqs)) \<le> n div 2"

lemma serve_requests:
  "list_all (whole_batch n) bs \<Longrightarrow> holds n [] s \<Longrightarrow> \<not> s_closed s \<Longrightarrow> s_in s = map (\<lambda>b. concat (map encode b)) bs \<Longrightarrow> n > 1 \<Longrightarrow>
   serve_batches outs idle aof repl i bs (bare s) w = (u, w') \<Longrightarrow>
   \<exists>t. serve_loop outs idle aof repl i s w = Some (t, w') \<and> s_out t = s_out u \<and> s_ctx t = s_ctx u"
proof (induction bs arbitrary: i s w)
  case Nil
  let ?s = "deliver (length (wd_output w)) (idle i w) s"
  have side: "input_side ?s = input_side s" by simp
  have "holds n [] ?s" "s_in ?s = []" using Nil.prems holds_side[OF side] bare_side[OF side] by simp_all
  from recv_end[OF this Nil.prems(5)] obtain t where t: "recvCommand defaultValue ?s = Some (t, None)" "bare t = bare (close_session ?s)"
    by blast
  have "s_out t = s_out ?s" "s_ctx t = s_ctx ?s" using arg_cong[OF t(2), of s_out] arg_cong[OF t(2), of s_ctx]
    by (simp_all add: bare_def close_session_def)
  moreover have "u = bare ?s" "w' = idle i w" using Nil.prems(6) by (auto simp: bare_deliver)
  ultimately show ?case by (subst serve_loop.simps) (simp add: Let_def t(1) bare_def)
next
  case (Cons b bs)
  let ?s = "deliver (length (wd_output w)) (idle i w) s"
  have side: "input_side ?s = input_side s" by simp
  obtain r rs where b: "b = r # rs" "is_request r" "list_all is_request rs"
    using Cons.prems(1) by (cases b) (auto simp: whole_batch_def)
  have pre: "holds n [] ?s" "\<not> s_closed ?s" "s_in ?s = (encode r @ concat (map encode rs)) # map (\<lambda>b. concat (map encode b)) bs"
    using Cons.prems holds_side[OF side] bare_side[OF side] side by (simp_all add: b input_side_def)
  have "length (encode r @ concat (map encode rs)) \<le> n div 2" using Cons.prems(1) by (simp add: whole_batch_def b)
  from recv_chunk[OF pre b(2) this] obtain s1 where s1: "recvCommand defaultValue ?s = Some (s1, Some r)"
    "holds n (concat (map encode rs)) s1" "bare s1 = bare ?s" "s_in s1 = map (\<lambda>b. concat (map encode b)) bs" by blast
  obtain j s2 w2 where s2: "handle_batch outs aof repl i r s1 (idle i w) = (j, s2, w2)" by (metis prod_cases3)
  note hb = batch_requests[OF s1(2) b(2,3) s2, unfolded s1(3)]
  obtain s3 m where s3: "flushResponses s2 = (s3, m)" by (metis prod.exhaust)
  have side3: "input_side s3 = input_side s2" using s3 by (metis fst_conv input_side_flush)
  have closed: "s_closed s3 = s_closed s2" using side3 by (simp add: input_side_def)
  have open2: "\<not> s_closed s2" using hb bare_closed[OF s1(3)] pre(2) by simp
  have ref: "serve_batches outs idle aof repl i (b # bs) (bare s) w =
      (if m \<le> 0 then (bare s3, w2)
       else if replica_connection (s_ctx s3) then (bare (deliver (length (wd_output w2)) (idle j w2) s3), idle j w2)
       else if ctx_quit (s_ctx s3) then (bare s3, w2)
       else serve_batches outs idle aof repl j bs (bare s3) w2)"
    using hb by (simp add: b(1) bare_deliver bare_flush s3 del: handle_all.simps)
  have code: "serve_loop outs idle aof repl i s w =
      (if m \<le> 0 then Some (s3, w2)
       else if replica_connection (s_ctx s3) then Some (deliver (length (wd_output w2)) (idle j w2) s3, idle j w2)
       else if ctx_quit (s_ctx s3) then Some (s3, w2)
       else serve_loop outs idle aof repl j s3 w2)"
    by (subst serve_loop.simps) (simp add: Let_def s1(1) s2 s3)
  have ctx3: "s_ctx s3 = s_ctx s2" using s3 by (auto simp: flushResponses_def split: if_splits)
  show ?case
  proof (cases "m \<le> 0 \<or> replica_connection (s_ctx s3) \<or> ctx_quit (s_ctx s3)")
    case True
    then show ?thesis using Cons.prems(6) unfolding ref code by (auto simp: bare_def split: if_splits)
  next
    case False
    have "holds n [] s3" using hb False ctx3 holds_side[OF side3] by simp
    moreover have "s_in s3 = map (\<lambda>b. concat (map encode b)) bs" using hb s1(4) bare_side[OF side3] by simp
    ultimately show ?thesis using Cons.IH[of s3 j w2] Cons.prems(1,5,6) False closed open2 unfolding ref code by simp
  qed
qed

lemma connect_serves:
  assumes "list_all (whole_batch kDefaultBufferSize) bs"
    and "serve_batches outs idle aof repl 0 bs (bare (connect me cid addr [] writes w)) w = (u, w')"
  shows "\<exists>t. serve_loop outs idle aof repl 0 (connect me cid addr (map (\<lambda>b. concat (map encode b)) bs) writes w) w = Some (t, w') \<and>
    s_out t = s_out u \<and> s_ctx t = s_ctx u"
proof -
  let ?s = "connect me cid addr (map (\<lambda>b. concat (map encode b)) bs) writes w"
  have bare: "bare ?s = bare (connect me cid addr [] writes w)" by (simp add: connect_def new_session_def bare_def)
  have "holds kDefaultBufferSize [] ?s" "\<not> s_closed ?s" "s_in ?s = map (\<lambda>b. concat (map encode b)) bs" "kDefaultBufferSize > 1"
    by (simp_all add: connect_def new_session_def holds_def sane_def unread_def kDefaultBufferSize_def)
  from serve_requests[OF assms(1) this assms(2)[folded bare]] show ?thesis .
qed

text \<open>
  A client that sends its requests in batches, each in one piece
  of at most 8192 bytes (half the receive buffer), however many batches there are: \<open>handleClient\<close> hands exactly
  these requests to the dispatcher, in their order, and its effects and the bytes it writes back are those of the
  server on requests, \<open>serve_batches\<close>: the replies to the requests, encoded one after the other and written once
  per batch, up to the request that ends the connection.
\<close>

theorem handleClient_batches:
  assumes "list_all (whole_batch kDefaultBufferSize) bs"
    and "serve_batches outs idle (aof_active w) (repl_active w) 0 bs (bare (connect me cid addr [] writes w)) w = (u, w')"
  shows "\<exists>s. handleClient outs idle alive me cid addr (map (\<lambda>b. concat (map encode b)) bs) writes w =
      Some (s, disconnect alive me w') \<and> s_out s = s_out u \<and> s_ctx s = s_ctx u"
  using connect_serves[OF assms] by (auto simp: handleClient_def close_session_def)

text \<open>A connection that sets a key and reads it back.\<close>

lemma handle_plain:
  assumes "dispatch out (s_ctx s) req w = (ctx, w1, rsp)" "wd_output w1 = wd_output w"
  shows "handle_request out aof False req s w =
     (if rtype rsp \<noteq> Null then append_reply rsp (s\<lparr>s_ctx := ctx\<rparr>) else s\<lparr>s_ctx := ctx\<rparr>,
      if aof \<and> rtype rsp \<noteq> Error \<and> isMutatingCommand (cmdNameFromRequest req) then log_command req w1 else w1)"
  using assms by (simp add: handle_request_def deliver_def Let_def log_command_def)

lemma dispatch_store:
  assumes "(n, c) \<in> set store_table" "gate ctx n w = None" "\<not> multi_mode ctx" "c (env out []) (ctx_db ctx) (map bulk (n # as)) (wd_store w) = (st, rsp)"
  shows "\<exists>l. dispatch out ctx (bulks (n # as)) w = (ctx, w\<lparr>wd_store := st, wd_slowlog := l\<rparr>, rsp)"
  using dispatch_runs[OF find_store[OF assms(1)] assms(2), of out as] assms(3,4)
  by (auto simp: on_store_def Let_def intro!: exI)

lemma handle_store:
  assumes "(n, c) \<in> set store_table" "gate (s_ctx s) n w = None" "\<not> multi_mode (s_ctx s)"
    "c (env out []) (ctx_db (s_ctx s)) (map bulk (n # as)) (wd_store w) = (st, rsp)" "rtype rsp \<noteq> Null"
  shows "\<exists>l. handle_request out False False (bulks (n # as)) s w = (append_reply rsp s, w\<lparr>wd_store := st, wd_slowlog := l\<rparr>)"
proof -
  obtain l where "dispatch out (s_ctx s) (bulks (n # as)) w = (s_ctx s, w\<lparr>wd_store := st, wd_slowlog := l\<rparr>, rsp)"
    using dispatch_store[OF assms(1-4)] by blast
  from handle_plain[OF this, of False] show ?thesis using assms(5) by auto
qed

lemma append_reply_ctx [simp]: "s_ctx (append_reply v s) = s_ctx s"
  by (simp add: append_reply_def)

definition demo_requests :: "RespValue list" where
  "demo_requests = [bulks [''SET'', ''k'', ''v''], bulks [''GET'', ''k'']]"

lemma demo_store_steps:
  "snd (cmd_set (env quiet_out []) 0 (map bulk [''SET'', ''k'', ''v'']) new_store) = resp_ok"
  "snd (cmd_get (env quiet_out []) 0 (map bulk [''GET'', ''k'']) (fst (cmd_set (env quiet_out []) 0 (map bulk [''SET'', ''k'', ''v'']) new_store))) = bulk ''v''"
  by code_simp+

lemma demo_replies:
  "appendResponse (appendResponse [] resp_ok) (bulk ''v'') = ''+OK'' @ crlf @ ''$1'' @ crlf @ ''v'' @ crlf"
  "appendResponse (appendResponse [] resp_ok) (bulk ''v'') \<noteq> []" "length (concat (map encode demo_requests)) \<le> 60"
  by code_simp+

lemma demo_whole: "whole_batch kDefaultBufferSize demo_requests"
  using demo_replies(3)
  by (simp add: whole_batch_def kDefaultBufferSize_def demo_requests_def is_request_def bulks_def array_of_def bulk_def INT64_MAX_def)

lemma connect_ctx:
  "s_ctx (connect me cid addr input writes w) = new_context\<lparr>ctx_pubsub := True, ctx_session := Some me, client_id := cid,
     client_addr := addr, authenticated := \<not> isAuthRequired w\<rparr>"
  by (simp add: connect_def)

lemma demo_serve:
  "\<exists>u w'. serve_batches (\<lambda>_. quiet_out) (\<lambda>_ w. w) False False 0 [demo_requests] (bare (connect 1 1 [] [] None demo_world)) demo_world = (u, w') \<and>
     s_out u = ''+OK'' @ crlf @ ''$1'' @ crlf @ ''v'' @ crlf"
proof -
  let ?s = "bare (connect 1 1 [] [] None demo_world)"
  have ctx: "ctx_db (s_ctx ?s) = 0" "\<not> multi_mode (s_ctx ?s)" "\<not> ctx_quit (s_ctx ?s)" "\<not> replica_connection (s_ctx ?s)"
    by (simp_all add: connect_ctx new_context_def)
  have gate: "gate (s_ctx ?s) n w = None" if "wd_repl w = None" for n and w :: World
    using that by (simp add: gate_def isSlave_def connect_ctx new_context_def isAuthRequired_def demo_world_def Let_def)
  have world: "wd_store demo_world = new_store" "wd_repl demo_world = None" by (simp_all add: demo_world_def)
  obtain st where st: "cmd_set (env quiet_out []) 0 (map bulk [''SET'', ''k'', ''v'']) new_store = (st, resp_ok)"
    by (metis demo_store_steps(1) prod.collapse)
  obtain st' where st': "cmd_get (env quiet_out []) 0 (map bulk [''GET'', ''k'']) st = (st', bulk ''v'')"
    by (metis demo_store_steps(2) prod.collapse fst_conv st)
  obtain w1 where h1: "handle_request quiet_out False False (bulks [''SET'', ''k'', ''v'']) ?s demo_world = (append_reply resp_ok ?s, w1)"
      "wd_store w1 = st" "wd_repl w1 = None"
    using handle_store[of "''SET''" cmd_set ?s demo_world quiet_out "[''k'', ''v'']" st resp_ok] gate st world ctx
    by (auto simp: store_table_def resp_ok_def)
  obtain w2 where h2: "handle_request quiet_out False False (bulks [''GET'', ''k'']) (append_reply resp_ok ?s) w1 =
      (append_reply (bulk ''v'') (append_reply resp_ok ?s), w2)"
    using handle_store[of "''GET''" cmd_get "append_reply resp_ok ?s" w1 quiet_out "[''k'']" st' "bulk ''v''"] gate st' h1(2,3) ctx
    by (auto simp: store_table_def)
  have out: "m_writeBuf ?s = []" "s_out ?s = []" "s_writes ?s = None" "\<not> s_closed ?s"
    by (simp_all add: connect_def new_session_def bare_def)
  have "handle_all (\<lambda>_. quiet_out) False False 0 demo_requests ?s demo_world = (2, append_reply (bulk ''v'') (append_reply resp_ok ?s), w2)"
    using h1(1) h2 ctx by (simp add: demo_requests_def)
  then show ?thesis using ctx out by (simp add: deliver_def flushResponses_def append_reply_def demo_replies)
qed

theorem handleClient_batches_witness:
  "list_all (whole_batch kDefaultBufferSize) [demo_requests] \<and>
   (\<exists>s w'. handleClient (\<lambda>_. quiet_out) (\<lambda>_ w. w) (\<lambda>_. True) 1 1 [] (map (\<lambda>b. concat (map encode b)) [demo_requests]) None demo_world =
      Some (s, w') \<and> s_out s = ''+OK'' @ crlf @ ''$1'' @ crlf @ ''v'' @ crlf)"
proof -
  have b: "list_all (whole_batch kDefaultBufferSize) [demo_requests]" using demo_whole by simp
  have a: "aof_active demo_world = False" "repl_active demo_world = False"
    by (simp_all add: aof_active_def repl_active_def demo_world_def)
  obtain u w' where u: "serve_batches (\<lambda>_. quiet_out) (\<lambda>_ w. w) False False 0 [demo_requests] (bare (connect 1 1 [] [] None demo_world)) demo_world = (u, w')"
    "s_out u = ''+OK'' @ crlf @ ''$1'' @ crlf @ ''v'' @ crlf" using demo_serve by blast
  have "serve_batches (\<lambda>_. quiet_out) (\<lambda>_ w. w) (aof_active demo_world) (repl_active demo_world) 0 [demo_requests]
      (bare (connect 1 1 [] [] None demo_world)) demo_world = (u, w')" using u(1) by (simp only: a)
  from handleClient_batches[OF b this, of "\<lambda>_. True"] show ?thesis using b u(2) by auto
qed

end
