(* ===== verification/Traffic.thy ===== *)
theory Traffic
  imports Serve
begin

text \<open>
  What the loop of a client does with transactions, with synchronising replicas and with scripts: when commands reach
  the log, and when a connection is dropped.
\<close>

subsection \<open>Gates and names\<close>

lemma mutating_not_special:
  "isMutatingCommand n \<Longrightarrow> \<not> isPubsubAllowedCommand n \<and> \<not> isCommandAuthExempt n \<and>
     n \<noteq> ''EXEC'' \<and> n \<noteq> ''DISCARD'' \<and> n \<noteq> ''MULTI'' \<and> n \<noteq> ''WATCH'' \<and> n \<noteq> ''BLPOP'' \<and> n \<noteq> ''BRPOP''"
  by (auto simp: isMutatingCommand_def kMutating_def isPubsubAllowedCommand_def isCommandAuthExempt_def)

text \<open>Where a write may be queued, the transaction may be ended.\<close>

lemma gate_ends:
  assumes "gate ctx n w = None" "isMutatingCommand (upperArg n)"
  shows "gate (ctx\<lparr>multi_queue := q\<rparr>) ''EXEC'' w = None" "gate (ctx\<lparr>multi_queue := q\<rparr>) ''DISCARD'' w = None"
proof -
  have x: "\<not> isPubsubAllowedCommand (upperArg n)" "\<not> isCommandAuthExempt (upperArg n)" using mutating_not_special[OF assms(2)] by auto
  have "isPubsubAllowedCommand n \<Longrightarrow> isPubsubAllowedCommand (upperArg n)" "isCommandAuthExempt n \<Longrightarrow> isCommandAuthExempt (upperArg n)"
    by (auto simp: isPubsubAllowedCommand_def isCommandAuthExempt_def upperArg_def to_upper_letters)
  then show "gate (ctx\<lparr>multi_queue := q\<rparr>) ''EXEC'' w = None" "gate (ctx\<lparr>multi_queue := q\<rparr>) ''DISCARD'' w = None"
    using assms(1) x by (auto simp: gate_def Let_def upper_names isMutatingCommand_def kMutating_def split: if_splits)
qed

lemma cmdName_bulks [simp]: "cmdNameFromRequest (bulks (n # as)) = upperArg n"
  by (simp add: cmdNameFromRequest_def Let_def)

lemma gate_same: "wd_pass w1 = wd_pass w \<Longrightarrow> isSlave w1 = isSlave w \<Longrightarrow> gate ctx n w1 = gate ctx n w"
  by (simp add: gate_def isAuthRequired_def Let_def)

lemma dispatch_queues:
  assumes "multi_mode ctx" "gate ctx n w = None" "isMutatingCommand (upperArg n)"
  shows "dispatch out ctx (bulks (n # as)) w = (ctx\<lparr>multi_queue := multi_queue ctx @ [bulks (n # as)]\<rparr>, w, queued)"
  using assms mutating_not_special[OF assms(3)] by (simp add: dispatch_def dispatch_with_def Let_def)

subsection \<open>Transactions and the log\<close>

lemma flush_ctx [simp]: "s_ctx (fst (flushResponses s)) = s_ctx s"
  by (simp add: flushResponses_def)

lemma give_ctx [simp]: "s_ctx (give_output x s) = s_ctx s"
  by (cases x) (simp_all add: pushPubSubMessage_def pushReplicationPayload_def)

lemma fold_ctx: "s_ctx (fold (\<lambda>(who, x). if P who then give_output x else id) xs s) = s_ctx s"
  by (induction xs arbitrary: s) (simp_all add: case_prod_unfold)

lemma deliver_ctx [simp]: "s_ctx (deliver n w s) = s_ctx s"
  unfolding deliver_def by (rule fold_ctx)

lemma propagate_keeps [simp]:
  "wd_store (propagate out r w) = wd_store w" "wd_aof (propagate out r w) = wd_aof w" "wd_pass (propagate out r w) = wd_pass w"
  "isSlave (propagate out r w) = isSlave w"
  by (auto simp: propagate_def isSlave_def propagateCommand_def appendBacklog_def Let_def case_prod_unfold split: option.split)

lemma log_keeps [simp]:
  "wd_store (log_command r w) = wd_store w" "wd_aof (log_command r w) = map_option (aof_append r) (wd_aof w)"
  "wd_pass (log_command r w) = wd_pass w" "isSlave (log_command r w) = isSlave w"
  by (simp_all add: log_command_def isSlave_def)

text \<open>What a command does beside its output, whoever receives that.\<close>

lemma handle_effects:
  assumes "dispatch out (s_ctx s) req w = (ctx, w1, rsp)"
  obtains s' w2 where "handle_request out aof repl req s w = (s', w2)" "s_ctx s' = ctx" "wd_store w2 = wd_store w1"
    "wd_pass w2 = wd_pass w1" "isSlave w2 = isSlave w1"
    "wd_aof w2 = (if aof \<and> rtype rsp \<noteq> Error \<and> isMutatingCommand (cmdNameFromRequest req)
                  then map_option (aof_append req) (wd_aof w1) else wd_aof w1)"
  using assms by (auto simp: handle_request_def Let_def)

lemma handle_queued:
  assumes "multi_mode (s_ctx s)" "gate (s_ctx s) n w = None" "isMutatingCommand (upperArg n)"
  obtains s1 w1 where "handle_request out True repl (bulks (n # as)) s w = (s1, w1)"
    "s_ctx s1 = (s_ctx s)\<lparr>multi_queue := multi_queue (s_ctx s) @ [bulks (n # as)]\<rparr>" "wd_store w1 = wd_store w"
    "wd_aof w1 = map_option (aof_append (bulks (n # as))) (wd_aof w)" "\<And>ctx m. gate ctx m w1 = gate ctx m w"
  by (rule handle_effects[OF dispatch_queues[OF assms, of out as], of True repl])
    (use assms(3) in \<open>auto simp: queued_def intro: that gate_same\<close>)

text \<open>
  a write inside of a transaction reaches the log when it is queued. With the log switched on, a client that queues
  a write and then discards the transaction leaves the store as it was, but the write stands in the log, from which
  the next start replays it.
\<close>

theorem discarded_command_is_logged:
  assumes "multi_mode (s_ctx s)" "\<not> ctx_quit (s_ctx s)" "gate (s_ctx s) n w = None" "isMutatingCommand (upperArg n)"
    and "wd_aof w = Some a" "m_enabled a"
    and "handle_all outs True repl i [bulks (n # as), bulks [''DISCARD'']] s w = (j, t, w')"
  shows "wd_store w' = wd_store w \<and> \<not> multi_mode (s_ctx t) \<and> multi_queue (s_ctx t) = [] \<and>
    (\<exists>a'. wd_aof w' = Some a' \<and> aof_data a' = aof_data a @ encode (bulks (n # as)))"
proof -
  obtain s1 w1 where h1: "handle_request (outs i) True repl (bulks (n # as)) s w = (s1, w1)"
      "s_ctx s1 = (s_ctx s)\<lparr>multi_queue := multi_queue (s_ctx s) @ [bulks (n # as)]\<rparr>" "wd_store w1 = wd_store w"
      "wd_aof w1 = map_option (aof_append (bulks (n # as))) (wd_aof w)" "\<And>ctx m. gate ctx m w1 = gate ctx m w"
    using handle_queued[OF assms(1,3,4), of "outs i" repl as] by blast
  have g: "gate (s_ctx s1) ''DISCARD'' w1 = None" using gate_ends[OF assms(3,4)] by (simp add: h1)
  have "(''DISCARD'', cmd_discard) \<in> set session_table" by (simp add: session_table_def)
  from dispatch_runs[OF find_session[OF this] g, of "outs (Suc i)" "[]"] obtain l
    where "dispatch (outs (Suc i)) (s_ctx s1) (bulks [''DISCARD'']) w1 = (leave_multi (s_ctx s1), w1\<lparr>wd_slowlog := l\<rparr>, resp_ok)"
    using assms(1) by (simp add: cmd_discard_def upper_names h1)
  from handle_effects[OF this, of True repl] obtain s2 w2
    where h2: "handle_request (outs (Suc i)) True repl (bulks [''DISCARD'']) s1 w1 = (s2, w2)" "s_ctx s2 = leave_multi (s_ctx s1)"
      "wd_store w2 = wd_store w1" "wd_aof w2 = wd_aof w1"
    by (simp add: upper_names isMutatingCommand_def kMutating_def) blast
  have "t = s2" "w' = w2" using assms(2,7) h1(1,2) h2(1) by (simp_all split: if_splits)
  then show ?thesis using assms(5,6) h1(2-4) h2(2-4) by (simp add: leave_multi_def clearWatch_def aof_append_def)
qed

text \<open>
  and it reaches the log a second time when it is run. A client that queues a write on the store and executes the
  transaction runs it once, and the log holds it twice: replaying the log after an \<open>INCR\<close> or an \<open>RPUSH\<close> does not
  give the store that was served.
\<close>

theorem executed_command_is_logged_twice:
  assumes "multi_mode (s_ctx s)" "multi_queue (s_ctx s) = []" "ctx_watched (s_ctx s) = []" "\<not> ctx_quit (s_ctx s)"
    and "(n, c) \<in> set store_table" "gate (s_ctx s) n w = None" "isMutatingCommand (upperArg n)"
    and "wd_aof w = Some a" "m_enabled a"
    and "c (env (outs (Suc i)) [0]) (ctx_db (s_ctx s)) (map bulk (n # as)) (wd_store w) = (st, rsp)" "rtype rsp \<noteq> Error"
    and "handle_all outs True repl i [bulks (n # as), bulks [''EXEC'']] s w = (j, t, w')"
  shows "wd_store w' = st \<and>
    (\<exists>a'. wd_aof w' = Some a' \<and> aof_data a' = aof_data a @ encode (bulks (n # as)) @ encode (bulks (n # as)))"
proof -
  let ?r = "bulks (n # as)" and ?out = "outs (Suc i)"
  obtain s1 w1 where h1: "handle_request (outs i) True repl ?r s w = (s1, w1)"
      "s_ctx s1 = (s_ctx s)\<lparr>multi_queue := [?r]\<rparr>" "wd_store w1 = wd_store w"
      "wd_aof w1 = map_option (aof_append ?r) (wd_aof w)" "\<And>ctx m. gate ctx m w1 = gate ctx m w"
    using handle_queued[OF assms(1,6,7), of "outs i" repl as] assms(2) by auto
  let ?w2 = "propagate ?out ?r (log_command ?r (w1\<lparr>wd_store := st\<rparr>))"
  have g: "gate (s_ctx s1) ''EXEC'' w1 = None" using gate_ends[OF assms(6,7)] by (simp add: h1)
  have "dispatchExecOne unreachable script_dispatch ?out [0] (leave_multi (s_ctx s1)) ?r (w1\<lparr>wd_store := wd_store w\<rparr>) =
      (leave_multi (s_ctx s1), w1\<lparr>wd_store := st\<rparr>, rsp)"
    using find_store[OF assms(5)] assms(10)
    by (simp add: dispatchExecOne_def Let_def on_store_def leave_multi_def clearWatch_def h1(2))
  then have "exec ?out [] (s_ctx s1) [bulk ''EXEC''] w1 = (leave_multi (s_ctx s1), ?w2, array_of [rsp])"
    using assms(1,3,7,11) by (simp add: exec_def cmd_exec_def h1(2,3))
  then obtain l where "dispatch ?out (s_ctx s1) (bulks [''EXEC'']) w1 = (leave_multi (s_ctx s1), ?w2\<lparr>wd_slowlog := l\<rparr>, array_of [rsp])"
    using dispatch_runs[OF find_exec g, of ?out "[]"] by (simp add: upper_names)
  from handle_effects[OF this, of True repl] obtain s2 w3
    where h2: "handle_request ?out True repl (bulks [''EXEC'']) s1 w1 = (s2, w3)" "wd_store w3 = st" "wd_aof w3 = wd_aof ?w2"
    by (simp add: upper_names isMutatingCommand_def kMutating_def) blast
  have "w' = w3" using assms(4,12) h1(1,2) h2(1) by (simp split: if_splits)
  then show ?thesis using assms(8,9) h1(4) h2(2,3) by (simp add: aof_append_def)
qed

definition demo_logged :: World where
  "demo_logged = demo_world\<lparr>wd_aof := Some \<lparr>m_enabled = True, m_fsync = No, aof_data = []\<rparr>\<rparr>"

definition demo_multi :: KvSession where
  "demo_multi = (connect 1 1 [] [] None demo_logged)\<lparr>s_ctx := new_context\<lparr>multi_mode := True\<rparr>\<rparr>"

theorem executed_command_is_logged_twice_witness:
  "\<exists>j t w' a'. handle_all (\<lambda>_. quiet_out) True False 0 [bulks [''INCR'', ''k''], bulks [''EXEC'']] demo_multi demo_logged = (j, t, w') \<and>
     wd_store w' = fst (cmd_incr (env quiet_out [0]) 0 (map bulk [''INCR'', ''k'']) new_store) \<and>
     wd_aof w' = Some a' \<and> aof_data a' = encode (bulks [''INCR'', ''k'']) @ encode (bulks [''INCR'', ''k''])"
proof -
  have "snd (cmd_incr (env quiet_out [0]) 0 (map bulk [''INCR'', ''k'']) new_store) = resp_integer 1" by code_simp
  then obtain st where st: "cmd_incr (env quiet_out [0]) 0 (map bulk [''INCR'', ''k'']) new_store = (st, resp_integer 1)"
    by (metis prod.collapse)
  obtain j t w' where h: "handle_all (\<lambda>_. quiet_out) True False 0 [bulks [''INCR'', ''k''], bulks [''EXEC'']] demo_multi demo_logged = (j, t, w')"
    by (metis prod_cases3)
  have up: "upperArg ''INCR'' = ''INCR''" by (simp add: upperArg_def to_upper_letters)
  show ?thesis
    using executed_command_is_logged_twice[of demo_multi "''INCR''" cmd_incr demo_logged "\<lparr>m_enabled = True, m_fsync = No, aof_data = []\<rparr>"
        "\<lambda>_. quiet_out" 0 "[''k'']" st "resp_integer 1" False j t w'] st h
    by (simp add: demo_multi_def demo_logged_def demo_world_def new_context_def store_table_def up resp_integer_def gate_def isSlave_def
        isAuthRequired_def isMutatingCommand_def kMutating_def Let_def)
qed

subsection \<open>Connections that are dropped\<close>

lemma deliver_none: "deliver (length (wd_output w)) w s = s"
  by (simp add: deliver_def)

text \<open>A batch that leaves nothing to write ends the connection.\<close>

lemma silent_batch_ends:
  assumes "handle_request (outs i) aof repl req (deliver (length (wd_output w)) (idle i w) s) (idle i w) = (s1, w1)" "m_writeBuf s1 = []"
  shows "serve_batches outs idle aof repl i ([req] # bs) s w = (s1, w1)"
  using assms by (simp add: flushResponses_def)

text \<open>
  a replica that resumes is dropped at once. When \<open>PSYNC\<close> can continue from the backlog, the missing bytes are
  pushed to the session, which also flushes it; nothing is left to write when the loop flushes the replies, and the
  loop takes that for a broken connection. The replica receives the line and the bytes, none of its later input is
  read, and it is no longer registered when \<open>handleClient\<close> returns.
\<close>

theorem partial_resync_disconnects:
  assumes "wd_repl w = Some r" "m_role r = Master" "\<not> isAuthRequired w"
    and "parseInt64Arg (bulk off) = Some k" "tryCollectPartial rid k r = Some missing" "missing \<noteq> []"
    and "list_all (whole_batch kDefaultBufferSize) ([bulks [''PSYNC'', rid, off]] # bs)"
  shows "\<exists>s w'. handleClient outs (\<lambda>_ w. w) alive me cid addr
      (map (\<lambda>b. concat (map encode b)) ([bulks [''PSYNC'', rid, off]] # bs)) None w = Some (s, w') \<and>
    s_out s = ''+CONTINUE'' @ crlf @ missing \<and> wd_repl w' = Some (removeReplica alive me (registerReplica me r))"
proof -
  let ?s = "bare (connect me cid addr [] None w)" and ?req = "bulks [''PSYNC'', rid, off]"
  let ?line = "RespValue SimpleString ''CONTINUE'' 0 [] False"
  have ctx: "s_ctx ?s = new_context\<lparr>ctx_pubsub := True, ctx_session := Some me, client_id := cid, client_addr := addr, authenticated := True\<rparr>"
    using assms(3) by (simp add: connect_ctx)
  have g: "gate (s_ctx ?s) ''PSYNC'' w = None" unfolding ctx
    using assms(1,2) by (simp add: gate_def isSlave_def new_context_def Let_def)
  have "handlePsync rid k (Some snap) r = (Partial, ?line, missing)" for snap
    using assms(2,5) by (simp add: handlePsync_def)
  moreover have "(''PSYNC'', cmd_psync) \<in> set session_table" by (simp add: session_table_def)
  ultimately obtain l
    where d: "dispatch (outs 0) (s_ctx ?s) ?req w =
      ((s_ctx ?s)\<lparr>replica_connection := True\<rparr>, w\<lparr>wd_output := wd_output w @ [(me, AppendResponse ?line), (me, PushReplicationPayload missing)],
         wd_repl := Some (registerReplica me r), wd_slowlog := l\<rparr>, resp_none)" (is "_ = (?ctx, ?w, _)")
    using dispatch_runs[OF find_session g, of cmd_psync "outs 0" "[rid, off]"] assms(1,4,6) ctx
    by (auto simp: cmd_psync_def arg_def new_context_def)
  let ?s1 = "pushReplicationPayload missing (append_reply ?line (?s\<lparr>s_ctx := ?ctx\<rparr>))"
  have h: "handle_request (outs 0) aof repl ?req ?s w = (?s1, ?w)" for aof repl
    unfolding handle_request_def d using ctx
    by (simp add: deliver_def resp_none_def isMutatingCommand_def kMutating_def upperArg_def to_upper_letters Let_def)
  have "appendResponse [] ?line = ''+CONTINUE'' @ crlf" by (simp add: appendResponse_def)
  moreover have "m_writeBuf ?s = []" "s_out ?s = []" "s_writes ?s = None" "\<not> s_closed ?s"
    by (simp_all add: connect_def new_session_def bare_def)
  ultimately have s1: "m_writeBuf ?s1 = []" "s_out ?s1 = ''+CONTINUE'' @ crlf @ missing"
    using assms(6) by (simp_all add: pushReplicationPayload_def append_reply_def flushResponses_def)
  have "serve_batches outs (\<lambda>_ w. w) (aof_active w) (repl_active w) 0 ([?req] # bs) ?s w = (?s1, ?w)"
    by (rule silent_batch_ends[OF _ s1(1)]) (simp only: deliver_none h)
  from connect_serves[OF assms(7) this] show ?thesis
    using s1(2) by (auto simp: handleClient_def close_session_def disconnect_def case_prod_unfold)
qed

theorem partial_resync_disconnects_witness:
  "tryCollectPartial ''id'' 7 repl_example = Some (encode (bulk ''b'')) \<and>
   (\<exists>s w'. handleClient (\<lambda>_. quiet_out) (\<lambda>_ w. w) (\<lambda>_. True) 1 1 []
      (map (\<lambda>b. concat (map encode b)) ([bulks [''PSYNC'', ''id'', ''7'']] # [[bulks [''PING'']]])) None (demo_world\<lparr>wd_repl := Some repl_example\<rparr>) =
        Some (s, w') \<and> s_out s = ''+CONTINUE'' @ crlf @ encode (bulk ''b''))"
proof -
  have c: "tryCollectPartial ''id'' 7 repl_example = Some (encode (bulk ''b''))" "m_role repl_example = Master"
    "parseInt64Arg (bulk ''7'') = Some 7" "encode (bulk ''b'') \<noteq> []"
    "length (concat (map encode [bulks [''PSYNC'', ''id'', ''7'']])) \<le> 60" "length (concat (map encode [bulks [''PING'']])) \<le> 60"
    by code_simp+
  have "list_all (whole_batch kDefaultBufferSize) ([bulks [''PSYNC'', ''id'', ''7'']] # [[bulks [''PING'']]])"
    using c(5,6)
    by (simp add: whole_batch_def kDefaultBufferSize_def is_request_def bulks_def array_of_def bulk_def INT64_MAX_def)
  from partial_resync_disconnects[OF _ c(2) _ c(3,1,4) this, of "demo_world\<lparr>wd_repl := Some repl_example\<rparr>" "\<lambda>_. quiet_out" "\<lambda>_. True" 1 1 "[]"] c(1)
  show ?thesis by (auto simp: isAuthRequired_def demo_world_def)
qed

text \<open>
  the reply nil drops the connection. \<open>EVAL\<close> of a script that returns nil (or false, or nothing) gives a reply of
  type \<open>Null\<close>, which the loop does not write; the flush then has nothing to send, and the loop ends. The client
  gets no byte, and its later requests are never read.
\<close>

theorem eval_nil_disconnects:
  assumes "\<not> isAuthRequired w" "script \<noteq> []" "o_lua (outs 0) script [] [] = LuaReturn LuaNil"
    and "list_all (whole_batch kDefaultBufferSize) ([bulks [''EVAL'', script, ''0'']] # bs)"
  shows "\<exists>s w'. handleClient outs (\<lambda>_ w. w) alive me cid addr
      (map (\<lambda>b. concat (map encode b)) ([bulks [''EVAL'', script, ''0'']] # bs)) None w = Some (s, w') \<and> s_out s = []"
proof -
  let ?s = "bare (connect me cid addr [] None w)" and ?req = "bulks [''EVAL'', script, ''0'']"
  have ctx: "s_ctx ?s = new_context\<lparr>ctx_pubsub := True, ctx_session := Some me, client_id := cid, client_addr := addr, authenticated := True\<rparr>"
    using assms(1) by (simp add: connect_ctx)
  have up: "upperArg ''EVAL'' = ''EVAL''" by (simp add: upperArg_def to_upper_letters)
  have g: "gate (s_ctx ?s) ''EVAL'' w = None" unfolding ctx
    by (simp add: gate_def new_context_def isMutatingCommand_def kMutating_def up Let_def)
  have multi: "\<not> multi_mode (s_ctx ?s)" unfolding ctx by (simp add: new_context_def)
  have find: "find_handler exec script_dispatch ''EVAL'' = Some (cmd_eval script_dispatch)"
    by (rule find_handler_registered[of "''EVAL''"]) (simp_all add: registered_def)
  have zero: "fst (strtoll ''0'') = 0" by code_simp
  have "cmd_eval script_dispatch (outs 0) [] (s_ctx ?s) (map bulk [''EVAL'', script, ''0'']) w = (s_ctx ?s, w\<lparr>wd_kill := False\<rparr>, resp_null)"
    using assms(2,3) zero by (simp add: cmd_eval_def script_args_def str_or_empty_def lua_eval_def Let_def)
  then obtain l where d: "dispatch (outs 0) (s_ctx ?s) ?req w = (s_ctx ?s, w\<lparr>wd_kill := False, wd_slowlog := l\<rparr>, resp_null)"
    using dispatch_runs[OF find g, of "outs 0" "[script, ''0'']"] multi by simp
  have h: "handle_request (outs 0) aof repl ?req ?s w = (?s, w\<lparr>wd_kill := False, wd_slowlog := l\<rparr>)" for aof repl
    unfolding handle_request_def d by (simp add: deliver_def resp_null_def isMutatingCommand_def kMutating_def up Let_def)
  have s: "m_writeBuf ?s = []" "s_out ?s = []" by (simp_all add: connect_def new_session_def bare_def)
  have "serve_batches outs (\<lambda>_ w. w) (aof_active w) (repl_active w) 0 ([?req] # bs) ?s w = (?s, w\<lparr>wd_kill := False, wd_slowlog := l\<rparr>)"
    by (rule silent_batch_ends[OF _ s(1)]) (simp only: deliver_none h)
  from connect_serves[OF assms(4) this] show ?thesis
    using s(2) by (auto simp: handleClient_def close_session_def)
qed

end
