(* ===== verification/Aof.thy ===== *)
theory Aof
  imports Traffic
begin

text \<open>
  The append-only log (\<open>zero/kv/persistence/aof.cc\<close>): replaying it at the start of the server, and rewriting it from
  the contents of the store. Appending to it is part of \<open>Session\<close>.
\<close>

subsection \<open>Replay\<close>

text \<open>The loop of \<open>AofLog::replay\<close> over the bytes that are left; the result is the error, if any.\<close>

function (sequential) replay_loop ::
    "(nat \<Rightarrow> Outside) \<Rightarrow> nat \<Rightarrow> nat \<Rightarrow> string \<Rightarrow> KvContext \<Rightarrow> World \<Rightarrow> World \<times> string option" where
  "replay_loop outs i pos data ctx w =
     (if data = [] then (w, None)
      else case tryParse data defaultValue of
        Some (ParseOk, consumed, req) \<Rightarrow>
          (case dispatch (outs i) ctx req w of
             (ctx1, w1, _) \<Rightarrow> replay_loop outs (i + 1) (pos + consumed) (drop consumed data) (ctx1\<lparr>ctx_quit := False\<rparr>) w1)
      | Some (ParseError, _, _) \<Rightarrow> (w, Some (''ERR corrupt AOF at offset '' @ to_string (int pos)))
      | _ \<Rightarrow> (w, Some (''ERR truncated AOF at offset '' @ to_string (int pos))))"
  by pat_completeness auto
termination
  by (relation "measure (\<lambda>(outs, i, pos, data, ctx, w). length data)") (auto dest: tryParse_bound)

declare replay_loop.simps [simp del]

definition replay :: "(nat \<Rightarrow> Outside) \<Rightarrow> string \<Rightarrow> World \<Rightarrow> World \<times> string option" where
  "replay outs data w = replay_loop outs 0 0 data new_context w"

subsection \<open>Rewriting\<close>

definition ttl_seconds :: "int64 \<Rightarrow> Entry \<Rightarrow> int64" where
  "ttl_seconds now e = cdiv (i64 (i64 (expire_at_ms e - now) + 999)) 1000"

definition stream_command :: "string \<Rightarrow> StreamEntry \<Rightarrow> RespValue" where
  "stream_command key x =
     bulks ([''XADD'', key, se_id x] @ concat (map (\<lambda>n. [n, umap_get [] n (se_fields x)]) (sort (map fst (se_fields x)))))"

text \<open>The commands for one entry.\<close>

definition rewrite_entry :: "int64 \<Rightarrow> string \<times> Entry \<Rightarrow> RespValue list" where
  "rewrite_entry now kv =
     (case kv of (key, e) \<Rightarrow>
        (case etype e of
           Hash \<Rightarrow> map (\<lambda>(f, v). bulks [''HSET'', key, f, v]) (ehash e)
         | List \<Rightarrow> (if elist e = [] then [] else [bulks (''RPUSH'' # key # elist e)])
         | Set \<Rightarrow> (if eset e = [] then [] else [bulks (''SADD'' # key # eset e)])
         | ZSet \<Rightarrow> (if ezset e = [] then [] else [bulks (''ZADD'' # key # concat (map (\<lambda>(m, s). [formatScore s, m]) (ezset e)))])
         | Stream \<Rightarrow> map (stream_command key) (estream e)
         | String \<Rightarrow>
             (if expire_at_ms e > now \<and> ttl_seconds now e > 0
              then [bulks [''SETEX'', key, to_string (ttl_seconds now e), evalue e]]
              else [bulks [''SET'', key, evalue e]])) @
        (if expire_at_ms e > now \<and> etype e \<noteq> String \<and> ttl_seconds now e > 0
         then [bulks [''EXPIRE'', key, to_string (ttl_seconds now e)]] else []))"

text \<open>A database of a shard: \<open>SELECT\<close> is written for the first shard only that has the database.\<close>

definition rewrite_db :: "int64 \<Rightarrow> int \<times> DbMap \<Rightarrow> int list \<times> RespValue list \<Rightarrow> int list \<times> RespValue list" where
  "rewrite_db now p acc =
     (case (p, acc) of
        ((db, d), (done, out)) \<Rightarrow>
          (db # done,
           (if db \<in> set done then out else out @ [bulks [''SELECT'', to_string db]]) @
             concat (map (rewrite_entry now) (filter (\<lambda>(k, e). \<not> isExpired e now) d))))"

definition buildRewriteCommands :: "int64 \<Rightarrow> KvStore \<Rightarrow> RespValue list" where
  "buildRewriteCommands now st = snd (fold (rewrite_db now) (concat (map m_dbs (m_shards st))) ([], []))"

text \<open>\<open>rewrite\<close>: the new contents of the file; \<open>fails\<close> is the error of writing it, if any.\<close>

definition rewrite :: "string option \<Rightarrow> int64 \<Rightarrow> KvStore \<Rightarrow> AofLog \<Rightarrow> AofLog \<times> string option" where
  "rewrite fails now st a =
     (case fails of
        Some err \<Rightarrow> (a, Some err)
      | None \<Rightarrow> (a\<lparr>aof_data := concat (map encode (buildRewriteCommands now st))\<rparr>, None))"

subsection \<open>Replaying commands\<close>

text \<open>The commands of the log, run one after the other in one context.\<close>

fun run_requests :: "(nat \<Rightarrow> Outside) \<Rightarrow> nat \<Rightarrow> RespValue list \<Rightarrow> KvContext \<Rightarrow> World \<Rightarrow> World" where
  "run_requests outs i [] ctx w = w"
| "run_requests outs i (r # rs) ctx w =
     (case dispatch (outs i) ctx r w of (ctx1, w1, _) \<Rightarrow> run_requests outs (i + 1) rs (ctx1\<lparr>ctx_quit := False\<rparr>) w1)"

lemma default_fields: "rstr defaultValue = []" "rint defaultValue = 0" "\<not> is_null defaultValue"
  by (simp_all add: defaultValue_def)

lemma replay_loop_requests:
  "list_all is_request rs \<Longrightarrow> replay_loop outs i pos (concat (map encode rs)) ctx w = (run_requests outs i rs ctx w, None)"
proof (induction rs arbitrary: i pos ctx w)
  case (Cons r rs)
  have "tryParse (encode r @ concat (map encode rs)) defaultValue = Some (ParseOk, length (encode r), r)"
    using Cons.prems tryParse_request[OF _ _ default_fields, of r] by (simp add: is_request_def)
  then show ?case using Cons encode_request_nonempty[of r]
    by (simp add: replay_loop.simps[of outs i] case_prod_unfold)
qed (simp add: replay_loop.simps)

text \<open>
  replaying the log runs exactly the commands that were appended to it. A log that is the concatenation of the
  encodings of commands is replayed without an error, each command once and in order.
\<close>

theorem replay_requests:
  assumes "list_all is_request rs"
  shows "replay outs (concat (map encode rs)) w = (run_requests outs 0 rs new_context w, None)"
  using replay_loop_requests[OF assms] by (simp add: replay_def)

lemma unauthenticated_refused:
  assumes "isAuthRequired w" "\<not> authenticated ctx" "\<not> pubsub_mode ctx" "isMutatingCommand (upperArg n)"
  shows "dispatch out ctx (bulks (n # as)) w = (ctx, w, kNoAuth)"
proof -
  have "isCommandAuthExempt n \<Longrightarrow> isCommandAuthExempt (upperArg n)"
    by (auto simp: isCommandAuthExempt_def upperArg_def to_upper_letters)
  then show ?thesis using assms mutating_not_special[OF assms(4)]
    by (auto simp: dispatch_def dispatch_with_def gate_def Let_def)
qed

text \<open>
  C36: with a password nothing is restored. The replay runs the commands in a context that is not authenticated, so
  where a password is set every write in the log is refused, the refusal is ignored, and the server starts with the
  store as it was before the replay, reporting no error.
\<close>

theorem replay_with_password:
  assumes "isAuthRequired w" "list_all (\<lambda>(n, as). isMutatingCommand (upperArg n) \<and> is_request (bulks (n # as))) cs"
  shows "replay outs (concat (map (\<lambda>(n, as). encode (bulks (n # as))) cs)) w = (w, None)"
proof -
  let ?rs = "map (\<lambda>(n, as). bulks (n # as)) cs"
  have ctx: "\<not> authenticated new_context" "\<not> pubsub_mode new_context" "new_context\<lparr>ctx_quit := False\<rparr> = new_context"
    by (simp_all add: new_context_def)
  have run: "run_requests outs i ?rs new_context w = w" for i
    using assms(2) by (induction cs arbitrary: i) (auto simp: unauthenticated_refused[OF assms(1) ctx(1,2)] ctx(3))
  have "list_all is_request ?rs" using assms(2) by (auto simp: list_all_iff)
  from replay_loop_requests[OF this, of outs 0 0 new_context w] run[of 0] show ?thesis
    by (simp add: replay_def case_prod_unfold comp_def)
qed

theorem replay_with_password_witness:
  "isAuthRequired (demo_world\<lparr>wd_pass := ''secret''\<rparr>) \<and>
   replay (\<lambda>_. quiet_out) (concat (map (\<lambda>(n, as). encode (bulks (n # as))) [(''SET'', [''k'', ''v''])])) (demo_world\<lparr>wd_pass := ''secret''\<rparr>) =
     (demo_world\<lparr>wd_pass := ''secret''\<rparr>, None)"
proof -
  have a: "isAuthRequired (demo_world\<lparr>wd_pass := ''secret''\<rparr>)" by (simp add: isAuthRequired_def)
  have "list_all (\<lambda>(n, as). isMutatingCommand (upperArg n) \<and> is_request (bulks (n # as))) [(''SET'', [''k'', ''v''])]"
    by (simp add: upper_names isMutatingCommand_def kMutating_def is_request_def bulks_def array_of_def bulk_def INT64_MAX_def)
  from replay_with_password[OF a this, of "\<lambda>_. quiet_out"] a show ?thesis by blast
qed

subsection \<open>Rewriting and replaying\<close>

definition set_command :: "string \<times> Entry \<Rightarrow> RespValue" where
  "set_command kv = bulks [''SET'', fst kv, evalue (snd kv)]"

definition plain_entry :: "Entry \<Rightarrow> bool" where
  "plain_entry e \<longleftrightarrow> etype e = String \<and> expire_at_ms e = 0"

lemma rewrite_plain: "plain_entry e \<Longrightarrow> 0 \<le> now \<Longrightarrow> rewrite_entry now (k, e) = [set_command (k, e)]"
  by (simp add: rewrite_entry_def plain_entry_def set_command_def)

text \<open>The rewriting of a store with one database.\<close>

lemma rewrite_one_db:
  assumes "list_all (\<lambda>p. fst p = db) ps" "list_all (\<lambda>p. list_all (\<lambda>(k, e). isExpired e now \<or> plain_entry e) (snd p)) ps" "0 \<le> now"
  shows "snd (fold (rewrite_db now) ps (done, out)) =
    out @ (if ps = [] \<or> db \<in> set done then [] else [bulks [''SELECT'', to_string db]]) @
      map set_command (concat (map (\<lambda>p. purgeExpiredDb (snd p) now) ps))"
  using assms(1,2)
proof (induction ps arbitrary: "done" out)
  case (Cons p ps)
  obtain d where p: "p = (db, d)" using Cons.prems(1) by (cases p) auto
  have "list_all (\<lambda>(k, e). isExpired e now \<or> plain_entry e) d" using Cons.prems(2) by (simp add: p)
  then have "concat (map (rewrite_entry now) (filter (\<lambda>(k, e). \<not> isExpired e now) d)) = map set_command (purgeExpiredDb d now)"
    by (induction d) (auto simp: purgeExpiredDb_def rewrite_plain[OF _ assms(3)])
  then show ?case using Cons.IH[of "db # done"] Cons.prems by (simp add: p rewrite_db_def)
qed simp

lemma one_db_at:
  assumes "distinct (map fst (m_dbs sh))" "list_all (\<lambda>p. fst p = db) (m_dbs sh)"
  shows "concat (map (\<lambda>p. purgeExpiredDb (snd p) now) (m_dbs sh)) = purgeExpiredDb (db_at sh db) now"
proof (cases "m_dbs sh")
  case (Cons p ps)
  then have "ps = []" using assms by (cases ps) auto
  then show ?thesis using Cons assms(2) by (cases p) (simp add: db_at_def umap_get_def)
qed (simp add: db_at_def umap_get_def purgeExpiredDb_def)

text \<open>What a store of plain strings holds.\<close>

definition holds_strings :: "hasher \<Rightarrow> KvStore \<Rightarrow> (int \<times> string \<rightharpoonup> string) \<Rightarrow> bool" where
  "holds_strings h st m \<longleftrightarrow> wf_store h st \<and> m_maxmemory st \<le> 0 \<and>
     (\<forall>d k. (case peek h st d k of None \<Rightarrow> True | Some e \<Rightarrow> plain_entry e) \<and> map_option evalue (peek h st d k) = m (d, k))"

lemma maxmemory_ops [simp]:
  "m_maxmemory (fst (openEntry h db k now st)) = m_maxmemory st" "m_maxmemory (putEntry h db k e st) = m_maxmemory st"
  "m_maxmemory (bumpWatchKey h db k st) = m_maxmemory st"
  by (simp_all add: openEntry_def putEntry_def bumpWatchKey_def upd_shard_def Let_def case_prod_unfold)

lemma live_plain: "(case peek h st d k of None \<Rightarrow> True | Some e \<Rightarrow> plain_entry e) \<Longrightarrow> live h t st d k = peek h st d k"
  by (auto simp: live_def plain_entry_def isExpired_def split: option.splits)

lemma set_strings:
  assumes "holds_strings h st m" "e_hash e = h"
  shows "snd (cmd_set e db (map bulk [''SET'', k, v]) st) = resp_ok"
    "holds_strings h (fst (cmd_set e db (map bulk [''SET'', k, v]) st)) (m((db, k) \<mapsto> v))"
proof -
  let ?now = "e_clock e 0" and ?rng = "e_rng e 0"
  have wf: "wf_store h st" and max: "m_maxmemory st \<le> 0" using assms(1) by (simp_all add: holds_strings_def)
  have lp: "live h t st d x = peek h st d x" for t d x using assms(1) live_plain by (simp add: holds_strings_def)
  have po: "peek h (fst (openEntry h db k ?now st)) d x = peek h st d x" for d x
    using wf_shaped[OF wf] peek_openEntry[of st h db k ?now d x] lp[of ?now db k] by auto
  let ?e = "(case peek h st db k of
      Some e \<Rightarrow> (if etype e \<noteq> String then clear_collections (e\<lparr>evalue := v\<rparr>) else e\<lparr>evalue := v\<rparr>) | None \<Rightarrow> new_entry\<lparr>evalue := v\<rparr>)\<lparr>expire_at_ms := 0\<rparr>"
  let ?st = "bumpWatchKey h db k (putEntry h db k ?e (fst (openEntry h db k ?now st)))"
  have cmd: "cmd_set e db (map bulk [''SET'', k, v]) st = (?st, resp_ok)"
    using assms(2) max lp[of ?now db k]
    by (simp add: cmd_set_def no_set_options_def arg_def reply_def setOpt_def set_deadline_def case_prod_unfold)
  have wf': "wf_store h ?st"
    using keeps_wfD[of cmd_set e st db "map bulk [''SET'', k, v]"] wf_cmd_strings(4) wf assms(2) cmd by simp
  show "snd (cmd_set e db (map bulk [''SET'', k, v]) st) = resp_ok" unfolding cmd by simp
  show "holds_strings h (fst (cmd_set e db (map bulk [''SET'', k, v]) st)) (m((db, k) \<mapsto> v))"
    unfolding cmd using assms(1) wf' wf_shaped[OF wf] po
    by (auto simp: holds_strings_def peek_bump peek_putEntry plain_entry_def clear_collections_def split: option.splits)
qed

text \<open>Replaying the commands.\<close>

definition open_world :: "World \<Rightarrow> bool" where
  "open_world w \<longleftrightarrow> wd_pass w = [] \<and> \<not> isSlave w"

lemma gate_open: "open_world w \<Longrightarrow> \<not> pubsub_mode ctx \<Longrightarrow> gate ctx n w = None"
  by (simp add: open_world_def gate_def isAuthRequired_def Let_def)

lemma open_world_store [simp]: "open_world (w\<lparr>wd_store := st, wd_slowlog := l\<rparr>) = open_world w" "open_world (w\<lparr>wd_slowlog := l\<rparr>) = open_world w"
  "open_world (w\<lparr>wd_store := st\<rparr>) = open_world w"
  by (simp_all add: open_world_def isSlave_def)

lemma run_sets:
  assumes "\<And>i. o_hash (outs i) = h" "\<not> pubsub_mode ctx" "\<not> multi_mode ctx" "\<not> ctx_quit ctx" "ctx_db ctx = db"
  shows "open_world w \<Longrightarrow> holds_strings h (wd_store w) m \<Longrightarrow>
    holds_strings h (wd_store (run_requests outs i (map set_command kvs) ctx w))
      (foldl (\<lambda>m (k, e). m((db, k) \<mapsto> evalue e)) m kvs)"
proof (induction kvs arbitrary: i w m)
  case (Cons kv kvs)
  obtain k e where kv: "kv = (k, e)" by (cases kv)
  let ?req = "map bulk [''SET'', k, evalue e]" and ?env = "env (outs i) []"
  have h: "e_hash ?env = h" using assms(1) by (simp add: env_def)
  note set = set_strings[OF Cons.prems(2) h, of db k "evalue e"]
  obtain st where st: "cmd_set ?env db ?req (wd_store w) = (st, resp_ok)" using set(1) by (metis prod.collapse)
  have "(''SET'', cmd_set) \<in> set store_table" by (simp add: store_table_def)
  from dispatch_store[OF this gate_open[OF Cons.prems(1) assms(2)] assms(3), of "outs i" "[k, evalue e]"] obtain l
    where d: "dispatch (outs i) ctx (set_command kv) w = (ctx, w\<lparr>wd_store := st, wd_slowlog := l\<rparr>, resp_ok)"
    using st assms(5) by (auto simp: set_command_def kv)
  have "ctx\<lparr>ctx_quit := False\<rparr> = ctx" using assms(4) by (cases ctx) simp
  moreover have "holds_strings h st (m((db, k) \<mapsto> evalue e))" using set(2) st by simp
  ultimately show ?case using Cons.IH[of "w\<lparr>wd_store := st, wd_slowlog := l\<rparr>" "m((db, k) \<mapsto> evalue e)" "i + 1"] Cons.prems(1)
    by (simp add: d[unfolded kv] kv del: fun_upd_apply)
qed simp

lemma foldl_sets:
  "distinct (map fst kvs) \<Longrightarrow> foldl (\<lambda>m (k, e). m((db, k) \<mapsto> evalue e)) m kvs (d, x) =
    (if d = db \<and> x \<in> fst ` set kvs then map_option evalue (map_of kvs x) else m (d, x))"
  by (induction kvs arbitrary: m) (auto split: if_splits)

lemma select_runs:
  assumes "open_world w" "db_index db" "\<not> pubsub_mode ctx" "\<not> multi_mode ctx"
  shows "\<exists>l. dispatch out ctx (bulks [''SELECT'', to_string db]) w = (ctx\<lparr>ctx_db := db\<rparr>, w\<lparr>wd_slowlog := l\<rparr>, resp_ok)"
proof -
  have "(''SELECT'', cmd_select) \<in> set session_table" by (simp add: session_table_def)
  moreover have "parseDbIndex (bulk (to_string db)) = Some db"
    using assms(2) strtoll_to_string[of db]
    by (simp add: parseDbIndex_def db_index_def kMaxDb_def in_i64_def INT64_MIN_def INT64_MAX_def at_end_def)
  ultimately show ?thesis
    using dispatch_runs[OF find_session gate_open[OF assms(1,3)], of "''SELECT''" cmd_select out "[to_string db]"] assms(4)
    by (auto simp: cmd_select_def)
qed

lemma concat_shards:
  "list_all (\<lambda>sh. concat (map f (m_dbs sh)) = g sh) shs \<Longrightarrow> concat (map f (concat (map m_dbs shs))) = concat (map g shs)"
  by (induction shs) simp_all

lemma one_db_entries:
  assumes "wf_store h st" "list_all (\<lambda>sh. list_all (\<lambda>p. fst p = db) (m_dbs sh)) (m_shards st)"
  shows "concat (map (\<lambda>p. purgeExpiredDb (snd p) now) (concat (map m_dbs (m_shards st)))) = umap_get [] db (snapshot_of now st)"
proof -
  have "list_all (\<lambda>sh. concat (map (\<lambda>p. purgeExpiredDb (snd p) now) (m_dbs sh)) = purgeExpiredDb (db_at sh db) now) (m_shards st)"
    using assms(2) wf_shards_distinct[OF assms(1)] by (auto simp: list_all_iff intro!: one_db_at)
  then show ?thesis unfolding snapshot_entries[OF assms(1)] by (rule concat_shards)
qed

lemma rewrite_strings:
  assumes "wf_store h st" "list_all (\<lambda>sh. list_all (\<lambda>p. fst p = db) (m_dbs sh)) (m_shards st)" "0 \<le> now"
    and "\<And>k e. live h now st db k = Some e \<Longrightarrow> plain_entry e"
  shows "buildRewriteCommands now st =
    (if concat (map m_dbs (m_shards st)) = [] then [] else [bulks [''SELECT'', to_string db]]) @
      map set_command (umap_get [] db (snapshot_of now st))"
proof -
  let ?ps = "concat (map m_dbs (m_shards st))"
  have one: "list_all (\<lambda>p. fst p = db) ?ps" using assms(2) by (auto simp: list_all_iff)
  have "isExpired e now \<or> plain_entry e" if "p \<in> set ?ps" "(k, e) \<in> set (snd p)" for p k e
  proof (rule ccontr)
    assume "\<not> (isExpired e now \<or> plain_entry e)"
    then have "(k, e) \<in> set (concat (map (\<lambda>p. purgeExpiredDb (snd p) now) ?ps))"
      using that by (force simp: purgeExpiredDb_def)
    then have "(k, e) \<in> set (umap_get [] db (snapshot_of now st))" unfolding one_db_entries[OF assms(1,2)] .
    moreover have "distinct (map fst (umap_get [] db (snapshot_of now st)))"
      unfolding map_fst_snapshot[OF assms(1)] by (rule distinct_db_keys[OF assms(1)])
    ultimately have "live h now st db k = Some e" using snapshot_lookup[OF assms(1), of db now k] by (metis map_of_is_SomeI)
    then show False using assms(4) \<open>\<not> (isExpired e now \<or> plain_entry e)\<close> by blast
  qed
  then have "list_all (\<lambda>p. list_all (\<lambda>(k, e). isExpired e now \<or> plain_entry e) (snd p)) ?ps"
    unfolding list_all_iff by (blast intro: case_prodI2)
  from rewrite_one_db[OF one this assms(3), of "[]" "[]"] show ?thesis
    by (simp add: buildRewriteCommands_def one_db_entries[OF assms(1,2)])
qed

lemma strings_new: "holds_strings h new_store Map.empty"
  by (simp add: holds_strings_def) (simp add: new_store_def)

lemma other_db_empty:
  assumes "list_all (\<lambda>sh. list_all (\<lambda>p. fst p = db) (m_dbs sh)) (m_shards st)" "wf_store h st" "d \<noteq> db"
  shows "live h now st d k = None"
proof -
  have "getShard h st k \<in> set (m_shards st)"
    using wf_shaped[OF assms(2)] by (simp add: getShard_def shaped_def)
  then have "list_all (\<lambda>p. fst p = db) (m_dbs (getShard h st k))" using assms(1) by (simp add: list_all_iff)
  then have "map_of (m_dbs (getShard h st k)) d = None" using assms(3) by (auto simp: map_of_eq_None_iff list_all_iff)
  then show ?thesis by (rule no_db_no_entry)
qed

text \<open>
  C35: a rewritten log holds the strings of a store with one database. Let only one database be in use, let all its live entries be
  strings without a deadline, and let the server that replays have no password and be no replica: then replaying the
  rewritten log into its empty store reports no error, restores every value and invents none, at all later
  times. With a second database in use values can end up in the wrong one (\<open>rewrite_wrong_database\<close>), and
  with a password nothing is restored (\<open>replay_with_password\<close>).
\<close>

theorem rewrite_replay_strings:
  assumes "wf_store h st" "db_index db" "0 \<le> now" "list_all (\<lambda>sh. list_all (\<lambda>p. fst p = db) (m_dbs sh)) (m_shards st)"
    and "\<And>k e. live h now st db k = Some e \<Longrightarrow> plain_entry e" "list_all is_request (buildRewriteCommands now st)"
    and "\<And>i. o_hash (outs i) = h" "open_world w" "wd_store w = new_store"
    and "replay outs (aof_data (fst (rewrite None now st a))) w = (w', err)"
  shows "err = None \<and> (\<forall>d k t. map_option evalue (live h t (wd_store w') d k) = map_option evalue (live h now st d k))"
proof -
  let ?es = "umap_get [] db (snapshot_of now st)"
  let ?ctx = "new_context\<lparr>ctx_db := db\<rparr>" and ?m = "foldl (\<lambda>m (k, e). m((db, k) \<mapsto> evalue e)) Map.empty ?es"
  have ctx: "\<not> pubsub_mode new_context" "\<not> multi_mode new_context" "?ctx\<lparr>ctx_quit := False\<rparr> = ?ctx" "\<not> pubsub_mode ?ctx"
    "\<not> multi_mode ?ctx" "\<not> ctx_quit ?ctx" "ctx_db ?ctx = db" by (simp_all add: new_context_def)
  have w': "w' = run_requests outs 0 (buildRewriteCommands now st) new_context w" "err = None"
    using assms(10) replay_loop_requests[OF assms(6), of outs 0 0 new_context w] by (simp_all add: replay_def rewrite_def)
  have "holds_strings h (wd_store w') ?m"
  proof (cases "concat (map m_dbs (m_shards st)) = []")
    case True
    have "?es = []" unfolding one_db_entries[OF assms(1,4), symmetric] True by simp
    then show ?thesis using w'(1) assms(9) strings_new rewrite_strings[OF assms(1,4,3,5)] True by simp
  next
    case False
    obtain l where "dispatch (outs 0) new_context (bulks [''SELECT'', to_string db]) w = (?ctx, w\<lparr>wd_slowlog := l\<rparr>, resp_ok)"
      using select_runs[OF assms(8,2) ctx(1,2)] by blast
    then have "w' = run_requests outs 1 (map set_command ?es) ?ctx (w\<lparr>wd_slowlog := l\<rparr>)"
      using w'(1) False ctx(3) by (simp add: rewrite_strings[OF assms(1,4,3,5)] del: concat_eq_Nil_conv)
    moreover have "open_world (w\<lparr>wd_slowlog := l\<rparr>)" "holds_strings h (wd_store (w\<lparr>wd_slowlog := l\<rparr>)) Map.empty"
      using assms(8,9) strings_new by simp_all
    ultimately show ?thesis using run_sets[of outs h, OF assms(7) ctx(4-7)] by blast
  qed
  then have "map_option evalue (live h t (wd_store w') d k) = ?m (d, k)" for d k t
    using live_plain[of h "wd_store w'" d k t] by (simp add: holds_strings_def)
  moreover have "distinct (map fst ?es)" unfolding map_fst_snapshot[OF assms(1)] by (rule distinct_db_keys[OF assms(1)])
  then have "?m (d, k) = map_option evalue (live h now st d k)" for d k
    using snapshot_lookup[OF assms(1), of db now k] other_db_empty[OF assms(4,1), of d now k]
    by (cases "d = db"; cases "live h now st db k") (auto simp: foldl_sets map_of_eq_None_iff dest!: map_of_SomeD intro: rev_image_eqI)
  ultimately show ?thesis using w'(2) by simp
qed

definition demo_strings :: KvStore where
  "demo_strings = fst (cmd_set (env quiet_out []) 0 (map bulk [''SET'', ''k'', ''v'']) new_store)"

lemma demo_strings_facts:
  "buildRewriteCommands 7 demo_strings = [bulks [''SELECT'', ''0''], bulks [''SET'', ''k'', ''v'']]"
  "list_all (\<lambda>sh. list_all (\<lambda>p. fst p = 0) (m_dbs sh)) (m_shards demo_strings)"
  "map_option evalue (live (\<lambda>_. 0) 7 demo_strings 0 ''k'') = Some ''v''"
  by code_simp+

theorem rewrite_replay_strings_witness:
  "\<exists>w' err. replay (\<lambda>_. quiet_out) (aof_data (fst (rewrite None 7 demo_strings \<lparr>m_enabled = True, m_fsync = No, aof_data = []\<rparr>))) demo_world = (w', err) \<and>
     err = None \<and> map_option evalue (live (\<lambda>_. 0) 9 (wd_store w') 0 ''k'') = Some ''v''"
proof -
  have h: "e_hash (env quiet_out []) = (\<lambda>_. 0)" by (simp add: env_def quiet_out_def demo_out_def)
  have st: "holds_strings (\<lambda>_. 0) demo_strings (Map.empty((0, ''k'') \<mapsto> ''v''))"
    unfolding demo_strings_def by (rule set_strings(2)[OF strings_new h])
  then have wf: "wf_store (\<lambda>_. 0) demo_strings" and plain: "live (\<lambda>_. 0) 7 demo_strings 0 k = Some e \<Longrightarrow> plain_entry e" for k e
    using live_peek[of "\<lambda>_. 0" 7 demo_strings 0 k e] by (auto simp: holds_strings_def split: option.splits)
  have req: "list_all is_request (buildRewriteCommands 7 demo_strings)"
    unfolding demo_strings_facts(1) by (simp add: is_request_def bulks_def array_of_def bulk_def INT64_MAX_def)
  obtain w' err where r: "replay (\<lambda>_. quiet_out) (aof_data (fst (rewrite None 7 demo_strings \<lparr>m_enabled = True, m_fsync = No, aof_data = []\<rparr>))) demo_world = (w', err)"
    by (metis prod.exhaust)
  have "err = None \<and> (\<forall>d k t. map_option evalue (live (\<lambda>_. 0) t (wd_store w') d k) = map_option evalue (live (\<lambda>_. 0) 7 demo_strings d k))"
    by (rule rewrite_replay_strings[OF wf _ _ demo_strings_facts(2) plain req _ _ _ r])
      (simp_all add: db_index_def kMaxDb_def quiet_out_def demo_out_def open_world_def demo_world_def isSlave_def)
  then have "err = None" "map_option evalue (live (\<lambda>_. 0) 9 (wd_store w') 0 ''k'') = Some ''v''"
    by (simp_all only: demo_strings_facts(3))
  then show ?thesis using r by blast
qed

text \<open>
  With two databases the rewriting goes wrong: the shards are written one after the other, and \<open>SELECT\<close> is written
  for the first shard only. Here shard 1 holds \<open>a\<close> of database 0 and \<open>b\<close> of database 1, and shard 2 holds \<open>cc\<close> of
  database 0, which the rewritten log sets in database 1.
\<close>

definition two_databases :: KvStore where
  "two_databases = set_kv length (\<lambda>_. 0) 0 ''cc'' ''3'' 7 (set_kv length (\<lambda>_. 0) 1 ''b'' ''2'' 7 (set_kv length (\<lambda>_. 0) 0 ''a'' ''1'' 7 new_store))"

lemma rewrite_wrong_database:
  "buildRewriteCommands 7 two_databases =
     [bulks [''SELECT'', ''0''], bulks [''SET'', ''a'', ''1''], bulks [''SELECT'', ''1''], bulks [''SET'', ''b'', ''2''],
      bulks [''SET'', ''cc'', ''3'']] \<and>
   map_option evalue (live length 7 two_databases 0 ''cc'') = Some ''3''"
  by code_simp

end
