(* ===== verification/RespCut.thy ===== *)
theory RespCut
  imports RespReader
begin

text \<open>
  The reader \<open>zero/kv/resp_reader.cc\<close> on buffers that end anywhere, as a socket delivers them: what \<open>tryParse\<close> answers
  to every part of a request.
\<close>

subsection \<open>Messages\<close>

text \<open>
  What travels as an item of a request or of a message between servers: a string, or a number that is not
  negative.
\<close>

fun plain_item :: "RespValue \<Rightarrow> bool" where
  "plain_item (RespValue t s n arr nul) \<longleftrightarrow>
     \<not> nul \<and> arr = [] \<and>
     (t = BulkString \<and> n = 0 \<and> int (length s) \<le> INT64_MAX \<or> t = Integer \<and> s = [] \<and> 0 \<le> n \<and> n \<le> INT64_MAX)"

definition message_of :: "RespValue list \<Rightarrow> RespValue" where
  "message_of xs = RespValue Array [] 0 xs False"

definition message_ok :: "RespValue list \<Rightarrow> bool" where
  "message_ok xs \<longleftrightarrow> list_all plain_item xs \<and> int (length xs) \<le> INT64_MAX"

text \<open>The bytes of a message up to and including the type marker of the array, or of one of its items.\<close>

definition ends_at_marker :: "RespValue list \<Rightarrow> string \<Rightarrow> bool" where
  "ends_at_marker xs d \<longleftrightarrow>
     d = ''*'' \<or>
     (\<exists>k < length xs. d = ''*'' @ to_string (int (length xs)) @ crlf @ concat (map encode (take k xs)) @ take 1 (encode (xs ! k)))"

lemma plain_item_wire: "plain_item x \<Longrightarrow> wire x"
  by (cases x) (auto simp: in_i64_def INT64_MAX_def)

lemma message_ok_wire: "message_ok xs \<Longrightarrow> wire (message_of xs)"
  by (auto simp: message_ok_def message_of_def list_all_iff plain_item_wire)

lemma readInt64_part:
  assumes "take j (dec_nat n) \<noteq> []" "int n \<le> INT64_MAX"
  shows "\<exists>v. readInt64 (take j (dec_nat n)) = Some (v, length (take j (dec_nat n)))"
proof -
  let ?ds = "take j (dec_nat n)" and ?f = "\<lambda>a c. 10 * a + digit_val c"
  have dig: "is_digit c" if "c \<in> set ?ds" for c using dec_nat_digits[of c n] that by (meson in_set_takeD)
  have "foldl ?f 0 ?ds \<le> foldl ?f (foldl ?f 0 ?ds) (drop j (dec_nat n))" by (rule foldl_digits_ge)
  also have "\<dots> = n" using dec_val_dec_nat[of n] by (simp add: dec_val_def foldl_append [symmetric])
  finally have "int (foldl ?f 0 ?ds) \<le> INT64_MAX" using assms(2) by simp
  from readDigits_app[OF dig _ this, of "[]" 0] have r: "readDigits 0 0 ?ds = Some (int (foldl ?f 0 ?ds), length ?ds)" by simp
  obtain c r where cr: "?ds = c # r" using assms(1) by (cases ?ds) auto
  then have "is_digit c" using dig by simp
  then have "c \<noteq> CHR ''-''" "c \<noteq> CHR ''+''" by auto
  then show ?thesis using r \<open>is_digit c\<close> unfolding cr by (simp add: readInt64_def split_sign_def)
qed

text \<open>A number that is not finished, or whose line end is not: the digits that are there, and whether they are all.\<close>

lemma cut_number:
  assumes "drop p d = q" "q \<noteq> []" "q @ e = to_string (int n) @ crlf @ body" "int n \<le> INT64_MAX"
  shows "(\<exists>v. readInt64 q = Some (v, length q)) \<or>
    (\<exists>r. q = to_string (int n) @ r \<and> r \<noteq> [] \<and> r @ e = crlf @ body \<and> readInt64 q = Some (int n, length (to_string (int n))))"
proof (cases "length q \<le> length (to_string (int n))")
  case True
  then have "q = take (length q) (dec_nat n)"
    using assms(3) by (metis append_eq_append_conv_if append_eq_conv_conj take_append to_string_def nat_int of_nat_less_0_iff
        append_Nil2 diff_is_0_eq' take_0)
  then show ?thesis using readInt64_part[of "length q" n] assms(2,4) by (metis length_take)
next
  case False
  then obtain r where r: "q = to_string (int n) @ r" "r @ e = crlf @ body" "r \<noteq> []"
    using assms(3) by (metis append_eq_append_conv2 append_Nil2 length_append le_add1 order_refl)
  then have "hd r = CHR 0x0D" by (cases r) (auto simp: crlf_def)
  then have "readInt64 q = Some (int n, length (to_string (int n)))"
    using readInt64_to_string[of "int n" r] assms(4) by (simp add: r(1) INT64_MAX_def)
  with r show ?thesis by blast
qed

lemma drop_all_or: "drop p d = q \<Longrightarrow> q \<noteq> [] \<Longrightarrow> p < length d \<and> length d = p + length q"
  by (metis append_Nil2 drop_all leI length_drop le_add_diff_inverse less_imp_le)

lemma marker_step:
  assumes "drop p d = c # q"
  shows "p < length d" "d ! p = c" "drop (Suc p) d = q" "length d = Suc (p + length q)"
  using drop_Cons_nth[OF assms] drop_all_or[OF assms] by simp_all

lemma plain_item_cut:
  assumes "plain_item x" "drop p d = q" "encode x = q @ e" "e \<noteq> []"
  shows "\<exists>c y. parseValue (Suc fuel) d p defaultValue = Some (if q = take 1 (encode x) then ParseError else ParseNeedMore, c, y)"
proof (cases q)
  case Nil
  then have "p \<ge> length d" using assms(2) by simp
  moreover have "take 1 (encode x) \<noteq> []" using assms(3,4) Nil by (cases "encode x") auto
  ultimately show ?thesis using Nil by (simp add: defaultValue_def)
next
  case (Cons c r)
  obtain t s n arr nul where x: "x = RespValue t s n arr nul" by (cases x)
  note h = marker_step[OF assms(2)[unfolded Cons]]
  consider (bulk) "t = BulkString" "\<not> nul" "int (length s) \<le> INT64_MAX" | (int) "t = Integer" "0 \<le> n" "n \<le> INT64_MAX" "\<not> nul"
    using assms(1) x by auto
  then show ?thesis
  proof cases
    case bulk
    have e: "encode x = CHR ''$'' # to_string (int (length s)) @ crlf @ s @ crlf" using bulk by (simp add: x encode_simps)
    then have c: "c = CHR ''$''" and r: "r @ e = to_string (int (length s)) @ crlf @ s @ crlf" using assms(3) Cons by auto
    show ?thesis
    proof (cases "r = []")
      case True
      then show ?thesis using h by (simp add: Cons c e readInt64_def defaultValue_def Let_def)
    next
      case False
      have ne: "q \<noteq> take 1 (encode x)" using False by (simp add: Cons e)
      from cut_number[OF h(3) False r bulk(3)] show ?thesis
      proof
        assume "\<exists>v. readInt64 r = Some (v, length r)"
        then obtain v where "readInt64 r = Some (v, length r)" ..
        then show ?thesis using h ne by (auto simp: c defaultValue_def Let_def)
      next
        assume "\<exists>r'. r = to_string (int (length s)) @ r' \<and> r' \<noteq> [] \<and> r' @ e = crlf @ s @ crlf \<and>
          readInt64 r = Some (int (length s), length (to_string (int (length s))))"
        then obtain r' where r': "r = to_string (int (length s)) @ r'" "r' \<noteq> []" "r' @ e = crlf @ s @ crlf"
          "readInt64 r = Some (int (length s), length (to_string (int (length s))))" by blast
        have "length r' < 4 + length s" using arg_cong[OF r'(3), of length] assms(4) by (cases e) auto
        then show ?thesis using h ne r'(1,2,4) by (auto simp: c defaultValue_def Let_def)
      qed
    qed
  next
    case int
    obtain m where m: "n = int m" using int(2) by (metis nonneg_int_cases)
    have "n \<noteq> - (2 ^ 63)" "in_i64 n" using int(2,3) by (auto simp: in_i64_def INT64_MAX_def)
    then have "appendInt64 [] n = to_string n" using appendInt64_ok[of n "[]"] int(2) by (simp add: INT64_MAX_def)
    then have e: "encode x = CHR '':'' # to_string n @ crlf" using int by (simp add: x encode_simps)
    then have c: "c = CHR '':''" and r: "r @ e = to_string (int m) @ crlf @ []" using assms(3) Cons m by auto
    show ?thesis
    proof (cases "r = []")
      case True
      then show ?thesis using h by (simp add: Cons c e readInt64_def defaultValue_def Let_def)
    next
      case False
      have ne: "q \<noteq> take 1 (encode x)" using False by (simp add: Cons e)
      have "int m \<le> INT64_MAX" using int(3) m by simp
      from cut_number[OF h(3) False r this] show ?thesis
      proof
        assume "\<exists>v. readInt64 r = Some (v, length r)"
        then obtain v where "readInt64 r = Some (v, length r)" ..
        then show ?thesis using h ne by (auto simp: c defaultValue_def Let_def)
      next
        assume "\<exists>r'. r = to_string (int m) @ r' \<and> r' \<noteq> [] \<and> r' @ e = crlf @ [] \<and>
          readInt64 r = Some (int m, length (to_string (int m)))"
        then obtain r' where r': "r = to_string (int m) @ r'" "r' @ e = crlf" "readInt64 r = Some (int m, length (to_string (int m)))"
          by auto
        have "length r' < 2" using arg_cong[OF r'(2), of length] assms(4) by (cases e) auto
        then show ?thesis using h ne r'(1,3) by (auto simp: c defaultValue_def Let_def)
      qed
    qed
  qed
qed

lemma items_cut:
  assumes "list_all plain_item xs" "drop p d = q" "concat (map encode xs) = q @ e" "e \<noteq> []" "length q \<le> fuel" "0 < fuel"
  shows "\<exists>c ys. parseItems (\<lambda>p. parseValue fuel d p defaultValue) (length xs) p acc =
    Some (if \<exists>k < length xs. q = concat (map encode (take k xs)) @ take 1 (encode (xs ! k)) then ParseError else ParseNeedMore, c, ys)"
  using assms(1-5)
proof (induction xs arbitrary: p q acc)
  case (Cons x xs)
  obtain f where f: "fuel = Suc f" using assms(6) by (cases fuel) auto
  have x: "plain_item x" and xs: "list_all plain_item xs" using Cons.prems(1) by auto
  have ne: "encode x \<noteq> []" using x by (cases x) (auto simp: encode_simps)
  show ?case
  proof (cases "length q < length (encode x)")
    case True
    then obtain e' where e': "encode x = q @ e'" "e' \<noteq> []"
      using Cons.prems(3) by (metis append_eq_append_conv_if append_take_drop_id concat.simps(2) drop_eq_Nil leD less_imp_le list.simps(9))
    from plain_item_cut[OF x Cons.prems(2) e', of f] obtain c y where
      "parseValue fuel d p defaultValue = Some (if q = take 1 (encode x) then ParseError else ParseNeedMore, c, y)"
      unfolding f by blast
    moreover have "(\<exists>k < length (x # xs). q = concat (map encode (take k (x # xs))) @ take 1 (encode ((x # xs) ! k))) \<longleftrightarrow> q = take 1 (encode x)"
    proof
      assume "\<exists>k < length (x # xs). q = concat (map encode (take k (x # xs))) @ take 1 (encode ((x # xs) ! k))"
      then obtain k where k: "q = concat (map encode (take k (x # xs))) @ take 1 (encode ((x # xs) ! k))" by blast
      then show "q = take 1 (encode x)" using True by (cases k) auto
    qed (rule exI[of _ 0], simp)
    ultimately show ?thesis by (auto split: if_splits)
  next
    case False
    then obtain q' where q': "q = encode x @ q'" "concat (map encode xs) = q' @ e"
      using Cons.prems(3) by (metis append_eq_append_conv2 append_eq_append_conv_if concat.simps(2) list.simps(9) not_le_imp_less
          same_append_eq append_eq_conv_conj)
    have d: "drop p d = encode x @ q'" using Cons.prems(2) q'(1) by simp
    have "length (encode x) \<le> fuel" "length q' \<le> fuel" using Cons.prems(5) q'(1) by simp_all
    then have "parseValue fuel d p defaultValue = Some (ParseOk, p + length (encode x), x)"
      using parseValue_encode[OF plain_item_wire[OF x] d, of fuel] by simp
    moreover from Cons.IH[OF xs drop_prefix[OF d] q'(2) Cons.prems(4) \<open>length q' \<le> fuel\<close>, of "acc @ [x]"] obtain c ys where
      "parseItems (\<lambda>p. parseValue fuel d p defaultValue) (length xs) (p + length (encode x)) (acc @ [x]) =
       Some (if \<exists>k < length xs. q' = concat (map encode (take k xs)) @ take 1 (encode (xs ! k)) then ParseError else ParseNeedMore, c, ys)"
      by blast
    moreover have "(\<exists>k < length (x # xs). q = concat (map encode (take k (x # xs))) @ take 1 (encode ((x # xs) ! k))) \<longleftrightarrow>
      (\<exists>k < length xs. q' = concat (map encode (take k xs)) @ take 1 (encode (xs ! k)))"
      (is "?l \<longleftrightarrow> ?r")
    proof
      assume ?l
      then obtain k where k: "k < length (x # xs)" "q = concat (map encode (take k (x # xs))) @ take 1 (encode ((x # xs) ! k))" by blast
      show ?r
      proof (cases k)
        case 0
        then have "encode x @ q' = take 1 (encode x)" using k(2) q'(1) by simp
        then have "length (encode x) + length q' \<le> 1" by (metis length_append length_take min.cobounded2)
        moreover have "length (encode x) \<ge> 2" using x by (cases x) (auto simp: encode_simps)
        ultimately show ?thesis by simp
      next
        case (Suc j)
        then show ?thesis using k q'(1) by (intro exI[of _ j]) simp
      qed
    next
      assume ?r
      then obtain k where "k < length xs" "q' = concat (map encode (take k xs)) @ take 1 (encode (xs ! k))" by blast
      then show ?l using q'(1) by (intro exI[of _ "Suc k"]) simp
    qed
    ultimately show ?thesis by simp
  qed
qed simp

lemma message_cut:
  assumes "message_ok xs" "encode (message_of xs) = d @ e" "e \<noteq> []" "d \<noteq> []" "length d \<le> fuel"
  shows "\<exists>c y. parseValue (Suc fuel) d 0 (RespValue t s n arr nul) =
    Some (if ends_at_marker xs d then ParseError else ParseNeedMore, c, y) \<and> rstr y = s \<and> rint y = n \<and> is_null y = nul"
proof -
  let ?n = "to_string (int (length xs))"
  have enc: "encode (message_of xs) = CHR ''*'' # ?n @ crlf @ concat (map encode xs)" by (simp add: message_of_def encode_simps)
  then obtain q where q: "d = CHR ''*'' # q" "q @ e = ?n @ crlf @ concat (map encode xs)" using assms(2,4) by (cases d) auto
  have dq: "drop (Suc 0) d = q" by (simp add: q(1))
  show ?thesis
  proof (cases "q = []")
    case True
    then show ?thesis by (simp add: q(1) readInt64_def Let_def ends_at_marker_def)
  next
    case False
    have n0: "?n \<noteq> []" by (simp add: to_string_def)
    have len: "int (length xs) \<le> INT64_MAX" using assms(1) by (simp add: message_ok_def)
    from cut_number[OF dq False q(2) len] show ?thesis
    proof
      assume "\<exists>v. readInt64 q = Some (v, length q)"
      then obtain v where v: "readInt64 q = Some (v, length q)" ..
      have "\<not> ends_at_marker xs d"
      proof
        assume "ends_at_marker xs d"
        then obtain z where "q = ?n @ crlf @ z" using False by (auto simp: ends_at_marker_def q(1))
        then have "readInt64 q = Some (int (length xs), length ?n)" "length ?n < length q"
          using readInt64_to_string[of "int (length xs)" "crlf @ z"] len by (simp_all add: INT64_MAX_def)
        then show False using v by simp
      qed
      then show ?thesis using v by (simp add: q(1) Let_def)
    next
      assume "\<exists>r. q = ?n @ r \<and> r \<noteq> [] \<and> r @ e = crlf @ concat (map encode xs) \<and> readInt64 q = Some (int (length xs), length ?n)"
      then obtain r where r: "q = ?n @ r" "r \<noteq> []" "r @ e = crlf @ concat (map encode xs)"
        "readInt64 q = Some (int (length xs), length ?n)" by blast
      show ?thesis
      proof (cases "length r < 2")
        case True
        have "\<not> ends_at_marker xs d" using True r(1) n0 by (auto simp: ends_at_marker_def q(1) crlf_def)
        then show ?thesis using True r by (simp add: q(1) Let_def)
      next
        case False
        then obtain b where b: "r = crlf @ b" "concat (map encode xs) = b @ e"
          using r(3) by (auto simp: crlf_def append_eq_Cons_conv Cons_eq_append_conv)
        have dd: "drop (Suc 0 + length ?n + 2) d = b" by (simp add: q(1) r(1) b(1) crlf_def)
        have at: "crlf_at d (Suc 0 + length ?n)" by (simp add: q(1) r(1) b(1) crlf_def crlf_at_def nth_append)
        have "\<exists>c ys. parseItems (\<lambda>p. parseValue fuel d p defaultValue) (length xs) (Suc 0 + length ?n + 2) [] =
          Some (if \<exists>k < length xs. b = concat (map encode (take k xs)) @ take 1 (encode (xs ! k)) then ParseError else ParseNeedMore, c, ys)"
          using assms(1,3,5) dd b(2) by (intro items_cut) (auto simp: message_ok_def q(1) r(1) b(1))
        then obtain c ys where p: "parseItems (\<lambda>p. parseValue fuel d p defaultValue) (length xs) (Suc 0 + length ?n + 2) [] =
          Some (if \<exists>k < length xs. b = concat (map encode (take k xs)) @ take 1 (encode (xs ! k)) then ParseError else ParseNeedMore, c, ys)"
          by blast
        have "ends_at_marker xs d \<longleftrightarrow> (\<exists>k < length xs. b = concat (map encode (take k xs)) @ take 1 (encode (xs ! k)))"
          using n0 by (auto simp: ends_at_marker_def q(1) r(1) b(1))
        then show ?thesis using p r(4) at len by (simp add: q(1) r(1) b(1) Let_def)
      qed
    qed
  qed
qed

lemma tryParse_part:
  assumes "message_ok xs" "encode (message_of xs) = d @ e" "e \<noteq> []"
  shows "\<exists>c x. tryParse d out = Some (if ends_at_marker xs d then ParseError else ParseNeedMore, c, x) \<and>
    rstr x = rstr out \<and> rint x = rint out \<and> is_null x = is_null out"
proof -
  obtain t s n arr nul where out: "out = RespValue t s n arr nul" by (cases out)
  show ?thesis
  proof (cases d)
    case Nil
    then show ?thesis by (simp add: tryParse_def out ends_at_marker_def)
  next
    case (Cons a r)
    then have "a = CHR ''*''" using assms(2) by (simp add: message_of_def encode_simps)
    then have "tryParse d out = parseValue (Suc (length d)) d 0 out" by (simp add: tryParse_def Cons isRespPrefix_def)
    then show ?thesis using message_cut[OF assms, of "length d" t s n arr nul] Cons out by simp
  qed
qed

subsection \<open>Several messages\<close>

text \<open>
  The bytes of messages one after the other, and the parts of them that end right after a type marker: there the reader
  reports an error instead of asking for more.
\<close>

definition bytes_of :: "RespValue list \<Rightarrow> string" where
  "bytes_of vs = concat (map encode vs)"

definition is_message :: "RespValue \<Rightarrow> bool" where
  "is_message v \<longleftrightarrow> v = message_of (rarray v) \<and> message_ok (rarray v)"

definition cut_at_marker :: "RespValue list \<Rightarrow> string \<Rightarrow> bool" where
  "cut_at_marker vs d \<longleftrightarrow>
     (\<exists>k < length vs. \<exists>e. d = bytes_of (take k vs) @ e \<and> ends_at_marker (rarray (vs ! k)) e)"

lemma bytes_of_simps [simp]: "bytes_of [] = []" "bytes_of (v # vs) = encode v @ bytes_of vs" "bytes_of (vs @ vs') = bytes_of vs @ bytes_of vs'"
  by (simp_all add: bytes_of_def)

lemma is_message_wire: "is_message v \<Longrightarrow> wire v" "is_message v \<Longrightarrow> rtype v = Array"
  unfolding is_message_def using message_ok_wire[of "rarray v"] by (metis, metis message_of_def RespValue.sel(1))

lemma encode_message_nonempty: "is_message v \<Longrightarrow> encode v \<noteq> []"
  by (cases v) (auto simp: is_message_def message_of_def encode_simps)

lemma bytes_of_Nil: "list_all is_message vs \<Longrightarrow> bytes_of vs = [] \<longleftrightarrow> vs = []"
  by (cases vs) (auto simp: encode_message_nonempty)

lemma cut_at_marker_simps:
  "\<not> cut_at_marker [] d"
  "cut_at_marker (v # vs) d \<longleftrightarrow> ends_at_marker (rarray v) d \<or> (\<exists>d'. d = encode v @ d' \<and> cut_at_marker vs d')"
  by (auto simp: cut_at_marker_def Ex_less_Suc2)

lemma cut_at_marker_append: "cut_at_marker vs2 e \<Longrightarrow> cut_at_marker (vs1 @ vs2) (bytes_of vs1 @ e)"
  by (induction vs1) (auto simp: cut_at_marker_simps)

lemma cut_at_marker_rest:
  "vs = now @ later \<Longrightarrow> x = bytes_of now @ d \<Longrightarrow> \<not> cut_at_marker vs (x @ y) \<Longrightarrow> \<not> cut_at_marker later (d @ y)"
  using cut_at_marker_append[of later "d @ y" now] by auto

lemma not_cut_Nil: "\<not> cut_at_marker vs []"
  by (auto simp: cut_at_marker_def ends_at_marker_def)

text \<open>Such a part ends with a marker.\<close>

lemma marker_last: "message_ok xs \<Longrightarrow> ends_at_marker xs d \<Longrightarrow> d \<noteq> [] \<and> last d \<in> {CHR ''*'', CHR ''$'', CHR '':''}"
proof -
  assume ok: "message_ok xs" and d: "ends_at_marker xs d"
  have "take 1 (encode x) \<in> {''$'', '':''}" if "x \<in> set xs" for x
  proof -
    have "plain_item x" using ok that by (simp add: message_ok_def list_all_iff)
    then show ?thesis by (cases x) (auto simp: encode_simps)
  qed
  then have m: "take 1 (encode (xs ! k)) \<in> {''$'', '':''}" if "k < length xs" for k using that by simp
  have l: "y @ z \<noteq> [] \<and> last (y @ z) \<in> {CHR ''*'', CHR ''$'', CHR '':''}" if "z \<in> {''$'', '':''}" for y z :: string
    using that by auto
  from d consider "d = ''*''" | k where "k < length xs"
      "d = (''*'' @ to_string (int (length xs)) @ crlf @ concat (map encode (take k xs))) @ take 1 (encode (xs ! k))"
    unfolding ends_at_marker_def append_assoc by blast
  then show ?thesis
  proof cases
    case 2
    show ?thesis unfolding 2(2) by (rule l[OF m[OF 2(1)]])
  qed simp
qed

lemma cut_last: "list_all is_message vs \<Longrightarrow> cut_at_marker vs d \<Longrightarrow> d \<noteq> [] \<and> last d \<in> {CHR ''*'', CHR ''$'', CHR '':''}"
proof -
  assume ok: "list_all is_message vs" and "cut_at_marker vs d"
  then obtain k e where k: "k < length vs" "d = bytes_of (take k vs) @ e" "ends_at_marker (rarray (vs ! k)) e"
    by (auto simp: cut_at_marker_def)
  have "message_ok (rarray (vs ! k))" using ok k(1) by (simp add: list_all_length is_message_def)
  from marker_last[OF this k(3)] show ?thesis by (simp add: k(2))
qed

text \<open>
  What the reader makes of the bytes that have arrived: the messages that are complete, and a part of the next one, for
  which it asks for more.
\<close>

definition asks_for_more :: "string \<Rightarrow> bool" where
  "asks_for_more d \<longleftrightarrow> d = [] \<or> (\<forall>out. \<exists>c x. tryParse d out = Some (ParseNeedMore, c, x) \<and>
     rstr x = rstr out \<and> rint x = rint out \<and> is_null x = is_null out)"

lemma part_asks_for_more:
  assumes "is_message v" "encode v = d @ e" "e \<noteq> []" "\<not> ends_at_marker (rarray v) d"
  shows "asks_for_more d"
proof -
  have "encode (message_of (rarray v)) = d @ e" using assms(1,2) by (metis is_message_def)
  then show ?thesis
    using tryParse_part[of "rarray v" d e] assms(1,3,4) by (auto simp: asks_for_more_def is_message_def)
qed

fun complete :: "RespValue list \<Rightarrow> string \<Rightarrow> RespValue list \<times> RespValue list \<times> string" where
  "complete [] d = ([], [], d)"
| "complete (v # vs) d =
     (if length (encode v) \<le> length d
      then (case complete vs (drop (length (encode v)) d) of (now, later, d') \<Rightarrow> (v # now, later, d'))
      else ([], v # vs, d))"

text \<open>The bytes \<open>d\<close> are the beginning of those of \<open>vs\<close>, end inside of the first one, and \<open>rest\<close> follows.\<close>

definition begun :: "RespValue list \<Rightarrow> string \<Rightarrow> string \<Rightarrow> bool" where
  "begun vs d rest \<longleftrightarrow> d @ rest = bytes_of vs \<and> (case vs of [] \<Rightarrow> d = [] | v # _ \<Rightarrow> length d < length (encode v))"

lemma append_split:
  assumes "x @ y = d @ rest"
  shows "length x \<le> length d \<Longrightarrow> \<exists>e. d = x @ e \<and> e @ rest = y" "length d < length x \<Longrightarrow> \<exists>e. x = d @ e \<and> e \<noteq> []"
  using assms by (force simp: append_eq_append_conv2)+

lemma complete_begun:
  "complete vs d = (now, later, d') \<Longrightarrow> d @ rest = bytes_of vs \<Longrightarrow>
   vs = now @ later \<and> d = bytes_of now @ d' \<and> begun later d' rest"
proof (induction vs arbitrary: d now)
  case (Cons v vs)
  show ?case
  proof (cases "length (encode v) \<le> length d")
    case True
    then obtain e where e: "d = encode v @ e" "e @ rest = bytes_of vs"
      using append_split(1)[of "encode v" "bytes_of vs" d rest] Cons.prems(2) by auto
    obtain now' where "complete vs e = (now', later, d')" "now = v # now'"
      using Cons.prems(1) True by (auto simp: e(1) split: prod.splits)
    then show ?thesis using Cons.IH[OF _ e(2)] e(1) by simp
  next
    case False
    then show ?thesis using Cons.prems by (auto simp: begun_def)
  qed
qed (auto simp: begun_def)

lemma begun_asks_for_more:
  assumes "list_all is_message vs" "begun vs d rest" "\<not> cut_at_marker vs d"
  shows "asks_for_more d"
proof (cases vs)
  case (Cons v ws)
  then obtain e where "encode v = d @ e" "e \<noteq> []"
    using append_split(2)[of "encode v" "bytes_of ws" d rest] assms(2) by (auto simp: begun_def)
  then show ?thesis using part_asks_for_more[of v d e] assms(1,3) Cons by (auto simp: cut_at_marker_simps)
qed (use assms(2) in \<open>simp add: begun_def asks_for_more_def\<close>)

subsection \<open>The reader is incremental\<close>

text \<open>
  C19: round trip and incremental parsing. The bytes of a request (an array of strings), or of a message between servers
  (an array of strings and non-negative numbers), followed by whatever comes next, are parsed back to it and
  exactly its own bytes are consumed. When only a part of the bytes has arrived, the reader asks for more, with
  one exception: when the part ends right after the type marker of the array or of an item, the reader
  reports an error.
\<close>

theorem tryParse_incremental:
  assumes "message_ok xs"
  shows "tryParse (encode (message_of xs) @ rest) defaultValue =
      Some (ParseOk, length (encode (message_of xs)), message_of xs) \<and>
    (\<forall>d e out. encode (message_of xs) = d @ e \<longrightarrow> e \<noteq> [] \<longrightarrow>
      (\<exists>c x. tryParse d out = Some (if ends_at_marker xs d then ParseError else ParseNeedMore, c, x)))"
proof (intro conjI allI impI)
  note w = message_ok_wire[OF assms]
  show "tryParse (encode (message_of xs) @ rest) defaultValue = Some (ParseOk, length (encode (message_of xs)), message_of xs)"
    using tryParse_request[OF w, of defaultValue rest] by (simp add: message_of_def defaultValue_def)
next
  fix d e out
  assume de: "encode (message_of xs) = d @ e" "e \<noteq> []"
  show "\<exists>c x. tryParse d out = Some (if ends_at_marker xs d then ParseError else ParseNeedMore, c, x)"
    using tryParse_part[OF assms de, of out] by blast
qed

theorem tryParse_incremental_witness:
  "tryParse (encode (message_of [bulk ''GET'', bulk ''foo'']) @ ''*1'') defaultValue =
     Some (ParseOk, length (encode (message_of [bulk ''GET'', bulk ''foo''])), message_of [bulk ''GET'', bulk ''foo'']) \<and>
   (\<exists>c x. tryParse (''*2'' @ crlf @ ''$3'' @ crlf @ ''GE'') defaultValue = Some (ParseNeedMore, c, x))"
proof -
  have ok: "message_ok [bulk ''GET'', bulk ''foo'']" by (simp add: message_ok_def bulk_def INT64_MAX_def)
  have e: "encode (message_of [bulk ''GET'', bulk ''foo'']) = (''*2'' @ crlf @ ''$3'' @ crlf @ ''GE'') @ ''T'' @ crlf @ ''$3'' @ crlf @ ''foo'' @ crlf"
    by code_simp
  let ?d = "''*2'' @ crlf @ ''$3'' @ crlf @ ''GE''"
  have "(\<exists>k < 2. P k) \<longleftrightarrow> P 0 \<or> P 1" for P :: "nat \<Rightarrow> bool" by (auto simp: less_Suc_eq numeral_2_eq_2)
  moreover have "encode (bulk ''GET'') = ''$3'' @ crlf @ ''GET'' @ crlf" "encode (bulk ''foo'') = ''$3'' @ crlf @ ''foo'' @ crlf"
    "to_string 2 = ''2''" by code_simp+
  ultimately have n: "\<not> ends_at_marker [bulk ''GET'', bulk ''foo''] ?d"
    by (simp add: ends_at_marker_def crlf_def numeral_2_eq_2 All_less_Suc)
  note t = tryParse_incremental[OF ok, of "''*1''"]
  from t[THEN conjunct2, rule_format, OF e] n
  have "\<exists>c x. tryParse ?d defaultValue = Some (ParseNeedMore, c, x)" by simp
  with t show ?thesis by blast
qed

end
