(* ===== verification/Reads.thy ===== *)
theory Reads
  imports Serve RespCut
begin

text \<open>
  A connection whose bytes arrive cut anywhere: reads that end inside of a request, that hold several requests, or
  both. What \<open>handleClient\<close> does with them is what the server does on the requests themselves, in the batches that
  the reads complete.
\<close>

subsection \<open>Batches\<close>

text \<open>
  The requests that each read completes: the bytes \<open>d\<close> of the next request are there already. A read that completes no
  request makes no batch.
\<close>

fun group_reads :: "RespValue list \<Rightarrow> string \<Rightarrow> string list \<Rightarrow> RespValue list list" where
  "group_reads reqs d [] = []"
| "group_reads reqs d (c # cs) =
     (case complete reqs (d @ c) of (now, later, d') \<Rightarrow>
        if now = [] then group_reads later d' cs else now # group_reads later d' cs)"

lemma group_reads_concat:
  "d @ concat cs = bytes_of reqs \<Longrightarrow> begun reqs d (concat cs) \<Longrightarrow> concat (group_reads reqs d cs) = reqs"
proof (induction cs arbitrary: reqs d)
  case Nil
  then show ?case by (cases reqs) (auto simp: begun_def)
next
  case (Cons c cs)
  obtain now later d' where c: "complete reqs (d @ c) = (now, later, d')" by (metis prod_cases3)
  have "(d @ c) @ concat cs = bytes_of reqs" using Cons.prems(1) by simp
  note r = complete_begun[OF c this]
  then have "concat (group_reads later d' cs) = later" using Cons.IH[of d' later] by (simp add: begun_def)
  then show ?case using c r by simp
qed

text \<open>
  What is left to arrive: the requests \<open>reqs\<close>, of which the bytes \<open>d\<close> are in the buffer, come with the reads \<open>cs\<close>. No
  read is empty or ends right after a type marker, and reads and requests take at most a quarter of the buffer.
\<close>

definition fits_in :: "nat \<Rightarrow> string \<Rightarrow> bool" where
  "fits_in n d \<longleftrightarrow> d \<noteq> [] \<and> length d \<le> n div 4"

definition pending :: "nat \<Rightarrow> RespValue list \<Rightarrow> string \<Rightarrow> string list \<Rightarrow> bool" where
  "pending n reqs d cs \<longleftrightarrow>
     list_all is_message reqs \<and> list_all (\<lambda>r. fits_in n (encode r)) reqs \<and> list_all (fits_in n) cs \<and>
     begun reqs d (concat cs) \<and> (\<forall>k. \<not> cut_at_marker reqs (d @ concat (take k cs)))"

lemma pending_read:
  assumes "pending n reqs d (c # cs)" "complete reqs (d @ c) = (now, later, d')"
  shows "reqs = now @ later" "d @ c = bytes_of now @ d'" "pending n later d' cs"
proof -
  have "(d @ c) @ concat cs = bytes_of reqs" using assms(1) by (simp add: pending_def begun_def)
  note r = complete_begun[OF assms(2) this]
  then show "reqs = now @ later" "d @ c = bytes_of now @ d'" by simp_all
  have "\<not> cut_at_marker later (d' @ concat (take k cs))" for k
  proof (rule cut_at_marker_rest[of reqs now])
    show "\<not> cut_at_marker reqs ((d @ c) @ concat (take k cs))"
      using assms(1) unfolding pending_def by (metis append_assoc concat.simps(2) take_Suc_Cons)
  qed (use r in simp_all)
  then show "pending n later d' cs" using assms(1) r by (simp add: pending_def)
qed

lemma pending_asks: "pending n reqs d cs \<Longrightarrow> asks_for_more d"
  using begun_asks_for_more[of reqs d "concat cs"] by (auto simp: pending_def dest: spec[of _ 0])

lemma pending_end: "pending n [] d cs \<Longrightarrow> d = [] \<and> cs = []"
  by (cases cs) (auto simp: pending_def begun_def fits_in_def)

lemma pending_more: "pending n (r # reqs) d cs \<Longrightarrow> length d < length (encode r) \<and> length d \<le> n div 4 \<and> cs \<noteq> []"
  by (cases cs) (auto simp: pending_def begun_def fits_in_def)

lemma pending_request: "pending n reqs d cs \<Longrightarrow> list_all is_request reqs"
  by (auto simp: pending_def list_all_iff is_request_def is_message_wire)

subsection \<open>Reading\<close>

text \<open>A reader that can go on: the value it left after asking for more has no text, no number, and is not null.\<close>

definition ready :: "RespValue \<Rightarrow> bool" where
  "ready v \<longleftrightarrow> rstr v = [] \<and> rint v = 0 \<and> \<not> is_null v"

lemma parse_asks:
  assumes "asks_for_more (unread s)" "unread s \<noteq> []"
  obtains c x where "parse_next v s = (ParseNeedMore, c, x)" "ready v \<Longrightarrow> ready x"
  using assms by (auto simp: asks_for_more_def parse_next_def ready_def dest!: spec[of _ v])

lemma room:
  assumes "holds n d s" "length d + length c \<le> n div 2"
  shows "m_dataLen (compactIfNeeded s) + length c \<le> n"
  using holds_available[OF assms(1)] assms by (auto simp: compactIfNeeded_def holds_def Let_def)

lemma fill_part:
  assumes "holds n d s" "m_dataLen s + length bytes \<le> n"
  shows "holds n (d @ bytes) (fill_buffer bytes (s\<lparr>s_in := later\<rparr>))"
proof -
  have d: "m_readPos s \<le> m_dataLen s" "m_dataLen s \<le> length (m_buffer s)" "length (m_buffer s) = n" "m_buffer s \<noteq> []"
    "m_dataLen s - m_readPos s = length d" "take (length d) (drop (m_readPos s) (m_buffer s)) = d"
    using holds_available[OF assms(1)] assms(1) by (simp_all add: holds_def sane_def unread_def)
  have "drop (m_readPos s) (take (m_dataLen s) (m_buffer s)) = d" using d by (simp add: drop_take)
  then show ?thesis using assms(2) d
    by (auto simp: holds_def sane_def unread_def fill_buffer_def min_def)
qed

lemma fill_part_frame:
  "bare (fill_buffer bytes (s\<lparr>s_in := later\<rparr>)) = bare s" "s_in (fill_buffer bytes (s\<lparr>s_in := later\<rparr>)) = later"
  "s_closed (fill_buffer bytes (s\<lparr>s_in := later\<rparr>)) = s_closed s"
  by (simp_all add: fill_buffer_def bare_def)

text \<open>One read of \<open>recvCommand\<close>, with a part of a request in the buffer.\<close>

lemma recv_read:
  assumes "holds n d s" "\<not> s_closed s" "s_in s = c # cs" "asks_for_more d" "ready v" "length d + length c \<le> n div 2" "c \<noteq> []"
  obtains t x where "recv_round v s = Inr (x, t)" "ready x" "holds n (d @ c) t" "bare t = bare s" "s_in t = cs" "\<not> s_closed t"
proof -
  let ?s = "compactIfNeeded s"
  have h: "holds n d ?s" by (rule holds_compact[OF assms(1)])
  note r = room[OF assms(1,6)]
  have "0 < length c" using assms(7) by simp
  then have lt: "m_dataLen ?s < n" "length c \<le> n - m_dataLen ?s" using r by linarith+
  obtain k x where x: "(if m_dataLen ?s > m_readPos ?s then parse_next v ?s else (ParseNeedMore, 0, v)) = (ParseNeedMore, k, x)" "ready x"
  proof (cases "d = []")
    case True
    then have "m_dataLen ?s = m_readPos ?s" using holds_available[OF h] by simp
    then show ?thesis using that[of 0 v] assms(5) by simp
  next
    case False
    have u: "unread ?s = d" using h by (simp add: holds_def)
    obtain k x where "parse_next v ?s = (ParseNeedMore, k, x)" "ready v \<Longrightarrow> ready x"
      by (rule parse_asks[of ?s v]) (use assms(4) False u in simp_all)
    then show ?thesis using that[of k x] assms(5) holds_available[OF h] False by simp
  qed
  have "socket_read (n - m_dataLen ?s) ?s = (?s\<lparr>s_in := cs\<rparr>, Some c)"
    using assms(2,3,7) lt(2) by (simp add: socket_read_def)
  moreover have "length (m_buffer ?s) = n" using h by (simp add: holds_def)
  ultimately have "recv_round v s = Inr (x, fill_buffer c (?s\<lparr>s_in := cs\<rparr>))" using lt(1) by (simp add: recv_round_def Let_def x(1))
  then show ?thesis using that fill_part[OF h r] fill_part_frame[of c cs ?s] x(2) assms(2) by simp
qed

lemma recv_complete:
  assumes "holds n (encode r @ d) s" "is_request r" "ready v"
  obtains t where "recvCommand v s = Some (t, Some r)" "holds n d t" "bare t = bare s" "s_in t = s_in s" "s_closed t = s_closed s"
proof -
  let ?s = "compactIfNeeded s"
  have h: "holds n (encode r @ d) ?s" by (rule holds_compact[OF assms(1)])
  have "parse_next v ?s = (ParseOk, length (encode r), r)"
    using parse_next_request[OF assms(2), of ?s d v] h assms(3) by (simp add: holds_def ready_def)
  moreover have "m_readPos ?s < m_dataLen ?s" using holds_available[OF h] encode_request_nonempty[OF assms(2)] by simp
  ultimately have "recv_round v s = Inl (?s\<lparr>m_readPos := m_readPos ?s + length (encode r)\<rparr>, Some r)"
    by (simp add: recv_round_def Let_def)
  then have "recvCommand v s = Some (?s\<lparr>m_readPos := m_readPos ?s + length (encode r)\<rparr>, Some r)"
    by (subst recvCommand.simps) simp
  then show ?thesis using that holds_advance[OF h] by simp
qed

lemma recv_pending:
  "pending n reqs d cs \<Longrightarrow> reqs \<noteq> [] \<Longrightarrow> holds n d s \<Longrightarrow> \<not> s_closed s \<Longrightarrow> s_in s = cs \<Longrightarrow> ready v \<Longrightarrow>
   \<exists>t r now later d' cs'. recvCommand v s = Some (t, Some r) \<and> reqs = r # now @ later \<and>
     group_reads reqs d cs = (r # now) # group_reads later d' cs' \<and> pending n later d' cs' \<and>
     holds n (bytes_of now @ d') t \<and> bare t = bare s \<and> s_in t = cs' \<and> \<not> s_closed t"
proof (induction cs arbitrary: d s v)
  case Nil
  then show ?case using pending_more by (metis list.exhaust)
next
  case (Cons c cs)
  obtain now later d' where c: "complete reqs (d @ c) = (now, later, d')" by (metis prod_cases3)
  note r = pending_read[OF Cons.prems(1) c]
  obtain r1 rs1 where "reqs = r1 # rs1" using Cons.prems(2) by (cases reqs) auto
  then have "length d \<le> n div 4" using pending_more Cons.prems(1) by blast
  moreover have "length c \<le> n div 4" "c \<noteq> []" using Cons.prems(1) by (simp_all add: pending_def fits_in_def)
  ultimately have len: "length d + length c \<le> n div 2" "c \<noteq> []" by linarith+
  from recv_read[OF Cons.prems(3-5) pending_asks[OF Cons.prems(1)] Cons.prems(6) len] obtain t x where
    t: "recv_round v s = Inr (x, t)" "ready x" "holds n (d @ c) t" "bare t = bare s" "s_in t = cs" "\<not> s_closed t" by blast
  have rec: "recvCommand v s = recvCommand x t" by (subst recvCommand.simps) (simp add: t(1))
  show ?case
  proof (cases now)
    case Nil
    then have e: "later = reqs" "d' = d @ c" using r by simp_all
    from Cons.IH[OF r(3)[unfolded e] Cons.prems(2) t(3,6,5,2)] show ?thesis
      unfolding rec using t(4) c Nil e by simp
  next
    case (Cons q qs)
    have "is_request q" using pending_request[OF Cons.prems(1)] r(1) Cons by simp
    moreover have "holds n (encode q @ bytes_of qs @ d') t" using t(3) r(2) Cons by simp
    ultimately obtain u where "recvCommand x t = Some (u, Some q)" "holds n (bytes_of qs @ d') u" "bare u = bare t"
      "s_in u = s_in t" "s_closed u = s_closed t" using recv_complete[of n q "bytes_of qs @ d'" t x] t(2) by blast
    then show ?thesis unfolding rec using t(4-6) c r Cons
      by (intro exI[of _ u] exI[of _ q] exI[of _ qs] exI[of _ later] exI[of _ d'] exI[of _ cs]) simp
  qed
qed

subsection \<open>Serving\<close>

lemma tryRecv_part:
  assumes "holds n d s" "asks_for_more d"
  shows "\<exists>t. tryRecvCommand old s = (t, None) \<and> holds n d t \<and> bare t = bare s \<and> s_in t = s_in s"
proof -
  let ?s = "compactIfNeeded s"
  have h: "holds n d ?s" by (rule holds_compact[OF assms(1)])
  show ?thesis
  proof (cases "d = []")
    case True
    then show ?thesis using tryRecv_empty assms(1) by blast
  next
    case False
    have u: "unread ?s = d" using h by (simp add: holds_def)
    obtain k x where "parse_next old ?s = (ParseNeedMore, k, x)"
      by (rule parse_asks[of ?s old]) (use assms(2) False u in simp_all)
    then show ?thesis using holds_available[OF h] False h by (simp add: tryRecvCommand_def Let_def)
  qed
qed

lemma batch_part:
  "holds n (bytes_of now @ d) s \<Longrightarrow> asks_for_more d \<Longrightarrow> is_request req \<Longrightarrow> list_all is_request now \<Longrightarrow>
   handle_batch outs aof repl i req s w = (j, t, w') \<Longrightarrow>
   handle_all outs aof repl i (req # now) (bare s) w = (j, bare t, w') \<and> s_in t = s_in s \<and> s_closed t = s_closed s \<and>
     (ctx_quit (s_ctx t) \<or> holds n d t)"
proof (induction now arbitrary: req i s w)
  case Nil
  obtain s1 w1 where h: "handle_request (outs i) aof repl req s w = (s1, w1)" by (metis prod.exhaust)
  have side: "input_side s1 = input_side s" using h by (metis fst_conv input_side_handle)
  have "holds n d s1" using Nil.prems(1) holds_side[OF side] by simp
  from tryRecv_part[OF this Nil.prems(2), of req] show ?case
    using Nil.prems(5) bare_side[OF side] by (auto dest: bare_closed simp: handle_batch.simps[of outs aof repl i req] h bare_handle split: if_splits)
next
  case (Cons r now)
  obtain s1 w1 where h: "handle_request (outs i) aof repl req s w = (s1, w1)" by (metis prod.exhaust)
  have side: "input_side s1 = input_side s" using h by (metis fst_conv input_side_handle)
  have "holds n (encode r @ bytes_of now @ d) s1" using Cons.prems(1) holds_side[OF side] by simp
  from tryRecv_request[OF this _ Cons.prems(3)] Cons.prems(4) obtain s2
    where s2: "tryRecvCommand req s1 = (s2, Some r)" "holds n (bytes_of now @ d) s2" "bare s2 = bare s1" "s_in s2 = s_in s1"
    by auto
  show ?case
  proof (cases "ctx_quit (s_ctx s1)")
    case True
    then show ?thesis using Cons.prems(5) bare_side[OF side]
      by (auto simp: handle_batch.simps[of outs aof repl i req] h bare_handle)
  next
    case False
    then have "handle_batch outs aof repl (i + 1) r s2 w1 = (j, t, w')"
      using Cons.prems(5) by (simp add: handle_batch.simps[of outs aof repl i req] h s2(1))
    from Cons.IH[OF s2(2) Cons.prems(2) _ _ this] Cons.prems(4) False bare_side[OF side] bare_closed[OF s2(3)] s2(3,4) show ?thesis
      by (simp add: h bare_handle)
  qed
qed

lemma serve_pending:
  "pending n reqs d cs \<Longrightarrow> holds n d s \<Longrightarrow> \<not> s_closed s \<Longrightarrow> s_in s = cs \<Longrightarrow> n > 1 \<Longrightarrow>
   serve_batches outs idle aof repl i (group_reads reqs d cs) (bare s) w = (u, w') \<Longrightarrow>
   \<exists>t. serve_loop outs idle aof repl i s w = Some (t, w') \<and> s_out t = s_out u \<and> s_ctx t = s_ctx u"
proof (induction "length reqs" arbitrary: reqs d cs i s w rule: less_induct)
  case less
  let ?s = "deliver (length (wd_output w)) (idle i w) s"
  have side: "input_side ?s = input_side s" by simp
  have pre: "holds n d ?s" "\<not> s_closed ?s" "s_in ?s = cs" using less.prems holds_side[OF side] side by (simp_all add: input_side_def)
  show ?case
  proof (cases "reqs = []")
    case True
    then have e: "d = []" "cs = []" using pending_end less.prems(1) by blast+
    obtain t where t: "recvCommand defaultValue ?s = Some (t, None)" "bare t = bare (close_session ?s)"
      using recv_end[OF pre(1)[unfolded e(1)] pre(3)[unfolded e(2)] less.prems(5)] by blast
    have "s_out t = s_out ?s" "s_ctx t = s_ctx ?s" using arg_cong[OF t(2), of s_out] arg_cong[OF t(2), of s_ctx]
      by (simp_all add: bare_def close_session_def)
    moreover have "u = bare ?s" "w' = idle i w" using less.prems(6) by (auto simp: bare_deliver e(2))
    ultimately show ?thesis by (subst serve_loop.simps) (simp add: Let_def t(1) bare_def)
  next
    case False
    have "ready defaultValue" by (simp add: ready_def defaultValue_def)
    from recv_pending[OF less.prems(1) False pre this] obtain s1 r now later d' cs' where
      s1: "recvCommand defaultValue ?s = Some (s1, Some r)" "reqs = r # now @ later"
        "group_reads reqs d cs = (r # now) # group_reads later d' cs'" "pending n later d' cs'"
        "holds n (bytes_of now @ d') s1" "bare s1 = bare ?s" "s_in s1 = cs'" "\<not> s_closed s1" by blast
    have req: "is_request r" "list_all is_request now" using pending_request[OF less.prems(1)] s1(2) by simp_all
    obtain j s2 w2 where s2: "handle_batch outs aof repl i r s1 (idle i w) = (j, s2, w2)" by (metis prod_cases3)
    note hb = batch_part[OF s1(5) pending_asks[OF s1(4)] req s2, unfolded s1(6)]
    obtain s3 m where s3: "flushResponses s2 = (s3, m)" by (metis prod.exhaust)
    have side3: "input_side s3 = input_side s2" using s3 by (metis fst_conv input_side_flush)
    have ref: "serve_batches outs idle aof repl i (group_reads reqs d cs) (bare s) w =
        (if m \<le> 0 then (bare s3, w2)
         else if replica_connection (s_ctx s3) then (bare (deliver (length (wd_output w2)) (idle j w2) s3), idle j w2)
         else if ctx_quit (s_ctx s3) then (bare s3, w2)
         else serve_batches outs idle aof repl j (group_reads later d' cs') (bare s3) w2)"
      using hb by (simp add: s1(3) bare_deliver bare_flush s3 del: handle_all.simps)
    have code: "serve_loop outs idle aof repl i s w =
        (if m \<le> 0 then Some (s3, w2)
         else if replica_connection (s_ctx s3) then Some (deliver (length (wd_output w2)) (idle j w2) s3, idle j w2)
         else if ctx_quit (s_ctx s3) then Some (s3, w2)
         else serve_loop outs idle aof repl j s3 w2)"
      by (subst serve_loop.simps) (simp add: Let_def s1(1) s2 s3)
    have ctx3: "s_ctx s3 = s_ctx s2" using s3 by (auto simp: flushResponses_def split: if_splits)
    show ?thesis
    proof (cases "m \<le> 0 \<or> replica_connection (s_ctx s3) \<or> ctx_quit (s_ctx s3)")
      case True
      then show ?thesis using less.prems(6) unfolding ref code by (auto simp: bare_def split: if_splits)
    next
      case False
      have "holds n d' s3" "\<not> s_closed s3" "s_in s3 = cs'"
        using hb s1(7,8) False ctx3 holds_side[OF side3] bare_side[OF side3] by simp_all
      moreover have "length later < length reqs" by (simp add: s1(2))
      ultimately show ?thesis using less.hyps[OF _ s1(4), of s3 j w2] less.prems(5,6) False unfolding ref code by simp
    qed
  qed
qed

text \<open>
  C2: the bytes of a connection are the requests they encode, cut anywhere but right after a type marker. A client sends requests (arrays of
  strings) of at most 4096 bytes each, one after the other and as many as it likes, and the socket delivers their bytes in
  reads of at most 4096 bytes that may end anywhere, inside of a number, a line end or a string, except right after the type marker of
  an array or a string (see \<open>tryParse_incremental\<close>: there the session is closed). Then \<open>handleClient\<close> hands exactly
  these requests to the dispatcher, each once and in their order, and its effects and the bytes it writes back are those of the
  server on requests, \<open>serve_batches\<close>: the replies to the requests, encoded one after the other and written once for
  every read that completes a request, up to the request that ends the connection or the write that fails.
\<close>

theorem handleClient_requests:
  assumes "list_all is_message reqs" "list_all (\<lambda>r. length (encode r) \<le> 4096) reqs"
    and "concat reads = bytes_of reqs" "list_all (\<lambda>c. c \<noteq> [] \<and> length c \<le> 4096) reads"
    and "\<forall>k. \<not> cut_at_marker reqs (concat (take k reads))"
    and "serve_batches outs idle (aof_active w) (repl_active w) 0 (group_reads reqs [] reads)
           (bare (connect me cid addr [] writes w)) w = (u, w')"
  shows "concat (group_reads reqs [] reads) = reqs \<and>
    (\<exists>s. handleClient outs idle alive me cid addr reads writes w = Some (s, disconnect alive me w') \<and>
       s_out s = s_out u \<and> s_ctx s = s_ctx u)"
proof -
  let ?s = "connect me cid addr reads writes w"
  have b: "begun reqs [] (concat reads)"
    using assms(1,3) encode_message_nonempty by (cases reqs) (auto simp: begun_def)
  have p: "pending kDefaultBufferSize reqs [] reads"
    using assms(1-5) b encode_message_nonempty
    by (auto simp: pending_def fits_in_def kDefaultBufferSize_def list_all_iff)
  have bare: "bare ?s = bare (connect me cid addr [] writes w)" by (simp add: connect_def new_session_def bare_def)
  have "holds kDefaultBufferSize [] ?s" "\<not> s_closed ?s" "s_in ?s = reads" "kDefaultBufferSize > 1"
    by (simp_all add: connect_def new_session_def holds_def sane_def unread_def kDefaultBufferSize_def)
  from serve_pending[OF p this assms(6)[folded bare]] obtain t where
    "serve_loop outs idle (aof_active w) (repl_active w) 0 ?s w = Some (t, w')" "s_out t = s_out u" "s_ctx t = s_ctx u" by blast
  moreover have "concat (group_reads reqs [] reads) = reqs" using group_reads_concat[OF _ b] assms(3) by simp
  ultimately show ?thesis by (auto simp: handleClient_def close_session_def)
qed

text \<open>The requests of the witness, \<open>SET\<close> and \<open>GET\<close>, arrive in two reads, the first of which ends inside of \<open>SET\<close>.\<close>

theorem handleClient_requests_witness:
  "let d = bytes_of demo_requests
   in \<exists>s w'. handleClient (\<lambda>_. quiet_out) (\<lambda>_ w. w) (\<lambda>_. True) 1 1 [] [take 10 d, drop 10 d] None demo_world = Some (s, w') \<and>
        s_out s = ''+OK'' @ crlf @ ''$1'' @ crlf @ ''v'' @ crlf"
proof -
  let ?d = "bytes_of demo_requests" and ?reads = "[take 10 (bytes_of demo_requests), drop 10 (bytes_of demo_requests)]"
  have m: "list_all is_message demo_requests" "list_all (\<lambda>r. length (encode r) \<le> 30) demo_requests"
    "length ?d \<le> 60" "take 10 ?d \<noteq> []" "drop 10 ?d \<noteq> []" "last (take 10 ?d) = CHR ''E''" "last ?d = CHR 10"
    "group_reads demo_requests [] ?reads = [demo_requests]"
    by code_simp+
  have cut: "\<not> cut_at_marker demo_requests (concat (take k ?reads))" for k
  proof -
    consider "k = 0" | "k = 1" | "k \<ge> 2" by linarith
    then show ?thesis using cut_last[OF m(1), of "concat (take k ?reads)"] m(4-7)
      by cases (auto simp del: take_eq_Nil drop_eq_Nil)
  qed
  have a: "aof_active demo_world = False" "repl_active demo_world = False"
    by (simp_all add: aof_active_def repl_active_def demo_world_def)
  obtain u w' where u: "serve_batches (\<lambda>_. quiet_out) (\<lambda>_ w. w) False False 0 [demo_requests] (bare (connect 1 1 [] [] None demo_world)) demo_world = (u, w')"
    "s_out u = ''+OK'' @ crlf @ ''$1'' @ crlf @ ''v'' @ crlf" using demo_serve by blast
  have s: "serve_batches (\<lambda>_. quiet_out) (\<lambda>_ w. w) (aof_active demo_world) (repl_active demo_world) 0 (group_reads demo_requests [] ?reads)
      (bare (connect 1 1 [] [] None demo_world)) demo_world = (u, w')" using u(1) by (simp only: a m(8))
  have l: "list_all (\<lambda>r. length (encode r) \<le> 4096) demo_requests" "list_all (\<lambda>c. c \<noteq> [] \<and> length c \<le> 4096) ?reads"
    "concat ?reads = ?d" using m(2-5) by (auto simp: list_all_iff)
  from handleClient_requests[OF m(1) l(1,3,2) _ s, of "\<lambda>_. True"] cut u(2) show ?thesis by (auto simp: Let_def)
qed

end
