(* ===== verification/Slot.thy ===== *)
theory Slot
  imports Prelude
begin

text \<open>
  The hash slots of the cluster, \<open>zero/kv/cluster/cluster_slot.cc\<close>: the table-driven CRC-16
  (with the table of the source) and the slot of a key, which honours \<open>{tag}\<close>. The reference
  definition of the checksum is the bit-by-bit division by the polynomial \<open>0x1021\<close>.
\<close>

type_synonym uint16 = "16 word"

definition kClusterSlotCount :: nat where
  "kClusterSlotCount = 16384"

definition kCrc16Table :: "uint16 list" where
  "kCrc16Table =
     [0x0000, 0x1021, 0x2042, 0x3063, 0x4084, 0x50a5, 0x60c6, 0x70e7,
      0x8108, 0x9129, 0xa14a, 0xb16b, 0xc18c, 0xd1ad, 0xe1ce, 0xf1ef,
      0x1231, 0x0210, 0x3273, 0x2252, 0x52b5, 0x4294, 0x72f7, 0x62d6,
      0x9339, 0x8318, 0xb37b, 0xa35a, 0xd3bd, 0xc39c, 0xf3ff, 0xe3de,
      0x2462, 0x3443, 0x0420, 0x1401, 0x64e6, 0x74c7, 0x44a4, 0x5485,
      0xa56a, 0xb54b, 0x8528, 0x9509, 0xe5ee, 0xf5cf, 0xc5ac, 0xd58d,
      0x3653, 0x2672, 0x1611, 0x0630, 0x76d7, 0x66f6, 0x5695, 0x46b4,
      0xb75b, 0xa77a, 0x9719, 0x8738, 0xf7df, 0xe7fe, 0xd79d, 0xc7bc,
      0x48c4, 0x58e5, 0x6886, 0x78a7, 0x0840, 0x1861, 0x2802, 0x3823,
      0xc9cc, 0xd9ed, 0xe98e, 0xf9af, 0x8948, 0x9969, 0xa90a, 0xb92b,
      0x5af5, 0x4ad4, 0x7ab7, 0x6a96, 0x1a71, 0x0a50, 0x3a33, 0x2a12,
      0xdbfd, 0xcbdc, 0xfbbf, 0xeb9e, 0x9b79, 0x8b58, 0xbb3b, 0xab1a,
      0x6ca6, 0x7c87, 0x4ce4, 0x5cc5, 0x2c22, 0x3c03, 0x0c60, 0x1c41,
      0xedae, 0xfd8f, 0xcdec, 0xddcd, 0xad2a, 0xbd0b, 0x8d68, 0x9d49,
      0x7e97, 0x6eb6, 0x5ed5, 0x4ef4, 0x3e13, 0x2e32, 0x1e51, 0x0e70,
      0xff9f, 0xefbe, 0xdfdd, 0xcffc, 0xbf1b, 0xaf3a, 0x9f59, 0x8f78,
      0x9188, 0x81a9, 0xb1ca, 0xa1eb, 0xd10c, 0xc12d, 0xf14e, 0xe16f,
      0x1080, 0x00a1, 0x30c2, 0x20e3, 0x5004, 0x4025, 0x7046, 0x6067,
      0x83b9, 0x9398, 0xa3fb, 0xb3da, 0xc33d, 0xd31c, 0xe37f, 0xf35e,
      0x02b1, 0x1290, 0x22f3, 0x32d2, 0x4235, 0x5214, 0x6277, 0x7256,
      0xb5ea, 0xa5cb, 0x95a8, 0x8589, 0xf56e, 0xe54f, 0xd52c, 0xc50d,
      0x34e2, 0x24c3, 0x14a0, 0x0481, 0x7466, 0x6447, 0x5424, 0x4405,
      0xa7db, 0xb7fa, 0x8799, 0x97b8, 0xe75f, 0xf77e, 0xc71d, 0xd73c,
      0x26d3, 0x36f2, 0x0691, 0x16b0, 0x6657, 0x7676, 0x4615, 0x5634,
      0xd94c, 0xc96d, 0xf90e, 0xe92f, 0x99c8, 0x89e9, 0xb98a, 0xa9ab,
      0x5844, 0x4865, 0x7886, 0x68a7, 0x18c0, 0x08e1, 0x3882, 0x28a3,
      0xcb7d, 0xdb5c, 0xeb3f, 0xfb1e, 0x8bf9, 0x9bd8, 0xabbb, 0xbb9a,
      0x4a75, 0x5a54, 0x6a37, 0x7a16, 0x0af1, 0x1ad0, 0x2ab3, 0x3a92,
      0xfd2e, 0xed0f, 0xdd6c, 0xcd4d, 0xbdaa, 0xad8b, 0x9de8, 0x8dc9,
      0x7c26, 0x6c07, 0x5c64, 0x4c45, 0x3ca2, 0x2c83, 0x1ce0, 0x0cc1,
      0xef1f, 0xff3e, 0xcf5d, 0xdf7c, 0xaf9b, 0xbfba, 0x8fd9, 0x9ff8,
      0x6e17, 0x7e36, 0x4e55, 0x5e74, 0x2e93, 0x3eb2, 0x0ed1, 0x1ef0]"

definition byte :: "char \<Rightarrow> uint16" where
  "byte c = of_nat (of_char c)"

definition crc16_step :: "uint16 \<Rightarrow> char \<Rightarrow> uint16" where
  "crc16_step crc c = push_bit 8 crc XOR kCrc16Table ! unat ((drop_bit 8 crc XOR byte c) AND 0xFF)"

definition crc16 :: "string \<Rightarrow> uint16" where
  "crc16 data = foldl crc16_step 0 data"

text \<open>\<open>std::string::find\<close> of a character, from a position.\<close>

fun find_char :: "char \<Rightarrow> string \<Rightarrow> nat option" where
  "find_char c [] = None"
| "find_char c (x # s) = (if x = c then Some 0 else map_option Suc (find_char c s))"

definition find_from :: "char \<Rightarrow> string \<Rightarrow> nat \<Rightarrow> nat option" where
  "find_from c s p = map_option ((+) p) (find_char c (drop p s))"

definition slot_of :: "string \<Rightarrow> nat" where
  "slot_of s = unat (crc16 s AND of_nat (kClusterSlotCount - 1))"

definition keyToSlot :: "string \<Rightarrow> nat" where
  "keyToSlot key =
     (case find_from CHR ''{'' key 0 of
        None \<Rightarrow> slot_of key
      | Some start \<Rightarrow>
          (case find_from CHR ''}'' key (start + 1) of
             None \<Rightarrow> slot_of key
           | Some end' \<Rightarrow>
               if end' > start + 1
               then slot_of (take (end' - start - 1) (drop (start + 1) key))
               else slot_of key))"

subsection \<open>The checksum as polynomial division\<close>

definition crc_bit :: "uint16 \<Rightarrow> uint16" where
  "crc_bit x = (if bit x 15 then push_bit 1 x XOR 0x1021 else push_bit 1 x)"

definition crc_ref_step :: "uint16 \<Rightarrow> char \<Rightarrow> uint16" where
  "crc_ref_step crc c = (crc_bit ^^ 8) (crc XOR push_bit 8 (byte c))"

definition crc_ref :: "string \<Rightarrow> uint16" where
  "crc_ref data = foldl crc_ref_step 0 data"

lemma crc_bit_xor: "crc_bit (x XOR y) = crc_bit x XOR crc_bit y"
  by (rule bit_word_eqI) (auto simp: crc_bit_def bit_simps)

lemma crc_bits_xor: "(crc_bit ^^ n) (x XOR y) = (crc_bit ^^ n) x XOR (crc_bit ^^ n) y"
  by (induction n) (simp_all add: crc_bit_xor)

text \<open>
  The table is checked through its own structure: the checksum is linear, so the entries above
  \<open>2 ^ k\<close> are the entries below it combined with the entry \<open>2 ^ k\<close>.
\<close>

definition entry :: "nat \<Rightarrow> uint16" where
  "entry i = (crc_bit ^^ 8) (push_bit 8 (of_nat i))"

fun doubling :: "uint16 list \<Rightarrow> uint16 list" where
  "doubling [] = [0]"
| "doubling (b # bs) = doubling bs @ map ((XOR) b) (doubling bs)"

lemma entry_add:
  assumes "i < 2 ^ k"
  shows "entry (2 ^ k + i) = entry (2 ^ k) XOR entry i"
proof -
  have "take_bit k i = i" using assms by (simp add: take_bit_nat_eq_self)
  then have "2 ^ k AND i = 0"
    by (metis and_exp_eq_0_iff_not_bit and.commute bit_take_bit_iff less_irrefl)
  then have "2 ^ k + i = 2 ^ k XOR i" by (rule disjunctive_add_eq_xor)
  then show ?thesis
    by (simp add: entry_def of_nat_xor_eq push_bit_xor crc_bits_xor)
qed

lemma doubling_entries: "doubling (map (\<lambda>k. entry (2 ^ k)) (rev [0..<n])) = map entry [0..<2 ^ n]"
proof (induction n)
  case 0
  have "entry 0 = 0" by code_simp
  then show ?case by simp
next
  case (Suc n)
  have e: "entry (2 ^ n) XOR entry x = entry (x + 2 ^ n)" if "x < 2 ^ n" for x
    using entry_add[OF that] by (simp add: add.commute)
  have "map ((XOR) (entry (2 ^ n))) (map entry [0..<2 ^ n]) = map entry (map (\<lambda>i. i + 2 ^ n) [0..<2 ^ n])"
    by (simp add: e)
  also have "map (\<lambda>i. i + 2 ^ n) [0..<2 ^ n] = [2 ^ n..<2 ^ n + 2 ^ n]"
    by (simp add: map_add_upt)
  finally show ?case using Suc
    by (simp add: upt_add_eq_append[of 0 "2 ^ n" "2 ^ n", symmetric] mult_2 flip: map_append)
qed

text \<open>Two entries of the source's table differ from the polynomial's.\<close>

lemma table_entries: "kCrc16Table = (map entry [0..<256])[202 := 0x7886, 203 := 0x68a7]"
proof -
  have p: "(2 :: nat) ^ 8 = 256" by simp
  have b: "map (\<lambda>k. entry (2 ^ k)) (rev [0..<8]) =
      [0x9188, 0x48c4, 0x2462, 0x1231, 0x8108, 0x4084, 0x2042, 0x1021]"
    by code_simp
  have t: "kCrc16Table =
      (doubling [0x9188, 0x48c4, 0x2462, 0x1231, 0x8108, 0x4084, 0x2042, 0x1021])
        [202 := 0x7886, 203 := 0x68a7]"
    by (simp add: kCrc16Table_def)
  show ?thesis using doubling_entries[of 8] unfolding b t p by (simp only:)
qed

lemma table_entry_iff: "i < 256 \<Longrightarrow> kCrc16Table ! i = entry i \<longleftrightarrow> i \<noteq> 202 \<and> i \<noteq> 203"
proof -
  have "entry 202 = 0x7806" "entry 203 = 0x6827" by code_simp+
  then show "i < 256 \<Longrightarrow> ?thesis" by (auto simp: table_entries nth_list_update)
qed

text \<open>Shifting a byte through the register eight times moves it up: no feedback happens.\<close>

lemma crc_bits_low:
  assumes "\<And>n. 8 \<le> n \<Longrightarrow> \<not> bit x n"
  shows "k \<le> 8 \<Longrightarrow> (crc_bit ^^ k) x = push_bit k x"
proof (induction k)
  case (Suc k)
  then have "\<not> bit (push_bit k x) 15" using assms[of "15 - k"] by (simp add: bit_simps)
  then show ?case using Suc by (simp add: crc_bit_def push_bit_push_bit del: push_bit_of_1)
qed simp

lemma bit_byte: "8 \<le> n \<Longrightarrow> \<not> bit (byte c) n"
proof -
  have "take_bit 8 (of_char c :: nat) = of_char c" by (simp add: take_bit_nat_eq_self of_char_def)
  then show "8 \<le> n \<Longrightarrow> ?thesis"
    by (metis bit_of_nat_iff bit_take_bit_iff byte_def not_less)
qed

definition crc_index :: "uint16 \<Rightarrow> char \<Rightarrow> nat" where
  "crc_index crc c = unat ((drop_bit 8 crc XOR byte c) AND 0xFF)"

lemma crc_index_eq: "crc_index crc c = unat (drop_bit 8 crc XOR byte c)" "crc_index crc c < 256"
proof -
  have "(0xFF :: uint16) = mask 8" by (simp add: mask_eq_exp_minus_1)
  moreover have "take_bit 8 (drop_bit 8 crc XOR byte c) = drop_bit 8 crc XOR byte c"
    by (rule bit_word_eqI) (use bit_byte in \<open>auto simp: bit_simps dest: bit_imp_le_length\<close>)
  ultimately show e: "crc_index crc c = unat (drop_bit 8 crc XOR byte c)"
    by (simp only: crc_index_def take_bit_eq_mask [symmetric])
  have "crc_index crc c = unat (take_bit 8 (drop_bit 8 crc XOR byte c))"
    by (simp only: crc_index_def take_bit_eq_mask \<open>0xFF = mask 8\<close>)
  also have "\<dots> = take_bit 8 (unat (drop_bit 8 crc XOR byte c))" by (rule unsigned_take_bit_eq)
  also have "\<dots> < 2 ^ 8" by (rule take_bit_nat_less_exp)
  finally show "crc_index crc c < 256" by simp
qed

lemma crc_ref_step_entry: "crc_ref_step crc c = push_bit 8 crc XOR entry (crc_index crc c)"
proof -
  let ?w = "drop_bit 8 crc XOR byte c" and ?lo = "take_bit 8 crc"
  have "crc XOR push_bit 8 (byte c) = push_bit 8 ?w XOR ?lo"
    by (rule bit_word_eqI) (auto simp: bit_simps)
  moreover have "(crc_bit ^^ 8) ?lo = push_bit 8 ?lo"
    by (rule crc_bits_low) (auto simp: bit_simps)
  moreover have "push_bit 8 ?lo = push_bit 8 crc"
    by (rule bit_word_eqI) (auto simp: bit_simps)
  ultimately show ?thesis
    by (simp add: crc_ref_step_def crc_bits_xor entry_def crc_index_eq xor.commute)
qed

lemma xor_cancel: "a XOR b = a XOR c \<longleftrightarrow> b = c" for a :: uint16
  by (metis xor.assoc xor_self_eq xor.left_neutral)

lemma find_char_notin: "c \<notin> set s \<Longrightarrow> find_char c (s @ c # r) = Some (length s)"
  by (induction s) auto

lemma slot_of_less: "slot_of s < 16384"
proof -
  have "crc16 s AND (16383 :: uint16) \<le> 16383" by (rule word_and_le1)
  then have "unat (crc16 s AND 16383) \<le> unat (16383 :: uint16)" by (simp only: word_le_nat_alt)
  then show ?thesis by (simp add: slot_of_def kClusterSlotCount_def)
qed

subsection \<open>Properties\<close>

text \<open>
  one step of the table-driven checksum is eight steps of the division by the polynomial,
  except where the step reads the entries 202 or 203 of the table, which are wrong in the source
  (\<open>0x7886\<close> for \<open>0x7806\<close> and \<open>0x68a7\<close> for \<open>0x6827\<close>).
\<close>

theorem crc16_step_iff:
  "crc16_step crc c = crc_ref_step crc c \<longleftrightarrow> crc_index crc c \<noteq> 202 \<and> crc_index crc c \<noteq> 203"
proof -
  have "crc16_step crc c = push_bit 8 crc XOR kCrc16Table ! crc_index crc c"
    by (simp add: crc16_step_def crc_index_def)
  then show ?thesis
    using table_entry_iff[OF crc_index_eq(2), of crc c] xor_cancel by (simp add: crc_ref_step_entry)
qed

text \<open>
  The consequence for routing. The key \<open>test\<close> is sent to slot 7046, while the checksum
  of the polynomial \<open>0x1021\<close>, which the header names as the algorithm, gives slot 6918.
\<close>

theorem keyToSlot_test_diverges:
  "keyToSlot ''test'' = 7046 \<and> unat (crc_ref ''test'' AND of_nat (kClusterSlotCount - 1)) = 6918"
  by code_simp

text \<open>
  every key has a slot in the range of the cluster, and all keys with the same non-empty hash
  tag share one slot, which is the slot of the tag: what precedes the first brace (any text without
  an opening brace) and what follows the tag do not matter.
\<close>

theorem keyToSlot_tag:
  assumes "CHR ''{'' \<notin> set a" "CHR ''}'' \<notin> set tag" "tag \<noteq> []"
  shows "keyToSlot (a @ CHR ''{'' # tag @ CHR ''}'' # b) = slot_of tag \<and> keyToSlot key < kClusterSlotCount"
proof
  have "find_from CHR ''{'' (a @ CHR ''{'' # tag @ CHR ''}'' # b) 0 = Some (length a)"
    using find_char_notin[OF assms(1)] by (simp add: find_from_def)
  moreover have "find_from CHR ''}'' (a @ CHR ''{'' # tag @ CHR ''}'' # b) (length a + 1)
      = Some (length a + 1 + length tag)"
    using find_char_notin[OF assms(2)] by (simp add: find_from_def)
  ultimately show "keyToSlot (a @ CHR ''{'' # tag @ CHR ''}'' # b) = slot_of tag"
    using assms(3) by (simp add: keyToSlot_def)
  show "keyToSlot key < kClusterSlotCount"
    using slot_of_less by (auto simp: keyToSlot_def kClusterSlotCount_def split: option.split)
qed

theorem keyToSlot_tag_witness:
  "keyToSlot (''user:'' @ CHR ''{'' # ''42'' @ CHR ''}'' # '':name'') = slot_of ''42'' \<and>
   keyToSlot ''x'' < kClusterSlotCount"
  by (rule keyToSlot_tag) simp_all

end
