(* ===== verification/Cluster.thy ===== *)
theory Cluster
  imports Slot Resp
begin

text \<open>
  The cluster state, \<open>zero/kv/cluster/cluster_manager.{h,cc}\<close>. The nodes are shared objects: the table
  \<open>m_nodes\<close> and the pointer \<open>m_myself\<close> hold references into \<open>objects\<close>, so an update through one is
  seen through the other, as with the \<open>shared_ptr\<close>s of the source. A slot bitmap is the set of its
  bits; the random node identifier and the clock are arguments. Each operation runs under the
  manager's lock, so an operation is one step.
\<close>

unbundle bit_operations_syntax

subsection \<open>Conversions of the standard library\<close>

text \<open>
  \<open>std::stoi\<close>, \<open>std::stoll\<close> and \<open>std::stoull\<close>: leading white space and a sign are taken, what follows the
  digits is ignored; no digits and a value out of range throw (\<open>None\<close>).
\<close>

definition leading_int :: "string \<Rightarrow> int option" where
  "leading_int s =
     (let (neg, _, r) = split_sign (dropWhile is_space s);
          ds = takeWhile is_digit r
      in if ds = [] then None else Some (if neg then - int (dec_val ds) else int (dec_val ds)))"

definition stoi :: "string \<Rightarrow> int option" where
  "stoi s = (case leading_int s of None \<Rightarrow> None | Some v \<Rightarrow> if - (2 ^ 31) \<le> v \<and> v < 2 ^ 31 then Some v else None)"

definition stoll :: "string \<Rightarrow> int64 option" where
  "stoll s = (case leading_int s of None \<Rightarrow> None | Some v \<Rightarrow> if in_i64 v then Some v else None)"

definition stoull :: "string \<Rightarrow> uint64 option" where
  "stoull s = (case leading_int s of None \<Rightarrow> None | Some v \<Rightarrow> if \<bar>v\<bar> < 2 ^ 64 then Some (of_int v) else None)"

lemma leading_int_to_string: "leading_int (to_string n) = Some n"
proof (cases "n < 0")
  case True
  then show ?thesis by (simp add: leading_int_def to_string_def split_sign_def)
next
  case False
  then show ?thesis by (simp add: leading_int_def to_string_def no_space_dec_nat split_sign_dec_nat)
qed

subsection \<open>Nodes\<close>

datatype ClusterNodeFlag = Master | Slave | Myself | PFail | Fail | NoAddr

fun flag_bit :: "ClusterNodeFlag \<Rightarrow> uint16" where
  "flag_bit Master = 1"
| "flag_bit Slave = 2"
| "flag_bit Myself = 4"
| "flag_bit PFail = 8"
| "flag_bit Fail = 16"
| "flag_bit NoAddr = 32"

record ClusterNode =
  node_id :: string
  ip :: string
  port :: int
  cluster_port :: int
  flags :: uint16
  master_id :: string
  slots :: "nat set"
  config_epoch :: uint64
  ping_sent :: int64
  pong_received :: int64

definition new_node :: ClusterNode where
  "new_node = \<lparr>node_id = [], ip = [], port = 0, cluster_port = 0, flags = 0, master_id = [],
     slots = {}, config_epoch = 0, ping_sent = 0, pong_received = 0\<rparr>"

definition hasFlag :: "ClusterNodeFlag \<Rightarrow> ClusterNode \<Rightarrow> bool" where
  "hasFlag f n \<longleftrightarrow> flags n AND flag_bit f \<noteq> 0"

definition setFlag :: "ClusterNodeFlag \<Rightarrow> ClusterNode \<Rightarrow> ClusterNode" where
  "setFlag f n = n\<lparr>flags := flags n OR flag_bit f\<rparr>"

definition clearFlag :: "ClusterNodeFlag \<Rightarrow> ClusterNode \<Rightarrow> ClusterNode" where
  "clearFlag f n = n\<lparr>flags := flags n AND NOT (flag_bit f)\<rparr>"

datatype SlotType = Normal | Migrating | Importing

record SlotState =
  stype :: SlotType
  target_node_id :: string

definition normal_slot :: SlotState where
  "normal_slot = \<lparr>stype = Normal, target_node_id = []\<rparr>"

record ClusterManager =
  m_enabled :: bool
  m_my_node_id :: string
  m_bind_ip :: string
  m_port :: int
  m_cluster_port :: int
  m_announce_ip :: string
  m_announce_port :: int
  m_config_epoch :: uint64
  m_require_full_coverage :: bool
  m_slave_validity_factor :: int
  m_migration_barrier :: int
  m_failure_reports :: "(string, string list) umap"
  m_nodes :: "(string, nat) umap"
  m_myself :: "nat option"
  m_slot_states :: "nat \<Rightarrow> SlotState"
  m_slot_owner :: "nat \<Rightarrow> string"
  m_slot_owner_dirty :: bool
  objects :: "ClusterNode list"

definition new_manager :: ClusterManager where
  "new_manager = \<lparr>m_enabled = False, m_my_node_id = [], m_bind_ip = [], m_port = 0, m_cluster_port = 0,
     m_announce_ip = [], m_announce_port = 0, m_config_epoch = 0, m_require_full_coverage = False,
     m_slave_validity_factor = 10, m_migration_barrier = 1, m_failure_reports = [], m_nodes = [],
     m_myself = None, m_slot_states = (\<lambda>_. normal_slot), m_slot_owner = (\<lambda>_. []),
     m_slot_owner_dirty = True, objects = []\<rparr>"

subsection \<open>Shared nodes\<close>

definition obj :: "ClusterManager \<Rightarrow> nat \<Rightarrow> ClusterNode" where
  "obj c a = objects c ! a"

definition upd_obj :: "nat \<Rightarrow> (ClusterNode \<Rightarrow> ClusterNode) \<Rightarrow> ClusterManager \<Rightarrow> ClusterManager" where
  "upd_obj a f c = c\<lparr>objects := (objects c)[a := f (obj c a)]\<rparr>"

definition make_shared :: "ClusterNode \<Rightarrow> ClusterManager \<Rightarrow> nat \<times> ClusterManager" where
  "make_shared n c = (length (objects c), c\<lparr>objects := objects c @ [n]\<rparr>)"

definition find_node :: "ClusterManager \<Rightarrow> string \<Rightarrow> nat option" where
  "find_node c nid = map_of (m_nodes c) nid"

text \<open>The nodes in the order in which a loop over \<open>m_nodes\<close> meets them.\<close>

definition node_refs :: "ClusterManager \<Rightarrow> nat list" where
  "node_refs c = map snd (m_nodes c)"

definition slot_ok :: "int \<Rightarrow> bool" where
  "slot_ok slot \<longleftrightarrow> 0 \<le> slot \<and> slot < int kClusterSlotCount"

definition set_slot_type :: "nat \<Rightarrow> SlotType \<Rightarrow> ClusterManager \<Rightarrow> ClusterManager" where
  "set_slot_type s t c = c\<lparr>m_slot_states := (m_slot_states c)(s := (m_slot_states c s)\<lparr>stype := t\<rparr>)\<rparr>"

definition dirty :: "ClusterManager \<Rightarrow> ClusterManager" where
  "dirty c = c\<lparr>m_slot_owner_dirty := True\<rparr>"

subsection \<open>Construction and lookup\<close>

definition init :: "string \<Rightarrow> int64 \<Rightarrow> string \<Rightarrow> string \<Rightarrow> int \<Rightarrow> int \<Rightarrow> string \<Rightarrow> int \<Rightarrow> ClusterManager \<Rightarrow> ClusterManager" where
  "init generated now my_id bind_ip prt cport announce_ip announce_port c =
     (let aip = (if announce_ip = [] then bind_ip else announce_ip);
          aport = (if announce_port > 0 then announce_port else prt);
          me = (if my_id = [] then generated else my_id);
          node = setFlag Master (setFlag Myself (new_node\<lparr>node_id := me, ip := aip, port := aport,
                   cluster_port := cport\<rparr>))\<lparr>pong_received := now\<rparr>;
          (a, c) = make_shared node (c\<lparr>m_enabled := True, m_bind_ip := bind_ip, m_port := prt,
                     m_cluster_port := cport, m_announce_ip := aip, m_announce_port := aport,
                     m_my_node_id := me\<rparr>)
      in dirty (c\<lparr>m_myself := Some a, m_nodes := AList.update me a (m_nodes c)\<rparr>))"

definition setMyselfFromConfig :: "nat option \<Rightarrow> ClusterManager \<Rightarrow> ClusterManager" where
  "setMyselfFromConfig myself_node c =
     (case myself_node of
        None \<Rightarrow> c
      | Some a \<Rightarrow>
          let n = obj c a
          in dirty (c\<lparr>m_my_node_id := node_id n, m_myself := Some a,
                      m_nodes := AList.update (node_id n) a (m_nodes c),
                      m_announce_ip := (if ip n = [] then m_bind_ip c else ip n),
                      m_announce_port := (if port n > 0 then port n else m_port c)\<rparr>))"

definition isMySlot :: "int \<Rightarrow> ClusterManager \<Rightarrow> bool" where
  "isMySlot slot c \<longleftrightarrow> slot_ok slot \<and> (case m_myself c of None \<Rightarrow> False | Some a \<Rightarrow> nat slot \<in> slots (obj c a))"

definition isImportingSlot :: "int \<Rightarrow> ClusterManager \<Rightarrow> bool" where
  "isImportingSlot slot c \<longleftrightarrow> slot_ok slot \<and> stype (m_slot_states c (nat slot)) = Importing"

definition isMigratingSlot :: "int \<Rightarrow> ClusterManager \<Rightarrow> bool" where
  "isMigratingSlot slot c \<longleftrightarrow> slot_ok slot \<and> stype (m_slot_states c (nat slot)) = Migrating"

definition getNode :: "string \<Rightarrow> ClusterManager \<Rightarrow> nat option" where
  "getNode nid c = find_node c nid"

definition getMyself :: "ClusterManager \<Rightarrow> nat option" where
  "getMyself c = m_myself c"

definition addNode :: "nat option \<Rightarrow> ClusterManager \<Rightarrow> ClusterManager" where
  "addNode node c =
     (case node of
        None \<Rightarrow> c
      | Some a \<Rightarrow> dirty (c\<lparr>m_nodes := AList.update (node_id (obj c a)) a (m_nodes c)\<rparr>))"

definition removeNode :: "string \<Rightarrow> ClusterManager \<Rightarrow> ClusterManager \<times> bool" where
  "removeNode nid c =
     (if nid = m_my_node_id c then (c, False)
      else if find_node c nid = None then (c, False)
      else (dirty (c\<lparr>m_nodes := AList.delete nid (m_nodes c)\<rparr>), True))"

definition meetNode :: "string \<Rightarrow> int \<Rightarrow> ClusterManager \<Rightarrow> bool" where
  "meetNode host prt c = True"

subsection \<open>Slot assignment and replication\<close>

definition on_myself :: "(ClusterNode \<Rightarrow> ClusterNode) \<Rightarrow> ClusterManager \<Rightarrow> ClusterManager" where
  "on_myself f c = (case m_myself c of None \<Rightarrow> c | Some a \<Rightarrow> upd_obj a f c)"

definition assign_slot :: "(nat \<Rightarrow> nat set \<Rightarrow> nat set) \<Rightarrow> ClusterManager \<Rightarrow> int \<Rightarrow> ClusterManager" where
  "assign_slot f c slot =
     (if slot_ok slot
      then set_slot_type (nat slot) Normal (on_myself (\<lambda>n. n\<lparr>slots := f (nat slot) (slots n)\<rparr>) c)
      else c)"

definition addSlots :: "int list \<Rightarrow> ClusterManager \<Rightarrow> ClusterManager" where
  "addSlots ss c = (if m_myself c = None then c else dirty (foldl (assign_slot insert) c ss))"

definition delSlots :: "int list \<Rightarrow> ClusterManager \<Rightarrow> ClusterManager" where
  "delSlots ss c = (if m_myself c = None then c else dirty (foldl (assign_slot (\<lambda>s S. S - {s})) c ss))"

definition setReplication :: "string \<Rightarrow> ClusterManager \<Rightarrow> ClusterManager" where
  "setReplication mid c =
     (if m_myself c = None then c
      else dirty (on_myself (\<lambda>n. (setFlag Slave (clearFlag Master (n\<lparr>master_id := mid\<rparr>)))\<lparr>slots := {}\<rparr>) c))"

definition myself_isSlave :: "ClusterManager \<Rightarrow> bool" where
  "myself_isSlave c = (case m_myself c of None \<Rightarrow> False | Some a \<Rightarrow> hasFlag Slave (obj c a))"

definition getMasterId :: "ClusterManager \<Rightarrow> string" where
  "getMasterId c = (case m_myself c of None \<Rightarrow> [] | Some a \<Rightarrow> master_id (obj c a))"

definition node_addr :: "ClusterNode \<Rightarrow> string" where
  "node_addr n = ip n @ '':'' @ to_string (port n)"

definition getMasterNode :: "ClusterManager \<Rightarrow> nat option" where
  "getMasterNode c =
     (case m_myself c of
        None \<Rightarrow> None
      | Some a \<Rightarrow> if master_id (obj c a) = [] then None else find_node c (master_id (obj c a)))"

definition getMasterAddr :: "ClusterManager \<Rightarrow> string" where
  "getMasterAddr c =
     (case m_myself c of
        None \<Rightarrow> []
      | Some a \<Rightarrow>
          if master_id (obj c a) = [] then []
          else case find_node c (master_id (obj c a)) of None \<Rightarrow> [] | Some m \<Rightarrow> node_addr (obj c m))"

subsection \<open>Failure marks\<close>

definition on_node :: "string \<Rightarrow> (ClusterNode \<Rightarrow> ClusterNode) \<Rightarrow> ClusterManager \<Rightarrow> ClusterManager" where
  "on_node nid f c = (case find_node c nid of None \<Rightarrow> c | Some a \<Rightarrow> upd_obj a f c)"

definition updateNodePingSent :: "string \<Rightarrow> int64 \<Rightarrow> ClusterManager \<Rightarrow> ClusterManager" where
  "updateNodePingSent nid now = on_node nid (\<lambda>n. n\<lparr>ping_sent := now\<rparr>)"

definition updateNodePongReceived :: "string \<Rightarrow> int64 \<Rightarrow> ClusterManager \<Rightarrow> ClusterManager" where
  "updateNodePongReceived nid now = on_node nid (\<lambda>n. clearFlag PFail (n\<lparr>pong_received := now\<rparr>))"

definition markNodePFail :: "string \<Rightarrow> ClusterManager \<Rightarrow> ClusterManager" where
  "markNodePFail nid = on_node nid (\<lambda>n. if hasFlag Myself n then n else setFlag PFail n)"

definition markNodeFail :: "string \<Rightarrow> ClusterManager \<Rightarrow> ClusterManager" where
  "markNodeFail nid = on_node nid (\<lambda>n. if hasFlag Myself n then n else clearFlag PFail (setFlag Fail n))"

definition clearNodeFail :: "string \<Rightarrow> ClusterManager \<Rightarrow> ClusterManager" where
  "clearNodeFail nid = on_node nid (\<lambda>n. clearFlag PFail (clearFlag Fail n))"

definition isNodeFailed :: "string \<Rightarrow> ClusterManager \<Rightarrow> bool" where
  "isNodeFailed nid c = (case find_node c nid of None \<Rightarrow> False | Some a \<Rightarrow> hasFlag Fail (obj c a))"

definition isNodePFail :: "string \<Rightarrow> ClusterManager \<Rightarrow> bool" where
  "isNodePFail nid c = (case find_node c nid of None \<Rightarrow> False | Some a \<Rightarrow> hasFlag PFail (obj c a))"

definition is_replica_of :: "ClusterManager \<Rightarrow> string \<Rightarrow> nat \<Rightarrow> bool" where
  "is_replica_of c mid a \<longleftrightarrow> hasFlag Slave (obj c a) \<and> master_id (obj c a) = mid"

definition getReplicas :: "string \<Rightarrow> ClusterManager \<Rightarrow> nat list" where
  "getReplicas mid c = filter (is_replica_of c mid) (node_refs c)"

subsection \<open>Failover\<close>

definition promote :: "nat \<Rightarrow> nat \<Rightarrow> ClusterManager \<Rightarrow> ClusterManager" where
  "promote r m c =
     (let c = upd_obj r (\<lambda>n. (setFlag Master (clearFlag Slave n))\<lparr>master_id := []\<rparr>) c;
          c = upd_obj r (\<lambda>n. n\<lparr>slots := slots (obj c m)\<rparr>) c;
          c = upd_obj r (\<lambda>n. n\<lparr>config_epoch := max (config_epoch n) (config_epoch (obj c m)) + 1\<rparr>) c
      in if hasFlag Myself (obj c r)
         then on_myself (\<lambda>n. (setFlag Master (clearFlag Slave n))\<lparr>master_id := [], slots := slots (obj c m),
                config_epoch := config_epoch (obj c r)\<rparr>) c
         else c)"

definition repoint :: "string \<Rightarrow> string \<Rightarrow> ClusterManager \<Rightarrow> nat \<Rightarrow> ClusterManager" where
  "repoint old_id new_id c a = (if is_replica_of c old_id a then upd_obj a (\<lambda>n. n\<lparr>master_id := new_id\<rparr>) c else c)"

definition raise_epoch :: "uint64 \<Rightarrow> ClusterManager \<Rightarrow> ClusterManager" where
  "raise_epoch e c = c\<lparr>m_config_epoch := (if e > m_config_epoch c then e else m_config_epoch c + 1)\<rparr>"

definition failoverReplica :: "string \<Rightarrow> ClusterManager \<Rightarrow> ClusterManager \<times> bool" where
  "failoverReplica rid c =
     (case find_node c rid of
        None \<Rightarrow> (c, False)
      | Some r \<Rightarrow>
          if \<not> hasFlag Slave (obj c r) then (c, False)
          else let old_id = master_id (obj c r)
               in if old_id = [] then (c, False)
                  else case find_node c old_id of
                    None \<Rightarrow> (c, False)
                  | Some m \<Rightarrow>
                      let c = promote r m c;
                          c = foldl (repoint old_id rid) c (node_refs c);
                          c = upd_obj m (\<lambda>n. (clearFlag PFail (setFlag Fail n))\<lparr>slots := {}\<rparr>) c
                      in (raise_epoch (config_epoch (obj c r)) (dirty c), True))"

definition myAddr :: "ClusterManager \<Rightarrow> string" where
  "myAddr c = m_bind_ip c @ '':'' @ to_string (m_port c)"

definition getAliveMasters :: "ClusterManager \<Rightarrow> nat list" where
  "getAliveMasters c =
     filter (\<lambda>a. hasFlag Master (obj c a) \<and> \<not> hasFlag Fail (obj c a) \<and> \<not> hasFlag PFail (obj c a)) (node_refs c)"

subsection \<open>Failure detection\<close>

definition getMasterCount :: "ClusterManager \<Rightarrow> nat" where
  "getMasterCount c = length (filter (\<lambda>a. hasFlag Master (obj c a) \<and> \<not> hasFlag Fail (obj c a)) (node_refs c))"

definition add_report :: "string \<Rightarrow> string \<Rightarrow> ClusterManager \<Rightarrow> ClusterManager" where
  "add_report failed reporter c =
     c\<lparr>m_failure_reports := AList.update failed
         (uset_insert reporter (umap_get [] failed (m_failure_reports c))) (m_failure_reports c)\<rparr>"

definition report_count :: "string \<Rightarrow> ClusterManager \<Rightarrow> nat" where
  "report_count failed c = (case map_of (m_failure_reports c) failed of None \<Rightarrow> 0 | Some s \<Rightarrow> length s)"

definition detect_pfail :: "int64 \<Rightarrow> int64 \<Rightarrow> nat \<Rightarrow> ClusterManager \<Rightarrow> ClusterManager" where
  "detect_pfail now timeout a c =
     (if pong_received (obj c a) > 0 \<and> i64 (now - pong_received (obj c a)) > timeout
         \<and> \<not> hasFlag PFail (obj c a)
      then let c = upd_obj a (setFlag PFail) c
           in (case m_myself c of
                 None \<Rightarrow> c
               | Some me \<Rightarrow> add_report (node_id (obj c a)) (node_id (obj c me)) c)
      else c)"

definition detect_fail :: "nat \<Rightarrow> nat \<Rightarrow> ClusterManager \<Rightarrow> ClusterManager" where
  "detect_fail quorum a c =
     (if hasFlag PFail (obj c a) \<and> report_count (node_id (obj c a)) c \<ge> quorum
      then upd_obj a (\<lambda>n. clearFlag PFail (setFlag Fail n)) c
      else c)"

definition detect_node :: "int64 \<Rightarrow> int64 \<Rightarrow> nat \<Rightarrow> ClusterManager \<Rightarrow> nat \<Rightarrow> ClusterManager" where
  "detect_node now timeout quorum c a =
     (if hasFlag Myself (obj c a) then c
      else if hasFlag Fail (obj c a) then c
      else detect_fail quorum a (detect_pfail now timeout a c))"

definition checkFailureDetection :: "int64 \<Rightarrow> int64 \<Rightarrow> ClusterManager \<Rightarrow> ClusterManager" where
  "checkFailureDetection now timeout c =
     foldl (detect_node now timeout (getMasterCount c div 2 + 1)) c (node_refs c)"

definition addFailureReport :: "string \<Rightarrow> string \<Rightarrow> ClusterManager \<Rightarrow> ClusterManager" where
  "addFailureReport failed reporter c = (if failed = reporter then c else add_report failed reporter c)"

definition clearFailureReport :: "string \<Rightarrow> string \<Rightarrow> ClusterManager \<Rightarrow> ClusterManager" where
  "clearFailureReport failed reporter c =
     (case map_of (m_failure_reports c) failed of
        None \<Rightarrow> c
      | Some s \<Rightarrow>
          let s' = removeAll reporter s
          in c\<lparr>m_failure_reports := (if s' = [] then AList.delete failed (m_failure_reports c)
                                   else AList.update failed s' (m_failure_reports c))\<rparr>)"

definition hasQuorumFailureReports :: "string \<Rightarrow> ClusterManager \<Rightarrow> bool" where
  "hasQuorumFailureReports failed c =
     (case map_of (m_failure_reports c) failed of
        None \<Rightarrow> False
      | Some s \<Rightarrow> length s \<ge> getMasterCount c div 2 + 1)"

subsection \<open>Configuration epochs\<close>

definition getConfigEpoch :: "ClusterManager \<Rightarrow> uint64" where
  "getConfigEpoch c = m_config_epoch c"

definition bumpConfigEpoch :: "ClusterManager \<Rightarrow> ClusterManager" where
  "bumpConfigEpoch c =
     (let max_epoch = foldl (\<lambda>e a. if config_epoch (obj c a) > e then config_epoch (obj c a) else e)
                        (m_config_epoch c) (node_refs c)
      in c\<lparr>m_config_epoch := max (max_epoch + 1) (m_config_epoch c + 1)\<rparr>)"

text \<open>The first other node of the table, replicas skipped, that has the slot.\<close>

definition current_owner :: "string \<Rightarrow> nat \<Rightarrow> ClusterManager \<Rightarrow> string" where
  "current_owner nid s c =
     (case find (\<lambda>a. \<not> hasFlag Slave (obj c a) \<and> node_id (obj c a) \<noteq> nid \<and> s \<in> slots (obj c a)) (node_refs c) of
        None \<Rightarrow> []
      | Some a \<Rightarrow> node_id (obj c a))"

definition set_slot :: "nat \<Rightarrow> nat \<Rightarrow> ClusterManager \<Rightarrow> ClusterManager" where
  "set_slot s a = upd_obj a (\<lambda>n. n\<lparr>slots := insert s (slots n)\<rparr>)"

definition reset_slot :: "nat \<Rightarrow> nat \<Rightarrow> ClusterManager \<Rightarrow> ClusterManager" where
  "reset_slot s a = upd_obj a (\<lambda>n. n\<lparr>slots := slots n - {s}\<rparr>)"

definition claim_slot :: "string \<Rightarrow> uint64 \<Rightarrow> nat \<Rightarrow> ClusterManager \<Rightarrow> int \<Rightarrow> ClusterManager" where
  "claim_slot nid epoch target c slot =
     (if \<not> slot_ok slot then c
      else let s = nat slot; owner = current_owner nid s c
           in if owner = [] then set_slot s target c
              else let owner_it = find_node c owner;
                       owner_epoch = (case owner_it of None \<Rightarrow> 0 | Some a \<Rightarrow> config_epoch (obj c a));
                       take_over = (if epoch > owner_epoch then True
                                    else if epoch = owner_epoch then nid > owner else False)
                   in if take_over
                      then set_slot s target (case owner_it of None \<Rightarrow> c | Some a \<Rightarrow> reset_slot s a c)
                      else c)"

definition updateNodeSlots :: "string \<Rightarrow> int list \<Rightarrow> uint64 \<Rightarrow> ClusterManager \<Rightarrow> ClusterManager" where
  "updateNodeSlots nid ss epoch c =
     (case find_node c nid of
        None \<Rightarrow> c
      | Some target \<Rightarrow>
          if hasFlag Slave (obj c target) then c
          else if epoch < config_epoch (obj c target) then c
          else let c = upd_obj target (\<lambda>n. n\<lparr>config_epoch := max (config_epoch n) epoch, slots := {}\<rparr>) c
               in dirty (foldl (claim_slot nid epoch target) c ss))"

subsection \<open>Settings and eligibility\<close>

definition setRequireFullCoverage :: "bool \<Rightarrow> ClusterManager \<Rightarrow> ClusterManager" where
  "setRequireFullCoverage v c = c\<lparr>m_require_full_coverage := v\<rparr>"

definition setSlaveValidityFactor :: "int \<Rightarrow> ClusterManager \<Rightarrow> ClusterManager" where
  "setSlaveValidityFactor v c = c\<lparr>m_slave_validity_factor := v\<rparr>"

definition setMigrationBarrier :: "int \<Rightarrow> ClusterManager \<Rightarrow> ClusterManager" where
  "setMigrationBarrier v c = c\<lparr>m_migration_barrier := v\<rparr>"

definition slaveIsValidForFailover :: "string \<Rightarrow> int64 \<Rightarrow> int64 \<Rightarrow> ClusterManager \<Rightarrow> bool" where
  "slaveIsValidForFailover rid now timeout c =
     (case find_node c rid of
        None \<Rightarrow> False
      | Some r \<Rightarrow>
          if \<not> hasFlag Slave (obj c r) then False
          else if m_slave_validity_factor c = 0 then True
          else if master_id (obj c r) = [] then False
          else case find_node c (master_id (obj c r)) of
                 None \<Rightarrow> False
               | Some m \<Rightarrow> i64 (now - pong_received (obj c m)) \<le> i64 (timeout * m_slave_validity_factor c))"

definition canDonateReplica :: "string \<Rightarrow> ClusterManager \<Rightarrow> bool" where
  "canDonateReplica mid c =
     (case find_node c mid of
        None \<Rightarrow> False
      | Some m \<Rightarrow>
          hasFlag Master (obj c m) \<and>
          int (length (filter (is_replica_of c mid) (node_refs c))) \<ge> m_migration_barrier c)"

text \<open>
  \<open>reset\<close> re-registers \<open>m_myself\<close> after clearing the table. On a manager that was never initialised
  it stores a null pointer there, which every later loop dereferences: no resulting state.
\<close>

definition reset :: "string \<Rightarrow> bool \<Rightarrow> ClusterManager \<Rightarrow> ClusterManager option" where
  "reset generated hard c =
     (let c = c\<lparr>m_slot_states := \<lambda>_. normal_slot\<rparr>;
          c = (if hard
               then on_myself (\<lambda>n. n\<lparr>node_id := generated\<rparr>) (c\<lparr>m_my_node_id := generated\<rparr>)
               else c);
          c = on_myself (\<lambda>n. (clearFlag Slave (setFlag Master (n\<lparr>slots := {}\<rparr>)))\<lparr>master_id := [], config_epoch := 0\<rparr>) c
      in case m_myself c of
           None \<Rightarrow> None
         | Some a \<Rightarrow> Some (dirty (c\<lparr>m_nodes := [(m_my_node_id c, a)], m_config_epoch := 0\<rparr>)))"

definition findNodeByAddr :: "string \<Rightarrow> int \<Rightarrow> ClusterManager \<Rightarrow> nat option" where
  "findNodeByAddr host prt c = find (\<lambda>a. ip (obj c a) = host \<and> port (obj c a) = prt) (node_refs c)"

text \<open>\<open>None\<close>: \<open>std::stoi\<close> throws on the port.\<close>

definition findNodeByClientAddr :: "string \<Rightarrow> ClusterManager \<Rightarrow> nat option option" where
  "findNodeByClientAddr addr c =
     (case find_from (CHR '':'') addr 0 of
        None \<Rightarrow> Some None
      | Some colon \<Rightarrow>
          (case stoi (drop (colon + 1) addr) of
             None \<Rightarrow> None
           | Some prt \<Rightarrow> Some (findNodeByAddr (take colon addr) prt c)))"

subsection \<open>The slot table\<close>

definition owner_pass :: "ClusterManager \<Rightarrow> (nat \<Rightarrow> string) \<Rightarrow> nat \<Rightarrow> (nat \<Rightarrow> string)" where
  "owner_pass c owner a =
     (if hasFlag Slave (obj c a) then owner
      else (\<lambda>i. if i < kClusterSlotCount \<and> i \<in> slots (obj c a) then node_id (obj c a) else owner i))"

definition rebuildSlotOwner :: "ClusterManager \<Rightarrow> ClusterManager" where
  "rebuildSlotOwner c =
     c\<lparr>m_slot_owner := foldl (owner_pass c) (\<lambda>_. []) (node_refs c), m_slot_owner_dirty := False\<rparr>"

definition getSlotOwner :: "int \<Rightarrow> ClusterManager \<Rightarrow> ClusterManager \<times> string" where
  "getSlotOwner slot c =
     (if \<not> slot_ok slot then (c, [])
      else let c = (if m_slot_owner_dirty c then rebuildSlotOwner c else c);
               owner_id = m_slot_owner c (nat slot)
           in if owner_id = [] then (c, [])
              else case find_node c owner_id of
                     None \<Rightarrow> (c, [])
                   | Some a \<Rightarrow> (c, node_addr (obj c a)))"

definition getImportingSource :: "int \<Rightarrow> ClusterManager \<Rightarrow> string" where
  "getImportingSource slot c =
     (if \<not> slot_ok slot then []
      else if stype (m_slot_states c (nat slot)) \<noteq> Importing then []
      else let src_id = target_node_id (m_slot_states c (nat slot))
           in if src_id = [] then []
              else case find_node c src_id of None \<Rightarrow> [] | Some a \<Rightarrow> node_addr (obj c a))"

definition slot_list :: "ClusterNode \<Rightarrow> nat list" where
  "slot_list n = filter (\<lambda>i. i \<in> slots n) [0..<kClusterSlotCount]"

text \<open>The loop that merges consecutive slots, shared by the three reports and by \<open>nodes.conf\<close>.\<close>

fun range_loop :: "nat \<Rightarrow> nat \<Rightarrow> nat list \<Rightarrow> (nat \<times> nat) list" where
  "range_loop start prev [] = [(start, prev)]"
| "range_loop start prev (s # ss) =
     (if s \<noteq> prev + 1 then (start, prev) # range_loop s s ss else range_loop start s ss)"

definition slot_ranges :: "nat list \<Rightarrow> (nat \<times> nat) list" where
  "slot_ranges ss = (case ss of [] \<Rightarrow> [] | s # rest \<Rightarrow> range_loop s s rest)"

definition range_text :: "nat \<times> nat \<Rightarrow> string" where
  "range_text r = (case r of (start, prev) \<Rightarrow>
     if start = prev then dec_nat start @ '' '' else dec_nat start @ ''-'' @ dec_nat prev @ '' '')"

fun join_commas :: "string list \<Rightarrow> string" where
  "join_commas [] = []"
| "join_commas [x] = x"
| "join_commas (x # xs) = x @ '','' @ join_commas xs"

definition flag_names :: "uint16 \<Rightarrow> string list" where
  "flag_names fl =
     (let out = (if fl AND flag_bit Myself \<noteq> 0 then [''myself''] else [])
              @ (if fl AND flag_bit Master \<noteq> 0 then [''master''] else [])
              @ (if fl AND flag_bit Slave \<noteq> 0 then [''slave''] else [])
              @ (if fl AND flag_bit Fail \<noteq> 0 then [''fail''] else [])
              @ (if fl AND flag_bit PFail \<noteq> 0 then [''fail?''] else [])
      in if out = [] then [''noflags''] else out)"

definition node_address_text :: "ClusterNode \<Rightarrow> string" where
  "node_address_text n = ip n @ '':'' @ to_string (port n) @ ''@'' @ to_string (cluster_port n)"

definition master_text :: "ClusterNode \<Rightarrow> string" where
  "master_text n = (if hasFlag Slave n \<and> master_id n \<noteq> [] then master_id n else ''-'')"

definition slots_text :: "ClusterNode \<Rightarrow> string" where
  "slots_text n = (if hasFlag Master n then concat (map range_text (slot_ranges (slot_list n))) else [])"

definition node_line :: "ClusterNode \<Rightarrow> string" where
  "node_line n =
     node_id n @ '' '' @ node_address_text n @ '' '' @ join_commas (flag_names (flags n)) @ '' ''
     @ master_text n @ '' '' @ ''0 0 0 connected '' @ slots_text n @ [CHR 0x0A]"

definition buildNodesString :: "ClusterManager \<Rightarrow> string" where
  "buildNodesString c = concat (map (\<lambda>a. node_line (obj c a)) (node_refs c))"

definition resp_array :: "RespValue list \<Rightarrow> RespValue" where
  "resp_array xs = RespValue Array [] 0 xs False"

definition node_info :: "ClusterNode \<Rightarrow> RespValue" where
  "node_info n = resp_array [bulk (ip n), resp_integer (port n), bulk (node_id n)]"

definition range_reply :: "ClusterManager \<Rightarrow> nat \<Rightarrow> nat \<times> nat \<Rightarrow> RespValue" where
  "range_reply c a r =
     resp_array [resp_integer (int (fst r)), resp_integer (int (snd r)), node_info (obj c a),
       resp_array (map (\<lambda>b. node_info (obj c b)) (filter (is_replica_of c (node_id (obj c a))) (node_refs c)))]"

definition buildSlotsArray :: "ClusterManager \<Rightarrow> RespValue" where
  "buildSlotsArray c =
     resp_array (concat (map (\<lambda>a. map (range_reply c a) (slot_ranges (slot_list (obj c a))))
                          (filter (\<lambda>a. \<not> hasFlag Slave (obj c a)) (node_refs c))))"

definition buildInfo :: "ClusterManager \<Rightarrow> RespValue" where
  "buildInfo c =
     (let master_count = length (filter (\<lambda>a. hasFlag Master (obj c a)) (node_refs c));
          assigned = (case m_myself c of None \<Rightarrow> 0 | Some a \<Rightarrow> length (slot_list (obj c a)));
          pair = (\<lambda>k v. [bulk k, bulk v])
      in resp_array (concat
           [pair ''cluster_state'' (if assigned = kClusterSlotCount then ''ok'' else ''fail''),
            pair ''cluster_slots_assigned'' (dec_nat assigned),
            pair ''cluster_slots_ok'' (dec_nat assigned),
            pair ''cluster_slots_pfail'' ''0'',
            pair ''cluster_slots_fail'' ''0'',
            pair ''cluster_known_nodes'' (dec_nat (length (m_nodes c))),
            pair ''cluster_size'' (dec_nat master_count),
            pair ''cluster_current_epoch'' ''0'',
            pair ''cluster_my_epoch'' ''0'',
            pair ''cluster_stats_messages_sent'' ''0'',
            pair ''cluster_stats_messages_received'' ''0'']))"

subsection \<open>Slot migration\<close>

definition has_my_slot :: "nat \<Rightarrow> ClusterManager \<Rightarrow> bool" where
  "has_my_slot s c = (case m_myself c of None \<Rightarrow> False | Some a \<Rightarrow> s \<in> slots (obj c a))"

definition put_slot_state :: "nat \<Rightarrow> SlotState \<Rightarrow> ClusterManager \<Rightarrow> ClusterManager" where
  "put_slot_state s st c = c\<lparr>m_slot_states := (m_slot_states c)(s := st)\<rparr>"

definition setSlotMigrating :: "int \<Rightarrow> string \<Rightarrow> ClusterManager \<Rightarrow> ClusterManager \<times> bool" where
  "setSlotMigrating slot target c =
     (if \<not> slot_ok slot then (c, False)
      else if \<not> has_my_slot (nat slot) c then (c, False)
      else (put_slot_state (nat slot) \<lparr>stype = Migrating, target_node_id = target\<rparr> c, True))"

definition setSlotImporting :: "int \<Rightarrow> string \<Rightarrow> ClusterManager \<Rightarrow> ClusterManager \<times> bool" where
  "setSlotImporting slot source c =
     (if \<not> slot_ok slot then (c, False)
      else if m_myself c = None \<or> has_my_slot (nat slot) c then (c, False)
      else (put_slot_state (nat slot) \<lparr>stype = Importing, target_node_id = source\<rparr> c, True))"

definition setSlotStable :: "int \<Rightarrow> ClusterManager \<Rightarrow> ClusterManager \<times> bool" where
  "setSlotStable slot c =
     (if \<not> slot_ok slot then (c, False) else (put_slot_state (nat slot) normal_slot c, True))"

definition finishMigration :: "int \<Rightarrow> ClusterManager \<Rightarrow> ClusterManager \<times> bool" where
  "finishMigration slot c =
     (if \<not> slot_ok slot then (c, False)
      else let s = nat slot; target_id = target_node_id (m_slot_states c s)
           in if stype (m_slot_states c s) \<noteq> Migrating then (c, False)
              else if target_id = [] then (c, False)
              else let c = on_myself (\<lambda>n. n\<lparr>slots := slots n - {s}\<rparr>) c;
                       c = (case find_node c target_id of None \<Rightarrow> c | Some a \<Rightarrow> set_slot s a c)
                   in (dirty (put_slot_state s normal_slot c), True))"

definition strip_slot :: "string \<Rightarrow> nat \<Rightarrow> ClusterManager \<Rightarrow> nat \<Rightarrow> ClusterManager" where
  "strip_slot nid s c a =
     (if hasFlag Slave (obj c a) then c
      else if node_id (obj c a) = nid then c
      else reset_slot s a c)"

definition setSlotOwner :: "int \<Rightarrow> string \<Rightarrow> uint64 \<Rightarrow> ClusterManager \<Rightarrow> ClusterManager \<times> bool" where
  "setSlotOwner slot nid epoch c =
     (if \<not> slot_ok slot then (c, False)
      else case find_node c nid of
        None \<Rightarrow> (c, False)
      | Some target \<Rightarrow>
          if hasFlag Slave (obj c target) then (c, False)
          else let s = nat slot;
                   c = foldl (strip_slot nid s) c (node_refs c);
                   c = dirty (put_slot_state s normal_slot (set_slot s target c))
               in (raise_epoch epoch c, True))"

definition getNodeSlots :: "string \<Rightarrow> ClusterManager \<Rightarrow> nat list" where
  "getNodeSlots nid c = (case find_node c nid of None \<Rightarrow> [] | Some a \<Rightarrow> slot_list (obj c a))"

definition myNodeId :: "ClusterManager \<Rightarrow> string" where
  "myNodeId c = m_my_node_id c"

definition getAllNodes :: "ClusterManager \<Rightarrow> nat list" where
  "getAllNodes c = node_refs c"

end
