(* ===== verification/ClusterInv.thy ===== *)
theory ClusterInv
  imports Cluster
begin

text \<open>
  The invariants of the cluster state and the theorems about its operations: the type invariant of
  the node table, the coherence of the cached slot table, the single ownership of slots, and the
  abstract ownership map that the arbitration of slot claims, the failover and the assignment of a
  slot refine.
\<close>

subsection \<open>Flags\<close>

fun flag_index :: "ClusterNodeFlag \<Rightarrow> nat" where
  "flag_index Master = 0"
| "flag_index Slave = 1"
| "flag_index Myself = 2"
| "flag_index PFail = 3"
| "flag_index Fail = 4"
| "flag_index NoAddr = 5"

lemma flag_bit_exp: "flag_bit f = 2 ^ flag_index f"
  by (cases f) simp_all

lemma flag_index_inj: "flag_index f = flag_index g \<longleftrightarrow> f = g"
  by (cases f; cases g) simp_all

lemma flag_index_less: "flag_index f < 16"
  by (cases f) simp_all

lemma flag_bit_iff: "x AND flag_bit f \<noteq> 0 \<longleftrightarrow> bit x (flag_index f)"
  by (simp add: flag_bit_exp and_exp_eq_0_iff_not_bit)

lemma hasFlag_bit: "hasFlag f n \<longleftrightarrow> bit (flags n) (flag_index f)"
  by (simp add: hasFlag_def flag_bit_iff)

lemma hasFlag_setFlag [simp]: "hasFlag f (setFlag g n) \<longleftrightarrow> f = g \<or> hasFlag f n"
  using flag_index_less[of f]
  by (auto simp: hasFlag_bit setFlag_def flag_bit_exp bit_or_iff bit_exp_iff flag_index_inj)

lemma hasFlag_clearFlag [simp]: "hasFlag f (clearFlag g n) \<longleftrightarrow> f \<noteq> g \<and> hasFlag f n"
  using flag_index_less[of f]
  by (auto simp: hasFlag_bit clearFlag_def flag_bit_exp bit_and_iff bit_not_iff bit_exp_iff flag_index_inj)

lemma flag_frame [simp]:
  "node_id (setFlag f n) = node_id n" "node_id (clearFlag f n) = node_id n"
  "ip (setFlag f n) = ip n" "ip (clearFlag f n) = ip n"
  "port (setFlag f n) = port n" "port (clearFlag f n) = port n"
  "master_id (setFlag f n) = master_id n" "master_id (clearFlag f n) = master_id n"
  "slots (setFlag f n) = slots n" "slots (clearFlag f n) = slots n"
  "config_epoch (setFlag f n) = config_epoch n" "config_epoch (clearFlag f n) = config_epoch n"
  "pong_received (setFlag f n) = pong_received n" "pong_received (clearFlag f n) = pong_received n"
  by (simp_all add: setFlag_def clearFlag_def)

lemma hasFlag_update [simp]:
  "hasFlag f (n\<lparr>node_id := i\<rparr>) = hasFlag f n" "hasFlag f (n\<lparr>master_id := i\<rparr>) = hasFlag f n"
  "hasFlag f (n\<lparr>slots := S\<rparr>) = hasFlag f n" "hasFlag f (n\<lparr>config_epoch := e\<rparr>) = hasFlag f n"
  "hasFlag f (n\<lparr>ping_sent := t\<rparr>) = hasFlag f n" "hasFlag f (n\<lparr>pong_received := t\<rparr>) = hasFlag f n"
  "hasFlag f (n\<lparr>ip := i\<rparr>) = hasFlag f n" "hasFlag f (n\<lparr>port := p\<rparr>) = hasFlag f n"
  "hasFlag f (n\<lparr>cluster_port := p\<rparr>) = hasFlag f n"
  by (simp_all add: hasFlag_def)

subsection \<open>The node table\<close>

definition wf_cluster :: "ClusterManager \<Rightarrow> bool" where
  "wf_cluster c \<longleftrightarrow>
     distinct (map fst (m_nodes c)) \<and>
     (\<forall>(k, a) \<in> set (m_nodes c). a < length (objects c) \<and> node_id (obj c a) = k) \<and>
     (\<forall>a. m_myself c = Some a \<longrightarrow> a < length (objects c)) \<and>
     (\<forall>n \<in> set (objects c). slots n \<subseteq> {..<kClusterSlotCount})"

lemma length_upd_obj [simp]: "length (objects (upd_obj a f c)) = length (objects c)"
  by (simp add: upd_obj_def)

lemma upd_obj_frame [simp]:
  "m_nodes (upd_obj a f c) = m_nodes c" "m_myself (upd_obj a f c) = m_myself c"
  "m_my_node_id (upd_obj a f c) = m_my_node_id c" "m_config_epoch (upd_obj a f c) = m_config_epoch c"
  "m_failure_reports (upd_obj a f c) = m_failure_reports c" "m_slot_states (upd_obj a f c) = m_slot_states c"
  "m_slot_owner (upd_obj a f c) = m_slot_owner c" "m_slot_owner_dirty (upd_obj a f c) = m_slot_owner_dirty c"
  "m_enabled (upd_obj a f c) = m_enabled c"
  "find_node (upd_obj a f c) = find_node c" "node_refs (upd_obj a f c) = node_refs c"
  by (auto simp: upd_obj_def find_node_def node_refs_def)

lemma obj_upd_obj: "a < length (objects c) \<Longrightarrow> obj (upd_obj a f c) b = (if a = b then f (obj c a) else obj c b)"
  by (simp add: obj_def upd_obj_def)

lemma wf_refs:
  assumes "wf_cluster c"
  shows "a \<in> set (node_refs c) \<Longrightarrow> a < length (objects c)"
    and "a \<in> set (node_refs c) \<longleftrightarrow> find_node c (node_id (obj c a)) = Some a"
    and "find_node c i = Some a \<Longrightarrow> a < length (objects c) \<and> node_id (obj c a) = i \<and> a \<in> set (node_refs c)"
    and "m_myself c = Some a \<Longrightarrow> a < length (objects c)"
    and "distinct (node_refs c)"
proof -
  have d: "distinct (map fst (m_nodes c))"
    and n: "\<And>k a. (k, a) \<in> set (m_nodes c) \<Longrightarrow> a < length (objects c) \<and> node_id (obj c a) = k"
    using assms by (auto simp: wf_cluster_def)
  show "a \<in> set (node_refs c) \<Longrightarrow> a < length (objects c)" using n by (auto simp: node_refs_def)
  show "find_node c i = Some a \<Longrightarrow> a < length (objects c) \<and> node_id (obj c a) = i \<and> a \<in> set (node_refs c)"
    using n by (force simp: find_node_def node_refs_def dest: map_of_SomeD)
  show "a \<in> set (node_refs c) \<longleftrightarrow> find_node c (node_id (obj c a)) = Some a"
  proof
    assume "a \<in> set (node_refs c)"
    then obtain k where "(k, a) \<in> set (m_nodes c)" by (auto simp: node_refs_def)
    with n[OF this] d show "find_node c (node_id (obj c a)) = Some a" by (simp add: find_node_def)
  qed (force simp: find_node_def node_refs_def dest: map_of_SomeD)
  show "m_myself c = Some a \<Longrightarrow> a < length (objects c)" using assms by (simp add: wf_cluster_def)
  have "map fst (m_nodes c) = map (\<lambda>a. node_id (obj c a)) (node_refs c)"
    using n by (auto simp: node_refs_def)
  then show "distinct (node_refs c)" using d by (metis distinct_map)
qed

lemma wf_slots: "wf_cluster c \<Longrightarrow> a < length (objects c) \<Longrightarrow> slots (obj c a) \<subseteq> {..<kClusterSlotCount}"
  by (simp add: wf_cluster_def obj_def)

lemma wf_upd_obj:
  assumes "wf_cluster c" "node_id (f (obj c a)) = node_id (obj c a)" "a < length (objects c)"
    "slots (f (obj c a)) \<subseteq> {..<kClusterSlotCount}"
  shows "wf_cluster (upd_obj a f c)"
  using assms
  by (auto simp: wf_cluster_def obj_upd_obj)
     (auto simp: upd_obj_def obj_def dest!: set_update_subset_insert[THEN subsetD])

lemma wf_frame:
  assumes "wf_cluster c" "m_nodes c' = m_nodes c" "objects c' = objects c" "m_myself c' = m_myself c"
  shows "wf_cluster c'"
  using assms by (simp add: wf_cluster_def obj_def)

subsection \<open>Who owns a slot\<close>

definition holds :: "ClusterManager \<Rightarrow> nat \<Rightarrow> nat \<Rightarrow> bool" where
  "holds c s a \<longleftrightarrow> \<not> hasFlag Slave (obj c a) \<and> s \<in> slots (obj c a)"

definition owner_of :: "ClusterManager \<Rightarrow> nat \<Rightarrow> string option" where
  "owner_of c s = map_option (\<lambda>a. node_id (obj c a)) (find (holds c s) (node_refs c))"

definition single_owner :: "ClusterManager \<Rightarrow> bool" where
  "single_owner c \<longleftrightarrow>
     (\<forall>s. \<forall>a \<in> set (node_refs c). \<forall>b \<in> set (node_refs c). holds c s a \<longrightarrow> holds c s b \<longrightarrow> a = b)"

definition epoch_of :: "ClusterManager \<Rightarrow> string \<Rightarrow> uint64" where
  "epoch_of c i = (case find_node c i of None \<Rightarrow> 0 | Some a \<Rightarrow> config_epoch (obj c a))"

text \<open>What only depends on the table and the objects.\<close>

lemma same_table:
  assumes "m_nodes c' = m_nodes c" "objects c' = objects c"
  shows "obj c' = obj c" "find_node c' = find_node c" "node_refs c' = node_refs c" "holds c' = holds c"
    "owner_of c' = owner_of c" "single_owner c' = single_owner c" "epoch_of c' = epoch_of c"
    "getMasterCount c' = getMasterCount c"
proof -
  show *: "obj c' = obj c" "find_node c' = find_node c" "node_refs c' = node_refs c"
    using assms by (auto simp: obj_def find_node_def node_refs_def fun_eq_iff)
  then show h: "holds c' = holds c" by (simp add: holds_def fun_eq_iff)
  with * show "owner_of c' = owner_of c" "single_owner c' = single_owner c" "epoch_of c' = epoch_of c"
    "getMasterCount c' = getMasterCount c"
    by (simp_all add: owner_of_def[abs_def] single_owner_def epoch_of_def[abs_def] getMasterCount_def cong: option.case_cong)
qed

lemma dirty_frame [simp]:
  "m_nodes (dirty c) = m_nodes c" "objects (dirty c) = objects c" "m_myself (dirty c) = m_myself c"
  "m_my_node_id (dirty c) = m_my_node_id c" "m_slot_owner_dirty (dirty c)"
  "m_config_epoch (dirty c) = m_config_epoch c" "m_failure_reports (dirty c) = m_failure_reports c"
  "m_slot_states (dirty c) = m_slot_states c"
  by (simp_all add: dirty_def)

lemma raise_epoch_frame [simp]:
  "m_nodes (raise_epoch e c) = m_nodes c" "objects (raise_epoch e c) = objects c"
  "m_myself (raise_epoch e c) = m_myself c" "m_my_node_id (raise_epoch e c) = m_my_node_id c"
  "m_slot_owner_dirty (raise_epoch e c) = m_slot_owner_dirty c" "m_slot_owner (raise_epoch e c) = m_slot_owner c"
  by (simp_all add: raise_epoch_def)

lemma slot_state_frame [simp]:
  "m_nodes (put_slot_state s st c) = m_nodes c" "objects (put_slot_state s st c) = objects c"
  "m_myself (put_slot_state s st c) = m_myself c" "m_my_node_id (put_slot_state s st c) = m_my_node_id c"
  "m_slot_owner_dirty (put_slot_state s st c) = m_slot_owner_dirty c"
  "m_slot_owner (put_slot_state s st c) = m_slot_owner c"
  "m_nodes (set_slot_type s ty c) = m_nodes c" "objects (set_slot_type s ty c) = objects c"
  "m_myself (set_slot_type s ty c) = m_myself c" "m_my_node_id (set_slot_type s ty c) = m_my_node_id c"
  by (simp_all add: put_slot_state_def set_slot_type_def)

lemma report_frame [simp]:
  "m_nodes (add_report i r c) = m_nodes c" "objects (add_report i r c) = objects c"
  "m_myself (add_report i r c) = m_myself c" "m_my_node_id (add_report i r c) = m_my_node_id c"
  "m_slot_owner_dirty (add_report i r c) = m_slot_owner_dirty c" "m_slot_owner (add_report i r c) = m_slot_owner c"
  by (simp_all add: add_report_def)

lemmas dirty_table [simp] = same_table[of "dirty c" c for c, OF dirty_frame(1,2)]
lemmas raise_epoch_table [simp] = same_table[of "raise_epoch e c" c for e c, OF raise_epoch_frame(1,2)]
lemmas put_slot_state_table [simp] = same_table[of "put_slot_state s st c" c for s st c, OF slot_state_frame(1,2)]
lemmas set_slot_type_table [simp] = same_table[of "set_slot_type s ty c" c for s ty c, OF slot_state_frame(7,8)]
lemmas add_report_table [simp] = same_table[of "add_report i r c" c for i r c, OF report_frame(1,2)]

lemma wf_same_table [simp]:
  "wf_cluster (dirty c) = wf_cluster c" "wf_cluster (raise_epoch e c) = wf_cluster c"
  "wf_cluster (put_slot_state s st c) = wf_cluster c" "wf_cluster (set_slot_type s ty c) = wf_cluster c"
  "wf_cluster (add_report i r c) = wf_cluster c"
  by (simp_all add: wf_cluster_def)

lemma owner_of_None: "owner_of c s = None \<longleftrightarrow> (\<forall>a \<in> set (node_refs c). \<not> holds c s a)"
  by (auto simp: owner_of_def find_None_iff)

lemma owner_of_Some:
  assumes "wf_cluster c" "single_owner c"
  shows "owner_of c s = Some i \<longleftrightarrow> (\<exists>a. find_node c i = Some a \<and> holds c s a)"
proof
  assume "owner_of c s = Some i"
  then obtain a where f: "find (holds c s) (node_refs c) = Some a" "i = node_id (obj c a)"
    by (auto simp: owner_of_def)
  then have "a \<in> set (node_refs c)" "holds c s a" by (auto simp: find_Some_iff)
  with f wf_refs(2)[OF assms(1)] show "\<exists>a. find_node c i = Some a \<and> holds c s a" by auto
next
  assume "\<exists>a. find_node c i = Some a \<and> holds c s a"
  then obtain a where a: "find_node c i = Some a" "holds c s a" by auto
  note w = wf_refs(3)[OF assms(1) a(1)]
  have "find (holds c s) (node_refs c) \<noteq> None" using a(2) w by (auto simp: find_None_iff)
  then obtain b where b: "find (holds c s) (node_refs c) = Some b" by auto
  then have "b \<in> set (node_refs c)" "holds c s b" by (auto simp: find_Some_iff)
  with a(2) w assms(2) have "b = a" unfolding single_owner_def by blast
  with b w show "owner_of c s = Some i" by (simp add: owner_of_def)
qed

text \<open>A change that leaves one holder of a slot and does not touch the others.\<close>

lemma owner_of_moved:
  assumes "wf_cluster c" "wf_cluster c'" "single_owner c" "node_refs c' = node_refs c"
    and id: "\<And>b. b \<in> set (node_refs c) \<Longrightarrow> node_id (obj c' b) = node_id (obj c b)"
    and rest: "\<And>b t. b \<in> set (node_refs c) \<Longrightarrow> t \<noteq> s \<Longrightarrow> holds c' t b = holds c t b"
    and here: "\<And>b. b \<in> set (node_refs c) \<Longrightarrow> holds c' s b \<longleftrightarrow> b = a"
    and a: "a \<in> set (node_refs c)"
  shows "single_owner c'" "owner_of c' = (owner_of c)(s := Some (node_id (obj c a)))"
proof -
  show single: "single_owner c'"
    using assms(3) here rest by (auto simp: single_owner_def assms(4)) metis
  show "owner_of c' = (owner_of c)(s := Some (node_id (obj c a)))"
  proof
    fix t
    show "owner_of c' t = ((owner_of c)(s := Some (node_id (obj c a)))) t"
    proof (cases "t = s")
      case True
      have "find_node c' (node_id (obj c a)) = Some a"
        using wf_refs(2)[OF assms(2)] a id[OF a] by (simp add: assms(4))
      then show ?thesis using owner_of_Some[OF assms(2) single] here[OF a] True by auto
    next
      case False
      have "find (holds c' t) (node_refs c) = find (holds c t) (node_refs c)"
        by (rule find_cong) (simp_all add: rest False)
      moreover have "find (holds c t) (node_refs c) = Some b \<Longrightarrow> b \<in> set (node_refs c)" for b
        by (auto simp: find_Some_iff)
      ultimately show ?thesis
        using False id by (cases "find (holds c t) (node_refs c)") (auto simp: owner_of_def assms(4))
    qed
  qed
qed

subsection \<open>Arbitration of slot claims\<close>

text \<open>Two states that differ at most in the slots of the nodes.\<close>

definition slots_only :: "ClusterManager \<Rightarrow> ClusterManager \<Rightarrow> bool" where
  "slots_only c c' \<longleftrightarrow>
     m_nodes c' = m_nodes c \<and> m_myself c' = m_myself c \<and> length (objects c') = length (objects c) \<and>
     (\<forall>b < length (objects c). \<exists>S. obj c' b = (obj c b)\<lparr>slots := S\<rparr>)"

lemma slots_only_refl [simp]: "slots_only c c"
proof -
  have "obj c b = (obj c b)\<lparr>slots := slots (obj c b)\<rparr>" for b by simp
  then show ?thesis unfolding slots_only_def by metis
qed

lemma slots_only_trans:
  assumes "slots_only c c'" "slots_only c' c''"
  shows "slots_only c c''"
proof -
  have "\<exists>S. obj c'' b = (obj c b)\<lparr>slots := S\<rparr>" if b: "b < length (objects c)" for b
  proof -
    from assms(1) b obtain S where s: "obj c' b = (obj c b)\<lparr>slots := S\<rparr>" by (auto simp: slots_only_def)
    from assms b obtain S' where "obj c'' b = (obj c' b)\<lparr>slots := S'\<rparr>" by (auto simp: slots_only_def)
    with s show ?thesis by auto
  qed
  with assms show ?thesis by (auto simp: slots_only_def)
qed

lemma slots_only_upd: "a < length (objects c) \<Longrightarrow> slots_only c (upd_obj a (\<lambda>n. n\<lparr>slots := F n\<rparr>) c)"
proof -
  assume a: "a < length (objects c)"
  have "\<exists>S. obj (upd_obj a (\<lambda>n. n\<lparr>slots := F n\<rparr>) c) b = (obj c b)\<lparr>slots := S\<rparr>" for b
    using a by (cases "a = b") (auto simp: obj_upd_obj intro: exI[of _ "slots (obj c b)"])
  then show ?thesis by (simp add: slots_only_def)
qed

lemma slots_only_node:
  assumes "slots_only c c'" "b < length (objects c)"
  shows "node_id (obj c' b) = node_id (obj c b)" "hasFlag f (obj c' b) = hasFlag f (obj c b)"
    "config_epoch (obj c' b) = config_epoch (obj c b)"
  using assms by (auto simp: slots_only_def)

lemma slots_only_table:
  assumes "slots_only c c'"
  shows "find_node c' = find_node c" "node_refs c' = node_refs c"
  using assms by (auto simp: slots_only_def find_node_def node_refs_def)

lemma slots_only_epoch_of:
  assumes "slots_only c c'" "wf_cluster c"
  shows "epoch_of c' = epoch_of c"
  using assms wf_refs(3)[OF assms(2)]
  by (auto simp: fun_eq_iff epoch_of_def slots_only_table slots_only_node split: option.split)

definition wins :: "string \<Rightarrow> uint64 \<Rightarrow> (string \<Rightarrow> uint64) \<Rightarrow> string option \<Rightarrow> bool" where
  "wins nid epoch ep own \<longleftrightarrow>
     (case own of None \<Rightarrow> True | Some i \<Rightarrow> i = nid \<or> epoch > ep i \<or> (epoch = ep i \<and> nid > i))"

definition arbitrate :: "string \<Rightarrow> uint64 \<Rightarrow> (string \<Rightarrow> uint64) \<Rightarrow> nat set \<Rightarrow> (nat \<Rightarrow> string option) \<Rightarrow> nat \<Rightarrow> string option" where
  "arbitrate nid epoch ep claimed own s =
     (if s \<in> claimed \<and> wins nid epoch ep (own s) then Some nid
      else if own s = Some nid then None
      else own s)"

lemma wf_set_slot: "wf_cluster c \<Longrightarrow> a < length (objects c) \<Longrightarrow> s < kClusterSlotCount \<Longrightarrow> wf_cluster (set_slot s a c)"
  unfolding set_slot_def by (rule wf_upd_obj) (use wf_slots in auto)

lemma wf_reset_slot: "wf_cluster c \<Longrightarrow> a < length (objects c) \<Longrightarrow> wf_cluster (reset_slot s a c)"
  unfolding reset_slot_def by (rule wf_upd_obj) (use wf_slots in auto)

lemma holds_set_slot:
  "a < length (objects c) \<Longrightarrow> holds (set_slot s a c) t b \<longleftrightarrow> holds c t b \<or> (a = b \<and> s = t \<and> \<not> hasFlag Slave (obj c b))"
  by (auto simp: set_slot_def holds_def obj_upd_obj)

lemma holds_reset_slot:
  "a < length (objects c) \<Longrightarrow> holds (reset_slot s a c) t b \<longleftrightarrow> holds c t b \<and> \<not> (a = b \<and> s = t)"
  by (auto simp: reset_slot_def holds_def obj_upd_obj)

lemma current_owner_eq:
  assumes "wf_cluster c" "single_owner c"
  shows "current_owner nid s c =
    (case owner_of c s of None \<Rightarrow> [] | Some i \<Rightarrow> if i = nid then [] else i)"
proof -
  let ?P = "\<lambda>a. \<not> hasFlag Slave (obj c a) \<and> node_id (obj c a) \<noteq> nid \<and> s \<in> slots (obj c a)"
  show ?thesis
  proof (cases "find ?P (node_refs c)")
    case None
    then have "\<And>a. a \<in> set (node_refs c) \<Longrightarrow> holds c s a \<Longrightarrow> node_id (obj c a) = nid"
      by (auto simp: find_None_iff holds_def)
    then have "owner_of c s = None \<or> owner_of c s = Some nid"
      by (cases "find (holds c s) (node_refs c)") (auto simp: owner_of_def find_Some_iff)
    with None show ?thesis by (auto simp: current_owner_def)
  next
    case (Some a)
    then have a: "a \<in> set (node_refs c)" "holds c s a" "node_id (obj c a) \<noteq> nid"
      by (auto simp: find_Some_iff holds_def)
    with wf_refs(2)[OF assms(1)] have "owner_of c s = Some (node_id (obj c a))"
      using owner_of_Some[OF assms(1,2)] by blast
    with Some a(3) show ?thesis by (simp add: current_owner_def)
  qed
qed

text \<open>One claim of the loop refines one update of the ownership map.\<close>

lemma claim_slot_refines:
  fixes epoch :: uint64
  assumes wf: "wf_cluster c" and so: "single_owner c" and ids: "[] \<notin> fst ` set (m_nodes c)"
    and t: "find_node c nid = Some target" "\<not> hasFlag Slave (obj c target)" and ok: "slot_ok slot"
  defines "c' \<equiv> claim_slot nid epoch target c slot" and "s \<equiv> nat slot"
  shows "wf_cluster c' \<and> single_owner c' \<and> slots_only c c' \<and>
    owner_of c' = (if wins nid epoch (epoch_of c) (owner_of c s) then (owner_of c)(s := Some nid) else owner_of c)"
proof -
  note w = wf_refs(3)[OF wf t(1)]
  have s: "s < kClusterSlotCount" using ok by (auto simp: slot_ok_def s_def)
  have iff: "owner_of c s = Some i \<longleftrightarrow> (\<exists>a. find_node c i = Some a \<and> holds c s a)" for i
    by (rule owner_of_Some[OF wf so])
  have ne: "find_node c i = Some a \<Longrightarrow> i \<noteq> []" for i a
    using ids by (force simp: find_node_def dest: map_of_SomeD)
  have other: "holds c s b \<Longrightarrow> b \<in> set (node_refs c) \<Longrightarrow> owner_of c s = Some (node_id (obj c b))" for b
    using iff wf_refs(2)[OF wf] by blast
  consider (free) "owner_of c s = None \<or> owner_of c s = Some nid"
    | (taken) i a where "owner_of c s = Some i" "i \<noteq> nid" "i \<noteq> []" "find_node c i = Some a" "holds c s a"
    using iff ne by (metis option.exhaust)
  then show ?thesis
  proof cases
    case free
    then have c': "c' = set_slot s target c"
      by (auto simp: c'_def claim_slot_def ok s_def[symmetric] Let_def current_owner_eq[OF wf so])
    have here: "holds c' s b \<longleftrightarrow> b = target" if b: "b \<in> set (node_refs c)" for b
    proof -
      have "holds c s b \<Longrightarrow> b = target"
        using other[of b] b free t(1) wf_refs(2)[OF wf, of b] by auto
      with w t(2) show ?thesis by (auto simp: c' holds_set_slot)
    qed
    have "slots_only c c'" using w by (simp add: c' set_slot_def slots_only_upd)
    moreover have wf': "wf_cluster c'" using wf w s by (simp add: c' wf_set_slot)
    moreover have "wins nid epoch (epoch_of c) (owner_of c s)" using free by (auto simp: wins_def)
    ultimately show ?thesis
      using owner_of_moved[OF wf wf' so, of s target] here w slots_only_node[OF \<open>slots_only c c'\<close>]
        slots_only_table[OF \<open>slots_only c c'\<close>] wf_refs(1)[OF wf]
      by (simp add: c' holds_set_slot)
  next
    case taken
    note wa = wf_refs(3)[OF wf taken(4)]
    have win: "wins nid epoch (epoch_of c) (owner_of c s) \<longleftrightarrow>
        epoch > config_epoch (obj c a) \<or> (epoch = config_epoch (obj c a) \<and> nid > i)"
      using taken by (simp add: wins_def epoch_of_def)
    have c': "c' = (if wins nid epoch (epoch_of c) (owner_of c s) then set_slot s target (reset_slot s a c) else c)"
      unfolding win c'_def using taken
      by (simp add: claim_slot_def ok s_def[symmetric] Let_def current_owner_eq[OF wf so] split: if_splits)
    show ?thesis
    proof (cases "wins nid epoch (epoch_of c) (owner_of c s)")
      case False
      then show ?thesis using wf so by (simp add: c')
    next
      case True
      have at: "a \<noteq> target" using taken(2) wa w by auto
      have sl: "slots_only c (reset_slot s a c)" using wa by (simp add: reset_slot_def slots_only_upd)
      have "slots_only (reset_slot s a c) c'"
        using True w by (simp add: c' set_slot_def slots_only_upd) (simp add: reset_slot_def slots_only_upd)
      with sl have so': "slots_only c c'" by (rule slots_only_trans)
      have len: "target < length (objects (reset_slot s a c))" using w by (simp add: reset_slot_def)
      have wf': "wf_cluster c'" using True wf wa w s len by (simp add: c' wf_set_slot wf_reset_slot)
      have flag: "hasFlag Slave (obj (reset_slot s a c) b) = hasFlag Slave (obj c b)" for b
        using wa by (auto simp: reset_slot_def obj_upd_obj)
      have here: "holds c' s b \<longleftrightarrow> b = target" if b: "b \<in> set (node_refs c)" for b
      proof -
        have "holds c s b \<Longrightarrow> b = a"
          using other[OF _ b] taken(1,4) wf_refs(2)[OF wf, of b] b by auto
        with wa at t(2) True len show ?thesis by (auto simp: c' holds_set_slot holds_reset_slot flag)
      qed
      have rest: "holds c' t' b = holds c t' b" if "t' \<noteq> s" for t' b
        using True that wa len by (auto simp: c' holds_set_slot holds_reset_slot)
      show ?thesis
        using owner_of_moved[OF wf wf' so, of s target] here rest w wf' so' True
          slots_only_node[OF so'] slots_only_table[OF so'] wf_refs(1)[OF wf] by simp
    qed
  qed
qed

lemma claim_slots_refine:
  assumes "wf_cluster c" "single_owner c" "[] \<notin> fst ` set (m_nodes c)"
    and "find_node c nid = Some target" "\<not> hasFlag Slave (obj c target)"
  shows "wf_cluster (foldl (claim_slot nid epoch target) c ss) \<and>
    single_owner (foldl (claim_slot nid epoch target) c ss) \<and>
    slots_only c (foldl (claim_slot nid epoch target) c ss) \<and>
    owner_of (foldl (claim_slot nid epoch target) c ss) =
      (\<lambda>s. if s < kClusterSlotCount \<and> int s \<in> set ss \<and> wins nid epoch (epoch_of c) (owner_of c s)
           then Some nid else owner_of c s)"
  using assms
proof (induction ss arbitrary: c)
  case (Cons x ss)
  let ?c = "claim_slot nid epoch target c x"
  show ?case
  proof (cases "slot_ok x")
    case False
    then have "?c = c" by (simp add: claim_slot_def)
    moreover have "int s = x \<Longrightarrow> \<not> s < kClusterSlotCount" for s using False by (auto simp: slot_ok_def)
    ultimately show ?thesis using Cons.IH[OF Cons.prems] by (auto simp: fun_eq_iff)
  next
    case True
    have r: "wf_cluster ?c" "single_owner ?c" "slots_only c ?c"
      "owner_of ?c = (if wins nid epoch (epoch_of c) (owner_of c (nat x)) then (owner_of c)(nat x := Some nid) else owner_of c)"
      using claim_slot_refines[OF Cons.prems True] by blast+
    have len: "target < length (objects c)" using wf_refs(3)[OF Cons.prems(1,4)] by simp
    have p: "[] \<notin> fst ` set (m_nodes ?c)" "find_node ?c nid = Some target" "\<not> hasFlag Slave (obj ?c target)"
      using Cons.prems(3-5) r(3) slots_only_table(1)[OF r(3)] slots_only_node(2)[OF r(3) len, of Slave]
      by (auto simp: slots_only_def)
    have ep: "epoch_of ?c = epoch_of c" by (rule slots_only_epoch_of[OF r(3) Cons.prems(1)])
    have x: "int s = x \<longleftrightarrow> s = nat x" for s using True by (auto simp: slot_ok_def)
    have xb: "nat x < kClusterSlotCount" using True by (auto simp: slot_ok_def)
    have "wins nid epoch (epoch_of c) (Some nid)" by (simp add: wins_def)
    then show ?thesis
      using Cons.IH[OF r(1,2) p] slots_only_trans[OF r(3)] xb
      by (auto simp: fun_eq_iff r(4) ep x)
  qed
qed simp

lemma claim_slot_frame:
  assumes "wf_cluster c" "target < length (objects c)"
  shows "slots_only c (claim_slot nid epoch target c slot) \<and> wf_cluster (claim_slot nid epoch target c slot)"
proof (cases "slot_ok slot")
  case True
  then have s: "nat slot < kClusterSlotCount" by (auto simp: slot_ok_def)
  have give: "slots_only c (set_slot (nat slot) target d) \<and> wf_cluster (set_slot (nat slot) target d)"
    if "slots_only c d" "wf_cluster d" for d
  proof -
    have t: "target < length (objects d)" using that(1) assms(2) by (simp add: slots_only_def)
    then have "slots_only d (set_slot (nat slot) target d)" by (simp add: set_slot_def slots_only_upd)
    then show ?thesis using slots_only_trans[OF that(1)] wf_set_slot[OF that(2) t s] by blast
  qed
  have strip: "slots_only c (reset_slot (nat slot) a c) \<and> wf_cluster (reset_slot (nat slot) a c)"
    if "find_node c i = Some a" for i a
    using wf_refs(3)[OF assms(1) that] assms(1)
    by (simp add: wf_reset_slot) (simp add: reset_slot_def slots_only_upd)
  show ?thesis
    using True assms(1) give[OF slots_only_refl assms(1)] strip give
    by (auto simp: claim_slot_def Let_def split: option.split)
qed (simp add: claim_slot_def assms(1))

lemma claim_slots_frame:
  assumes "wf_cluster c" "target < length (objects c)"
  shows "slots_only c (foldl (claim_slot nid epoch target) c ss) \<and> wf_cluster (foldl (claim_slot nid epoch target) c ss)"
  using assms
proof (induction ss arbitrary: c)
  case (Cons x ss)
  note f = claim_slot_frame[OF Cons.prems, of nid epoch x]
  then have "target < length (objects (claim_slot nid epoch target c x))"
    using Cons.prems(2) by (simp add: slots_only_def)
  with Cons.IH[of "claim_slot nid epoch target c x"] f slots_only_trans show ?case by auto
qed simp

text \<open>What \<open>updateNodeSlots\<close> leaves alone, whatever the state of the ownership.\<close>

lemma updateNodeSlots_frame:
  assumes "wf_cluster c"
  shows "wf_cluster (updateNodeSlots nid ss e c) \<and> m_nodes (updateNodeSlots nid ss e c) = m_nodes c \<and>
    m_myself (updateNodeSlots nid ss e c) = m_myself c \<and>
    length (objects (updateNodeSlots nid ss e c)) = length (objects c) \<and>
    (\<forall>b < length (objects c). \<exists>S. obj (updateNodeSlots nid ss e c) b =
       (obj c b)\<lparr>slots := S, config_epoch := (if find_node c nid = Some b \<and> \<not> hasFlag Slave (obj c b)
          then max (config_epoch (obj c b)) e else config_epoch (obj c b))\<rparr>)"
proof -
  have id: "\<exists>S. obj c b = (obj c b)\<lparr>slots := S, config_epoch := config_epoch (obj c b)\<rparr>" for b
    by (rule exI[of _ "slots (obj c b)"]) simp
  show ?thesis
  proof (cases "find_node c nid")
    case None
    then show ?thesis using assms id by (simp add: updateNodeSlots_def)
  next
    case (Some t)
    note w = wf_refs(3)[OF assms Some]
    let ?d = "upd_obj t (\<lambda>n. n\<lparr>config_epoch := max (config_epoch n) e, slots := {}\<rparr>) c"
    consider "hasFlag Slave (obj c t)" | "\<not> hasFlag Slave (obj c t)" "e < config_epoch (obj c t)"
      | "\<not> hasFlag Slave (obj c t)" "config_epoch (obj c t) \<le> e" by force
    then show ?thesis
    proof cases
      case 1
      then show ?thesis using assms id Some by (auto simp: updateNodeSlots_def)
    next
      case 2
      then have "max (config_epoch (obj c t)) e = config_epoch (obj c t)" by simp
      with 2 show ?thesis using assms id Some by (auto simp: updateNodeSlots_def)
    next
      case 3
      have wd: "wf_cluster ?d" "t < length (objects ?d)" using assms w by (auto intro!: wf_upd_obj)
      note f = claim_slots_frame[OF wd, of nid e ss]
      have u: "updateNodeSlots nid ss e c = dirty (foldl (claim_slot nid e t) ?d ss)"
        using 3 Some by (simp add: updateNodeSlots_def Let_def leD)
      have "\<exists>S. obj (foldl (claim_slot nid e t) ?d ss) b =
          (obj c b)\<lparr>slots := S, config_epoch := (if find_node c nid = Some b \<and> \<not> hasFlag Slave (obj c b)
            then max (config_epoch (obj c b)) e else config_epoch (obj c b))\<rparr>" if b: "b < length (objects c)" for b
      proof -
        from f b obtain S where S: "obj (foldl (claim_slot nid e t) ?d ss) b = (obj ?d b)\<lparr>slots := S\<rparr>"
          by (auto simp: slots_only_def)
        show ?thesis using S w 3 Some by (intro exI[of _ S]) (auto simp: obj_upd_obj)
      qed
      with f show ?thesis by (auto simp: u slots_only_def)
    qed
  qed
qed

lemma option_eqI: "(\<And>i. x = Some i \<longleftrightarrow> y = Some i) \<Longrightarrow> x = y"
  by (cases x; cases y) auto

text \<open>Taking the slots of the claiming node away before its claims are weighed.\<close>

lemma release_slots:
  fixes e :: uint64
  assumes wf: "wf_cluster c" and so: "single_owner c" and t: "find_node c nid = Some target"
  defines "c' \<equiv> upd_obj target (\<lambda>n. n\<lparr>config_epoch := e, slots := {}\<rparr>) c"
  shows "wf_cluster c'" "single_owner c'" "owner_of c' = (\<lambda>s. if owner_of c s = Some nid then None else owner_of c s)"
    "epoch_of c' = (epoch_of c)(nid := e)"
proof -
  note w = wf_refs(3)[OF wf t]
  have h: "holds c' s b \<longleftrightarrow> holds c s b \<and> b \<noteq> target" for s b
    using w by (auto simp: c'_def holds_def obj_upd_obj)
  show wf': "wf_cluster c'" unfolding c'_def using wf w by (intro wf_upd_obj) auto
  have tab: "node_refs c' = node_refs c" "find_node c' = find_node c" by (simp_all add: c'_def)
  show so': "single_owner c'" using so by (auto simp: single_owner_def h tab)
  have "find_node c i = Some target \<Longrightarrow> i = nid" for i using wf_refs(3)[OF wf, of i target] w by simp
  moreover have "find_node c i = Some a \<Longrightarrow> holds c s a \<Longrightarrow> holds c s target \<Longrightarrow> a = target" for i s a
    using so w wf_refs(3)[OF wf, of i a] unfolding single_owner_def by blast
  ultimately have "owner_of c' s = Some i \<longleftrightarrow> (if owner_of c s = Some nid then None else owner_of c s) = Some i" for s i
    by (auto simp: owner_of_Some[OF wf' so'] owner_of_Some[OF wf so] h tab t split: if_splits)
  then show "owner_of c' = (\<lambda>s. if owner_of c s = Some nid then None else owner_of c s)"
    by (rule ext[OF option_eqI])
  have "find_node c i = Some a \<Longrightarrow> target \<noteq> a \<longleftrightarrow> i \<noteq> nid" for i a
    using t wf_refs(3)[OF wf, of i a] w by (metis option.inject)
  then show "epoch_of c' = (epoch_of c)(nid := e)"
    using w t by (auto simp: fun_eq_iff epoch_of_def tab c'_def obj_upd_obj split: option.split)
qed

text \<open>
  the arbitration of slot claims refines the abstract ownership map. For a known master whose
  message is not older than its record, \<open>updateNodeSlots\<close> leaves every slot with at most one owner and
  turns the ownership map into \<open>arbitrate\<close> of it: a claimed slot goes to the claiming node exactly
  when nobody else has it, when the claim carries a higher epoch than the owner's, or when the epochs
  are equal and the claimant's identifier is the greater one; slots no longer claimed are released,
  and every other slot keeps its owner.
\<close>

theorem updateNodeSlots_refines:
  assumes "wf_cluster c" "single_owner c" "[] \<notin> fst ` set (m_nodes c)"
    and "find_node c nid = Some target" "\<not> hasFlag Slave (obj c target)"
    and "config_epoch (obj c target) \<le> epoch"
  shows "wf_cluster (updateNodeSlots nid ss epoch c) \<and> single_owner (updateNodeSlots nid ss epoch c) \<and>
    owner_of (updateNodeSlots nid ss epoch c) =
      arbitrate nid epoch (epoch_of c) {s. s < kClusterSlotCount \<and> int s \<in> set ss} (owner_of c)"
proof (intro conjI)
  let ?c = "upd_obj target (\<lambda>n. n\<lparr>config_epoch := max (config_epoch n) epoch, slots := {}\<rparr>) c"
  let ?d = "upd_obj target (\<lambda>n. n\<lparr>config_epoch := epoch, slots := {}\<rparr>) c"
  have c0: "?c = ?d" using assms(6) by (simp add: upd_obj_def max_absorb2)
  note w = wf_refs(3)[OF assms(1,4)]
  note rel = release_slots[OF assms(1,2,4), of epoch]
  have flag: "\<not> hasFlag Slave (obj ?d target)" using assms(5) w by (simp add: obj_upd_obj)
  have tab: "[] \<notin> fst ` set (m_nodes ?d)" "find_node ?d nid = Some target" using assms(3,4) by simp_all
  note cl = claim_slots_refine[OF rel(1,2) tab flag, of epoch ss]
  have u: "updateNodeSlots nid ss epoch c = dirty (foldl (claim_slot nid epoch target) ?d ss)"
  proof -
    have "updateNodeSlots nid ss epoch c = dirty (foldl (claim_slot nid epoch target) ?c ss)"
      using assms(4-6) by (simp add: updateNodeSlots_def Let_def)
    then show ?thesis by (simp only: c0)
  qed
  show "single_owner (updateNodeSlots nid ss epoch c)" "wf_cluster (updateNodeSlots nid ss epoch c)"
    using cl by (simp_all add: u)
  have "wins nid epoch ((epoch_of c)(nid := epoch)) (if own = Some nid then None else own)
      = wins nid epoch (epoch_of c) own" for own
    by (auto simp: wins_def split: option.split)
  then show "owner_of (updateNodeSlots nid ss epoch c) =
      arbitrate nid epoch (epoch_of c) {s. s < kClusterSlotCount \<and> int s \<in> set ss} (owner_of c)"
    using cl by (auto simp: u rel(3,4) arbitrate_def fun_eq_iff)
qed

subsection \<open>Failover\<close>

lemma less_plus_one: "x \<noteq> - 1 \<Longrightarrow> x < x + 1" for x :: "'a::len word"
proof -
  assume "x \<noteq> - 1"
  then have "1 + x \<noteq> 0" by (metis add_eq_0_iff)
  then have "unat (1 + x) = Suc (unat x)" by (rule unatSuc)
  then show ?thesis by (simp add: word_less_nat_alt add.commute)
qed

text \<open>A loop over the table that updates the nodes satisfying a condition.\<close>

lemma foldl_upd_obj:
  assumes step: "\<And>c a. g c a = (if P (obj c a) then upd_obj a f c else c)"
    and "distinct as" "\<And>a. a \<in> set as \<Longrightarrow> a < length (objects c)"
  shows "obj (foldl g c as) b = (if b \<in> set as \<and> P (obj c b) then f (obj c b) else obj c b)"
    and "m_nodes (foldl g c as) = m_nodes c" and "m_myself (foldl g c as) = m_myself c"
    and "length (objects (foldl g c as)) = length (objects c)"
    and "m_config_epoch (foldl g c as) = m_config_epoch c"
    and "m_my_node_id (foldl g c as) = m_my_node_id c"
proof -
  have "obj (foldl g c as) b = (if b \<in> set as \<and> P (obj c b) then f (obj c b) else obj c b) \<and>
    m_nodes (foldl g c as) = m_nodes c \<and> m_myself (foldl g c as) = m_myself c \<and>
    length (objects (foldl g c as)) = length (objects c) \<and>
    m_config_epoch (foldl g c as) = m_config_epoch c \<and> m_my_node_id (foldl g c as) = m_my_node_id c"
    using assms(2,3)
  proof (induction as arbitrary: c)
    case (Cons a as)
    have a: "a < length (objects c)" using Cons.prems by simp
    have len: "length (objects (g c a)) = length (objects c)" by (simp add: step)
    have frame: "m_nodes (g c a) = m_nodes c" "m_myself (g c a) = m_myself c"
      "m_config_epoch (g c a) = m_config_epoch c" "m_my_node_id (g c a) = m_my_node_id c" by (simp_all add: step)
    have "obj (g c a) b' = (if b' = a \<and> P (obj c a) then f (obj c a) else obj c b')" for b'
      using a by (auto simp: step obj_upd_obj)
    with Cons.IH[of "g c a"] Cons.prems len frame show ?case by auto
  qed simp
  then show "obj (foldl g c as) b = (if b \<in> set as \<and> P (obj c b) then f (obj c b) else obj c b)"
    "m_nodes (foldl g c as) = m_nodes c" "m_myself (foldl g c as) = m_myself c"
    "length (objects (foldl g c as)) = length (objects c)"
    "m_config_epoch (foldl g c as) = m_config_epoch c" "m_my_node_id (foldl g c as) = m_my_node_id c" by blast+
qed

lemma wf_by_objects:
  assumes "wf_cluster c" "m_nodes c' = m_nodes c" "m_myself c' = m_myself c" "length (objects c') = length (objects c)"
    and "\<And>b. b < length (objects c) \<Longrightarrow> node_id (obj c' b) = node_id (obj c b) \<and> slots (obj c' b) \<subseteq> {..<kClusterSlotCount}"
  shows "wf_cluster c'"
proof -
  have "slots n \<subseteq> {..<kClusterSlotCount}" if "n \<in> set (objects c')" for n
    using that assms(4,5) by (auto simp: in_set_conv_nth obj_def)
  with assms show ?thesis by (auto simp: wf_cluster_def)
qed

lemma promote_effect:
  assumes "r < length (objects c)" "m < length (objects c)" "r \<noteq> m"
    and "hasFlag Myself (obj c r) \<Longrightarrow> m_myself c = Some r"
  defines "c' \<equiv> promote r m c"
  shows "m_nodes c' = m_nodes c" "m_myself c' = m_myself c" "length (objects c') = length (objects c)"
    "m_config_epoch c' = m_config_epoch c" "m_my_node_id c' = m_my_node_id c"
    "b \<noteq> r \<Longrightarrow> obj c' b = obj c b"
    "node_id (obj c' r) = node_id (obj c r)" "slots (obj c' r) = slots (obj c m)" "master_id (obj c' r) = []"
    "config_epoch (obj c' r) = max (config_epoch (obj c r)) (config_epoch (obj c m)) + 1"
    "\<not> hasFlag Slave (obj c' r)" "hasFlag Master (obj c' r)"
  using assms(1-4)
  by (auto simp: c'_def promote_def Let_def on_myself_def obj_upd_obj split: option.splits)

text \<open>The state after a failover, object by object.\<close>

lemma failover_effect:
  assumes wf: "wf_cluster c" and r: "find_node c rid = Some r" "hasFlag Slave (obj c r)"
    and m: "master_id (obj c r) = mid" "mid \<noteq> []" "find_node c mid = Some m" "\<not> hasFlag Slave (obj c m)"
    and me: "hasFlag Myself (obj c r) \<Longrightarrow> m_myself c = Some r"
  obtains c' where "failoverReplica rid c = (c', True)" "m_nodes c' = m_nodes c" "m_myself c' = m_myself c"
    "length (objects c') = length (objects c)" "obj c' r = obj (promote r m c) r"
    "obj c' m = (clearFlag PFail (setFlag Fail (obj c m)))\<lparr>slots := {}\<rparr>"
    "\<And>b. b \<noteq> r \<Longrightarrow> b \<noteq> m \<Longrightarrow> obj c' b =
       (if b \<in> set (node_refs c) \<and> is_replica_of c mid b then (obj c b)\<lparr>master_id := rid\<rparr> else obj c b)"
proof -
  note wr = wf_refs(3)[OF wf r(1)] and wm = wf_refs(3)[OF wf m(3)]
  have rm: "r \<noteq> m" using r(2) m(4) by auto
  define p where "p = promote r m c"
  note pe = promote_effect[OF conjunct1[OF wr] conjunct1[OF wm] rm me, folded p_def]
  have refs: "node_refs p = node_refs c" by (simp add: node_refs_def pe(1))
  define q where "q = foldl (repoint mid rid) p (node_refs p)"
  have step: "repoint mid rid d a =
      (if hasFlag Slave (obj d a) \<and> master_id (obj d a) = mid then upd_obj a (\<lambda>n. n\<lparr>master_id := rid\<rparr>) d else d)" for d a
    by (simp add: repoint_def is_replica_of_def)
  have len: "\<And>a. a \<in> set (node_refs p) \<Longrightarrow> a < length (objects p)"
    using wf_refs(1)[OF wf] by (simp add: refs pe(3))
  have dist: "distinct (node_refs p)" using wf_refs(5)[OF wf] by (simp add: refs)
  note qe = foldl_upd_obj[OF step dist len, folded q_def, unfolded refs]
  have qr: "obj q r = obj p r" using pe(11) by (simp add: qe(1))
  have qm: "obj q m = obj c m" using m(4) rm pe(6)[of m] by (simp add: qe(1))
  have ml: "m < length (objects q)" using wm by (simp add: qe(4) pe(3))
  define z where "z = upd_obj m (\<lambda>n. (clearFlag PFail (setFlag Fail n))\<lparr>slots := {}\<rparr>) q"
  have fo: "failoverReplica rid c = (raise_epoch (config_epoch (obj z r)) (dirty z), True)"
    by (simp add: failoverReplica_def r m Let_def p_def q_def z_def)
  have zr: "obj z r = obj p r" using rm ml by (simp add: z_def obj_upd_obj qr)
  show ?thesis
  proof (rule that[OF fo])
    show "obj (raise_epoch (config_epoch (obj z r)) (dirty z)) r = obj (promote r m c) r"
      by (simp add: zr p_def)
    show "obj (raise_epoch (config_epoch (obj z r)) (dirty z)) m = (clearFlag PFail (setFlag Fail (obj c m)))\<lparr>slots := {}\<rparr>"
      using ml by (simp add: z_def obj_upd_obj qm)
    fix b assume "b \<noteq> r" "b \<noteq> m"
    then show "obj (raise_epoch (config_epoch (obj z r)) (dirty z)) b =
        (if b \<in> set (node_refs c) \<and> is_replica_of c mid b then (obj c b)\<lparr>master_id := rid\<rparr> else obj c b)"
      using ml pe(6)[of b] by (simp add: z_def obj_upd_obj qe(1) is_replica_of_def)
  qed (simp_all add: z_def qe(2-4) pe(1-3))
qed

text \<open>
  C12: promoting a replica moves exactly its master's slots. On a node other than the old master: when the replica's master
  is a known master, the failover succeeds, leaves every slot with at most one owner, and in the ownership map replaces
  the old master by the replica and nothing else; the old master is marked failed and owns nothing,
  the replica is a master, and its epoch is above both (short of wrapping around). What this node itself serves
  changes only if it is the replica, which then serves what the master had. (On the old master itself the
  code does the same and the node loses its slots, where the test of the module expects it to keep them.)
\<close>

theorem failover_moves_ownership:
  assumes "wf_cluster c" "single_owner c" "find_node c rid = Some r" "hasFlag Slave (obj c r)"
    and "master_id (obj c r) = mid" "mid \<noteq> []" "find_node c mid = Some m" "\<not> hasFlag Slave (obj c m)"
    and "hasFlag Myself (obj c r) \<Longrightarrow> m_myself c = Some r"
    and "max (config_epoch (obj c r)) (config_epoch (obj c m)) \<noteq> - 1"
    and "m_myself c \<noteq> Some m"
  shows "\<exists>c'. failoverReplica rid c = (c', True) \<and> wf_cluster c' \<and> single_owner c' \<and>
    owner_of c' = (\<lambda>s. if owner_of c s = Some mid then Some rid else owner_of c s) \<and>
    hasFlag Master (obj c' r) \<and> hasFlag Fail (obj c' m) \<and> slots (obj c' m) = {} \<and>
    config_epoch (obj c' r) > config_epoch (obj c r) \<and> config_epoch (obj c' r) > config_epoch (obj c m) \<and>
    (\<forall>s. isMySlot s c' \<longleftrightarrow> (if m_myself c = Some r then slot_ok s \<and> nat s \<in> slots (obj c m) else isMySlot s c))"
proof -
  note wf = assms(1) and so = assms(2)
  note wr = wf_refs(3)[OF wf assms(3)] and wm = wf_refs(3)[OF wf assms(7)]
  have rm: "r \<noteq> m" using assms(4,8) by auto
  obtain c' where fo: "failoverReplica rid c = (c', True)" and
    tab: "m_nodes c' = m_nodes c" "m_myself c' = m_myself c" "length (objects c') = length (objects c)" and
    pr: "obj c' r = obj (promote r m c) r" and
    pm: "obj c' m = (clearFlag PFail (setFlag Fail (obj c m)))\<lparr>slots := {}\<rparr>" and
    rest: "\<And>b. b \<noteq> r \<Longrightarrow> b \<noteq> m \<Longrightarrow> obj c' b =
       (if b \<in> set (node_refs c) \<and> is_replica_of c mid b then (obj c b)\<lparr>master_id := rid\<rparr> else obj c b)"
    using failover_effect[OF wf assms(3-9)] by blast
  note pe = promote_effect[OF conjunct1[OF wr] conjunct1[OF wm] rm assms(9)]
  have r: "node_id (obj c' r) = rid" "slots (obj c' r) = slots (obj c m)" "\<not> hasFlag Slave (obj c' r)"
      "hasFlag Master (obj c' r)" and
    e: "config_epoch (obj c' r) = max (config_epoch (obj c r)) (config_epoch (obj c m)) + 1"
    using pe(7-12) wr by (simp_all add: pr)
  have m: "node_id (obj c' m) = mid" "slots (obj c' m) = {}" "hasFlag Fail (obj c' m)"
    using wm by (simp_all add: pm)
  have b: "node_id (obj c' b) = node_id (obj c b) \<and>
      slots (obj c' b) = (if b = r then slots (obj c m) else if b = m then {} else slots (obj c b))" for b
    using r m rest[of b] wr wm by (cases "b = r"; cases "b = m") auto
  have h: "holds c' s b \<longleftrightarrow> (if b = r then holds c s m else b \<noteq> m \<and> holds c s b)" for s b
    using r(3) assms(8) m(2) rest[of b] b[of b] by (cases "b = r"; cases "b = m") (auto simp: holds_def r(2))
  have wf': "wf_cluster c'"
    by (rule wf_by_objects[OF wf tab]) (use b wf_slots[OF wf] wm in auto)
  have refs: "node_refs c' = node_refs c" "find_node c' = find_node c"
    by (simp_all add: node_refs_def find_node_def fun_eq_iff tab)
  have hr: "\<not> holds c s r" for s using assms(4) by (simp add: holds_def)
  have so': "single_owner c'"
    using so wm unfolding single_owner_def refs h by (metis hr)
  have own: "owner_of c' = (\<lambda>s. if owner_of c s = Some mid then Some rid else owner_of c s)"
  proof (rule ext)
    fix s
    show "owner_of c' s = (if owner_of c s = Some mid then Some rid else owner_of c s)"
    proof (cases "holds c s m")
      case True
      then have "owner_of c s = Some mid" using owner_of_Some[OF wf so] assms(7) by blast
      moreover have "owner_of c' s = Some rid"
        using owner_of_Some[OF wf' so'] assms(3) True h[of s r] unfolding refs by metis
      ultimately show ?thesis by simp
    next
      case False
      then have "owner_of c s \<noteq> Some mid" using owner_of_Some[OF wf so] assms(7) by auto
      moreover have "holds c' s a = holds c s a" for a using False h[of s a] hr[of s] by auto
      then have "owner_of c' s = owner_of c s"
        by (intro option_eqI) (simp add: owner_of_Some[OF wf' so'] owner_of_Some[OF wf so] refs)
      ultimately show ?thesis by simp
    qed
  qed
  have "max (config_epoch (obj c r)) (config_epoch (obj c m)) < config_epoch (obj c' r)"
    using assms(10) unfolding e by (rule less_plus_one)
  moreover have "isMySlot s c' \<longleftrightarrow> (if m_myself c = Some r then slot_ok s \<and> nat s \<in> slots (obj c m) else isMySlot s c)" for s
    using b assms(11) by (auto simp: isMySlot_def tab(2) split: option.split)
  ultimately show ?thesis using fo wf' so' own r(4) m(2,3) by auto
qed

subsection \<open>Assigning one slot\<close>

text \<open>
  C16: \<open>CLUSTER SETSLOT slot NODE id\<close> gives the slot to that node alone. For a known master the operation
  succeeds, changes the ownership map at that slot only, keeps every slot with at most one owner, and
  returns the slot to the stable state.
\<close>

theorem setSlotOwner_moves_slot:
  assumes "wf_cluster c" "single_owner c" "slot_ok slot"
    and "find_node c nid = Some target" "\<not> hasFlag Slave (obj c target)"
  shows "\<exists>c'. setSlotOwner slot nid epoch c = (c', True) \<and> wf_cluster c' \<and> single_owner c' \<and>
    owner_of c' = (owner_of c)(nat slot := Some nid) \<and> m_slot_states c' (nat slot) = normal_slot"
proof -
  note wf = assms(1)
  note w = wf_refs(3)[OF wf assms(4)]
  have s: "nat slot < kClusterSlotCount" using assms(3) by (auto simp: slot_ok_def)
  define q where "q = foldl (strip_slot nid (nat slot)) c (node_refs c)"
  have step: "strip_slot nid (nat slot) d a =
      (if \<not> hasFlag Slave (obj d a) \<and> node_id (obj d a) \<noteq> nid
       then upd_obj a (\<lambda>n. n\<lparr>slots := slots n - {nat slot}\<rparr>) d else d)" for d a
    by (simp add: strip_slot_def reset_slot_def)
  note qe = foldl_upd_obj[OF step wf_refs(5)[OF wf] wf_refs(1)[OF wf], folded q_def]
  have wq: "wf_cluster q"
    by (rule wf_by_objects[OF wf qe(2-4)]) (use wf_slots[OF wf] in \<open>auto simp: qe(1)\<close>)
  define z where "z = set_slot (nat slot) target q"
  have tq: "target < length (objects q)" using w by (simp add: qe(4))
  have ot: "obj q target = obj c target" using w by (simp add: qe(1))
  have wz: "wf_cluster z" using wq tq s by (simp add: z_def wf_set_slot)
  have refs: "node_refs z = node_refs c" using qe(2) by (simp add: z_def set_slot_def) (simp add: node_refs_def)
  have hq: "holds q t b \<longleftrightarrow> holds c t b \<and> \<not> (t = nat slot \<and> b \<in> set (node_refs c) \<and> node_id (obj c b) \<noteq> nid)" for t b
    by (auto simp: holds_def qe(1))
  have h: "holds z t b \<longleftrightarrow> (if t = nat slot then b = target else holds c t b)" if "b \<in> set (node_refs c)" for t b
  proof -
    have "node_id (obj c b) = nid \<longleftrightarrow> b = target"
      using wf_refs(2)[OF wf, of b] that assms(4) w by (metis option.inject)
    then show ?thesis using assms(5) that
      by (auto simp: z_def holds_set_slot[OF tq] hq ot)
  qed
  have ids: "node_id (obj z b) = node_id (obj c b)" for b
    using tq by (auto simp: z_def set_slot_def obj_upd_obj qe(1))
  have "single_owner z" "owner_of z = (owner_of c)(nat slot := Some (node_id (obj c target)))"
    using w owner_of_moved[OF wf wz assms(2) refs, of "nat slot" target] by (simp_all add: h ids)
  moreover have "setSlotOwner slot nid epoch c =
      (raise_epoch epoch (dirty (put_slot_state (nat slot) normal_slot z)), True)"
    using assms(3-5) by (simp add: setSlotOwner_def Let_def q_def z_def)
  moreover have "m_slot_states (raise_epoch epoch (dirty (put_slot_state (nat slot) normal_slot z))) (nat slot) = normal_slot"
    by (simp add: raise_epoch_def put_slot_state_def dirty_def)
  ultimately show ?thesis using wz w by simp
qed

subsection \<open>Failure detection\<close>

definition late :: "int64 \<Rightarrow> int64 \<Rightarrow> ClusterNode \<Rightarrow> bool" where
  "late now timeout n \<longleftrightarrow> pong_received n > 0 \<and> i64 (now - pong_received n) > timeout"

definition reports_of :: "ClusterManager \<Rightarrow> string \<Rightarrow> string list" where
  "reports_of c i = umap_get [] i (m_failure_reports c)"

text \<open>The verdict on one node, from its own record and its own reports.\<close>

definition judged :: "int64 \<Rightarrow> int64 \<Rightarrow> nat \<Rightarrow> string \<Rightarrow> ClusterNode \<Rightarrow> string list \<Rightarrow> ClusterNode" where
  "judged now timeout quorum me n reports =
     (if hasFlag Myself n \<or> hasFlag Fail n then n
      else let new = late now timeout n \<and> \<not> hasFlag PFail n;
               n' = (if new then setFlag PFail n else n);
               votes = (if new then uset_insert me reports else reports)
           in if hasFlag PFail n' \<and> length votes \<ge> quorum then clearFlag PFail (setFlag Fail n') else n')"

lemma report_count_reports: "report_count i c = length (reports_of c i)"
  by (simp add: report_count_def reports_of_def umap_get_def split: option.split)

lemma reports_of_upd [simp]: "reports_of (upd_obj a f c) = reports_of c"
  by (simp add: reports_of_def fun_eq_iff)

lemma reports_of_add: "reports_of (add_report i r c) j = (if j = i then uset_insert r (reports_of c i) else reports_of c j)"
  by (simp add: reports_of_def add_report_def umap_get_def)

lemma detect_node_effect:
  fixes now timeout :: int64 and quorum :: nat
  assumes "a < length (objects c)" "m_myself c = Some me" "me < length (objects c)"
  defines "d \<equiv> detect_node now timeout quorum c a"
  shows "m_nodes d = m_nodes c" "m_myself d = Some me" "length (objects d) = length (objects c)"
    "obj d b = (if b = a then judged now timeout quorum (node_id (obj c me)) (obj c a) (reports_of c (node_id (obj c a))) else obj c b)"
    "j \<noteq> node_id (obj c a) \<Longrightarrow> reports_of d j = reports_of c j"
  using assms(1-3)
  by (auto simp: d_def detect_node_def detect_fail_def detect_pfail_def judged_def Let_def late_def
      obj_upd_obj report_count_reports reports_of_add split: if_splits)

lemma node_id_judged [simp]: "node_id (judged now timeout quorum me n reports) = node_id n"
  by (simp add: judged_def Let_def)

lemma detect_nodes_effect:
  fixes now timeout :: int64 and quorum :: nat
  assumes "distinct as" "\<And>a. a \<in> set as \<Longrightarrow> a < length (objects c)" "inj_on (\<lambda>a. node_id (obj c a)) (set as)"
    and "m_myself c = Some me" "me < length (objects c)"
  defines "d \<equiv> foldl (detect_node now timeout quorum) c as"
  shows "m_nodes d = m_nodes c \<and> m_myself d = Some me \<and> length (objects d) = length (objects c) \<and>
    (\<forall>b. obj d b = (if b \<in> set as
       then judged now timeout quorum (node_id (obj c me)) (obj c b) (reports_of c (node_id (obj c b))) else obj c b))"
  unfolding d_def using assms(1-5)
proof (induction as arbitrary: c)
  case (Cons a as)
  let ?c = "detect_node now timeout quorum c a"
  have a: "a < length (objects c)" using Cons.prems by simp
  note e = detect_node_effect[OF a Cons.prems(4,5), where now = now and timeout = timeout and quorum = quorum]
  have id: "node_id (obj ?c b) = node_id (obj c b)" for b by (simp add: e(4))
  have other: "reports_of ?c (node_id (obj c b)) = reports_of c (node_id (obj c b))" if "b \<in> set as" for b
    using Cons.prems(1,3) that by (intro e(5)) (auto simp: inj_on_def)
  have "inj_on (\<lambda>b. node_id (obj ?c b)) (set as)" using Cons.prems(3) by (simp add: id)
  with Cons.IH[of ?c] Cons.prems e(1-3) id show ?case
    by (auto simp: e(4) other)
qed simp

definition wf_reports :: "ClusterManager \<Rightarrow> bool" where
  "wf_reports c \<longleftrightarrow> (\<forall>i. distinct (reports_of c i))"

text \<open>The nodes whose report stands against a node when the detector looks at it.\<close>

definition voters :: "int64 \<Rightarrow> int64 \<Rightarrow> ClusterManager \<Rightarrow> string \<Rightarrow> nat \<Rightarrow> string set" where
  "voters now timeout c me b =
     set (reports_of c (node_id (obj c b)))
     \<union> (if late now timeout (obj c b) \<and> \<not> hasFlag PFail (obj c b) then {me} else {})"

text \<open>
  What one run of the failure detector does. It marks a node that is neither this node nor already failed as failed exactly
  when it is suspected (marked before, or silent for longer than the timeout) and the reporters against it, this
  node included when it reports now, are more than half of the masters in service when the run starts; a
  suspected node short of this number stays suspected, and this node and failed nodes are untouched. The reporters
  are whoever ever reported: replicas are counted like masters, and a report is never taken back, so this is
  not a vote of a majority of the masters (see the witness, where a replica makes up half of the quorum).
\<close>

theorem failure_needs_majority:
  assumes "wf_cluster c" "wf_reports c" "m_myself c = Some me" "b \<in> set (node_refs c)"
  shows "(if hasFlag Myself (obj c b) \<or> hasFlag Fail (obj c b)
      then obj (checkFailureDetection now timeout c) b = obj c b
      else let suspected = (hasFlag PFail (obj c b) \<or> late now timeout (obj c b));
               majority = (2 * card (voters now timeout c (node_id (obj c me)) b) > getMasterCount c)
           in hasFlag Fail (obj (checkFailureDetection now timeout c) b) = (suspected \<and> majority) \<and>
              hasFlag PFail (obj (checkFailureDetection now timeout c) b) = (suspected \<and> \<not> majority))"
proof -
  note wf = assms(1)
  have me: "me < length (objects c)" by (rule wf_refs(4)[OF wf assms(3)])
  have inj: "inj_on (\<lambda>a. node_id (obj c a)) (set (node_refs c))"
    using wf_refs(2)[OF wf] by (intro inj_onI) (metis option.inject)
  have o: "obj (checkFailureDetection now timeout c) b =
      judged now timeout (getMasterCount c div 2 + 1) (node_id (obj c me)) (obj c b) (reports_of c (node_id (obj c b)))"
    unfolding checkFailureDetection_def
    using detect_nodes_effect[OF wf_refs(5)[OF wf] wf_refs(1)[OF wf] inj assms(3) me] assms(4) by simp
  let ?rs = "reports_of c (node_id (obj c b))" and ?me = "node_id (obj c me)"
  have d: "distinct ?rs" using assms(2) by (simp add: wf_reports_def)
  have len: "length (if late now timeout (obj c b) \<and> \<not> hasFlag PFail (obj c b) then uset_insert ?me ?rs else ?rs)
      = card (voters now timeout c ?me b)"
    using d distinct_card[of ?rs] distinct_card[of "uset_insert ?me ?rs"] by (auto simp: voters_def)
  have q: "n \<ge> getMasterCount c div 2 + 1 \<longleftrightarrow> 2 * n > getMasterCount c" for n by linarith
  show ?thesis
    unfolding o judged_def Let_def len q by auto
qed

subsection \<open>The cached slot table\<close>

definition cache_ok :: "ClusterManager \<Rightarrow> bool" where
  "cache_ok c \<longleftrightarrow> (\<not> m_slot_owner_dirty c \<longrightarrow> m_slot_owner c = foldl (owner_pass c) (\<lambda>_. []) (node_refs c))"

lemma owner_pass_fold:
  "foldl (owner_pass c) f as s =
     (case find (\<lambda>a. s < kClusterSlotCount \<and> holds c s a) (rev as) of None \<Rightarrow> f s | Some a \<Rightarrow> node_id (obj c a))"
  by (induction as arbitrary: f rule: rev_induct) (auto simp: owner_pass_def holds_def)

lemma cached_owner:
  assumes "wf_cluster c" "single_owner c" "s < kClusterSlotCount"
  shows "foldl (owner_pass c) (\<lambda>_. []) (node_refs c) s = (case owner_of c s of None \<Rightarrow> [] | Some i \<Rightarrow> i)"
proof (cases "find (holds c s) (rev (node_refs c))")
  case None
  then have "owner_of c s = None" by (auto simp: owner_of_None find_None_iff)
  with None assms(3) show ?thesis by (simp add: owner_pass_fold)
next
  case (Some a)
  then have "a \<in> set (node_refs c)" "holds c s a" by (auto simp: find_Some_iff rev_nth)
  then have "owner_of c s = Some (node_id (obj c a))"
    using owner_of_Some[OF assms(1,2)] wf_refs(2)[OF assms(1)] by blast
  with Some assms(3) show ?thesis by (simp add: owner_pass_fold)
qed

text \<open>
  where a request is redirected. With a coherent cache and one owner per slot, \<open>getSlotOwner\<close> answers
  the address of the slot's owner, and the empty string exactly when the slot has none (an owner's
  identifier and address are never empty), rebuilding the cache when it is stale and leaving the
  ownership untouched.
\<close>

theorem getSlotOwner_is_owner:
  assumes "wf_cluster c" "single_owner c" "cache_ok c" "slot_ok slot" "[] \<notin> fst ` set (m_nodes c)"
  shows "snd (getSlotOwner slot c) =
      (case owner_of c (nat slot) of
         None \<Rightarrow> []
       | Some i \<Rightarrow> (case find_node c i of None \<Rightarrow> [] | Some a \<Rightarrow> node_addr (obj c a))) \<and>
    (snd (getSlotOwner slot c) = [] \<longleftrightarrow> owner_of c (nat slot) = None) \<and>
    cache_ok (fst (getSlotOwner slot c)) \<and> owner_of (fst (getSlotOwner slot c)) = owner_of c"
proof -
  let ?c = "if m_slot_owner_dirty c then rebuildSlotOwner c else c"
  have s: "nat slot < kClusterSlotCount" using assms(4) by (auto simp: slot_ok_def)
  have t: "obj ?c = obj c" "find_node ?c = find_node c" "node_refs ?c = node_refs c" "owner_of ?c = owner_of c"
    using same_table[of "rebuildSlotOwner c" c] by (auto simp: rebuildSlotOwner_def)
  have p: "owner_pass ?c = owner_pass c" unfolding owner_pass_def[abs_def] t ..
  have tab: "m_slot_owner ?c = foldl (owner_pass c) (\<lambda>_. []) (node_refs c)"
    using assms(3) by (simp add: cache_ok_def rebuildSlotOwner_def)
  then have ok: "cache_ok ?c" unfolding cache_ok_def t p by simp
  have own: "m_slot_owner ?c (nat slot) = (case owner_of c (nat slot) of None \<Rightarrow> [] | Some i \<Rightarrow> i)"
    unfolding tab by (rule cached_owner[OF assms(1,2) s])
  have known: "\<exists>a. i \<noteq> [] \<and> find_node c i = Some a" if "owner_of c (nat slot) = Some i" for i
    using that owner_of_Some[OF assms(1,2)] assms(5) by (force simp: find_node_def dest: map_of_SomeD)
  have "getSlotOwner slot c = (?c,
      case owner_of c (nat slot) of
         None \<Rightarrow> []
       | Some i \<Rightarrow> (case find_node c i of None \<Rightarrow> [] | Some a \<Rightarrow> node_addr (obj c a)))"
    using assms(4) own known t(1,2)
    by (cases "owner_of c (nat slot)") (auto simp: getSlotOwner_def Let_def split: option.splits)
  moreover have "node_addr n \<noteq> []" for n by (simp add: node_addr_def)
  ultimately show ?thesis using ok t(4) known by (auto split: option.splits)
qed

subsection \<open>A fresh node and a small cluster\<close>

lemma init_new:
  "m_nodes (init g now i h p cp ai ap new_manager) = [(if i = [] then g else i, 0)]"
  "m_myself (init g now i h p cp ai ap new_manager) = Some 0"
  "m_my_node_id (init g now i h p cp ai ap new_manager) = (if i = [] then g else i)"
  "m_failure_reports (init g now i h p cp ai ap new_manager) = []"
  "m_slot_owner_dirty (init g now i h p cp ai ap new_manager)"
  "wf_cluster (init g now i h p cp ai ap new_manager)"
  "single_owner (init g now i h p cp ai ap new_manager)"
  by (simp_all add: init_def make_shared_def new_manager_def new_node_def dirty_def wf_cluster_def obj_def
      setFlag_def Let_def single_owner_def node_refs_def)

text \<open>
  A cluster of two masters and a replica, seen by the replica \<open>r\<close> of \<open>a\<close>, which suspects \<open>a\<close>: what the
  witnesses of this theory evaluate the theorems on.
\<close>

definition sample_node :: "string \<Rightarrow> uint16 \<Rightarrow> string \<Rightarrow> nat set \<Rightarrow> uint64 \<Rightarrow> int64 \<Rightarrow> ClusterNode" where
  "sample_node i fl mid S e heard = new_node\<lparr>node_id := i, ip := ''h'' @ i, port := 7, flags := fl,
     master_id := mid, slots := S, config_epoch := e, pong_received := heard\<rparr>"

definition sample_cluster :: ClusterManager where
  "sample_cluster = new_manager\<lparr>m_enabled := True, m_my_node_id := ''r'', m_myself := Some 0,
     m_nodes := [(''r'', 0), (''a'', 1), (''b'', 2)],
     m_failure_reports := [(''a'', [''b''])],
     objects := [sample_node ''r'' 6 ''a'' {} 0 0, sample_node ''a'' 1 [] {0, 1, 2} 4 10, sample_node ''b'' 1 [] {5} 2 90]\<rparr>"

lemmas sample_simps =
  sample_cluster_def sample_node_def new_node_def new_manager_def obj_def find_node_def node_refs_def hasFlag_def

lemma sample_ok:
  "wf_cluster sample_cluster" "single_owner sample_cluster" "wf_reports sample_cluster" "cache_ok sample_cluster"
  "[] \<notin> fst ` set (m_nodes sample_cluster)"
proof -
  show "wf_cluster sample_cluster" by (simp add: wf_cluster_def sample_simps kClusterSlotCount_def less_Suc_eq)
  show "single_owner sample_cluster" by (auto simp: single_owner_def holds_def sample_simps)
  show "wf_reports sample_cluster" by (simp add: wf_reports_def reports_of_def umap_get_def sample_simps)
  show "cache_ok sample_cluster" by (simp add: cache_ok_def sample_simps)
  show "[] \<notin> fst ` set (m_nodes sample_cluster)" by (simp add: sample_simps)
qed

theorem updateNodeSlots_refines_witness:
  "wf_cluster (updateNodeSlots ''b'' [0, 5, 7] 4 sample_cluster) \<and>
   single_owner (updateNodeSlots ''b'' [0, 5, 7] 4 sample_cluster) \<and>
   owner_of (updateNodeSlots ''b'' [0, 5, 7] 4 sample_cluster) =
     arbitrate ''b'' 4 (epoch_of sample_cluster) {s. s < kClusterSlotCount \<and> int s \<in> set [0, 5, 7]} (owner_of sample_cluster)"
  by (rule updateNodeSlots_refines[OF sample_ok(1,2,5), of _ 2]) (simp_all add: sample_simps)

theorem failover_moves_ownership_witness:
  "\<exists>c'. failoverReplica ''r'' sample_cluster = (c', True) \<and> wf_cluster c' \<and> single_owner c' \<and>
    owner_of c' = (\<lambda>s. if owner_of sample_cluster s = Some ''a'' then Some ''r'' else owner_of sample_cluster s) \<and>
    hasFlag Master (obj c' 0) \<and> hasFlag Fail (obj c' 1) \<and> slots (obj c' 1) = {} \<and>
    config_epoch (obj c' 0) > config_epoch (obj sample_cluster 0) \<and> config_epoch (obj c' 0) > config_epoch (obj sample_cluster 1) \<and>
    isMySlot 2 c'"
proof -
  have me: "m_myself sample_cluster = Some 0" "slot_ok 2 \<and> nat 2 \<in> slots (obj sample_cluster 1)"
    by (simp_all add: sample_simps slot_ok_def kClusterSlotCount_def)
  obtain c' where f: "failoverReplica ''r'' sample_cluster = (c', True)" "wf_cluster c'" "single_owner c'"
    "owner_of c' = (\<lambda>s. if owner_of sample_cluster s = Some ''a'' then Some ''r'' else owner_of sample_cluster s)"
    "hasFlag Master (obj c' 0)" "hasFlag Fail (obj c' 1)" "slots (obj c' 1) = {}"
    "config_epoch (obj c' 0) > config_epoch (obj sample_cluster 0)" "config_epoch (obj c' 0) > config_epoch (obj sample_cluster 1)"
    "\<And>s. isMySlot s c' \<longleftrightarrow> (if m_myself sample_cluster = Some 0 then slot_ok s \<and> nat s \<in> slots (obj sample_cluster 1)
       else isMySlot s sample_cluster)"
    using failover_moves_ownership[OF sample_ok(1,2), of "''r''" 0 "''a''" 1] by (auto simp: sample_simps max_def)
  then show ?thesis using f(10)[of 2] me by auto
qed

theorem setSlotOwner_moves_slot_witness:
  "\<exists>c'. setSlotOwner 2 ''b'' 0 sample_cluster = (c', True) \<and> wf_cluster c' \<and> single_owner c' \<and>
    owner_of c' = (owner_of sample_cluster)(nat 2 := Some ''b'') \<and> m_slot_states c' (nat 2) = normal_slot"
  by (rule setSlotOwner_moves_slot[OF sample_ok(1,2), of _ _ 2])
     (simp_all add: sample_simps slot_ok_def kClusterSlotCount_def)

theorem failure_needs_majority_witness:
  "hasFlag Fail (obj (checkFailureDetection 100 50 sample_cluster) 1) \<and>
   \<not> hasFlag Fail (obj (checkFailureDetection 100 50 sample_cluster) 2)"
proof -
  have me: "m_myself sample_cluster = Some 0" by (simp add: sample_simps)
  have refs: "1 \<in> set (node_refs sample_cluster)" "2 \<in> set (node_refs sample_cluster)" by (simp_all add: sample_simps)
  have i: "i64 90 = 90" "i64 10 = 10" by (simp_all add: in_i64_def)
  have v: "voters 100 50 sample_cluster (node_id (obj sample_cluster 0)) 1 = {''b'', ''r''}"
    by (auto simp: voters_def late_def reports_of_def umap_get_def sample_simps i)
  have n: "getMasterCount sample_cluster = 2" by (simp add: getMasterCount_def sample_simps)
  have f: "\<not> hasFlag Myself (obj sample_cluster 1)" "\<not> hasFlag Fail (obj sample_cluster 1)"
    "late 100 50 (obj sample_cluster 1)" "\<not> hasFlag Myself (obj sample_cluster 2)"
    "\<not> hasFlag Fail (obj sample_cluster 2)" "\<not> hasFlag PFail (obj sample_cluster 2)"
    "\<not> late 100 50 (obj sample_cluster 2)"
    by (simp_all add: late_def i sample_simps)
  show ?thesis
    using failure_needs_majority[OF sample_ok(1,3) me refs(1), of 100 50]
      failure_needs_majority[OF sample_ok(1,3) me refs(2), of 100 50]
    by (simp add: v n f Let_def del: One_nat_def)
qed

theorem getSlotOwner_is_owner_witness:
  "snd (getSlotOwner 5 sample_cluster) = ''hb:7'' \<and> snd (getSlotOwner 9 sample_cluster) = []"
proof -
  have "slot_ok 5" "slot_ok 9" by (simp_all add: slot_ok_def kClusterSlotCount_def)
  moreover have "to_string 7 = ''7''" by code_simp
  moreover have "owner_of sample_cluster 5 = Some ''b''" "owner_of sample_cluster 9 = None"
    by (simp_all add: owner_of_def holds_def sample_simps)
  moreover have "find_node sample_cluster ''b'' = Some 2" "ip (obj sample_cluster 2) = ''hb''" "port (obj sample_cluster 2) = 7"
    by (simp_all add: sample_simps)
  ultimately show ?thesis
    using getSlotOwner_is_owner[OF sample_ok(1,2,4) _ sample_ok(5), of 5]
      getSlotOwner_is_owner[OF sample_ok(1,2,4) _ sample_ok(5), of 9]
    by (simp add: node_addr_def)
qed

end
