(* ===== verification/Base64.thy ===== *)
theory Base64
  imports Slot
begin

text \<open>
  The Base64 codec of \<open>zero/util/hash_util.cc\<close>, which carries the slot bitmaps of the cluster bus:
  the encoder packs three bytes into an unsigned 32-bit word and emits four letters, the decoder
  packs four letters and emits up to three bytes, and answers the empty string for anything that is
  not a complete encoding.
\<close>

unbundle bit_operations_syntax

type_synonym uint32 = "32 word"

definition base64_letters :: string where
  "base64_letters = ''ABCDEFGHIJKLMNOPQRSTUVWXYZabcdefghijklmnopqrstuvwxyz0123456789+/''"

definition pack_byte :: "uint32 \<Rightarrow> char \<Rightarrow> uint32" where
  "pack_byte packed c = push_bit 8 packed OR of_nat (of_char c)"

definition letter :: "uint32 \<Rightarrow> char" where
  "letter i = base64_letters ! unat i"

text \<open>One turn of the loop of \<open>base64encode\<close>, on the one to three bytes it takes.\<close>

definition encode_group :: "string \<Rightarrow> string" where
  "encode_group chunk =
     (let i = length chunk;
          padding = (if i = 2 then 1 else if i = 1 then 2 else 0);
          packed = (push_bit 8 ^^ (3 - i)) (foldl pack_byte 0 chunk)
      in [letter (drop_bit 18 packed), letter (drop_bit 12 packed AND 0x3f)]
         @ (if padding \<noteq> 2 then [letter (drop_bit 6 packed AND 0x3f)] else [])
         @ (if padding = 0 then [letter (packed AND 0x3f)] else [])
         @ replicate padding (CHR ''=''))"

function base64encode :: "string \<Rightarrow> string" where
  "base64encode data = (if data = [] then [] else encode_group (take 3 data) @ base64encode (drop 3 data))"
  by pat_completeness auto
termination by (relation "measure length") auto

declare base64encode.simps [simp del]

definition letter_value :: "char \<Rightarrow> uint32 option" where
  "letter_value c =
     (let x = (of_char c :: nat)
      in if 65 \<le> x \<and> x \<le> 90 then Some (of_nat (x - 65))
         else if 97 \<le> x \<and> x \<le> 122 then Some (of_nat (x - 97 + 26))
         else if 48 \<le> x \<and> x \<le> 57 then Some (of_nat (x - 48 + 52))
         else if c = CHR ''+'' then Some 62
         else if c = CHR ''/'' then Some 63
         else None)"

text \<open>The inner loop of \<open>base64decode\<close> over the next letters, at most four.\<close>

fun decode_letters :: "string \<Rightarrow> nat \<Rightarrow> uint32 \<Rightarrow> (nat \<times> uint32) option" where
  "decode_letters [] padding packed = Some (padding, packed)"
| "decode_letters (c # s) padding packed =
     (if c = CHR ''='' then decode_letters s (padding + 1) (push_bit 6 packed)
      else if padding > 0 then None
      else case letter_value c of
             None \<Rightarrow> None
           | Some val \<Rightarrow> decode_letters s padding (push_bit 6 packed OR val))"

definition low_byte :: "uint32 \<Rightarrow> char" where
  "low_byte x = char_of (unat (x AND 0xff))"

function decode_groups :: "string \<Rightarrow> string \<Rightarrow> string option" where
  "decode_groups src out =
     (if src = [] then Some out
      else case decode_letters (take 4 src) 0 0 of
        None \<Rightarrow> None
      | Some (padding, packed) \<Rightarrow>
          if length (take 4 src) \<noteq> 4 then None
          else if padding > 0 \<and> drop 4 src \<noteq> [] then None
          else if padding > 2 then None
          else decode_groups (drop 4 src)
                 (out @ [low_byte (drop_bit 16 packed)]
                      @ (if padding \<noteq> 2 then [low_byte (drop_bit 8 packed)] else [])
                      @ (if padding = 0 then [low_byte packed] else [])))"
  by pat_completeness auto
termination by (relation "measure (length \<circ> fst)") auto

declare decode_groups.simps [simp del]

definition base64decode :: "string \<Rightarrow> string" where
  "base64decode src = (case decode_groups src [] of None \<Rightarrow> [] | Some r \<Rightarrow> r)"

subsection \<open>Decoding inverts encoding\<close>

lemma letter_values:
  "map letter_value base64_letters = map (\<lambda>i. Some (of_nat i)) [0..<64]"
  "CHR ''='' \<notin> set base64_letters"
  by (simp_all add: base64_letters_def letter_value_def upt_rec)

lemma length_base64_letters: "length base64_letters = 64"
  by (simp add: base64_letters_def)

lemma letter_value_letter:
  assumes "unat x < 64"
  shows "letter_value (letter x) = Some x" "letter x \<noteq> CHR ''=''"
proof -
  have "map letter_value base64_letters ! unat x = Some x"
    using assms by (simp add: letter_values)
  then show "letter_value (letter x) = Some x"
    using assms by (simp add: letter_def length_base64_letters)
  have "base64_letters ! unat x \<in> set base64_letters"
    using assms by (simp add: length_base64_letters)
  then show "letter x \<noteq> CHR ''=''" using letter_values(2) by (metis letter_def)
qed

lemma mask_words: "(0x3f :: uint32) = mask 6" "(0xff :: uint32) = mask 8"
  by (simp_all add: mask_eq_exp_minus_1)

lemma six_bits: "unat (take_bit 6 x :: uint32) < 64"
  using take_bit_nat_less_exp[of 6 "unat x"] by (simp add: unsigned_take_bit_eq)

definition word_of_byte :: "char \<Rightarrow> uint32" where
  "word_of_byte c = of_nat (of_char c)"

lemma unat_word_of_byte: "unat (word_of_byte c) = of_char c"
proof -
  have "(of_char c :: nat) < 2 ^ 32" by (rule less_trans[of _ 256]) simp_all
  then show ?thesis by (simp add: word_of_byte_def unat_of_nat mod_less del: of_char_mod_256)
qed

lemma word_of_byte_less: "bit (word_of_byte c) n \<Longrightarrow> n < 8"
proof -
  assume "bit (word_of_byte c) n"
  then have "bit (of_char c :: nat) n"
    by (metis bit_unsigned_iff possible_bit_nat unat_word_of_byte)
  moreover have "take_bit 8 (of_char c :: nat) = of_char c"
    by (simp add: take_bit_nat_eq_self)
  ultimately show ?thesis by (metis bit_take_bit_iff)
qed

lemma word_of_byte_above [simp]: "8 \<le> n \<Longrightarrow> bit (word_of_byte c) n = False"
  by (meson leD word_of_byte_less)

lemma low_byte_eq: "take_bit 8 x = word_of_byte c \<Longrightarrow> low_byte x = c"
  by (simp add: low_byte_def mask_words unat_word_of_byte flip: take_bit_eq_mask)

definition three_bytes :: "char \<Rightarrow> char \<Rightarrow> char \<Rightarrow> uint32" where
  "three_bytes a b c = push_bit 8 (push_bit 8 (word_of_byte a) OR word_of_byte b) OR word_of_byte c"

lemma three_bytes_split:
  "take_bit 8 (drop_bit 16 (three_bytes a b c)) = word_of_byte a"
  "take_bit 8 (drop_bit 8 (three_bytes a b c)) = word_of_byte b"
  "take_bit 8 (three_bytes a b c) = word_of_byte c"
  by (rule_tac [!] bit_word_eqI)
     (auto simp: three_bytes_def bit_simps not_less dest: word_of_byte_less)

lemma three_bytes_high: "24 \<le> n \<Longrightarrow> \<not> bit (three_bytes a b c) n"
  by (auto simp: three_bytes_def bit_simps dest: word_of_byte_less)

lemma pack_chunk:
  "pack_byte (pack_byte (pack_byte 0 a) b) c = three_bytes a b c"
  "push_bit 8 (pack_byte (pack_byte 0 a) b) = three_bytes a b (CHR 0x00)"
  "push_bit 16 (pack_byte 0 a) = three_bytes a (CHR 0x00) (CHR 0x00)"
  by (simp_all add: pack_byte_def three_bytes_def word_of_byte_def)

lemma repack:
  fixes w :: uint32
  assumes "\<And>n. 24 \<le> n \<Longrightarrow> \<not> bit w n"
  shows "push_bit 6 (push_bit 6 (push_bit 6 (drop_bit 18 w) OR take_bit 6 (drop_bit 12 w))
           OR take_bit 6 (drop_bit 6 w)) OR take_bit 6 w = w"
proof (rule bit_word_eqI)
  fix n :: nat
  consider "n < 6" | "6 \<le> n" "n < 12" | "12 \<le> n" "n < 18" | "18 \<le> n" by linarith
  then show "bit (push_bit 6 (push_bit 6 (push_bit 6 (drop_bit 18 w) OR take_bit 6 (drop_bit 12 w))
      OR take_bit 6 (drop_bit 6 w)) OR take_bit 6 w) n = bit w n" if "n < LENGTH(32)"
    using that by cases (auto simp: bit_simps less_diff_conv2)
qed

lemma top_six:
  fixes w :: uint32
  assumes "\<And>n. 24 \<le> n \<Longrightarrow> \<not> bit w n"
  shows "take_bit 6 (drop_bit 18 w) = drop_bit 18 w"
proof (rule bit_word_eqI)
  fix n :: nat
  have "bit w (18 + n) \<Longrightarrow> n < 6" using assms[of "18 + n"] by linarith
  then show "bit (take_bit 6 (drop_bit 18 w)) n = bit (drop_bit 18 w) n"
    by (auto simp: bit_simps)
qed

lemma low_zero:
  "take_bit 6 (three_bytes a b (CHR 0x00)) = 0"
  "take_bit 6 (drop_bit 6 (three_bytes a (CHR 0x00) (CHR 0x00))) = 0"
  by (rule_tac [!] bit_word_eqI) (auto simp: three_bytes_def word_of_byte_def bit_simps)

lemma decode_letter [simp]:
  "letter_value (letter (take_bit 6 x)) = Some (take_bit 6 x)" "letter (take_bit 6 x) \<noteq> CHR ''=''"
  using letter_value_letter[OF six_bits[of x]] by simp_all

lemma decode_encode_group:
  assumes "chunk \<noteq> []" "length chunk \<le> 3"
  shows "length (encode_group chunk) = 4 \<and>
    (\<exists>padding w. decode_letters (encode_group chunk) 0 0 = Some (padding, w) \<and> padding = 3 - length chunk \<and>
      padding \<le> 2 \<and> chunk = [low_byte (drop_bit 16 w)] @ (if padding \<noteq> 2 then [low_byte (drop_bit 8 w)] else [])
        @ (if padding = 0 then [low_byte w] else []))"
proof -
  have top: "drop_bit 18 (three_bytes a b c) = take_bit 6 (drop_bit 18 (three_bytes a b c))" for a b c
    by (simp add: top_six three_bytes_high)
  have rp: "push_bit 6 (push_bit 6 (push_bit 6 (take_bit 6 (drop_bit 18 (three_bytes a b c)))
      OR take_bit 6 (drop_bit 12 (three_bytes a b c))) OR take_bit 6 (drop_bit 6 (three_bytes a b c)))
      OR take_bit 6 (three_bytes a b c) = three_bytes a b c" for a b c
    using repack[of "three_bytes a b c"] by (simp add: top_six three_bytes_high)
  note low = three_bytes_split[THEN low_byte_eq]
  note group = encode_group_def Let_def numeral_2_eq_2 numeral_3_eq_3 pack_chunk
  obtain a where "chunk = [a] \<or> (\<exists>b. chunk = [a, b]) \<or> (\<exists>b c. chunk = [a, b, c])"
    using assms by (cases chunk rule: remdups_adj.cases) (auto simp: neq_Nil_conv le_Suc_eq length_Suc_conv numeral_3_eq_3)
  then show ?thesis
  proof (elim disjE exE)
    assume c: "chunk = [a]"
    have g: "encode_group chunk = [letter (take_bit 6 (drop_bit 18 (three_bytes a (CHR 0x00) (CHR 0x00)))),
        letter (take_bit 6 (drop_bit 12 (three_bytes a (CHR 0x00) (CHR 0x00)))), CHR ''='', CHR ''='']"
      by (simp add: c group mask_words top[symmetric] flip: take_bit_eq_mask)
    show ?thesis
      using rp[of a "CHR 0x00" "CHR 0x00"] by (simp add: g[unfolded c] c low_zero low)
  next
    fix b assume c: "chunk = [a, b]"
    have g: "encode_group chunk = [letter (take_bit 6 (drop_bit 18 (three_bytes a b (CHR 0x00)))),
        letter (take_bit 6 (drop_bit 12 (three_bytes a b (CHR 0x00)))),
        letter (take_bit 6 (drop_bit 6 (three_bytes a b (CHR 0x00)))), CHR ''='']"
      by (simp add: c group mask_words top[symmetric] flip: take_bit_eq_mask)
    show ?thesis
      using rp[of a b "CHR 0x00"] by (simp add: g[unfolded c] c low_zero low)
  next
    fix b d assume c: "chunk = [a, b, d]"
    have g: "encode_group chunk = [letter (take_bit 6 (drop_bit 18 (three_bytes a b d))),
        letter (take_bit 6 (drop_bit 12 (three_bytes a b d))),
        letter (take_bit 6 (drop_bit 6 (three_bytes a b d))), letter (take_bit 6 (three_bytes a b d))]"
      by (simp add: c group mask_words top[symmetric] flip: take_bit_eq_mask)
    show ?thesis
      using rp[of a b d] by (simp add: g[unfolded c] c low)
  qed
qed

lemma decode_groups_step:
  assumes "length g = 4" "decode_letters g 0 0 = Some (padding, w)" "padding \<le> 2" "0 < padding \<Longrightarrow> rest = []"
  shows "decode_groups (g @ rest) out = decode_groups rest
    (out @ [low_byte (drop_bit 16 w)] @ (if padding \<noteq> 2 then [low_byte (drop_bit 8 w)] else [])
      @ (if padding = 0 then [low_byte w] else []))"
proof -
  have "g \<noteq> []" using assms(1) by auto
  with assms show ?thesis by (subst decode_groups.simps) (cases "padding = 0"; simp)
qed

lemma decode_groups_encode: "decode_groups (base64encode s) out = Some (out @ s)"
proof (induction s arbitrary: out rule: base64encode.induct)
  case (1 s)
  show ?case
  proof (cases "s = []")
    case True
    then show ?thesis by (simp add: base64encode.simps decode_groups.simps)
  next
    case False
    let ?g = "encode_group (take 3 s)"
    have "take 3 s \<noteq> []" "length (take 3 s) \<le> 3" using False by simp_all
    from decode_encode_group[OF this] obtain padding w where
      g: "length ?g = 4" "decode_letters ?g 0 0 = Some (padding, w)" and
      p: "padding = 3 - length (take 3 s)" "padding \<le> 2" and
      w: "take 3 s = [low_byte (drop_bit 16 w)] @ (if padding \<noteq> 2 then [low_byte (drop_bit 8 w)] else [])
        @ (if padding = 0 then [low_byte w] else [])"
      by blast
    have enc: "base64encode s = ?g @ base64encode (drop 3 s)" by (simp add: base64encode.simps[of s] False)
    have rest: "base64encode (drop 3 s) = []" if "padding > 0"
      using that p(1) by (simp add: base64encode.simps[of "drop 3 s"] min_def split: if_splits)
    have out: "decode_groups (base64encode s) out = decode_groups (base64encode (drop 3 s)) (out @ take 3 s)"
      unfolding enc by (subst decode_groups_step[OF g p(2) rest]) (simp_all only: w[symmetric])
    show ?thesis using 1[OF False, of "out @ take 3 s"] by (simp add: out)
  qed
qed

lemma base64_round_trip: "base64decode (base64encode s) = s"
  by (simp add: base64decode_def decode_groups_encode)

end
