(* ===== verification/ClusterBus.thy ===== *)
theory ClusterBus
  imports ClusterInv Base64 RespCut
begin

text \<open>
  The cluster bus, \<open>zero/kv/cluster/cluster_bus.{h,cc}\<close>: the message and its encoding as a RESP array, the slot
  bitmap in Base64, the handlers of received messages, and the connection loop that cuts the byte
  stream into messages. A send is an entry of \<open>outbox\<close> (whether the peer's socket can be reached does
  not change the sender's state), a publication to the local hub an entry of \<open>published\<close>.
\<close>

subsection \<open>Messages\<close>

record ClusterMessage =
  mtype :: int
  sender_id :: string
  target_id :: string
  about_id :: string
  msg_ip :: string
  msg_port :: int
  msg_cluster_port :: int
  msg_flags :: uint16
  msg_epoch :: uint64
  msg_master_id :: string
  slots_base64 :: string
  data1 :: string
  data2 :: string

definition Meet :: int where "Meet = 1"
definition Ping :: int where "Ping = 2"
definition Pong :: int where "Pong = 3"
definition FailMsg :: int where "FailMsg = 4"
definition Update :: int where "Update = 5"
definition Publish :: int where "Publish = 6"

definition new_message :: ClusterMessage where
  "new_message = \<lparr>mtype = Ping, sender_id = [], target_id = [], about_id = [], msg_ip = [], msg_port = 0,
     msg_cluster_port = 0, msg_flags = 0, msg_epoch = 0, msg_master_id = [], slots_base64 = [],
     data1 = [], data2 = []\<rparr>"

definition toResp :: "ClusterMessage \<Rightarrow> RespValue" where
  "toResp m = resp_array
     [resp_integer (mtype m), bulk (sender_id m), bulk (target_id m), bulk (about_id m), bulk (msg_ip m),
      resp_integer (msg_port m), resp_integer (msg_cluster_port m), resp_integer (uint (msg_flags m)),
      resp_integer (sint (msg_epoch m)), bulk (msg_master_id m), bulk (slots_base64 m),
      bulk (data1 m), bulk (data2 m)]"

definition getRespString :: "RespValue \<Rightarrow> string" where
  "getRespString v =
     (if rtype v = Integer then to_string (rint v) else if is_null v then [] else rstr v)"

text \<open>\<open>static_cast<int>\<close> of a 64-bit value.\<close>

definition i32 :: "int \<Rightarrow> int" where
  "i32 x = sint (word_of_int x :: 32 word)"

definition fromResp :: "RespValue \<Rightarrow> ClusterMessage option" where
  "fromResp v =
     (if rtype v \<noteq> Array \<or> length (rarray v) < 13 then None
      else if (\<exists>i \<in> set [0..<13]. is_null (rarray v ! i)) then None
      else let s = (\<lambda>i. getRespString (rarray v ! i))
           in case (stoi (s 0), stoll (s 5), stoll (s 6), stoll (s 7), stoll (s 8)) of
                (Some ty, Some prt, Some cport, Some fl, Some ep) \<Rightarrow>
                  Some \<lparr>mtype = ty, sender_id = s 1, target_id = s 2, about_id = s 3, msg_ip = s 4,
                    msg_port = i32 prt, msg_cluster_port = i32 cport, msg_flags = word_of_int fl,
                    msg_epoch = word_of_int ep, msg_master_id = s 9, slots_base64 = s 10,
                    data1 = s 11, data2 = s 12\<rparr>
              | _ \<Rightarrow> None)"

subsection \<open>The slot bitmap\<close>

definition or_bit :: "nat \<Rightarrow> char \<Rightarrow> char" where
  "or_bit j c = char_of (of_char c OR 2 ^ j :: nat)"

definition slots_raw :: "nat set \<Rightarrow> string" where
  "slots_raw S =
     foldl (\<lambda>raw i. if i \<in> S then raw[i div 8 := or_bit (i mod 8) (raw ! (i div 8))] else raw)
       (replicate (16384 div 8) (CHR 0x00)) [0..<kClusterSlotCount]"

definition slotsToBase64 :: "nat set \<Rightarrow> string" where
  "slotsToBase64 S = base64encode (slots_raw S)"

definition base64ToSlots :: "string \<Rightarrow> nat set \<Rightarrow> nat set \<times> bool" where
  "base64ToSlots b64 S =
     (let raw = base64decode b64
      in if length raw \<noteq> 16384 div 8 then (S, False)
         else (foldl (\<lambda>T i. if bit (of_char (raw ! (i div 8)) :: nat) (i mod 8) then insert i T else T)
                 {} [0..<kClusterSlotCount], True))"

subsection \<open>Handlers\<close>

record Bus =
  mgr :: ClusterManager
  outbox :: "(string \<times> int \<times> ClusterMessage) list"
  published :: "(string \<times> string) list"

definition on_mgr :: "(ClusterManager \<Rightarrow> ClusterManager) \<Rightarrow> Bus \<Rightarrow> Bus" where
  "on_mgr f b = b\<lparr>mgr := f (mgr b)\<rparr>"

definition sendToAddr :: "string \<Rightarrow> int \<Rightarrow> ClusterMessage \<Rightarrow> Bus \<Rightarrow> Bus" where
  "sendToAddr host cport m b = b\<lparr>outbox := outbox b @ [(host, cport, m)]\<rparr>"

definition buildNodeMessage :: "ClusterManager \<Rightarrow> ClusterMessage \<Rightarrow> int \<Rightarrow> ClusterMessage" where
  "buildNodeMessage c msg ty =
     (let msg = msg\<lparr>mtype := ty, sender_id := myNodeId c, target_id := []\<rparr>
      in case getMyself c of
           None \<Rightarrow> msg
         | Some a \<Rightarrow>
             msg\<lparr>about_id := node_id (obj c a), msg_ip := ip (obj c a), msg_port := port (obj c a),
                 msg_cluster_port := cluster_port (obj c a), msg_flags := flags (obj c a),
                 msg_epoch := getConfigEpoch c, msg_master_id := master_id (obj c a),
                 slots_base64 := slotsToBase64 (slots (obj c a))\<rparr>)"

definition reply_pong :: "ClusterMessage \<Rightarrow> Bus \<Rightarrow> Bus" where
  "reply_pong msg b = sendToAddr (msg_ip msg) (msg_cluster_port msg) (buildNodeMessage (mgr b) new_message Pong) b"

definition handleMeet :: "int64 \<Rightarrow> ClusterMessage \<Rightarrow> Bus \<Rightarrow> Bus" where
  "handleMeet now msg b =
     (let node = (clearFlag Myself (new_node\<lparr>node_id := sender_id msg, ip := msg_ip msg, port := msg_port msg,
                    cluster_port := msg_cluster_port msg, flags := msg_flags msg\<rparr>))
                 \<lparr>master_id := msg_master_id msg, slots := fst (base64ToSlots (slots_base64 msg) {}),
                  pong_received := now\<rparr>;
          (a, c) = make_shared node (mgr b)
      in reply_pong msg (b\<lparr>mgr := addNode (Some a) c\<rparr>))"

text \<open>The record of the sender, found or created, and overwritten with what the message says.\<close>

definition refreshed :: "int64 \<Rightarrow> ClusterMessage \<Rightarrow> nat set \<Rightarrow> ClusterNode \<Rightarrow> ClusterNode" where
  "refreshed now msg recv n =
     (clearFlag Myself (n\<lparr>ip := msg_ip msg, port := msg_port msg, cluster_port := msg_cluster_port msg,
        flags := msg_flags msg\<rparr>))
     \<lparr>master_id := msg_master_id msg, config_epoch := msg_epoch msg, slots := recv, pong_received := now\<rparr>"

definition refreshNode :: "int64 \<Rightarrow> ClusterMessage \<Rightarrow> nat set \<Rightarrow> ClusterManager \<Rightarrow> ClusterManager" where
  "refreshNode now msg recv c =
     (let (a, c) = (case getNode (sender_id msg) c of
                      Some a \<Rightarrow> (a, c)
                    | None \<Rightarrow> make_shared (new_node\<lparr>node_id := sender_id msg\<rparr>) c)
      in addNode (Some a) (upd_obj a (refreshed now msg recv) c))"

definition mergeReports :: "ClusterMessage \<Rightarrow> ClusterManager \<Rightarrow> ClusterManager" where
  "mergeReports msg c =
     (let c = (if data1 msg \<noteq> [] then addFailureReport (data1 msg) (sender_id msg) (markNodePFail (data1 msg) c) else c);
          c = (if msg_flags msg AND flag_bit PFail \<noteq> 0
               then addFailureReport (sender_id msg) (sender_id msg) (markNodePFail (sender_id msg) c) else c)
      in if msg_flags msg AND flag_bit Fail \<noteq> 0 then markNodeFail (sender_id msg) c else c)"

definition handlePingPong :: "int64 \<Rightarrow> ClusterMessage \<Rightarrow> Bus \<Rightarrow> Bus" where
  "handlePingPong now msg b =
     (let recv = fst (base64ToSlots (slots_base64 msg) {});
          ss = map int (filter (\<lambda>i. i \<in> recv) [0..<kClusterSlotCount]);
          b = on_mgr (mergeReports msg \<circ> clearNodeFail (sender_id msg)
                      \<circ> updateNodeSlots (sender_id msg) ss (msg_epoch msg)
                      \<circ> refreshNode now msg recv) b
      in if mtype msg = Ping then reply_pong msg b else b)"

definition handleFail :: "ClusterMessage \<Rightarrow> Bus \<Rightarrow> Bus" where
  "handleFail msg b = (if data1 msg \<noteq> [] then on_mgr (markNodeFail (data1 msg)) b else b)"

definition handleUpdate :: "int64 \<Rightarrow> ClusterMessage \<Rightarrow> Bus \<Rightarrow> Bus" where
  "handleUpdate now msg b = handlePingPong now msg b"

definition handlePublish :: "ClusterMessage \<Rightarrow> Bus \<Rightarrow> Bus" where
  "handlePublish msg b = (if data1 msg \<noteq> [] then b\<lparr>published := published b @ [(data1 msg, data2 msg)]\<rparr> else b)"

definition onMessage :: "int64 \<Rightarrow> ClusterMessage \<Rightarrow> Bus \<Rightarrow> Bus" where
  "onMessage now msg b =
     (if sender_id msg = myNodeId (mgr b) then b
      else if mtype msg = Meet then handleMeet now msg b
      else if mtype msg = Ping \<or> mtype msg = Pong then handlePingPong now msg b
      else if mtype msg = FailMsg then handleFail msg b
      else if mtype msg = Update then handleUpdate now msg b
      else if mtype msg = Publish then handlePublish msg b
      else b)"

subsection \<open>The connection loop\<close>

text \<open>
  The inner loop of \<open>runConnection\<close>: cut complete values off the buffer until more bytes are needed; a
  parse error drops the buffer. The parser returns on every buffer; its \<open>None\<close> is not met. The i-th value is handled
  at the time \<open>clock i\<close>.
\<close>

function drain_buffer :: "(nat \<Rightarrow> int64) \<Rightarrow> nat \<Rightarrow> string \<Rightarrow> Bus \<Rightarrow> nat \<times> string \<times> Bus" where
  "drain_buffer clock i buf b =
     (if buf = [] then (i, [], b)
      else case tryParse buf defaultValue of
        None \<Rightarrow> (i, buf, b)
      | Some (st, consumed, v) \<Rightarrow>
          if st = ParseNeedMore then (i, buf, b)
          else if st = ParseError \<or> consumed = 0 then (i, [], b)
          else drain_buffer clock (i + 1) (drop consumed buf)
                 (case fromResp v of Some msg \<Rightarrow> onMessage (clock i) msg b | None \<Rightarrow> b))"
  by pat_completeness auto
termination by (relation "measure (\<lambda>(_, _, buf, _). length buf)") auto

declare drain_buffer.simps [simp del]

text \<open>The outer loop, over the chunks that \<open>recv\<close> returns.\<close>

fun runConnection :: "(nat \<Rightarrow> int64) \<Rightarrow> nat \<Rightarrow> string list \<Rightarrow> string \<Rightarrow> Bus \<Rightarrow> string \<times> Bus" where
  "runConnection clock i [] buf b = (buf, b)"
| "runConnection clock i (chunk # chunks) buf b =
     (case drain_buffer clock i (buf @ chunk) b of (j, buf', b') \<Rightarrow> runConnection clock j chunks buf' b')"

subsection \<open>Sending\<close>

definition sendToNode :: "string \<Rightarrow> ClusterMessage \<Rightarrow> Bus \<Rightarrow> Bus \<times> bool" where
  "sendToNode nid msg b =
     (case getNode nid (mgr b) of
        None \<Rightarrow> (b, False)
      | Some a \<Rightarrow> (sendToAddr (ip (obj (mgr b) a)) (cluster_port (obj (mgr b) a)) msg b, True))"

definition broadcast :: "ClusterMessage \<Rightarrow> string \<Rightarrow> Bus \<Rightarrow> Bus" where
  "broadcast msg exclude b =
     foldl (\<lambda>b a. let n = obj (mgr b) a
                  in if hasFlag Myself n then b
                     else if exclude \<noteq> [] \<and> node_id n = exclude then b
                     else sendToAddr (ip n) (cluster_port n) msg b)
       b (getAllNodes (mgr b))"

definition bus_meetNode :: "string \<Rightarrow> int \<Rightarrow> Bus \<Rightarrow> Bus" where
  "bus_meetNode host cport b = sendToAddr host cport (buildNodeMessage (mgr b) new_message Meet) b"

definition pickGossipFailureReport :: "ClusterManager \<Rightarrow> string \<Rightarrow> string" where
  "pickGossipFailureReport c exclude =
     (case find (\<lambda>a. node_id (obj c a) \<noteq> exclude \<and> hasFlag PFail (obj c a) \<and> \<not> hasFlag Fail (obj c a)) (getAllNodes c) of
        Some a \<Rightarrow> node_id (obj c a)
      | None \<Rightarrow>
          (case find (\<lambda>a. node_id (obj c a) \<noteq> exclude \<and> hasFlag Fail (obj c a)) (getAllNodes c) of
             Some a \<Rightarrow> node_id (obj c a)
           | None \<Rightarrow> []))"

definition sendPingPongTo :: "string \<Rightarrow> int \<Rightarrow> Bus \<Rightarrow> Bus" where
  "sendPingPongTo nid ty b =
     (case getNode nid (mgr b) of
        None \<Rightarrow> b
      | Some a \<Rightarrow>
          if hasFlag Myself (obj (mgr b) a) then b
          else sendToAddr (ip (obj (mgr b) a)) (cluster_port (obj (mgr b) a))
                 ((buildNodeMessage (mgr b) new_message ty)\<lparr>data1 := pickGossipFailureReport (mgr b) nid\<rparr>) b)"

definition sendPingToAll :: "Bus \<Rightarrow> Bus" where
  "sendPingToAll b =
     foldl (\<lambda>b a. if hasFlag Myself (obj (mgr b) a) then b else sendPingPongTo (node_id (obj (mgr b) a)) Ping b)
       b (getAllNodes (mgr b))"

definition broadcastSlotUpdate :: "string \<Rightarrow> Bus \<Rightarrow> Bus" where
  "broadcastSlotUpdate nid b =
     (case getNode nid (mgr b) of
        None \<Rightarrow> b
      | Some a \<Rightarrow>
          let n = obj (mgr b) a
          in broadcast (new_message\<lparr>mtype := Update, sender_id := myNodeId (mgr b), about_id := nid, msg_ip := ip n,
               msg_port := port n, msg_cluster_port := cluster_port n, msg_flags := flags n,
               msg_master_id := master_id n, msg_epoch := getConfigEpoch (mgr b),
               slots_base64 := slotsToBase64 (slots n)\<rparr>) [] b)"

subsection \<open>Round trips\<close>

lemma or_bit_bits:
  assumes "j < 8"
  shows "bit (of_char (or_bit j c) :: nat) k \<longleftrightarrow> bit (of_char c :: nat) k \<or> k = j"
proof -
  have a: "take_bit 8 (of_char c :: nat) = of_char c" by (simp add: take_bit_nat_eq_self)
  have b: "take_bit 8 (2 ^ j :: nat) = 2 ^ j"
    using assms by (simp add: take_bit_nat_eq_self power_strict_increasing)
  have "take_bit 8 (of_char c OR 2 ^ j :: nat) = of_char c OR 2 ^ j"
    using assms by (simp add: take_bit_or a b)
  then have "(of_char (or_bit j c) :: nat) = of_char c OR 2 ^ j"
    using assms by (simp add: or_bit_def of_char_of take_bit_eq_mod)
  then show ?thesis by (auto simp: bit_or_iff bit_exp_iff)
qed

definition mark_slot :: "nat set \<Rightarrow> string \<Rightarrow> nat \<Rightarrow> string" where
  "mark_slot S raw i = (if i \<in> S then raw[i div 8 := or_bit (i mod 8) (raw ! (i div 8))] else raw)"

lemma mark_slots:
  assumes "n \<le> 8 * N"
  shows "length (foldl (mark_slot S) (replicate N (CHR 0x00)) [0..<n]) = N \<and>
    (\<forall>i < 8 * N. bit (of_char (foldl (mark_slot S) (replicate N (CHR 0x00)) [0..<n] ! (i div 8)) :: nat) (i mod 8)
       \<longleftrightarrow> i < n \<and> i \<in> S)"
  using assms
proof (induction n)
  case 0
  have "replicate N (CHR 0x00) ! (i div 8) = CHR 0x00" if "i < 8 * N" for i
    using that by (intro nth_replicate) auto
  then show ?case by simp
next
  case (Suc n)
  let ?r = "foldl (mark_slot S) (replicate N (CHR 0x00)) [0..<n]"
  have IH: "length ?r = N" "\<And>i. i < 8 * N \<Longrightarrow> bit (of_char (?r ! (i div 8)) :: nat) (i mod 8) \<longleftrightarrow> i < n \<and> i \<in> S"
    using Suc by auto
  have same: "i div 8 = n div 8 \<and> i mod 8 = n mod 8 \<longleftrightarrow> i = n" for i :: nat
    by (metis div_mult_mod_eq)
  have n: "n div 8 < N" using Suc.prems by auto
  have "bit (of_char (mark_slot S ?r n ! (i div 8)) :: nat) (i mod 8) \<longleftrightarrow> i < Suc n \<and> i \<in> S"
    if i: "i < 8 * N" for i
  proof (cases "n \<in> S \<and> i div 8 = n div 8")
    case True
    then have "bit (of_char (mark_slot S ?r n ! (i div 8)) :: nat) (i mod 8) \<longleftrightarrow>
        bit (of_char (?r ! (i div 8)) :: nat) (i mod 8) \<or> i mod 8 = n mod 8"
      using n IH(1) by (simp add: mark_slot_def or_bit_bits)
    also have "\<dots> \<longleftrightarrow> (i < n \<and> i \<in> S) \<or> i = n" using IH(2)[OF i] same[of i] True by blast
    finally show ?thesis using True by (auto simp: less_Suc_eq)
  next
    case False
    then have "mark_slot S ?r n ! (i div 8) = ?r ! (i div 8)" by (auto simp: mark_slot_def)
    with False IH(2)[OF i] same[of i] show ?thesis by (auto simp: less_Suc_eq)
  qed
  moreover have "length (mark_slot S ?r n) = N" using IH(1) by (simp add: mark_slot_def)
  ultimately show ?case by simp
qed

lemma foldl_collect: "foldl (\<lambda>T i. if P i then insert i T else T) T xs = T \<union> {i \<in> set xs. P i}"
  by (induction xs arbitrary: T) auto

lemma base64ToSlots_slotsToBase64:
  assumes "S \<subseteq> {..<kClusterSlotCount}"
  shows "base64ToSlots (slotsToBase64 S) T = (S, True)"
proof -
  have k: "kClusterSlotCount = 8 * (16384 div 8)" by (simp add: kClusterSlotCount_def)
  have raw: "slots_raw S = foldl (mark_slot S) (replicate (16384 div 8) (CHR 0x00)) [0..<kClusterSlotCount]"
    by (simp add: slots_raw_def mark_slot_def[abs_def])
  note m = mark_slots[of kClusterSlotCount "16384 div 8" S, folded raw, unfolded k, OF order.refl]
  have len: "length (slots_raw S) = 16384 div 8" using m by blast
  have "{i \<in> set [0..<kClusterSlotCount]. bit (of_char (slots_raw S ! (i div 8)) :: nat) (i mod 8)} = S"
    using m assms unfolding k by (auto simp: subset_iff)
  then show ?thesis
    by (simp add: base64ToSlots_def slotsToBase64_def base64_round_trip len foldl_collect Let_def)
qed

definition sendable :: "ClusterMessage \<Rightarrow> bool" where
  "sendable m \<longleftrightarrow>
     0 \<le> mtype m \<and> mtype m < 2 ^ 31 \<and> 0 \<le> msg_port m \<and> msg_port m < 2 ^ 31 \<and>
     0 \<le> msg_cluster_port m \<and> msg_cluster_port m < 2 ^ 31 \<and> uint (msg_epoch m) < 2 ^ 63 \<and>
     (\<forall>s \<in> {sender_id m, target_id m, about_id m, msg_ip m, msg_master_id m, slots_base64 m, data1 m, data2 m}.
        int (length s) \<le> INT64_MAX)"

lemma i32_id: "- (2 ^ 31) \<le> x \<Longrightarrow> x < 2 ^ 31 \<Longrightarrow> i32 x = x"
  by (simp add: i32_def sint_sbintrunc' signed_take_bit_int_eq_self)

lemma getRespString_simps [simp]:
  "getRespString (resp_integer n) = to_string n" "getRespString (bulk s) = s"
  "is_null (resp_integer n) = False" "is_null (bulk s) = False"
  by (simp_all add: getRespString_def resp_integer_def bulk_def)

lemma in_i64_sint: "in_i64 (sint (w :: 64 word))"
  using sint_lt[of w] sint_ge[of w] by (simp add: in_i64_def)

lemma uint_above: "k \<le> 0 \<Longrightarrow> k \<le> uint w"
  by (rule order.trans[of _ 0]) simp_all

lemma fromResp_toResp:
  assumes "- (2 ^ 31) \<le> mtype m" "mtype m < 2 ^ 31" "- (2 ^ 31) \<le> msg_port m" "msg_port m < 2 ^ 31"
    "- (2 ^ 31) \<le> msg_cluster_port m" "msg_cluster_port m < 2 ^ 31"
  shows "fromResp (toResp m) = Some m"
proof -
  have f: "in_i64 (uint (msg_flags m))" using uint_lt2p[of "msg_flags m"]
    by (simp add: in_i64_def uint_above)
  have "\<not> (\<exists>i \<in> set [0..<13]. is_null (rarray (toResp m) ! i))"
    by (simp add: toResp_def resp_array_def upt_rec)
  moreover have "rtype (toResp m) = Array" "length (rarray (toResp m)) = 13"
    by (simp_all add: toResp_def resp_array_def)
  moreover have "stoi (to_string (mtype m)) = Some (mtype m)" "stoll (to_string (msg_port m)) = Some (msg_port m)"
    "stoll (to_string (msg_cluster_port m)) = Some (msg_cluster_port m)"
    "stoll (to_string (uint (msg_flags m))) = Some (uint (msg_flags m))"
    "stoll (to_string (sint (msg_epoch m))) = Some (sint (msg_epoch m))"
    using assms f in_i64_sint[of "msg_epoch m"]
    by (simp_all add: stoi_def stoll_def leading_int_to_string in_i64_def)
  ultimately show ?thesis
    using assms by (simp add: fromResp_def Let_def toResp_def resp_array_def i32_id)
qed

lemma toResp_message: "sendable m \<Longrightarrow> is_message (toResp m)"
proof -
  assume s: "sendable m"
  have e: "sint (msg_epoch m) = uint (msg_epoch m)"
  proof -
    have "- (2 ^ 63) \<le> uint (msg_epoch m)" "uint (msg_epoch m) < 2 ^ 63"
      using s by (auto simp: sendable_def uint_above)
    then show ?thesis unfolding sint_uint by (intro signed_take_bit_int_eq_self) simp_all
  qed
  have "uint (msg_flags m) < 2 ^ 16" using uint_lt2p[of "msg_flags m"] by simp
  then show ?thesis
    using s by (simp add: is_message_def message_of_def message_ok_def toResp_def resp_array_def resp_integer_def bulk_def
        sendable_def INT64_MAX_def e)
qed

lemma toResp_messages: "list_all sendable ms \<Longrightarrow> list_all is_message (map toResp ms)"
  by (simp add: list_all_iff toResp_message)

lemma drain_message:
  assumes "sendable m"
  shows "drain_buffer clock i (encode (toResp m) @ rest) b = drain_buffer clock (i + 1) rest (onMessage (clock i) m b)"
proof -
  let ?d = "encode (toResp m) @ rest"
  have p: "tryParse ?d defaultValue = Some (ParseOk, length (encode (toResp m)), toResp m)"
    by (rule tryParse_request[OF is_message_wire(1)[OF toResp_message[OF assms]]])
       (simp_all add: toResp_def resp_array_def defaultValue_def)
  have ne: "encode (toResp m) \<noteq> []" using tryParse_bound[OF p] by auto
  have "fromResp (toResp m) = Some m" using assms by (intro fromResp_toResp) (auto simp: sendable_def)
  then show ?thesis using ne by (subst drain_buffer.simps) (simp add: p)
qed

lemma drain_Nil [simp]: "drain_buffer clock i [] b = (i, [], b)"
  by (simp add: drain_buffer.simps)

text \<open>A part of a message for which the reader asks for more stays in the buffer.\<close>

lemma drain_part: "asks_for_more d \<Longrightarrow> drain_buffer clock i d b = (i, d, b)"
  unfolding asks_for_more_def by (auto simp: drain_buffer.simps dest!: spec[of _ defaultValue])

subsection \<open>What a message from a peer does to the ownership\<close>

text \<open>Two states that differ at most in failure marks and failure reports.\<close>

definition marks_only :: "ClusterManager \<Rightarrow> ClusterManager \<Rightarrow> bool" where
  "marks_only c c' \<longleftrightarrow>
     m_nodes c' = m_nodes c \<and> m_myself c' = m_myself c \<and> m_my_node_id c' = m_my_node_id c \<and>
     m_slot_owner c' = m_slot_owner c \<and> m_slot_owner_dirty c' = m_slot_owner_dirty c \<and>
     length (objects c') = length (objects c) \<and>
     (\<forall>b < length (objects c). \<exists>fl. obj c' b = (obj c b)\<lparr>flags := fl\<rparr> \<and>
        hasFlag Slave ((obj c b)\<lparr>flags := fl\<rparr>) = hasFlag Slave (obj c b))"

lemma flags_update_flags: "setFlag f n = n\<lparr>flags := flags (setFlag f n)\<rparr>" "clearFlag f n = n\<lparr>flags := flags (clearFlag f n)\<rparr>"
  by (simp_all add: setFlag_def clearFlag_def)

lemma marks_only_refl [simp]: "marks_only c c"
  unfolding marks_only_def by (metis ClusterNode.surjective ClusterNode.update_convs(5))

lemma marks_only_trans:
  assumes "marks_only c c'" "marks_only c' c''"
  shows "marks_only c c''"
proof -
  have "\<exists>fl. obj c'' b = (obj c b)\<lparr>flags := fl\<rparr> \<and> hasFlag Slave ((obj c b)\<lparr>flags := fl\<rparr>) = hasFlag Slave (obj c b)"
    if b: "b < length (objects c)" for b
  proof -
    from assms(1) b obtain f where f: "obj c' b = (obj c b)\<lparr>flags := f\<rparr>" "hasFlag Slave (obj c' b) = hasFlag Slave (obj c b)"
      by (auto simp: marks_only_def)
    from assms b obtain f' where f': "obj c'' b = (obj c' b)\<lparr>flags := f'\<rparr>" "hasFlag Slave (obj c'' b) = hasFlag Slave (obj c' b)"
      by (auto simp: marks_only_def)
    from f f' have "obj c'' b = (obj c b)\<lparr>flags := f'\<rparr>" by simp
    with f(2) f'(2) show ?thesis by metis
  qed
  with assms show ?thesis by (auto simp: marks_only_def)
qed

lemma marks_only_on_node:
  assumes "wf_cluster c" "\<And>n. \<exists>fl. f n = n\<lparr>flags := fl\<rparr>" "\<And>n. hasFlag Slave (f n) = hasFlag Slave n"
  shows "marks_only c (on_node i f c)"
proof (cases "find_node c i")
  case (Some a)
  then have a: "a < length (objects c)" using wf_refs(3)[OF assms(1)] by blast
  have "\<exists>fl. obj (upd_obj a f c) b = (obj c b)\<lparr>flags := fl\<rparr> \<and> hasFlag Slave ((obj c b)\<lparr>flags := fl\<rparr>) = hasFlag Slave (obj c b)" for b
  proof (cases "b = a")
    case True
    obtain fl where "f (obj c a) = (obj c a)\<lparr>flags := fl\<rparr>" using assms(2) by blast
    with True a assms(3)[of "obj c a"] show ?thesis by (auto simp: obj_upd_obj)
  next
    case False
    with a show ?thesis by (intro exI[of _ "flags (obj c b)"]) (simp add: obj_upd_obj)
  qed
  with Some show ?thesis by (simp add: on_node_def marks_only_def)
qed (simp add: on_node_def)

lemma marks_only_report: "marks_only c (add_report i r c)"
proof -
  have "\<exists>fl. obj c b = (obj c b)\<lparr>flags := fl\<rparr> \<and> hasFlag Slave ((obj c b)\<lparr>flags := fl\<rparr>) = hasFlag Slave (obj c b)" for b
    by (rule exI[of _ "flags (obj c b)"]) simp
  then show ?thesis by (simp add: marks_only_def)
qed

lemma marks_only_wf: "marks_only c c' \<Longrightarrow> wf_cluster c \<Longrightarrow> wf_cluster c'"
proof -
  assume m: "marks_only c c'" and wf: "wf_cluster c"
  have "node_id (obj c' b) = node_id (obj c b) \<and> slots (obj c' b) = slots (obj c b)" if "b < length (objects c)" for b
    using m that by (auto simp: marks_only_def)
  then show ?thesis using m wf wf_slots[OF wf] by (intro wf_by_objects[OF wf]) (auto simp: marks_only_def)
qed

lemma marks_only_owner:
  assumes "marks_only c c'" "wf_cluster c"
  shows "owner_of c' = owner_of c" "single_owner c' = single_owner c" "node_refs c' = node_refs c"
    "find_node c' = find_node c"
proof -
  show r: "node_refs c' = node_refs c" "find_node c' = find_node c"
    using assms(1) by (auto simp: marks_only_def node_refs_def find_node_def)
  have o: "node_id (obj c' b) = node_id (obj c b) \<and> holds c' s b = holds c s b" if "b \<in> set (node_refs c)" for b s
    using assms(1) wf_refs(1)[OF assms(2) that] by (auto simp: marks_only_def holds_def)
  show "single_owner c' = single_owner c" using o by (auto simp: single_owner_def r)
  have "find (holds c' s) (node_refs c) = find (holds c s) (node_refs c)" for s
    by (rule find_cong) (simp_all add: o)
  moreover have "find (holds c s) (node_refs c) = Some b \<Longrightarrow> b \<in> set (node_refs c)" for s b
    by (auto simp: find_Some_iff)
  ultimately show "owner_of c' = owner_of c"
    using o by (auto simp: fun_eq_iff owner_of_def r option.map_sel intro!: option.map_cong)
qed

lemma marks_step:
  assumes "wf_cluster c"
  shows "marks_only c (clearNodeFail i c)" "marks_only c (markNodePFail i c)" "marks_only c (markNodeFail i c)"
    "marks_only c (addFailureReport i r c)"
proof -
  have s: "\<exists>fl. setFlag f n = n\<lparr>flags := fl\<rparr>" "\<exists>fl. clearFlag f n = n\<lparr>flags := fl\<rparr>" "\<exists>fl. n = n\<lparr>flags := fl\<rparr>"
    "\<exists>fl. clearFlag f (setFlag g n) = n\<lparr>flags := fl\<rparr>" "\<exists>fl. clearFlag f (clearFlag g n) = n\<lparr>flags := fl\<rparr>" for f g n
    by (auto simp: setFlag_def clearFlag_def intro: exI[of _ "flags n"])
  show "marks_only c (clearNodeFail i c)" "marks_only c (markNodePFail i c)" "marks_only c (markNodeFail i c)"
    unfolding clearNodeFail_def markNodePFail_def markNodeFail_def
    by (rule marks_only_on_node[OF assms]; simp add: s)+
  show "marks_only c (addFailureReport i r c)" by (simp add: addFailureReport_def marks_only_report)
qed

lemma marks_mergeReports: "wf_cluster c \<Longrightarrow> marks_only c (mergeReports msg (clearNodeFail i c))"
proof -
  assume wf: "wf_cluster c"
  have chain: "marks_only d d' \<Longrightarrow> wf_cluster d \<Longrightarrow> marks_only d (addFailureReport j r (markNodePFail k d'))"
    "marks_only d d' \<Longrightarrow> wf_cluster d \<Longrightarrow> marks_only d (markNodeFail k d')" for d d' j r k
    by (meson marks_only_trans marks_only_wf marks_step)+
  show ?thesis
    using marks_step(1)[OF wf, of i] wf chain by (simp add: mergeReports_def Let_def)
qed

lemma update_new: "map_of m k = None \<Longrightarrow> AList.update k v m = m @ [(k, v)]"
  by (induction m) (auto split: if_splits)

lemma refreshNode_effect:
  assumes wf: "wf_cluster c" and recv: "recv \<subseteq> {..<kClusterSlotCount}"
  obtains a n where
    "find_node (refreshNode now msg recv c) = (find_node c)(sender_id msg \<mapsto> a)"
    "find_node c (sender_id msg) = None \<and> a \<notin> set (node_refs c) \<or> find_node c (sender_id msg) = Some a"
    "set (node_refs (refreshNode now msg recv c)) = insert a (set (node_refs c))"
    "fst ` set (m_nodes (refreshNode now msg recv c)) = insert (sender_id msg) (fst ` set (m_nodes c))"
    "obj (refreshNode now msg recv c) a = refreshed now msg recv n" "node_id n = sender_id msg"
    "\<And>b. b < length (objects c) \<Longrightarrow> b \<noteq> a \<Longrightarrow> obj (refreshNode now msg recv c) b = obj c b"
    "wf_cluster (refreshNode now msg recv c)" "m_myself (refreshNode now msg recv c) = m_myself c"
    "m_my_node_id (refreshNode now msg recv c) = m_my_node_id c"
    "m_failure_reports (refreshNode now msg recv c) = m_failure_reports c"
    "a < length (objects (refreshNode now msg recv c))" "m_slot_owner_dirty (refreshNode now msg recv c)"
proof (cases "find_node c (sender_id msg)")
  case (Some a)
  note w = wf_refs(3)[OF wf Some]
  let ?d = "upd_obj a (refreshed now msg recv) c"
  have id: "node_id (refreshed now msg recv (obj c a)) = sender_id msg" using w by (simp add: refreshed_def)
  have sl: "slots (refreshed now msg recv (obj c a)) = recv" by (simp add: refreshed_def)
  have "AList.update (sender_id msg) a (m_nodes c) = m_nodes c"
    using Some by (intro update_triv) (simp add: find_node_def)
  then have d: "refreshNode now msg recv c = dirty ?d"
    using Some w id by (simp add: refreshNode_def getNode_def addNode_def obj_upd_obj) (simp add: upd_obj_def)
  have wd: "wf_cluster ?d" by (rule wf_upd_obj[OF wf]) (use id w sl recv in auto)
  have k: "sender_id msg \<in> fst ` set (m_nodes c)"
    using Some by (force simp: find_node_def dest: map_of_SomeD)
  show ?thesis
    by (rule that[of a "obj c a"]) (use Some w wd k in \<open>auto simp: d obj_upd_obj fun_upd_idem_iff simp del: fun_upd_apply\<close>,
      auto simp: node_refs_def)
next
  case None
  let ?a = "length (objects c)" and ?n = "new_node\<lparr>node_id := sender_id msg\<rparr>"
  let ?R = "refreshed now msg recv ?n"
  let ?d = "c\<lparr>objects := objects c @ [?R], m_nodes := m_nodes c @ [(sender_id msg, ?a)]\<rparr>"
  have id: "node_id ?R = sender_id msg" "slots ?R = recv" by (simp_all add: refreshed_def)
  have new: "AList.update (sender_id msg) ?a (m_nodes c) = m_nodes c @ [(sender_id msg, ?a)]"
    using None by (intro update_new) (simp add: find_node_def)
  have d: "refreshNode now msg recv c = dirty ?d"
    using None new id
    by (simp add: refreshNode_def getNode_def make_shared_def addNode_def upd_obj_def obj_def)
  have o: "obj ?d b = (if b < ?a then obj c b else if b = ?a then ?R else obj ?d b)" for b
    by (simp add: obj_def nth_append)
  have k: "sender_id msg \<notin> fst ` set (m_nodes c)" using None by (simp add: find_node_def map_of_eq_None_iff)
  have "wf_cluster ?d"
    using wf k recv id by (auto simp: wf_cluster_def obj_def nth_append less_SucI)
  moreover have "?a \<notin> set (node_refs c)" using wf_refs(1)[OF wf] by blast
  moreover have "find_node ?d x = ((find_node c)(sender_id msg \<mapsto> ?a)) x" for x
    using None by (cases "map_of (m_nodes c) x") (auto simp: find_node_def map_add_def)
  then have "find_node ?d = (find_node c)(sender_id msg \<mapsto> ?a)" ..
  ultimately show ?thesis
    using None o[of ?a] o by (intro that[of ?a ?n]) (simp_all add: d new_node_def, auto simp: node_refs_def)
qed

lemma hasFlag_refreshed:
  "hasFlag Slave (refreshed now msg recv n) \<longleftrightarrow> msg_flags msg AND flag_bit Slave \<noteq> 0"
  "config_epoch (refreshed now msg recv n) = msg_epoch msg" "slots (refreshed now msg recv n) = recv"
  by (simp_all add: refreshed_def hasFlag_def clearFlag_def and.assoc)

text \<open>The sender's record, stripped of its slots, over the table as it was.\<close>

lemma stripped_sender:
  assumes wf: "wf_cluster c" and so: "single_owner c" and wd: "wf_cluster d"
    and tab: "find_node d = (find_node c)(i \<mapsto> a)" "set (node_refs d) = insert a (set (node_refs c))"
      "find_node c i = None \<and> a \<notin> set (node_refs c) \<or> find_node c i = Some a"
    and a: "\<And>s. \<not> holds d s a" and b: "\<And>x. x \<in> set (node_refs c) \<Longrightarrow> x \<noteq> a \<Longrightarrow> obj d x = obj c x"
  shows "single_owner d" "owner_of d = (\<lambda>s. if owner_of c s = Some i then None else owner_of c s)"
    "epoch_of d = (epoch_of c)(i := config_epoch (obj d a))"
proof -
  have h: "holds d s x \<longleftrightarrow> holds c s x" if "x \<in> set (node_refs c)" "x \<noteq> a" for s x
    using b[OF that] by (simp add: holds_def)
  show sd: "single_owner d"
    unfolding single_owner_def tab using a h so unfolding single_owner_def by (metis insertE)
  have other: "find_node c j = Some x \<Longrightarrow> x \<noteq> a \<longleftrightarrow> j \<noteq> i" for j x
    using tab(3) wf_refs(3)[OF wf, of j x] wf_refs(3)[OF wf, of i a] by (metis option.inject option.distinct(1))
  have in': "find_node c j = Some x \<Longrightarrow> x \<in> set (node_refs c)" for j x using wf_refs(3)[OF wf] by blast
  have "owner_of d s = Some j \<longleftrightarrow> owner_of c s = Some j \<and> j \<noteq> i" for s j
    unfolding owner_of_Some[OF wd sd] owner_of_Some[OF wf so] tab(1)
    using a h other in' by (cases "j = i") (simp, metis fun_upd_other)
  then show "owner_of d = (\<lambda>s. if owner_of c s = Some i then None else owner_of c s)"
    by (intro ext option_eqI) auto
  show "epoch_of d = (epoch_of c)(i := config_epoch (obj d a))"
    using other in' b by (auto simp: fun_eq_iff epoch_of_def tab(1) split: option.split)
qed

lemma recv_range: "fst (base64ToSlots b64 {}) \<subseteq> {..<kClusterSlotCount}"
  by (auto simp: base64ToSlots_def Let_def foldl_collect)

lemma arbitrate_released:
  "wins i e (ep(i := e')) (if own s = Some i then None else own s) = wins i e ep (own s)"
  by (auto simp: wins_def split: option.split)

lemma claims_arbitrate:
  assumes wd: "wf_cluster d" and sd: "single_owner d" and ids: "[] \<notin> fst ` set (m_nodes d)"
    and t: "find_node d i = Some a" "\<not> hasFlag Slave (obj d a)"
    and own: "owner_of d = (\<lambda>s. if owner_of c s = Some i then None else owner_of c s)"
    and ep: "epoch_of d = (epoch_of c)(i := e')"
  shows "wf_cluster (foldl (claim_slot i e a) d ss) \<and> single_owner (foldl (claim_slot i e a) d ss) \<and>
    owner_of (foldl (claim_slot i e a) d ss) =
      arbitrate i e (epoch_of c) {s. s < kClusterSlotCount \<and> int s \<in> set ss} (owner_of c)"
  using claim_slots_refine[OF wd sd ids t, of e ss]
  by (auto simp: arbitrate_def fun_eq_iff own ep arbitrate_released)

text \<open>
  What a PING or PONG does to the ownership map, whatever it says and from a known or an unknown sender: every slot
  keeps at most one owner, and the map becomes \<open>arbitrate\<close> of it with the slots of the message's bitmap (none when the
  sender says it is a replica). The slots are weighed against the epochs of the other nodes and never
  against the sender's own recorded epoch, so that this holds for messages that are older than the record as well.
\<close>

lemma handlePingPong_arbitrates:
  assumes wf: "wf_cluster (mgr b)" and so: "single_owner (mgr b)"
    and ids: "[] \<notin> fst ` set (m_nodes (mgr b))" "sender_id msg \<noteq> []"
  shows "wf_cluster (mgr (handlePingPong now msg b)) \<and> single_owner (mgr (handlePingPong now msg b)) \<and>
    owner_of (mgr (handlePingPong now msg b)) =
      arbitrate (sender_id msg) (msg_epoch msg) (epoch_of (mgr b))
        (if msg_flags msg AND flag_bit Slave \<noteq> 0 then {} else fst (base64ToSlots (slots_base64 msg) {}))
        (owner_of (mgr b))"
proof -
  let ?i = "sender_id msg" and ?recv = "fst (base64ToSlots (slots_base64 msg) {})" and ?e = "msg_epoch msg"
  let ?ss = "map int (filter (\<lambda>s. s \<in> ?recv) [0..<kClusterSlotCount])"
  define d where "d = refreshNode now msg ?recv (mgr b)"
  obtain a n where e:
    "find_node d = (find_node (mgr b))(?i \<mapsto> a)"
    "find_node (mgr b) ?i = None \<and> a \<notin> set (node_refs (mgr b)) \<or> find_node (mgr b) ?i = Some a"
    "set (node_refs d) = insert a (set (node_refs (mgr b)))"
    "fst ` set (m_nodes d) = insert ?i (fst ` set (m_nodes (mgr b)))"
    "obj d a = refreshed now msg ?recv n" "node_id n = ?i"
    "\<And>x. x < length (objects (mgr b)) \<Longrightarrow> x \<noteq> a \<Longrightarrow> obj d x = obj (mgr b) x"
    "wf_cluster d" "m_myself d = m_myself (mgr b)" "m_my_node_id d = m_my_node_id (mgr b)"
    "m_failure_reports d = m_failure_reports (mgr b)" "a < length (objects d)" "m_slot_owner_dirty d"
    by (rule refreshNode_effect[OF wf recv_range[of "slots_base64 msg"], where now = now and msg = msg, folded d_def]) (rule that)
  have range: "{s. s < kClusterSlotCount \<and> int s \<in> set ?ss} = ?recv" using recv_range by auto
  have fin: "mgr (handlePingPong now msg b) = mergeReports msg (clearNodeFail ?i (updateNodeSlots ?i ?ss ?e d))"
    by (simp add: handlePingPong_def Let_def on_mgr_def d_def reply_pong_def sendToAddr_def)
  have keep: "x \<in> set (node_refs (mgr b)) \<Longrightarrow> x \<noteq> a \<Longrightarrow> obj d x = obj (mgr b) x" for x
    using e(7) wf_refs(1)[OF wf] by blast
  have "wf_cluster (updateNodeSlots ?i ?ss ?e d) \<and> single_owner (updateNodeSlots ?i ?ss ?e d) \<and>
      owner_of (updateNodeSlots ?i ?ss ?e d) = arbitrate ?i ?e (epoch_of (mgr b))
        (if msg_flags msg AND flag_bit Slave \<noteq> 0 then {} else ?recv) (owner_of (mgr b))"
  proof (cases "hasFlag Slave (obj d a)")
    case True
    then have "updateNodeSlots ?i ?ss ?e d = d" by (simp add: updateNodeSlots_def e(1))
    moreover have "\<not> holds d s a" for s using True by (simp add: holds_def)
    ultimately show ?thesis
      using stripped_sender[OF wf so e(8) e(1) e(3) e(2) _ keep] e(8) True
      by (simp add: e(5) hasFlag_refreshed arbitrate_def fun_eq_iff)
  next
    case False
    let ?z = "upd_obj a (\<lambda>n. n\<lparr>config_epoch := max (config_epoch n) ?e, slots := {}\<rparr>) d"
    have u: "updateNodeSlots ?i ?ss ?e d = dirty (foldl (claim_slot ?i ?e a) ?z ?ss)"
      using False by (simp add: updateNodeSlots_def e(1) Let_def) (simp add: e(5) hasFlag_refreshed)
    have wz: "wf_cluster ?z" using e(8,12) by (intro wf_upd_obj) auto
    have oz: "obj ?z x = obj d x" if "x \<noteq> a" for x using that e(12) by (simp add: obj_upd_obj)
    have hz: "\<not> holds ?z s a" for s using e(12) by (simp add: holds_def obj_upd_obj)
    have tz: "find_node ?z = (find_node (mgr b))(?i \<mapsto> a)" "set (node_refs ?z) = insert a (set (node_refs (mgr b)))"
      by (simp_all add: e)
    have kz: "x \<in> set (node_refs (mgr b)) \<Longrightarrow> x \<noteq> a \<Longrightarrow> obj ?z x = obj (mgr b) x" for x
      using keep oz by simp
    note st = stripped_sender[OF wf so wz tz e(2) hz kz]
    have fz: "find_node ?z ?i = Some a" "\<not> hasFlag Slave (obj ?z a)" using False e(1,12) by (simp_all add: obj_upd_obj)
    have iz: "[] \<notin> fst ` set (m_nodes ?z)" using ids e(4) by simp
    note cl = claims_arbitrate[OF wz st(1) iz fz st(2,3), where e = "?e" and ss = "?ss"]
    have "\<not> (msg_flags msg AND flag_bit Slave \<noteq> 0)" using False by (simp add: e(5) hasFlag_refreshed)
    with cl show ?thesis unfolding u range by simp
  qed
  moreover note m = marks_mergeReports[of "updateNodeSlots ?i ?ss ?e d" msg ?i]
  ultimately show ?thesis
    unfolding fin using marks_only_owner[OF m] marks_only_wf[OF m] by simp
qed

subsection \<open>Delivery\<close>

text \<open>Handling a list of messages one after the other.\<close>

fun handle_messages :: "(nat \<Rightarrow> int64) \<Rightarrow> nat \<Rightarrow> ClusterMessage list \<Rightarrow> Bus \<Rightarrow> Bus" where
  "handle_messages clock i [] b = b"
| "handle_messages clock i (m # ms) b = handle_messages clock (i + 1) ms (onMessage (clock i) m b)"

lemma handle_messages_append:
  "handle_messages clock i (ms @ ms') b = handle_messages clock (i + length ms) ms' (handle_messages clock i ms b)"
  by (induction ms arbitrary: i b) simp_all

lemma drain_whole:
  "list_all sendable ms \<Longrightarrow> drain_buffer clock i (bytes_of (map toResp ms) @ d) b =
   drain_buffer clock (i + length ms) d (handle_messages clock i ms b)"
  by (induction ms arbitrary: i b) (simp_all add: drain_message)

lemma connection_received:
  "list_all sendable ms \<Longrightarrow> begun (map toResp ms) buf (concat chunks) \<Longrightarrow>
   (\<And>k. \<not> cut_at_marker (map toResp ms) (buf @ concat (take k chunks))) \<Longrightarrow>
   runConnection clock i chunks buf b = ([], handle_messages clock i ms b)"
proof (induction chunks arbitrary: ms buf i b)
  case Nil
  then show ?case by (cases ms) (auto simp: begun_def)
next
  case (Cons c cs)
  obtain now later d where c: "complete (map toResp ms) (buf @ c) = (now, later, d)" by (metis prod_cases3)
  have "(buf @ c) @ concat cs = bytes_of (map toResp ms)" using Cons.prems(2) by (simp add: begun_def)
  note r = complete_begun[OF c this]
  then obtain ms1 ms2 where m: "ms = ms1 @ ms2" "now = map toResp ms1" "later = map toResp ms2"
    by (metis map_eq_append_conv)
  have cut: "\<not> cut_at_marker (map toResp ms2) (d @ concat (take k cs))" for k
  proof (rule cut_at_marker_rest[of "map toResp ms" now])
    show "\<not> cut_at_marker (map toResp ms) ((buf @ c) @ concat (take k cs))" using Cons.prems(3)[of "Suc k"] by simp
  qed (use r m in simp_all)
  have s: "list_all sendable ms1" "list_all sendable ms2" using Cons.prems(1) m(1) by simp_all
  have "begun (map toResp ms2) d (concat cs)" using r m(3) by simp
  from begun_asks_for_more[OF toResp_messages[OF s(2)] this] have "asks_for_more d" using cut[of 0] by simp
  then have "drain_buffer clock i (buf @ c) b = (i + length ms1, d, handle_messages clock i ms1 b)"
    using r m(2) drain_whole[OF s(1)] drain_part by simp
  then show ?case using Cons.IH[of ms2 d] s(2) r m cut by (simp add: handle_messages_append)
qed

text \<open>
  C15: messages survive the wire. Let the bytes that a connection receives be those of messages sent one after the other,
  and let no read end right after the type marker of a value, but anywhere else, inside of a number, a line end or a string.
  Then the connection handles exactly the messages that were sent, each once and in the order in which they were
  sent, however many reads there are, and has no byte left over. Where a read ends right after a type marker the
  reader reports an error and the connection drops what it has of the message.
\<close>

theorem bus_delivers_in_order:
  assumes "list_all sendable ms" "concat chunks = bytes_of (map toResp ms)"
    and "\<forall>k. \<not> cut_at_marker (map toResp ms) (concat (take k chunks))"
  shows "runConnection clock 0 chunks [] b = ([], handle_messages clock 0 ms b)"
proof -
  have "begun (map toResp ms) [] (concat chunks)"
    using assms(1,2) encode_message_nonempty[OF toResp_message] by (cases ms) (auto simp: begun_def)
  then show ?thesis using connection_received[of ms "[]" chunks clock 0 b] assms by simp
qed

text \<open>The witness: a message is published twice, and the first read ends after the line of the second array.\<close>

definition demo_publish :: ClusterMessage where
  "demo_publish = new_message\<lparr>sender_id := ''n1'', mtype := Publish, data1 := ''ch'', data2 := ''x''\<rparr>"

theorem bus_delivers_in_order_witness:
  "let d = encode (toResp demo_publish); b = \<lparr>mgr = new_manager\<lparr>m_my_node_id := ''me''\<rparr>, outbox = [], published = []\<rparr>
   in runConnection (\<lambda>i. 5 + int i) 0 [d @ take 5 d, drop 5 d] [] b = ([], b\<lparr>published := [(''ch'', ''x''), (''ch'', ''x'')]\<rparr>)"
proof -
  let ?d = "encode (toResp demo_publish)" and ?b = "\<lparr>mgr = new_manager\<lparr>m_my_node_id := ''me''\<rparr>, outbox = [], published = []\<rparr>"
  let ?ms = "[demo_publish, demo_publish]"
  have s: "list_all sendable ?ms" by (simp add: demo_publish_def sendable_def new_message_def Publish_def INT64_MAX_def)
  have l: "last (?d @ take 5 ?d) = CHR 10" "last ?d = CHR 10" "drop 5 ?d \<noteq> []" by code_simp+
  have "\<not> cut_at_marker (map toResp ?ms) (concat (take k [?d @ take 5 ?d, drop 5 ?d]))" for k
  proof -
    consider "k = 0" | "k = 1" | "k \<ge> 2" by linarith
    then show ?thesis using cut_last[OF toResp_messages[OF s], of "concat (take k [?d @ take 5 ?d, drop 5 ?d])"] l
      by cases (auto simp: last_drop)
  qed
  then have "runConnection (\<lambda>i. 5 + int i) 0 [?d @ take 5 ?d, drop 5 ?d] [] ?b = ([], handle_messages (\<lambda>i. 5 + int i) 0 ?ms ?b)"
    using s by (intro bus_delivers_in_order) simp_all
  then show ?thesis
    by (simp add: Let_def demo_publish_def new_message_def Publish_def onMessage_def myNodeId_def
       Meet_def Ping_def Pong_def FailMsg_def Update_def handlePublish_def)
qed

subsection \<open>An UPDATE is taken for news about its sender\<close>

definition update_message :: "string \<Rightarrow> ClusterManager \<Rightarrow> nat \<Rightarrow> ClusterMessage" where
  "update_message nid c a =
     new_message\<lparr>mtype := Update, sender_id := m_my_node_id c, about_id := nid, msg_ip := ip (obj c a),
       msg_port := port (obj c a), msg_cluster_port := cluster_port (obj c a), msg_flags := flags (obj c a),
       msg_master_id := master_id (obj c a), msg_epoch := m_config_epoch c,
       slots_base64 := slotsToBase64 (slots (obj c a))\<rparr>"

lemma broadcast_messages:
  "m \<in> snd ` snd ` (set (outbox (broadcast msg ex b)) - set (outbox b)) \<Longrightarrow> m = msg"
proof -
  have "set (outbox (foldl (\<lambda>b a. let n = obj (mgr b) a
      in if hasFlag Myself n then b else if ex \<noteq> [] \<and> node_id n = ex then b
         else sendToAddr (ip n) (cluster_port n) msg b) b as))
      \<subseteq> set (outbox b) \<union> {(i, p, msg) | i p. True}" for as
  proof (induction as arbitrary: b)
    case (Cons a as)
    let ?b = "let n = obj (mgr b) a in if hasFlag Myself n then b else if ex \<noteq> [] \<and> node_id n = ex then b
         else sendToAddr (ip n) (cluster_port n) msg b"
    have "set (outbox ?b) \<subseteq> set (outbox b) \<union> {(i, p, msg) | i p. True}"
      by (auto simp: Let_def sendToAddr_def)
    with Cons[of ?b] show ?case by (simp only: foldl.simps) blast
  qed simp
  from this[of "getAllNodes (mgr b)"] show "m \<in> snd ` snd ` (set (outbox (broadcast msg ex b)) - set (outbox b)) \<Longrightarrow> m = msg"
    unfolding broadcast_def by fastforce
qed

lemma update_is_broadcast:
  "m \<in> snd ` snd ` (set (outbox (broadcastSlotUpdate nid b)) - set (outbox b)) \<Longrightarrow>
   \<exists>a. find_node (mgr b) nid = Some a \<and> m = update_message nid (mgr b) a"
  by (auto simp: broadcastSlotUpdate_def getNode_def update_message_def myNodeId_def getConfigEpoch_def Let_def
      split: option.splits dest!: broadcast_messages[OF imageI[OF imageI], OF DiffI])

lemma marks_only_addr:
  assumes "marks_only c c'" "a < length (objects c)"
  shows "ip (obj c' a) = ip (obj c a)" "port (obj c' a) = port (obj c a)" "config_epoch (obj c' a) = config_epoch (obj c a)"
  using assms by (auto simp: marks_only_def)

text \<open>The record of the sender after a PING, PONG or UPDATE, and those of the others.\<close>

lemma pingpong_record:
  assumes wf: "wf_cluster (mgr b)"
  shows "\<exists>a. find_node (mgr (handlePingPong now msg b)) (sender_id msg) = Some a \<and>
    ip (obj (mgr (handlePingPong now msg b)) a) = msg_ip msg \<and>
    port (obj (mgr (handlePingPong now msg b)) a) = msg_port msg \<and>
    config_epoch (obj (mgr (handlePingPong now msg b)) a) = msg_epoch msg \<and>
    (\<forall>i x. i \<noteq> sender_id msg \<longrightarrow> find_node (mgr b) i = Some x \<longrightarrow>
       config_epoch (obj (mgr (handlePingPong now msg b)) x) = config_epoch (obj (mgr b) x) \<and>
       ip (obj (mgr (handlePingPong now msg b)) x) = ip (obj (mgr b) x) \<and>
       port (obj (mgr (handlePingPong now msg b)) x) = port (obj (mgr b) x)) \<and>
    (\<forall>i. i \<noteq> sender_id msg \<longrightarrow> find_node (mgr (handlePingPong now msg b)) i = find_node (mgr b) i)"
proof -
  let ?i = "sender_id msg" and ?recv = "fst (base64ToSlots (slots_base64 msg) {})" and ?e = "msg_epoch msg"
  let ?ss = "map int (filter (\<lambda>s. s \<in> ?recv) [0..<kClusterSlotCount])"
  define d where "d = refreshNode now msg ?recv (mgr b)"
  define u where "u = updateNodeSlots ?i ?ss ?e d"
  obtain a n where e:
    "find_node d = (find_node (mgr b))(?i \<mapsto> a)"
    "find_node (mgr b) ?i = None \<and> a \<notin> set (node_refs (mgr b)) \<or> find_node (mgr b) ?i = Some a"
    "set (node_refs d) = insert a (set (node_refs (mgr b)))"
    "fst ` set (m_nodes d) = insert ?i (fst ` set (m_nodes (mgr b)))"
    "obj d a = refreshed now msg ?recv n" "node_id n = ?i"
    "\<And>x. x < length (objects (mgr b)) \<Longrightarrow> x \<noteq> a \<Longrightarrow> obj d x = obj (mgr b) x"
    "wf_cluster d" "m_myself d = m_myself (mgr b)" "m_my_node_id d = m_my_node_id (mgr b)"
    "m_failure_reports d = m_failure_reports (mgr b)" "a < length (objects d)" "m_slot_owner_dirty d"
    by (rule refreshNode_effect[OF wf recv_range[of "slots_base64 msg"], where now = now and msg = msg, folded d_def]) (rule that)
  have fin: "mgr (handlePingPong now msg b) = mergeReports msg (clearNodeFail ?i u)"
    by (simp add: handlePingPong_def Let_def on_mgr_def d_def u_def reply_pong_def sendToAddr_def)
  note uf = updateNodeSlots_frame[OF e(8), of ?i ?ss ?e, folded u_def]
  note m = marks_mergeReports[OF conjunct1[OF uf], of msg ?i, folded fin]
  have table: "find_node (mgr (handlePingPong now msg b)) = find_node d"
    using m uf by (auto simp: marks_only_def find_node_def)
  have node: "ip (obj (mgr (handlePingPong now msg b)) x) = ip (obj d x)"
      "port (obj (mgr (handlePingPong now msg b)) x) = port (obj d x)"
      "config_epoch (obj (mgr (handlePingPong now msg b)) x) = (if find_node d ?i = Some x \<and> \<not> hasFlag Slave (obj d x)
          then max (config_epoch (obj d x)) ?e else config_epoch (obj d x))" if x: "x < length (objects d)" for x
  proof -
    from uf x obtain S where "obj u x = (obj d x)\<lparr>slots := S, config_epoch := (if find_node d ?i = Some x \<and> \<not> hasFlag Slave (obj d x)
          then max (config_epoch (obj d x)) ?e else config_epoch (obj d x))\<rparr>" by blast
    moreover have "x < length (objects u)" using uf x by simp
    ultimately show "ip (obj (mgr (handlePingPong now msg b)) x) = ip (obj d x)"
      "port (obj (mgr (handlePingPong now msg b)) x) = port (obj d x)"
      "config_epoch (obj (mgr (handlePingPong now msg b)) x) = (if find_node d ?i = Some x \<and> \<not> hasFlag Slave (obj d x)
          then max (config_epoch (obj d x)) ?e else config_epoch (obj d x))"
      using marks_only_addr[OF m] by simp_all
  qed
  have others: "x \<noteq> a \<and> x < length (objects d) \<and> obj d x = obj (mgr b) x"
    if "i \<noteq> ?i" "find_node (mgr b) i = Some x" for i x
  proof -
    have "find_node d i = Some x" using that by (simp add: e(1))
    then have "x < length (objects d)" "node_id (obj d x) = i" using wf_refs(3)[OF e(8)] by blast+
    moreover have "node_id (obj d a) = ?i" using e(6) by (simp add: e(5) refreshed_def)
    moreover have "x < length (objects (mgr b))" using wf_refs(3)[OF wf that(2)] by blast
    ultimately show ?thesis using that(1) e(7) by blast
  qed
  have "refreshed now msg ?recv n = obj d a" by (simp add: e(5))
  then have "ip (obj d a) = msg_ip msg" "port (obj d a) = msg_port msg" "config_epoch (obj d a) = ?e"
    by (simp_all add: e(5) refreshed_def)
  then show ?thesis
    using node[OF e(12)] others node
    by (intro exI[of _ a]) (auto simp: table e(1))
qed

text \<open>
  C10: gossip refines the arbitration of slots. Let a PING or PONG come from a known or an unknown
  sender, not older than what is on record of the sender. Handling it keeps every slot with at most one owner and turns the
  ownership map into \<open>arbitrate\<close> of it with the slots of the message's bitmap (none when the sender
  says it is a replica): a slot of the bitmap goes to the sender unless its owner has a later epoch, or the
  same epoch and a greater identifier; a slot of the sender that is not in the bitmap becomes free; and no other
  ownership changes. The recorded epochs never go back: that of the sender becomes the one of the message,
  all others stay. (An older message is not refused, see \<open>stale_epoch_accepted\<close>.)
\<close>

theorem gossip_refines_arbitration:
  assumes "wf_cluster (mgr b)" "single_owner (mgr b)"
    and "[] \<notin> fst ` set (m_nodes (mgr b))" "sender_id msg \<noteq> []"
    and "epoch_of (mgr b) (sender_id msg) \<le> msg_epoch msg"
  shows "wf_cluster (mgr (handlePingPong now msg b)) \<and> single_owner (mgr (handlePingPong now msg b)) \<and>
    owner_of (mgr (handlePingPong now msg b)) =
      arbitrate (sender_id msg) (msg_epoch msg) (epoch_of (mgr b))
        (if msg_flags msg AND flag_bit Slave \<noteq> 0 then {} else fst (base64ToSlots (slots_base64 msg) {}))
        (owner_of (mgr b)) \<and>
    epoch_of (mgr (handlePingPong now msg b)) = (epoch_of (mgr b))(sender_id msg := msg_epoch msg) \<and>
    (\<forall>i. epoch_of (mgr b) i \<le> epoch_of (mgr (handlePingPong now msg b)) i)"
proof -
  from pingpong_record[OF assms(1), of now msg] have "epoch_of (mgr (handlePingPong now msg b)) =
      (epoch_of (mgr b))(sender_id msg := msg_epoch msg)"
    by (auto simp: epoch_of_def fun_eq_iff split: option.split)
  then show ?thesis using handlePingPong_arbitrates[OF assms(1-4), of now] assms(5) by auto
qed

text \<open>
  the epoch of a message is never compared with the one on record. After a PING, PONG or UPDATE the
  sender's recorded epoch is the message's, also when the message is older than what was known: the
  check for stale epochs in \<open>updateNodeSlots\<close> compares the message with itself.
\<close>

theorem stale_epoch_accepted:
  assumes "wf_cluster (mgr b)"
  shows "epoch_of (mgr (handlePingPong now msg b)) (sender_id msg) = msg_epoch msg"
  using pingpong_record[OF assms, of now msg] by (auto simp: epoch_of_def)

theorem stale_epoch_accepted_witness:
  "let b = \<lparr>mgr = init [] 0 ''me'' ''h'' 1 2 [] 0 new_manager, outbox = [], published = []\<rparr>;
       new = new_message\<lparr>sender_id := ''n1'', msg_epoch := 9\<rparr>; old = new_message\<lparr>sender_id := ''n1'', msg_epoch := 3\<rparr>
   in epoch_of (mgr (handlePingPong 5 old (handlePingPong 4 new b))) ''n1'' = 3"
proof -
  let ?b = "\<lparr>mgr = init [] 0 ''me'' ''h'' 1 2 [] 0 new_manager, outbox = [], published = []\<rparr>"
  let ?new = "new_message\<lparr>sender_id := ''n1'', msg_epoch := 9\<rparr>"
  have wf: "wf_cluster (mgr ?b)" by (simp add: init_new)
  have "single_owner (mgr ?b)" "[] \<notin> fst ` set (m_nodes (mgr ?b))" by (simp_all add: init_new)
  then have "wf_cluster (mgr (handlePingPong 4 ?new ?b))"
    using handlePingPong_arbitrates[OF wf, of ?new] by (simp add: new_message_def)
  from stale_epoch_accepted[OF this, of 5 "new_message\<lparr>sender_id := ''n1'', msg_epoch := 3\<rparr>"]
  show ?thesis by (simp add: Let_def)
qed

text \<open>
  C32: an UPDATE rewrites its sender. When a node tells the others about the slots of another node, the
  receiver files the address it reads, which is the other node's, under the sender, and the record of
  the node the message is about keeps its address and epoch: requests for the sender's slots are then
  redirected to the other node.
\<close>

theorem update_rewrites_sender:
  assumes "wf_cluster (mgr r)" "m_my_node_id (mgr s) \<noteq> m_my_node_id (mgr r)"
    and "m \<in> snd ` snd ` (set (outbox (broadcastSlotUpdate nid s)) - set (outbox s))"
  shows "\<exists>a x. find_node (mgr s) nid = Some a \<and>
    find_node (mgr (onMessage now m r)) (m_my_node_id (mgr s)) = Some x \<and>
    node_addr (obj (mgr (onMessage now m r)) x) = node_addr (obj (mgr s) a) \<and>
    (\<forall>y. nid \<noteq> m_my_node_id (mgr s) \<longrightarrow> find_node (mgr r) nid = Some y \<longrightarrow>
       node_addr (obj (mgr (onMessage now m r)) y) = node_addr (obj (mgr r) y) \<and>
       config_epoch (obj (mgr (onMessage now m r)) y) = config_epoch (obj (mgr r) y))"
proof -
  obtain a where a: "find_node (mgr s) nid = Some a" "m = update_message nid (mgr s) a"
    using update_is_broadcast[OF assms(3)] by blast
  have m: "onMessage now m r = handlePingPong now m r" "sender_id m = m_my_node_id (mgr s)"
    "msg_ip m = ip (obj (mgr s) a)" "msg_port m = port (obj (mgr s) a)"
    using assms(2) by (simp_all add: a(2) onMessage_def update_message_def new_message_def handleUpdate_def myNodeId_def
        Meet_def Ping_def Pong_def FailMsg_def Update_def Publish_def)
  show ?thesis
    using pingpong_record[OF assms(1), of now m] a(1) by (auto simp: m node_addr_def)
qed

theorem gossip_refines_arbitration_witness:
  "owner_of (mgr (handlePingPong 9 (new_message\<lparr>sender_id := ''b'', msg_epoch := 7, msg_flags := 1,
     slots_base64 := slotsToBase64 {0, 5}\<rparr>) \<lparr>mgr = sample_cluster, outbox = [], published = []\<rparr>)) 0 = Some ''b''"
proof -
  let ?b = "\<lparr>mgr = sample_cluster, outbox = [], published = []\<rparr>"
  let ?m = "new_message\<lparr>sender_id := ''b'', msg_epoch := 7, msg_flags := 1, slots_base64 := slotsToBase64 {0, 5}\<rparr>"
  have g: "owner_of (mgr (handlePingPong 9 ?m ?b)) = arbitrate ''b'' 7 (epoch_of sample_cluster) {0, 5} (owner_of sample_cluster)"
    using gossip_refines_arbitration[of ?b ?m 9] sample_ok(1,2,5)
    by (simp add: base64ToSlots_slotsToBase64 kClusterSlotCount_def epoch_of_def sample_simps)
  have "owner_of sample_cluster 0 = Some ''a''" "epoch_of sample_cluster ''a'' = 4"
    by (simp_all add: owner_of_def holds_def epoch_of_def sample_simps)
  then show ?thesis by (simp add: g arbitrate_def wins_def)
qed

theorem update_rewrites_sender_witness:
  "\<exists>x. find_node (mgr (onMessage 9 (update_message ''b'' sample_cluster 2)
       \<lparr>mgr = init [] 0 ''me'' ''h'' 1 2 [] 0 new_manager, outbox = [], published = []\<rparr>)) ''r'' = Some x \<and>
     node_addr (obj (mgr (onMessage 9 (update_message ''b'' sample_cluster 2)
       \<lparr>mgr = init [] 0 ''me'' ''h'' 1 2 [] 0 new_manager, outbox = [], published = []\<rparr>)) x) = ''hb:7''"
proof -
  let ?r = "\<lparr>mgr = init [] 0 ''me'' ''h'' 1 2 [] 0 new_manager, outbox = [], published = []\<rparr>"
  let ?s = "\<lparr>mgr = sample_cluster, outbox = [], published = []\<rparr>" and ?m = "update_message ''b'' sample_cluster 2"
  have f: "find_node sample_cluster ''b'' = Some 2" "node_refs sample_cluster = [0, 1, 2]"
    "hasFlag Myself (obj sample_cluster 0)" "\<not> hasFlag Myself (obj sample_cluster 1)"
    "\<not> hasFlag Myself (obj sample_cluster 2)" "m_my_node_id sample_cluster = ''r''"
    by (simp_all add: sample_simps)
  then have "?m \<in> snd ` snd ` (set (outbox (broadcastSlotUpdate ''b'' ?s)) - set (outbox ?s))"
    by (simp add: broadcastSlotUpdate_def getNode_def Let_def broadcast_def getAllNodes_def sendToAddr_def
        update_message_def myNodeId_def getConfigEpoch_def del: One_nat_def)
  moreover have "to_string 7 = ''7''" by code_simp
  then have "node_addr (obj sample_cluster 2) = ''hb:7''" by (simp add: node_addr_def sample_simps)
  ultimately show ?thesis
    using update_rewrites_sender[of ?r ?s ?m "''b''" 9] f by (auto simp: init_new)
qed

end
