(* ===== verification/ClusterSteps.thy ===== *)
theory ClusterSteps
  imports ClusterBus
begin

text \<open>
  The cluster state as a state machine: a step is one public operation of the manager or one received
  message, and the invariants hold in every state a started node can reach, in whatever order the
  commands, the timers and the peers act.
\<close>

definition cluster_inv :: "ClusterManager \<Rightarrow> bool" where
  "cluster_inv c \<longleftrightarrow> wf_cluster c \<and> cache_ok c \<and> wf_reports c \<and>
     (\<exists>a. m_myself c = Some a \<and> find_node c (m_my_node_id c) = Some a)"

inductive cluster_step :: "ClusterManager \<Rightarrow> ClusterManager \<Rightarrow> bool" where
  addSlots: "cluster_step c (addSlots ss c)"
| delSlots: "cluster_step c (delSlots ss c)"
| setReplication: "cluster_step c (setReplication mid c)"
| removeNode: "cluster_step c (fst (removeNode i c))"
| pingSent: "cluster_step c (updateNodePingSent i now c)"
| pongReceived: "cluster_step c (updateNodePongReceived i now c)"
| markPFail: "cluster_step c (markNodePFail i c)"
| markFail: "cluster_step c (markNodeFail i c)"
| clearFail: "cluster_step c (clearNodeFail i c)"
| report: "cluster_step c (addFailureReport i r c)"
| clearReport: "cluster_step c (clearFailureReport i r c)"
| failover: "cluster_step c (fst (failoverReplica i c))"
| detection: "cluster_step c (checkFailureDetection now timeout c)"
| bumpEpoch: "cluster_step c (bumpConfigEpoch c)"
| coverage: "cluster_step c (setRequireFullCoverage v c)"
| validity: "cluster_step c (setSlaveValidityFactor n c)"
| barrier: "cluster_step c (setMigrationBarrier n c)"
| reset: "reset generated hard c = Some c' \<Longrightarrow> cluster_step c c'"
| slotOwner: "cluster_step c (fst (getSlotOwner slot c))"
| migrating: "cluster_step c (fst (setSlotMigrating slot i c))"
| importing: "cluster_step c (fst (setSlotImporting slot i c))"
| stable: "cluster_step c (fst (setSlotStable slot c))"
| finish: "cluster_step c (fst (finishMigration slot c))"
| assign: "cluster_step c (fst (setSlotOwner slot i e c))"
| message: "cluster_step c (mgr (onMessage now msg \<lparr>mgr = c, outbox = out, published = pub\<rparr>))"

text \<open>
  Two states with the same table, the same owners and the same cache; the nodes may differ in what
  the invariant does not speak about.
\<close>

definition quiet :: "ClusterManager \<Rightarrow> ClusterManager \<Rightarrow> bool" where
  "quiet c c' \<longleftrightarrow>
     m_nodes c' = m_nodes c \<and> m_myself c' = m_myself c \<and> m_my_node_id c' = m_my_node_id c \<and>
     (m_slot_owner_dirty c' \<or> m_slot_owner c' = m_slot_owner c \<and> m_slot_owner_dirty c' = m_slot_owner_dirty c) \<and>
     length (objects c') = length (objects c) \<and>
     (\<forall>b < length (objects c). node_id (obj c' b) = node_id (obj c b) \<and> slots (obj c' b) \<subseteq> {..<kClusterSlotCount} \<and>
        (m_slot_owner_dirty c' \<or>
         slots (obj c' b) = slots (obj c b) \<and> hasFlag Slave (obj c' b) = hasFlag Slave (obj c b)))"

lemma quiet_inv:
  assumes "quiet c c'" "cluster_inv c" "wf_reports c'"
  shows "cluster_inv c'"
proof -
  have q: "m_nodes c' = m_nodes c" "m_myself c' = m_myself c" "m_my_node_id c' = m_my_node_id c"
    "length (objects c') = length (objects c)" using assms(1) by (auto simp: quiet_def)
  have wf: "wf_cluster c" using assms(2) by (simp add: cluster_inv_def)
  have wf': "wf_cluster c'" by (rule wf_by_objects[OF wf q(1,2,4)]) (use assms(1) in \<open>auto simp: quiet_def\<close>)
  have "cache_ok c'"
  proof (cases "m_slot_owner_dirty c'")
    case False
    then have d: "\<not> m_slot_owner_dirty c" "m_slot_owner c' = m_slot_owner c"
      and o: "\<And>b. b < length (objects c) \<Longrightarrow> node_id (obj c' b) = node_id (obj c b) \<and>
        slots (obj c' b) = slots (obj c b) \<and> hasFlag Slave (obj c' b) = hasFlag Slave (obj c b)"
      using assms(1) by (auto simp: quiet_def)
    have refs: "node_refs c' = node_refs c" by (simp add: node_refs_def q(1))
    have "foldl (owner_pass c') (\<lambda>_. []) (node_refs c) = foldl (owner_pass c) (\<lambda>_. []) (node_refs c)"
      by (rule foldl_cong) (use o wf_refs(1)[OF wf] in \<open>auto simp: owner_pass_def fun_eq_iff\<close>)
    with d assms(2) show ?thesis by (simp add: cache_ok_def cluster_inv_def refs)
  qed (simp add: cache_ok_def)
  with wf' assms(2,3) q show ?thesis by (auto simp: cluster_inv_def find_node_def)
qed

text \<open>The same table over nodes that keep their identity: all that a step which marks the cache dirty must keep.\<close>

definition shape :: "ClusterManager \<Rightarrow> ClusterManager \<Rightarrow> bool" where
  "shape c c' \<longleftrightarrow>
     m_nodes c' = m_nodes c \<and> m_myself c' = m_myself c \<and> m_my_node_id c' = m_my_node_id c \<and>
     m_failure_reports c' = m_failure_reports c \<and> length (objects c') = length (objects c) \<and>
     (\<forall>b < length (objects c). node_id (obj c' b) = node_id (obj c b) \<and> slots (obj c' b) \<subseteq> {..<kClusterSlotCount})"

lemma shape_refl [simp]: "wf_cluster c \<Longrightarrow> shape c c"
  by (simp add: shape_def wf_slots)

lemma shape_trans: "shape c d \<Longrightarrow> shape d e \<Longrightarrow> shape c e"
  by (auto simp: shape_def)

lemma shape_wf: "shape c d \<Longrightarrow> wf_cluster c \<Longrightarrow> wf_cluster d"
  by (rule wf_by_objects) (auto simp: shape_def)

lemma shape_upd:
  assumes "wf_cluster c" "a < length (objects c)" "\<And>n. node_id (f n) = node_id n"
    "slots (f (obj c a)) \<subseteq> {..<kClusterSlotCount}"
  shows "shape c (upd_obj a f c)"
  using assms by (auto simp: shape_def obj_upd_obj dest: wf_slots)

lemma shape_same:
  assumes "wf_cluster c" "m_nodes d = m_nodes c" "objects d = objects c" "m_myself d = m_myself c"
    "m_my_node_id d = m_my_node_id c" "m_failure_reports d = m_failure_reports c"
  shows "shape c d"
  using assms same_table(1)[OF assms(2,3)] by (simp add: shape_def wf_slots)

lemma shape_foldl:
  assumes "\<And>d a. wf_cluster d \<Longrightarrow> a \<in> set as \<Longrightarrow> length (objects d) = length (objects c) \<Longrightarrow> shape d (g d a)" "wf_cluster c"
  shows "shape c (foldl g c as)"
proof -
  have "shape c (foldl g d as)" if "shape c d" for d
    using that assms(1)
  proof (induction as arbitrary: d)
    case (Cons a as)
    have "wf_cluster d" "length (objects d) = length (objects c)"
      using Cons.prems(1) assms(2) by (auto intro: shape_wf simp: shape_def)
    then have "shape c (g d a)" using Cons.prems by (auto intro: shape_trans)
    then show ?case using Cons by simp
  qed simp
  then show ?thesis using assms(2) by simp
qed

lemma shape_inv:
  assumes "shape c d" "m_slot_owner_dirty d" "cluster_inv c"
  shows "cluster_inv d"
proof (rule quiet_inv[OF _ assms(3)])
  show "quiet c d" using assms(1,2) by (auto simp: quiet_def shape_def)
  show "wf_reports d" using assms by (auto simp: cluster_inv_def wf_reports_def reports_of_def shape_def)
qed

lemma shape_dirty: "shape c d \<Longrightarrow> cluster_inv c \<Longrightarrow> cluster_inv (dirty d)"
  by (rule shape_inv[of c]) (auto simp: shape_def)

lemma shape_on_myself:
  assumes "wf_cluster c" "\<And>n. node_id (f n) = node_id n"
    "\<And>n. slots n \<subseteq> {..<kClusterSlotCount} \<Longrightarrow> slots (f n) \<subseteq> {..<kClusterSlotCount}"
  shows "shape c (on_myself f c)"
proof (cases "m_myself c")
  case (Some a)
  then have "a < length (objects c)" by (rule wf_refs(4)[OF assms(1)])
  with Some assms(3)[OF wf_slots[OF assms(1)]] show ?thesis
    by (simp add: on_myself_def shape_upd[OF assms(1) _ assms(2)])
qed (simp add: on_myself_def assms(1))

lemma shape_assign:
  assumes "wf_cluster c" "\<And>s S. s < kClusterSlotCount \<Longrightarrow> S \<subseteq> {..<kClusterSlotCount} \<Longrightarrow> f s S \<subseteq> {..<kClusterSlotCount}"
  shows "shape c (assign_slot f c slot)"
proof (cases "slot_ok slot")
  case True
  then have s: "nat slot < kClusterSlotCount" by (auto simp: slot_ok_def)
  let ?d = "on_myself (\<lambda>n. n\<lparr>slots := f (nat slot) (slots n)\<rparr>) c"
  have 1: "shape c ?d" by (rule shape_on_myself[OF assms(1)]) (use s assms(2) in auto)
  have "shape ?d (set_slot_type (nat slot) Normal ?d)"
    by (rule shape_same[OF shape_wf[OF 1 assms(1)]]) (simp_all add: set_slot_type_def)
  with 1 True show ?thesis by (auto simp: assign_slot_def intro: shape_trans)
qed (simp add: assign_slot_def assms(1))

lemma slots_steps:
  assumes "cluster_inv c"
  shows "cluster_inv (addSlots ss c)" "cluster_inv (delSlots ss c)" "cluster_inv (setReplication mid c)"
proof -
  have wf: "wf_cluster c" using assms by (simp add: cluster_inv_def)
  have "shape c (foldl (assign_slot insert) c ss)" "shape c (foldl (assign_slot (\<lambda>s S. S - {s})) c ss)"
    by (rule shape_foldl[OF shape_assign wf]; auto)+
  then show "cluster_inv (addSlots ss c)" "cluster_inv (delSlots ss c)"
    using assms by (simp_all add: addSlots_def delSlots_def shape_dirty)
  have "shape c (on_myself (\<lambda>n. (setFlag Slave (clearFlag Master (n\<lparr>master_id := mid\<rparr>)))\<lparr>slots := {}\<rparr>) c)"
    by (rule shape_on_myself[OF wf]) simp_all
  then show "cluster_inv (setReplication mid c)"
    using assms by (simp add: setReplication_def shape_dirty)
qed

lemma quiet_on_node:
  assumes "wf_cluster c" "\<And>n. node_id (f n) = node_id n" "\<And>n. slots (f n) = slots n" "\<And>n. hasFlag Slave (f n) = hasFlag Slave n"
  shows "quiet c (on_node i f c)"
proof (cases "find_node c i")
  case (Some a)
  then have "a < length (objects c)" using wf_refs(3)[OF assms(1)] by blast
  with Some assms wf_slots[OF assms(1)] show ?thesis by (auto simp: on_node_def quiet_def obj_upd_obj)
qed (use wf_slots[OF assms(1)] in \<open>simp add: on_node_def quiet_def\<close>)

lemma reports_on_node [simp]: "m_failure_reports (on_node i f c) = m_failure_reports c"
  by (simp add: on_node_def split: option.split)

lemma wf_reports_same: "m_failure_reports d = m_failure_reports c \<Longrightarrow> wf_reports d = wf_reports c"
  by (simp add: wf_reports_def reports_of_def)

lemma marks_steps:
  assumes "cluster_inv c"
  shows "cluster_inv (updateNodePingSent i now c)" "cluster_inv (updateNodePongReceived i now c)"
    "cluster_inv (markNodePFail i c)" "cluster_inv (markNodeFail i c)" "cluster_inv (clearNodeFail i c)"
proof -
  have wf: "wf_cluster c" and r: "wf_reports c" using assms by (simp_all add: cluster_inv_def)
  note q = quiet_inv[OF quiet_on_node[OF wf] assms]
  show "cluster_inv (updateNodePingSent i now c)" "cluster_inv (updateNodePongReceived i now c)"
    "cluster_inv (markNodePFail i c)" "cluster_inv (markNodeFail i c)" "cluster_inv (clearNodeFail i c)"
    unfolding updateNodePingSent_def updateNodePongReceived_def markNodePFail_def markNodeFail_def clearNodeFail_def
    by (rule q; simp add: r wf_reports_same[of "on_node i _ c" c])+
qed

lemma quiet_same:
  assumes "wf_cluster c" "m_nodes d = m_nodes c" "objects d = objects c" "m_myself d = m_myself c"
    "m_my_node_id d = m_my_node_id c" "m_slot_owner d = m_slot_owner c" "m_slot_owner_dirty d = m_slot_owner_dirty c"
  shows "quiet c d"
  using assms same_table(1)[OF assms(2,3)] wf_slots[OF assms(1)] by (simp add: quiet_def)

lemma reports_steps:
  assumes "cluster_inv c"
  shows "cluster_inv (addFailureReport i r c)" "cluster_inv (clearFailureReport i r c)"
proof -
  have wf: "wf_cluster c" and r: "wf_reports c" using assms by (simp_all add: cluster_inv_def)
  have "wf_reports (addFailureReport i r c)"
    using r by (simp add: addFailureReport_def wf_reports_def reports_of_add)
  then show "cluster_inv (addFailureReport i r c)"
    by (rule quiet_inv[OF quiet_same[OF wf] assms, rotated -1]) (simp_all add: addFailureReport_def)
  have "reports_of (clearFailureReport i r c) j = (if j = i then removeAll r (reports_of c i) else reports_of c j)" for j
    by (cases "map_of (m_failure_reports c) i") (simp_all add: clearFailureReport_def reports_of_def umap_get_def Let_def)
  then have "wf_reports (clearFailureReport i r c)" using r by (simp add: wf_reports_def distinct_removeAll)
  then show "cluster_inv (clearFailureReport i r c)"
    by (rule quiet_inv[OF quiet_same[OF wf] assms, rotated -1])
       (simp_all add: clearFailureReport_def Let_def split: option.split)
qed

lemma settings_steps:
  assumes "cluster_inv c"
  shows "cluster_inv (bumpConfigEpoch c)" "cluster_inv (setRequireFullCoverage v c)"
    "cluster_inv (setSlaveValidityFactor n c)" "cluster_inv (setMigrationBarrier n c)"
    "cluster_inv (fst (setSlotMigrating slot i c))" "cluster_inv (fst (setSlotImporting slot i c))"
    "cluster_inv (fst (setSlotStable slot c))"
proof -
  have wf: "wf_cluster c" and r: "wf_reports c" using assms by (simp_all add: cluster_inv_def)
  note q = quiet_inv[OF quiet_same[OF wf] assms]
  have [simp]: "wf_reports d" if "m_failure_reports d = m_failure_reports c" for d
    using r wf_reports_same[OF that] by simp
  have [simp]: "m_failure_reports (put_slot_state s st d) = m_failure_reports d" for s st d
    by (simp add: put_slot_state_def)
  show "cluster_inv (bumpConfigEpoch c)" "cluster_inv (setRequireFullCoverage v c)"
    "cluster_inv (setSlaveValidityFactor n c)" "cluster_inv (setMigrationBarrier n c)"
    by (rule q; simp add: bumpConfigEpoch_def Let_def setRequireFullCoverage_def setSlaveValidityFactor_def
        setMigrationBarrier_def)+
  show "cluster_inv (fst (setSlotMigrating slot i c))" "cluster_inv (fst (setSlotImporting slot i c))"
    "cluster_inv (fst (setSlotStable slot c))"
    by (rule q; simp add: setSlotMigrating_def setSlotImporting_def setSlotStable_def)+
qed

lemma shape_promote:
  assumes "wf_cluster c" "r < length (objects c)" "m < length (objects c)"
  shows "shape c (promote r m c)"
proof -
  let ?c1 = "upd_obj r (\<lambda>n. (setFlag Master (clearFlag Slave n))\<lparr>master_id := []\<rparr>) c"
  let ?c2 = "upd_obj r (\<lambda>n. n\<lparr>slots := slots (obj ?c1 m)\<rparr>) ?c1"
  let ?c3 = "upd_obj r (\<lambda>n. n\<lparr>config_epoch := max (config_epoch n) (config_epoch (obj ?c2 m)) + 1\<rparr>) ?c2"
  have s1: "shape c ?c1" by (rule shape_upd[OF assms(1,2)]) (use wf_slots[OF assms(1,2)] in simp_all)
  note w1 = shape_wf[OF s1 assms(1)]
  have s2: "shape ?c1 ?c2" by (rule shape_upd[OF w1]) (use assms(2) wf_slots[OF w1, of m] assms(3) in simp_all)
  note w2 = shape_wf[OF s2 w1]
  have s3: "shape ?c2 ?c3" by (rule shape_upd[OF w2]) (use assms(2) wf_slots[OF w2, of r] in simp_all)
  note w3 = shape_wf[OF s3 w2]
  have s4: "shape ?c3 (on_myself (\<lambda>n. (setFlag Master (clearFlag Slave n))\<lparr>master_id := [], slots := slots (obj ?c3 m),
      config_epoch := config_epoch (obj ?c3 r)\<rparr>) ?c3)"
    by (rule shape_on_myself[OF w3]) (use wf_slots[OF w3, of m] assms(3) in simp_all)
  show ?thesis
    using shape_trans[OF s1 shape_trans[OF s2 s3]] shape_trans[OF shape_trans[OF s1 shape_trans[OF s2 s3]] s4]
    by (simp add: promote_def Let_def)
qed

lemma failover_step:
  assumes "cluster_inv c"
  shows "cluster_inv (fst (failoverReplica rid c))"
proof -
  have wf: "wf_cluster c" using assms by (simp add: cluster_inv_def)
  have core: "cluster_inv (raise_epoch e (dirty (upd_obj m (\<lambda>n. (clearFlag PFail (setFlag Fail n))\<lparr>slots := {}\<rparr>)
      (foldl (repoint old rid) (promote r m c) (node_refs (promote r m c))))))"
    if "r < length (objects c)" "m < length (objects c)" for r m old e
  proof -
    let ?p = "promote r m c"
    let ?q = "foldl (repoint old rid) ?p (node_refs ?p)"
    let ?z = "upd_obj m (\<lambda>n. (clearFlag PFail (setFlag Fail n))\<lparr>slots := {}\<rparr>) ?q"
    have p: "shape c ?p" by (rule shape_promote[OF wf that])
    note wp = shape_wf[OF p wf]
    have q: "shape ?p ?q"
    proof (rule shape_foldl[OF _ wp])
      fix d a assume d: "wf_cluster d" "a \<in> set (node_refs ?p)" "length (objects d) = length (objects ?p)"
      then have "a < length (objects d)" using wf_refs(1)[OF wp] by simp
      then show "shape d (repoint old rid d a)"
        using shape_upd[OF d(1), of a] wf_slots[OF d(1), of a] d(1) by (simp add: repoint_def)
    qed
    note wq = shape_wf[OF q wp]
    have "m < length (objects ?q)" using that(2) p q by (simp add: shape_def)
    then have z: "shape ?q ?z" by (intro shape_upd[OF wq]) simp_all
    have "shape ?z (raise_epoch e (dirty ?z))"
      by (rule shape_same[OF shape_wf[OF z wq]]) (simp_all add: raise_epoch_def dirty_def)
    with p q z have "shape c (raise_epoch e (dirty ?z))" by (meson shape_trans)
    then show ?thesis by (rule shape_inv[OF _ _ assms]) simp
  qed
  show ?thesis
    using assms core wf_refs(3)[OF wf]
    by (auto simp: failoverReplica_def Let_def split: option.split)
qed

lemma removal_step:
  assumes "cluster_inv c"
  shows "cluster_inv (fst (removeNode i c))"
proof (cases "i = m_my_node_id c \<or> find_node c i = None")
  case True
  with assms show ?thesis by (auto simp: removeNode_def)
next
  case False
  have wf: "wf_cluster c" using assms by (simp add: cluster_inv_def)
  let ?d = "c\<lparr>m_nodes := AList.delete i (m_nodes c)\<rparr>"
  have sub: "set (m_nodes ?d) \<subseteq> set (m_nodes c)" by (auto simp: AList.delete_eq)
  have "wf_cluster ?d"
    using wf sub distinct_delete[of "m_nodes c" i] by (auto simp: wf_cluster_def obj_def)
  moreover have "find_node ?d (m_my_node_id c) = find_node c (m_my_node_id c)"
    using False by (auto simp: find_node_def)
  ultimately show ?thesis
    using False assms by (auto simp: removeNode_def cluster_inv_def cache_ok_def wf_reports_def reports_of_def)
qed

lemma reset_step:
  assumes "cluster_inv c" "reset generated hard c = Some c'"
  shows "cluster_inv c'"
proof -
  have wf: "wf_cluster c" using assms by (simp add: cluster_inv_def)
  obtain a where me: "m_myself c = Some a" and f: "find_node c (m_my_node_id c) = Some a"
    using assms(1) by (auto simp: cluster_inv_def)
  have a: "a < length (objects c)" "node_id (obj c a) = m_my_node_id c" using wf_refs(3)[OF wf f] by auto
  let ?i = "if hard then generated else m_my_node_id c"
  let ?f = "\<lambda>n. (clearFlag Slave (setFlag Master (n\<lparr>slots := {}\<rparr>)))\<lparr>master_id := [], config_epoch := 0\<rparr>"
  have d: "m_myself c' = Some a" "m_my_node_id c' = ?i" "m_nodes c' = [(?i, a)]" "m_slot_owner_dirty c'"
    "m_failure_reports c' = m_failure_reports c"
    "objects c' = (objects c)[a := ?f (if hard then (obj c a)\<lparr>node_id := generated\<rparr> else obj c a)]"
    using assms(2) me a(1) by (cases hard; auto simp: reset_def Let_def on_myself_def upd_obj_def obj_def dirty_def)+
  have id: "node_id (objects c' ! a) = ?i" "slots (objects c' ! a) = {}" using a by (simp_all add: d(6))
  have "slots n \<subseteq> {..<kClusterSlotCount}" if "n \<in> set (objects c')" for n
  proof -
    from that obtain b where "b < length (objects c)" "n = objects c' ! b" by (auto simp: in_set_conv_nth d(6))
    then show ?thesis using id(2) wf_slots[OF wf, of b] by (cases "b = a") (auto simp: d(6) obj_def)
  qed
  then have "wf_cluster c'" using a id by (simp add: wf_cluster_def d(1,3) obj_def) (simp add: d(6))
  moreover have "find_node c' (m_my_node_id c') = Some a" by (simp add: d(2,3) find_node_def)
  ultimately show ?thesis
    using assms(1) d by (auto simp: cluster_inv_def cache_ok_def wf_reports_def reports_of_def)
qed

lemma owner_lookup_step:
  assumes "cluster_inv c"
  shows "cluster_inv (fst (getSlotOwner slot c))"
proof -
  let ?d = "rebuildSlotOwner c"
  have t: "node_refs ?d = node_refs c" "find_node ?d = find_node c" "obj ?d = obj c"
    using same_table[of ?d c] by (simp_all add: rebuildSlotOwner_def)
  have "owner_pass ?d = owner_pass c" unfolding owner_pass_def[abs_def] t ..
  then have "cluster_inv ?d"
    using assms unfolding cluster_inv_def cache_ok_def t wf_reports_def reports_of_def
    by (auto simp: rebuildSlotOwner_def wf_cluster_def obj_def)
  then show ?thesis using assms by (auto simp: getSlotOwner_def Let_def split: option.split)
qed

lemma shape_set_slot: "wf_cluster c \<Longrightarrow> a < length (objects c) \<Longrightarrow> s < kClusterSlotCount \<Longrightarrow> shape c (set_slot s a c)"
  unfolding set_slot_def using wf_slots[of c a] by (intro shape_upd) auto

lemma shape_put_slot_state: "wf_cluster c \<Longrightarrow> shape c (dirty (put_slot_state s st c))"
  by (rule shape_same) (simp_all add: put_slot_state_def dirty_def)

lemma finish_step:
  assumes "cluster_inv c"
  shows "cluster_inv (fst (finishMigration slot c))"
proof -
  have wf: "wf_cluster c" using assms by (simp add: cluster_inv_def)
  let ?s = "nat slot"
  let ?d = "on_myself (\<lambda>n. n\<lparr>slots := slots n - {?s}\<rparr>) c"
  have d: "shape c ?d" by (rule shape_on_myself[OF wf]) auto
  note wd = shape_wf[OF d wf]
  have "shape c (dirty (put_slot_state ?s normal_slot (case find_node ?d i of None \<Rightarrow> ?d | Some a \<Rightarrow> set_slot ?s a ?d)))"
    if "slot_ok slot" for i
  proof -
    have s: "?s < kClusterSlotCount" using that by (auto simp: slot_ok_def)
    have "shape ?d (case find_node ?d i of None \<Rightarrow> ?d | Some a \<Rightarrow> set_slot ?s a ?d)"
      using wd wf_refs(3)[OF wd] s by (auto split: option.split intro!: shape_set_slot)
    then show ?thesis
      using d shape_trans shape_put_slot_state shape_wf[OF _ wd] by blast
  qed
  then have "slot_ok slot \<Longrightarrow> cluster_inv (dirty (put_slot_state ?s normal_slot (case find_node ?d i of None \<Rightarrow> ?d | Some a \<Rightarrow> set_slot ?s a ?d)))" for i
    by (intro shape_inv[OF _ _ assms]) simp_all
  then show ?thesis using assms by (simp add: finishMigration_def Let_def)
qed

lemma assign_step:
  assumes "cluster_inv c"
  shows "cluster_inv (fst (setSlotOwner slot i e c))"
proof -
  have wf: "wf_cluster c" using assms by (simp add: cluster_inv_def)
  let ?s = "nat slot"
  let ?q = "foldl (strip_slot i ?s) c (node_refs c)"
  have q: "shape c ?q"
  proof (rule shape_foldl[OF _ wf])
    fix d a assume d: "wf_cluster d" "a \<in> set (node_refs c)" "length (objects d) = length (objects c)"
    then have a: "a < length (objects d)" using wf_refs(1)[OF wf] by simp
    have "slots (obj d a) - {?s} \<subseteq> {..<kClusterSlotCount}" using wf_slots[OF d(1) a] by blast
    then show "shape d (strip_slot i ?s d a)"
      using shape_upd[OF d(1) a] d(1) by (simp add: strip_slot_def reset_slot_def)
  qed
  note wq = shape_wf[OF q wf]
  have "cluster_inv (raise_epoch e (dirty (put_slot_state ?s normal_slot (set_slot ?s t ?q))))"
    if "slot_ok slot" "t < length (objects c)" for t
  proof -
    have s: "?s < kClusterSlotCount" using that by (auto simp: slot_ok_def)
    have "t < length (objects ?q)" using that(2) q by (simp add: shape_def)
    then have z: "shape ?q (set_slot ?s t ?q)" by (rule shape_set_slot[OF wq _ s])
    note wz = shape_wf[OF z wq]
    have "shape (set_slot ?s t ?q) (raise_epoch e (dirty (put_slot_state ?s normal_slot (set_slot ?s t ?q))))"
      by (rule shape_same[OF wz]) (simp_all add: raise_epoch_def put_slot_state_def dirty_def)
    with q z show ?thesis by (intro shape_inv[OF _ _ assms]) (auto intro: shape_trans)
  qed
  then show ?thesis
    using assms wf_refs(3)[OF wf] by (auto simp: setSlotOwner_def Let_def split: option.split)
qed

lemma detection_step:
  assumes "cluster_inv c"
  shows "cluster_inv (checkFailureDetection now timeout c)"
proof -
  have one: "cluster_inv (detect_node now timeout q d a)" if d: "cluster_inv d" "a < length (objects d)" for d a q
  proof -
    have wf: "wf_cluster d" and r: "wf_reports d" using d by (simp_all add: cluster_inv_def)
    have upd: "cluster_inv (upd_obj a f z)"
      if "cluster_inv z" "a < length (objects z)" "\<And>n. node_id (f n) = node_id n" "\<And>n. slots (f n) = slots n"
        "\<And>n. hasFlag Slave (f n) = hasFlag Slave n" for z f
    proof (rule quiet_inv[OF _ that(1)])
      have "wf_cluster z" using that(1) by (simp add: cluster_inv_def)
      then show "quiet z (upd_obj a f z)" using that wf_slots[of z] by (auto simp: quiet_def obj_upd_obj)
      show "wf_reports (upd_obj a f z)" using that(1) by (simp add: cluster_inv_def wf_reports_def)
    qed
    have rep: "cluster_inv (add_report i x z)" if "cluster_inv z" for z i x
    proof (rule quiet_inv[OF quiet_same that])
      show "wf_cluster z" using that by (simp add: cluster_inv_def)
      show "wf_reports (add_report i x z)" using that by (simp add: cluster_inv_def wf_reports_def reports_of_add)
    qed simp_all
    have p: "cluster_inv (detect_pfail now timeout a d)"
      using d upd[OF d, of "setFlag PFail"] rep by (simp add: detect_pfail_def Let_def split: option.split)
    have "a < length (objects (detect_pfail now timeout a d))"
      using d(2) by (simp add: detect_pfail_def Let_def split: option.split)
    then have "cluster_inv (detect_fail q a (detect_pfail now timeout a d))"
      using p upd[OF p, of "\<lambda>n. clearFlag PFail (setFlag Fail n)"] by (simp add: detect_fail_def)
    then show ?thesis using d(1) by (simp add: detect_node_def)
  qed
  have len: "length (objects (detect_node now timeout q d a)) = length (objects d)" for q d a
    by (simp add: detect_node_def detect_fail_def detect_pfail_def Let_def split: option.split)
  have "cluster_inv (foldl (detect_node now timeout q) d as)"
    if "cluster_inv d" "\<forall>a \<in> set as. a < length (objects d)" for q d as
    using that by (induction as arbitrary: d) (simp_all add: one len)
  then show ?thesis
    using assms wf_refs(1)[of c] by (simp add: checkFailureDetection_def cluster_inv_def)
qed

lemma claim_slots_other:
  "m_my_node_id (foldl (claim_slot i e t) c ss) = m_my_node_id c"
  "m_failure_reports (foldl (claim_slot i e t) c ss) = m_failure_reports c"
proof -
  have "m_my_node_id (claim_slot i e t d s) = m_my_node_id d \<and> m_failure_reports (claim_slot i e t d s) = m_failure_reports d" for d s
    by (simp add: claim_slot_def Let_def set_slot_def reset_slot_def split: option.split)
  then show "m_my_node_id (foldl (claim_slot i e t) c ss) = m_my_node_id c"
    "m_failure_reports (foldl (claim_slot i e t) c ss) = m_failure_reports c"
    by (induction ss arbitrary: c) simp_all
qed

lemma update_slots_step:
  assumes "cluster_inv c" "m_slot_owner_dirty c"
  shows "cluster_inv (updateNodeSlots i ss e c)"
proof (rule shape_inv[OF _ _ assms(1)])
  have wf: "wf_cluster c" using assms by (simp add: cluster_inv_def)
  note f = updateNodeSlots_frame[OF wf, of i ss e]
  have other: "m_my_node_id (updateNodeSlots i ss e c) = m_my_node_id c"
    "m_failure_reports (updateNodeSlots i ss e c) = m_failure_reports c" "m_slot_owner_dirty (updateNodeSlots i ss e c)"
    using assms(2) by (simp_all add: updateNodeSlots_def Let_def claim_slots_other split: option.split)
  show "m_slot_owner_dirty (updateNodeSlots i ss e c)" by (rule other)
  have "node_id (obj (updateNodeSlots i ss e c) b) = node_id (obj c b) \<and>
      slots (obj (updateNodeSlots i ss e c) b) \<subseteq> {..<kClusterSlotCount}" if b: "b < length (objects c)" for b
  proof
    from f b obtain S E where "obj (updateNodeSlots i ss e c) b = (obj c b)\<lparr>slots := S, config_epoch := E\<rparr>" by blast
    then show "node_id (obj (updateNodeSlots i ss e c) b) = node_id (obj c b)" by simp
    show "slots (obj (updateNodeSlots i ss e c) b) \<subseteq> {..<kClusterSlotCount}"
      using wf_slots[OF conjunct1[OF f]] f b by simp
  qed
  then show "shape c (updateNodeSlots i ss e c)" using f other by (simp add: shape_def)
qed

lemma merge_step:
  assumes "cluster_inv c"
  shows "cluster_inv (mergeReports msg c)"
proof -
  have r: "cluster_inv d \<Longrightarrow> cluster_inv (addFailureReport j x (markNodePFail k d))" for d j x k
    by (simp add: reports_steps marks_steps)
  show ?thesis using assms r by (simp add: mergeReports_def Let_def marks_steps)
qed

lemma refresh_step:
  assumes "cluster_inv c" "sender_id msg \<noteq> m_my_node_id c" "recv \<subseteq> {..<kClusterSlotCount}"
  shows "cluster_inv (refreshNode now msg recv c) \<and> m_slot_owner_dirty (refreshNode now msg recv c)"
proof -
  have wf: "wf_cluster c" using assms by (simp add: cluster_inv_def)
  show ?thesis
    by (rule refreshNode_effect[OF wf assms(3), of now msg])
       (use assms in \<open>auto simp: cluster_inv_def cache_ok_def wf_reports_def reports_of_def\<close>)
qed

lemma meet_step:
  assumes "cluster_inv (mgr b)" "sender_id msg \<noteq> m_my_node_id (mgr b)"
  shows "cluster_inv (mgr (handleMeet now msg b))"
proof -
  let ?c = "mgr b" and ?a = "length (objects (mgr b))"
  let ?n = "(clearFlag Myself (new_node\<lparr>node_id := sender_id msg, ip := msg_ip msg, port := msg_port msg,
      cluster_port := msg_cluster_port msg, flags := msg_flags msg\<rparr>))
      \<lparr>master_id := msg_master_id msg, slots := fst (base64ToSlots (slots_base64 msg) {}), pong_received := now\<rparr>"
  let ?d = "?c\<lparr>objects := objects ?c @ [?n], m_nodes := AList.update (sender_id msg) ?a (m_nodes ?c)\<rparr>"
  have wf: "wf_cluster ?c" using assms by (simp add: cluster_inv_def)
  have d: "mgr (handleMeet now msg b) = dirty ?d"
    by (simp add: handleMeet_def Let_def make_shared_def reply_pong_def sendToAddr_def addNode_def obj_def)
  have "distinct (map fst (m_nodes ?d))" using wf by (simp add: wf_cluster_def distinct_update)
  moreover have "a < length (objects ?d) \<and> node_id (obj ?d a) = k" if "(k, a) \<in> set (m_nodes ?d)" for k a
  proof -
    from that have "(k, a) = (sender_id msg, ?a) \<or> (k, a) \<in> set (m_nodes ?c)" using in_set_update by force
    then show ?thesis using wf by (auto simp: wf_cluster_def obj_def nth_append)
  qed
  moreover have "\<forall>n \<in> set (objects ?d). slots n \<subseteq> {..<kClusterSlotCount}"
    using wf recv_range[of "slots_base64 msg"] by (simp add: wf_cluster_def)
  moreover have "\<forall>a. m_myself ?d = Some a \<longrightarrow> a < length (objects ?d)" using wf by (simp add: wf_cluster_def less_SucI)
  ultimately have "wf_cluster ?d" unfolding wf_cluster_def by blast
  moreover have "find_node ?d (m_my_node_id ?c) = find_node ?c (m_my_node_id ?c)"
    using assms(2) by (simp add: find_node_def)
  ultimately show ?thesis
    using assms(1) unfolding d by (auto simp: cluster_inv_def cache_ok_def wf_reports_def reports_of_def)
qed

lemma message_step:
  assumes "cluster_inv (mgr b)"
  shows "cluster_inv (mgr (onMessage now msg b))"
proof (cases "sender_id msg = m_my_node_id (mgr b)")
  case False
  have "cluster_inv (mgr (handlePingPong now msg b))"
    using refresh_step[OF assms False recv_range, of now "slots_base64 msg"]
    by (auto simp: handlePingPong_def Let_def on_mgr_def reply_pong_def sendToAddr_def
        intro!: merge_step marks_steps update_slots_step)
  then show ?thesis
    using assms meet_step[OF assms False] marks_steps(4)[OF assms]
    by (simp add: onMessage_def handleUpdate_def handleFail_def handlePublish_def on_mgr_def)
qed (use assms in \<open>simp add: onMessage_def myNodeId_def\<close>)

lemmas cluster_steps =
  slots_steps marks_steps reports_steps settings_steps failover_step removal_step reset_step owner_lookup_step
  finish_step assign_step detection_step

lemma cluster_step_inv: "cluster_step c c' \<Longrightarrow> cluster_inv c \<Longrightarrow> cluster_inv c'"
  by (cases rule: cluster_step.cases) (use message_step in \<open>auto intro: cluster_steps\<close>)

text \<open>
  C9: the invariants of a running node. After any sequence of commands, timer runs and messages from
  peers, starting from a node that has just been initialised, the table maps every identifier to one
  node that carries it, no slot bitmap leaves the range, the cached slot table is stale or right, no
  node counts twice among the reports against another, and the node's own record is the one in the
  table.
\<close>

theorem cluster_invariant:
  assumes "cluster_step\<^sup>*\<^sup>* (init generated now my_id bind_ip prt cport aip aport new_manager) c"
  shows "wf_cluster c \<and> cache_ok c \<and> wf_reports c \<and>
    (\<exists>a. m_myself c = Some a \<and> find_node c (m_my_node_id c) = Some a \<and> node_id (obj c a) = m_my_node_id c)"
proof -
  have "cluster_inv (init generated now my_id bind_ip prt cport aip aport new_manager)"
    by (simp add: cluster_inv_def cache_ok_def wf_reports_def reports_of_def umap_get_def find_node_def init_new)
  with assms have "cluster_inv c"
    by (induction rule: rtranclp_induct) (auto intro: cluster_step_inv)
  then show ?thesis using wf_refs(3)[of c] by (auto simp: cluster_inv_def)
qed

theorem cluster_invariant_witness:
  "wf_cluster (setReplication ''n1'' (mgr (onMessage 5 (new_message\<lparr>mtype := Meet, sender_id := ''n1''\<rparr>)
     \<lparr>mgr = init ''g'' 0 [] ''h'' 1 2 [] 0 new_manager, outbox = [], published = []\<rparr>)))"
proof -
  let ?c = "init ''g'' 0 [] ''h'' 1 2 [] 0 new_manager"
  let ?d = "mgr (onMessage 5 (new_message\<lparr>mtype := Meet, sender_id := ''n1''\<rparr>) \<lparr>mgr = ?c, outbox = [], published = []\<rparr>)"
  have "cluster_step ?c ?d" by (rule cluster_step.message)
  moreover have "cluster_step ?d (setReplication ''n1'' ?d)" by (rule cluster_step.setReplication)
  ultimately have "cluster_step\<^sup>*\<^sup>* ?c (setReplication ''n1'' ?d)" by simp
  from cluster_invariant[OF this] show ?thesis by blast
qed

end
