(* ===== verification/ClusterConf.thy ===== *)
theory ClusterConf
  imports ClusterInv
begin

text \<open>
  The node table on disk, \<open>zero/kv/cluster/cluster_config.cc\<close>: the text that \<open>save\<close> writes to \<open>nodes.conf\<close>, and
  \<open>load\<close>, which reads it back line by line. The contents of the file are a value (\<open>None\<close> when it cannot be
  opened); an exception that leaves \<open>load\<close> (\<open>std::stoi\<close>, \<open>std::stoull\<close>) is \<open>None\<close> as its result.
\<close>

subsection \<open>Streams\<close>

text \<open>\<open>std::getline\<close> with a delimiter, until the stream ends.\<close>

function getlines :: "char \<Rightarrow> string \<Rightarrow> string list" where
  "getlines d s =
     (if s = [] then [] else takeWhile (\<lambda>c. c \<noteq> d) s # getlines d (drop 1 (dropWhile (\<lambda>c. c \<noteq> d) s)))"
  by pat_completeness auto
termination
  by (relation "measure (length \<circ> snd)") (auto simp: less_Suc_eq_le length_dropWhile_le diff_less_Suc
      intro: le_less_trans[OF diff_le_mono[OF length_dropWhile_le]])

declare getlines.simps [simp del]

text \<open>\<open>operator>>\<close> into strings, until the stream ends.\<close>

function words :: "string \<Rightarrow> string list" where
  "words s =
     (case dropWhile is_space s of
        [] \<Rightarrow> []
      | c # r \<Rightarrow> (c # takeWhile (\<lambda>x. \<not> is_space x) r) # words (dropWhile (\<lambda>x. \<not> is_space x) r))"
  by pat_completeness auto
termination
proof (relation "measure length")
  fix s r :: string and c
  assume "dropWhile is_space s = c # r"
  then have "Suc (length r) \<le> length s" by (metis length_Cons length_dropWhile_le)
  then show "(dropWhile (\<lambda>x. \<not> is_space x) r, s) \<in> measure length"
    using length_dropWhile_le[of "\<lambda>x. \<not> is_space x" r] by simp
qed simp

declare words.simps [simp del]

subsection \<open>Parsing\<close>

text \<open>\<open>parseAddr\<close>: \<open>None\<close> is an exception; the flag is its result, with the address, port and bus port.\<close>

definition parseAddr :: "string \<Rightarrow> (bool \<times> string \<times> int \<times> int) option" where
  "parseAddr s =
     (let at = find_from (CHR ''@'') s 0;
          client_part = (case at of None \<Rightarrow> s | Some i \<Rightarrow> take i s)
      in case (case at of None \<Rightarrow> Some 0 | Some i \<Rightarrow> stoi (drop (i + 1) s)) of
           None \<Rightarrow> None
         | Some cport \<Rightarrow>
             (case find_from (CHR '':'') client_part 0 of
                None \<Rightarrow> Some (False, [], 0, cport)
              | Some colon \<Rightarrow>
                  (case stoi (drop (colon + 1) client_part) of
                     None \<Rightarrow> None
                   | Some prt \<Rightarrow> Some (take colon client_part \<noteq> [] \<and> prt > 0, take colon client_part, prt, cport))))"

definition flag_of :: "string \<Rightarrow> uint16" where
  "flag_of token =
     (if token = ''myself'' then flag_bit Myself
      else if token = ''master'' then flag_bit Master
      else if token = ''slave'' then flag_bit Slave
      else if token = ''fail?'' then flag_bit PFail
      else if token = ''fail'' then flag_bit Fail
      else 0)"

definition parseFlags :: "string \<Rightarrow> uint16" where
  "parseFlags s = foldl (\<lambda>fl token. fl OR flag_of token) 0 (getlines (CHR '','') s)"

definition buildFlags :: "uint16 \<Rightarrow> string" where
  "buildFlags fl = join_commas (flag_names fl)"

definition strip_marker :: "string \<Rightarrow> string" where
  "strip_marker s =
     (if hd s = CHR ''['' \<and> last s = CHR '']''
      then let token = take (length s - 2) (drop 1 s)
           in case find_from (CHR ''-'') token 0 of None \<Rightarrow> token | Some dash \<Rightarrow> take dash token
      else s)"

definition parseSlots :: "string \<Rightarrow> nat set \<Rightarrow> nat set option" where
  "parseSlots s S =
     (if s = [] then Some S
      else let token = strip_marker s
           in case find_from (CHR ''-'') token 0 of
                None \<Rightarrow>
                  (case stoi token of
                     None \<Rightarrow> None
                   | Some slot \<Rightarrow> if slot_ok slot then Some (insert (nat slot) S) else Some S)
              | Some dash \<Rightarrow>
                  (case (stoi (take dash token), stoi (drop (dash + 1) token)) of
                     (Some start, Some end') \<Rightarrow>
                       if start < 0 \<or> end' \<ge> int kClusterSlotCount \<or> start > end' then Some S
                       else Some (S \<union> {nat start..nat end'})
                   | _ \<Rightarrow> None))"

fun parse_all_slots :: "string list \<Rightarrow> nat set \<Rightarrow> nat set option" where
  "parse_all_slots [] S = Some S"
| "parse_all_slots (t # ts) S = (case parseSlots t S of None \<Rightarrow> None | Some S' \<Rightarrow> parse_all_slots ts S')"

subsection \<open>Loading\<close>

text \<open>The fields of a line; a string that the stream could not supply stays empty.\<close>

definition word_at :: "string list \<Rightarrow> nat \<Rightarrow> string" where
  "word_at ws i = (if i < length ws then ws ! i else [])"

text \<open>One turn of the loop over the lines: the manager and the node that carries the myself flag so far.\<close>

definition load_line :: "string \<Rightarrow> ClusterManager \<times> nat option \<Rightarrow> (ClusterManager \<times> nat option) option" where
  "load_line line st =
     (case st of (c, myself) \<Rightarrow>
        if line = [] \<or> hd line = CHR ''#'' then Some (c, myself)
        else let ws = words line
             in if word_at ws 0 = [] then Some (c, myself)
                else case parseAddr (word_at ws 1) of
                  None \<Rightarrow> None
                | Some (ok, host, prt, cport) \<Rightarrow>
                    if \<not> ok then Some (c, myself)
                    else case (stoull (word_at ws 6), parse_all_slots (drop 8 ws) {}) of
                      (Some epoch, Some S) \<Rightarrow>
                        let node = new_node\<lparr>node_id := word_at ws 0, ip := host, port := prt,
                              cluster_port := (if cport > 0 then cport else prt + 10000),
                              flags := parseFlags (word_at ws 2),
                              master_id := (if word_at ws 3 \<noteq> ''-'' then word_at ws 3 else []),
                              config_epoch := epoch, slots := S\<rparr>;
                            (a, c) = make_shared node c
                        in Some (addNode (Some a) c, if hasFlag Myself node then Some a else myself)
                    | _ \<Rightarrow> None)"

fun load_lines :: "string list \<Rightarrow> ClusterManager \<times> nat option \<Rightarrow> (ClusterManager \<times> nat option) option" where
  "load_lines [] st = Some st"
| "load_lines (l # ls) st = (case load_line l st of None \<Rightarrow> None | Some st' \<Rightarrow> load_lines ls st')"

definition load_config :: "string option \<Rightarrow> ClusterManager \<Rightarrow> ClusterManager option" where
  "load_config file c =
     (case file of
        None \<Rightarrow> Some c
      | Some contents \<Rightarrow>
          (case load_lines (getlines (CHR 0x0A) contents) (c, None) of
             None \<Rightarrow> None
           | Some (c', myself) \<Rightarrow> Some (setMyselfFromConfig myself c')))"

subsection \<open>Saving\<close>

definition config_line :: "ClusterNode \<Rightarrow> string" where
  "config_line n =
     node_id n @ '' '' @ node_address_text n @ '' '' @ buildFlags (flags n) @ '' '' @ master_text n @ '' ''
     @ to_string (ping_sent n) @ '' '' @ to_string (pong_received n) @ '' ''
     @ dec_nat (unat (config_epoch n)) @ '' '' @ ''connected '' @ slots_text n @ [CHR 0x0A]"

definition save_config :: "ClusterManager \<Rightarrow> string" where
  "save_config c = concat (map (\<lambda>a. config_line (obj c a)) (getAllNodes c))"

subsection \<open>Reading back what was written\<close>

lemma words_token:
  assumes "t \<noteq> []" "\<forall>c \<in> set t. \<not> is_space c"
  shows "words (t @ CHR '' '' # s) = t # words s"
proof -
  obtain c r where t: "t = c # r" using assms(1) by (cases t) auto
  have sp: "is_space (CHR '' '')" by code_simp
  then have "words (CHR '' '' # s) = words s" by (subst (1 2) words.simps) simp
  then show ?thesis
    using assms(2) sp unfolding t by (subst words.simps) (simp add: takeWhile_append2 dropWhile_append2)
qed

lemma words_Nil [simp]: "words [] = []"
  by (simp add: words.simps)

lemma words_tokens:
  "\<forall>t \<in> set ts. t \<noteq> [] \<and> (\<forall>c \<in> set t. \<not> is_space c) \<Longrightarrow> words (concat (map (\<lambda>t. t @ '' '') ts)) = ts"
  by (induction ts) (simp_all add: words_token)

lemma getlines_line: "\<forall>c \<in> set l. c \<noteq> d \<Longrightarrow> getlines d (l @ d # s) = l # getlines d s"
  by (subst getlines.simps) (simp add: takeWhile_append2 dropWhile_append2)

lemma getlines_lines:
  "\<forall>l \<in> set ls. \<forall>c \<in> set l. c \<noteq> d \<Longrightarrow> getlines d (concat (map (\<lambda>l. l @ [d]) ls)) = ls"
  by (induction ls) (simp_all add: getlines_line getlines.simps[of d "[]"])

lemma getlines_last: "l \<noteq> [] \<Longrightarrow> \<forall>c \<in> set l. c \<noteq> d \<Longrightarrow> getlines d l = [l]"
  by (subst getlines.simps) (simp add: takeWhile_eq_all_conv[THEN iffD2] dropWhile_eq_Nil_conv[THEN iffD2] getlines.simps[of d "[]"])

lemma getlines_join:
  "ts \<noteq> [] \<Longrightarrow> \<forall>t \<in> set ts. t \<noteq> [] \<and> (\<forall>c \<in> set t. c \<noteq> CHR '','') \<Longrightarrow> getlines (CHR '','') (join_commas ts) = ts"
  by (induction ts rule: join_commas.induct) (simp_all add: getlines_last getlines_line)

lemma find_char_after: "c \<notin> set s \<Longrightarrow> find_from c (s @ c # r) 0 = Some (length s)"
  by (induction s) (auto simp: find_from_def)

lemma find_char_absent: "c \<notin> set s \<Longrightarrow> find_from c s 0 = None"
  by (induction s) (auto simp: find_from_def)

lemma digits_of: "c \<in> set (dec_nat n) \<Longrightarrow> c \<noteq> CHR ''-'' \<and> c \<noteq> CHR ''['' \<and> c \<noteq> CHR '' '' \<and> c \<noteq> CHR '','' \<and> c \<noteq> CHR '':'' \<and> c \<noteq> CHR ''@'' \<and> c \<noteq> CHR 0x0A \<and> \<not> is_space c"
  using dec_nat_digits[of c n] digit_not_space[of c] by (auto simp: is_digit_def)

lemma leading_int_dec_nat: "leading_int (dec_nat n) = Some (int n)"
  using leading_int_to_string[of "int n"] by (simp add: to_string_def)

subsubsection \<open>Flags\<close>

lemma flag_names_ok: "flag_names fl \<noteq> []" "t \<in> set (flag_names fl) \<Longrightarrow> t \<noteq> [] \<and> (\<forall>c \<in> set t. c \<noteq> CHR '','' \<and> \<not> is_space c)"
  by (auto simp: flag_names_def Let_def is_space_def split: if_splits)

lemma low_flags:
  "fl AND 31 = (if fl AND 4 \<noteq> 0 then 4 else 0) OR (if fl AND 1 \<noteq> 0 then 1 else 0) OR (if fl AND 2 \<noteq> 0 then 2 else 0)
     OR (if fl AND 16 \<noteq> 0 then 16 else 0) OR (if fl AND 8 \<noteq> 0 then 8 else (0 :: uint16))"
proof -
  have bx: "bit (if P then flag_bit f else 0) n \<longleftrightarrow> P \<and> n = flag_index f" for P f n
    using flag_index_less[of f] by (auto simp: flag_bit_exp bit_exp_iff)
  have five: "n < 5 \<longleftrightarrow> n = 0 \<or> n = 1 \<or> n = 2 \<or> n = 3 \<or> n = 4" for n :: nat by linarith
  have "fl AND mask 5 = (if bit fl 2 then flag_bit Myself else 0) OR (if bit fl 0 then flag_bit Master else 0)
      OR (if bit fl 1 then flag_bit Slave else 0) OR (if bit fl 4 then flag_bit Fail else 0)
      OR (if bit fl 3 then flag_bit PFail else 0)"
    by (rule bit_word_eqI) (auto simp: bit_and_iff bit_or_iff bit_mask_iff bx five simp del: flag_bit.simps)
  moreover have "mask 5 = (31 :: uint16)" by (simp add: mask_eq_exp_minus_1)
  moreover have "(fl AND 4 \<noteq> 0) = bit fl 2" "(fl AND 1 \<noteq> 0) = bit fl 0" "(fl AND 2 \<noteq> 0) = bit fl 1"
    "(fl AND 16 \<noteq> 0) = bit fl 4" "(fl AND 8 \<noteq> 0) = bit fl 3"
    using flag_bit_iff[of fl Myself] flag_bit_iff[of fl Master] flag_bit_iff[of fl Slave] flag_bit_iff[of fl Fail]
      flag_bit_iff[of fl PFail] by simp_all
  ultimately show ?thesis by (simp only: flag_bit.simps)
qed

lemma parseFlags_buildFlags: "parseFlags (buildFlags fl) = fl AND 31"
proof -
  have "getlines (CHR '','') (buildFlags fl) = flag_names fl"
    unfolding buildFlags_def using flag_names_ok(2)[of _ fl] flag_names_ok(1)[of fl] by (intro getlines_join) auto
  then show ?thesis
    unfolding parseFlags_def low_flags by (simp add: flag_names_def Let_def flag_of_def)
qed

subsubsection \<open>Addresses and slots\<close>

definition storable :: "ClusterNode \<Rightarrow> bool" where
  "storable n \<longleftrightarrow>
     node_id n \<noteq> [] \<and> hd (node_id n) \<noteq> CHR ''#'' \<and> (\<forall>c \<in> set (node_id n). \<not> is_space c) \<and>
     ip n \<noteq> [] \<and> (\<forall>c \<in> set (ip n). \<not> is_space c \<and> c \<noteq> CHR '':'' \<and> c \<noteq> CHR ''@'') \<and>
     0 < port n \<and> port n < 2 ^ 31 \<and> 0 < cluster_port n \<and> cluster_port n < 2 ^ 31 \<and>
     master_id n \<noteq> ''-'' \<and> (\<forall>c \<in> set (master_id n). \<not> is_space c) \<and> slots n \<subseteq> {..<kClusterSlotCount}"

lemma to_string_pos: "0 < k \<Longrightarrow> to_string k = dec_nat (nat k)"
  by (simp add: to_string_def)

lemma parseAddr_text:
  assumes "storable n"
  shows "parseAddr (node_address_text n) = Some (True, ip n, port n, cluster_port n)"
proof -
  let ?client = "ip n @ CHR '':'' # dec_nat (nat (port n))" and ?bus = "dec_nat (nat (cluster_port n))"
  have t: "node_address_text n = ?client @ CHR ''@'' # ?bus"
    using assms by (simp add: node_address_text_def to_string_pos storable_def)
  have at: "find_from (CHR ''@'') (?client @ CHR ''@'' # ?bus) 0 = Some (length ?client)"
    by (rule find_char_after) (use assms digits_of in \<open>auto simp: storable_def\<close>)
  have colon: "find_from (CHR '':'') ?client 0 = Some (length (ip n))"
    by (rule find_char_after) (use assms in \<open>auto simp: storable_def\<close>)
  have "stoi ?bus = Some (cluster_port n)" "stoi (dec_nat (nat (port n))) = Some (port n)"
    using assms by (auto simp: stoi_def leading_int_dec_nat storable_def)
  then show ?thesis
    using assms at colon unfolding t by (simp add: parseAddr_def storable_def)
qed

definition range_token :: "nat \<times> nat \<Rightarrow> string" where
  "range_token r = (case r of (a, b) \<Rightarrow> if a = b then dec_nat a else dec_nat a @ CHR ''-'' # dec_nat b)"

lemma range_text_token: "range_text r = range_token r @ '' ''"
  by (simp add: range_text_def range_token_def split: prod.split)

lemma parseSlots_range:
  assumes "a \<le> b" "b < kClusterSlotCount"
  shows "parseSlots (range_token (a, b)) S = Some (S \<union> {a..b})"
proof -
  have s: "stoi (dec_nat k) = Some (int k)" if "k < kClusterSlotCount" for k
    using that by (simp add: stoi_def leading_int_dec_nat kClusterSlotCount_def)
  have ne: "range_token (a, b) \<noteq> []" by (simp add: range_token_def)
  have "hd (range_token (a, b)) = hd (dec_nat a)" by (simp add: range_token_def)
  then have "hd (range_token (a, b)) \<noteq> CHR ''[''" using digits_of[of "hd (dec_nat a)" a] by simp
  then have m: "strip_marker (range_token (a, b)) = range_token (a, b)" by (simp add: strip_marker_def)
  have d: "CHR ''-'' \<notin> set (dec_nat k)" for k using digits_of by blast
  show ?thesis
  proof (cases "a = b")
    case True
    then show ?thesis
      using ne assms(2) m by (simp add: parseSlots_def range_token_def find_char_absent d s slot_ok_def)
  next
    case False
    have f: "find_from (CHR ''-'') (dec_nat a @ CHR ''-'' # dec_nat b) 0 = Some (length (dec_nat a))"
      by (rule find_char_after) (rule d)
    show ?thesis
      using False ne m assms s[of a] s[of b] by (simp add: parseSlots_def range_token_def f)
  qed
qed

lemma parse_ranges:
  "\<forall>(a, b) \<in> set rs. a \<le> b \<and> b < kClusterSlotCount \<Longrightarrow>
   parse_all_slots (map range_token rs) S = Some (S \<union> (\<Union>(a, b) \<in> set rs. {a..b}))"
  by (induction rs arbitrary: S) (auto simp: parseSlots_range)

lemma range_loop_ok:
  "start \<le> prev \<Longrightarrow> prev < m \<Longrightarrow> \<forall>s \<in> set ss. s < m \<Longrightarrow>
   (\<forall>(a, b) \<in> set (range_loop start prev ss). a \<le> b \<and> b < m) \<and>
   (\<Union>(a, b) \<in> set (range_loop start prev ss). {a..b}) = {start..prev} \<union> set ss"
proof (induction start prev ss rule: range_loop.induct)
  case (2 start prev s ss)
  show ?case
  proof (cases "s = prev + 1")
    case True
    then have "{start..s} = insert s {start..prev}" using "2.prems" by auto
    with True 2 show ?thesis by simp
  next
    case False
    with 2 show ?thesis by auto
  qed
qed simp

lemma slot_ranges_ok:
  assumes "\<forall>s \<in> set ss. s < m"
  shows "\<forall>(a, b) \<in> set (slot_ranges ss). a \<le> b \<and> b < m" "(\<Union>(a, b) \<in> set (slot_ranges ss). {a..b}) = set ss"
proof -
  have "(\<forall>(a, b) \<in> set (slot_ranges ss). a \<le> b \<and> b < m) \<and> (\<Union>(a, b) \<in> set (slot_ranges ss). {a..b}) = set ss"
  proof (cases ss)
    case (Cons s rest)
    then show ?thesis using range_loop_ok[of s s m rest] assms by (simp add: slot_ranges_def)
  qed (simp add: slot_ranges_def)
  then show "\<forall>(a, b) \<in> set (slot_ranges ss). a \<le> b \<and> b < m" "(\<Union>(a, b) \<in> set (slot_ranges ss). {a..b}) = set ss" by blast+
qed

definition slot_tokens :: "ClusterNode \<Rightarrow> string list" where
  "slot_tokens n = (if hasFlag Master n then map range_token (slot_ranges (slot_list n)) else [])"

lemma parse_slot_tokens:
  assumes "slots n \<subseteq> {..<kClusterSlotCount}"
  shows "parse_all_slots (slot_tokens n) {} = Some (if hasFlag Master n then slots n else {})"
proof -
  have l: "set (slot_list n) = slots n" using assms by (auto simp: slot_list_def)
  have "\<forall>s \<in> set (slot_list n). s < kClusterSlotCount" by (auto simp: slot_list_def)
  note r = slot_ranges_ok[OF this]
  show ?thesis using parse_ranges[OF r(1), of "{}"] r(2) by (simp add: slot_tokens_def l)
qed

subsubsection \<open>Lines and files\<close>

text \<open>What of a node the file keeps.\<close>

definition restored :: "ClusterNode \<Rightarrow> ClusterNode" where
  "restored n = n\<lparr>flags := flags n AND 31, master_id := (if hasFlag Slave n then master_id n else []),
     slots := (if hasFlag Master n then slots n else {}), ping_sent := 0, pong_received := 0\<rparr>"

definition line_tokens :: "ClusterNode \<Rightarrow> string list" where
  "line_tokens n = [node_id n, node_address_text n, buildFlags (flags n), master_text n, to_string (ping_sent n),
     to_string (pong_received n), dec_nat (unat (config_epoch n)), ''connected''] @ slot_tokens n"

lemma config_line_tokens: "config_line n = concat (map (\<lambda>t. t @ '' '') (line_tokens n)) @ [CHR 0x0A]"
  by (simp add: config_line_def line_tokens_def slots_text_def slot_tokens_def range_text_token[abs_def] comp_def)

lemma hasFlag_restored [simp]: "hasFlag f (restored n) \<longleftrightarrow> f \<noteq> NoAddr \<and> hasFlag f n"
proof -
  have "(31 :: uint16) = mask 5" by (simp add: mask_eq_exp_minus_1)
  then show ?thesis by (cases f) (auto simp: restored_def hasFlag_bit bit_and_iff bit_mask_iff)
qed

lemma no_space_joined: "\<forall>t \<in> set ts. \<forall>c \<in> set t. \<not> is_space c \<Longrightarrow> c \<in> set (join_commas ts) \<Longrightarrow> \<not> is_space c"
proof (induction ts rule: join_commas.induct)
  case (3 x y zs)
  have "\<not> is_space (CHR '','')" by code_simp
  with 3 show ?case by auto
qed simp_all

lemma no_space_to_string: "c \<in> set (to_string k) \<Longrightarrow> \<not> is_space c"
  using digits_of by (auto simp: to_string_def split: if_splits)

lemma tokens_ok:
  assumes "storable n" "t \<in> set (line_tokens n)"
  shows "t \<noteq> [] \<and> (\<forall>c \<in> set t. \<not> is_space c)"
proof -
  have sp: "\<not> is_space (CHR ''-'')" "\<not> is_space (CHR '':'')" "\<not> is_space (CHR ''@'')" by code_simp+
  have conn: "\<forall>c \<in> set ''connected''. \<not> is_space c" by code_simp
  have s: "to_string k \<noteq> []" for k by (simp add: to_string_def)
  have "buildFlags (flags n) \<noteq> []"
    using flag_names_ok(2)[of _ "flags n"] flag_names_ok(1)[of "flags n"]
    by (cases "flag_names (flags n)" rule: join_commas.cases) (auto simp: buildFlags_def)
  moreover have "\<forall>c \<in> set (buildFlags (flags n)). \<not> is_space c"
    unfolding buildFlags_def using no_space_joined flag_names_ok(2) by blast
  moreover have "node_address_text n \<noteq> [] \<and> (\<forall>c \<in> set (node_address_text n). \<not> is_space c)"
    using assms(1) no_space_to_string sp by (auto simp: node_address_text_def storable_def)
  moreover have "master_text n \<noteq> [] \<and> (\<forall>c \<in> set (master_text n). \<not> is_space c)"
    using assms(1) sp by (auto simp: master_text_def storable_def)
  moreover have "range_token r \<noteq> [] \<and> (\<forall>c \<in> set (range_token r). \<not> is_space c)" for r
    using digits_of sp by (auto simp: range_token_def split: prod.split)
  ultimately show ?thesis
    using assms no_space_to_string digits_of conn s
    by (auto simp: line_tokens_def slot_tokens_def storable_def split: if_splits)
qed

definition install_node :: "ClusterNode \<Rightarrow> ClusterManager \<Rightarrow> ClusterManager" where
  "install_node n c = dirty (c\<lparr>objects := objects c @ [n], m_nodes := AList.update (node_id n) (length (objects c)) (m_nodes c)\<rparr>)"

lemma load_config_line:
  assumes "storable n"
  shows "load_line (concat (map (\<lambda>t. t @ '' '') (line_tokens n))) (c, me) =
    Some (install_node (restored n) c, if hasFlag Myself n then Some (length (objects c)) else me)"
proof -
  let ?l = "concat (map (\<lambda>t. t @ '' '') (line_tokens n))"
  have w: "words ?l = line_tokens n" by (rule words_tokens) (use tokens_ok[OF assms] in blast)
  have hd: "?l \<noteq> []" "hd ?l \<noteq> CHR ''#''" using assms by (auto simp: line_tokens_def storable_def)
  have e: "stoull (dec_nat (unat (config_epoch n))) = Some (config_epoch n)"
  proof -
    have "uint (config_epoch n) < 2 ^ LENGTH(64)" by (rule unsigned_less)
    then show ?thesis by (simp add: stoull_def leading_int_dec_nat)
  qed
  have m: "(if master_text n \<noteq> ''-'' then master_text n else []) = (if hasFlag Slave n then master_id n else [])"
    using assms by (auto simp: master_text_def storable_def)
  have node: "new_node\<lparr>node_id := node_id n, ip := ip n, port := port n, cluster_port := cluster_port n,
      flags := parseFlags (buildFlags (flags n)), master_id := (if master_text n \<noteq> ''-'' then master_text n else []),
      config_epoch := config_epoch n, slots := (if hasFlag Master n then slots n else {})\<rparr> = restored n"
    unfolding m parseFlags_buildFlags by (cases n) (simp add: restored_def new_node_def hasFlag_def)
  have me: "hasFlag Myself m' = hasFlag Myself n" if "flags m' = parseFlags (buildFlags (flags n))" for m' :: ClusterNode
    using that hasFlag_restored[of Myself n] by (simp add: hasFlag_def restored_def parseFlags_buildFlags)
  have id: "node_id (restored n) = node_id n" by (simp add: restored_def)
  have at: "word_at (line_tokens n) 0 = node_id n" "word_at (line_tokens n) 1 = node_address_text n"
    "word_at (line_tokens n) 2 = buildFlags (flags n)" "word_at (line_tokens n) 3 = master_text n"
    "word_at (line_tokens n) 6 = dec_nat (unat (config_epoch n))" "drop 8 (line_tokens n) = slot_tokens n"
    by (simp_all add: line_tokens_def word_at_def numeral_eq_Suc)
  have "slots n \<subseteq> {..<kClusterSlotCount}" "node_id n \<noteq> []" "0 < cluster_port n" using assms by (simp_all add: storable_def)
  then show ?thesis
    using hd unfolding load_line_def Let_def w at
    by (simp add: parseAddr_text[OF assms] e parse_slot_tokens node make_shared_def addNode_def obj_def install_node_def
        me id split del: if_split)
qed

lemma load_config_lines:
  "list_all storable ns \<Longrightarrow>
   load_lines (map (\<lambda>n. concat (map (\<lambda>t. t @ '' '') (line_tokens n))) ns) (c, me) =
     Some (foldl (\<lambda>c n. install_node (restored n) c) c ns,
       fold (\<lambda>i me. if hasFlag Myself (ns ! i) then Some (length (objects c) + i) else me) [0..<length ns] me)"
proof (induction ns arbitrary: c me)
  case (Cons n ns)
  let ?me = "if hasFlag Myself n then Some (length (objects c)) else me"
  have len: "length (objects (install_node (restored n) c)) = Suc (length (objects c))" by (simp add: install_node_def)
  have idx: "[0..<length (n # ns)] = 0 # map Suc [0..<length ns]" by (simp add: upt_conv_Cons map_Suc_upt del: upt_Suc)
  show ?case
    using Cons.prems Cons.IH[of "install_node (restored n) c" ?me]
    unfolding idx by (simp add: load_config_line len fold_map comp_def)
qed simp

lemma install_effect:
  assumes "distinct (map node_id ns)" "i < length ns"
  shows "find_node (foldl (\<lambda>c n. install_node (restored n) c) c ns) (node_id (ns ! i)) = Some (length (objects c) + i) \<and>
    obj (foldl (\<lambda>c n. install_node (restored n) c) c ns) (length (objects c) + i) = restored (ns ! i)"
proof -
  have "length (objects (foldl (\<lambda>c n. install_node (restored n) c) c ns)) = length (objects c) + length ns \<and>
    (\<forall>i < length ns. find_node (foldl (\<lambda>c n. install_node (restored n) c) c ns) (node_id (ns ! i)) = Some (length (objects c) + i) \<and>
      obj (foldl (\<lambda>c n. install_node (restored n) c) c ns) (length (objects c) + i) = restored (ns ! i))"
    using assms(1)
  proof (induction ns rule: rev_induct)
    case (snoc x ns)
    let ?d = "foldl (\<lambda>c n. install_node (restored n) c) c ns"
    have IH: "length (objects ?d) = length (objects c) + length ns"
      "\<And>i. i < length ns \<Longrightarrow> find_node ?d (node_id (ns ! i)) = Some (length (objects c) + i) \<and>
         obj ?d (length (objects c) + i) = restored (ns ! i)"
      using snoc by auto
    have f: "find_node (install_node (restored x) ?d) j = (if j = node_id x then Some (length (objects ?d)) else find_node ?d j)" for j
      by (simp add: install_node_def restored_def) (simp add: find_node_def)
    have o: "obj (install_node (restored x) ?d) a = (if a = length (objects ?d) then restored x else obj ?d a)"
      if "a \<le> length (objects ?d)" for a
      using that by (auto simp: install_node_def obj_def nth_append)
    have "node_id (ns ! j) \<noteq> node_id x" if "j < length ns" for j
      using snoc.prems that by (metis distinct_append disjoint_iff in_set_conv_nth length_map list.set_intros(1)
          map_append nth_map list.simps(9))
    then show ?case
      using IH f o by (auto simp: nth_append less_Suc_eq) (simp add: install_node_def)
  qed simp
  then show ?thesis using assms(2) by blast
qed

lemma last_index: "fold (\<lambda>i me. if P i then Some (k + i) else me) [0..<n] None = Some a \<Longrightarrow> \<exists>i < n. a = k + i"
  by (induction n) (auto simp: less_Suc_eq split: if_splits)

text \<open>
  C14: \<open>nodes.conf\<close> round trip. When the identifiers and addresses hold no white space, colon or at sign and the ports
  are set, loading what \<open>save\<close> wrote does not throw, and every node is found again under its identifier
  with its address, its role and failure flags, its epoch and, for a replica, its master and, for a
  master, its slots; only the ping and pong times and the no-address flag are not kept.
\<close>

theorem nodes_conf_round_trip:
  assumes "wf_cluster c" "\<And>a. a \<in> set (node_refs c) \<Longrightarrow> storable (obj c a)"
  shows "\<exists>c'. load_config (Some (save_config c)) m = Some c' \<and>
    (\<forall>i a. find_node c i = Some a \<longrightarrow> (\<exists>a'. find_node c' i = Some a' \<and> obj c' a' = restored (obj c a)))"
proof -
  let ?ns = "map (obj c) (node_refs c)"
  let ?lines = "map (\<lambda>n. concat (map (\<lambda>t. t @ '' '') (line_tokens n))) ?ns"
  let ?d = "foldl (\<lambda>c n. install_node (restored n) c) m ?ns"
  have st: "list_all storable ?ns" using assms(2) by (auto simp: list_all_iff)
  have nl: "is_space (CHR 0x0A)" by code_simp
  have "\<forall>ch \<in> set l. ch \<noteq> CHR 0x0A" if "l \<in> set ?lines" for l
  proof -
    from that obtain a where a: "a \<in> set (node_refs c)" "l = concat (map (\<lambda>t. t @ '' '') (line_tokens (obj c a)))" by auto
    then have "\<forall>t \<in> set (line_tokens (obj c a)). \<forall>ch \<in> set t. ch \<noteq> CHR 0x0A"
      using tokens_ok[OF assms(2)] nl by blast
    then show ?thesis using a(2) by auto
  qed
  then have "getlines (CHR 0x0A) (concat (map (\<lambda>l. l @ [CHR 0x0A]) ?lines)) = ?lines" by (intro getlines_lines) blast
  moreover have "save_config c = concat (map (\<lambda>l. l @ [CHR 0x0A]) ?lines)"
    by (simp add: save_config_def getAllNodes_def config_line_tokens comp_def)
  ultimately obtain me where l: "load_lines (getlines (CHR 0x0A) (save_config c)) (m, None) = Some (?d, me)"
    and me: "me = fold (\<lambda>i me. if hasFlag Myself (?ns ! i) then Some (length (objects m) + i) else me) [0..<length ?ns] None"
    using load_config_lines[OF st, of m None] by simp
  have ids: "distinct (map node_id ?ns)"
    using assms(1) unfolding wf_cluster_def by (auto simp: node_refs_def comp_def case_prod_beta cong: map_cong)
  note inst = install_effect[OF ids, where c = m]
  have tab: "m_nodes (setMyselfFromConfig me ?d) = m_nodes ?d" "objects (setMyselfFromConfig me ?d) = objects ?d"
  proof -
    have "AList.update (node_id (obj ?d a)) a (m_nodes ?d) = m_nodes ?d" if me': "me = Some a" for a
    proof -
      obtain i where i: "i < length ?ns" "a = length (objects m) + i"
        using last_index me' me by metis
      then have "find_node ?d (node_id (?ns ! i)) = Some a" "obj ?d a = restored (?ns ! i)" using inst by blast+
      then show ?thesis by (intro update_triv) (simp add: find_node_def restored_def)
    qed
    then show "m_nodes (setMyselfFromConfig me ?d) = m_nodes ?d" "objects (setMyselfFromConfig me ?d) = objects ?d"
      by (auto simp: setMyselfFromConfig_def Let_def split: option.split)
  qed
  have found: "\<exists>a'. find_node ?d i = Some a' \<and> obj ?d a' = restored (obj c a)" if "find_node c i = Some a" for i a
  proof -
    note w = wf_refs(3)[OF assms(1) that]
    then obtain k where "k < length ?ns" "?ns ! k = obj c a" by (metis in_set_conv_nth length_map nth_map)
    with inst[of k] w show ?thesis by auto
  qed
  have "load_config (Some (save_config c)) m = Some (setMyselfFromConfig me ?d)" by (simp add: load_config_def l)
  then show ?thesis using found same_table(1,2)[OF tab] by auto
qed

definition addressed_cluster :: ClusterManager where
  "addressed_cluster = sample_cluster\<lparr>objects := map (\<lambda>n. n\<lparr>ip := ''h'', port := 1, cluster_port := 2\<rparr>) (objects sample_cluster)\<rparr>"

lemma addressed_cluster_storable:
  "wf_cluster addressed_cluster" "\<And>a. a \<in> set (node_refs addressed_cluster) \<Longrightarrow> storable (obj addressed_cluster a)"
  by (auto simp: addressed_cluster_def wf_cluster_def storable_def is_space_def sample_simps kClusterSlotCount_def less_Suc_eq)

theorem nodes_conf_round_trip_witness:
  "\<exists>c'. load_config (Some (save_config addressed_cluster)) new_manager = Some c' \<and>
     (\<exists>a'. find_node c' ''a'' = Some a' \<and> slots (obj c' a') = {0, 1, 2} \<and> config_epoch (obj c' a') = 4)"
proof -
  obtain c' where c': "load_config (Some (save_config addressed_cluster)) new_manager = Some c'"
    "\<And>i a. find_node addressed_cluster i = Some a \<Longrightarrow> \<exists>a'. find_node c' i = Some a' \<and> obj c' a' = restored (obj addressed_cluster a)"
    using nodes_conf_round_trip[OF addressed_cluster_storable, of new_manager] by blast
  have "find_node addressed_cluster ''a'' = Some 1" by (simp add: addressed_cluster_def sample_simps)
  moreover have "slots (restored (obj addressed_cluster 1)) = {0, 1, 2}" "config_epoch (restored (obj addressed_cluster 1)) = 4"
    by (simp_all add: addressed_cluster_def restored_def sample_simps)
  ultimately show ?thesis using c' by metis
qed

end
