(* ===== verification/Sentinel.thy ===== *)
theory Sentinel
  imports Cluster
begin

text \<open>
  The sentinel that elects a leader among its peers and fails over the monitored key-value nodes,
  \<open>zero/rpc/sentinel_manager.{h,cc}\<close>, with the handler of its requests, \<open>zero/rpc/sentinel_service.cc\<close>.
  The clock, the random election timeout and the answers of the other side of a remote call are
  arguments: a call that fails has the answer \<open>None\<close>. Each definition here is a stretch of code that
  runs under the state lock, or a composition of such stretches with nothing in between; the theory
  \<open>Election\<close> interleaves them.
\<close>

subsection \<open>State\<close>

datatype SentinelRole = Follower | Candidate | Leader

datatype NodeRole = MASTER | REPLICA | SENTINEL

record MasterInfo =
  mi_valid :: bool
  mi_host :: string
  mi_port :: int
  mi_nodeId :: string

record NodeState =
  ns_addr :: string
  ns_port :: int
  ns_role :: NodeRole
  ns_replId :: string
  ns_replOffset :: int64
  ns_alive :: bool
  ns_failures :: int

record HealthCheckResponse =
  hc_role :: NodeRole
  hc_replication_id :: string
  hc_replication_offset :: int64
  hc_node_id :: string

type_synonym endpoint = "string \<times> int"

record Sentinel =
  m_nodeId :: string
  m_bindHost :: string
  m_bindPort :: int
  m_sentinelPeers :: "endpoint list"
  m_monitoredNodes :: "endpoint list"
  m_currentTerm :: uint64
  m_votedFor :: string
  m_role :: SentinelRole
  m_leaderId :: string
  m_electionTimeoutMs :: uint64
  m_lastHeartbeatMs :: uint64
  m_kvNodes :: "(string, NodeState) umap"
  m_currentMaster :: MasterInfo
  m_lastHbMs :: uint64
  m_lastCheckMs :: uint64

definition no_master :: MasterInfo where
  "no_master = \<lparr>mi_valid = False, mi_host = [], mi_port = 0, mi_nodeId = []\<rparr>"

definition new_sentinel :: "uint64 \<Rightarrow> uint64 \<Rightarrow> Sentinel" where
  "new_sentinel timeout now =
     \<lparr>m_nodeId = [], m_bindHost = ''0.0.0.0'', m_bindPort = 0, m_sentinelPeers = [], m_monitoredNodes = [],
      m_currentTerm = 0, m_votedFor = [], m_role = Follower, m_leaderId = [], m_electionTimeoutMs = timeout,
      m_lastHeartbeatMs = now, m_kvNodes = [], m_currentMaster = no_master, m_lastHbMs = 0, m_lastCheckMs = 0\<rparr>"

definition kMaxHealthCheckFailures :: int where
  "kMaxHealthCheckFailures = 3"

definition kHealthCheckIntervalMs :: uint64 where
  "kHealthCheckIntervalMs = 1000"

definition kHeartbeatIntervalMs :: uint64 where
  "kHeartbeatIntervalMs = 2000"

subsection \<open>Configuration\<close>

definition setNodeId :: "string \<Rightarrow> Sentinel \<Rightarrow> Sentinel" where
  "setNodeId i s = s\<lparr>m_nodeId := i\<rparr>"

definition setBindAddr :: "string \<Rightarrow> int \<Rightarrow> Sentinel \<Rightarrow> Sentinel" where
  "setBindAddr h p s = s\<lparr>m_bindHost := h, m_bindPort := p\<rparr>"

definition setSentinelPeers :: "endpoint list \<Rightarrow> Sentinel \<Rightarrow> Sentinel" where
  "setSentinelPeers ps s = s\<lparr>m_sentinelPeers := ps\<rparr>"

definition node_key :: "endpoint \<Rightarrow> string" where
  "node_key n = fst n @ '':'' @ to_string (snd n)"

definition fresh_node :: "endpoint \<Rightarrow> NodeState" where
  "fresh_node n = \<lparr>ns_addr = fst n, ns_port = snd n, ns_role = MASTER, ns_replId = [], ns_replOffset = 0,
     ns_alive = False, ns_failures = 0\<rparr>"

definition monitor_node :: "endpoint \<Rightarrow> (string, NodeState) umap \<Rightarrow> (string, NodeState) umap" where
  "monitor_node n t = (if map_of t (node_key n) = None then AList.update (node_key n) (fresh_node n) t else t)"

definition setMonitoredNodes :: "endpoint list \<Rightarrow> Sentinel \<Rightarrow> Sentinel" where
  "setMonitoredNodes ns s = s\<lparr>m_monitoredNodes := ns, m_kvNodes := fold monitor_node ns (m_kvNodes s)\<rparr>"

subsection \<open>Handlers of requests\<close>

definition handleRequestVote :: "uint64 \<Rightarrow> uint64 \<Rightarrow> string \<Rightarrow> Sentinel \<Rightarrow> Sentinel \<times> bool" where
  "handleRequestVote now term candidateId s =
     (if term \<le> m_currentTerm s then (s, False)
      else if m_votedFor s = [] \<or> m_votedFor s = candidateId
      then (s\<lparr>m_currentTerm := term, m_votedFor := candidateId, m_role := Follower, m_lastHeartbeatMs := now\<rparr>, True)
      else (s, False))"

definition handleHeartbeat :: "uint64 \<Rightarrow> uint64 \<Rightarrow> string \<Rightarrow> endpoint option \<Rightarrow> Sentinel \<Rightarrow> Sentinel \<times> bool" where
  "handleHeartbeat now term leader master s =
     (if term < m_currentTerm s then (s, False)
      else let s = s\<lparr>m_currentTerm := term, m_role := Follower, m_leaderId := leader, m_lastHeartbeatMs := now,
                     m_votedFor := []\<rparr>
           in (case master of
                 Some (h, p) \<Rightarrow>
                   if h \<noteq> []
                   then s\<lparr>m_currentMaster := (m_currentMaster s)\<lparr>mi_valid := True, mi_host := h, mi_port := p\<rparr>\<rparr>
                   else s
               | None \<Rightarrow> s, True))"

subsection \<open>Roles and elections\<close>

definition becomeFollower :: "uint64 \<Rightarrow> uint64 \<Rightarrow> uint64 \<Rightarrow> Sentinel \<Rightarrow> Sentinel" where
  "becomeFollower timeout now newTerm s =
     s\<lparr>m_currentTerm := max (m_currentTerm s) newTerm, m_role := Follower, m_votedFor := [],
       m_electionTimeoutMs := timeout, m_lastHeartbeatMs := now\<rparr>"

definition becomeCandidate :: "uint64 \<Rightarrow> Sentinel \<Rightarrow> Sentinel" where
  "becomeCandidate timeout s =
     s\<lparr>m_currentTerm := m_currentTerm s + 1, m_role := Candidate, m_votedFor := m_nodeId s,
       m_electionTimeoutMs := timeout\<rparr>"

definition becomeLeader :: "Sentinel \<Rightarrow> Sentinel" where
  "becomeLeader s =
     s\<lparr>m_role := Leader, m_leaderId := m_nodeId s,
       m_kvNodes := map (\<lambda>(k, n). (k, n\<lparr>ns_alive := False, ns_failures := 0\<rparr>)) (m_kvNodes s)\<rparr>"

definition isQuorum :: "nat \<Rightarrow> Sentinel \<Rightarrow> bool" where
  "isQuorum votes s \<longleftrightarrow> votes \<ge> (1 + length (m_sentinelPeers s)) div 2 + 1"

text \<open>
  The turn of \<open>startElection\<close> for one peer, with the answer of \<open>sendRequestVote\<close>: the term of the peer and whether
  the vote was granted. \<open>Inl\<close> is a return from the function, \<open>Inr\<close> the votes so far.
\<close>

definition claim_victory :: "uint64 \<Rightarrow> Sentinel \<Rightarrow> Sentinel" where
  "claim_victory term s = (if m_role s = Candidate \<and> m_currentTerm s = term then s\<lparr>m_role := Leader\<rparr> else s)"

definition count_vote ::
  "uint64 \<Rightarrow> uint64 \<Rightarrow> uint64 \<Rightarrow> (uint64 \<times> bool) option \<Rightarrow> nat \<Rightarrow> Sentinel \<Rightarrow> Sentinel + nat" where
  "count_vote timeout now term answer votes s =
     (let tally = (\<lambda>votes. if isQuorum votes s then Inl (claim_victory term s) else Inr votes)
      in case answer of
           None \<Rightarrow> tally votes
         | Some (peerTerm, granted) \<Rightarrow>
             if granted then tally (votes + 1)
             else if peerTerm > term then Inl (becomeFollower timeout now peerTerm s)
             else tally votes)"

fun ask_peers ::
  "uint64 \<Rightarrow> uint64 \<Rightarrow> (endpoint \<Rightarrow> (uint64 \<times> bool) option) \<Rightarrow> uint64 \<Rightarrow> nat \<Rightarrow> endpoint list \<Rightarrow> Sentinel \<Rightarrow> Sentinel" where
  "ask_peers timeout now answer term votes [] s = s"
| "ask_peers timeout now answer term votes (p # ps) s =
     (case count_vote timeout now term (answer p) votes s of
        Inl s' \<Rightarrow> s'
      | Inr votes' \<Rightarrow> ask_peers timeout now answer term votes' ps s)"

definition startElection :: "uint64 \<Rightarrow> uint64 \<Rightarrow> (endpoint \<Rightarrow> (uint64 \<times> bool) option) \<Rightarrow> Sentinel \<Rightarrow> Sentinel" where
  "startElection timeout now answer s = ask_peers timeout now answer (m_currentTerm s) 1 (m_sentinelPeers s) s"

text \<open>The check of the result in \<open>runLoop\<close>: whether the election was won.\<close>

definition close_election :: "uint64 \<Rightarrow> Sentinel \<Rightarrow> Sentinel \<times> bool" where
  "close_election timeout s =
     (if m_role s = Leader then (s, True)
      else (s\<lparr>m_role := Follower, m_electionTimeoutMs := timeout\<rparr>, False))"

subsection \<open>Heartbeats\<close>

text \<open>The request of \<open>sendHeartbeatTo\<close>: term, leader and known master.\<close>

definition heartbeat_request :: "Sentinel \<Rightarrow> uint64 \<times> string \<times> endpoint option" where
  "heartbeat_request s =
     (m_currentTerm s, m_nodeId s,
      if mi_valid (m_currentMaster s) then Some (mi_host (m_currentMaster s), mi_port (m_currentMaster s)) else None)"

definition heartbeat_answer :: "uint64 \<Rightarrow> uint64 \<Rightarrow> uint64 \<Rightarrow> uint64 option \<Rightarrow> Sentinel \<Rightarrow> Sentinel" where
  "heartbeat_answer timeout now term answer s =
     (case answer of
        None \<Rightarrow> s
      | Some peerTerm \<Rightarrow> if peerTerm > term then becomeFollower timeout now peerTerm s else s)"

fun beat_peers ::
  "uint64 \<Rightarrow> uint64 \<Rightarrow> (endpoint \<Rightarrow> uint64 option) \<Rightarrow> endpoint list \<Rightarrow> Sentinel \<Rightarrow>
   Sentinel \<times> (endpoint \<times> uint64 \<times> string \<times> endpoint option) list" where
  "beat_peers timeout now answer [] s = (s, [])"
| "beat_peers timeout now answer (p # ps) s =
     (let r = heartbeat_request s;
          (s', sent) = beat_peers timeout now answer ps (heartbeat_answer timeout now (fst r) (answer p) s)
      in (s', (p, r) # sent))"

definition sendHeartbeats ::
  "uint64 \<Rightarrow> uint64 \<Rightarrow> (endpoint \<Rightarrow> uint64 option) \<Rightarrow> Sentinel \<Rightarrow>
   Sentinel \<times> (endpoint \<times> uint64 \<times> string \<times> endpoint option) list" where
  "sendHeartbeats timeout now answer s =
     (if now - m_lastHbMs s < kHeartbeatIntervalMs then (s, [])
      else beat_peers timeout now answer (m_sentinelPeers s) (s\<lparr>m_lastHbMs := now\<rparr>))"

subsection \<open>Failover\<close>

definition better_replica :: "(NodeRole \<Rightarrow> bool) \<Rightarrow> (string \<times> NodeState) \<Rightarrow> string \<times> int64 \<Rightarrow> string \<times> int64" where
  "better_replica ok e best =
     (case (e, best) of ((k, n), (addr, off)) \<Rightarrow>
        if ns_alive n \<and> ok (ns_role n) \<and> ns_replOffset n > off then (k, ns_replOffset n) else (addr, off))"

definition selectBestReplica :: "Sentinel \<Rightarrow> string" where
  "selectBestReplica s =
     (let (addr, off) = fold (better_replica (\<lambda>r. r = REPLICA)) (m_kvNodes s) ([], -1)
      in if addr = [] then fst (fold (better_replica (\<lambda>r. r \<noteq> MASTER)) (m_kvNodes s) (addr, off)) else addr)"

definition parse_replica :: "string \<Rightarrow> endpoint option" where
  "parse_replica s =
     (case find_from (CHR '':'') s 0 of
        None \<Rightarrow> None
      | Some colon \<Rightarrow> (case stoi (drop (colon + 1) s) of None \<Rightarrow> None | Some p \<Rightarrow> Some (take colon s, p)))"

text \<open>A \<open>ReplicaOf\<close> request: its destination, the new master (an empty host promotes) and the term.\<close>

type_synonym replica_of = "endpoint \<times> endpoint \<times> uint64"

definition set_node_role :: "string \<Rightarrow> NodeRole \<Rightarrow> (string, NodeState) umap \<Rightarrow> (string, NodeState) umap" where
  "set_node_role k r t =
     (case map_of t k of None \<Rightarrow> t | Some n \<Rightarrow> AList.update k (n\<lparr>ns_role := r\<rparr>) t)"

definition handleFailover :: "(endpoint \<Rightarrow> bool) \<Rightarrow> string \<Rightarrow> Sentinel \<Rightarrow> Sentinel \<times> replica_of list" where
  "handleFailover accepted failedMasterId s =
     (let best = selectBestReplica s; term = m_currentTerm s
      in if best = [] then (s, [])
         else case parse_replica best of
           None \<Rightarrow> (s, [])
         | Some (host, prt) \<Rightarrow>
             (let promote = ((host, prt), ([], 0), term)
              in if \<not> accepted (host, prt) then (s, [promote])
                 else (s\<lparr>m_currentMaster := \<lparr>mi_valid = True, mi_host = host, mi_port = prt, mi_nodeId = best\<rparr>,
                         m_kvNodes := set_node_role best MASTER (set_node_role failedMasterId REPLICA (m_kvNodes s))\<rparr>,
                       promote # map (\<lambda>n. (n, (host, prt), term))
                         (filter (\<lambda>n. node_key n \<noteq> best \<and> node_key n \<noteq> failedMasterId) (m_monitoredNodes s)))))"

text \<open>
  The turn of \<open>checkKVNodes\<close> for one node, with the answer of its health check; the flag says that the node is
  a master that is down, which ends the loop with a failover.
\<close>

definition check_node :: "endpoint \<Rightarrow> HealthCheckResponse option \<Rightarrow> Sentinel \<Rightarrow> Sentinel \<times> bool" where
  "check_node node answer s =
     (let key = node_key node; put = (\<lambda>n s. s\<lparr>m_kvNodes := AList.update key n (m_kvNodes s)\<rparr>)
      in case (map_of (m_kvNodes s) key, answer) of
           (None, Some r) \<Rightarrow>
             (put \<lparr>ns_addr = fst node, ns_port = snd node, ns_role = hc_role r, ns_replId = hc_replication_id r,
                   ns_replOffset = hc_replication_offset r, ns_alive = True, ns_failures = 0\<rparr> s, False)
         | (None, None) \<Rightarrow> (put ((fresh_node node)\<lparr>ns_failures := 1\<rparr>) s, False)
         | (Some n, Some r) \<Rightarrow>
             (let s = put (n\<lparr>ns_alive := True, ns_role := hc_role r, ns_replId := hc_replication_id r,
                             ns_replOffset := hc_replication_offset r, ns_failures := 0\<rparr>) s
              in (if hc_role r = MASTER
                  then s\<lparr>m_currentMaster := \<lparr>mi_valid = True, mi_host = fst node, mi_port = snd node, mi_nodeId = hc_node_id r\<rparr>\<rparr>
                  else s, False))
         | (Some n, None) \<Rightarrow>
             (put (n\<lparr>ns_alive := False, ns_failures := ns_failures n + 1\<rparr>) s,
              ns_role n = MASTER \<and> ns_failures n + 1 \<ge> kMaxHealthCheckFailures))"

fun check_nodes ::
  "(endpoint \<Rightarrow> HealthCheckResponse option) \<Rightarrow> (endpoint \<Rightarrow> bool) \<Rightarrow> endpoint list \<Rightarrow> Sentinel \<Rightarrow> Sentinel \<times> replica_of list" where
  "check_nodes health accepted [] s = (s, [])"
| "check_nodes health accepted (n # ns) s =
     (case check_node n (health n) s of (s', down) \<Rightarrow>
        if down then handleFailover accepted (node_key n) s' else check_nodes health accepted ns s')"

definition checkKVNodes ::
  "uint64 \<Rightarrow> (endpoint \<Rightarrow> HealthCheckResponse option) \<Rightarrow> (endpoint \<Rightarrow> bool) \<Rightarrow> Sentinel \<Rightarrow> Sentinel \<times> replica_of list" where
  "checkKVNodes now health accepted s =
     (if now - m_lastCheckMs s < kHealthCheckIntervalMs then (s, [])
      else check_nodes health accepted (m_monitoredNodes s) (s\<lparr>m_lastCheckMs := now\<rparr>))"

subsection \<open>The service\<close>

datatype SentinelRequest =
  RequestVoteReq uint64 string | HeartbeatReq uint64 string "endpoint option" | GetMasterReq | WatchMasterReq | OtherReq

datatype SentinelResponse =
  RequestVoteResp uint64 bool | HeartbeatResp uint64 bool | GetMasterResp bool endpoint uint64 | NoResp

definition get_master :: "Sentinel \<Rightarrow> SentinelResponse" where
  "get_master s =
     (let m = m_currentMaster s
      in GetMasterResp (mi_valid m) (if mi_valid m then (mi_host m, mi_port m) else ([], 0)) (m_currentTerm s))"

fun sentinel_handler :: "uint64 \<Rightarrow> SentinelRequest \<Rightarrow> Sentinel \<Rightarrow> Sentinel \<times> SentinelResponse" where
  "sentinel_handler now (RequestVoteReq term cand) s =
     (case handleRequestVote now term cand s of (s', granted) \<Rightarrow> (s', RequestVoteResp (m_currentTerm s') granted))"
| "sentinel_handler now (HeartbeatReq term leader master) s =
     (case handleHeartbeat now term leader master s of (s', ok) \<Rightarrow> (s', HeartbeatResp (m_currentTerm s') ok))"
| "sentinel_handler now GetMasterReq s = (s, get_master s)"
| "sentinel_handler now WatchMasterReq s = (s, get_master s)"
| "sentinel_handler now OtherReq s = (s, NoResp)"

end
