(* ===== verification/Election.thy ===== *)
theory Election
  imports Sentinel
begin

text \<open>
  A group of sentinels that run concurrently. Each has a thread that executes \<open>runLoop\<close> and handlers that
  serve the requests of the others; a thread and a handler exclude each other only while they hold the
  state lock, so the model interleaves the locked stretches of \<open>runLoop\<close>, \<open>startElection\<close> and
  \<open>sendHeartbeatTo\<close>. A request may be served at any time after it was sent, or never, an answer may be
  lost; answers that grant a vote reach the candidate only if the vote was given. The lists \<open>stood\<close>,
  \<open>granted\<close> and \<open>elected\<close> record what has happened and are read by no operation.
\<close>

subsection \<open>Threads and actions\<close>

datatype Thread =
  Sleeping
| Saw SentinelRole bool
| Asking uint64 nat "endpoint list"
| Asked
| Won
| Beating "endpoint list"
| Beaten uint64 "endpoint list"

record Group =
  sentinels :: "Sentinel list"
  threads :: "Thread list"
  asked :: "(uint64 \<times> nat) list"
  beats :: "(uint64 \<times> string \<times> endpoint option) list"
  stood :: "(nat \<times> uint64) list"
  granted :: "(nat \<times> uint64 \<times> nat) list"
  elected :: "(uint64 \<times> nat) list"

datatype Action =
  Wake nat uint64
| Pass nat
| Timeout nat uint64
| Begin nat
| Answer nat uint64 uint64 "(uint64 \<times> bool) option"
| Finish nat
| Close nat uint64
| Lead nat
| StartBeats nat
| Beat nat
| BeatAnswer nat uint64 uint64 "uint64 option"
| StopBeats nat
| Vote nat uint64 uint64 nat
| Deliver nat uint64 "uint64 \<times> string \<times> endpoint option"

definition address :: "Sentinel \<Rightarrow> endpoint" where
  "address s = (m_bindHost s, m_bindPort s)"

definition put :: "nat \<Rightarrow> Sentinel \<Rightarrow> Thread \<Rightarrow> Group \<Rightarrow> Group" where
  "put k s t g = g\<lparr>sentinels := (sentinels g)[k := s], threads := (threads g)[k := t]\<rparr>"

text \<open>The answer of a peer that a candidate or a leader may receive.\<close>

definition vote_answer :: "Group \<Rightarrow> nat \<Rightarrow> uint64 \<Rightarrow> endpoint \<Rightarrow> (uint64 \<times> bool) option \<Rightarrow> bool" where
  "vote_answer g k t p ans \<longleftrightarrow>
     (case ans of
        None \<Rightarrow> True
      | Some (peerTerm, ok) \<Rightarrow>
          (\<exists>j \<in> {..<length (sentinels g)}. address (sentinels g ! j) = p \<and> peerTerm \<le> m_currentTerm (sentinels g ! j) \<and>
             (ok \<longrightarrow> (j, t, k) \<in> set (granted g))))"

text \<open>
  One step. A pass of a leader that the rate limit of \<open>sendHeartbeats\<close> skips has no step of its own: it is a pass whose
  heartbeats are all lost.
\<close>

fun act :: "Action \<Rightarrow> Group \<Rightarrow> Group option" where
  "act (Wake k now) g =
     (if k < length (sentinels g) \<and> threads g ! k = Sleeping
      then let s = sentinels g ! k
           in Some (put k s (Saw (m_role s) (now - m_lastHeartbeatMs s > m_electionTimeoutMs s)) g)
      else None)"
| "act (Pass k) g =
     (if k < length (sentinels g) \<and> threads g ! k = Saw Follower False then Some (put k (sentinels g ! k) Sleeping g)
      else None)"
| "act (Timeout k tmo) g =
     (if k < length (sentinels g) \<and> threads g ! k = Saw Follower True
      then let s = becomeCandidate tmo (sentinels g ! k)
           in Some ((put k s Sleeping g)\<lparr>stood := (k, m_currentTerm s) # stood g\<rparr>)
      else None)"
| "act (Begin k) g =
     (if k < length (sentinels g) \<and> (\<exists>b \<in> {True, False}. threads g ! k = Saw Candidate b)
      then let s = sentinels g ! k
           in Some ((put k s (Asking (m_currentTerm s) 1 (m_sentinelPeers s)) g)\<lparr>asked := (m_currentTerm s, k) # asked g\<rparr>)
      else None)"
| "act (Answer k tmo now ans) g =
     (if k < length (sentinels g)
      then case threads g ! k of
             Asking t v (p # ps) \<Rightarrow>
               if vote_answer g k t p ans
               then let s = sentinels g ! k
                    in case count_vote tmo now t ans v s of
                         Inl s' \<Rightarrow>
                           Some ((put k s' Asked g)\<lparr>elected := (if m_role s \<noteq> Leader \<and> m_role s' = Leader then [(t, k)] else []) @ elected g\<rparr>)
                       | Inr v' \<Rightarrow> Some (put k s (Asking t v' ps) g)
               else None
           | _ \<Rightarrow> None
      else None)"
| "act (Finish k) g =
     (if k < length (sentinels g)
      then case threads g ! k of Asking t v [] \<Rightarrow> Some (put k (sentinels g ! k) Asked g) | _ \<Rightarrow> None
      else None)"
| "act (Close k tmo) g =
     (if k < length (sentinels g) \<and> threads g ! k = Asked
      then case close_election tmo (sentinels g ! k) of (s, won) \<Rightarrow> Some (put k s (if won then Won else Sleeping) g)
      else None)"
| "act (Lead k) g =
     (if k < length (sentinels g) \<and> threads g ! k = Won then Some (put k (becomeLeader (sentinels g ! k)) Sleeping g)
      else None)"
| "act (StartBeats k) g =
     (if k < length (sentinels g) \<and> (\<exists>b \<in> {True, False}. threads g ! k = Saw Leader b)
      then let s = sentinels g ! k in Some (put k s (Beating (m_sentinelPeers s)) g)
      else None)"
| "act (Beat k) g =
     (if k < length (sentinels g)
      then case threads g ! k of
             Beating (p # ps) \<Rightarrow>
               let s = sentinels g ! k
               in Some ((put k s (Beaten (m_currentTerm s) ps) g)\<lparr>beats := heartbeat_request s # beats g\<rparr>)
           | _ \<Rightarrow> None
      else None)"
| "act (BeatAnswer k tmo now ans) g =
     (if k < length (sentinels g)
      then case threads g ! k of
             Beaten t ps \<Rightarrow>
               if (case ans of None \<Rightarrow> True
                   | Some peerTerm \<Rightarrow> \<exists>j \<in> {..<length (sentinels g)}. peerTerm \<le> m_currentTerm (sentinels g ! j))
               then Some (put k (heartbeat_answer tmo now t ans (sentinels g ! k)) (Beating ps) g)
               else None
           | _ \<Rightarrow> None
      else None)"
| "act (StopBeats k) g =
     (if k < length (sentinels g) \<and> threads g ! k = Beating [] then Some (put k (sentinels g ! k) Sleeping g) else None)"
| "act (Vote j now t k) g =
     (if j < length (sentinels g) \<and> k < length (sentinels g) \<and> (t, k) \<in> set (asked g) \<and>
         address (sentinels g ! j) \<in> set (m_sentinelPeers (sentinels g ! k))
      then case handleRequestVote now t (m_nodeId (sentinels g ! k)) (sentinels g ! j) of (s, ok) \<Rightarrow>
             Some ((put j s (threads g ! j) g)\<lparr>granted := (if ok then [(j, t, k)] else []) @ granted g\<rparr>)
      else None)"
| "act (Deliver j now b) g =
     (if j < length (sentinels g) \<and> b \<in> set (beats g)
      then case b of (t, leader, master) \<Rightarrow>
             Some (put j (fst (handleHeartbeat now t leader master (sentinels g ! j))) (threads g ! j) g)
      else None)"

fun run :: "Action list \<Rightarrow> Group \<Rightarrow> Group option" where
  "run [] g = Some g"
| "run (a # as) g = (case act a g of None \<Rightarrow> None | Some g' \<Rightarrow> run as g')"

text \<open>A group at its start: every sentinel knows all the others as its peers.\<close>

definition start_group :: "Sentinel list \<Rightarrow> Group" where
  "start_group ss = \<lparr>sentinels = ss, threads = map (\<lambda>_. Sleeping) ss, asked = [], beats = [], stood = [], granted = [], elected = []\<rparr>"

definition fresh_group :: "Sentinel list \<Rightarrow> bool" where
  "fresh_group ss \<longleftrightarrow>
     distinct (map address ss) \<and>
     list_all (\<lambda>s. m_role s = Follower \<and> m_currentTerm s = 0 \<and> distinct (m_sentinelPeers s) \<and>
       set (m_sentinelPeers s) = set (map address ss) - {address s}) ss"

subsection \<open>The invariant\<close>

text \<open>What the configuration says of the peers, with the number of steps so far as a bound of the terms.\<close>

definition inv_config :: "Group \<Rightarrow> bool" where
  "inv_config g \<longleftrightarrow>
     length (threads g) = length (sentinels g) \<and> distinct (map address (sentinels g)) \<and>
     (\<forall>k < length (sentinels g). distinct (m_sentinelPeers (sentinels g ! k)) \<and>
        set (m_sentinelPeers (sentinels g ! k)) = set (map address (sentinels g)) - {address (sentinels g ! k)})"

definition inv_terms :: "nat \<Rightarrow> Group \<Rightarrow> bool" where
  "inv_terms m g \<longleftrightarrow>
     (\<forall>k < length (sentinels g). unat (m_currentTerm (sentinels g ! k)) \<le> m) \<and>
     (\<forall>(t, k) \<in> set (asked g). unat t \<le> m) \<and> (\<forall>(t, r) \<in> set (beats g). unat t \<le> m)"

definition inv_votes :: "Group \<Rightarrow> bool" where
  "inv_votes g \<longleftrightarrow>
     (\<forall>(j, t, k) \<in> set (granted g). j < length (sentinels g) \<and> t \<le> m_currentTerm (sentinels g ! j)) \<and>
     (\<forall>j t k k'. (j, t, k) \<in> set (granted g) \<longrightarrow> (j, t, k') \<in> set (granted g) \<longrightarrow> k = k') \<and>
     (\<forall>(k, t) \<in> set (stood g). k < length (sentinels g) \<and> t \<le> m_currentTerm (sentinels g ! k)) \<and>
     (\<forall>j t k. (j, t) \<in> set (stood g) \<longrightarrow> (j, t, k) \<notin> set (granted g)) \<and>
     (\<forall>k < length (sentinels g). m_role (sentinels g ! k) = Candidate \<longrightarrow> (k, m_currentTerm (sentinels g ! k)) \<in> set (stood g))"

text \<open>The peers in \<open>V\<close> have voted for \<open>k\<close> in term \<open>t\<close>.\<close>

definition backed :: "Group \<Rightarrow> endpoint set \<Rightarrow> uint64 \<Rightarrow> nat \<Rightarrow> bool" where
  "backed g V t k \<longleftrightarrow>
     V \<subseteq> set (m_sentinelPeers (sentinels g ! k)) \<and>
     (\<forall>p \<in> V. \<exists>j < length (sentinels g). address (sentinels g ! j) = p \<and> (j, t, k) \<in> set (granted g))"

definition inv_tally :: "Group \<Rightarrow> bool" where
  "inv_tally g \<longleftrightarrow>
     (\<forall>k < length (sentinels g). \<forall>t v ps. threads g ! k = Asking t v ps \<longrightarrow>
        distinct ps \<and> set ps \<subseteq> set (m_sentinelPeers (sentinels g ! k)) \<and>
        (\<exists>V. v = Suc (card V) \<and> backed g V t k \<and> V \<inter> set ps = {})) \<and>
     (\<forall>(t, k) \<in> set (elected g). k < length (sentinels g) \<and> (k, t) \<in> set (stood g) \<and>
        (\<exists>V. Suc (card V) \<ge> (1 + length (m_sentinelPeers (sentinels g ! k))) div 2 + 1 \<and> backed g V t k))"

definition election_inv :: "nat \<Rightarrow> Group \<Rightarrow> bool" where
  "election_inv m g \<longleftrightarrow> inv_config g \<and> inv_terms m g \<and> inv_votes g \<and> inv_tally g"


subsection \<open>Preservation\<close>

lemma put_simps [simp]:
  "length (sentinels (put k s t g)) = length (sentinels g)" "length (threads (put k s t g)) = length (threads g)"
  "asked (put k s t g) = asked g" "beats (put k s t g) = beats g" "stood (put k s t g) = stood g"
  "granted (put k s t g) = granted g" "elected (put k s t g) = elected g"
  by (simp_all add: put_def)

lemma put_nth:
  "j < length (sentinels g) \<Longrightarrow> sentinels (put k s t g) ! j = (if j = k then s else sentinels g ! j)"
  "length (threads g) = length (sentinels g) \<Longrightarrow> j < length (sentinels g) \<Longrightarrow> threads (put k s t g) ! j = (if j = k then t else threads g ! j)"
  by (simp_all add: put_def nth_list_update)

text \<open>The fields that no operation of a running sentinel changes.\<close>

definition same_config :: "Sentinel \<Rightarrow> Sentinel \<Rightarrow> bool" where
  "same_config s s' \<longleftrightarrow> address s' = address s \<and> m_sentinelPeers s' = m_sentinelPeers s \<and> m_nodeId s' = m_nodeId s"

lemma put_addresses:
  "same_config (sentinels g ! k) s \<Longrightarrow> map address (sentinels (put k s t g)) = map address (sentinels g)"
  by (simp add: put_def same_config_def map_update list_update_same_conv)
     (metis length_map list_update_beyond list_update_id map_update not_le_imp_less nth_map)

lemma address_set: "address ` set (sentinels g) = set (map address (sentinels g))"
  by simp

lemma inv_config_put:
  assumes "inv_config g" "k < length (sentinels g)" "same_config (sentinels g ! k) s"
  shows "inv_config (put k s t g)"
  using assms put_addresses[OF assms(3), of t] unfolding inv_config_def address_set
  by (auto simp: put_nth same_config_def)

lemma backed_put:
  assumes "same_config (sentinels g ! i) s" "i < length (sentinels g)" "k < length (sentinels g)"
  shows "backed (put i s th g) V t k = backed g V t k"
proof -
  have "address (sentinels (put i s th g) ! j) = address (sentinels g ! j)" if "j < length (sentinels g)" for j
    using assms(1) that by (simp add: put_nth same_config_def)
  moreover have "m_sentinelPeers (sentinels (put i s th g) ! k) = m_sentinelPeers (sentinels g ! k)"
    using assms by (simp add: put_nth same_config_def)
  ultimately show ?thesis unfolding backed_def by (simp cong: conj_cong)
qed

lemma inv_tally_put:
  assumes "inv_tally g" "inv_config g" "i < length (sentinels g)" "same_config (sentinels g ! i) s"
    "\<And>t v ps. th = Asking t v ps \<Longrightarrow> distinct ps \<and> set ps \<subseteq> set (m_sentinelPeers s) \<and>
       (\<exists>V. v = Suc (card V) \<and> backed g V t i \<and> V \<inter> set ps = {})"
  shows "inv_tally (put i s th g)"
  unfolding inv_tally_def
proof (intro conjI allI impI ballI)
  note len = assms(2)[unfolded inv_config_def, THEN conjunct1]
  fix k t v ps
  assume k: "k < length (sentinels (put i s th g))" and th: "threads (put i s th g) ! k = Asking t v ps"
  show "distinct ps" and "set ps \<subseteq> set (m_sentinelPeers (sentinels (put i s th g) ! k))"
    and "\<exists>V. v = Suc (card V) \<and> backed (put i s th g) V t k \<and> V \<inter> set ps = {}"
    using assms(1) assms(5)[of t v ps] k th backed_put[OF assms(4,3), of k th _ t]
    by (auto simp: put_nth len inv_tally_def split: if_splits)
next
  fix e
  assume "e \<in> set (elected (put i s th g))"
  then show "case e of (t, k) \<Rightarrow> k < length (sentinels (put i s th g)) \<and> (k, t) \<in> set (stood (put i s th g)) \<and>
    (\<exists>V. Suc (card V) \<ge> (1 + length (m_sentinelPeers (sentinels (put i s th g) ! k))) div 2 + 1 \<and> backed (put i s th g) V t k)"
    using assms(1,3,4) backed_put[OF assms(4,3), of _ th]
    by (fastforce simp: inv_tally_def put_nth same_config_def)
qed

lemma tallyD:
  assumes "inv_tally g"
  shows "k < length (sentinels g) \<Longrightarrow> threads g ! k = Asking t v ps \<Longrightarrow>
      distinct ps \<and> set ps \<subseteq> set (m_sentinelPeers (sentinels g ! k)) \<and>
      (\<exists>V. v = Suc (card V) \<and> backed g V t k \<and> V \<inter> set ps = {})"
    "(t, k) \<in> set (elected g) \<Longrightarrow> k < length (sentinels g) \<and> (k, t) \<in> set (stood g) \<and>
      (\<exists>V. Suc (card V) \<ge> (1 + length (m_sentinelPeers (sentinels g ! k))) div 2 + 1 \<and> backed g V t k)"
  using assms unfolding inv_tally_def by blast+

text \<open>A step that changes one sentinel without standing, voting or winning.\<close>

lemma quiet_put:
  assumes inv: "election_inv m g" and k: "k < length (sentinels g)" and c: "same_config (sentinels g ! k) s"
    and le: "m_currentTerm (sentinels g ! k) \<le> m_currentTerm s" and b: "unat (m_currentTerm s) \<le> m"
    and cand: "m_role s = Candidate \<Longrightarrow> m_role (sentinels g ! k) = Candidate \<and> m_currentTerm s = m_currentTerm (sentinels g ! k)"
    and th: "\<And>t v ps. th = Asking t v ps \<Longrightarrow> distinct ps \<and> set ps \<subseteq> set (m_sentinelPeers s) \<and>
       (\<exists>V. v = Suc (card V) \<and> backed g V t k \<and> V \<inter> set ps = {})"
  shows "election_inv m (put k s th g)"
proof -
  have 1: "inv_config g" "inv_terms m g" "inv_votes g" "inv_tally g" using inv by (simp_all add: election_inv_def)
  have "inv_terms m (put k s th g)" using 1(2) b by (auto simp: inv_terms_def put_nth)
  moreover have "inv_votes (put k s th g)"
    using 1(3) le cand k unfolding inv_votes_def by (fastforce simp: put_nth split: if_splits)
  ultimately show ?thesis
    using inv_config_put[OF 1(1) k c] inv_tally_put[OF 1(4,1) k c th] by (simp add: election_inv_def)
qed

lemma election_inv_mono: "election_inv m g \<Longrightarrow> m \<le> m' \<Longrightarrow> election_inv m' g"
  unfolding election_inv_def inv_terms_def by (auto intro: le_trans)

lemma history_simps [simp]:
  "inv_config (g\<lparr>asked := x\<rparr>) = inv_config g" "inv_votes (g\<lparr>asked := x\<rparr>) = inv_votes g" "inv_tally (g\<lparr>asked := x\<rparr>) = inv_tally g"
  "inv_config (g\<lparr>beats := y\<rparr>) = inv_config g" "inv_votes (g\<lparr>beats := y\<rparr>) = inv_votes g" "inv_tally (g\<lparr>beats := y\<rparr>) = inv_tally g"
  "inv_config (g\<lparr>elected := z\<rparr>) = inv_config g" "inv_votes (g\<lparr>elected := z\<rparr>) = inv_votes g" "inv_terms m (g\<lparr>elected := z\<rparr>) = inv_terms m g"
  "backed (g\<lparr>elected := z\<rparr>) V t k = backed g V t k"
  "inv_config (g\<lparr>stood := v\<rparr>) = inv_config g" "inv_terms m (g\<lparr>stood := v\<rparr>) = inv_terms m g" "backed (g\<lparr>stood := v\<rparr>) V t k = backed g V t k"
  "inv_config (g\<lparr>granted := w\<rparr>) = inv_config g" "inv_terms m (g\<lparr>granted := w\<rparr>) = inv_terms m g"
  by (simp_all add: inv_config_def inv_votes_def inv_tally_def inv_terms_def backed_def)

lemma more_asked:
  "election_inv m g \<Longrightarrow> unat t \<le> m \<Longrightarrow> election_inv m (g\<lparr>asked := (t, k) # asked g\<rparr>)"
  by (simp add: election_inv_def) (simp add: inv_terms_def)

lemma more_beats:
  "election_inv m g \<Longrightarrow> unat (fst r) \<le> m \<Longrightarrow> election_inv m (g\<lparr>beats := r # beats g\<rparr>)"
  by (simp add: election_inv_def) (simp add: inv_terms_def case_prod_beta)

lemma more_elected:
  assumes "election_inv m g" "k < length (sentinels g)" "(k, t) \<in> set (stood g)"
    "Suc (card V) \<ge> (1 + length (m_sentinelPeers (sentinels g ! k))) div 2 + 1" "backed g V t k"
  shows "election_inv m (g\<lparr>elected := (t, k) # elected g\<rparr>)"
  using assms by (simp add: election_inv_def) (auto simp: inv_tally_def)

subsubsection \<open>Standing for election and voting\<close>

lemma unat_Suc_term: "unat (t :: uint64) \<le> m \<Longrightarrow> Suc m < 2 ^ 64 \<Longrightarrow> unat (t + 1) = Suc (unat t)"
  by (simp add: unat_word_ariths)

lemma stand_inv:
  assumes inv: "election_inv m g" and k: "k < length (sentinels g)" and m: "Suc m < 2 ^ 64"
    and s: "s = becomeCandidate tmo (sentinels g ! k)"
  shows "election_inv (Suc m) ((put k s Sleeping g)\<lparr>stood := (k, m_currentTerm s) # stood g\<rparr>)"
proof -
  have 1: "inv_config g" "inv_terms m g" "inv_votes g" "inv_tally g" using inv by (simp_all add: election_inv_def)
  have c: "same_config (sentinels g ! k) s" by (simp add: s becomeCandidate_def same_config_def address_def)
  have u: "unat (m_currentTerm s) = Suc (unat (m_currentTerm (sentinels g ! k)))"
    using unat_Suc_term[OF _ m] 1(2) k by (simp add: s becomeCandidate_def inv_terms_def)
  then have lt: "m_currentTerm (sentinels g ! k) < m_currentTerm s" by (simp add: word_less_nat_alt)
  have "inv_terms (Suc m) (put k s Sleeping g)"
    using 1(2) k u by (auto simp: inv_terms_def put_nth intro: le_SucI)
  moreover have "inv_votes ((put k s Sleeping g)\<lparr>stood := (k, m_currentTerm s) # stood g\<rparr>)"
    using 1(3) lt k unfolding inv_votes_def
    by (fastforce simp: put_nth split: if_splits)
  moreover have "inv_tally ((put k s Sleeping g)\<lparr>stood := (k, m_currentTerm s) # stood g\<rparr>)"
    using inv_tally_put[OF 1(4,1) k c, of Sleeping] by (fastforce simp: inv_tally_def)
  ultimately show ?thesis using inv_config_put[OF 1(1) k c] by (simp add: election_inv_def)
qed

lemma backed_more: "backed g V t k \<Longrightarrow> backed (g\<lparr>granted := x @ granted g\<rparr>) V t k"
  unfolding backed_def by fastforce

lemma inv_tally_more:
  assumes "inv_tally g"
  shows "inv_tally (g\<lparr>granted := x @ granted g\<rparr>)"
  unfolding inv_tally_def
proof (intro conjI allI impI ballI)
  fix k t v ps
  assume "k < length (sentinels (g\<lparr>granted := x @ granted g\<rparr>))" "threads (g\<lparr>granted := x @ granted g\<rparr>) ! k = Asking t v ps"
  then have "distinct ps \<and> set ps \<subseteq> set (m_sentinelPeers (sentinels g ! k)) \<and>
      (\<exists>V. v = Suc (card V) \<and> backed g V t k \<and> V \<inter> set ps = {})"
    using assms by (simp add: inv_tally_def)
  then show "distinct ps" "set ps \<subseteq> set (m_sentinelPeers (sentinels (g\<lparr>granted := x @ granted g\<rparr>) ! k))"
    "\<exists>V. v = Suc (card V) \<and> backed (g\<lparr>granted := x @ granted g\<rparr>) V t k \<and> V \<inter> set ps = {}"
    using backed_more[of g] by auto
next
  fix e
  assume in_e: "e \<in> set (elected (g\<lparr>granted := x @ granted g\<rparr>))"
  obtain t k where e: "e = (t, k)" by (rule prod.exhaust)
  with in_e have "(t, k) \<in> set (elected g)" by simp
  with e show "case e of (t, k) \<Rightarrow> k < length (sentinels (g\<lparr>granted := x @ granted g\<rparr>)) \<and> (k, t) \<in> set (stood (g\<lparr>granted := x @ granted g\<rparr>)) \<and>
    (\<exists>V. Suc (card V) \<ge> (1 + length (m_sentinelPeers (sentinels (g\<lparr>granted := x @ granted g\<rparr>) ! k))) div 2 + 1 \<and>
      backed (g\<lparr>granted := x @ granted g\<rparr>) V t k)"
    using tallyD(2)[OF assms] backed_more[of g] by fastforce
qed

lemma vote_inv:
  assumes inv: "election_inv m g" and j: "j < length (sentinels g)" and t: "unat t \<le> m"
    and lt: "m_currentTerm (sentinels g ! j) < t" and c: "same_config (sentinels g ! j) s"
    and s: "m_currentTerm s = t" "m_role s = Follower"
  shows "election_inv m ((put j s (threads g ! j) g)\<lparr>granted := [(j, t, k)] @ granted g\<rparr>)"
proof -
  let ?g = "put j s (threads g ! j) g"
  have 1: "inv_config g" "inv_terms m g" "inv_votes g" "inv_tally g" using inv by (simp_all add: election_inv_def)
  have th: "distinct ps \<and> set ps \<subseteq> set (m_sentinelPeers s) \<and>
       (\<exists>V. v = Suc (card V) \<and> backed g V t j \<and> V \<inter> set ps = {})" if "threads g ! j = Asking t v ps" for t v ps
    using 1(4) j c that by (simp add: inv_tally_def same_config_def)
  have q: "election_inv m ?g"
    using lt t s by (intro quiet_put[OF inv j c] th) auto
  then have 2: "inv_config ?g" "inv_terms m ?g" "inv_tally ?g" and vq: "inv_votes ?g" by (simp_all add: election_inv_def)
  have old: "t' \<noteq> t" if "(j, t', k') \<in> set (granted g) \<or> (j, t') \<in> set (stood g)" for t' k'
    using 1(3) lt that unfolding inv_votes_def by fastforce
  note v = 1(3)[unfolded inv_votes_def]
  have "inv_votes (?g\<lparr>granted := [(j, t, k)] @ granted ?g\<rparr>)"
    unfolding inv_votes_def
  proof (intro conjI)
    show "\<forall>(i, t', k') \<in> set (granted (?g\<lparr>granted := [(j, t, k)] @ granted ?g\<rparr>)).
        i < length (sentinels (?g\<lparr>granted := [(j, t, k)] @ granted ?g\<rparr>)) \<and>
        t' \<le> m_currentTerm (sentinels (?g\<lparr>granted := [(j, t, k)] @ granted ?g\<rparr>) ! i)"
      using vq[unfolded inv_votes_def, THEN conjunct1] j s(1) by (simp add: put_nth)
  next
    show "\<forall>i t' k1 k2. (i, t', k1) \<in> set (granted (?g\<lparr>granted := [(j, t, k)] @ granted ?g\<rparr>)) \<longrightarrow>
        (i, t', k2) \<in> set (granted (?g\<lparr>granted := [(j, t, k)] @ granted ?g\<rparr>)) \<longrightarrow> k1 = k2"
      using v old by auto
  next
    show "\<forall>(i, t') \<in> set (stood (?g\<lparr>granted := [(j, t, k)] @ granted ?g\<rparr>)).
        i < length (sentinels (?g\<lparr>granted := [(j, t, k)] @ granted ?g\<rparr>)) \<and>
        t' \<le> m_currentTerm (sentinels (?g\<lparr>granted := [(j, t, k)] @ granted ?g\<rparr>) ! i)"
      using vq[unfolded inv_votes_def] by simp
  next
    show "\<forall>i t' k'. (i, t') \<in> set (stood (?g\<lparr>granted := [(j, t, k)] @ granted ?g\<rparr>)) \<longrightarrow>
        (i, t', k') \<notin> set (granted (?g\<lparr>granted := [(j, t, k)] @ granted ?g\<rparr>))"
      using v old by auto
  next
    show "\<forall>i < length (sentinels (?g\<lparr>granted := [(j, t, k)] @ granted ?g\<rparr>)).
        m_role (sentinels (?g\<lparr>granted := [(j, t, k)] @ granted ?g\<rparr>) ! i) = Candidate \<longrightarrow>
        (i, m_currentTerm (sentinels (?g\<lparr>granted := [(j, t, k)] @ granted ?g\<rparr>) ! i)) \<in> set (stood (?g\<lparr>granted := [(j, t, k)] @ granted ?g\<rparr>))"
      using v s by (simp add: put_nth)
  qed
  moreover have "inv_tally (?g\<lparr>granted := [(j, t, k)] @ granted ?g\<rparr>)"
    by (rule inv_tally_more[OF 2(3)])
  ultimately show ?thesis using 2(1,2) by (simp add: election_inv_def)
qed

subsubsection \<open>Every action\<close>

lemma op_config [simp]:
  "same_config s s"
  "same_config s (becomeLeader s)"
  "same_config s (fst (close_election tmo s))"
  "same_config s (becomeFollower tmo now t s)"
  "same_config s (heartbeat_answer tmo now t ans s)"
  "same_config s (claim_victory t s)"
  "same_config s (fst (handleRequestVote now t c s))"
  "same_config s (fst (handleHeartbeat now t l ma s))"
  by (simp_all add: same_config_def address_def becomeLeader_def close_election_def becomeFollower_def heartbeat_answer_def
      claim_victory_def handleRequestVote_def handleHeartbeat_def Let_def split: option.split prod.split)

lemma heartbeat_effect:
  "m_currentTerm s \<le> m_currentTerm (fst (handleHeartbeat now t l ma s))"
  "m_role (fst (handleHeartbeat now t l ma s)) = Candidate \<Longrightarrow>
     m_role s = Candidate \<and> m_currentTerm (fst (handleHeartbeat now t l ma s)) = m_currentTerm s"
  "unat (m_currentTerm s) \<le> m \<Longrightarrow> unat t \<le> m \<Longrightarrow> unat (m_currentTerm (fst (handleHeartbeat now t l ma s))) \<le> m"
  by (auto simp: handleHeartbeat_def Let_def split: if_splits option.splits prod.splits)

lemma tally_inv:
  assumes inv: "election_inv m g" and k: "k < length (sentinels g)" and th: "threads g ! k = Asking t v (p # ps)"
    and ans: "vote_answer g k t p ans"
  shows "\<exists>V. (if ans \<noteq> None \<and> snd (the ans) then Suc v else v) = Suc (card V) \<and> backed g V t k \<and> V \<inter> set ps = {}"
proof -
  have "inv_tally g" using inv by (simp add: election_inv_def)
  then obtain V where V: "v = Suc (card V)" "backed g V t k" "V \<inter> set (p # ps) = {}"
    and p: "distinct (p # ps)" "set (p # ps) \<subseteq> set (m_sentinelPeers (sentinels g ! k))"
    using tallyD(1)[OF _ k th] by auto
  show ?thesis
  proof (cases "ans \<noteq> None \<and> snd (the ans)")
    case True
    then obtain j where "j < length (sentinels g)" "address (sentinels g ! j) = p" "(j, t, k) \<in> set (granted g)"
      using ans by (auto simp: vote_answer_def)
    then have "backed g (insert p V) t k" using V(2) p(2) by (auto simp: backed_def)
    moreover have "finite V" using V(2) finite_subset by (auto simp: backed_def)
    ultimately show ?thesis using V(1,3) p(1) True by (intro exI[of _ "insert p V"]) auto
  qed (use V in auto)
qed

lemma termsD:
  assumes "election_inv m g"
  shows "k < length (sentinels g) \<Longrightarrow> unat (m_currentTerm (sentinels g ! k)) \<le> m"
    "(t, k) \<in> set (asked g) \<Longrightarrow> unat t \<le> m" "(t, r) \<in> set (beats g) \<Longrightarrow> unat t \<le> m"
  using assms unfolding election_inv_def inv_terms_def by blast+

text \<open>A step after which the thread is not in the middle of an election.\<close>

lemma calm_put:
  assumes "election_inv m g" "k < length (sentinels g)" "same_config (sentinels g ! k) s"
    "m_currentTerm (sentinels g ! k) \<le> m_currentTerm s" "unat (m_currentTerm s) \<le> m"
    "m_role s = Candidate \<Longrightarrow> m_role (sentinels g ! k) = Candidate \<and> m_currentTerm s = m_currentTerm (sentinels g ! k)"
    "\<And>t v ps. th \<noteq> Asking t v ps"
  shows "election_inv m (put k s th g)"
  by (rule quiet_put[OF assms(1-6)]) (use assms(7) in auto)

text \<open>A handler, which leaves the thread where it is.\<close>

lemma served_put:
  assumes "election_inv m g" "k < length (sentinels g)" "same_config (sentinels g ! k) s"
    "m_currentTerm (sentinels g ! k) \<le> m_currentTerm s" "unat (m_currentTerm s) \<le> m"
    "m_role s = Candidate \<Longrightarrow> m_role (sentinels g ! k) = Candidate \<and> m_currentTerm s = m_currentTerm (sentinels g ! k)"
  shows "election_inv m (put k s (threads g ! k) g)"
proof (rule quiet_put[OF assms(1-6)])
  fix t v ps
  assume "threads g ! k = Asking t v ps"
  then show "distinct ps \<and> set ps \<subseteq> set (m_sentinelPeers s) \<and> (\<exists>V. v = Suc (card V) \<and> backed g V t k \<and> V \<inter> set ps = {})"
    using tallyD(1)[of g k t v ps] assms(1-3) by (simp add: election_inv_def same_config_def)
qed

lemma claim_inv:
  assumes inv: "election_inv m g" and k: "k < length (sentinels g)"
  shows "election_inv m (put k (claim_victory t (sentinels g ! k)) Asked g)"
  using termsD(1)[OF inv k] by (intro calm_put[OF inv k op_config(6)]) (auto simp: claim_victory_def split: if_splits)

lemma victory_inv:
  assumes inv: "election_inv m g" and k: "k < length (sentinels g)" and V: "backed g V t k"
    and q: "isQuorum (Suc (card V)) (sentinels g ! k)"
    and r: "m_role (sentinels g ! k) \<noteq> Leader" "m_role (claim_victory t (sentinels g ! k)) = Leader"
  shows "election_inv m ((put k (claim_victory t (sentinels g ! k)) Asked g)\<lparr>elected := (t, k) # elected g\<rparr>)"
proof -
  let ?s = "sentinels g ! k"
  have "m_role ?s = Candidate" "m_currentTerm ?s = t" using r by (auto simp: claim_victory_def split: if_splits)
  then have "(k, t) \<in> set (stood g)" using inv k by (auto simp: election_inv_def inv_votes_def)
  then show ?thesis
    using more_elected[OF claim_inv[OF inv k, of t], of k t V] q k V backed_put[OF op_config(6) k k] op_config(6)[of ?s t]
    by (simp add: put_nth isQuorum_def same_config_def)
qed

lemma step_down_inv:
  assumes inv: "election_inv m g" and k: "k < length (sentinels g)" and ans: "vote_answer g k t p (Some (pt, ok))"
  shows "election_inv m (put k (becomeFollower tmo now pt (sentinels g ! k)) Asked g)"
proof -
  obtain j where j: "j < length (sentinels g)" "pt \<le> m_currentTerm (sentinels g ! j)"
    using ans[unfolded vote_answer_def] by auto
  then have "unat pt \<le> m" using termsD(1)[OF inv j(1)] by (meson le_trans word_le_nat_alt)
  then show ?thesis
    using termsD(1)[OF inv k] by (intro calm_put[OF inv k op_config(4)]) (auto simp: becomeFollower_def max_def)
qed

lemma answer_inv:
  assumes inv: "election_inv m g" and act: "act (Answer k tmo now ans) g = Some g'"
  shows "election_inv m g'"
proof -
  let ?s = "sentinels g ! k"
  obtain t v p ps where k: "k < length (sentinels g)" and th: "threads g ! k = Asking t v (p # ps)" and ans: "vote_answer g k t p ans"
    using act by (auto split: if_splits Thread.splits list.splits)
  obtain V where V: "(if ans \<noteq> None \<and> snd (the ans) then Suc v else v) = Suc (card V)" "backed g V t k" "V \<inter> set ps = {}"
    using tally_inv[OF inv k th ans] by blast
  have ps: "distinct ps" "set ps \<subseteq> set (m_sentinelPeers ?s)" using tallyD(1)[OF _ k th] inv by (auto simp: election_inv_def)
  have more: "election_inv m (put k ?s (Asking t (Suc (card V)) ps) g)"
    using termsD(1)[OF inv k] ps V(2,3) by (intro quiet_put[OF inv k]) auto
  note won = victory_inv[OF inv k V(2)]
  have nl: "m_role (becomeFollower tmo now pt ?s) = Follower" for pt by (simp add: becomeFollower_def)
  have g': "(case count_vote tmo now t ans v ?s of
      Inl s' \<Rightarrow> Some ((put k s' Asked g)\<lparr>elected := (if m_role ?s \<noteq> Leader \<and> m_role s' = Leader then [(t, k)] else []) @ elected g\<rparr>)
    | Inr v' \<Rightarrow> Some (put k ?s (Asking t v' ps) g)) = Some g'"
    using act k th ans by (simp add: Let_def)
  have none: "election_inv m ((put k s' Asked g)\<lparr>elected := elected g\<rparr>)" if "election_inv m (put k s' Asked g)" for s'
    using that by (simp add: put_def)
  have tally: "election_inv m g'"
    if "count_vote tmo now t ans v ?s = (if isQuorum (Suc (card V)) ?s then Inl (claim_victory t ?s) else Inr (Suc (card V)))"
    using g' none[OF claim_inv[OF inv k]] won more unfolding that by (cases "isQuorum (Suc (card V)) ?s") (auto split: if_splits)
  show ?thesis
  proof (cases ans)
    case None
    then show ?thesis using V(1) by (intro tally) (simp add: count_vote_def)
  next
    case (Some a)
    then obtain pt ok where a: "ans = Some (pt, ok)" by (cases a) simp
    show ?thesis
    proof (cases "\<not> ok \<and> pt > t")
      case True
      then show ?thesis using g' none[OF step_down_inv[OF inv k ans[unfolded a]], of tmo now] by (simp add: a count_vote_def nl)
    next
      case False
      then show ?thesis using V(1) by (intro tally) (cases ok; simp add: a count_vote_def)
    qed
  qed
qed

lemma beat_answer_inv:
  assumes inv: "election_inv m g" and act: "act (BeatAnswer k tmo now ans) g = Some g'"
  shows "election_inv m g'"
proof -
  let ?s = "sentinels g ! k"
  obtain t ps where k: "k < length (sentinels g)" and th: "threads g ! k = Beaten t ps"
    and ans: "\<And>pt. ans = Some pt \<Longrightarrow> \<exists>j < length (sentinels g). pt \<le> m_currentTerm (sentinels g ! j)"
    and g': "g' = put k (heartbeat_answer tmo now t ans ?s) (Beating ps) g"
    using act by (fastforce split: if_splits Thread.splits option.splits)
  have b: "unat pt \<le> m" if "ans = Some pt" for pt
    using ans[OF that] termsD(1)[OF inv] by (meson le_trans word_le_nat_alt)
  show ?thesis
    unfolding g' using termsD(1)[OF inv k] b
    by (intro calm_put[OF inv k op_config(5)])
       (auto simp: heartbeat_answer_def becomeFollower_def max_def split: option.splits if_splits)
qed

lemma vote_act_inv:
  assumes inv: "election_inv m g" and act: "act (Vote j now t k) g = Some g'"
  shows "election_inv m g'"
proof -
  let ?r = "handleRequestVote now t (m_nodeId (sentinels g ! k)) (sentinels g ! j)"
  have j: "j < length (sentinels g)" and t: "unat t \<le> m"
    and g': "g' = (put j (fst ?r) (threads g ! j) g)\<lparr>granted := (if snd ?r then [(j, t, k)] else []) @ granted g\<rparr>"
    using act termsD(2)[OF inv] by (auto split: if_splits prod.splits)
  show ?thesis
  proof (cases "snd ?r")
    case True
    then have "m_currentTerm (sentinels g ! j) < t" "m_currentTerm (fst ?r) = t" "m_role (fst ?r) = Follower"
      by (auto simp: handleRequestVote_def split: if_splits)
    then have "election_inv m ((put j (fst ?r) (threads g ! j) g)\<lparr>granted := [(j, t, k)] @ granted g\<rparr>)"
      by (intro vote_inv[OF inv j t] op_config(7))
    then show ?thesis using True by (simp add: g')
  next
    case False
    then have "fst ?r = sentinels g ! j" by (auto simp: handleRequestVote_def split: if_splits)
    then show ?thesis
      using False served_put[OF inv j op_config(1)] termsD(1)[OF inv j]
      by (simp add: g') (simp add: put_def)
  qed
qed

lemma idle_put:
  assumes "election_inv m g" "k < length (sentinels g)" "\<And>t v ps. th \<noteq> Asking t v ps"
  shows "election_inv (Suc m) (put k (sentinels g ! k) th g)"
  using termsD(1)[OF assms(1,2)] by (intro election_inv_mono[OF calm_put[OF assms(1,2)]] assms(3)) auto

lemma act_inv:
  assumes inv: "election_inv m g" and m: "Suc m < 2 ^ 64" and act: "act a g = Some g'"
  shows "election_inv (Suc m) g'"
proof (cases a)
  case (Timeout k tmo)
  then show ?thesis using act stand_inv[OF inv _ m] by (auto simp: Let_def split: if_splits)
next
  case (Begin k)
  then have k: "k < length (sentinels g)" and g': "g' = (put k (sentinels g ! k)
      (Asking (m_currentTerm (sentinels g ! k)) 1 (m_sentinelPeers (sentinels g ! k))) g)\<lparr>asked := (m_currentTerm (sentinels g ! k), k) # asked g\<rparr>"
    using act by (auto simp: Let_def split: if_splits)
  have d: "distinct (m_sentinelPeers (sentinels g ! k))" using inv k by (auto simp: election_inv_def inv_config_def)
  have "election_inv m (put k (sentinels g ! k) (Asking (m_currentTerm (sentinels g ! k)) 1 (m_sentinelPeers (sentinels g ! k))) g)"
  proof (rule quiet_put[OF inv k op_config(1) order.refl termsD(1)[OF inv k]])
    fix t v ps
    assume "Asking (m_currentTerm (sentinels g ! k)) 1 (m_sentinelPeers (sentinels g ! k)) = Asking t v ps"
    then show "distinct ps \<and> set ps \<subseteq> set (m_sentinelPeers (sentinels g ! k)) \<and>
        (\<exists>V. v = Suc (card V) \<and> backed g V t k \<and> V \<inter> set ps = {})"
      using d by (intro conjI exI[of _ "{}"]) (auto simp: backed_def)
  qed simp
  from election_inv_mono[OF more_asked[OF this termsD(1)[OF inv k], of k], of "Suc m"] show ?thesis by (simp add: g')
next
  case (Beat k)
  then obtain ps where k: "k < length (sentinels g)" and g': "g' = (put k (sentinels g ! k)
      (Beaten (m_currentTerm (sentinels g ! k)) ps) g)\<lparr>beats := heartbeat_request (sentinels g ! k) # beats g\<rparr>"
    using act by (auto simp: Let_def split: if_splits Thread.splits list.splits)
  have "election_inv m (put k (sentinels g ! k) (Beaten (m_currentTerm (sentinels g ! k)) ps) g)"
    using termsD(1)[OF inv k] by (intro calm_put[OF inv k]) auto
  from election_inv_mono[OF more_beats[OF this, of "heartbeat_request (sentinels g ! k)"], of "Suc m"] termsD(1)[OF inv k]
  show ?thesis by (simp add: g' heartbeat_request_def)
next
  case (Deliver j now b)
  then obtain t l ma where b: "b = (t, l, ma)" and j: "j < length (sentinels g)" "b \<in> set (beats g)"
    and g': "g' = put j (fst (handleHeartbeat now t l ma (sentinels g ! j))) (threads g ! j) g"
    using act by (auto split: if_splits prod.splits)
  have "election_inv m g'"
    unfolding g' using heartbeat_effect[where s = "sentinels g ! j"] termsD(1)[OF inv j(1)] termsD(3)[OF inv j(2)[unfolded b]]
    by (intro served_put[OF inv j(1) op_config(8)]) auto
  then show ?thesis by (rule election_inv_mono) simp
next
  case (Close k tmo)
  then have k: "k < length (sentinels g)" and g': "g' = put k (fst (close_election tmo (sentinels g ! k)))
      (if snd (close_election tmo (sentinels g ! k)) then Won else Sleeping) g"
    using act by (auto split: if_splits prod.splits)
  have "election_inv m g'"
    unfolding g' using termsD(1)[OF inv k]
    by (intro calm_put[OF inv k op_config(3)]) (auto simp: close_election_def split: if_splits)
  then show ?thesis by (rule election_inv_mono) simp
next
  case (Lead k)
  then have k: "k < length (sentinels g)" and g': "g' = put k (becomeLeader (sentinels g ! k)) Sleeping g"
    using act by (auto split: if_splits)
  have "election_inv m g'"
    unfolding g' using termsD(1)[OF inv k] by (intro calm_put[OF inv k op_config(2)]) (auto simp: becomeLeader_def)
  then show ?thesis by (rule election_inv_mono) simp
next
  case (Answer k tmo now ans)
  then show ?thesis using answer_inv[OF inv] act election_inv_mono by (metis lessI less_imp_le)
next
  case (BeatAnswer k tmo now ans)
  then show ?thesis using beat_answer_inv[OF inv] act election_inv_mono by (metis lessI less_imp_le)
next
  case (Vote j now t k)
  then show ?thesis using vote_act_inv[OF inv] act election_inv_mono by (metis lessI less_imp_le)
next
  case (Wake k now)
  then show ?thesis using act idle_put[OF inv, of k] by (auto simp: Let_def split: if_splits)
next
  case (Pass k)
  then show ?thesis using act idle_put[OF inv, of k Sleeping] by (auto split: if_splits)
next
  case (Finish k)
  then show ?thesis using act idle_put[OF inv, of k Asked] by (auto split: if_splits Thread.splits list.splits)
next
  case (StartBeats k)
  then show ?thesis using act idle_put[OF inv, of k] by (auto simp: Let_def split: if_splits)
next
  case (StopBeats k)
  then show ?thesis using act idle_put[OF inv, of k Sleeping] by (auto split: if_splits)
qed

lemma run_inv:
  "election_inv m g \<Longrightarrow> m + length as < 2 ^ 64 \<Longrightarrow> run as g = Some g' \<Longrightarrow> election_inv (m + length as) g'"
proof (induction as arbitrary: m g)
  case (Cons a as)
  then obtain g1 where a: "act a g = Some g1" "run as g1 = Some g'" by (auto split: option.splits)
  have "Suc m < 2 ^ 64" using Cons.prems(2) by simp
  from Cons.IH[OF act_inv[OF Cons.prems(1) this a(1)] _ a(2)] Cons.prems(2) show ?case by simp
qed simp

subsection \<open>One winner per term\<close>

lemma start_inv: "fresh_group ss \<Longrightarrow> election_inv 0 (start_group ss)"
  by (auto simp: fresh_group_def start_group_def election_inv_def inv_config_def inv_terms_def inv_votes_def inv_tally_def list_all_length)

lemma winner_quorum:
  assumes inv: "election_inv m g" and e: "(t, k) \<in> set (elected g)"
  shows "k < length (sentinels g) \<and> (k, t) \<in> set (stood g) \<and>
    (\<exists>V. backed g V t k \<and> insert (address (sentinels g ! k)) V \<subseteq> set (map address (sentinels g)) \<and>
       card (insert (address (sentinels g ! k)) V) > length (sentinels g) div 2)"
proof -
  obtain V where k: "k < length (sentinels g)" "(k, t) \<in> set (stood g)" and V: "backed g V t k"
    "Suc (card V) \<ge> (1 + length (m_sentinelPeers (sentinels g ! k))) div 2 + 1"
    using tallyD(2)[OF _ e] inv by (auto simp: election_inv_def)
  let ?a = "address (sentinels g ! k)" and ?all = "set (map address (sentinels g))" and ?ps = "m_sentinelPeers (sentinels g ! k)"
  have ps: "distinct ?ps" "set ?ps = ?all - {?a}" and d: "distinct (map address (sentinels g))"
    using inv k(1) by (simp_all add: election_inv_def inv_config_def)
  have a: "?a \<in> ?all" using k(1) by simp
  have "card ?all = length (sentinels g)" using distinct_card[OF d] by simp
  then have "Suc (length ?ps) = length (sentinels g)"
    using distinct_card[OF ps(1)] ps(2) a by (metis Suc_diff_1 card_Diff_singleton card_gt_0_iff finite_set length_pos_if_in_set
        list.set_map image_is_empty set_empty length_0_conv k(1) less_zeroE)
  moreover have sub: "V \<subseteq> ?all - {?a}" using V(1) ps(2) by (simp add: backed_def)
  moreover from sub have "?a \<notin> V" "finite V" using finite_subset[OF sub] by auto
  ultimately show ?thesis using k V a by (intro conjI exI[of _ V]) auto
qed

lemma two_majorities:
  assumes "A \<subseteq> X" "B \<subseteq> X" "finite X" "card X < card A + card B"
  shows "A \<inter> B \<noteq> {}"
proof
  assume "A \<inter> B = {}"
  then have "card A + card B = card (A \<union> B)" using assms by (simp add: card_Un_disjoint finite_subset)
  also have "\<dots> \<le> card X" using assms by (simp add: card_mono)
  finally show False using assms(4) by simp
qed

text \<open>
  C5: Election safety. Start a group of sentinels each of which knows exactly the others as peers, and let
  their threads, handlers and messages interleave in any way, with requests and answers lost, late or
  repeated: as long as there are fewer than \<open>2 ^ 64\<close> steps, at most one sentinel wins the election of a term.
\<close>

theorem election_safety:
  assumes "fresh_group ss" "length as < 2 ^ 64" "run as (start_group ss) = Some g"
    "(t, k) \<in> set (elected g)" "(t, k') \<in> set (elected g)"
  shows "k = k'"
proof (rule ccontr)
  assume ne: "k \<noteq> k'"
  have inv: "election_inv (length as) g" using run_inv[OF start_inv[OF assms(1)] _ assms(3)] assms(2) by simp
  note v = inv[unfolded election_inv_def, THEN conjunct2, THEN conjunct2, THEN conjunct1, unfolded inv_votes_def]
  let ?all = "set (map address (sentinels g))" and ?ad = "\<lambda>k. address (sentinels g ! k)"
  obtain V where k: "k < length (sentinels g)" "(k, t) \<in> set (stood g)" and V: "backed g V t k" "insert (?ad k) V \<subseteq> ?all"
    "card (insert (?ad k) V) > length (sentinels g) div 2" using winner_quorum[OF inv assms(4)] by blast
  obtain V' where k': "k' < length (sentinels g)" "(k', t) \<in> set (stood g)" and V': "backed g V' t k'" "insert (?ad k') V' \<subseteq> ?all"
    "card (insert (?ad k') V') > length (sentinels g) div 2" using winner_quorum[OF inv assms(5)] by blast
  have d: "distinct (map address (sentinels g))" using inv by (simp add: election_inv_def inv_config_def)
  have inj: "i = j" if "?ad i = ?ad j" "i < length (sentinels g)" "j < length (sentinels g)" for i j
    using d that by (metis length_map nth_eq_iff_index_eq nth_map)
  have "card ?all = length (sentinels g)" using distinct_card[OF d] by simp
  then have "insert (?ad k) V \<inter> insert (?ad k') V' \<noteq> {}"
    using V(3) V'(3) by (intro two_majorities[OF V(2) V'(2)]) auto
  then obtain p where "p \<in> insert (?ad k) V \<inter> insert (?ad k') V'" by blast
  then have p: "p = ?ad k \<or> p \<in> V" "p = ?ad k' \<or> p \<in> V'" by blast+
  show False
  proof -
    obtain j where j: "j < length (sentinels g)" "?ad j = p" "j = k \<and> (j, t) \<in> set (stood g) \<or> (j, t, k) \<in> set (granted g)"
      using p(1) V(1) k unfolding backed_def by blast
    obtain j' where j': "j' < length (sentinels g)" "?ad j' = p" "j' = k' \<and> (j', t) \<in> set (stood g) \<or> (j', t, k') \<in> set (granted g)"
      using p(2) V'(1) k' unfolding backed_def by blast
    have "j' = j" using inj j(1,2) j'(1,2) by simp
    then show ?thesis using j(3) j'(3) ne v by blast
  qed
qed

text \<open>Three sentinels, and the actions of an election that is held without an answer from the peers.\<close>

definition sample_sentinel :: "string \<Rightarrow> int \<Rightarrow> int list \<Rightarrow> Sentinel" where
  "sample_sentinel i p ps = setNodeId i (setBindAddr ''h'' p (setSentinelPeers (map (Pair ''h'') ps) (new_sentinel 5000 0)))"

definition three_sentinels :: "Sentinel list" where
  "three_sentinels = [sample_sentinel ''a'' 0 [1, 2], sample_sentinel ''b'' 1 [0, 2], sample_sentinel ''c'' 2 [0, 1]]"

definition stand :: "nat \<Rightarrow> uint64 \<Rightarrow> Action list" where
  "stand k now = [Wake k now, Timeout k 5000, Wake k now, Begin k]"

definition lose :: "nat \<Rightarrow> uint64 \<Rightarrow> Action list" where
  "lose k now = stand k now @ [Answer k 5000 now None, Answer k 5000 now None, Finish k, Close k 5000]"

definition first_victory :: "Action list" where
  "first_victory = stand 0 6000 @ [Vote 1 6000 1 0, Answer 0 5000 6000 (Some (1, True))]"

lemmas run_simps = run.simps act.simps put_def start_group_def three_sentinels_def sample_sentinel_def setNodeId_def setBindAddr_def
  setSentinelPeers_def new_sentinel_def becomeCandidate_def becomeFollower_def becomeLeader_def close_election_def count_vote_def
  claim_victory_def isQuorum_def handleRequestVote_def handleHeartbeat_def heartbeat_request_def vote_answer_def address_def
  no_master_def Let_def lessThan_Suc numeral_3_eq_3

lemma three_sentinels_fresh: "fresh_group three_sentinels"
  by (auto simp: fresh_group_def three_sentinels_def sample_sentinel_def setNodeId_def setBindAddr_def setSentinelPeers_def new_sentinel_def
      address_def)

theorem election_safety_witness:
  "\<exists>g. run first_victory (start_group three_sentinels) = Some g \<and> (1, 0) \<in> set (elected g) \<and> (1, 1) \<notin> set (elected g)"
proof -
  have r: "(case run first_victory (start_group three_sentinels) of None \<Rightarrow> False | Some g \<Rightarrow> (1, 0) \<in> set (elected g))"
    by (simp add: first_victory_def stand_def run_simps)
  then obtain g where g: "run first_victory (start_group three_sentinels) = Some g" "(1, 0) \<in> set (elected g)"
    by (auto split: option.splits)
  have "length first_victory < 2 ^ 64" by (simp add: first_victory_def stand_def)
  then show ?thesis using election_safety[OF three_sentinels_fresh _ g(1) _ g(2), of 1] g by auto
qed

subsection \<open>A leader that was not elected\<close>

lemma run_then: "run xs g = Some h \<Longrightarrow> run ys h = r \<Longrightarrow> run (xs @ ys) g = r"
  by (induction xs arbitrary: g) (auto split: option.splits)

definition state_of :: "string \<Rightarrow> uint64 \<Rightarrow> string \<Rightarrow> SentinelRole \<Rightarrow> string \<Rightarrow> uint64 \<Rightarrow> Sentinel" where
  "state_of i t v r l hb =
     (if i = ''a'' then sample_sentinel i 0 [1, 2] else if i = ''b'' then sample_sentinel i 1 [0, 2] else sample_sentinel i 2 [0, 1])
       \<lparr>m_currentTerm := t, m_votedFor := v, m_role := r, m_leaderId := l, m_lastHeartbeatMs := hb\<rparr>"

text \<open>
  Sentinel \<open>a\<close> wins the first term and is about to call \<open>becomeLeader\<close>; \<open>c\<close> loses three elections; \<open>b\<close> stands, hears of
  the third term from \<open>c\<close> and is a follower without a vote; \<open>c\<close> wins the fourth term and its heartbeat
  reaches \<open>a\<close>; then \<open>a\<close> becomes leader.
\<close>

lemma clash_step1:
  "run (first_victory @ [Close 0 5000])
     (start_group three_sentinels) =
   Some \<lparr>sentinels = [(state_of ''a'' 1 ''a'' Leader [] 0), (state_of ''b'' 1 ''a'' Follower [] 6000), (state_of ''c'' 0 [] Follower [] 0)], threads = [Won, Sleeping, Sleeping], asked = [(1, 0)],
       beats = [], stood = [(0, 1)], granted = [(1, 1, 0)], elected = [(1, 0)]\<rparr>"
  by (simp add: first_victory_def stand_def lose_def state_of_def run_simps)

lemma clash_step2:
  "run (lose 2 7000)
     (\<lparr>sentinels = [(state_of ''a'' 1 ''a'' Leader [] 0), (state_of ''b'' 1 ''a'' Follower [] 6000), (state_of ''c'' 0 [] Follower [] 0)], threads = [Won, Sleeping, Sleeping], asked = [(1, 0)],
       beats = [], stood = [(0, 1)], granted = [(1, 1, 0)], elected = [(1, 0)]\<rparr>) =
   Some \<lparr>sentinels = [(state_of ''a'' 1 ''a'' Leader [] 0), (state_of ''b'' 1 ''a'' Follower [] 6000), (state_of ''c'' 1 ''c'' Follower [] 0)], threads = [Won, Sleeping, Sleeping], asked = [(1, 2), (1, 0)],
       beats = [], stood = [(2, 1), (0, 1)], granted = [(1, 1, 0)], elected = [(1, 0)]\<rparr>"
  by (simp add: first_victory_def stand_def lose_def state_of_def run_simps)

lemma clash_step3:
  "run (lose 2 8000)
     (\<lparr>sentinels = [(state_of ''a'' 1 ''a'' Leader [] 0), (state_of ''b'' 1 ''a'' Follower [] 6000), (state_of ''c'' 1 ''c'' Follower [] 0)], threads = [Won, Sleeping, Sleeping], asked = [(1, 2), (1, 0)],
       beats = [], stood = [(2, 1), (0, 1)], granted = [(1, 1, 0)], elected = [(1, 0)]\<rparr>) =
   Some \<lparr>sentinels = [(state_of ''a'' 1 ''a'' Leader [] 0), (state_of ''b'' 1 ''a'' Follower [] 6000), (state_of ''c'' 2 ''c'' Follower [] 0)], threads = [Won, Sleeping, Sleeping], asked = [(2, 2), (1, 2), (1, 0)],
       beats = [], stood = [(2, 2), (2, 1), (0, 1)], granted = [(1, 1, 0)], elected = [(1, 0)]\<rparr>"
  by (simp add: first_victory_def stand_def lose_def state_of_def run_simps)

lemma clash_step4:
  "run (lose 2 9000)
     (\<lparr>sentinels = [(state_of ''a'' 1 ''a'' Leader [] 0), (state_of ''b'' 1 ''a'' Follower [] 6000), (state_of ''c'' 2 ''c'' Follower [] 0)], threads = [Won, Sleeping, Sleeping], asked = [(2, 2), (1, 2), (1, 0)],
       beats = [], stood = [(2, 2), (2, 1), (0, 1)], granted = [(1, 1, 0)], elected = [(1, 0)]\<rparr>) =
   Some \<lparr>sentinels = [(state_of ''a'' 1 ''a'' Leader [] 0), (state_of ''b'' 1 ''a'' Follower [] 6000), (state_of ''c'' 3 ''c'' Follower [] 0)], threads = [Won, Sleeping, Sleeping], asked = [(3, 2), (2, 2), (1, 2), (1, 0)],
       beats = [], stood = [(2, 3), (2, 2), (2, 1), (0, 1)], granted = [(1, 1, 0)], elected = [(1, 0)]\<rparr>"
  by (simp add: first_victory_def stand_def lose_def state_of_def run_simps)

lemma clash_step5:
  "run (stand 1 20000 @ [Answer 1 5000 20000 None, Answer 1 5000 20000 (Some (3, False)), Close 1 5000])
     (\<lparr>sentinels = [(state_of ''a'' 1 ''a'' Leader [] 0), (state_of ''b'' 1 ''a'' Follower [] 6000), (state_of ''c'' 3 ''c'' Follower [] 0)], threads = [Won, Sleeping, Sleeping], asked = [(3, 2), (2, 2), (1, 2), (1, 0)],
       beats = [], stood = [(2, 3), (2, 2), (2, 1), (0, 1)], granted = [(1, 1, 0)], elected = [(1, 0)]\<rparr>) =
   Some \<lparr>sentinels = [(state_of ''a'' 1 ''a'' Leader [] 0), (state_of ''b'' 3 [] Follower [] 20000), (state_of ''c'' 3 ''c'' Follower [] 0)], threads = [Won, Sleeping, Sleeping], asked = [(2, 1), (3, 2), (2, 2), (1, 2), (1, 0)],
       beats = [], stood = [(1, 2), (2, 3), (2, 2), (2, 1), (0, 1)], granted = [(1, 1, 0)], elected = [(1, 0)]\<rparr>"
  by (simp add: first_victory_def stand_def lose_def state_of_def run_simps)

lemma clash_step6:
  "run (stand 2 30000 @ [Vote 1 30000 4 2, Answer 2 5000 30000 None, Answer 2 5000 30000 (Some (4, True)), Close 2 5000, Lead 2])
     (\<lparr>sentinels = [(state_of ''a'' 1 ''a'' Leader [] 0), (state_of ''b'' 3 [] Follower [] 20000), (state_of ''c'' 3 ''c'' Follower [] 0)], threads = [Won, Sleeping, Sleeping], asked = [(2, 1), (3, 2), (2, 2), (1, 2), (1, 0)],
       beats = [], stood = [(1, 2), (2, 3), (2, 2), (2, 1), (0, 1)], granted = [(1, 1, 0)], elected = [(1, 0)]\<rparr>) =
   Some \<lparr>sentinels = [(state_of ''a'' 1 ''a'' Leader [] 0), (state_of ''b'' 4 ''c'' Follower [] 30000), (state_of ''c'' 4 ''c'' Leader ''c'' 0)], threads = [Won, Sleeping, Sleeping], asked = [(4, 2), (2, 1), (3, 2), (2, 2), (1, 2), (1, 0)],
       beats = [], stood = [(2, 4), (1, 2), (2, 3), (2, 2), (2, 1), (0, 1)], granted = [(1, 4, 2), (1, 1, 0)], elected = [(4, 2), (1, 0)]\<rparr>"
  by (simp add: first_victory_def stand_def lose_def state_of_def run_simps)

lemma clash_step7:
  "run ([Wake 2 30000, StartBeats 2, Beat 2, Deliver 0 30000 (4, ''c'', None), Lead 0])
     (\<lparr>sentinels = [(state_of ''a'' 1 ''a'' Leader [] 0), (state_of ''b'' 4 ''c'' Follower [] 30000), (state_of ''c'' 4 ''c'' Leader ''c'' 0)], threads = [Won, Sleeping, Sleeping], asked = [(4, 2), (2, 1), (3, 2), (2, 2), (1, 2), (1, 0)],
       beats = [], stood = [(2, 4), (1, 2), (2, 3), (2, 2), (2, 1), (0, 1)], granted = [(1, 4, 2), (1, 1, 0)], elected = [(4, 2), (1, 0)]\<rparr>) =
   Some \<lparr>sentinels = [(state_of ''a'' 4 [] Leader ''a'' 30000), (state_of ''b'' 4 ''c'' Follower [] 30000), (state_of ''c'' 4 ''c'' Leader ''c'' 0)], threads = [Sleeping, Sleeping, Beaten 4 [(''h'', 1)]], asked = [(4, 2), (2, 1), (3, 2), (2, 2), (1, 2), (1, 0)],
       beats = [(4, ''c'', None)], stood = [(2, 4), (1, 2), (2, 3), (2, 2), (2, 1), (0, 1)], granted = [(1, 4, 2), (1, 1, 0)], elected = [(4, 2), (1, 0)]\<rparr>"
  by (simp add: first_victory_def stand_def lose_def state_of_def run_simps)

text \<open>
  C31: The role of leader is not safe although elections are: \<open>runLoop\<close> sees under the lock that it has won, releases the
  lock, and then \<open>becomeLeader\<close> makes it a leader again without looking at the term. If the heartbeat of the winner of
  a later term is served in between, two sentinels are leaders of that term, one of which was not elected in it.
\<close>

theorem two_leaders_in_a_term:
  "\<exists>as g i j. run as (start_group three_sentinels) = Some g \<and> i < 3 \<and> j < 3 \<and> i \<noteq> j \<and>
     m_role (sentinels g ! i) = Leader \<and> m_role (sentinels g ! j) = Leader \<and>
     m_currentTerm (sentinels g ! i) = m_currentTerm (sentinels g ! j) \<and>
     (m_currentTerm (sentinels g ! i), i) \<notin> set (elected g) \<and> (m_currentTerm (sentinels g ! j), j) \<in> set (elected g)"
proof -
  let ?as = "((first_victory @ [Close 0 5000]) @
    (lose 2 7000) @
    (lose 2 8000) @
    (lose 2 9000) @
    (stand 1 20000 @ [Answer 1 5000 20000 None, Answer 1 5000 20000 (Some (3, False)), Close 1 5000]) @
    (stand 2 30000 @ [Vote 1 30000 4 2, Answer 2 5000 30000 None, Answer 2 5000 30000 (Some (4, True)), Close 2 5000, Lead 2]) @
    ([Wake 2 30000, StartBeats 2, Beat 2, Deliver 0 30000 (4, ''c'', None), Lead 0]))"
  have "run ?as (start_group three_sentinels) = Some \<lparr>sentinels = [(state_of ''a'' 4 [] Leader ''a'' 30000), (state_of ''b'' 4 ''c'' Follower [] 30000), (state_of ''c'' 4 ''c'' Leader ''c'' 0)], threads = [Sleeping, Sleeping, Beaten 4 [(''h'', 1)]], asked = [(4, 2), (2, 1), (3, 2), (2, 2), (1, 2), (1, 0)],
       beats = [(4, ''c'', None)], stood = [(2, 4), (1, 2), (2, 3), (2, 2), (2, 1), (0, 1)], granted = [(1, 4, 2), (1, 1, 0)], elected = [(4, 2), (1, 0)]\<rparr>"
    by (intro run_then[OF clash_step1] run_then[OF clash_step2] run_then[OF clash_step3] run_then[OF clash_step4]
        run_then[OF clash_step5] run_then[OF clash_step6] clash_step7)
  then show ?thesis
    by (intro exI[of _ ?as] exI exI[of _ "0 :: nat"] exI[of _ "2 :: nat"] conjI) (assumption, simp_all add: state_of_def)
qed

end
