(* ===== verification/Failover.thy ===== *)
theory Failover
  imports Sentinel
begin

text \<open>
  What the leader of the sentinels does with the key-value nodes it monitors: when it fails over, which
  replica it chooses and what it sends.
\<close>

subsection \<open>The choice of a replica\<close>

lemma better_replica_step:
  "better_replica ok (k, n) (a, off) =
     (if ns_alive n \<and> ok (ns_role n) \<and> ns_replOffset n > off then (k, ns_replOffset n) else (a, off))"
  by (simp add: better_replica_def)

lemma better_replica_fold:
  assumes "fold (better_replica ok) es (a, off) = (k, m)"
  shows "(k = a \<and> m = off \<or> (\<exists>n. (k, n) \<in> set es \<and> ns_alive n \<and> ok (ns_role n) \<and> m = ns_replOffset n \<and> off < m)) \<and> off \<le> m \<and>
    (\<forall>(k', n') \<in> set es. ns_alive n' \<and> ok (ns_role n') \<longrightarrow> ns_replOffset n' \<le> m)"
  using assms
proof (induction es arbitrary: a off)
  case (Cons e es)
  obtain k1 n1 where e: "e = (k1, n1)" by (cases e)
  show ?case
  proof (cases "ns_alive n1 \<and> ok (ns_role n1) \<and> ns_replOffset n1 > off")
    case True
    then have "fold (better_replica ok) es (k1, ns_replOffset n1) = (k, m)" using Cons.prems by (simp add: e better_replica_step)
    from Cons.IH[OF this] True show ?thesis unfolding e by auto
  next
    case False
    then have "fold (better_replica ok) es (a, off) = (k, m)" using Cons.prems by (auto simp: e better_replica_step split: if_splits)
    from Cons.IH[OF this] False show ?thesis unfolding e by auto
  qed
qed simp

text \<open>
  The chosen node is alive, no master, and no live replica has more of the replication stream; without a choice there is
  no live replica with an offset at all.
\<close>

lemma selectBestReplica_best:
  assumes "[] \<notin> fst ` set (m_kvNodes s)"
  shows "selectBestReplica s \<noteq> [] \<Longrightarrow>
      \<exists>n. (selectBestReplica s, n) \<in> set (m_kvNodes s) \<and> ns_alive n \<and> ns_role n \<noteq> MASTER \<and> 0 \<le> ns_replOffset n \<and>
        (\<forall>(k', n') \<in> set (m_kvNodes s). ns_alive n' \<and> ns_role n' = REPLICA \<longrightarrow> ns_replOffset n' \<le> ns_replOffset n)"
    "selectBestReplica s = [] \<Longrightarrow>
      \<forall>(k', n') \<in> set (m_kvNodes s). ns_alive n' \<and> ns_role n' \<noteq> MASTER \<longrightarrow> ns_replOffset n' < 0"
proof -
  obtain a m where 1: "fold (better_replica (\<lambda>r. r = REPLICA)) (m_kvNodes s) ([], -1) = (a, m)" by fastforce
  obtain b l where 2: "fold (better_replica (\<lambda>r. r \<noteq> MASTER)) (m_kvNodes s) (a, m) = (b, l)" by fastforce
  note f1 = better_replica_fold[OF 1] and f2 = better_replica_fold[OF 2]
  have best: "selectBestReplica s = (if a = [] then b else a)" using 2 by (auto simp: selectBestReplica_def 1)
  have key: "k \<noteq> []" if "(k, n) \<in> set (m_kvNodes s)" for k n using assms that by force
  show "\<exists>n. (selectBestReplica s, n) \<in> set (m_kvNodes s) \<and> ns_alive n \<and> ns_role n \<noteq> MASTER \<and> 0 \<le> ns_replOffset n \<and>
      (\<forall>(k', n') \<in> set (m_kvNodes s). ns_alive n' \<and> ns_role n' = REPLICA \<longrightarrow> ns_replOffset n' \<le> ns_replOffset n)"
    if ne: "selectBestReplica s \<noteq> []"
  proof (cases "a = []")
    case True
    then have "m = -1" using f1 key by blast
    moreover obtain n where "(b, n) \<in> set (m_kvNodes s)" "ns_alive n" "ns_role n \<noteq> MASTER" "l = ns_replOffset n" "m < l"
      using f2 ne best True by auto
    ultimately show ?thesis using f2 best True by (intro exI[of _ n]) auto
  next
    case False
    then obtain n where "(a, n) \<in> set (m_kvNodes s)" "ns_alive n" "ns_role n = REPLICA" "m = ns_replOffset n" "-1 < m"
      using f1 by auto
    then show ?thesis using f1 best False by (intro exI[of _ n]) auto
  qed
  show "\<forall>(k', n') \<in> set (m_kvNodes s). ns_alive n' \<and> ns_role n' \<noteq> MASTER \<longrightarrow> ns_replOffset n' < 0" if "selectBestReplica s = []"
  proof -
    have "a = []" "b = []" using that best by (auto split: if_splits)
    then have "m = -1" "l = -1" using f1 f2 key by blast+
    then show ?thesis using f2 by fastforce
  qed
qed

subsection \<open>When and what\<close>

lemma check_node_frame:
  "m_monitoredNodes (fst (check_node n r s)) = m_monitoredNodes s"
  "m_currentTerm (fst (check_node n r s)) = m_currentTerm s"
  "k \<noteq> node_key n \<Longrightarrow> map_of (m_kvNodes (fst (check_node n r s))) k = map_of (m_kvNodes s) k"
  "fst ` set (m_kvNodes (fst (check_node n r s))) = insert (node_key n) (fst ` set (m_kvNodes s))"
proof -
  have "\<exists>e. m_kvNodes (fst (check_node n r s)) = AList.update (node_key n) e (m_kvNodes s)"
    by (cases "map_of (m_kvNodes s) (node_key n)"; cases r) (auto simp: check_node_def Let_def)
  then obtain e where e: "m_kvNodes (fst (check_node n r s)) = AList.update (node_key n) e (m_kvNodes s)" ..
  show "k \<noteq> node_key n \<Longrightarrow> map_of (m_kvNodes (fst (check_node n r s))) k = map_of (m_kvNodes s) k"
    by (simp add: e update_conv')
  show "fst ` set (m_kvNodes (fst (check_node n r s))) = insert (node_key n) (fst ` set (m_kvNodes s))"
    unfolding e using dom_update[of "node_key n" e "m_kvNodes s"] by simp
qed (simp_all add: check_node_def Let_def split: option.split)

lemma check_node_down:
  "snd (check_node n r s) \<Longrightarrow> r = None \<and> (\<exists>st. map_of (m_kvNodes s) (node_key n) = Some st \<and> ns_role st = MASTER \<and>
     ns_failures st + 1 \<ge> kMaxHealthCheckFailures)"
  by (auto simp: check_node_def Let_def split: option.splits)

text \<open>The state after the checks of some nodes.\<close>

definition checked :: "(endpoint \<Rightarrow> HealthCheckResponse option) \<Rightarrow> endpoint list \<Rightarrow> Sentinel \<Rightarrow> Sentinel" where
  "checked h ns s = foldl (\<lambda>s n. fst (check_node n (h n) s)) s ns"

lemma checked_frame:
  "m_monitoredNodes (checked h ns s) = m_monitoredNodes s" "m_currentTerm (checked h ns s) = m_currentTerm s"
  "k \<notin> node_key ` set ns \<Longrightarrow> map_of (m_kvNodes (checked h ns s)) k = map_of (m_kvNodes s) k"
  "fst ` set (m_kvNodes (checked h ns s)) = node_key ` set ns \<union> fst ` set (m_kvNodes s)"
  by (induction ns rule: rev_induct) (auto simp: checked_def check_node_frame)

lemma handleFailover_sends:
  assumes "handleFailover ok f s = (s', cmds)" "cmds \<noteq> []"
  shows "\<exists>host p. selectBestReplica s \<noteq> [] \<and> parse_replica (selectBestReplica s) = Some (host, p) \<and>
    cmds = ((host, p), ([], 0), m_currentTerm s) #
      (if ok (host, p)
       then map (\<lambda>n. (n, (host, p), m_currentTerm s))
         (filter (\<lambda>n. node_key n \<noteq> selectBestReplica s \<and> node_key n \<noteq> f) (m_monitoredNodes s))
       else [])"
proof -
  obtain host p where b: "selectBestReplica s \<noteq> []" "parse_replica (selectBestReplica s) = Some (host, p)"
    using assms by (auto simp: handleFailover_def Let_def split: if_splits option.splits)
  then show ?thesis using assms(1) by (intro exI[of _ host] exI[of _ p]) (auto simp: handleFailover_def Let_def split: if_splits)
qed

subsection \<open>The answers of the nodes\<close>

text \<open>
  The health checks that one call of \<open>checkKVNodes\<close> makes, with their answers: the loop ends after the check that finds a
  failed master.
\<close>

fun asked_nodes :: "(endpoint \<Rightarrow> HealthCheckResponse option) \<Rightarrow> endpoint list \<Rightarrow> Sentinel \<Rightarrow> (endpoint \<times> HealthCheckResponse option) list" where
  "asked_nodes h [] s = []"
| "asked_nodes h (n # ns) s =
     (n, h n) # (case check_node n (h n) s of (s', down) \<Rightarrow> if down then [] else asked_nodes h ns s')"

definition asked :: "uint64 \<Rightarrow> (endpoint \<Rightarrow> HealthCheckResponse option) \<Rightarrow> Sentinel \<Rightarrow> (endpoint \<times> HealthCheckResponse option) list" where
  "asked now h s =
     (if now - m_lastCheckMs s < kHealthCheckIntervalMs then [] else asked_nodes h (m_monitoredNodes s) (s\<lparr>m_lastCheckMs := now\<rparr>))"

text \<open>
  The history of a leader, as the checks it has made in their order: its health checks as long as they send no
  commands, and between them anything that leaves the monitored nodes and what is recorded of them alone, as
  heartbeats and the handlers of requests do.
\<close>

inductive quiet_run :: "Sentinel \<Rightarrow> (endpoint \<times> HealthCheckResponse option) list \<Rightarrow> Sentinel \<Rightarrow> bool" for s0 where
  quiet_start: "quiet_run s0 [] s0"
| quiet_check: "quiet_run s0 L s \<Longrightarrow> checkKVNodes now h ok s = (s', []) \<Longrightarrow> quiet_run s0 (L @ asked now h s) s'"
| quiet_other: "quiet_run s0 L s \<Longrightarrow> m_kvNodes s' = m_kvNodes s \<Longrightarrow> m_monitoredNodes s' = m_monitoredNodes s \<Longrightarrow> quiet_run s0 L s'"

text \<open>The answers of one node, the last one that is there, and how many checks it has missed since.\<close>

definition answers :: "string \<Rightarrow> (endpoint \<times> HealthCheckResponse option) list \<Rightarrow> HealthCheckResponse option list" where
  "answers k L = map snd (filter (\<lambda>(n, a). node_key n = k) L)"

definition last_answer :: "HealthCheckResponse option list \<Rightarrow> HealthCheckResponse option" where
  "last_answer A = (case dropWhile (\<lambda>a. a = None) (rev A) of [] \<Rightarrow> None | a # _ \<Rightarrow> a)"

definition missed :: "HealthCheckResponse option list \<Rightarrow> nat" where
  "missed A = length (takeWhile (\<lambda>a. a = None) (rev A))"

lemma answers_simps [simp]:
  "answers k [] = []" "answers k (L @ L') = answers k L @ answers k L'"
  "answers k [(n, a)] = (if node_key n = k then [a] else [])"
  by (simp_all add: answers_def)

lemma last_answer_simps [simp]:
  "last_answer [] = None" "last_answer (A @ [Some r]) = Some r" "last_answer (A @ [None]) = last_answer A"
  "missed [] = 0" "missed (A @ [Some r]) = 0" "missed (A @ [None]) = Suc (missed A)"
  "last_answer [a] = a" "missed [a] = (if a = None then 1 else 0)"
  by (simp_all add: last_answer_def missed_def)

lemma last_answer_None: "last_answer A = None \<longleftrightarrow> (\<forall>a \<in> set A. a = None)"
proof (induction A rule: rev_induct)
  case (snoc a A)
  then show ?case by (cases a) simp_all
qed simp

text \<open>What the table says of a node is what its answers say.\<close>

definition tracks :: "(endpoint \<times> HealthCheckResponse option) list \<Rightarrow> Sentinel \<Rightarrow> bool" where
  "tracks L s \<longleftrightarrow> (\<forall>k. case map_of (m_kvNodes s) k of
     None \<Rightarrow> answers k L = []
   | Some st \<Rightarrow>
       (ns_alive st \<longleftrightarrow> last_answer (answers k L) \<noteq> None \<and> missed (answers k L) = 0) \<and>
       (\<forall>r. last_answer (answers k L) = Some r \<longrightarrow>
          ns_role st = hc_role r \<and> ns_replOffset st = hc_replication_offset r \<and> ns_failures st = int (missed (answers k L))))"

lemma tracksD:
  assumes "tracks L s" "map_of (m_kvNodes s) k = Some st"
  shows "ns_alive st \<longleftrightarrow> last_answer (answers k L) \<noteq> None \<and> missed (answers k L) = 0"
    "last_answer (answers k L) = Some r \<Longrightarrow>
       ns_role st = hc_role r \<and> ns_replOffset st = hc_replication_offset r \<and> ns_failures st = int (missed (answers k L))"
  using assms by (auto simp: tracks_def split: option.splits)

lemma tracks_check_node:
  assumes "tracks L s"
  shows "tracks (L @ [(n, a)]) (fst (check_node n a s))"
proof -
  have "case map_of (m_kvNodes (fst (check_node n a s))) k of None \<Rightarrow> answers k (L @ [(n, a)]) = []
    | Some st \<Rightarrow>
       (ns_alive st \<longleftrightarrow> last_answer (answers k (L @ [(n, a)])) \<noteq> None \<and> missed (answers k (L @ [(n, a)])) = 0) \<and>
       (\<forall>r. last_answer (answers k (L @ [(n, a)])) = Some r \<longrightarrow>
          ns_role st = hc_role r \<and> ns_replOffset st = hc_replication_offset r \<and>
          ns_failures st = int (missed (answers k (L @ [(n, a)]))))" for k
  proof (cases "k = node_key n")
    case False
    then have "answers k (L @ [(n, a)]) = answers k L" by auto
    then show ?thesis using assms check_node_frame(3)[OF False, of a s] by (simp only: tracks_def)
  next
    case True
    have "case map_of (m_kvNodes s) k of None \<Rightarrow> answers k L = []
      | Some st \<Rightarrow> (ns_alive st \<longleftrightarrow> last_answer (answers k L) \<noteq> None \<and> missed (answers k L) = 0) \<and>
          (\<forall>r. last_answer (answers k L) = Some r \<longrightarrow>
             ns_role st = hc_role r \<and> ns_replOffset st = hc_replication_offset r \<and> ns_failures st = int (missed (answers k L)))"
      using assms by (simp add: tracks_def)
    then show ?thesis using True
      by (cases "map_of (m_kvNodes s) k"; cases a) (auto simp: check_node_def Let_def update_conv' fresh_node_def)
  qed
  then show ?thesis by (simp add: tracks_def)
qed

lemma tracks_checked: "tracks L s \<Longrightarrow> tracks (L @ map (\<lambda>n. (n, h n)) ns) (checked h ns s)"
proof (induction ns rule: rev_induct)
  case (snoc n ns)
  then show ?case using tracks_check_node[OF snoc.IH[OF snoc.prems], of n "h n"] by (simp add: checked_def)
qed (simp add: checked_def)

lemma tracks_cong: "m_kvNodes s' = m_kvNodes s \<Longrightarrow> tracks L s' = tracks L s"
  by (simp add: tracks_def)

text \<open>A call that sends nothing leaves the state after its checks.\<close>

lemma handleFailover_silent: "handleFailover ok f s = (s', []) \<Longrightarrow> s' = s"
  by (auto simp: handleFailover_def Let_def split: if_splits option.splits)

lemma check_nodes_silent:
  "check_nodes h ok ns s = (s', []) \<Longrightarrow> \<exists>pre. asked_nodes h ns s = map (\<lambda>n. (n, h n)) pre \<and> s' = checked h pre s"
proof (induction ns arbitrary: s)
  case Nil
  then show ?case by (intro exI[of _ "[]"]) (simp add: checked_def)
next
  case (Cons n ns)
  obtain s1 down where c: "check_node n (h n) s = (s1, down)" by fastforce
  show ?case
  proof (cases down)
    case True
    then have "s' = s1" using Cons.prems c handleFailover_silent by auto
    then show ?thesis using True c by (intro exI[of _ "[n]"]) (simp add: checked_def)
  next
    case False
    then obtain pre where "asked_nodes h ns s1 = map (\<lambda>n. (n, h n)) pre" "s' = checked h pre s1"
      using Cons c by auto
    then show ?thesis using False c by (intro exI[of _ "n # pre"]) (simp add: checked_def)
  qed
qed

lemma check_nodes_failover:
  assumes "check_nodes h ok ns s = (s', cmds)" "cmds \<noteq> []"
  shows "\<exists>pre n post. ns = pre @ n # post \<and> h n = None \<and> asked_nodes h ns s = map (\<lambda>n. (n, h n)) (pre @ [n]) \<and>
    (\<exists>st. map_of (m_kvNodes (checked h pre s)) (node_key n) = Some st \<and> ns_role st = MASTER \<and>
       ns_failures st + 1 \<ge> kMaxHealthCheckFailures) \<and>
    handleFailover ok (node_key n) (checked h (pre @ [n]) s) = (s', cmds)"
  using assms
proof (induction ns arbitrary: s)
  case (Cons n ns)
  obtain s1 down where c: "check_node n (h n) s = (s1, down)" by fastforce
  show ?case
  proof (cases down)
    case True
    then show ?thesis
      using check_node_down[of n "h n" s] Cons.prems(1) c by (intro exI[of _ "[]"] exI[of _ n] exI[of _ ns]) (simp add: checked_def)
  next
    case False
    then have "check_nodes h ok ns s1 = (s', cmds)" using Cons.prems(1) c by simp
    from Cons.IH[OF this Cons.prems(2)] obtain pre n' post where n': "ns = pre @ n' # post" "h n' = None"
      "asked_nodes h ns s1 = map (\<lambda>n. (n, h n)) (pre @ [n'])"
      "\<exists>st. map_of (m_kvNodes (checked h pre s1)) (node_key n') = Some st \<and> ns_role st = MASTER \<and>
         ns_failures st + 1 \<ge> kMaxHealthCheckFailures"
      "handleFailover ok (node_key n') (checked h (pre @ [n']) s1) = (s', cmds)" by blast
    moreover have "checked h (n # xs) s = checked h xs s1" for xs by (simp add: checked_def c)
    ultimately show ?thesis using False c by (intro exI[of _ "n # pre"] exI[of _ n'] exI[of _ post]) simp
  qed
qed simp

definition table_ok :: "Sentinel \<Rightarrow> bool" where
  "table_ok s \<longleftrightarrow> distinct (map fst (m_kvNodes s)) \<and> [] \<notin> fst ` set (m_kvNodes s)"

lemma table_ok_check_node: "table_ok s \<Longrightarrow> table_ok (fst (check_node n a s))"
  unfolding table_ok_def check_node_frame(4)
  by (auto simp: check_node_def Let_def distinct_update node_key_def split: option.split)

lemma table_ok_checked: "table_ok s \<Longrightarrow> table_ok (checked h ns s)"
  by (induction ns rule: rev_induct) (simp_all add: checked_def table_ok_check_node)

lemma table_ok_cong: "m_kvNodes s' = m_kvNodes s \<Longrightarrow> table_ok s' = table_ok s"
  by (simp add: table_ok_def)

lemma becomeLeader_tracks:
  "tracks [] (becomeLeader s)" "table_ok s \<Longrightarrow> table_ok (becomeLeader s)"
proof -
  have "map_of (m_kvNodes (becomeLeader s)) k = map_option (\<lambda>n. n\<lparr>ns_alive := False, ns_failures := 0\<rparr>) (map_of (m_kvNodes s) k)" for k
    by (simp add: becomeLeader_def map_of_map)
  then show "tracks [] (becomeLeader s)" by (simp add: tracks_def split: option.split)
  show "table_ok s \<Longrightarrow> table_ok (becomeLeader s)"
    by (force simp: table_ok_def becomeLeader_def comp_def case_prod_unfold)
qed

lemma quiet_run_tracks:
  "quiet_run s0 L s \<Longrightarrow> tracks [] s0 \<Longrightarrow> table_ok s0 \<Longrightarrow> tracks L s \<and> table_ok s"
proof (induction rule: quiet_run.induct)
  case (quiet_check L s now h ok s')
  let ?s = "s\<lparr>m_lastCheckMs := now\<rparr>"
  show ?case
  proof (cases "now - m_lastCheckMs s < kHealthCheckIntervalMs")
    case True
    then show ?thesis using quiet_check by (simp add: checkKVNodes_def asked_def)
  next
    case False
    then have "check_nodes h ok (m_monitoredNodes s) ?s = (s', [])" using quiet_check.hyps(2) by (simp add: checkKVNodes_def)
    from check_nodes_silent[OF this] obtain pre where
      p: "asked now h s = map (\<lambda>n. (n, h n)) pre" "s' = checked h pre ?s" using False by (auto simp: asked_def)
    have "tracks L ?s" "table_ok ?s" using quiet_check tracks_cong[of ?s s L] table_ok_cong[of ?s s] by simp_all
    then show ?thesis unfolding p by (simp add: tracks_checked table_ok_checked)
  qed
next
  case (quiet_other L s s')
  then show ?case using tracks_cong[of s' s L] table_ok_cong[of s' s] by simp
qed simp

text \<open>
  C13: Failover. Take the checks of a sentinel since it has become the leader, up to the first that sends commands, and
  let every monitored node have answered at least once by then.
  That check sends its commands because a monitored node, whose last answer was that it is a master, has
  missed at least three checks in a row since then. It first promotes one node: a node that has answered its last
  check, not as a master, such that no node that has answered its last check as a replica reports more of the
  replication stream; if that node accepts, every other monitored node but the failed one is told to follow
  it, all in the current term. (A node that has never answered counts as a master, see \<open>silent_replica_deposes_master\<close>.)
\<close>

theorem failover_correct:
  assumes "table_ok s0" "quiet_run (becomeLeader s0) L s" "distinct (map node_key (m_monitoredNodes s))"
    "\<forall>n \<in> set (m_monitoredNodes s). last_answer (answers (node_key n) L) \<noteq> None"
    "checkKVNodes now h ok s = (s', cmds)" "cmds \<noteq> []"
  defines "A \<equiv> \<lambda>k. answers k (L @ asked now h s)"
  shows "\<exists>failed r best b host p.
    failed \<in> set (m_monitoredNodes s) \<and> last_answer (A (node_key failed)) = Some r \<and> hc_role r = MASTER \<and> missed (A (node_key failed)) \<ge> 3 \<and>
    last_answer (A best) = Some b \<and> missed (A best) = 0 \<and> hc_role b \<noteq> MASTER \<and>
    (\<forall>n \<in> set (m_monitoredNodes s). \<forall>r. last_answer (A (node_key n)) = Some r \<and> missed (A (node_key n)) = 0 \<and> hc_role r = REPLICA \<longrightarrow>
       hc_replication_offset r \<le> hc_replication_offset b) \<and>
    parse_replica best = Some (host, p) \<and>
    cmds = ((host, p), ([], 0), m_currentTerm s) #
      (if ok (host, p)
       then map (\<lambda>n. (n, (host, p), m_currentTerm s))
         (filter (\<lambda>n. node_key n \<noteq> best \<and> node_key n \<noteq> node_key failed) (m_monitoredNodes s))
       else [])"
proof -
  let ?s = "s\<lparr>m_lastCheckMs := now\<rparr>"
  have q: "tracks L s" "table_ok s"
    using quiet_run_tracks[OF assms(2) becomeLeader_tracks(1) becomeLeader_tracks(2)[OF assms(1)]] by blast+
  then have q: "tracks L ?s" "table_ok ?s" using tracks_cong[of ?s s L] table_ok_cong[of ?s s] by simp_all
  have "check_nodes h ok (m_monitoredNodes s) ?s = (s', cmds)" and i: "\<not> now - m_lastCheckMs s < kHealthCheckIntervalMs"
    using assms(5,6) by (auto simp: checkKVNodes_def split: if_splits)
  then obtain pre f post st where f: "m_monitoredNodes s = pre @ f # post" "h f = None"
    "asked_nodes h (m_monitoredNodes s) ?s = map (\<lambda>n. (n, h n)) (pre @ [f])"
    "map_of (m_kvNodes (checked h pre ?s)) (node_key f) = Some st" "ns_role st = MASTER" "ns_failures st + 1 \<ge> kMaxHealthCheckFailures"
    "handleFailover ok (node_key f) (checked h (pre @ [f]) ?s) = (s', cmds)"
    using check_nodes_failover[OF _ assms(6)] by blast
  let ?c = "checked h (pre @ [f]) ?s"
  have A: "A = (\<lambda>k. answers k (L @ map (\<lambda>n. (n, h n)) (pre @ [f])))" using f(3) i by (simp add: A_def asked_def fun_eq_iff)
  have tc: "tracks (L @ map (\<lambda>n. (n, h n)) (pre @ [f])) ?c" "table_ok ?c"
    by (rule tracks_checked[OF q(1)], rule table_ok_checked[OF q(2)])
  note track = tracksD[OF tc(1), folded fun_cong[OF A]]
  have other: "answers (node_key f) (map (\<lambda>n. (n, h n)) pre) = []"
    using assms(3) f(1) by (auto simp: answers_def filter_empty_conv) (metis image_eqI)
  have Af: "A (node_key f) = answers (node_key f) (L @ map (\<lambda>n. (n, h n)) pre) @ [None]" by (simp add: A f(2))
  obtain r where r: "last_answer (answers (node_key f) (L @ map (\<lambda>n. (n, h n)) pre)) = Some r"
    using assms(4) f(1) other by auto
  have failed: "last_answer (A (node_key f)) = Some r" "hc_role r = MASTER" "missed (A (node_key f)) \<ge> 3"
    using tracksD(2)[OF tracks_checked[OF q(1)] f(4) r] f(5,6) unfolding Af last_answer_simps kMaxHealthCheckFailures_def
    by (simp_all only: r)
  from handleFailover_sends[OF f(7) assms(6)] obtain host p where c: "selectBestReplica ?c \<noteq> []"
    "parse_replica (selectBestReplica ?c) = Some (host, p)"
    "cmds = ((host, p), ([], 0), m_currentTerm s) #
      (if ok (host, p)
       then map (\<lambda>n. (n, (host, p), m_currentTerm s))
         (filter (\<lambda>n. node_key n \<noteq> selectBestReplica ?c \<and> node_key n \<noteq> node_key f) (m_monitoredNodes s))
       else [])" by (auto simp: checked_frame)
  have keys: "[] \<notin> fst ` set (m_kvNodes ?c)" and dist: "distinct (map fst (m_kvNodes ?c))" using tc(2) by (simp_all add: table_ok_def)
  from selectBestReplica_best(1)[OF keys c(1)] obtain e where e: "(selectBestReplica ?c, e) \<in> set (m_kvNodes ?c)" "ns_alive e"
    "ns_role e \<noteq> MASTER" "\<forall>(k, n) \<in> set (m_kvNodes ?c). ns_alive n \<and> ns_role n = REPLICA \<longrightarrow> ns_replOffset n \<le> ns_replOffset e" by blast
  have em: "map_of (m_kvNodes ?c) (selectBestReplica ?c) = Some e" using e(1) dist by simp
  from track(1)[OF em] e(2) obtain b where b: "last_answer (A (selectBestReplica ?c)) = Some b" "missed (A (selectBestReplica ?c)) = 0" by auto
  note tb = track(2)[OF em b(1)]
  have best: "hc_replication_offset r' \<le> hc_replication_offset b"
    if n: "last_answer (A (node_key n)) = Some r'" "missed (A (node_key n)) = 0" "hc_role r' = REPLICA" for n r'
  proof -
    have "A (node_key n) \<noteq> []" using n(1) by auto
    then obtain x where x: "map_of (m_kvNodes ?c) (node_key n) = Some x"
      using tc(1) unfolding tracks_def A by (cases "map_of (m_kvNodes ?c) (node_key n)") (auto dest!: spec[of _ "node_key n"])
    from track(1)[OF x] track(2)[OF x n(1)] n have "ns_alive x" "ns_role x = REPLICA" "ns_replOffset x = hc_replication_offset r'" by simp_all
    moreover have "(node_key n, x) \<in> set (m_kvNodes ?c)" by (rule map_of_SomeD[OF x])
    ultimately show ?thesis using e(4) tb by fastforce
  qed
  then have all: "\<forall>n \<in> set (m_monitoredNodes s). \<forall>r. last_answer (A (node_key n)) = Some r \<and> missed (A (node_key n)) = 0 \<and>
      hc_role r = REPLICA \<longrightarrow> hc_replication_offset r \<le> hc_replication_offset b" by blast
  have "f \<in> set (m_monitoredNodes s)" "hc_role b \<noteq> MASTER" using f(1) tb e(3) by simp_all
  then show ?thesis
    using failed b all c(2,3)
    by (intro exI[of _ f] exI[of _ r] exI[of _ "selectBestReplica ?c"] exI[of _ b] exI[of _ host] exI[of _ p]) simp
qed

subsection \<open>A replica that never answered\<close>

text \<open>
  Three monitored nodes \<open>m:1\<close>, \<open>r:2\<close> and \<open>x:3\<close>: the first always reports that it is a master, the second that it is a
  replica, and the third is a replica that is down.
\<close>

definition sample_health :: "endpoint \<Rightarrow> HealthCheckResponse option" where
  "sample_health n =
     (if n = (''m'', 1) then Some \<lparr>hc_role = MASTER, hc_replication_id = ''i'', hc_replication_offset = 9, hc_node_id = ''n''\<rparr>
      else if n = (''r'', 2) then Some \<lparr>hc_role = REPLICA, hc_replication_id = ''i'', hc_replication_offset = 7, hc_node_id = ''k''\<rparr>
      else None)"

definition sample_leader :: Sentinel where
  "sample_leader = becomeLeader (setMonitoredNodes [(''m'', 1), (''r'', 2), (''x'', 3)] (new_sentinel 5000 0))"

definition sample_checks :: "nat \<Rightarrow> Sentinel \<times> replica_of list" where
  "sample_checks k = fold (\<lambda>i (s, cmds). checkKVNodes (of_nat i * 1000) sample_health (\<lambda>_. True) s) [1..<Suc k] (sample_leader, [])"

lemma sample_checks_run:
  "snd (sample_checks 3) = [((''r'', 2), ([], 0), 0), ((''m'', 1), (''r'', 2), 0)]"
  "m_currentMaster (fst (sample_checks 2)) = \<lparr>mi_valid = True, mi_host = ''m'', mi_port = 1, mi_nodeId = ''n''\<rparr>"
  "snd (sample_checks 2) = []"
  by code_simp+

text \<open>
  A monitored node is entered as a master before it has ever answered, so a replica that is down when the sentinel becomes the
  leader counts as a failed master: after three checks the live replica is promoted, and the live master,
  which has answered every check as a master and is recorded as the current one, is told to follow it.
\<close>

theorem silent_replica_deposes_master:
  "m_currentMaster (fst (sample_checks 2)) = \<lparr>mi_valid = True, mi_host = ''m'', mi_port = 1, mi_nodeId = ''n''\<rparr> \<and>
   hc_role (the (sample_health (''m'', 1))) = MASTER \<and>
   ((''r'', 2), ([], 0), 0) \<in> set (snd (sample_checks 3)) \<and> ((''m'', 1), (''r'', 2), 0) \<in> set (snd (sample_checks 3))"
  by (simp add: sample_checks_run) (simp add: sample_health_def)

text \<open>
  The same three nodes when all are up at first: \<open>r\<close> and \<open>x\<close> are replicas, and \<open>x\<close> has received more. After one round of
  answers the master goes silent: two rounds pass, and the next one promotes \<open>x\<close>.
\<close>

definition all_up :: "endpoint \<Rightarrow> HealthCheckResponse option" where
  "all_up n =
     (if n = (''x'', 3) then Some \<lparr>hc_role = REPLICA, hc_replication_id = ''i'', hc_replication_offset = 8, hc_node_id = ''x''\<rparr>
      else sample_health n)"

definition master_down :: "endpoint \<Rightarrow> HealthCheckResponse option" where
  "master_down n = (if n = (''m'', 1) then None else all_up n)"

definition sample_run :: "nat \<Rightarrow> Sentinel \<times> replica_of list" where
  "sample_run k = fold (\<lambda>i (s, cmds). checkKVNodes (of_nat i * 1000) (if i = 1 then all_up else master_down) (\<lambda>_. True) s)
     [1..<Suc k] (sample_leader, [])"

definition sample_log :: "nat \<Rightarrow> (endpoint \<times> HealthCheckResponse option) list" where
  "sample_log k = concat (map (\<lambda>i. asked (of_nat i * 1000) (if i = 1 then all_up else master_down) (fst (sample_run (i - 1)))) [1..<Suc k])"

lemma sample_run_Suc:
  "sample_run (Suc k) = checkKVNodes (of_nat (Suc k) * 1000) (if k = 0 then all_up else master_down) (\<lambda>_. True) (fst (sample_run k))"
  "sample_log (Suc k) = sample_log k @ asked (of_nat (Suc k) * 1000) (if k = 0 then all_up else master_down) (fst (sample_run k))"
  by (simp_all add: sample_run_def sample_log_def case_prod_unfold)

lemma sample_quiet: "(\<And>j. j \<le> k \<Longrightarrow> snd (sample_run j) = []) \<Longrightarrow> quiet_run sample_leader (sample_log k) (fst (sample_run k))"
proof (induction k)
  case 0
  then show ?case by (simp add: sample_run_def sample_log_def quiet_start)
next
  case (Suc k)
  then show ?case using Suc.prems[of "Suc k"] unfolding sample_run_Suc
    by (intro quiet_check[of _ _ _ _ _ "\<lambda>_. True"]) (simp_all add: prod_eq_iff)
qed

theorem failover_correct_witness:
  "\<exists>failed best b. failed \<in> set (m_monitoredNodes (fst (sample_run 3))) \<and>
     missed (answers (node_key failed) (sample_log 4)) \<ge> 3 \<and>
     last_answer (answers best (sample_log 4)) = Some b \<and> hc_replication_offset b \<ge> 8 \<and>
     snd (sample_run 4) = [((''x'', 3), ([], 0), 0), ((''r'', 2), (''x'', 3), 0)]"
proof -
  let ?s = "fst (sample_run 3)" and ?start = "setMonitoredNodes [(''m'', 1), (''r'', 2), (''x'', 3)] (new_sentinel 5000 0)"
  have q: "snd (sample_run 0) = []" "snd (sample_run 1) = []" "snd (sample_run 2) = []" "snd (sample_run 3) = []"
    and cmds: "snd (sample_run 4) = [((''x'', 3), ([], 0), 0), ((''r'', 2), (''x'', 3), 0)]"
    and t: "table_ok ?start" "distinct (map node_key (m_monitoredNodes ?s))"
      "list_all (\<lambda>n. last_answer (answers (node_key n) (sample_log 3)) \<noteq> None) (m_monitoredNodes ?s)"
    and x: "last_answer (answers (node_key (''x'', 3)) (sample_log 4)) =
        Some \<lparr>hc_role = REPLICA, hc_replication_id = ''i'', hc_replication_offset = 8, hc_node_id = ''x''\<rparr>"
      "missed (answers (node_key (''x'', 3)) (sample_log 4)) = 0" "(''x'', 3) \<in> set (m_monitoredNodes ?s)"
    by code_simp+
  have "snd (sample_run j) = []" if "j \<le> 3" for j
    using that q by (auto simp: le_Suc_eq numeral_3_eq_3 numeral_2_eq_2)
  from sample_quiet[of 3, OF this] have run: "quiet_run (becomeLeader ?start) (sample_log 3) ?s" by (simp add: sample_leader_def)
  have four: "sample_run 4 = checkKVNodes 4000 master_down (\<lambda>_. True) ?s" "sample_log 4 = sample_log 3 @ asked 4000 master_down ?s"
    using sample_run_Suc[of 3] by simp_all
  have a: "\<forall>n \<in> set (m_monitoredNodes ?s). last_answer (answers (node_key n) (sample_log 3)) \<noteq> None"
    using t(3) by (simp add: list_all_iff)
  obtain s' where c: "checkKVNodes 4000 master_down (\<lambda>_. True) ?s = (s', snd (sample_run 4))" using four(1) by (metis prod.collapse)
  have "snd (sample_run 4) \<noteq> []" using cmds by simp
  from failover_correct[OF t(1) run t(2) a c this] obtain failed best b where f: "failed \<in> set (m_monitoredNodes ?s)"
    "missed (answers (node_key failed) (sample_log 4)) \<ge> 3" "last_answer (answers best (sample_log 4)) = Some b"
    "\<forall>n \<in> set (m_monitoredNodes ?s). \<forall>r. last_answer (answers (node_key n) (sample_log 4)) = Some r \<and>
       missed (answers (node_key n) (sample_log 4)) = 0 \<and> hc_role r = REPLICA \<longrightarrow>
       hc_replication_offset r \<le> hc_replication_offset b"
    unfolding four(2) by blast
  have "hc_replication_offset b \<ge> 8" using f(4)[rule_format, OF x(3), of "the (last_answer (answers (node_key (''x'', 3)) (sample_log 4)))"] x by simp
  then show ?thesis using f(1-3) cmds by (intro exI[of _ failed] exI[of _ best] exI[of _ b]) simp
qed

end
