(* ===== verification/Spec2Isabelle.thy ===== *)
theory Spec2Isabelle
  imports Aof Reads ClusterSteps ClusterConf Election Failover
begin

text \<open>
  A verification of the key-value server of the zero framework (\<open>src/zero/kv\<close>): a server that speaks the Redis
  protocol over an in-memory store, with transactions, scripts, publish/subscribe, blocking operations, snapshots, a
  log of commands, replication and a cluster of servers; and of the sentinels (\<open>src/zero/rpc\<close>) that watch a group of
  such servers and fail over their master.

  \<^bold>\<open>The program.\<close> A session reads bytes from a socket; \<open>RespReader\<close> turns them into requests; the command
  dispatcher finds a handler, applies the gates (publish/subscribe mode, password, read-only replica, transaction)
  and runs it; handlers call operations of \<open>KvStore\<close> and of the hubs around it; the replies go back through
  \<open>RespEncoder\<close> or the session's fast path; writes are appended to the log and sent to replicas. \<open>KvStore\<close> keeps
  sixteen shards, each a map from database numbers to maps from keys to entries, with watch counters for optimistic
  transactions; entries expire lazily when they are found and actively in a background cycle, and an approximate
  memory limit evicts entries. In a cluster, keys are assigned to slots by a checksum, \<open>ClusterManager\<close> keeps the
  nodes and the owners of the slots, and \<open>ClusterBus\<close> gossips them between the nodes (the build leaves the cluster
  out for the present, see \<open>src/CMakeLists.txt\<close>). Sentinels elect a leader among themselves, which checks the servers
  and promotes a replica when a master is down.

  \<^bold>\<open>Theories and the code they model.\<close>
  \<^item> \<open>Prelude\<close>: 64-bit integers, the conversions of the C library (\<open>strtoll\<close>, \<open>strtoull\<close>, \<open>std::to_string\<close>),
    ordered and unordered maps, and lemmas all theories share; the collections \<open>store_simps\<close> (what the primitives
    of the store do to its views) and \<open>wf_rules\<close> (preservation of the invariant). \<open>Decimal\<close>: binary64 numbers as
    words, \<open>strtod\<close> and the printing of \<open>double\<close>s.
  \<^item> \<open>Resp\<close>: \<open>resp.cc\<close> and \<open>KvSession::appendResponse\<close>. The fast path equals the generic encoder; the
    integer printer is characterised exactly.
  \<^item> \<open>RespReader\<close>: \<open>resp_reader.cc\<close>. The reader returns on every input within its bounds, and reads back values that
    the encoder prints correctly. \<open>RespCut\<close>: the reader on buffers that end anywhere; what it makes of every part of
    a request or of a message between servers.
  \<^item> \<open>Slot\<close>: \<open>cluster/cluster_slot.cc\<close>. The table-driven checksum against the polynomial division; hash tags.
  \<^item> \<open>Glob\<close>: \<open>KvStore::matchGlob\<close>. The backtracking loop returns, and agrees with the recursive meaning.
  \<^item> \<open>Store\<close>: the data of \<open>kv_store.h\<close>, shards, databases, expiry on access, watch counters; the views \<open>peek\<close>,
    \<open>live\<close> and \<open>token\<close>, the invariant \<open>wf_store\<close>, and the interfaces \<open>keyspace\<close> and \<open>watchable\<close>, both
    interpreted on the store.
  \<^item> \<open>Evict\<close>: memory accounting and eviction. \<open>Keys\<close>: deletion, expiry, listing, scanning, flushing, renaming.
  \<^item> \<open>Strings\<close>, \<open>Hashes\<close>, \<open>Lists\<close>, \<open>Sets\<close>, \<open>ZSets\<close> and \<open>ZScores\<close>, \<open>Streams\<close>: the operations on the six types of
    values in \<open>kv_store.cc\<close> and \<open>kv_store_extras.cc\<close>. Lists implement the interface \<open>deque\<close>, hashes a \<open>keyspace\<close> of
    their fields, sets and sorted sets their mathematical counterparts; streams assign growing identifiers and
    keep the pending records of consumer groups.
  \<^item> \<open>Server\<close>: the store as a state machine with one transition per operation; every reachable state satisfies
    the invariant, as long as what enters through \<open>RESTORE\<close> and snapshots is well formed.
  \<^item> \<open>CmdArgs\<close>, \<open>Commands\<close>, \<open>CmdColl\<close>: parsing of arguments, construction of replies, and the handlers of the 97
    commands that use the store only (\<open>command_dispatch.cc\<close>, \<open>commands_p0p1.cc\<close>), which keep the invariant.
  \<^item> \<open>SlowLog\<close>, \<open>PubSub\<close>, \<open>Blocking\<close>, \<open>Replication\<close>: the slow log, the hubs and the master side of replication
    (\<open>slowlog.cc\<close>, \<open>pubsub_hub.cc\<close>, \<open>blocking_list_hub.cc\<close>, \<open>replication.cc\<close>). What is kept, who receives a
    message, which waiter a push serves, and that a partial resynchronisation sends exactly the missing bytes.
  \<^item> \<open>Rdb\<close>: the binary snapshot and the payload of \<open>DUMP\<close> (\<open>rdb.cc\<close>). Loading gives back the live contents; a
    truncated snapshot is refused and changes nothing. The interfaces \<open>codec\<close> and \<open>prefix_reader\<close> carry the proofs
    from the primitive readers and writers to whole entries.
  \<^item> \<open>Session\<close>, \<open>Admin\<close>, \<open>Persist\<close>, \<open>Scripts\<close>: the state of a connection and of the process, and the remaining
    handlers: connection, transactions, blocking pops, publish/subscribe, \<open>CONFIG\<close>, \<open>SLOWLOG\<close>, \<open>INFO\<close>,
    replication, snapshots, and scripts (\<open>lua_engine.cc\<close>).
  \<^item> \<open>Dispatch\<close>: \<open>CommandDispatch\<close>, with the whole table of handlers, the gates, \<open>EXEC\<close> and calls from scripts. The
    interface \<open>dispatch_invariant\<close> says when a property of the state holds through dispatching; \<open>Served\<close>
    interprets it for the invariant of the store (over all requests, transactions and scripts that hand only sound
    payloads to \<open>RESTORE\<close>) and for the queues of transactions. \<open>Transactions\<close>: which handler
    runs. \<open>Watching\<close>: \<open>WATCH\<close>, \<open>MULTI\<close> and \<open>EXEC\<close>.
  \<^item> \<open>Serve\<close>: the buffers of \<open>KvSession\<close> and the loop of \<open>KvServer::handleClient\<close>. The loop ends on every finite
    input, and the server on bytes refines a server on requests, for reads of whole requests; \<open>Reads\<close>: the same for
    reads that are cut anywhere but right after a type marker. \<open>Traffic\<close>: what the loop logs and when it drops a connection.
    \<open>Aof\<close>: replaying and rewriting the log (\<open>aof.cc\<close>).
  \<^item> \<open>Base64\<close>: the encoding of \<open>util/hash_util.cc\<close> and its round trip. \<open>Cluster\<close>: \<open>cluster/cluster_manager.{h,cc}\<close>,
    with the nodes as shared objects. \<open>ClusterInv\<close>: the ownership of slots as an abstract map, arbitration between
    claims, failover, failure detection and the cache of owners. \<open>ClusterBus\<close>: \<open>cluster/cluster_bus.{h,cc}\<close>, the
    messages, their handlers and the receive loop; gossip that is not stale refines the arbitration. \<open>ClusterSteps\<close>: the node as a
    state machine whose every reachable state is consistent. \<open>ClusterConf\<close>: \<open>cluster/cluster_config.cc\<close>, writing and
    reading \<open>nodes.conf\<close>.
  \<^item> \<open>Sentinel\<close>: \<open>rpc/sentinel_manager.{h,cc}\<close> and \<open>rpc/sentinel_service.cc\<close>. \<open>Election\<close>: a group of sentinels as
    interleaved threads, handlers and messages; at most one wins a term, but two may act as its leader.
    \<open>Failover\<close>: when a failover starts, which replica it takes and what it sends.

  \<^bold>\<open>How state and operations correspond.\<close> A record has one field per member of the class it models; an
  operation is a function of the same name from its arguments, the clock readings and the store to the new store and
  the result. Out-parameters and error strings are folded into the result: \<open>Inl\<close> is an error with its text,
  \<open>None\<close> stands for \<open>found = false\<close>. Names that Isabelle reserves carry a suffix (\<open>set_kv\<close>, \<open>append_kv\<close>), and the
  handler of a command is \<open>cmd_\<close> with its name. Every operation of the store is one atomic step: the code holds the
  locks of the shards it uses while it works, and the operations that lock and unlock twice take one clock reading
  per lock. What the parts give to sessions beside the replies is recorded in the world (\<open>wd_output\<close>) in its order.

  \<^bold>\<open>Parameters.\<close> \<open>std::hash\<close> is the argument \<open>h\<close>, the random number generator of the eviction the argument
  \<open>rng\<close>, the clock the argument \<open>now\<close>. For the dispatcher these and everything else that comes from outside are the
  record \<open>Outside\<close> of \<open>Session\<close>: the clock, which sessions exist, what happens while a command waits, whether a file
  can be written, the script interpreter (a library, as a tree of the calls a script makes), \<open>SHA1\<close>. \<open>served_wf\<close>
  assumes that what runs while a command waits are requests of the same kind, and that \<open>RESTORE\<close> is given sound
  payloads only (those of \<open>DUMP\<close> are, \<open>dump_sound\<close>), by clients and by the scripts they send; a forged
  payload can enter an ill-formed entry (\<open>restore_makes_empty_list\<close>). No other theorem assumes anything
  about the parameters beyond what it states. The order in which an unordered map is traversed is the order of a
  list, and statements hold for all lists.

  \<^bold>\<open>Bounds and fuel.\<close> \<open>parseValue\<close> has fuel for the nesting of arrays; \<open>tryParse\<close> gives it more than the
  number of bytes received, which is enough because every level consumes a byte, and \<open>tryParse_returns_bounded\<close>
  shows that the reader always returns. The eviction loop has fuel for one round per
  stored entry, and \<open>evictIfNeededLocked_correct\<close> shows that this suffices: it never stops while there is still
  something to take. \<open>EXEC\<close> and the calls of scripts are tied without fuel: \<open>exec_closed\<close> and
  \<open>script_dispatch_closed\<close> show that the handlers put in at the bottom are never reached. \<open>recvCommand\<close> and
  \<open>serve_loop\<close> are partial functions into an option, and \<open>handleClient_returns\<close> shows that they return on every
  finite input whose waits end;
  \<open>election_safety\<close> is about fewer than \<open>2 ^ 64\<close> steps, so that no 64-bit term wraps; the count of failed health checks
  is unbounded in the model, 32 bits wide in the code. \<open>matchGlob\<close> and all other loops are total functions with a termination proof. Signed 64-bit arithmetic wraps
  where it can leave its range.

  \<^bold>\<open>Not modelled.\<close> The loader of the older JSON snapshots, which rests on a JSON library; the side of a replica that
  reads from its master's socket; the handlers of \<open>CLUSTER\<close> and \<open>MIGRATE\<close> (\<open>cluster_commands.cc\<close>,
  \<open>cluster_migrate.cc\<close>), which refer to session fields that do not exist; the listening socket, the links and the gossip timer of the
  bus, and the channels of the sentinels; starting and stopping the server,
  its timers, the files and sockets themselves; waits that never end and exceptions (running out of memory, such as
  \<open>reserve\<close> for a count that a request or a file announces, is taken not to happen); scores that are NaN in
  the order of sorted sets, where \<open>std::sort\<close> is undefined; the setting \<open>lua-global-atomic\<close>, which only takes locks; data
  races between the threads. The rest of the framework (fibers, HTTP, other RPC, database clients) is outside the scope
  of this development.
\<close>

end
